(* ===== verification/Prelude.thy ===== *)
theory Prelude
  imports Main "HOL-Library.Word"
begin

section \<open>Shared types, big-endian words and generic lemmas\<close>

text \<open>
  The theory holds what every component of the development shares.

  \<^item> The machine integers of the C++ sources as words of their width
    (\<^verbatim>\<open>std::uint8_t\<close> to \<^verbatim>\<open>std::uint64_t\<close>), and byte strings as lists of
    bytes. A \<^verbatim>\<open>std::string\<close> is a \<open>string\<close>; \<open>byte_of_char\<close> and
    \<open>char_of_byte\<close> convert its characters, as the \<^verbatim>\<open>reinterpret_cast\<close>s of the
    sources do. A \<^verbatim>\<open>std::size_t\<close> that counts elements is a \<open>nat\<close>.
  \<^item> The collections \<open>wire_run\<close> (rules that run a decoder over encoded
    bytes) and \<open>wire_inv\<close> (rules that invert a successful or a faulting run),
    filled by the theory of the wire primitives.
  \<^item> Lemmas on words, bits and lists used by several components.
\<close>

unbundle bit_operations_syntax

type_synonym u8 = "8 word"
type_synonym u16 = "16 word"
type_synonym u32 = "32 word"
type_synonym u64 = "64 word"
type_synonym bytes = "u8 list"

named_theorems wire_run \<open>rules that run a decoder over the bytes an encoder wrote\<close>
named_theorems wire_inv \<open>rules that invert a decoder that returned a value or read out of range\<close>

subsection \<open>Characters and bytes\<close>

definition byte_of_char :: "char \<Rightarrow> u8" where
  "byte_of_char c = of_nat (of_char c)"

definition char_of_byte :: "u8 \<Rightarrow> char" where
  "char_of_byte b = char_of (unat b)"

lemma char_of_byte_of_char [simp]: "char_of_byte (byte_of_char c) = c"
  by (simp add: char_of_byte_def byte_of_char_def unat_of_nat take_bit_eq_mod [symmetric]
      flip: char_of_nat)

lemma unat_u8_less_256 [simp]: "unat (b :: u8) < 256"
proof -
  have "unat b < 2 ^ LENGTH(8)" by (rule unsigned_less)
  then show ?thesis by simp
qed

lemma byte_of_char_of_byte [simp]: "byte_of_char (char_of_byte b) = b"
proof -
  have "unat b < 256"
    by simp
  then show ?thesis
    by (simp add: char_of_byte_def byte_of_char_def)
qed

lemma map_char_of_byte_of_char [simp]: "map (char_of_byte \<circ> byte_of_char) s = s"
  by (induction s) simp_all

lemma map_byte_of_char_of_byte [simp]: "map (byte_of_char \<circ> char_of_byte) bs = bs"
  by (induction bs) simp_all

subsection \<open>Small words\<close>

lemma u8_le_1_iff: "(b :: u8) \<le> 1 \<longleftrightarrow> b = 0 \<or> b = 1"
  by (auto simp: word_le_nat_alt le_Suc_eq unat_eq_0 word_unat_eq_iff [of b 1])


lemma u8_le_2_iff: "(b :: u8) \<le> 2 \<longleftrightarrow> b = 0 \<or> b = 1 \<or> b = 2"
  by (auto simp: word_le_nat_alt word_unat_eq_iff)

lemma u8_le_3_iff: "(b :: u8) \<le> 3 \<longleftrightarrow> b = 0 \<or> b = 1 \<or> b = 2 \<or> b = 3"
  by (auto simp: word_le_nat_alt word_unat_eq_iff)

lemma u8_le_4_iff: "(b :: u8) \<le> 4 \<longleftrightarrow> b = 0 \<or> b = 1 \<or> b = 2 \<or> b = 3 \<or> b = 4"
  by (auto simp: word_le_nat_alt word_unat_eq_iff)

lemma u8_le_5_iff:
  "(b :: u8) \<le> 5 \<longleftrightarrow> b = 0 \<or> b = 1 \<or> b = 2 \<or> b = 3 \<or> b = 4 \<or> b = 5"
  by (auto simp: word_le_nat_alt word_unat_eq_iff)

lemmas u8_le_iffs = u8_le_1_iff u8_le_2_iff u8_le_3_iff u8_le_4_iff u8_le_5_iff

lemma flag_byte: "(b :: u8) \<le> 1 \<Longrightarrow> (if b \<noteq> 0 then 1 else 0) = b"
  by (auto simp: u8_le_1_iff)

lemma of_nat_u8_unat: "n < 256 \<Longrightarrow> unat (of_nat n :: u8) = n"
  by (simp add: unat_of_nat)

lemma of_nat_u16_unat: "n < 65536 \<Longrightarrow> unat (of_nat n :: u16) = n"
  by (simp add: unat_of_nat)

lemma of_nat_u16_eq_0: "n < 65536 \<Longrightarrow> (of_nat n :: u16) = 0 \<longleftrightarrow> n = 0"
  by (simp add: word_unat_eq_iff unat_of_nat)

lemma of_nat_length_word: "unat (v :: 'a::len word) = n \<Longrightarrow> of_nat n = v"
  by auto

subsection \<open>Positions in an enumeration\<close>

fun position :: "'a \<Rightarrow> 'a list \<Rightarrow> nat" where
  "position x [] = 0"
| "position x (y # ys) = (if x = y then 0 else Suc (position x ys))"

lemma position_less: "x \<in> set xs \<Longrightarrow> position x xs < length xs"
  by (induction xs) auto

lemma nth_position: "x \<in> set xs \<Longrightarrow> xs ! position x xs = x"
  by (induction xs) auto

lemma position_nth: "distinct xs \<Longrightarrow> i < length xs \<Longrightarrow> position (xs ! i) xs = i"
  by (induction xs arbitrary: i) (auto simp: nth_Cons split: nat.splits)

subsection \<open>Shifting a byte into a word\<close>

text \<open>
  \<open>shift_in value b\<close> is the loop body \<^verbatim>\<open>value = (value << 8U) | byte\<close> of the
  big-endian readers.
\<close>

definition shift_in :: "'a::len word \<Rightarrow> u8 \<Rightarrow> 'a word" where
  "shift_in value b = push_bit 8 value OR ucast b"

lemma bit_shift_in:
  "bit (shift_in v b :: 'a::len word) n \<longleftrightarrow>
     n < LENGTH('a) \<and> (if n < 8 then bit b n else bit v (n - 8))"
  by (auto simp: shift_in_def bit_simps not_less dest: bit_imp_le_length)

lemma bit_ucast_drop:
  "bit (ucast (drop_bit k v :: 'a::len word) :: u8) n \<longleftrightarrow> n < 8 \<and> bit v (k + n)"
  by (auto simp: bit_simps)

lemma bit_ucast8: "bit (ucast (v :: 'a::len word) :: u8) n \<longleftrightarrow> n < 8 \<and> bit v n"
  by (auto simp: bit_simps)

lemma shift_in_drop:
  "k' = k + 8 \<Longrightarrow>
     shift_in (drop_bit k' v) (ucast (drop_bit k v)) = drop_bit k (v :: 'a::len word)"
  by (rule bit_word_eqI)
    (auto simp: bit_shift_in bit_ucast_drop bit_simps add.commute dest: bit_imp_le_length)

lemma shift_in_top:
  "LENGTH('a::len) = k + 8 \<Longrightarrow>
     shift_in 0 (ucast (drop_bit k v)) = drop_bit k (v :: 'a::len word)"
  by (rule bit_word_eqI)
    (auto simp: bit_shift_in bit_ucast_drop bit_simps add.commute dest: bit_imp_le_length)

subsection \<open>Direct-mapped frames\<close>

text \<open>Two frames less than the capacity apart never share a slot of a ring.\<close>

lemma mod_distinct:
  fixes a b n :: nat
  assumes "a < b" "b < a + n"
  shows "a mod n \<noteq> b mod n"
proof
  assume "a mod n = b mod n"
  then have "n dvd b - a" using assms(1) mod_eq_dvd_iff_nat [of a b n] by simp
  then show False using assms by (auto dest: dvd_imp_le)
qed

lemma unat_frame: "n < 2 ^ 32 \<Longrightarrow> unat (of_nat n :: u32) = n"
  by (simp add: unat_of_nat take_bit_nat_eq_self)

subsection \<open>Invariants of sequences of calls\<close>

text \<open>An operation that keeps an invariant keeps it over every sequence of calls.\<close>

locale invariant_run =
  fixes inv :: "'s \<Rightarrow> bool" and perform :: "'c \<Rightarrow> 's \<Rightarrow> 's"
  assumes keeps: "inv s \<Longrightarrow> inv (perform c s)"
begin

lemma run_keeps: "inv s \<Longrightarrow> inv (fold perform cs s)"
  by (induction cs arbitrary: s) (simp_all add: keeps)

end

end
