(* ===== verification/Wire.thy ===== *)
theory Wire
  imports Prelude
begin

section \<open>Wire primitives: big-endian writers, cursor readers, codecs\<close>

text \<open>
  The anonymous helpers at the top of
  \<^verbatim>\<open>src/runtime-recomp/src/game/netplay/netplay_protocol.cpp\<close>.

  \<^item> A writer \<open>Put\<close> appends to \<^verbatim>\<open>out\<close>; the model returns the bytes it appends.
  \<^item> A reader \<open>Take\<close> moves \<^verbatim>\<open>cursor\<close> over \<^verbatim>\<open>bytes\<close>; the model's cursor is the
    list of the bytes that are left, so \<^verbatim>\<open>cursor + n > bytes.size()\<close> is
    \<open>length c < n\<close> and \<^verbatim>\<open>cursor == bytes.size()\<close> is \<open>c = []\<close>. \<open>None\<close> is the
    reader's \<^verbatim>\<open>false\<close>.
  \<^item> A decoder returns \<open>Inr\<close> of the payload for \<^verbatim>\<open>true\<close> and \<open>Inl (Rejected msg)\<close>
    for \<^verbatim>\<open>false\<close>, with the text it stores in \<^verbatim>\<open>error\<close> (the empty text for a decoder
    without that parameter). An access \<^verbatim>\<open>bytes[cursor]\<close> that no reader guards is
    \<open>index8\<close>, which returns \<open>Inl OutOfRange\<close> when no byte is left: in C++
    the access would be undefined behaviour. That no decoder ever returns
    \<open>OutOfRange\<close> is part of the contract of every codec below.

  The locales \<open>wire_codec\<close> and \<open>exact_codec\<close> state what a pair of an encoder and
  a decoder promises; every message of the protocol interprets one of them.
\<close>

datatype wire_error = Rejected string | OutOfRange

type_synonym 'a decoded = "wire_error + 'a"

subsection \<open>Writers\<close>

definition Put16 :: "u16 \<Rightarrow> bytes" where
  "Put16 value = [ucast (drop_bit 8 value), ucast value]"

definition Put32 :: "u32 \<Rightarrow> bytes" where
  "Put32 value = map (\<lambda>shift. ucast (drop_bit shift value)) [24, 16, 8, 0]"

definition Put64 :: "u64 \<Rightarrow> bytes" where
  "Put64 value =
     map (\<lambda>shift. ucast (drop_bit shift value)) [56, 48, 40, 32, 24, 16, 8, 0]"

definition PutString :: "string \<Rightarrow> nat \<Rightarrow> bytes option" where
  "PutString value maximum =
     (if maximum < length value \<or> 255 < length value then None
      else Some (of_nat (length value) # map byte_of_char value))"

subsection \<open>Readers\<close>

definition Take16 :: "bytes \<Rightarrow> (u16 \<times> bytes) option" where
  "Take16 c = (if length c < 2 then None
               else Some (foldl shift_in 0 (take 2 c), drop 2 c))"

definition Take32 :: "bytes \<Rightarrow> (u32 \<times> bytes) option" where
  "Take32 c = (if length c < 4 then None
               else Some (foldl shift_in 0 (take 4 c), drop 4 c))"

definition Take64 :: "bytes \<Rightarrow> (u64 \<times> bytes) option" where
  "Take64 c = (if length c < 8 then None
               else Some (foldl shift_in 0 (take 8 c), drop 8 c))"

definition TakeString :: "bytes \<Rightarrow> nat \<Rightarrow> (string \<times> bytes) option" where
  "TakeString c maximum =
     (case c of [] \<Rightarrow> None
      | b # c' \<Rightarrow> let len = unat b in
          if maximum < len \<or> length c' < len then None
          else Some (map char_of_byte (take len c'), drop len c'))"

subsection \<open>Steps of a decoder\<close>

text \<open>
  Each step takes the message the decoder stores when the step fails, the bytes that are
  left and the rest of the decoder.
\<close>

definition ensure :: "bool \<Rightarrow> string \<Rightarrow> 'a decoded \<Rightarrow> 'a decoded" where
  "ensure ok msg k = (if ok then k else Inl (Rejected msg))"

definition expect8 :: "string \<Rightarrow> bytes \<Rightarrow> (u8 \<Rightarrow> bytes \<Rightarrow> 'a decoded) \<Rightarrow> 'a decoded" where
  "expect8 msg c k = (case c of [] \<Rightarrow> Inl (Rejected msg) | b # c' \<Rightarrow> k b c')"

definition index8 :: "bytes \<Rightarrow> (u8 \<Rightarrow> bytes \<Rightarrow> 'a decoded) \<Rightarrow> 'a decoded" where
  "index8 c k = (case c of [] \<Rightarrow> Inl OutOfRange | b # c' \<Rightarrow> k b c')"

definition expect16 :: "string \<Rightarrow> bytes \<Rightarrow> (u16 \<Rightarrow> bytes \<Rightarrow> 'a decoded) \<Rightarrow> 'a decoded" where
  "expect16 msg c k = (case Take16 c of None \<Rightarrow> Inl (Rejected msg) | Some (v, c') \<Rightarrow> k v c')"

definition expect32 :: "string \<Rightarrow> bytes \<Rightarrow> (u32 \<Rightarrow> bytes \<Rightarrow> 'a decoded) \<Rightarrow> 'a decoded" where
  "expect32 msg c k = (case Take32 c of None \<Rightarrow> Inl (Rejected msg) | Some (v, c') \<Rightarrow> k v c')"

definition expect64 :: "string \<Rightarrow> bytes \<Rightarrow> (u64 \<Rightarrow> bytes \<Rightarrow> 'a decoded) \<Rightarrow> 'a decoded" where
  "expect64 msg c k = (case Take64 c of None \<Rightarrow> Inl (Rejected msg) | Some (v, c') \<Rightarrow> k v c')"

definition expectString ::
  "string \<Rightarrow> nat \<Rightarrow> bytes \<Rightarrow> (string \<Rightarrow> bytes \<Rightarrow> 'a decoded) \<Rightarrow> 'a decoded" where
  "expectString msg maximum c k =
     (case TakeString c maximum of None \<Rightarrow> Inl (Rejected msg) | Some (v, c') \<Rightarrow> k v c')"

text \<open>A counted loop of a decoder: \<open>n\<close> elements, each read by \<open>step\<close>.\<close>

fun take_list ::
  "nat \<Rightarrow> (bytes \<Rightarrow> ('e \<Rightarrow> bytes \<Rightarrow> 'a decoded) \<Rightarrow> 'a decoded) \<Rightarrow> bytes \<Rightarrow>
     ('e list \<Rightarrow> bytes \<Rightarrow> 'a decoded) \<Rightarrow> 'a decoded" where
  "take_list 0 step c k = k [] c"
| "take_list (Suc n) step c k = step c (\<lambda>e c. take_list n step c (\<lambda>es c. k (e # es) c))"

subsection \<open>The writers and readers are inverse to each other\<close>

lemma be16_value: "foldl shift_in 0 (Put16 v) = v"
  using shift_in_top [of 8 v] shift_in_drop [of 8 0 v] by (simp add: Put16_def)

lemma be32_value: "foldl shift_in 0 (Put32 v) = v"
  using shift_in_top [of 24 v] shift_in_drop [of 24 16 v] shift_in_drop [of 16 8 v]
    shift_in_drop [of 8 0 v] by (simp add: Put32_def)

lemma be64_value: "foldl shift_in 0 (Put64 v) = v"
  using shift_in_top [of 56 v] shift_in_drop [of 56 48 v] shift_in_drop [of 48 40 v]
    shift_in_drop [of 40 32 v] shift_in_drop [of 32 24 v] shift_in_drop [of 24 16 v]
    shift_in_drop [of 16 8 v] shift_in_drop [of 8 0 v] by (simp add: Put64_def)

lemmas be_bits = bit_shift_in bit_ucast_drop bit_ucast8 bit_drop_bit_eq

lemma be16_bytes: "Put16 (foldl shift_in 0 [a, b]) = [a, b]"
  by (auto simp: Put16_def be_bits intro!: bit_word_eqI)

lemma be32_bytes: "Put32 (foldl shift_in 0 [a, b, c, d]) = [a, b, c, d]"
  by (auto simp: Put32_def be_bits intro!: bit_word_eqI)

lemma be64_bytes: "Put64 (foldl shift_in 0 [a, b, c, d, e, f, g, h]) = [a, b, c, d, e, f, g, h]"
  by (auto simp: Put64_def be_bits intro!: bit_word_eqI)

lemma length_Put [simp]: "length (Put16 v) = 2" "length (Put32 w) = 4" "length (Put64 x) = 8"
  by (simp_all add: Put16_def Put32_def Put64_def)

lemma Put_nonempty [simp]: "Put16 v \<noteq> []" "Put32 w \<noteq> []" "Put64 x \<noteq> []"
  by (simp_all add: Put16_def Put32_def Put64_def)

lemma Put16_shift: "length c = 2 \<Longrightarrow> Put16 (foldl shift_in 0 c) = c"
  by (auto simp: length_Suc_conv numeral_eq_Suc simp del: foldl_Cons foldl_Nil
      intro: be16_bytes)

lemma Put32_shift: "length c = 4 \<Longrightarrow> Put32 (foldl shift_in 0 c) = c"
  by (auto simp: length_Suc_conv numeral_eq_Suc simp del: foldl_Cons foldl_Nil
      intro: be32_bytes)

lemma Put64_shift: "length c = 8 \<Longrightarrow> Put64 (foldl shift_in 0 c) = c"
  by (auto simp: length_Suc_conv numeral_eq_Suc simp del: foldl_Cons foldl_Nil
      intro: be64_bytes)

lemma Put_inject [simp]: "Put16 a = Put16 a' \<longleftrightarrow> a = a'" "Put32 b = Put32 b' \<longleftrightarrow> b = b'"
    "Put64 d = Put64 d' \<longleftrightarrow> d = d'"
  by (metis be16_value, metis be32_value, metis be64_value)

lemma Put_append_inject [simp]:
  "Put16 a @ xs = Put16 a' @ ys \<longleftrightarrow> a = a' \<and> xs = ys"
  "Put32 b @ xs = Put32 b' @ ys \<longleftrightarrow> b = b' \<and> xs = ys"
  "Put64 d @ xs = Put64 d' @ ys \<longleftrightarrow> d = d' \<and> xs = ys"
  by simp_all

lemma Take16_iff: "Take16 c = Some (v, r) \<longleftrightarrow> c = Put16 v @ r"
proof
  assume h: "Take16 c = Some (v, r)"
  then have "Put16 v = take 2 c" "r = drop 2 c"
    by (auto simp: Take16_def Put16_shift split: if_splits)
  then show "c = Put16 v @ r" by simp
qed (simp add: Take16_def be16_value)

lemma Take32_iff: "Take32 c = Some (v, r) \<longleftrightarrow> c = Put32 v @ r"
proof
  assume h: "Take32 c = Some (v, r)"
  then have "Put32 v = take 4 c" "r = drop 4 c"
    by (auto simp: Take32_def Put32_shift split: if_splits)
  then show "c = Put32 v @ r" by simp
qed (simp add: Take32_def be32_value)

lemma Take64_iff: "Take64 c = Some (v, r) \<longleftrightarrow> c = Put64 v @ r"
proof
  assume h: "Take64 c = Some (v, r)"
  then have "Put64 v = take 8 c" "r = drop 8 c"
    by (auto simp: Take64_def Put64_shift split: if_splits)
  then show "c = Put64 v @ r" by simp
qed (simp add: Take64_def be64_value)

lemma TakeString_iff:
  "TakeString c m = Some (s, r) \<longleftrightarrow> (\<exists>b. PutString s m = Some b \<and> c = b @ r)"
proof
  assume "TakeString c m = Some (s, r)"
  then obtain b c' where c: "c = b # c'" and m: "unat b \<le> m" and l: "unat b \<le> length c'"
    and s: "s = map char_of_byte (take (unat b) c')" and r: "r = drop (unat b) c'"
    by (auto simp: TakeString_def Let_def split: list.splits if_splits)
  have "length s = unat b" using l s by simp
  moreover have "length s \<le> 255" using \<open>length s = unat b\<close> unat_u8_less_256 [of b] by linarith
  ultimately show "\<exists>b. PutString s m = Some b \<and> c = b @ r"
    using m c s r by (auto simp: PutString_def)
next
  assume "\<exists>b. PutString s m = Some b \<and> c = b @ r"
  then show "TakeString c m = Some (s, r)"
    by (auto simp: PutString_def TakeString_def of_nat_u8_unat split: if_splits)
qed

lemma length_PutString: "PutString s m = Some b \<Longrightarrow> length b = Suc (length s)"
  by (auto simp: PutString_def split: if_splits)

lemma PutString_bound: "PutString s m = Some b \<Longrightarrow> length s \<le> m \<and> length s \<le> 255 \<and> b \<noteq> []"
  by (auto simp: PutString_def split: if_splits)

subsection \<open>Running and inverting the steps\<close>

lemma ensure_run [wire_run]: "ok \<Longrightarrow> ensure ok msg k = k"
  by (simp add: ensure_def)

lemma expect8_run [wire_run]: "expect8 msg (b # c) k = k b c"
  by (simp add: expect8_def)

lemma index8_run [wire_run]: "index8 (b # c) k = k b c"
  by (simp add: index8_def)

lemma expect16_run [wire_run]:
  "expect16 msg (Put16 v @ c) k = k v c" "expect16 msg (Put16 v) k = k v []"
  using Take16_iff [of "Put16 v @ c" v c] Take16_iff [of "Put16 v" v "[]"]
  by (simp_all add: expect16_def)

lemma expect32_run [wire_run]:
  "expect32 msg (Put32 v @ c) k = k v c" "expect32 msg (Put32 v) k = k v []"
  using Take32_iff [of "Put32 v @ c" v c] Take32_iff [of "Put32 v" v "[]"]
  by (simp_all add: expect32_def)

lemma expect64_run [wire_run]:
  "expect64 msg (Put64 v @ c) k = k v c" "expect64 msg (Put64 v) k = k v []"
  using Take64_iff [of "Put64 v @ c" v c] Take64_iff [of "Put64 v" v "[]"]
  by (simp_all add: expect64_def)

lemma expectString_run [wire_run]:
  "PutString s m = Some b \<Longrightarrow> expectString msg m (b @ c) k = k s c"
  using TakeString_iff [of "b @ c" m s c] by (simp add: expectString_def)

lemma expectString_run_end [wire_run]:
  "PutString s m = Some b \<Longrightarrow> expectString msg m b k = k s []"
  using TakeString_iff [of b m s "[]"] by (simp add: expectString_def)

lemma ensure_inv [wire_inv]:
  "ensure ok msg k = Inr x \<longleftrightarrow> ok \<and> k = Inr x"
  "ensure ok msg k = Inl OutOfRange \<longleftrightarrow> ok \<and> k = Inl OutOfRange"
  by (simp_all add: ensure_def)

lemma expect8_inv [wire_inv]:
  "expect8 msg c k = Inr x \<longleftrightarrow> (\<exists>b r. c = b # r \<and> k b r = Inr x)"
  "expect8 msg c k = Inl OutOfRange \<longleftrightarrow> (\<exists>b r. c = b # r \<and> k b r = Inl OutOfRange)"
  by (auto simp: expect8_def split: list.splits)

lemma index8_inv [wire_inv]:
  "index8 c k = Inr x \<longleftrightarrow> (\<exists>b r. c = b # r \<and> k b r = Inr x)"
  "index8 c k = Inl OutOfRange \<longleftrightarrow> c = [] \<or> (\<exists>b r. c = b # r \<and> k b r = Inl OutOfRange)"
  by (auto simp: index8_def split: list.splits)

lemma expect16_inv [wire_inv]:
  "expect16 msg c k = Inr x \<longleftrightarrow> (\<exists>v r. c = Put16 v @ r \<and> k v r = Inr x)"
  "expect16 msg c k = Inl OutOfRange \<longleftrightarrow> (\<exists>v r. c = Put16 v @ r \<and> k v r = Inl OutOfRange)"
  by (cases "Take16 c"; force simp: expect16_def simp flip: Take16_iff)+

lemma expect32_inv [wire_inv]:
  "expect32 msg c k = Inr x \<longleftrightarrow> (\<exists>v r. c = Put32 v @ r \<and> k v r = Inr x)"
  "expect32 msg c k = Inl OutOfRange \<longleftrightarrow> (\<exists>v r. c = Put32 v @ r \<and> k v r = Inl OutOfRange)"
  by (cases "Take32 c"; force simp: expect32_def simp flip: Take32_iff)+

lemma expect64_inv [wire_inv]:
  "expect64 msg c k = Inr x \<longleftrightarrow> (\<exists>v r. c = Put64 v @ r \<and> k v r = Inr x)"
  "expect64 msg c k = Inl OutOfRange \<longleftrightarrow> (\<exists>v r. c = Put64 v @ r \<and> k v r = Inl OutOfRange)"
  by (cases "Take64 c"; force simp: expect64_def simp flip: Take64_iff)+

lemma expectString_eq:
  assumes "\<And>e. y = Inl (Rejected e) \<Longrightarrow> False"
  shows "expectString msg m c k = y \<longleftrightarrow>
    (\<exists>s b r. PutString s m = Some b \<and> c = b @ r \<and> k s r = y)"
proof (cases "TakeString c m")
  case None
  then have "\<not> (PutString s m = Some b \<and> c = b @ r)" for s b r
    using TakeString_iff [of c m s r] by auto
  with None assms show ?thesis
    by (auto simp: expectString_def)
next
  case (Some p)
  obtain s r where p: "p = (s, r)" by force
  have "(\<exists>b. PutString s' m = Some b \<and> c = b @ r') \<longleftrightarrow> s' = s \<and> r' = r" for s' r'
    using Some p TakeString_iff [of c m s' r'] by auto
  then have "(\<exists>s b r. PutString s m = Some b \<and> c = b @ r \<and> k s r = y) \<longleftrightarrow> k s r = y"
    by metis
  then show ?thesis
    using Some p by (simp add: expectString_def)
qed

lemma expectString_inv [wire_inv]:
  "expectString msg m c k = Inr x \<longleftrightarrow>
     (\<exists>s b r. PutString s m = Some b \<and> c = b @ r \<and> k s r = Inr x)"
  "expectString msg m c k = Inl OutOfRange \<longleftrightarrow>
     (\<exists>s b r. PutString s m = Some b \<and> c = b @ r \<and> k s r = Inl OutOfRange)"
  by (rule expectString_eq, simp)+

subsection \<open>The contract of a codec\<close>

text \<open>
  \<open>wf\<close> is the set of payloads the decoder can return. The decoder inverts the encoder on
  them, accepts nothing else, accepts only the encoder's own image of what it returns, and
  never reads out of range.
\<close>

locale wire_codec =
  fixes enc :: "'a \<Rightarrow> bytes"
    and dec :: "bytes \<Rightarrow> 'a decoded"
    and wf :: "'a \<Rightarrow> bool"
  assumes dec_enc: "wf x \<Longrightarrow> dec (enc x) = Inr x"
    and dec_wf: "dec bs = Inr x \<Longrightarrow> wf x"
    and dec_canon: "dec bs = Inr x \<Longrightarrow> enc x = bs"
    and dec_safe: "dec bs \<noteq> Inl OutOfRange"
begin

lemma dec_iff: "dec bs = Inr x \<longleftrightarrow> wf x \<and> enc x = bs"
  using dec_enc dec_wf dec_canon by blast

lemma enc_inject: "wf x \<Longrightarrow> wf y \<Longrightarrow> enc x = enc y \<Longrightarrow> x = y"
  using dec_enc by (metis sum.inject(2))

lemma dec_inject: "dec as = Inr x \<Longrightarrow> dec bs = Inr x \<Longrightarrow> as = bs"
  using dec_canon by metis

lemma dec_cases: "(\<exists>x. dec bs = Inr x) \<or> (\<exists>msg. dec bs = Inl (Rejected msg))"
  using dec_safe [of bs] by (metis sum.exhaust wire_error.exhaust)

end

text \<open>
  Most encoders signal an invalid payload with the empty byte string. The codec is exact
  when the decoder accepts precisely what the encoder can write.
\<close>

locale exact_codec =
  fixes enc :: "'a \<Rightarrow> bytes"
    and dec :: "bytes \<Rightarrow> 'a decoded"
  assumes exact: "dec bs = Inr x \<longleftrightarrow> bs \<noteq> [] \<and> enc x = bs"
    and exact_safe: "dec bs \<noteq> Inl OutOfRange"

lemma exact_codecI:
  assumes "\<And>bs x. dec bs = Inr x \<Longrightarrow> bs \<noteq> [] \<and> enc x = bs"
    and "\<And>x. enc x \<noteq> [] \<Longrightarrow> dec (enc x) = Inr x"
    and "\<And>bs. dec bs \<noteq> Inl OutOfRange"
  shows "exact_codec enc dec"
  using assms by unfold_locales blast+

sublocale exact_codec \<subseteq> codec: wire_codec enc dec "\<lambda>x. enc x \<noteq> []"
  by unfold_locales (auto simp: exact exact_safe)

subsection \<open>The contract of an element inside a payload\<close>

text \<open>
  An element that \<open>put\<close> writes and \<open>step\<close> reads. The lemmas lift the contract from one
  element to a counted loop over them.
\<close>

locale wire_item =
  fixes put :: "'e \<Rightarrow> bytes"
    and step :: "bytes \<Rightarrow> ('e \<Rightarrow> bytes \<Rightarrow> 'a decoded) \<Rightarrow> 'a decoded"
    and ok :: "'e \<Rightarrow> bool"
  assumes step_run: "ok e \<Longrightarrow> step (put e @ r) k = k e r"
    and step_inv: "step c k = Inr x \<Longrightarrow> \<exists>e r. ok e \<and> c = put e @ r \<and> k e r = Inr x"
    and step_safe: "step c k = Inl OutOfRange \<Longrightarrow>
      \<exists>e r. ok e \<and> c = put e @ r \<and> k e r = Inl OutOfRange"
begin

lemma take_list_run:
  "\<forall>e \<in> set es. ok e \<Longrightarrow> take_list (length es) step (concat (map put es) @ r) k = k es r"
  by (induction es arbitrary: k) (auto simp: step_run)

lemma take_list_run_end:
  "\<forall>e \<in> set es. ok e \<Longrightarrow> take_list (length es) step (concat (map put es)) k = k es []"
  using take_list_run [of es "[]" k] by simp

lemma take_list_inv:
  "take_list n step c k = Inr x \<Longrightarrow>
     \<exists>es r. length es = n \<and> (\<forall>e \<in> set es. ok e) \<and> c = concat (map put es) @ r \<and> k es r = Inr x"
proof (induction n arbitrary: c k)
  case 0
  then show ?case by auto
next
  case (Suc n)
  from step_inv [of c "\<lambda>e c. take_list n step c (\<lambda>es c. k (e # es) c)" x] Suc.prems
  obtain e r where e: "ok e" "c = put e @ r"
    and t: "take_list n step r (\<lambda>es c. k (e # es) c) = Inr x"
    by auto
  from Suc.IH [OF t] obtain es r' where "length es = n" "\<forall>e \<in> set es. ok e"
    "r = concat (map put es) @ r'" "k (e # es) r' = Inr x"
    by blast
  with e show ?case
    by (intro exI [of _ "e # es"] exI [of _ r']) simp
qed

lemma take_list_safe:
  "take_list n step c k = Inl OutOfRange \<Longrightarrow>
     \<exists>es r. length es = n \<and> c = concat (map put es) @ r \<and> k es r = Inl OutOfRange"
proof (induction n arbitrary: c k)
  case 0
  then show ?case by auto
next
  case (Suc n)
  from step_safe [of c "\<lambda>e c. take_list n step c (\<lambda>es c. k (e # es) c)"] Suc.prems
  obtain e r where e: "c = put e @ r"
    and t: "take_list n step r (\<lambda>es c. k (e # es) c) = Inl OutOfRange"
    by auto
  from Suc.IH [OF t] obtain es r' where "length es = n"
    "r = concat (map put es) @ r'" "k (e # es) r' = Inl OutOfRange"
    by blast
  with e show ?case
    by (intro exI [of _ "e # es"] exI [of _ r']) simp
qed

end

end
