(* ===== verification/Float32.thy ===== *)
theory Float32
  imports Complex_Main "HOL-Library.Log_Nat"
begin

section \<open>Single-precision values\<close>

text \<open>
  What the modelled code uses of \<^verbatim>\<open>float\<close>, in IEEE 754 binary32 with rounding to the
  nearest value, ties to even. A finite value is the rational number it denotes (the two
  zeros are identified: no modelled operation tells them apart); the other values are the
  infinities and NaN. Every comparison with NaN is false.

  \<^item> \<open>f32_clamp\<close> is \<^verbatim>\<open>std::clamp\<close>, which tests \<^verbatim>\<open>v < lo\<close> and then \<^verbatim>\<open>hi < v\<close> and
    returns \<^verbatim>\<open>v\<close> otherwise, so a NaN passes through it.
  \<^item> \<open>f32_round\<close> rounds a rational to the grid of binary32: 24 significant bits, and
    multiples of \<open>2\<^sup>-\<^sup>1\<^sup>4\<^sup>9\<close> below the normal range; \<open>f32_of_rat\<close> adds the overflow
    to an infinity.
  \<^item> \<open>f32_lround\<close> is \<^verbatim>\<open>std::lround\<close>, which rounds halves away from zero; \<open>None\<close>
    where its result is unspecified.
\<close>

datatype f32 = Finite rat | Infinite bool | NaN

fun f32_less :: "f32 \<Rightarrow> f32 \<Rightarrow> bool" where
  "f32_less (Finite x) (Finite y) = (x < y)"
| "f32_less (Finite x) (Infinite neg) = (\<not> neg)"
| "f32_less (Infinite neg) (Finite y) = neg"
| "f32_less (Infinite neg) (Infinite neg') = (neg \<and> \<not> neg')"
| "f32_less NaN y = False"
| "f32_less x NaN = False"

definition f32_clamp :: "f32 \<Rightarrow> f32 \<Rightarrow> f32 \<Rightarrow> f32" where
  "f32_clamp v lo hi = (if f32_less v lo then lo else if f32_less hi v then hi else v)"

text \<open>The binary exponent of a positive rational, from the bit lengths of its quotient.\<close>

definition rat_exponent :: "rat \<Rightarrow> int" where
  "rat_exponent x =
     (let (p, q) = quotient_of x;
          e = int (floorlog 2 (nat p)) - int (floorlog 2 (nat q))
      in if 2 powi e \<le> x then e else e - 1)"

definition round_half_even :: "rat \<Rightarrow> int" where
  "round_half_even r =
     (let f = \<lfloor>r\<rfloor>; d = r - of_int f in
      if d < 1 / 2 then f else if 1 / 2 < d then f + 1 else if even f then f else f + 1)"

definition f32_quantum :: "rat \<Rightarrow> rat" where
  "f32_quantum x = 2 powi (max (rat_exponent \<bar>x\<bar> - 23) (- 149))"

definition f32_round :: "rat \<Rightarrow> rat" where
  "f32_round x =
     (if x = 0 then 0 else of_int (round_half_even (x / f32_quantum x)) * f32_quantum x)"

definition f32_of_rat :: "rat \<Rightarrow> f32" where
  "f32_of_rat x =
     (let y = f32_round x in if \<bar>y\<bar> < 2 ^ 128 then Finite y else Infinite (y < 0))"

fun f32_mul :: "f32 \<Rightarrow> f32 \<Rightarrow> f32" where
  "f32_mul (Finite x) (Finite y) = f32_of_rat (x * y)"
| "f32_mul (Finite x) (Infinite neg) = (if x = 0 then NaN else Infinite ((x < 0) \<noteq> neg))"
| "f32_mul (Infinite neg) (Finite y) = (if y = 0 then NaN else Infinite ((y < 0) \<noteq> neg))"
| "f32_mul (Infinite neg) (Infinite neg') = Infinite (neg \<noteq> neg')"
| "f32_mul NaN y = NaN"
| "f32_mul x NaN = NaN"

definition f32_lround :: "f32 \<Rightarrow> int option" where
  "f32_lround v =
     (case v of Finite x \<Rightarrow> Some (if 0 \<le> x then \<lfloor>x + 1 / 2\<rfloor> else - \<lfloor>- x + 1 / 2\<rfloor>)
      | _ \<Rightarrow> None)"

subsection \<open>Clamping\<close>

lemma f32_clamp_range:
  assumes "lo \<le> hi"
  shows "f32_clamp v (Finite lo) (Finite hi) = NaN \<and> v = NaN \<or>
    (\<exists>x. f32_clamp v (Finite lo) (Finite hi) = Finite x \<and> lo \<le> x \<and> x \<le> hi)"
  using assms by (cases v) (auto simp: f32_clamp_def)

lemma f32_clamp_Finite:
  "f32_clamp (Finite x) (Finite lo) (Finite hi) =
     Finite (if x < lo then lo else if hi < x then hi else x)"
  by (simp add: f32_clamp_def)

subsection \<open>The error of rounding\<close>

lemma round_half_even_error: "\<bar>of_int (round_half_even r) - r\<bar> \<le> 1 / 2"
proof -
  have "of_int \<lfloor>r\<rfloor> \<le> r" "r < of_int \<lfloor>r\<rfloor> + 1" by linarith+
  then show ?thesis
    by (auto simp: round_half_even_def Let_def abs_le_iff)
qed

lemma rat_exponent_le:
  assumes "0 < x" shows "2 powi (rat_exponent x) \<le> x"
proof -
  obtain p q where pq: "quotient_of x = (p, q)" by force
  have q: "0 < q" using pq by (rule quotient_of_denom_pos)
  have x: "x = of_int p / of_int q" using pq by (rule quotient_of_div)
  have p: "0 < p" using assms x q by (simp add: zero_less_divide_iff)
  let ?a = "floorlog 2 (nat p)" and ?b = "floorlog 2 (nat q)"
  have a: "0 < ?a" using p floorlog_eq_zero_iff [of 2 "nat p"] by auto
  have lo: "(2::nat) ^ (?a - 1) \<le> nat p"
    using p floorlog_bounds [of "nat p" 2] by simp
  have hi: "nat q < (2::nat) ^ ?b"
    using q floorlog_bounds [of "nat q" 2] by simp
  have lo': "(2::rat) ^ (?a - 1) \<le> of_int p"
  proof -
    have "(of_nat (2 ^ (?a - 1)) :: rat) \<le> of_nat (nat p)" using lo by (simp only: of_nat_le_iff)
    then show ?thesis using p by simp
  qed
  have hi': "(of_int q :: rat) \<le> 2 ^ ?b"
  proof -
    have "(of_nat (nat q) :: rat) \<le> of_nat (2 ^ ?b)" using hi by (simp only: of_nat_le_iff less_imp_le)
    then show ?thesis using q by simp
  qed
  have "2 powi (int ?a - int ?b - 1) = (2::rat) ^ (?a - 1) / 2 ^ ?b"
  proof -
    have "int ?a - int ?b - 1 = int (?a - 1) - int ?b" using a by simp
    moreover have "(2 :: rat) powi (int (?a - 1) - int ?b) = 2 powi int (?a - 1) / 2 powi int ?b"
      by (rule power_int_diff) simp
    ultimately show ?thesis by (simp only: power_int_of_nat)
  qed
  also have "\<dots> \<le> of_int p / of_int q"
    using lo' hi' p q by (intro frac_le) auto
  also have "\<dots> = x" using x by (rule sym)
  finally show ?thesis
    by (simp add: rat_exponent_def pq Let_def)
qed

lemma f32_quantum_pos: "0 < f32_quantum x"
  by (simp add: f32_quantum_def)

lemma f32_quantum_le:
  assumes "1 / 2 ^ 126 \<le> \<bar>x\<bar>" shows "f32_quantum x \<le> \<bar>x\<bar> / 2 ^ 23"
proof (cases "rat_exponent \<bar>x\<bar> - 23 \<ge> - 149")
  case True
  have "(0 :: rat) < 1 / 2 ^ 126" by simp
  then have "0 < \<bar>x\<bar>" using assms by (rule less_le_trans)
  then have "2 powi (rat_exponent \<bar>x\<bar>) / 2 ^ 23 \<le> \<bar>x\<bar> / 2 ^ 23"
    by (intro divide_right_mono rat_exponent_le) auto
  moreover have "2 powi (rat_exponent \<bar>x\<bar> - 23) = 2 powi (rat_exponent \<bar>x\<bar>) / (2 :: rat) ^ 23"
    by (simp add: power_int_diff)
  moreover have "f32_quantum x = 2 powi (rat_exponent \<bar>x\<bar> - 23)"
    unfolding f32_quantum_def using True by (simp only: max_absorb1)
  ultimately show ?thesis by (simp only:)
next
  case False
  then have "f32_quantum x = 1 / 2 ^ 126 / 2 ^ 23"
    by (simp add: f32_quantum_def max_def power_int_minus divide_simps)
  also have "\<dots> \<le> \<bar>x\<bar> / 2 ^ 23" using assms by (intro divide_right_mono) auto
  finally show ?thesis .
qed

lemma f32_round_error:
  assumes "x = 0 \<or> 1 / 2 ^ 126 \<le> \<bar>x\<bar>"
  shows "\<bar>f32_round x - x\<bar> \<le> \<bar>x\<bar> / 2 ^ 24"
proof (cases "x = 0")
  case False
  let ?q = "f32_quantum x"
  have q: "0 < ?q" by (rule f32_quantum_pos)
  have "f32_round x - x = (of_int (round_half_even (x / ?q)) - x / ?q) * ?q"
    using False q by (simp add: f32_round_def left_diff_distrib)
  then have "\<bar>f32_round x - x\<bar> = \<bar>of_int (round_half_even (x / ?q)) - x / ?q\<bar> * ?q"
    using q by (simp add: abs_mult)
  also have "\<dots> \<le> 1 / 2 * ?q"
    using q by (intro mult_right_mono round_half_even_error) auto
  also have "\<dots> \<le> 1 / 2 * (\<bar>x\<bar> / 2 ^ 23)"
    using assms False by (intro mult_left_mono f32_quantum_le) auto
  finally show ?thesis by simp
qed (simp add: f32_round_def)

text \<open>
  A percentage stored in hundredths survives the conversion to a float and back: the two
  roundings together stay far below half a unit.
\<close>

lemma hundredths_roundtrip:
  assumes h: "h \<le> 10000"
  shows "\<exists>y. f32_of_rat (of_nat h / 100) = Finite y \<and>
    f32_lround (f32_mul (f32_clamp (Finite y) (Finite 0) (Finite 100)) (Finite 100)) = Some (int h)"
proof -
  let ?v = "of_nat h / 100 :: rat"
  define y where "y = f32_round ?v"
  define z where "z = (if y < 0 then 0 else if 100 < y then 100 else y)"
  define w where "w = f32_round (z * 100)"
  have v: "0 \<le> ?v" "?v \<le> 100" using h by simp_all
  have small: "(1 :: rat) / 2 ^ 126 \<le> 1 / 100" by simp
  have ey: "\<bar>y - ?v\<bar> \<le> ?v / 16777216"
  proof -
    have "?v = 0 \<or> 1 / 2 ^ 126 \<le> \<bar>?v\<bar>"
    proof (cases h)
      case (Suc n)
      then have "(1 :: rat) / 100 \<le> ?v" by simp
      then show ?thesis using small v(1) by linarith
    qed simp
    then show ?thesis using f32_round_error [of ?v] v(1) unfolding y_def by simp
  qed
  have ez: "\<bar>z - ?v\<bar> \<le> ?v / 16777216" using ey v unfolding z_def by auto
  then have ez': "z - ?v \<le> ?v / 16777216" "?v - z \<le> ?v / 16777216"
    by linarith+
  have zr: "0 \<le> z" "z \<le> 100" unfolding z_def by auto
  have zn: "z * 100 = 0 \<or> 1 / 2 ^ 126 \<le> \<bar>z * 100\<bar>"
  proof (cases "h = 0")
    case True
    then have "z = 0" using ez by simp
    then show ?thesis by simp
  next
    case False
    then have "(1 :: rat) / 100 \<le> ?v" by simp
    then have "1 / 200 \<le> z" using ez'(2) by linarith
    then have "1 / 2 \<le> z * 100" by simp
    moreover have "(1 :: rat) / 2 ^ 126 \<le> 1 / 2" by simp
    ultimately show ?thesis by linarith
  qed
  have "\<bar>w - z * 100\<bar> \<le> z * 100 / 16777216"
    using f32_round_error [OF zn] zr unfolding w_def by simp
  then have ew: "w - z * 100 \<le> z * 100 / 16777216" "z * 100 - w \<le> z * 100 / 16777216"
    by linarith+
  have h': "(of_nat h :: rat) \<le> 10000" using h by (simp add: of_nat_le_iff [of h 10000, simplified])
  have tot: "\<bar>w - of_nat h\<bar> < 1 / 2"
    unfolding abs_less_iff using ew ez' zr h' by (auto simp: field_simps)
  have wb: "\<bar>w\<bar> < 2 ^ 128"
  proof -
    have "\<bar>w\<bar> < 10001" using tot h' by linarith
    then show ?thesis by (rule less_trans) simp
  qed
  have yb: "\<bar>y\<bar> < 2 ^ 128"
  proof -
    have "\<bar>y\<bar> < 201" using ey v by linarith
    then show ?thesis by (rule less_trans) simp
  qed
  have lr: "(if 0 \<le> w then \<lfloor>w + 1 / 2\<rfloor> else - \<lfloor>- w + 1 / 2\<rfloor>) = int h"
  proof -
    have t: "of_int (int h) \<le> w + 1 / 2" "w + 1 / 2 < of_int (int h) + 1"
      using tot unfolding of_int_of_nat_eq by linarith+
    have "\<lfloor>w + 1 / 2\<rfloor> = int h" using t by (rule floor_unique)
    moreover have "h = 0 \<and> \<lfloor>- w + 1 / 2\<rfloor> = 0" if "w < 0"
    proof -
      have "(of_nat h :: rat) < 1" using tot that by linarith
      then have "h = 0" by simp
      moreover have "- w + 1 / 2 < 1" "0 \<le> - w + 1 / 2" using tot that \<open>h = 0\<close> by auto
      ultimately show ?thesis by (simp add: floor_eq_iff)
    qed
    ultimately show ?thesis by auto
  qed
  have "f32_of_rat ?v = Finite y" using yb by (simp add: f32_of_rat_def y_def Let_def)
  moreover have "f32_clamp (Finite y) (Finite 0) (Finite 100) = Finite z"
    by (simp add: f32_clamp_Finite z_def)
  moreover have "f32_of_rat (z * 100) = Finite w" using wb by (simp add: f32_of_rat_def w_def Let_def)
  ultimately show ?thesis using lr by (simp add: f32_lround_def)
qed

end
