(* ===== verification/Netplay_Types.thy ===== *)
theory Netplay_Types
  imports Prelude Float32 "HOL-Library.Sublist"
begin

section \<open>Netplay types: validation, fingerprints, compatibility\<close>

text \<open>
  Models \<^verbatim>\<open>netplay_types.hpp\<close> and \<^verbatim>\<open>netplay_types.cpp\<close> under
  \<^verbatim>\<open>src/runtime-recomp/src/game/netplay/\<close>: the enumerations and structs every netplay
  component shares, the validity of names, rules and launch descriptors, the FNV-1a
  fingerprints, the comparison of two compatibility manifests and the classification of a
  failure text.

  An enumeration is a datatype with the code function \<open>byte_of_\<dots>\<close> that
  \<^verbatim>\<open>static_cast<std::uint8_t>\<close> computes. A value of a C++ enumeration outside its
  enumerators cannot be written; the guards of the sources against one are kept, and hold
  trivially. The signed stick axes are kept as bytes in two's complement.
  \<^verbatim>\<open>std::tolower\<close> is the C locale's, \<open>from_chars\<close> and \<open>to_string\<close> are the
  decimal conversions of the standard library at 64 bits.
\<close>

subsection \<open>Constants, enumerations and structs\<close>

definition kProtocolVersion :: u32 where "kProtocolVersion = 47"
definition kMaximumInputDelayFrames :: u8 where "kMaximumInputDelayFrames = 9"
definition kMaximumPlayers :: nat where "kMaximumPlayers = 4"
definition kSupportedOnlinePlayers :: u8 where "kSupportedOnlinePlayers = 4"
definition kMaximumLobbyNameBytes :: nat where "kMaximumLobbyNameBytes = 48"
definition kMaximumPlayerNameBytes :: nat where "kMaximumPlayerNameBytes = 24"
definition kMaximumReleaseVersionBytes :: nat where "kMaximumReleaseVersionBytes = 96"
definition kMaximumBuildFingerprintBytes :: nat where "kMaximumBuildFingerprintBytes = 192"

lemmas netplay_limits = kMaximumInputDelayFrames_def kMaximumPlayers_def
  kSupportedOnlinePlayers_def kMaximumLobbyNameBytes_def kMaximumPlayerNameBytes_def
  kMaximumReleaseVersionBytes_def kMaximumBuildFingerprintBytes_def

datatype Visibility = Public | Private | Unlisted | Lan
datatype RoomPhase = Waiting | ReadyCheck | Loading | Running | Finished
datatype HostControlPolicy = GuidedUntilCharacterSelect | HostSharedMenus | EveryAssignedPort
datatype Route = RouteUnknown | RouteLan | RouteDirect | RouteRelay
datatype Revision = UsV77 | UsV80
datatype SynchronizationMode = Rollback | Lockstep

fun byte_of_Visibility :: "Visibility \<Rightarrow> u8" where
  "byte_of_Visibility Public = 0"
| "byte_of_Visibility Private = 1"
| "byte_of_Visibility Unlisted = 2"
| "byte_of_Visibility Lan = 3"

fun byte_of_RoomPhase :: "RoomPhase \<Rightarrow> u8" where
  "byte_of_RoomPhase Waiting = 0"
| "byte_of_RoomPhase ReadyCheck = 1"
| "byte_of_RoomPhase Loading = 2"
| "byte_of_RoomPhase Running = 3"
| "byte_of_RoomPhase Finished = 4"

fun byte_of_HostControlPolicy :: "HostControlPolicy \<Rightarrow> u8" where
  "byte_of_HostControlPolicy GuidedUntilCharacterSelect = 0"
| "byte_of_HostControlPolicy HostSharedMenus = 1"
| "byte_of_HostControlPolicy EveryAssignedPort = 2"

fun byte_of_Route :: "Route \<Rightarrow> u8" where
  "byte_of_Route RouteUnknown = 0"
| "byte_of_Route RouteLan = 1"
| "byte_of_Route RouteDirect = 2"
| "byte_of_Route RouteRelay = 3"

fun byte_of_Revision :: "Revision \<Rightarrow> u8" where
  "byte_of_Revision UsV77 = 0"
| "byte_of_Revision UsV80 = 1"

fun byte_of_SynchronizationMode :: "SynchronizationMode \<Rightarrow> u8" where
  "byte_of_SynchronizationMode Rollback = 0"
| "byte_of_SynchronizationMode Lockstep = 1"

record PackedInput =
  buttons :: u16
  stick_x :: u8
  stick_y :: u8

definition no_input :: PackedInput where
  "no_input = \<lparr>buttons = 0, stick_x = 0, stick_y = 0\<rparr>"

type_synonym FrameInputs = "PackedInput list"

record CompatibilityManifest =
  protocol_version :: u32
  release_version :: string
  build_fingerprint :: string
  revision :: Revision
  canonical_rom_hash :: u64
  patch_policy_hash :: u64
  gameplay_settings_hash :: u64
  magic_codes_hash :: u64
  session_save_hash :: u64
  simulation_rate :: u32
  architecture :: string
  floating_point_mode :: string

record Rules =
  host_control :: HostControlPolicy
  maximum_players :: u8
  automatic_input_delay :: bool
  manual_input_delay :: u8
  rollback_window :: u8
  synchronization :: SynchronizationMode
  relay_only :: bool
  record_replay :: bool

record LaunchDescriptor =
  ld_match_id :: u64
  ld_lobby_generation :: u64
  ld_compatibility_hash :: u64
  ld_occupied_mask :: u8
  ld_player_count :: u8
  ld_input_delay_frames :: u8
  ld_rollback_window :: u8
  ld_synchronization :: SynchronizationMode
  ld_host_control :: HostControlPolicy

datatype OnlineFailureCode =
    FailureNone | ProtocolMismatch | BuildMismatch | GamePakMismatch | PatchPolicyMismatch
  | GameplaySettingsMismatch | MagicCodesMismatch | SaveMismatch | SimulationRateMismatch
  | PlatformMismatch | InvitationInvalid | InvitationExpired | HostUnreachable
  | RequestRejected | Blocked | LobbyFull | LobbyLocked | BaselineFailure
  | DeterminismFailure | RecoveryFailure | FinishBarrierTimeout | TransportFailure
  | FailureUnknown

record OnlineFailure =
  code :: OnlineFailureCode
  expected_magic_codes :: u64
  candidate_magic_codes :: u64
  has_magic_code_details :: bool

subsection \<open>Validity of descriptors, names and rules\<close>

definition valid_launch_descriptor :: "LaunchDescriptor \<Rightarrow> bool" where
  "valid_launch_descriptor d =
     (if ld_match_id d = 0 \<or> ld_lobby_generation d = 0 \<or>
         ld_compatibility_hash d = 0 \<or> ld_player_count d < 2 \<or>
         ld_player_count d > kSupportedOnlinePlayers \<or>
         ld_input_delay_frames d > kMaximumInputDelayFrames \<or>
         ld_rollback_window d > 20 \<or>
         byte_of_SynchronizationMode (ld_synchronization d) >
           byte_of_SynchronizationMode Lockstep \<or>
         (ld_synchronization d = Rollback \<and> ld_rollback_window d < 2) \<or>
         (ld_synchronization d = Lockstep \<and> ld_rollback_window d \<noteq> 0) \<or>
         byte_of_HostControlPolicy (ld_host_control d) >
           byte_of_HostControlPolicy EveryAssignedPort \<or>
         ld_occupied_mask d AND 1 = 0
      then False
      else let expected_mask = ucast (push_bit (unat (ld_player_count d)) (1 :: u32) - 1)
           in ld_occupied_mask d = expected_mask)"

definition ValidText :: "string \<Rightarrow> nat \<Rightarrow> bool" where
  "ValidText value maximum =
     (if value = [] \<or> maximum < length value then False
      else list_all (\<lambda>c. 0x20 \<le> byte_of_char c \<and> byte_of_char c \<noteq> 0x7F) value)"

definition valid_display_name :: "string \<Rightarrow> bool" where
  "valid_display_name value = ValidText value kMaximumPlayerNameBytes"

definition valid_room_name :: "string \<Rightarrow> bool" where
  "valid_room_name value = ValidText value kMaximumLobbyNameBytes"

definition valid_rules :: "Rules \<Rightarrow> bool" where
  "valid_rules r \<longleftrightarrow>
     2 \<le> maximum_players r \<and> maximum_players r \<le> kSupportedOnlinePlayers \<and>
     manual_input_delay r \<le> kMaximumInputDelayFrames \<and>
     byte_of_SynchronizationMode (synchronization r) \<le> byte_of_SynchronizationMode Lockstep \<and>
     ((synchronization r = Rollback \<and> 2 \<le> rollback_window r \<and> rollback_window r \<le> 20) \<or>
      (synchronization r = Lockstep \<and> rollback_window r = 0))"

subsection \<open>FNV-1a fingerprints\<close>

definition fnv_basis :: u64 where "fnv_basis = 14695981039346656037"
definition fnv_prime :: u64 where "fnv_prime = 1099511628211"

definition HashByte :: "u64 \<Rightarrow> u8 \<Rightarrow> u64" where
  "HashByte hash value = (hash XOR ucast value) * fnv_prime"

primrec HashInteger :: "u64 \<Rightarrow> nat \<Rightarrow> 'a::len word \<Rightarrow> u64" where
  "HashInteger hash 0 value = hash"
| "HashInteger hash (Suc count) value =
     HashInteger (HashByte hash (ucast (value AND 0xFF))) count (drop_bit 8 value)"

definition HashText :: "u64 \<Rightarrow> string \<Rightarrow> u64" where
  "HashText hash value =
     foldl (\<lambda>h c. HashByte h (byte_of_char c))
       (HashInteger hash 4 (of_nat (length value) :: u32)) value"

definition stable_hash :: "bytes \<Rightarrow> u64" where
  "stable_hash bs = foldl HashByte fnv_basis bs"

definition append_le :: "u64 \<Rightarrow> nat \<Rightarrow> bytes" where
  "append_le value width = map (\<lambda>index. ucast (drop_bit (index * 8) value)) [0..<width]"

definition launch_descriptor_hash :: "LaunchDescriptor \<Rightarrow> u64" where
  "launch_descriptor_hash d = stable_hash (
     append_le (ld_match_id d) 8 @
     append_le (ld_lobby_generation d) 8 @
     append_le (ld_compatibility_hash d) 8 @
     append_le (ucast (ld_occupied_mask d)) 1 @
     append_le (ucast (ld_player_count d)) 1 @
     append_le (ucast (ld_input_delay_frames d)) 1 @
     append_le (ucast (ld_rollback_window d)) 1 @
     append_le (ucast (byte_of_SynchronizationMode (ld_synchronization d))) 1 @
     append_le (ucast (byte_of_HostControlPolicy (ld_host_control d))) 1)"

definition manifest_hash :: "CompatibilityManifest \<Rightarrow> u64" where
  "manifest_hash m =
     (let hash = fnv_basis;
          hash = HashInteger hash 4 (protocol_version m);
          hash = HashText hash (release_version m);
          hash = HashText hash (build_fingerprint m);
          hash = HashByte hash (byte_of_Revision (revision m));
          hash = HashInteger hash 8 (canonical_rom_hash m);
          hash = HashInteger hash 8 (patch_policy_hash m);
          hash = HashInteger hash 8 (gameplay_settings_hash m);
          hash = HashInteger hash 8 (magic_codes_hash m);
          hash = HashInteger hash 8 (session_save_hash m);
          hash = HashInteger hash 4 (simulation_rate m);
          hash = HashText hash (architecture m);
          hash = HashText hash (floating_point_mode m)
      in hash)"

subsection \<open>Comparing manifests\<close>

text \<open>\<^verbatim>\<open>std::to_string\<close> of an unsigned number: its decimal digits.\<close>

fun to_string_nat :: "nat \<Rightarrow> string" where
  "to_string_nat n =
     (if n < 10 then [char_of (48 + n)]
      else to_string_nat (n div 10) @ [char_of (48 + n mod 10)])"

declare to_string_nat.simps [simp del]

definition to_string :: "u64 \<Rightarrow> string" where
  "to_string value = to_string_nat (unat value)"

definition incompatibility_reason ::
  "CompatibilityManifest \<Rightarrow> CompatibilityManifest \<Rightarrow> string" where
  "incompatibility_reason expected candidate =
     (if protocol_version candidate \<noteq> protocol_version expected then
        ''Netplay protocol versions do not match.''
      else if release_version candidate \<noteq> release_version expected \<or>
              build_fingerprint candidate \<noteq> build_fingerprint expected then
        ''DKR-R builds do not match.''
      else if revision candidate \<noteq> revision expected \<or>
              canonical_rom_hash candidate \<noteq> canonical_rom_hash expected then
        ''Game Pak revisions do not match.''
      else if patch_policy_hash candidate \<noteq> patch_policy_hash expected then
        ''Recomp patch policies do not match.''
      else if magic_codes_hash candidate \<noteq> magic_codes_hash expected then
        ''Magic Codes do not match.|magic:'' @ to_string (magic_codes_hash expected) @ '':'' @
          to_string (magic_codes_hash candidate)
      else if gameplay_settings_hash candidate \<noteq> gameplay_settings_hash expected then
        ''Gameplay settings do not match.''
      else if session_save_hash candidate \<noteq> session_save_hash expected then
        ''Adventure save contents differ.''
      else if simulation_rate candidate \<noteq> simulation_rate expected then
        ''Simulation rates do not match.''
      else if architecture candidate \<noteq> architecture expected \<or>
              floating_point_mode candidate \<noteq> floating_point_mode expected then
        ''This platform pair has not passed deterministic compatibility.''
      else [])"

subsection \<open>Classifying a failure text\<close>

text \<open>\<open>str_find\<close> is \<^verbatim>\<open>std::string_view::find\<close>, with \<open>None\<close> for \<^verbatim>\<open>npos\<close>.\<close>

fun str_find :: "string \<Rightarrow> string \<Rightarrow> nat option" where
  "str_find needle [] = (if needle = [] then Some 0 else None)"
| "str_find needle (c # s) =
     (if prefix needle (c # s) then Some 0 else map_option Suc (str_find needle s))"

definition online_failure_display_message :: "string \<Rightarrow> string" where
  "online_failure_display_message message =
     (case str_find ''|'' message of None \<Rightarrow> message | Some metadata \<Rightarrow> take metadata message)"

definition tolower :: "char \<Rightarrow> char" where
  "tolower c = (if 65 \<le> (of_char c :: nat) \<and> (of_char c :: nat) \<le> 90
                then char_of ((of_char c :: nat) + 32) else c)"

definition is_digit :: "char \<Rightarrow> bool" where
  "is_digit c \<longleftrightarrow> 48 \<le> (of_char c :: nat) \<and> (of_char c :: nat) \<le> 57"

definition digits_value :: "string \<Rightarrow> nat" where
  "digits_value ds = foldl (\<lambda>n c. 10 * n + (of_char c - 48)) 0 ds"

text \<open>
  \<^verbatim>\<open>std::from_chars\<close> on an unsigned 64-bit target: whether it reports no error, the
  target afterwards (unchanged on an error) and the text from the returned pointer on.
\<close>

definition from_chars :: "string \<Rightarrow> u64 \<Rightarrow> bool \<times> u64 \<times> string" where
  "from_chars s target =
     (let ds = takeWhile is_digit s; rest = dropWhile is_digit s in
      if ds = [] then (False, target, s)
      else if digits_value ds < 2 ^ 64 then (True, of_nat (digits_value ds), rest)
      else (False, target, rest))"

definition failure_code :: "string \<Rightarrow> OnlineFailureCode" where
  "failure_code lower =
     (let contains = (\<lambda>needle. str_find needle lower \<noteq> None) in
      if contains ''protocol'' then ProtocolMismatch
      else if contains ''builds do not match'' \<or> contains ''build version'' \<or>
              contains ''build fingerprint'' then BuildMismatch
      else if contains ''game pak'' \<or> contains ''rom revision'' \<or>
              contains ''roms do not match'' then GamePakMismatch
      else if contains ''patch polic'' then PatchPolicyMismatch
      else if contains ''magic code'' then MagicCodesMismatch
      else if contains ''gameplay settings'' then GameplaySettingsMismatch
      else if contains ''save'' \<or> contains ''eeprom'' then SaveMismatch
      else if contains ''simulation rate'' then SimulationRateMismatch
      else if contains ''platform pair'' \<or> contains ''floating point'' \<or>
              contains ''architecture'' then PlatformMismatch
      else if contains ''expired'' then InvitationExpired
      else if contains ''invalid invitation'' \<or> contains ''malformed invitation'' \<or>
              contains ''invalid invite'' \<or> contains ''invalid code'' then InvitationInvalid
      else if contains ''did not answer'' \<or> contains ''unreachable'' \<or>
              contains ''firewall'' \<or> contains ''udp port'' then HostUnreachable
      else if contains ''rejected'' \<or> contains ''declined'' then RequestRejected
      else if contains ''blocked'' then Blocked
      else if contains ''lobby is full'' \<or> contains ''lobby full'' then LobbyFull
      else if contains ''lobby is locked'' \<or> contains ''lobby locked'' then LobbyLocked
      else if contains ''baseline'' \<or> contains ''moving actor'' \<or>
              contains ''outside rdram'' then BaselineFailure
      else if contains ''determinism'' \<or> contains ''frame commit'' \<or>
              contains ''authoritative timeline'' then DeterminismFailure
      else if contains ''finish barrier'' then FinishBarrierTimeout
      else if contains ''recovery'' \<or> contains ''frame ledger'' \<or>
              contains ''bounded queue'' then RecoveryFailure
      else if contains ''transport'' \<or> contains ''connection'' \<or>
              contains ''disconnect'' \<or> contains ''packet'' then TransportFailure
      else FailureUnknown)"

definition classify_online_failure :: "string \<Rightarrow> OnlineFailure" where
  "classify_online_failure message =
     (let failure = \<lparr>code = FailureNone, expected_magic_codes = 0,
                     candidate_magic_codes = 0, has_magic_code_details = False\<rparr> in
      if message = [] then failure
      else let failure = failure\<lparr>code := failure_code (map tolower message)\<rparr> in
        case str_find ''|magic:'' message of None \<Rightarrow> failure
        | Some details \<Rightarrow>
            let values = drop (details + 7) message in
            case str_find '':'' values of None \<Rightarrow> failure
            | Some separator \<Rightarrow>
                let expected = take separator values;
                    candidate = drop (separator + 1) values;
                    (e_ok, e_value, e_rest) = from_chars expected (expected_magic_codes failure);
                    (c_ok, c_value, c_rest) = from_chars candidate (candidate_magic_codes failure)
                in failure\<lparr>expected_magic_codes := e_value, candidate_magic_codes := c_value,
                     has_magic_code_details := (e_ok \<and> e_rest = [] \<and> c_ok \<and> c_rest = [])\<rparr>)"

subsection \<open>The expected classification of two manifests\<close>

text \<open>The first group of fields, in the order of the comparison, on which they differ.\<close>

definition mismatch_code :: "CompatibilityManifest \<Rightarrow> CompatibilityManifest \<Rightarrow> OnlineFailureCode" where
  "mismatch_code e c =
     (if protocol_version c \<noteq> protocol_version e then ProtocolMismatch
      else if (release_version c, build_fingerprint c) \<noteq> (release_version e, build_fingerprint e)
        then BuildMismatch
      else if (revision c, canonical_rom_hash c) \<noteq> (revision e, canonical_rom_hash e)
        then GamePakMismatch
      else if patch_policy_hash c \<noteq> patch_policy_hash e then PatchPolicyMismatch
      else if magic_codes_hash c \<noteq> magic_codes_hash e then MagicCodesMismatch
      else if gameplay_settings_hash c \<noteq> gameplay_settings_hash e then GameplaySettingsMismatch
      else if session_save_hash c \<noteq> session_save_hash e then SaveMismatch
      else if simulation_rate c \<noteq> simulation_rate e then SimulationRateMismatch
      else if c \<noteq> e then PlatformMismatch
      else FailureNone)"

subsection \<open>Fingerprints\<close>

text \<open>The FNV prime is odd, so a step of the hash loses nothing of the hash and of the byte.\<close>

lemma fnv_prime_inverse: "fnv_prime * 14886173955864302971 = 1"
  by (simp add: fnv_prime_def)

lemma fnv_prime_cancel: "a * fnv_prime = b * fnv_prime \<longleftrightarrow> a = b"
proof
  assume "a * fnv_prime = b * fnv_prime"
  then have "a * (fnv_prime * 14886173955864302971) = b * (fnv_prime * 14886173955864302971)"
    by (simp only: mult.assoc [symmetric])
  then show "a = b" by (simp only: fnv_prime_inverse mult_1_right)
qed simp

lemma xor_cancel: "a XOR c = b XOR c \<longleftrightarrow> a = (b :: 'a::len word)"
  by (metis xor.assoc xor_self_eq xor.right_neutral)

lemma ucast_u8_inject: "(ucast a :: u64) = ucast (b :: u8) \<longleftrightarrow> a = b"
proof
  assume h: "(ucast a :: u64) = ucast b"
  show "a = b"
  proof (rule bit_word_eqI)
    fix n assume n: "n < LENGTH(8)"
    have "bit a n \<longleftrightarrow> bit (ucast a :: u64) n" using n by (simp add: bit_simps)
    also have "\<dots> \<longleftrightarrow> bit b n" unfolding h using n by (simp add: bit_simps)
    finally show "bit a n \<longleftrightarrow> bit b n" .
  qed
qed simp

lemma HashByte_inject_hash: "HashByte h b = HashByte h' b \<longleftrightarrow> h = h'"
  by (simp add: HashByte_def fnv_prime_cancel xor_cancel)

lemma HashByte_inject_value: "HashByte h b = HashByte h b' \<longleftrightarrow> b = b'"
  by (simp add: HashByte_def fnv_prime_cancel xor.commute [of h] xor_cancel ucast_u8_inject)

lemma foldl_HashByte_inject: "foldl HashByte h bs = foldl HashByte h' bs \<longleftrightarrow> h = h'"
  by (induction bs arbitrary: h h') (simp_all add: HashByte_inject_hash)

lemma stable_hash_detects_one_byte:
  "stable_hash (xs @ b # ys) = stable_hash (xs @ b' # ys) \<longleftrightarrow> b = b'"
  by (simp add: stable_hash_def foldl_HashByte_inject HashByte_inject_value)

lemma HashInteger_inject: "HashInteger h n v = HashInteger h' n v \<longleftrightarrow> h = h'"
  by (induction n arbitrary: h h' v) (simp_all add: HashByte_inject_hash)

lemma incompatibility_reason_empty:
  "incompatibility_reason expected candidate = [] \<longleftrightarrow> candidate = expected"
  by (cases expected; cases candidate) (auto simp: incompatibility_reason_def)

lemma is_digit_char_of: "d < 10 \<Longrightarrow> is_digit (char_of (48 + d :: nat))"
  by (simp add: is_digit_def)

lemma digits_value_snoc: "digits_value (ds @ [c]) = 10 * digits_value ds + (of_char c - 48)"
  by (simp add: digits_value_def)

lemma to_string_nat_digits: "list_all is_digit (to_string_nat n)"
proof (induction n rule: to_string_nat.induct)
  case (1 n)
  then show ?case by (subst to_string_nat.simps) (auto simp: is_digit_char_of)
qed

lemma digits_value_to_string_nat: "digits_value (to_string_nat n) = n"
proof (induction n rule: to_string_nat.induct)
  case (1 n)
  show ?case
  proof (cases "n < 10")
    case True
    then show ?thesis by (simp add: to_string_nat.simps [of n] digits_value_def)
  next
    case False
    with "1.IH" show ?thesis
      by (simp add: to_string_nat.simps [of n] digits_value_snoc)
  qed
qed

lemma to_string_nat_nonempty: "to_string_nat n \<noteq> []"
  by (subst to_string_nat.simps) simp

lemma to_string_digits: "\<forall>c \<in> set (to_string v). is_digit c"
  using to_string_nat_digits [of "unat v"] by (simp add: to_string_def list_all_iff)

lemma from_chars_to_string: "from_chars (to_string v) t = (True, v, [])"
proof -
  have tw: "takeWhile is_digit (to_string v) = to_string v"
    using to_string_digits [of v] by (simp add: takeWhile_eq_all_conv)
  have dw: "dropWhile is_digit (to_string v) = []"
    using to_string_digits [of v] by simp
  have "unat v < 2 ^ LENGTH(64)" by (rule unsigned_less)
  moreover have "digits_value (to_string v) = unat v" "to_string v \<noteq> []"
    by (simp_all add: to_string_def digits_value_to_string_nat to_string_nat_nonempty)
  ultimately show ?thesis
    by (simp add: from_chars_def Let_def tw dw)
qed

lemma str_find_iff: "str_find needle s \<noteq> None \<longleftrightarrow> sublist needle s"
  by (induction needle s rule: str_find.induct) (auto simp: sublist_Cons_right)

lemma sublist_append_disjoint:
  assumes "set needle \<inter> set t = {}" "needle \<noteq> []"
  shows "sublist needle (p @ t) \<longleftrightarrow> sublist needle p"
proof
  assume "sublist needle (p @ t)"
  moreover have "\<not> sublist needle t"
    using assms by (metis inf.absorb_iff1 set_empty set_mono_sublist)
  ultimately consider "sublist needle p"
    | xs ys where "needle = xs @ ys" "suffix xs p" "prefix ys t"
    by (auto simp: sublist_append)
  then show "sublist needle p"
  proof cases
    case 2
    then have "set ys \<inter> set t = {}" "set ys \<subseteq> set t"
      using assms(1) set_mono_prefix by auto
    then have "ys = []" by (metis inf.absorb_iff1 set_empty)
    then show ?thesis using 2 by auto
  qed
qed (auto simp: sublist_append)


lemma tolower_digit: "is_digit c \<Longrightarrow> tolower c = c"
  by (auto simp: is_digit_def tolower_def)

lemma map_tolower_to_string: "map tolower (to_string v) = to_string v"
  using to_string_digits [of v] by (simp add: map_idI tolower_digit)

lemma str_find_digits: "str_find '':'' (to_string v @ '':'' @ s) = Some (length (to_string v))"
proof -
  have "\<forall>c \<in> set ds. is_digit c \<Longrightarrow> str_find '':'' (ds @ '':'' @ s) = Some (length ds)" for ds
    by (induction ds) (auto simp: is_digit_def)
  then show ?thesis using to_string_digits by blast
qed

lemma failure_code_magic:
  "failure_code (map tolower (''Magic Codes do not match.|magic:'' @ to_string a @ '':'' @ to_string b))
     = MagicCodesMismatch"
proof -
  let ?t = "to_string a @ '':'' @ to_string b"
  let ?p = "''magic codes do not match.|magic:''"
  have t: "\<forall>c \<in> set ?t. of_char c \<in> {48..58::nat}"
    using to_string_digits [of a] to_string_digits [of b] by (auto simp: is_digit_def)
  have m: "map tolower (''Magic Codes do not match.|magic:'' @ ?t) = ?p @ ?t"
    by (simp add: map_tolower_to_string) (simp add: tolower_def char_of_def bit_0)
  have no: "str_find needle (?p @ ?t) = None"
    if "needle \<noteq> []" "\<forall>c \<in> set needle. of_char c \<notin> {48..58::nat}" "str_find needle ?p = None"
    for needle
  proof -
    have "set needle \<inter> set ?t = {}" using that(2) t by blast
    then have "\<not> sublist needle (?p @ ?t)"
      using that sublist_append_disjoint str_find_iff by blast
    then show ?thesis using str_find_iff by blast
  qed
  have yes: "str_find ''magic code'' (?p @ ?t) = Some 0" by simp
  show ?thesis
    unfolding m failure_code_def Let_def
    by (simp add: no yes del: append_Cons append_Nil)
qed

lemma classify_magic:
  "classify_online_failure (''Magic Codes do not match.|magic:'' @ to_string a @ '':'' @ to_string b)
   = \<lparr>code = MagicCodesMismatch, expected_magic_codes = a, candidate_magic_codes = b,
      has_magic_code_details = True\<rparr>"
proof -
  let ?t = "to_string a @ '':'' @ to_string b"
  let ?m = "''Magic Codes do not match.|magic:'' @ ?t"
  have f: "str_find ''|magic:'' ?m = Some 25"
    by (simp add: numeral_eq_Suc)
  have d: "drop (25 + 7) ?m = ?t" by (simp add: numeral_eq_Suc)
  have c: "failure_code (map tolower ?m) = MagicCodesMismatch" by (rule failure_code_magic)
  show ?thesis
    unfolding classify_online_failure_def Let_def c f
    by (simp only: option.case d str_find_digits) (simp add: from_chars_to_string)
qed

lemma failure_code_reasons:
  "failure_code (map tolower ''Netplay protocol versions do not match.'') = ProtocolMismatch"
  "failure_code (map tolower ''DKR-R builds do not match.'') = BuildMismatch"
  "failure_code (map tolower ''Game Pak revisions do not match.'') = GamePakMismatch"
  "failure_code (map tolower ''Recomp patch policies do not match.'') = PatchPolicyMismatch"
  "failure_code (map tolower ''Gameplay settings do not match.'') = GameplaySettingsMismatch"
  "failure_code (map tolower ''Adventure save contents differ.'') = SaveMismatch"
  "failure_code (map tolower ''Simulation rates do not match.'') = SimulationRateMismatch"
  "failure_code (map tolower ''This platform pair has not passed deterministic compatibility.'')
     = PlatformMismatch"
  by code_simp+

lemma classify_code: "message \<noteq> [] \<Longrightarrow> code (classify_online_failure message) = failure_code (map tolower message)"
  by (simp add: classify_online_failure_def Let_def split: option.splits prod.splits)

lemma incompatibility_classified:
  "code (classify_online_failure (incompatibility_reason e c)) = mismatch_code e c"
proof (cases "c = e")
  case True
  then show ?thesis
    by (simp add: incompatibility_reason_def mismatch_code_def classify_online_failure_def)
next
  case False
  then show ?thesis
    using classify_magic [of "magic_codes_hash e" "magic_codes_hash c"]
      CompatibilityManifest.equality [of c e]
    by (simp add: incompatibility_reason_def mismatch_code_def classify_code failure_code_reasons
        del: map_append list.map append_Cons append_Nil) blast
qed

end
