(* ===== verification/Protocol_Input.thy ===== *)
theory Protocol_Input
  imports Wire Netplay_Types
begin

section \<open>Wire protocol: datagrams and controller traffic\<close>

text \<open>
  Models the framing of every datagram and the messages that carry controller samples
  (\<^verbatim>\<open>netplay_protocol.hpp\<close>, \<^verbatim>\<open>netplay_protocol.cpp\<close> lines 52 to 333 and 335 to 484):
  \<open>protocol_encode\<close> and \<open>protocol_decode\<close> for the datagram, then input batches,
  acknowledgements, repair and commit requests, the gameplay hand-off, the rollback payload
  and the gameplay barrier. Each pair interprets a codec locale, so that the lemmas of the
  locale (exactness, injectivity, no read out of range) hold for it.
\<close>

definition kMagic :: u32 where "kMagic = 0x444B524E"
definition kMaximumDatagramBytes :: nat where "kMaximumDatagramBytes = 1000"
definition kMaximumQuickJoinDatagramBytes :: nat where "kMaximumQuickJoinDatagramBytes = 14400"

definition u32_max :: u32 where "u32_max = 0xFFFFFFFF"

lemmas wire_limits = kMaximumDatagramBytes_def kMaximumQuickJoinDatagramBytes_def

subsection \<open>Message types\<close>

datatype MessageType =
    MsgHello | MsgHelloAck | MsgInput | MsgInputAck | MsgStateHash | MsgPing | MsgPong
  | MsgDisconnect | MsgLobbyState | MsgReady | MsgLoaded | MsgStart | MsgReject
  | MsgJoinPending | MsgFrameCommit | MsgStateSnapshot | MsgStateRequest | MsgRecoveryBegin
  | MsgRecoveryAck | MsgRecoveryResume | MsgTransitionBarrier | MsgStateAcknowledge
  | MsgRollbackData | MsgGameplayBarrier | MsgGameplayHandoff | MsgRollbackRecoveryRequest
  | MsgFrameCorrectionAck | MsgLiveReplicaSnapshot | MsgFrameCommitRequest
  | MsgInputRepairRequest | MsgInputRepair | MsgSimulationProgress | MsgRacerOrientation
  | MsgReadyRequest | MsgReadyAck | MsgCountdownAck | MsgLaunchPrepare | MsgLaunchPrepareAck
  | MsgLaunchCommit | MsgLaunchCancel | MsgLaunchCommitAck | MsgLaunchRelease
  | MsgLaunchReleaseAck | MsgPreflightBegin | MsgPreflightControlProbe
  | MsgPreflightAuthorityProbe | MsgPreflightRealtimeProbe | MsgPreflightReplicaProbe
  | MsgPreflightResult | MsgOnlineSaveReady | MsgOnlineSaveReadyAck
  | MsgPreflightCheckpointProbe | MsgOnlineSaveStatus

text \<open>The enumerators in their order; the first has the code 1.\<close>

definition message_types :: "MessageType list" where
  "message_types =
    [MsgHello, MsgHelloAck, MsgInput, MsgInputAck, MsgStateHash, MsgPing, MsgPong,
     MsgDisconnect, MsgLobbyState, MsgReady, MsgLoaded, MsgStart, MsgReject,
     MsgJoinPending, MsgFrameCommit, MsgStateSnapshot, MsgStateRequest, MsgRecoveryBegin,
     MsgRecoveryAck, MsgRecoveryResume, MsgTransitionBarrier, MsgStateAcknowledge,
     MsgRollbackData, MsgGameplayBarrier, MsgGameplayHandoff, MsgRollbackRecoveryRequest,
     MsgFrameCorrectionAck, MsgLiveReplicaSnapshot, MsgFrameCommitRequest,
     MsgInputRepairRequest, MsgInputRepair, MsgSimulationProgress, MsgRacerOrientation,
     MsgReadyRequest, MsgReadyAck, MsgCountdownAck, MsgLaunchPrepare, MsgLaunchPrepareAck,
     MsgLaunchCommit, MsgLaunchCancel, MsgLaunchCommitAck, MsgLaunchRelease,
     MsgLaunchReleaseAck, MsgPreflightBegin, MsgPreflightControlProbe,
     MsgPreflightAuthorityProbe, MsgPreflightRealtimeProbe, MsgPreflightReplicaProbe,
     MsgPreflightResult, MsgOnlineSaveReady, MsgOnlineSaveReadyAck,
     MsgPreflightCheckpointProbe, MsgOnlineSaveStatus]"

definition byte_of_MessageType :: "MessageType \<Rightarrow> u8" where
  "byte_of_MessageType t = of_nat (Suc (position t message_types))"

definition MessageType_of :: "u8 \<Rightarrow> MessageType" where
  "MessageType_of b = message_types ! (unat b - 1)"

definition ValidType :: "u8 \<Rightarrow> bool" where
  "ValidType b \<longleftrightarrow> byte_of_MessageType MsgHello \<le> b \<and> b \<le> byte_of_MessageType MsgOnlineSaveStatus"

subsection \<open>Datagrams\<close>

record Header =
  h_type :: MessageType
  h_match_id :: u64
  h_sequence :: u64
  h_frame :: u32

record Datagram =
  d_header :: Header
  d_payload :: bytes

definition protocol_encode :: "Datagram \<Rightarrow> nat \<Rightarrow> bytes" where
  "protocol_encode d maximum_datagram_bytes =
     (if maximum_datagram_bytes < 32 \<or>
         maximum_datagram_bytes > kMaximumQuickJoinDatagramBytes \<or>
         length (d_payload d) + 32 > maximum_datagram_bytes \<or>
         length (d_payload d) > 65535
      then []
      else Put32 kMagic @ Put32 kProtocolVersion @
           [byte_of_MessageType (h_type (d_header d)), 0] @
           Put16 (of_nat (length (d_payload d))) @
           Put64 (h_match_id (d_header d)) @ Put64 (h_sequence (d_header d)) @
           Put32 (h_frame (d_header d)) @ d_payload d)"

definition protocol_decode :: "bytes \<Rightarrow> nat \<Rightarrow> Datagram decoded" where
  "protocol_decode bs maximum_datagram_bytes =
     (let size_error = ''Datagram size is outside the protocol limits.'';
          magic_error = ''Datagram magic or protocol version is invalid.'';
          header_error = ''Datagram header or payload length is invalid.'' in
      ensure (\<not> (maximum_datagram_bytes < 32 \<or>
                  maximum_datagram_bytes > kMaximumQuickJoinDatagramBytes \<or>
                  length bs < 32 \<or> length bs > maximum_datagram_bytes)) size_error (
      expect32 magic_error bs (\<lambda>magic c.
      expect32 magic_error c (\<lambda>version c.
      ensure (magic = kMagic \<and> version = kProtocolVersion) magic_error (
      index8 c (\<lambda>type c.
      index8 c (\<lambda>reserved c.
      ensure (ValidType type \<and> reserved = 0) header_error (
      expect16 header_error c (\<lambda>payload_size c.
      expect64 header_error c (\<lambda>match_id c.
      expect64 header_error c (\<lambda>sequence c.
      expect32 header_error c (\<lambda>frame c.
      ensure (unat payload_size = length c) header_error (
      Inr \<lparr>d_header = \<lparr>h_type = MessageType_of type, h_match_id = match_id,
                       h_sequence = sequence, h_frame = frame\<rparr>,
           d_payload = c\<rparr>)))))))))))))"

subsection \<open>Input batches\<close>

record InputBatch =
  ib_epoch :: u32
  ib_player_slot :: u8
  ib_first_frame :: u32
  ib_inputs :: "PackedInput list"
  ib_simulation_progress_present :: bool
  ib_simulation_scene_epoch :: u32
  ib_simulation_completed_frame :: u32
  ib_revisions :: "u32 list"

definition put_sample :: "PackedInput \<Rightarrow> u32 \<Rightarrow> bytes" where
  "put_sample input r =
     Put16 (buttons input) @ [stick_x input, stick_y input] @ Put32 r"

text \<open>The revision of every sample: an empty vector stands for revision 1 throughout.\<close>

definition batch_revisions :: "InputBatch \<Rightarrow> u32 list" where
  "batch_revisions b =
     (if ib_revisions b = [] then replicate (length (ib_inputs b)) 1 else ib_revisions b)"

definition encode_input_batch :: "InputBatch \<Rightarrow> bytes" where
  "encode_input_batch b =
     (if ib_epoch b = 0 \<or> kMaximumPlayers \<le> unat (ib_player_slot b) \<or>
         ib_inputs b = [] \<or> length (ib_inputs b) > 64 \<or>
         (ib_revisions b \<noteq> [] \<and> length (ib_revisions b) \<noteq> length (ib_inputs b)) \<or>
         ib_first_frame b > u32_max - of_nat (length (ib_inputs b) - 1)
      then []
      else if 0 \<in> set (batch_revisions b) then []
      else Put32 (ib_epoch b) @
           [ib_player_slot b, of_nat (length (ib_inputs b))] @
           Put32 (ib_first_frame b) @
           concat (map2 put_sample (ib_inputs b) (batch_revisions b)) @
           (if ib_simulation_progress_present b
            then Put32 (ib_simulation_scene_epoch b) @ Put32 (ib_simulation_completed_frame b)
            else []))"

fun take_samples ::
  "nat \<Rightarrow> bytes \<Rightarrow> ((PackedInput \<times> u32) list \<Rightarrow> bytes \<Rightarrow> 'a decoded) \<Rightarrow> 'a decoded" where
  "take_samples 0 c k = k [] c"
| "take_samples (Suc n) c k =
     expect16 ''Input batch is truncated.'' c (\<lambda>b c.
     index8 c (\<lambda>x c.
     index8 c (\<lambda>y c.
     expect32 ''Input sample revision is invalid.'' c (\<lambda>rev c.
     ensure (rev \<noteq> 0) ''Input sample revision is invalid.'' (
     take_samples n c (\<lambda>samples c.
       k ((\<lparr>buttons = b, stick_x = x, stick_y = y\<rparr>, rev) # samples) c))))))"

definition decode_input_batch :: "bytes \<Rightarrow> InputBatch decoded" where
  "decode_input_batch bs =
     (ensure (\<not> length bs < 18) ''Input batch is truncated.'' (
      expect32 ''Input batch epoch is truncated.'' bs (\<lambda>epoch c.
      index8 c (\<lambda>player_slot c.
      index8 c (\<lambda>count c.
      let input_bytes = 10 + unat count * 8;
          metadata_error = ''Input batch metadata is invalid.'';
          progress_error = ''Input batch simulation progress is invalid.'' in
      ensure (\<not> (epoch = 0 \<or> kMaximumPlayers \<le> unat player_slot \<or> count = 0 \<or> count > 64 \<or>
                  (length bs \<noteq> input_bytes \<and> length bs \<noteq> input_bytes + 8))) metadata_error (
      expect32 metadata_error c (\<lambda>first_frame c.
      ensure (\<not> (first_frame > u32_max - ucast (count - 1))) metadata_error (
      take_samples (unat count) c (\<lambda>samples c.
      let batch = \<lparr>ib_epoch = epoch, ib_player_slot = player_slot,
                   ib_first_frame = first_frame, ib_inputs = map fst samples,
                   ib_simulation_progress_present = False,
                   ib_simulation_scene_epoch = 0, ib_simulation_completed_frame = 0,
                   ib_revisions = map snd samples\<rparr>;
          finish = (\<lambda>batch c. ensure (c = []) ''Input batch has trailing data.'' (Inr batch)) in
      if length bs = input_bytes + 8 then
        expect32 progress_error c (\<lambda>scene_epoch c.
        expect32 progress_error c (\<lambda>completed_frame c.
        finish (batch\<lparr>ib_simulation_progress_present := True,
                      ib_simulation_scene_epoch := scene_epoch,
                      ib_simulation_completed_frame := completed_frame\<rparr>) c))
      else finish batch c)))))))))"

subsection \<open>Acknowledgements and requests\<close>

record InputAcknowledgePayload =
  ia_epoch :: u32
  ia_player_slot :: u8
  ia_newest_frame :: u32
  ia_first_missing_frame :: u32

definition encode_input_acknowledge :: "InputAcknowledgePayload \<Rightarrow> bytes" where
  "encode_input_acknowledge a =
     (if ia_epoch a = 0 \<or> kMaximumPlayers \<le> unat (ia_player_slot a) then []
      else Put32 (ia_epoch a) @ [ia_player_slot a] @ Put32 (ia_newest_frame a) @
           Put32 (ia_first_missing_frame a))"

definition decode_input_acknowledge :: "bytes \<Rightarrow> InputAcknowledgePayload decoded" where
  "decode_input_acknowledge bs =
     (ensure (length bs = 13) '''' (
      expect32 '''' bs (\<lambda>epoch c.
      expect8 '''' c (\<lambda>player_slot c.
      ensure (unat player_slot < kMaximumPlayers) '''' (
      expect32 '''' c (\<lambda>newest_frame c.
      expect32 '''' c (\<lambda>first_missing_frame c.
      ensure (epoch \<noteq> 0 \<and> c = []) '''' (
      Inr \<lparr>ia_epoch = epoch, ia_player_slot = player_slot, ia_newest_frame = newest_frame,
           ia_first_missing_frame = first_missing_frame\<rparr>))))))))"

record InputRepairRequestPayload =
  ir_epoch :: u32
  ir_player_slot :: u8
  ir_first_missing_frame :: u32

definition encode_input_repair_request :: "InputRepairRequestPayload \<Rightarrow> bytes" where
  "encode_input_repair_request r =
     (if ir_epoch r = 0 \<or> kMaximumPlayers \<le> unat (ir_player_slot r) then []
      else Put32 (ir_epoch r) @ [ir_player_slot r] @ Put32 (ir_first_missing_frame r))"

definition decode_input_repair_request :: "bytes \<Rightarrow> InputRepairRequestPayload decoded" where
  "decode_input_repair_request bs =
     (ensure (length bs = 9) '''' (
      expect32 '''' bs (\<lambda>epoch c.
      expect8 '''' c (\<lambda>player_slot c.
      ensure (unat player_slot < kMaximumPlayers) '''' (
      expect32 '''' c (\<lambda>first_missing_frame c.
      ensure (epoch \<noteq> 0 \<and> c = []) '''' (
      Inr \<lparr>ir_epoch = epoch, ir_player_slot = player_slot,
           ir_first_missing_frame = first_missing_frame\<rparr>)))))))"

record FrameCommitRequestPayload =
  fr_epoch :: u32
  fr_player_slot :: u8
  fr_first_missing_frame :: u32

definition encode_frame_commit_request :: "FrameCommitRequestPayload \<Rightarrow> bytes" where
  "encode_frame_commit_request r =
     (if fr_epoch r = 0 \<or> kMaximumPlayers \<le> unat (fr_player_slot r) then []
      else Put32 (fr_epoch r) @ [fr_player_slot r] @ Put32 (fr_first_missing_frame r))"

definition decode_frame_commit_request :: "bytes \<Rightarrow> FrameCommitRequestPayload decoded" where
  "decode_frame_commit_request bs =
     (ensure (length bs = 9) '''' (
      expect32 '''' bs (\<lambda>epoch c.
      expect8 '''' c (\<lambda>player_slot c.
      ensure (unat player_slot < kMaximumPlayers) '''' (
      expect32 '''' c (\<lambda>first_missing_frame c.
      ensure (epoch \<noteq> 0 \<and> c = []) '''' (
      Inr \<lparr>fr_epoch = epoch, fr_player_slot = player_slot,
           fr_first_missing_frame = first_missing_frame\<rparr>)))))))"

subsection \<open>Gameplay hand-off, rollback payload, gameplay barrier\<close>

datatype GameplayHandoffStage = HandoffRequest | HandoffSuspend

fun byte_of_GameplayHandoffStage :: "GameplayHandoffStage \<Rightarrow> u8" where
  "byte_of_GameplayHandoffStage HandoffRequest = 0"
| "byte_of_GameplayHandoffStage HandoffSuspend = 1"

definition GameplayHandoffStage_of :: "u8 \<Rightarrow> GameplayHandoffStage" where
  "GameplayHandoffStage_of b = (if b = 0 then HandoffRequest else HandoffSuspend)"

record GameplayHandoffPayload =
  gh_current_input_epoch :: u32
  gh_resume_input_epoch :: u32
  gh_boundary_frame :: u32
  gh_map :: u32
  gh_player_slot :: u8
  gh_stage :: GameplayHandoffStage

definition encode_gameplay_handoff :: "GameplayHandoffPayload \<Rightarrow> bytes" where
  "encode_gameplay_handoff h =
     (if gh_current_input_epoch h = 0 \<or> kMaximumPlayers \<le> unat (gh_player_slot h) \<or>
         byte_of_GameplayHandoffStage (gh_stage h) >
           byte_of_GameplayHandoffStage HandoffSuspend \<or>
         (gh_stage h = HandoffRequest \<and> gh_resume_input_epoch h \<noteq> 0) \<or>
         (gh_stage h = HandoffSuspend \<and> gh_resume_input_epoch h = 0)
      then []
      else Put32 (gh_current_input_epoch h) @ Put32 (gh_resume_input_epoch h) @
           Put32 (gh_boundary_frame h) @ Put32 (gh_map h) @
           [gh_player_slot h, byte_of_GameplayHandoffStage (gh_stage h)])"

definition decode_gameplay_handoff :: "bytes \<Rightarrow> GameplayHandoffPayload decoded" where
  "decode_gameplay_handoff bs =
     (ensure (length bs = 18) '''' (
      expect32 '''' bs (\<lambda>current_input_epoch c.
      expect32 '''' c (\<lambda>resume_input_epoch c.
      expect32 '''' c (\<lambda>boundary_frame c.
      expect32 '''' c (\<lambda>map c.
      expect8 '''' c (\<lambda>player_slot c.
      ensure (unat player_slot < kMaximumPlayers) '''' (
      expect8 '''' c (\<lambda>stage c.
      ensure (stage \<le> byte_of_GameplayHandoffStage HandoffSuspend \<and>
              current_input_epoch \<noteq> 0 \<and> c = []) '''' (
      let h = \<lparr>gh_current_input_epoch = current_input_epoch,
               gh_resume_input_epoch = resume_input_epoch,
               gh_boundary_frame = boundary_frame, gh_map = map,
               gh_player_slot = player_slot,
               gh_stage = GameplayHandoffStage_of stage\<rparr> in
      ensure ((gh_stage h = HandoffRequest \<and> resume_input_epoch = 0) \<or>
              (gh_stage h = HandoffSuspend \<and> resume_input_epoch \<noteq> 0)) '''' (Inr h)))))))))))"

record RollbackPayload =
  rp_scene_epoch :: u32
  rp_transport_epoch :: u32
  rp_source_slot :: u8
  rp_target_slot :: u8
  rp_bytes :: bytes

definition encode_rollback_payload :: "RollbackPayload \<Rightarrow> bytes" where
  "encode_rollback_payload p =
     (if rp_scene_epoch p = 0 \<or> rp_transport_epoch p = 0 \<or>
         kMaximumPlayers \<le> unat (rp_source_slot p) \<or>
         kMaximumPlayers \<le> unat (rp_target_slot p) \<or> rp_bytes p = [] \<or>
         length (rp_bytes p) + 10 > kMaximumDatagramBytes - 64
      then []
      else Put32 (rp_scene_epoch p) @ Put32 (rp_transport_epoch p) @
           [rp_source_slot p, rp_target_slot p] @ rp_bytes p)"

definition decode_rollback_payload :: "bytes \<Rightarrow> RollbackPayload decoded" where
  "decode_rollback_payload bs =
     (let msg = ''Rollback transport payload is invalid.'' in
      ensure (\<not> (length bs \<le> 10 \<or> length bs > kMaximumDatagramBytes - 64)) msg (
      expect32 msg bs (\<lambda>scene_epoch c.
      expect32 msg c (\<lambda>transport_epoch c.
      ensure (scene_epoch \<noteq> 0 \<and> transport_epoch \<noteq> 0) msg (
      index8 c (\<lambda>source_slot c.
      ensure (unat source_slot < kMaximumPlayers) msg (
      index8 c (\<lambda>target_slot c.
      ensure (unat target_slot < kMaximumPlayers) msg (
      Inr \<lparr>rp_scene_epoch = scene_epoch, rp_transport_epoch = transport_epoch,
           rp_source_slot = source_slot, rp_target_slot = target_slot,
           rp_bytes = c\<rparr>)))))))))"

datatype GameplayBarrierStage =
  BarrierPrepare | BarrierReady | BarrierBaseline | BarrierArm | BarrierArmed | BarrierGo

fun byte_of_GameplayBarrierStage :: "GameplayBarrierStage \<Rightarrow> u8" where
  "byte_of_GameplayBarrierStage BarrierPrepare = 0"
| "byte_of_GameplayBarrierStage BarrierReady = 1"
| "byte_of_GameplayBarrierStage BarrierBaseline = 2"
| "byte_of_GameplayBarrierStage BarrierArm = 3"
| "byte_of_GameplayBarrierStage BarrierArmed = 4"
| "byte_of_GameplayBarrierStage BarrierGo = 5"

definition GameplayBarrierStage_of :: "u8 \<Rightarrow> GameplayBarrierStage" where
  "GameplayBarrierStage_of b =
     (if b = 0 then BarrierPrepare else if b = 1 then BarrierReady
      else if b = 2 then BarrierBaseline else if b = 3 then BarrierArm
      else if b = 4 then BarrierArmed else BarrierGo)"

record GameplayBarrierPayload =
  gb_scene_epoch :: u32
  gb_map :: u32
  gb_racer_count :: u32
  gb_player_slot :: u8
  gb_stage :: GameplayBarrierStage

definition encode_gameplay_barrier :: "GameplayBarrierPayload \<Rightarrow> bytes" where
  "encode_gameplay_barrier b =
     (if gb_scene_epoch b = 0 \<or> gb_racer_count b > 10 \<or>
         kMaximumPlayers \<le> unat (gb_player_slot b) \<or>
         byte_of_GameplayBarrierStage (gb_stage b) > byte_of_GameplayBarrierStage BarrierGo
      then []
      else Put32 (gb_scene_epoch b) @ Put32 (gb_map b) @ Put32 (gb_racer_count b) @
           [gb_player_slot b, byte_of_GameplayBarrierStage (gb_stage b)])"

definition decode_gameplay_barrier :: "bytes \<Rightarrow> GameplayBarrierPayload decoded" where
  "decode_gameplay_barrier bs =
     (ensure (length bs = 14) '''' (
      expect32 '''' bs (\<lambda>scene_epoch c.
      expect32 '''' c (\<lambda>map c.
      expect32 '''' c (\<lambda>racer_count c.
      expect8 '''' c (\<lambda>player_slot c.
      ensure (unat player_slot < kMaximumPlayers) '''' (
      expect8 '''' c (\<lambda>stage c.
      ensure (stage \<le> byte_of_GameplayBarrierStage BarrierGo) '''' (
      ensure (scene_epoch \<noteq> 0 \<and> racer_count \<le> 10 \<and> c = []) '''' (
      Inr \<lparr>gb_scene_epoch = scene_epoch, gb_map = map, gb_racer_count = racer_count,
           gb_player_slot = player_slot,
           gb_stage = GameplayBarrierStage_of stage\<rparr>))))))))))"

subsection \<open>The canonical form of an input batch\<close>

text \<open>
  What a decoder makes of an encoded batch: the implicit revisions written out, and no
  simulation progress where none is present.
\<close>

definition canonical_batch :: "InputBatch \<Rightarrow> InputBatch" where
  "canonical_batch b =
     b\<lparr>ib_revisions := batch_revisions b,
       ib_simulation_scene_epoch :=
         (if ib_simulation_progress_present b then ib_simulation_scene_epoch b else 0),
       ib_simulation_completed_frame :=
         (if ib_simulation_progress_present b then ib_simulation_completed_frame b else 0)\<rparr>"

abbreviation put_samples :: "(PackedInput \<times> u32) list \<Rightarrow> bytes" where
  "put_samples ss \<equiv> concat (map (\<lambda>(i, r). put_sample i r) ss)"

subsection \<open>The message types and their codes\<close>

lemma distinct_message_types: "distinct message_types"
  by (simp add: message_types_def)

lemma set_message_types: "t \<in> set message_types"
  by (cases t) (simp_all add: message_types_def)

lemma length_message_types: "length message_types = 53"
  by (simp add: message_types_def)

lemma unat_byte_of_MessageType: "unat (byte_of_MessageType t) = Suc (position t message_types)"
  using position_less [OF set_message_types [of t]]
  by (simp add: byte_of_MessageType_def length_message_types unat_of_nat del: of_nat_Suc)

lemma MessageType_of_byte [simp]: "MessageType_of (byte_of_MessageType t) = t"
  by (simp add: MessageType_of_def unat_byte_of_MessageType nth_position [OF set_message_types])

lemma ValidType_iff: "ValidType b \<longleftrightarrow> 1 \<le> unat b \<and> unat b \<le> 53"
proof -
  have "byte_of_MessageType MsgHello = 1" "byte_of_MessageType MsgOnlineSaveStatus = 53"
    by (simp_all add: byte_of_MessageType_def message_types_def)
  then show ?thesis by (auto simp: ValidType_def word_le_nat_alt)
qed

lemma ValidType_byte [simp]: "ValidType (byte_of_MessageType t)"
  using position_less [OF set_message_types [of t]]
  by (simp add: ValidType_iff unat_byte_of_MessageType length_message_types)

lemma byte_of_MessageType_of [simp]:
  assumes "ValidType b" shows "byte_of_MessageType (MessageType_of b) = b"
proof -
  have "position (message_types ! (unat b - 1)) message_types = unat b - 1"
    using assms distinct_message_types
    by (intro position_nth) (auto simp: ValidType_iff length_message_types)
  then show ?thesis
    using assms by (simp add: byte_of_MessageType_def MessageType_of_def ValidType_iff
        del: of_nat_Suc)
qed

subsection \<open>The codecs\<close>

interpretation datagram: exact_codec "\<lambda>d. protocol_encode d maximum" "\<lambda>bs. protocol_decode bs maximum"
  for maximum
proof unfold_locales
  fix bs d
  show "protocol_decode bs maximum = Inr d \<longleftrightarrow> bs \<noteq> [] \<and> protocol_encode d maximum = bs"
  proof
    assume "protocol_decode bs maximum = Inr d"
    then show "bs \<noteq> [] \<and> protocol_encode d maximum = bs"
      by (auto simp: protocol_decode_def protocol_encode_def Let_def wire_inv wire_limits
          dest: of_nat_length_word)
  next
    assume h: "bs \<noteq> [] \<and> protocol_encode d maximum = bs"
    then show "protocol_decode bs maximum = Inr d"
      by (cases d; cases "d_header d")
       (auto simp: protocol_decode_def protocol_encode_def Let_def wire_run of_nat_u16_unat split: if_splits)
  qed
  show "protocol_decode bs maximum \<noteq> Inl OutOfRange"
    by (auto simp: protocol_decode_def Let_def wire_inv)
qed

lemma GameplayHandoffStage_cast [simp]:
  "GameplayHandoffStage_of (byte_of_GameplayHandoffStage s) = s"
  "b \<le> 1 \<Longrightarrow> byte_of_GameplayHandoffStage (GameplayHandoffStage_of b) = b"
  "byte_of_GameplayHandoffStage s \<le> 1"
  by (cases s; auto simp: GameplayHandoffStage_of_def u8_le_iffs)+

lemma GameplayBarrierStage_cast [simp]:
  "GameplayBarrierStage_of (byte_of_GameplayBarrierStage s) = s"
  "b \<le> 5 \<Longrightarrow> byte_of_GameplayBarrierStage (GameplayBarrierStage_of b) = b"
  "byte_of_GameplayBarrierStage s \<le> 5"
  by (cases s; auto simp: GameplayBarrierStage_of_def u8_le_iffs)+

interpretation input_acknowledge: exact_codec encode_input_acknowledge decode_input_acknowledge
proof (rule exact_codecI)
  show "bs \<noteq> [] \<and> encode_input_acknowledge x = bs" if "decode_input_acknowledge bs = Inr x" for bs x
    using that by (auto simp: decode_input_acknowledge_def encode_input_acknowledge_def Let_def wire_inv)
  show "decode_input_acknowledge (encode_input_acknowledge x) = Inr x" if "encode_input_acknowledge x \<noteq> []" for x
    using that by (cases x) (auto simp: decode_input_acknowledge_def encode_input_acknowledge_def Let_def wire_run split: if_splits)
  show "decode_input_acknowledge bs \<noteq> Inl OutOfRange" for bs
    by (auto simp: decode_input_acknowledge_def Let_def wire_inv)
qed

interpretation input_repair_request: exact_codec encode_input_repair_request decode_input_repair_request
proof (rule exact_codecI)
  show "bs \<noteq> [] \<and> encode_input_repair_request x = bs" if "decode_input_repair_request bs = Inr x" for bs x
    using that by (auto simp: decode_input_repair_request_def encode_input_repair_request_def Let_def wire_inv)
  show "decode_input_repair_request (encode_input_repair_request x) = Inr x" if "encode_input_repair_request x \<noteq> []" for x
    using that by (cases x) (auto simp: decode_input_repair_request_def encode_input_repair_request_def Let_def wire_run split: if_splits)
  show "decode_input_repair_request bs \<noteq> Inl OutOfRange" for bs
    by (auto simp: decode_input_repair_request_def Let_def wire_inv)
qed

interpretation frame_commit_request: exact_codec encode_frame_commit_request decode_frame_commit_request
proof (rule exact_codecI)
  show "bs \<noteq> [] \<and> encode_frame_commit_request x = bs" if "decode_frame_commit_request bs = Inr x" for bs x
    using that by (auto simp: decode_frame_commit_request_def encode_frame_commit_request_def Let_def wire_inv)
  show "decode_frame_commit_request (encode_frame_commit_request x) = Inr x" if "encode_frame_commit_request x \<noteq> []" for x
    using that by (cases x) (auto simp: decode_frame_commit_request_def encode_frame_commit_request_def Let_def wire_run split: if_splits)
  show "decode_frame_commit_request bs \<noteq> Inl OutOfRange" for bs
    by (auto simp: decode_frame_commit_request_def Let_def wire_inv)
qed

interpretation gameplay_handoff: exact_codec encode_gameplay_handoff decode_gameplay_handoff
proof (rule exact_codecI)
  show "bs \<noteq> [] \<and> encode_gameplay_handoff x = bs" if "decode_gameplay_handoff bs = Inr x" for bs x
    using that
    by (auto simp: decode_gameplay_handoff_def encode_gameplay_handoff_def Let_def wire_inv
        GameplayHandoffStage_of_def u8_le_1_iff split: if_splits)
  show "decode_gameplay_handoff (encode_gameplay_handoff x) = Inr x" if "encode_gameplay_handoff x \<noteq> []" for x
    using that by (cases x; cases "gh_stage x") (auto simp: decode_gameplay_handoff_def encode_gameplay_handoff_def Let_def wire_run GameplayHandoffStage_of_def split: if_splits)
  show "decode_gameplay_handoff bs \<noteq> Inl OutOfRange" for bs
    by (auto simp: decode_gameplay_handoff_def Let_def wire_inv)
qed

interpretation rollback_payload: exact_codec encode_rollback_payload decode_rollback_payload
proof (rule exact_codecI)
  show "bs \<noteq> [] \<and> encode_rollback_payload x = bs" if "decode_rollback_payload bs = Inr x" for bs x
    using that by (auto simp: decode_rollback_payload_def encode_rollback_payload_def Let_def wire_inv)
  show "decode_rollback_payload (encode_rollback_payload x) = Inr x" if "encode_rollback_payload x \<noteq> []" for x
    using that by (cases x) (auto simp: decode_rollback_payload_def encode_rollback_payload_def Let_def wire_run split: if_splits)
  show "decode_rollback_payload bs \<noteq> Inl OutOfRange" for bs
    by (auto simp: decode_rollback_payload_def Let_def wire_inv)
qed

interpretation gameplay_barrier: exact_codec encode_gameplay_barrier decode_gameplay_barrier
proof (rule exact_codecI)
  show "bs \<noteq> [] \<and> encode_gameplay_barrier x = bs" if "decode_gameplay_barrier bs = Inr x" for bs x
    using that by (auto simp: decode_gameplay_barrier_def encode_gameplay_barrier_def Let_def wire_inv)
  show "decode_gameplay_barrier (encode_gameplay_barrier x) = Inr x" if "encode_gameplay_barrier x \<noteq> []" for x
    using that by (cases x) (auto simp: decode_gameplay_barrier_def encode_gameplay_barrier_def Let_def wire_run split: if_splits)
  show "decode_gameplay_barrier bs \<noteq> Inl OutOfRange" for bs
    by (auto simp: decode_gameplay_barrier_def Let_def wire_inv)
qed

subsection \<open>Input batches\<close>

lemma length_put_samples [simp]: "length (put_samples ss) = 8 * length ss"
  by (induction ss) (auto simp: put_sample_def)

lemma PackedInput_collect:
  "\<lparr>buttons = buttons a, stick_x = stick_x a, stick_y = stick_y a\<rparr> = a"
  by simp

lemma take_samples_run:
  "\<forall>s \<in> set ss. snd s \<noteq> 0 \<Longrightarrow> take_samples (length ss) (put_samples ss @ r) k = k ss r"
  by (induction ss arbitrary: k) (auto simp: put_sample_def wire_run PackedInput_collect simp del: PackedInput.cases)

lemma take_samples_inv:
  "take_samples n c k = Inr x \<Longrightarrow>
     \<exists>ss r. length ss = n \<and> (\<forall>s \<in> set ss. snd s \<noteq> 0) \<and> c = put_samples ss @ r \<and> k ss r = Inr x"
proof (induction n arbitrary: c k)
  case 0
  then show ?case by auto
next
  case (Suc n)
  then obtain b px py v c' where c: "c = Put16 b @ px # py # Put32 v @ c'" and v: "v \<noteq> 0"
    and t: "take_samples n c' (\<lambda>ss. k ((\<lparr>buttons = b, stick_x = px, stick_y = py\<rparr>, v) # ss)) = Inr x"
    by (auto simp: wire_inv)
  from Suc.IH [OF t] obtain ss r where ss: "length ss = n" "\<forall>s \<in> set ss. snd s \<noteq> 0"
    "c' = put_samples ss @ r" "k ((\<lparr>buttons = b, stick_x = px, stick_y = py\<rparr>, v) # ss) r = Inr x"
    by blast
  then show ?case
    using c v by (intro exI [of _ "(\<lparr>buttons = b, stick_x = px, stick_y = py\<rparr>, v) # ss"]
        exI [of _ r]) (simp add: put_sample_def)
qed

lemma take_samples_safe:
  "take_samples n c k = Inl OutOfRange \<Longrightarrow> 8 * n \<le> length c \<Longrightarrow>
     \<exists>ss r. length ss = n \<and> c = put_samples ss @ r \<and> k ss r = Inl OutOfRange"
proof (induction n arbitrary: c k)
  case 0
  then show ?case by auto
next
  case (Suc n)
  then obtain b px py v c' where c: "c = Put16 b @ px # py # Put32 v @ c'"
    and t: "take_samples n c' (\<lambda>ss. k ((\<lparr>buttons = b, stick_x = px, stick_y = py\<rparr>, v) # ss))
      = Inl OutOfRange"
    by (auto simp: wire_inv)
  have "8 * n \<le> length c'" using Suc.prems(2) c by simp
  from Suc.IH [OF t this] obtain ss r where "length ss = n" "c' = put_samples ss @ r"
    "k ((\<lparr>buttons = b, stick_x = px, stick_y = py\<rparr>, v) # ss) r = Inl OutOfRange"
    by blast
  then show ?case
    using c by (intro exI [of _ "(\<lparr>buttons = b, stick_x = px, stick_y = py\<rparr>, v) # ss"]
        exI [of _ r]) (simp add: put_sample_def)
qed

lemma ucast_count:
  "0 < n \<Longrightarrow> n \<le> 64 \<Longrightarrow> ucast (of_nat n - 1 :: u8) = (of_nat (n - 1) :: u32)"
  by (cases n) (auto simp: word_unat_eq_iff unat_of_nat unsigned_ucast_eq take_bit_nat_eq_self_iff)

lemma length_batch_revisions:
  "encode_input_batch b \<noteq> [] \<Longrightarrow> length (batch_revisions b) = length (ib_inputs b)"
  by (auto simp: encode_input_batch_def batch_revisions_def split: if_splits)

lemma decode_encode_input_batch:
  assumes "encode_input_batch b \<noteq> []"
  shows "decode_input_batch (encode_input_batch b) = Inr (canonical_batch b)"
proof -
  let ?n = "length (ib_inputs b)" and ?ss = "zip (ib_inputs b) (batch_revisions b)"
  let ?tail = "if ib_simulation_progress_present b
    then Put32 (ib_simulation_scene_epoch b) @ Put32 (ib_simulation_completed_frame b) else []"
  have lr: "length (batch_revisions b) = ?n" using assms by (rule length_batch_revisions)
  have g: "ib_epoch b \<noteq> 0" "unat (ib_player_slot b) < kMaximumPlayers" "0 < ?n" "?n \<le> 64"
    "\<not> u32_max - of_nat (?n - 1) < ib_first_frame b" "0 \<notin> set (batch_revisions b)"
    and e: "encode_input_batch b = Put32 (ib_epoch b) @ ib_player_slot b # of_nat ?n #
       Put32 (ib_first_frame b) @ put_samples ?ss @ ?tail"
    using assms by (auto simp: encode_input_batch_def not_le not_less split: if_splits)
  have n: "unat (of_nat ?n :: u8) = ?n" "(of_nat ?n :: u8) \<noteq> 0" "\<not> (64 :: u8) < of_nat ?n"
    using g by (auto simp: of_nat_u8_unat word_less_nat_alt unat_eq_0 [symmetric] simp del: unat_eq_0)
  have "\<forall>s \<in> set ?ss. snd s \<noteq> 0" using g(6) by (auto dest: set_zip_rightD)
  then have run: "take_samples ?n (put_samples ?ss @ r) k = k ?ss r"
    for r and k :: "_ \<Rightarrow> _ \<Rightarrow> InputBatch decoded"
    using take_samples_run [of ?ss r k] lr by simp
  show ?thesis
    using g n lr unfolding decode_input_batch_def e
    by (auto simp: Let_def wire_run run canonical_batch_def ucast_count
        intro!: InputBatch.equality)
qed

lemma count_facts:
  fixes n :: u8
  assumes "n \<noteq> 0" "\<not> 64 < n"
  shows "0 < unat n" "unat n \<le> 64" "ucast (n - 1) = (of_nat (unat n - 1) :: u32)" "of_nat (unat n) = n"
proof -
  show n: "0 < unat n" "unat n \<le> 64" and "of_nat (unat n) = n"
    using assms by (auto simp: word_less_nat_alt unat_eq_0 intro!: gr0I)
  then show "ucast (n - 1) = (of_nat (unat n - 1) :: u32)"
    using ucast_count [OF n] by simp
qed

lemma decode_input_batch_inv:
  assumes "decode_input_batch bs = Inr x"
  shows "encode_input_batch x = bs \<and> bs \<noteq> [] \<and> canonical_batch x = x"
proof -
  obtain epoch slot count first c where
    bs: "bs = Put32 epoch @ slot # count # Put32 first @ c"
    and g: "epoch \<noteq> 0" "unat slot < kMaximumPlayers" "count \<noteq> 0" "\<not> 64 < count"
      "\<not> first > u32_max - ucast (count - 1)"
    and t: "take_samples (unat count) c (\<lambda>samples c.
      let batch = \<lparr>ib_epoch = epoch, ib_player_slot = slot,
                   ib_first_frame = first, ib_inputs = map fst samples,
                   ib_simulation_progress_present = False,
                   ib_simulation_scene_epoch = 0, ib_simulation_completed_frame = 0,
                   ib_revisions = map snd samples\<rparr>;
          finish = (\<lambda>batch c. ensure (c = []) ''Input batch has trailing data.'' (Inr batch)) in
      if length bs = 10 + unat count * 8 + 8 then
        expect32 ''Input batch simulation progress is invalid.'' c (\<lambda>scene_epoch c.
        expect32 ''Input batch simulation progress is invalid.'' c (\<lambda>completed_frame c.
        finish (batch\<lparr>ib_simulation_progress_present := True,
                      ib_simulation_scene_epoch := scene_epoch,
                      ib_simulation_completed_frame := completed_frame\<rparr>) c))
      else finish batch c) = Inr x"
    using assms by (auto simp: decode_input_batch_def Let_def wire_inv not_le)
  note n = count_facts [OF g(3,4)]
  from take_samples_inv [OF t] obtain ss r where ss: "length ss = unat count" "\<forall>s \<in> set ss. snd s \<noteq> 0"
    "c = put_samples ss @ r"
    and x: "x = \<lparr>ib_epoch = epoch, ib_player_slot = slot, ib_first_frame = first,
         ib_inputs = map fst ss, ib_simulation_progress_present = False,
         ib_simulation_scene_epoch = 0, ib_simulation_completed_frame = 0,
         ib_revisions = map snd ss\<rparr> \<and> r = [] \<or>
       (\<exists>s f. r = Put32 s @ Put32 f \<and> x = \<lparr>ib_epoch = epoch, ib_player_slot = slot,
         ib_first_frame = first,
         ib_inputs = map fst ss, ib_simulation_progress_present = True,
         ib_simulation_scene_epoch = s, ib_simulation_completed_frame = f,
         ib_revisions = map snd ss\<rparr>)"
    by (auto simp: Let_def wire_inv split: if_splits)
  have "ss \<noteq> []" using ss(1) n(1) by auto
  moreover have "0 \<notin> snd ` set ss" using ss(2) by force
  ultimately show ?thesis
    using x bs g n ss
    by (auto simp: encode_input_batch_def batch_revisions_def canonical_batch_def zip_map_fst_snd)
qed

lemma decode_input_batch_safe: "decode_input_batch bs \<noteq> Inl OutOfRange"
  by (auto simp: decode_input_batch_def Let_def wire_inv dest!: take_samples_safe split: if_splits)

interpretation input_batch: wire_codec encode_input_batch decode_input_batch
  "\<lambda>b. encode_input_batch b \<noteq> [] \<and> canonical_batch b = b"
  by unfold_locales
    (auto simp: decode_encode_input_batch decode_input_batch_safe dest: decode_input_batch_inv)
end
