(* ===== verification/Protocol_State.thy ===== *)
theory Protocol_State
  imports Protocol_Input
begin

section \<open>Wire protocol: the frame ledger and authoritative state\<close>

text \<open>
  Models the messages of \<^verbatim>\<open>netplay_protocol.cpp\<close> that carry Player 1's frame commits and
  the authoritative state (lines 486 to 865 and 1163 to 1213): the hash-chained commits and
  their batches, snapshot chunks, requests and acknowledgements, recovery, transition
  barriers, simulation progress, racer orientation and state hashes. A
  \<^verbatim>\<open>std::array\<close> is a list; that it has the length of the array is part of the
  well-formedness of the payload.
\<close>

subsection \<open>Frame commits\<close>

record FrameCommitPayload =
  fc_epoch :: u32
  fc_frame :: u32
  fc_revision :: u16
  fc_occupied_mask :: u8
  fc_predicted_mask :: u8
  fc_inputs :: FrameInputs
  fc_previous_hash :: u64
  fc_commit_hash :: u64

definition frame_commit_hash :: "u64 \<Rightarrow> FrameCommitPayload \<Rightarrow> u64" where
  "frame_commit_hash match_id commit =
     (let hash = foldl HashByte fnv_basis (
            append_le match_id 8 @
            append_le (ucast (fc_epoch commit)) 4 @
            append_le (ucast (fc_frame commit)) 4 @
            append_le (ucast (fc_revision commit)) 2 @
            append_le (ucast (fc_occupied_mask commit)) 1 @
            append_le (ucast (fc_predicted_mask commit)) 1 @
            concat (map (\<lambda>input.
              append_le (ucast (buttons input)) 2 @
              append_le (ucast (stick_x input)) 1 @
              append_le (ucast (stick_y input)) 1) (fc_inputs commit)) @
            append_le (fc_previous_hash commit) 8)
      in if hash \<noteq> 0 then hash else 1)"

record FrameCommitBatch =
  fb_generation :: u32
  fb_correction_first :: u32
  fb_correction_last :: u32
  fb_correction :: bool
  fb_commits :: "FrameCommitPayload list"

definition put_input :: "PackedInput \<Rightarrow> bytes" where
  "put_input input = Put16 (buttons input) @ [stick_x input, stick_y input]"

definition put_commit :: "FrameCommitPayload \<Rightarrow> bytes" where
  "put_commit commit =
     Put32 (fc_epoch commit) @ Put32 (fc_frame commit) @ Put16 (fc_revision commit) @
     [fc_occupied_mask commit, fc_predicted_mask commit] @
     concat (map put_input (fc_inputs commit)) @
     Put64 (fc_previous_hash commit) @ Put64 (fc_commit_hash commit)"

definition encode_frame_commit_batch :: "FrameCommitBatch \<Rightarrow> bytes" where
  "encode_frame_commit_batch b =
     (if fb_commits b = [] \<or> length (fb_commits b) > 16 then []
      else if fb_correction b \<and>
              (fb_generation b = 0 \<or> fb_correction_first b > fb_correction_last b) then []
      else if \<exists>commit \<in> set (fb_commits b).
                fc_epoch commit = 0 \<or> fc_occupied_mask commit = 0 \<or> fc_commit_hash commit = 0
           then []
      else [of_nat (length (fb_commits b)), if fb_correction b then 1 else 0] @
           Put32 (fb_generation b) @ Put32 (fb_correction_first b) @
           Put32 (fb_correction_last b) @
           concat (map put_commit (fb_commits b)))"

definition take_input :: "bytes \<Rightarrow> (PackedInput \<Rightarrow> bytes \<Rightarrow> 'a decoded) \<Rightarrow> 'a decoded" where
  "take_input c k =
     (let msg = ''Frame commit inputs are truncated.'' in
      expect16 msg c (\<lambda>b c.
      ensure (2 \<le> length c) msg (
      index8 c (\<lambda>x c.
      index8 c (\<lambda>y c.
      k \<lparr>buttons = b, stick_x = x, stick_y = y\<rparr> c)))))"

definition take_commit ::
  "bytes \<Rightarrow> (FrameCommitPayload \<Rightarrow> bytes \<Rightarrow> 'a decoded) \<Rightarrow> 'a decoded" where
  "take_commit c k =
     (let truncated = ''Frame commit batch is truncated.'';
          chain_error = ''Frame commit chain is invalid.'' in
      expect32 truncated c (\<lambda>epoch c.
      expect32 truncated c (\<lambda>frame c.
      expect16 truncated c (\<lambda>revision c.
      ensure (2 \<le> length c) truncated (
      index8 c (\<lambda>occupied_mask c.
      index8 c (\<lambda>predicted_mask c.
      take_list kMaximumPlayers take_input c (\<lambda>inputs c.
      expect64 chain_error c (\<lambda>previous_hash c.
      expect64 chain_error c (\<lambda>commit_hash c.
      ensure (\<not> (epoch = 0 \<or> occupied_mask = 0 \<or>
                  predicted_mask AND NOT occupied_mask \<noteq> 0 \<or> commit_hash = 0)) chain_error (
      k \<lparr>fc_epoch = epoch, fc_frame = frame, fc_revision = revision,
         fc_occupied_mask = occupied_mask, fc_predicted_mask = predicted_mask,
         fc_inputs = inputs, fc_previous_hash = previous_hash,
         fc_commit_hash = commit_hash\<rparr> c)))))))))))"

definition decode_frame_commit_batch :: "bytes \<Rightarrow> FrameCommitBatch decoded" where
  "decode_frame_commit_batch bs =
     (let metadata_error = ''Frame commit batch metadata is invalid.'';
          truncated = ''Frame commit batch metadata is truncated.'' in
      ensure (\<not> length bs < 14) metadata_error (
      index8 bs (\<lambda>count c.
      index8 c (\<lambda>flag c.
      ensure (\<not> (count = 0 \<or> count > 16 \<or> flag > 1 \<or>
                  length bs \<noteq> 14 + unat count * 44)) metadata_error (
      expect32 truncated c (\<lambda>generation c.
      expect32 truncated c (\<lambda>correction_first c.
      expect32 truncated c (\<lambda>correction_last c.
      let correction = (flag \<noteq> 0) in
      ensure (\<not> (correction \<and> (generation = 0 \<or> correction_first > correction_last)))
        ''Frame correction range is invalid.'' (
      take_list (unat count) take_commit c (\<lambda>commits c.
      Inr \<lparr>fb_generation = generation, fb_correction_first = correction_first,
           fb_correction_last = correction_last, fb_correction = correction,
           fb_commits = commits\<rparr>))))))))))"

record FrameCorrectionAcknowledgePayload =
  ca_epoch :: u32
  ca_generation :: u32
  ca_player_slot :: u8

definition encode_frame_correction_acknowledge ::
  "FrameCorrectionAcknowledgePayload \<Rightarrow> bytes" where
  "encode_frame_correction_acknowledge a =
     (if ca_epoch a = 0 \<or> ca_generation a = 0 \<or> kMaximumPlayers \<le> unat (ca_player_slot a)
      then []
      else Put32 (ca_epoch a) @ Put32 (ca_generation a) @ [ca_player_slot a])"

definition decode_frame_correction_acknowledge ::
  "bytes \<Rightarrow> FrameCorrectionAcknowledgePayload decoded" where
  "decode_frame_correction_acknowledge bs =
     (ensure (length bs = 9) '''' (
      expect32 '''' bs (\<lambda>epoch c.
      expect32 '''' c (\<lambda>generation c.
      expect8 '''' c (\<lambda>player_slot c.
      ensure (epoch \<noteq> 0 \<and> generation \<noteq> 0 \<and> unat player_slot < kMaximumPlayers) '''' (
      Inr \<lparr>ca_epoch = epoch, ca_generation = generation, ca_player_slot = player_slot\<rparr>))))))"

subsection \<open>Authoritative snapshots\<close>

record StateSnapshotChunk =
  sc_scene_epoch :: u32
  sc_frame :: u32
  sc_checksum :: u64
  sc_total_size :: u32
  sc_chunk_index :: u16
  sc_chunk_count :: u16
  sc_bytes :: bytes

definition encode_state_snapshot_chunk :: "StateSnapshotChunk \<Rightarrow> nat \<Rightarrow> bytes" where
  "encode_state_snapshot_chunk chunk maximum_datagram_bytes =
     (if maximum_datagram_bytes < 24 + 32 \<or>
         maximum_datagram_bytes > kMaximumQuickJoinDatagramBytes \<or>
         sc_scene_epoch chunk = 0 \<or> sc_checksum chunk = 0 \<or> sc_total_size chunk = 0 \<or>
         sc_chunk_count chunk = 0 \<or> sc_chunk_index chunk \<ge> sc_chunk_count chunk \<or>
         sc_bytes chunk = [] \<or>
         length (sc_bytes chunk) + 24 > maximum_datagram_bytes - 32
      then []
      else Put32 (sc_scene_epoch chunk) @ Put32 (sc_frame chunk) @
           Put64 (sc_checksum chunk) @ Put32 (sc_total_size chunk) @
           Put16 (sc_chunk_index chunk) @ Put16 (sc_chunk_count chunk) @ sc_bytes chunk)"

definition decode_state_snapshot_chunk :: "bytes \<Rightarrow> StateSnapshotChunk decoded" where
  "decode_state_snapshot_chunk bs =
     (let msg = ''Authoritative snapshot chunk metadata is invalid.'' in
      ensure (\<not> length bs \<le> 24) msg (
      expect32 msg bs (\<lambda>scene_epoch c.
      expect32 msg c (\<lambda>frame c.
      expect64 msg c (\<lambda>checksum c.
      expect32 msg c (\<lambda>total_size c.
      expect16 msg c (\<lambda>chunk_index c.
      expect16 msg c (\<lambda>chunk_count c.
      ensure (\<not> (scene_epoch = 0 \<or> checksum = 0 \<or> total_size = 0 \<or> total_size > 14336 \<or>
                  chunk_count = 0 \<or> chunk_count > 16 \<or> chunk_index \<ge> chunk_count)) msg (
      ensure (c \<noteq> []) ''Authoritative snapshot chunk is empty.'' (
      Inr \<lparr>sc_scene_epoch = scene_epoch, sc_frame = frame, sc_checksum = checksum,
           sc_total_size = total_size, sc_chunk_index = chunk_index,
           sc_chunk_count = chunk_count, sc_bytes = c\<rparr>))))))))))"

record StateRequestPayload =
  sr_scene_epoch :: u32
  sr_frame :: u32
  sr_chunk_count :: u16
  sr_missing_chunks :: u16

definition encode_state_request :: "StateRequestPayload \<Rightarrow> bytes" where
  "encode_state_request r =
     (if sr_scene_epoch r = 0 \<or> sr_chunk_count r = 0 \<or> sr_chunk_count r > 16 \<or>
         sr_missing_chunks r = 0
      then []
      else Put32 (sr_scene_epoch r) @ Put32 (sr_frame r) @ Put16 (sr_chunk_count r) @
           Put16 (sr_missing_chunks r))"

definition decode_state_request :: "bytes \<Rightarrow> StateRequestPayload decoded" where
  "decode_state_request bs =
     (ensure (length bs = 12) '''' (
      expect32 '''' bs (\<lambda>scene_epoch c.
      expect32 '''' c (\<lambda>frame c.
      expect16 '''' c (\<lambda>chunk_count c.
      expect16 '''' c (\<lambda>missing_chunks c.
      ensure (scene_epoch \<noteq> 0 \<and> chunk_count > 0 \<and> chunk_count \<le> 16 \<and>
              missing_chunks \<noteq> 0 \<and> c = []) '''' (
      Inr \<lparr>sr_scene_epoch = scene_epoch, sr_frame = frame, sr_chunk_count = chunk_count,
           sr_missing_chunks = missing_chunks\<rparr>)))))))"

record StateAcknowledgePayload =
  sa_scene_epoch :: u32
  sa_frame :: u32
  sa_checksum :: u64
  sa_player_slot :: u8

definition encode_state_acknowledge :: "StateAcknowledgePayload \<Rightarrow> bytes" where
  "encode_state_acknowledge a =
     (if sa_scene_epoch a = 0 \<or> sa_checksum a = 0 \<or> kMaximumPlayers \<le> unat (sa_player_slot a)
      then []
      else Put32 (sa_scene_epoch a) @ Put32 (sa_frame a) @ Put64 (sa_checksum a) @
           [sa_player_slot a])"

definition decode_state_acknowledge :: "bytes \<Rightarrow> StateAcknowledgePayload decoded" where
  "decode_state_acknowledge bs =
     (ensure (length bs = 17) '''' (
      expect32 '''' bs (\<lambda>scene_epoch c.
      expect32 '''' c (\<lambda>frame c.
      expect64 '''' c (\<lambda>checksum c.
      expect8 '''' c (\<lambda>player_slot c.
      ensure (unat player_slot < kMaximumPlayers) '''' (
      ensure (scene_epoch \<noteq> 0 \<and> checksum \<noteq> 0 \<and> c = []) '''' (
      Inr \<lparr>sa_scene_epoch = scene_epoch, sa_frame = frame, sa_checksum = checksum,
           sa_player_slot = player_slot\<rparr>))))))))"

subsection \<open>Recovery, transitions, progress, orientation, state hashes\<close>

record RecoveryPayload =
  rc_scene_epoch :: u32
  rc_frame :: u32
  rc_player_slot :: u8

definition encode_recovery :: "RecoveryPayload \<Rightarrow> bytes" where
  "encode_recovery r =
     (if rc_scene_epoch r = 0 \<or> kMaximumPlayers \<le> unat (rc_player_slot r) then []
      else Put32 (rc_scene_epoch r) @ Put32 (rc_frame r) @ [rc_player_slot r])"

definition decode_recovery :: "bytes \<Rightarrow> RecoveryPayload decoded" where
  "decode_recovery bs =
     (ensure (length bs = 9) '''' (
      expect32 '''' bs (\<lambda>scene_epoch c.
      expect32 '''' c (\<lambda>frame c.
      expect8 '''' c (\<lambda>player_slot c.
      ensure (unat player_slot < kMaximumPlayers) '''' (
      ensure (scene_epoch \<noteq> 0 \<and> c = []) '''' (
      Inr \<lparr>rc_scene_epoch = scene_epoch, rc_frame = frame, rc_player_slot = player_slot\<rparr>)))))))"

datatype TransitionBarrierStage = TransitionBegin | TransitionAcknowledge | TransitionResume

fun byte_of_TransitionBarrierStage :: "TransitionBarrierStage \<Rightarrow> u8" where
  "byte_of_TransitionBarrierStage TransitionBegin = 0"
| "byte_of_TransitionBarrierStage TransitionAcknowledge = 1"
| "byte_of_TransitionBarrierStage TransitionResume = 2"

definition TransitionBarrierStage_of :: "u8 \<Rightarrow> TransitionBarrierStage" where
  "TransitionBarrierStage_of b =
     (if b = 0 then TransitionBegin else if b = 1 then TransitionAcknowledge
      else TransitionResume)"

record TransitionBarrierPayload =
  tb_scene_epoch :: u32
  tb_frame :: u32
  tb_transition_kind :: u8
  tb_player_slot :: u8
  tb_stage :: TransitionBarrierStage

definition encode_transition_barrier :: "TransitionBarrierPayload \<Rightarrow> bytes" where
  "encode_transition_barrier t =
     (if tb_scene_epoch t = 0 \<or> tb_transition_kind t = 0 \<or>
         kMaximumPlayers \<le> unat (tb_player_slot t) \<or>
         byte_of_TransitionBarrierStage (tb_stage t) >
           byte_of_TransitionBarrierStage TransitionResume
      then []
      else Put32 (tb_scene_epoch t) @ Put32 (tb_frame t) @
           [tb_transition_kind t, tb_player_slot t,
            byte_of_TransitionBarrierStage (tb_stage t)])"

definition decode_transition_barrier :: "bytes \<Rightarrow> TransitionBarrierPayload decoded" where
  "decode_transition_barrier bs =
     (ensure (length bs = 11) '''' (
      expect32 '''' bs (\<lambda>scene_epoch c.
      expect32 '''' c (\<lambda>frame c.
      expect8 '''' c (\<lambda>transition_kind c.
      ensure (transition_kind \<noteq> 0) '''' (
      expect8 '''' c (\<lambda>player_slot c.
      ensure (unat player_slot < kMaximumPlayers) '''' (
      expect8 '''' c (\<lambda>stage c.
      ensure (stage \<le> byte_of_TransitionBarrierStage TransitionResume) '''' (
      ensure (scene_epoch \<noteq> 0 \<and> c = []) '''' (
      Inr \<lparr>tb_scene_epoch = scene_epoch, tb_frame = frame,
           tb_transition_kind = transition_kind, tb_player_slot = player_slot,
           tb_stage = TransitionBarrierStage_of stage\<rparr>)))))))))))"

record SimulationProgressPayload =
  sp_scene_epoch :: u32
  sp_input_epoch :: u32
  sp_completed_frame :: u32
  sp_player_slot :: u8

definition encode_simulation_progress :: "SimulationProgressPayload \<Rightarrow> bytes" where
  "encode_simulation_progress p =
     (if sp_input_epoch p = 0 \<or> kMaximumPlayers \<le> unat (sp_player_slot p) then []
      else Put32 (sp_scene_epoch p) @ Put32 (sp_input_epoch p) @
           Put32 (sp_completed_frame p) @ [sp_player_slot p])"

definition decode_simulation_progress :: "bytes \<Rightarrow> SimulationProgressPayload decoded" where
  "decode_simulation_progress bs =
     (ensure (length bs = 13) '''' (
      expect32 '''' bs (\<lambda>scene_epoch c.
      expect32 '''' c (\<lambda>input_epoch c.
      expect32 '''' c (\<lambda>completed_frame c.
      expect8 '''' c (\<lambda>player_slot c.
      ensure (unat player_slot < kMaximumPlayers) '''' (
      ensure (input_epoch \<noteq> 0 \<and> c = []) '''' (
      Inr \<lparr>sp_scene_epoch = scene_epoch, sp_input_epoch = input_epoch,
           sp_completed_frame = completed_frame, sp_player_slot = player_slot\<rparr>))))))))"

definition kMaximumRacerOrientationBytes :: nat where "kMaximumRacerOrientationBytes = 160"

record RacerOrientationPayload =
  ro_scene_epoch :: u32
  ro_frame :: u32
  ro_state :: bytes

definition encode_racer_orientation :: "RacerOrientationPayload \<Rightarrow> bytes" where
  "encode_racer_orientation r =
     (if ro_scene_epoch r = 0 \<or> ro_state r = [] \<or>
         length (ro_state r) > kMaximumRacerOrientationBytes
      then []
      else Put32 (ro_scene_epoch r) @ Put32 (ro_frame r) @
           Put16 (of_nat (length (ro_state r))) @ ro_state r)"

definition decode_racer_orientation :: "bytes \<Rightarrow> RacerOrientationPayload decoded" where
  "decode_racer_orientation bs =
     (ensure (\<not> length bs < 11) '''' (
      expect32 '''' bs (\<lambda>scene_epoch c.
      expect32 '''' c (\<lambda>frame c.
      expect16 '''' c (\<lambda>state_size c.
      ensure (\<not> (scene_epoch = 0 \<or> state_size = 0 \<or>
                  unat state_size > kMaximumRacerOrientationBytes \<or>
                  unat state_size \<noteq> length c)) '''' (
      Inr \<lparr>ro_scene_epoch = scene_epoch, ro_frame = frame, ro_state = c\<rparr>))))))"

record StateHashPayload =
  sh_scene_epoch :: u32
  sh_player_slot :: u8
  sh_hash :: u64
  sh_globals_hash :: u64
  sh_roster_hash :: u64
  sh_racers_hash :: u64
  sh_racer_count :: u32
  sh_racer_hashes :: "u64 list"

definition encode_state_hash :: "StateHashPayload \<Rightarrow> bytes" where
  "encode_state_hash p =
     (if kMaximumPlayers \<le> unat (sh_player_slot p) \<or>
         unat (sh_racer_count p) > length (sh_racer_hashes p)
      then []
      else Put32 (sh_scene_epoch p) @ [sh_player_slot p] @ Put64 (sh_hash p) @
           Put64 (sh_globals_hash p) @ Put64 (sh_roster_hash p) @ Put64 (sh_racers_hash p) @
           Put32 (sh_racer_count p) @ concat (map Put64 (sh_racer_hashes p)))"

definition decode_state_hash :: "bytes \<Rightarrow> StateHashPayload decoded" where
  "decode_state_hash bs =
     (let invalid = ''State hash payload is invalid.'';
          truncated = ''State hash payload is truncated.'' in
      ensure (length bs = 37 + 4 + 10 * 8) invalid (
      expect32 invalid bs (\<lambda>scene_epoch c.
      expect8 invalid c (\<lambda>player_slot c.
      ensure (unat player_slot < kMaximumPlayers) invalid (
      expect64 truncated c (\<lambda>hash c.
      expect64 truncated c (\<lambda>globals_hash c.
      expect64 truncated c (\<lambda>roster_hash c.
      expect64 truncated c (\<lambda>racers_hash c.
      expect32 truncated c (\<lambda>racer_count c.
      ensure (\<not> unat racer_count > 10) truncated (
      take_list 10 (expect64 ''State hash racer details are truncated.'') c
        (\<lambda>racer_hashes c.
      ensure (c = []) ''State hash payload contains trailing data.'' (
      Inr \<lparr>sh_scene_epoch = scene_epoch, sh_player_slot = player_slot, sh_hash = hash,
           sh_globals_hash = globals_hash, sh_roster_hash = roster_hash,
           sh_racers_hash = racers_hash, sh_racer_count = racer_count,
           sh_racer_hashes = racer_hashes\<rparr>)))))))))))))"

subsection \<open>The commits a decoder accepts\<close>

definition commit_ok :: "FrameCommitPayload \<Rightarrow> bool" where
  "commit_ok commit \<longleftrightarrow>
     fc_epoch commit \<noteq> 0 \<and> fc_occupied_mask commit \<noteq> 0 \<and> fc_commit_hash commit \<noteq> 0 \<and>
     fc_predicted_mask commit AND NOT (fc_occupied_mask commit) = 0 \<and>
     length (fc_inputs commit) = kMaximumPlayers"

subsection \<open>The codecs\<close>

lemma TransitionBarrierStage_cast [simp]:
  "TransitionBarrierStage_of (byte_of_TransitionBarrierStage s) = s"
  "b \<le> 2 \<Longrightarrow> byte_of_TransitionBarrierStage (TransitionBarrierStage_of b) = b"
  "byte_of_TransitionBarrierStage s \<le> 2"
  by (cases s; auto simp: TransitionBarrierStage_of_def u8_le_iffs)+

interpretation frame_correction_acknowledge: exact_codec encode_frame_correction_acknowledge decode_frame_correction_acknowledge
proof (rule exact_codecI)
  show "bs \<noteq> [] \<and> encode_frame_correction_acknowledge x = bs" if "decode_frame_correction_acknowledge bs = Inr x" for bs x
    using that
    by (auto simp: decode_frame_correction_acknowledge_def encode_frame_correction_acknowledge_def Let_def wire_inv)
  show "decode_frame_correction_acknowledge (encode_frame_correction_acknowledge x) = Inr x" if "encode_frame_correction_acknowledge x \<noteq> []" for x
    using that
    by (cases x) (auto simp: decode_frame_correction_acknowledge_def encode_frame_correction_acknowledge_def Let_def wire_run
        split: if_splits)
  show "decode_frame_correction_acknowledge bs \<noteq> Inl OutOfRange" for bs
    by (auto simp: decode_frame_correction_acknowledge_def Let_def wire_inv)
qed

interpretation state_request: exact_codec encode_state_request decode_state_request
proof (rule exact_codecI)
  show "bs \<noteq> [] \<and> encode_state_request x = bs" if "decode_state_request bs = Inr x" for bs x
    using that
    by (auto simp: decode_state_request_def encode_state_request_def Let_def wire_inv)
  show "decode_state_request (encode_state_request x) = Inr x" if "encode_state_request x \<noteq> []" for x
    using that
    by (cases x) (auto simp: decode_state_request_def encode_state_request_def Let_def wire_run word_gt_0 not_less
        split: if_splits)
  show "decode_state_request bs \<noteq> Inl OutOfRange" for bs
    by (auto simp: decode_state_request_def Let_def wire_inv)
qed

interpretation state_acknowledge: exact_codec encode_state_acknowledge decode_state_acknowledge
proof (rule exact_codecI)
  show "bs \<noteq> [] \<and> encode_state_acknowledge x = bs" if "decode_state_acknowledge bs = Inr x" for bs x
    using that
    by (auto simp: decode_state_acknowledge_def encode_state_acknowledge_def Let_def wire_inv)
  show "decode_state_acknowledge (encode_state_acknowledge x) = Inr x" if "encode_state_acknowledge x \<noteq> []" for x
    using that
    by (cases x) (auto simp: decode_state_acknowledge_def encode_state_acknowledge_def Let_def wire_run
        split: if_splits)
  show "decode_state_acknowledge bs \<noteq> Inl OutOfRange" for bs
    by (auto simp: decode_state_acknowledge_def Let_def wire_inv)
qed

interpretation recovery: exact_codec encode_recovery decode_recovery
proof (rule exact_codecI)
  show "bs \<noteq> [] \<and> encode_recovery x = bs" if "decode_recovery bs = Inr x" for bs x
    using that
    by (auto simp: decode_recovery_def encode_recovery_def Let_def wire_inv)
  show "decode_recovery (encode_recovery x) = Inr x" if "encode_recovery x \<noteq> []" for x
    using that
    by (cases x) (auto simp: decode_recovery_def encode_recovery_def Let_def wire_run
        split: if_splits)
  show "decode_recovery bs \<noteq> Inl OutOfRange" for bs
    by (auto simp: decode_recovery_def Let_def wire_inv)
qed

interpretation transition_barrier: exact_codec encode_transition_barrier decode_transition_barrier
proof (rule exact_codecI)
  show "bs \<noteq> [] \<and> encode_transition_barrier x = bs" if "decode_transition_barrier bs = Inr x" for bs x
    using that
    by (auto simp: decode_transition_barrier_def encode_transition_barrier_def Let_def wire_inv)
  show "decode_transition_barrier (encode_transition_barrier x) = Inr x" if "encode_transition_barrier x \<noteq> []" for x
    using that
    by (cases x) (auto simp: decode_transition_barrier_def encode_transition_barrier_def Let_def wire_run
        split: if_splits)
  show "decode_transition_barrier bs \<noteq> Inl OutOfRange" for bs
    by (auto simp: decode_transition_barrier_def Let_def wire_inv)
qed

interpretation simulation_progress: exact_codec encode_simulation_progress decode_simulation_progress
proof (rule exact_codecI)
  show "bs \<noteq> [] \<and> encode_simulation_progress x = bs" if "decode_simulation_progress bs = Inr x" for bs x
    using that
    by (auto simp: decode_simulation_progress_def encode_simulation_progress_def Let_def wire_inv)
  show "decode_simulation_progress (encode_simulation_progress x) = Inr x" if "encode_simulation_progress x \<noteq> []" for x
    using that
    by (cases x) (auto simp: decode_simulation_progress_def encode_simulation_progress_def Let_def wire_run
        split: if_splits)
  show "decode_simulation_progress bs \<noteq> Inl OutOfRange" for bs
    by (auto simp: decode_simulation_progress_def Let_def wire_inv)
qed

interpretation racer_orientation: exact_codec encode_racer_orientation decode_racer_orientation
proof (rule exact_codecI)
  show "bs \<noteq> [] \<and> encode_racer_orientation x = bs" if "decode_racer_orientation bs = Inr x" for bs x
    using that
    by (auto simp: decode_racer_orientation_def encode_racer_orientation_def Let_def wire_inv kMaximumRacerOrientationBytes_def of_nat_length_word)
  show "decode_racer_orientation (encode_racer_orientation x) = Inr x" if "encode_racer_orientation x \<noteq> []" for x
    using that
    by (cases x) (auto simp: decode_racer_orientation_def encode_racer_orientation_def Let_def wire_run kMaximumRacerOrientationBytes_def of_nat_u16_unat
        of_nat_u16_eq_0
        split: if_splits)
  show "decode_racer_orientation bs \<noteq> Inl OutOfRange" for bs
    by (auto simp: decode_racer_orientation_def Let_def wire_inv)
qed

interpretation hash_item: wire_item Put64 "expect64 msg" "\<lambda>_. True" for msg
  by unfold_locales (auto simp: wire_run wire_inv)

interpretation state_hash: wire_codec encode_state_hash decode_state_hash
  "\<lambda>p. encode_state_hash p \<noteq> [] \<and> length (sh_racer_hashes p) = 10"
proof unfold_locales
  show "decode_state_hash (encode_state_hash p) = Inr p"
    if "encode_state_hash p \<noteq> [] \<and> length (sh_racer_hashes p) = 10" for p
  proof -
    have "take_list 10 (expect64 m) (concat (map Put64 (sh_racer_hashes p))) k = k (sh_racer_hashes p) []"
      for m and k :: "_ \<Rightarrow> _ \<Rightarrow> StateHashPayload decoded"
      using that hash_item.take_list_run_end [of "sh_racer_hashes p" m k] by simp
    moreover have "length (concat (map Put64 (sh_racer_hashes p))) = 80"
      using that by (simp add: length_concat o_def sum_list_triv)
    ultimately show ?thesis
      using that
      by (auto simp: encode_state_hash_def decode_state_hash_def Let_def wire_run split: if_splits)
  qed
  show "encode_state_hash x \<noteq> [] \<and> length (sh_racer_hashes x) = 10"
    if "decode_state_hash bs = Inr x" for bs x
    using that
    by (auto simp: encode_state_hash_def decode_state_hash_def Let_def wire_inv
        dest!: hash_item.take_list_inv)
  show "encode_state_hash x = bs" if "decode_state_hash bs = Inr x" for bs x
    using that
    by (auto simp: encode_state_hash_def decode_state_hash_def Let_def wire_inv
        dest!: hash_item.take_list_inv)
  show "decode_state_hash bs \<noteq> Inl OutOfRange" for bs
    by (auto simp: decode_state_hash_def Let_def wire_inv dest!: hash_item.take_list_safe)
qed

lemma PackedInput_ex:
  "(\<exists>e. b = buttons e \<and> x = stick_x e \<and> y = stick_y e \<and> P e) \<longleftrightarrow>
     P \<lparr>buttons = b, stick_x = x, stick_y = y\<rparr>"
  by (auto simp: PackedInput_collect) (metis PackedInput.select_convs)

interpretation input_item: wire_item put_input take_input "\<lambda>_. True"
  by unfold_locales
    (auto simp: take_input_def put_input_def Let_def wire_run wire_inv PackedInput_collect
      PackedInput_ex)

lemma FrameCommitPayload_collect:
  "\<lparr>fc_epoch = fc_epoch e, fc_frame = fc_frame e, fc_revision = fc_revision e,
    fc_occupied_mask = fc_occupied_mask e, fc_predicted_mask = fc_predicted_mask e,
    fc_inputs = fc_inputs e, fc_previous_hash = fc_previous_hash e,
    fc_commit_hash = fc_commit_hash e\<rparr> = e"
  by simp

lemma length_put_inputs: "length (concat (map put_input is)) = 4 * length is"
  by (induction "is") (auto simp: put_input_def)

interpretation commit_item: wire_item put_commit take_commit commit_ok
proof unfold_locales
  fix e r and k :: "FrameCommitPayload \<Rightarrow> bytes \<Rightarrow> 'a decoded"
  assume e: "commit_ok e"
  then have "take_list kMaximumPlayers take_input (concat (map put_input (fc_inputs e)) @ c) k' =
      k' (fc_inputs e) c" for c and k' :: "_ \<Rightarrow> _ \<Rightarrow> 'a decoded"
    using input_item.take_list_run [of "fc_inputs e" c k'] by (simp add: commit_ok_def)
  with e show "take_commit (put_commit e @ r) k = k e r"
    by (simp add: take_commit_def put_commit_def commit_ok_def Let_def wire_run
        FrameCommitPayload_collect)
next
  fix c x and k :: "FrameCommitPayload \<Rightarrow> bytes \<Rightarrow> 'a decoded"
  assume "take_commit c k = Inr x"
  then obtain ep fr rv om pm "is" ph ch r where
    "c = Put32 ep @ Put32 fr @ Put16 rv @ om # pm # concat (map put_input is) @ Put64 ph @ Put64 ch @ r"
    "length is = kMaximumPlayers" "ep \<noteq> 0" "om \<noteq> 0" "pm AND NOT om = 0" "ch \<noteq> 0"
    "k \<lparr>fc_epoch = ep, fc_frame = fr, fc_revision = rv, fc_occupied_mask = om,
       fc_predicted_mask = pm, fc_inputs = is, fc_previous_hash = ph, fc_commit_hash = ch\<rparr> r = Inr x"
    by (auto simp: take_commit_def Let_def wire_inv dest!: input_item.take_list_inv)
  then show "\<exists>e r. commit_ok e \<and> c = put_commit e @ r \<and> k e r = Inr x"
    by (intro exI [of _ "\<lparr>fc_epoch = ep, fc_frame = fr, fc_revision = rv, fc_occupied_mask = om,
         fc_predicted_mask = pm, fc_inputs = is, fc_previous_hash = ph, fc_commit_hash = ch\<rparr>"]
        exI [of _ r]) (simp add: put_commit_def commit_ok_def)
next
  fix c and k :: "FrameCommitPayload \<Rightarrow> bytes \<Rightarrow> 'a decoded"
  assume "take_commit c k = Inl OutOfRange"
  then obtain ep fr rv om pm "is" ph ch r where
    "c = Put32 ep @ Put32 fr @ Put16 rv @ om # pm # concat (map put_input is) @ Put64 ph @ Put64 ch @ r"
    "length is = kMaximumPlayers" "ep \<noteq> 0" "om \<noteq> 0" "pm AND NOT om = 0" "ch \<noteq> 0"
    "k \<lparr>fc_epoch = ep, fc_frame = fr, fc_revision = rv, fc_occupied_mask = om,
       fc_predicted_mask = pm, fc_inputs = is, fc_previous_hash = ph, fc_commit_hash = ch\<rparr> r
     = Inl OutOfRange"
    by (auto simp: take_commit_def Let_def wire_inv dest!: input_item.take_list_safe)
  then show "\<exists>e r. commit_ok e \<and> c = put_commit e @ r \<and> k e r = Inl OutOfRange"
    by (intro exI [of _ "\<lparr>fc_epoch = ep, fc_frame = fr, fc_revision = rv, fc_occupied_mask = om,
         fc_predicted_mask = pm, fc_inputs = is, fc_previous_hash = ph, fc_commit_hash = ch\<rparr>"]
        exI [of _ r]) (simp add: put_commit_def commit_ok_def)
qed

lemma length_put_commit: "commit_ok e \<Longrightarrow> length (put_commit e) = 44"
  by (simp add: put_commit_def commit_ok_def length_put_inputs netplay_limits)

lemma length_put_commits:
  "\<forall>e \<in> set es. commit_ok e \<Longrightarrow> length (concat (map put_commit es)) = 44 * length es"
  by (induction es) (auto simp: length_put_commit)

interpretation frame_commit_batch: wire_codec encode_frame_commit_batch decode_frame_commit_batch
  "\<lambda>b. encode_frame_commit_batch b \<noteq> [] \<and> (\<forall>e \<in> set (fb_commits b). commit_ok e)"
proof unfold_locales
  show "decode_frame_commit_batch (encode_frame_commit_batch b) = Inr b"
    if "encode_frame_commit_batch b \<noteq> [] \<and> (\<forall>e \<in> set (fb_commits b). commit_ok e)" for b
  proof -
    let ?n = "length (fb_commits b)"
    have n: "0 < ?n" "?n \<le> 16"
      using that by (auto simp: encode_frame_commit_batch_def split: if_splits)
    then have u: "unat (of_nat ?n :: u8) = ?n" "(of_nat ?n :: u8) \<noteq> 0" "\<not> (16 :: u8) < of_nat ?n"
      by (auto simp: of_nat_u8_unat word_less_nat_alt unat_eq_0 [symmetric] simp del: unat_eq_0)
    have "take_list ?n take_commit (concat (map put_commit (fb_commits b))) k = k (fb_commits b) []"
      for k :: "_ \<Rightarrow> _ \<Rightarrow> FrameCommitBatch decoded"
      using that commit_item.take_list_run_end [of "fb_commits b" k] by simp
    moreover have "length (concat (map put_commit (fb_commits b))) = 44 * ?n"
      using that length_put_commits by blast
    ultimately show ?thesis
      using that n u
      by (auto simp: encode_frame_commit_batch_def decode_frame_commit_batch_def Let_def wire_run
          split: if_splits)
  qed
  have inv: "encode_frame_commit_batch x = bs \<and> bs \<noteq> [] \<and> (\<forall>e \<in> set (fb_commits x). commit_ok e)"
    if "decode_frame_commit_batch bs = Inr x" for bs x
  proof -
    from that obtain count flag g f l es r where
      bs: "bs = count # flag # Put32 g @ Put32 f @ Put32 l @ concat (map put_commit es) @ r"
      and h: "count \<noteq> 0" "\<not> 16 < count" "flag \<le> 1" "length bs = 14 + unat count * 44"
        "flag \<noteq> 0 \<longrightarrow> g \<noteq> 0 \<and> f \<le> l" "length es = unat count" "\<forall>e \<in> set es. commit_ok e"
      and x: "x = \<lparr>fb_generation = g, fb_correction_first = f, fb_correction_last = l,
         fb_correction = (flag \<noteq> 0), fb_commits = es\<rparr>"
      by (auto simp: decode_frame_commit_batch_def Let_def wire_inv not_less
          dest!: commit_item.take_list_inv) blast+
    have "r = []" using h bs length_put_commits [of es] by simp
    moreover have "unat count \<le> 16" "0 < unat count"
      using h(1,2) by (auto simp: word_less_nat_alt unat_eq_0 intro!: gr0I)
    moreover have "(if flag \<noteq> 0 then 1 else 0) = flag" using h(3) by (rule flag_byte)
    ultimately show ?thesis
      using bs h x by (auto simp: encode_frame_commit_batch_def commit_ok_def)
  qed
  show "encode_frame_commit_batch x \<noteq> [] \<and> (\<forall>e \<in> set (fb_commits x). commit_ok e)"
    if "decode_frame_commit_batch bs = Inr x" for bs x
    using inv [OF that] by simp
  show "encode_frame_commit_batch x = bs" if "decode_frame_commit_batch bs = Inr x" for bs x
    using inv [OF that] by simp
  show "decode_frame_commit_batch bs \<noteq> Inl OutOfRange" for bs
    by (auto simp: decode_frame_commit_batch_def Let_def wire_inv dest!: commit_item.take_list_safe)
qed
lemma decode_encode_state_snapshot_chunk:
  assumes "encode_state_snapshot_chunk x maximum \<noteq> []"
    and "sc_total_size x \<le> 14336" and "sc_chunk_count x \<le> 16"
  shows "decode_state_snapshot_chunk (encode_state_snapshot_chunk x maximum) = Inr x"
  using assms
  by (auto simp: encode_state_snapshot_chunk_def decode_state_snapshot_chunk_def Let_def wire_run
      not_less split: if_splits)

lemma decode_state_snapshot_chunk_inv:
  assumes "decode_state_snapshot_chunk bs = Inr x"
  shows "sc_total_size x \<le> 14336 \<and> sc_chunk_count x \<le> 16 \<and> sc_chunk_index x < sc_chunk_count x \<and>
    (length bs + 32 \<le> maximum \<and> maximum \<le> kMaximumQuickJoinDatagramBytes \<longrightarrow>
       encode_state_snapshot_chunk x maximum = bs)"
  using assms
  by (auto simp: encode_state_snapshot_chunk_def decode_state_snapshot_chunk_def Let_def wire_inv
      not_less not_le)

lemma decode_state_snapshot_chunk_safe: "decode_state_snapshot_chunk bs \<noteq> Inl OutOfRange"
  by (auto simp: decode_state_snapshot_chunk_def Let_def wire_inv)

lemma frame_commit_hash_nonzero: "frame_commit_hash match_id commit \<noteq> 0"
  by (simp add: frame_commit_hash_def Let_def)
end
