(* ===== verification/Protocol_Lobby.thy ===== *)
theory Protocol_Lobby
  imports Protocol_Input "HOL-Library.Monad_Syntax"
begin

section \<open>Wire protocol: admission and lobby state\<close>

text \<open>
  Models the messages of \<^verbatim>\<open>netplay_protocol.cpp\<close> that admit a racer and describe the
  lobby (lines 76 to 124 and 867 to 1161): the compatibility manifest as a part of a
  payload, hello and its acknowledgement, the readiness of the online save, and the lobby
  state with its rules, countdown and players.

  The packet loss of a lobby player is a \<^verbatim>\<open>float\<close>; the encoder sends it in hundredths.
  \<^verbatim>\<open>std::lround\<close> of a NaN is unspecified, so the encoder takes the value it yields there
  as the parameter \<open>lround_nan\<close>.
\<close>

subsection \<open>The manifest\<close>

definition PutManifest :: "CompatibilityManifest \<Rightarrow> bytes option" where
  "PutManifest m = do {
     release \<leftarrow> PutString (release_version m) kMaximumReleaseVersionBytes;
     build \<leftarrow> PutString (build_fingerprint m) kMaximumBuildFingerprintBytes;
     arch \<leftarrow> PutString (architecture m) 32;
     fp \<leftarrow> PutString (floating_point_mode m) 48;
     Some (Put32 (protocol_version m) @ release @ build @ [byte_of_Revision (revision m)] @
       Put64 (canonical_rom_hash m) @ Put64 (patch_policy_hash m) @
       Put64 (gameplay_settings_hash m) @ Put64 (magic_codes_hash m) @
       Put64 (session_save_hash m) @ Put32 (simulation_rate m) @ arch @ fp)}"

definition Revision_of :: "u8 \<Rightarrow> Revision" where
  "Revision_of b = (if b = 0 then UsV77 else UsV80)"

definition expectManifest ::
  "string \<Rightarrow> bytes \<Rightarrow> (CompatibilityManifest \<Rightarrow> bytes \<Rightarrow> 'a decoded) \<Rightarrow> 'a decoded" where
  "expectManifest msg c k =
     (expect32 msg c (\<lambda>protocol c.
      expectString msg kMaximumReleaseVersionBytes c (\<lambda>release c.
      expectString msg kMaximumBuildFingerprintBytes c (\<lambda>build c.
      expect8 msg c (\<lambda>rev c.
      ensure (rev \<le> byte_of_Revision UsV80) msg (
      expect64 msg c (\<lambda>rom c.
      expect64 msg c (\<lambda>patch c.
      expect64 msg c (\<lambda>gameplay c.
      expect64 msg c (\<lambda>magic c.
      expect64 msg c (\<lambda>save c.
      expect32 msg c (\<lambda>rate c.
      expectString msg 32 c (\<lambda>arch c.
      expectString msg 48 c (\<lambda>fp c.
      ensure (release \<noteq> [] \<and> build \<noteq> [] \<and> arch \<noteq> [] \<and> fp \<noteq> []) msg (
      k \<lparr>protocol_version = protocol, release_version = release, build_fingerprint = build,
         revision = Revision_of rev, canonical_rom_hash = rom, patch_policy_hash = patch,
         gameplay_settings_hash = gameplay, magic_codes_hash = magic,
         session_save_hash = save, simulation_rate = rate, architecture = arch,
         floating_point_mode = fp\<rparr> c)))))))))))))))"

subsection \<open>Hello\<close>

record HelloPayload =
  he_display_name :: string
  he_manifest :: CompatibilityManifest
  he_friend_admission :: bytes

definition encode_hello :: "HelloPayload \<Rightarrow> bytes" where
  "encode_hello p =
     (case PutString (he_display_name p) kMaximumPlayerNameBytes of None \<Rightarrow> []
      | Some name \<Rightarrow>
        (case PutManifest (he_manifest p) of None \<Rightarrow> []
         | Some manifest \<Rightarrow> name @ manifest @ he_friend_admission p))"

definition decode_hello :: "bytes \<Rightarrow> HelloPayload decoded" where
  "decode_hello bs =
     (let msg = ''Hello payload is invalid.'' in
      expectString msg kMaximumPlayerNameBytes bs (\<lambda>display_name c.
      expectManifest msg c (\<lambda>manifest c.
      ensure (length c = 32 \<and> valid_display_name display_name) msg (
      Inr \<lparr>he_display_name = display_name, he_manifest = manifest,
           he_friend_admission = c\<rparr>))))"

record HelloAckPayload =
  hk_accepted :: bool
  hk_player_slot :: u8
  hk_message :: string
  hk_synchronized_save :: bytes
  hk_compatibility_offer :: "CompatibilityManifest option"
  hk_online_save_generation :: u32
  hk_online_save_hash :: u64

definition encode_hello_ack :: "HelloAckPayload \<Rightarrow> bytes" where
  "encode_hello_ack p =
     (if kMaximumPlayers \<le> unat (hk_player_slot p) \<or>
         (hk_synchronized_save p \<noteq> [] \<and> length (hk_synchronized_save p) \<noteq> 512) \<or>
         (hk_accepted p \<and>
          (length (hk_synchronized_save p) \<noteq> 512 \<or> hk_online_save_generation p = 0 \<or>
           hk_online_save_hash p = 0))
      then []
      else
        (case PutString (hk_message p) 160 of None \<Rightarrow> []
         | Some message \<Rightarrow>
           (case (case hk_compatibility_offer p of None \<Rightarrow> Some []
                  | Some offer \<Rightarrow> PutManifest offer) of None \<Rightarrow> []
            | Some offer \<Rightarrow>
              [if hk_accepted p then 1 else 0, hk_player_slot p] @ message @
              Put16 (of_nat (length (hk_synchronized_save p))) @ hk_synchronized_save p @
              [if hk_compatibility_offer p \<noteq> None then 1 else 0] @ offer @
              Put32 (hk_online_save_generation p) @ Put64 (hk_online_save_hash p))))"

text \<open>The tail of the decoder, after the optional compatibility offer.\<close>

definition finish_hello_ack ::
  "u8 \<Rightarrow> u8 \<Rightarrow> string \<Rightarrow> bytes \<Rightarrow> CompatibilityManifest option \<Rightarrow> bytes \<Rightarrow>
     HelloAckPayload decoded" where
  "finish_hello_ack accepted player_slot message save offer c =
     (let save_error = ''Hello acknowledgement has invalid online save metadata.'' in
      expect32 save_error c (\<lambda>generation c.
      expect64 save_error c (\<lambda>hash c.
      ensure (\<not> (c \<noteq> [] \<or>
          (accepted \<noteq> 0 \<and> (length save \<noteq> 512 \<or> generation = 0 \<or> hash = 0)))) save_error (
      Inr \<lparr>hk_accepted = (accepted \<noteq> 0), hk_player_slot = player_slot,
           hk_message = message, hk_synchronized_save = save,
           hk_compatibility_offer = offer, hk_online_save_generation = generation,
           hk_online_save_hash = hash\<rparr>))))"

definition decode_hello_ack :: "bytes \<Rightarrow> HelloAckPayload decoded" where
  "decode_hello_ack bs =
     (let invalid = ''Hello acknowledgement is invalid.'';
          truncated = ''Hello acknowledgement is truncated.'' in
      ensure (\<not> length bs < 6) invalid (
      index8 bs (\<lambda>accepted c.
      ensure (\<not> accepted > 1) invalid (
      index8 c (\<lambda>player_slot c.
      ensure (unat player_slot < kMaximumPlayers) invalid (
      expectString truncated 160 c (\<lambda>message c.
      expect16 truncated c (\<lambda>save_size c.
      ensure (\<not> ((save_size \<noteq> 0 \<and> save_size \<noteq> 512) \<or> unat save_size \<ge> length c)) truncated (
      let save = take (unat save_size) c in
      index8 (drop (unat save_size) c) (\<lambda>has_offer c.
      ensure (\<not> has_offer > 1) ''Hello acknowledgement compatibility offer is invalid.'' (
      if has_offer \<noteq> 0 then
        expectManifest ''Hello acknowledgement compatibility offer is truncated.'' c
          (\<lambda>offer c. finish_hello_ack accepted player_slot message save (Some offer) c)
      else finish_hello_ack accepted player_slot message save None c)))))))))))"

subsection \<open>Readiness of the online save\<close>

record OnlineSaveReadyPayload =
  os_player_slot :: u8
  os_generation :: u32
  os_hash :: u64

definition encode_online_save_ready :: "OnlineSaveReadyPayload \<Rightarrow> bytes" where
  "encode_online_save_ready p =
     (if kMaximumPlayers \<le> unat (os_player_slot p) \<or> os_generation p = 0 \<or> os_hash p = 0
      then []
      else [os_player_slot p] @ Put32 (os_generation p) @ Put64 (os_hash p))"

definition decode_online_save_ready :: "bytes \<Rightarrow> OnlineSaveReadyPayload decoded" where
  "decode_online_save_ready bs =
     (let invalid = ''Online save readiness payload is invalid.'';
          identity = ''Online save readiness identity is invalid.'' in
      ensure (length bs = 13) invalid (
      index8 bs (\<lambda>player_slot c.
      ensure (unat player_slot < kMaximumPlayers) invalid (
      expect32 identity c (\<lambda>generation c.
      expect64 identity c (\<lambda>hash c.
      ensure (\<not> (generation = 0 \<or> hash = 0 \<or> c \<noteq> [])) identity (
      Inr \<lparr>os_player_slot = player_slot, os_generation = generation, os_hash = hash\<rparr>)))))))"

record OnlineSaveStatusPayload =
  ot_room_generation :: u64
  ot_save_generation :: u32
  ot_save_hash :: u64
  ot_verified_mask :: u8

definition encode_online_save_status :: "OnlineSaveStatusPayload \<Rightarrow> bytes" where
  "encode_online_save_status p =
     (if ot_room_generation p = 0 \<or> ot_save_generation p = 0 \<or> ot_save_hash p = 0 \<or>
         ot_verified_mask p AND 1 = 0 \<or> drop_bit kMaximumPlayers (ot_verified_mask p) \<noteq> 0
      then []
      else Put64 (ot_room_generation p) @ Put32 (ot_save_generation p) @
           Put64 (ot_save_hash p) @ [ot_verified_mask p])"

definition decode_online_save_status :: "bytes \<Rightarrow> OnlineSaveStatusPayload decoded" where
  "decode_online_save_status bs =
     (let invalid = ''Online save status payload is invalid.'' in
      ensure (length bs = 21) invalid (
      expect64 invalid bs (\<lambda>room_generation c.
      expect32 invalid c (\<lambda>save_generation c.
      expect64 invalid c (\<lambda>save_hash c.
      index8 c (\<lambda>verified_mask c.
      let payload = \<lparr>ot_room_generation = room_generation,
                     ot_save_generation = save_generation, ot_save_hash = save_hash,
                     ot_verified_mask = verified_mask\<rparr> in
      ensure (encode_online_save_status payload \<noteq> [])
        ''Online save status identity is invalid.'' (Inr payload)))))))"

subsection \<open>The lobby state\<close>

record LobbyPlayerPayload =
  lp_occupied :: bool
  lp_ready :: bool
  lp_loaded :: bool
  lp_slot :: u8
  lp_display_name :: string
  lp_route :: Route
  lp_ping_ms :: u16
  lp_jitter_ms :: u16
  lp_packet_loss_percent :: f32

record LobbyStatePayload =
  ls_generation :: u64
  ls_phase :: RoomPhase
  ls_room_name :: string
  ls_visibility :: Visibility
  ls_rules :: Rules
  ls_input_delay_frames :: u8
  ls_countdown_active :: bool
  ls_countdown_remaining_ms :: u32
  ls_countdown_generation :: u32
  ls_players :: "LobbyPlayerPayload list"

text \<open>Three flags as the low bits of a byte, for the rules and for a player.\<close>

definition flags3 :: "bool \<Rightarrow> bool \<Rightarrow> bool \<Rightarrow> u8" where
  "flags3 a b c = (if a then 1 else 0) OR (if b then 2 else 0) OR (if c then 4 else 0)"

definition loss_hundredths :: "u16 \<Rightarrow> f32 \<Rightarrow> u16" where
  "loss_hundredths lround_nan loss =
     (case f32_lround (f32_mul (f32_clamp loss (Finite 0) (Finite 100)) (Finite 100)) of
        None \<Rightarrow> lround_nan | Some n \<Rightarrow> of_int n)"

definition put_lobby_player :: "u16 \<Rightarrow> nat \<Rightarrow> LobbyPlayerPayload \<Rightarrow> bytes option" where
  "put_lobby_player lround_nan index p =
     (if unat (lp_slot p) \<noteq> index \<or>
         (lp_occupied p \<and> \<not> valid_display_name (lp_display_name p)) \<or>
         byte_of_Route (lp_route p) > byte_of_Route RouteRelay
      then None
      else map_option (\<lambda>name.
             [flags3 (lp_occupied p) (lp_ready p) (lp_loaded p)] @ name @
             [byte_of_Route (lp_route p)] @ Put16 (lp_ping_ms p) @ Put16 (lp_jitter_ms p) @
             Put16 (loss_hundredths lround_nan (lp_packet_loss_percent p)))
           (PutString (lp_display_name p) kMaximumPlayerNameBytes))"

fun put_lobby_players :: "u16 \<Rightarrow> nat \<Rightarrow> LobbyPlayerPayload list \<Rightarrow> bytes option" where
  "put_lobby_players lround_nan index [] = Some []"
| "put_lobby_players lround_nan index (p # ps) = do {
     b \<leftarrow> put_lobby_player lround_nan index p;
     bs \<leftarrow> put_lobby_players lround_nan (Suc index) ps;
     Some (b @ bs)}"

definition encode_lobby_state :: "u16 \<Rightarrow> LobbyStatePayload \<Rightarrow> bytes" where
  "encode_lobby_state lround_nan p =
     (case PutString (ls_room_name p) kMaximumLobbyNameBytes of None \<Rightarrow> []
      | Some room_name \<Rightarrow>
        if \<not> valid_room_name (ls_room_name p) \<or> \<not> valid_rules (ls_rules p) \<or>
           byte_of_Visibility (ls_visibility p) > byte_of_Visibility Lan
        then []
        else if ls_input_delay_frames p > 9 then []
        else
          (case put_lobby_players lround_nan 0 (ls_players p) of None \<Rightarrow> []
           | Some players \<Rightarrow>
             Put64 (ls_generation p) @ [byte_of_RoomPhase (ls_phase p)] @ room_name @
             [byte_of_Visibility (ls_visibility p),
              byte_of_HostControlPolicy (host_control (ls_rules p)),
              maximum_players (ls_rules p),
              flags3 (automatic_input_delay (ls_rules p)) (relay_only (ls_rules p))
                (record_replay (ls_rules p)),
              manual_input_delay (ls_rules p), rollback_window (ls_rules p),
              byte_of_SynchronizationMode (synchronization (ls_rules p)),
              ls_input_delay_frames p,
              if ls_countdown_active p then 1 else 0] @
             Put32 (ls_countdown_remaining_ms p) @ Put32 (ls_countdown_generation p) @
             players))"

definition Visibility_of :: "u8 \<Rightarrow> Visibility" where
  "Visibility_of b =
     (if b = 0 then Public else if b = 1 then Private else if b = 2 then Unlisted else Lan)"

definition RoomPhase_of :: "u8 \<Rightarrow> RoomPhase" where
  "RoomPhase_of b =
     (if b = 0 then Waiting else if b = 1 then ReadyCheck else if b = 2 then Loading
      else if b = 3 then Running else Finished)"

definition HostControlPolicy_of :: "u8 \<Rightarrow> HostControlPolicy" where
  "HostControlPolicy_of b =
     (if b = 0 then GuidedUntilCharacterSelect else if b = 1 then HostSharedMenus
      else EveryAssignedPort)"

definition Route_of :: "u8 \<Rightarrow> Route" where
  "Route_of b =
     (if b = 0 then RouteUnknown else if b = 1 then RouteLan
      else if b = 2 then RouteDirect else RouteRelay)"

definition SynchronizationMode_of :: "u8 \<Rightarrow> SynchronizationMode" where
  "SynchronizationMode_of b = (if b = 0 then Rollback else Lockstep)"

definition take_lobby_player ::
  "nat \<Rightarrow> bytes \<Rightarrow> (LobbyPlayerPayload \<Rightarrow> bytes \<Rightarrow> 'a decoded) \<Rightarrow> 'a decoded" where
  "take_lobby_player index c k =
     (expect8 ''Lobby player list is truncated.'' c (\<lambda>flags c.
      ensure (\<not> (flags AND NOT 7 \<noteq> 0)) ''Lobby player flags are invalid.'' (
      expectString ''Lobby player name is invalid.'' kMaximumPlayerNameBytes c
        (\<lambda>display_name c.
      ensure (\<not> (flags AND 1 \<noteq> 0 \<and> \<not> valid_display_name display_name))
        ''Lobby player name is invalid.'' (
      expect8 ''Lobby player route is invalid.'' c (\<lambda>route c.
      ensure (route \<le> byte_of_Route RouteRelay) ''Lobby player route is invalid.'' (
      let metrics = ''Lobby player network metrics are invalid.'' in
      expect16 metrics c (\<lambda>ping c.
      expect16 metrics c (\<lambda>jitter c.
      expect16 metrics c (\<lambda>loss c.
      ensure (\<not> loss > 10000) metrics (
      k \<lparr>lp_occupied = (flags AND 1 \<noteq> 0), lp_ready = (flags AND 2 \<noteq> 0),
         lp_loaded = (flags AND 4 \<noteq> 0), lp_slot = of_nat index,
         lp_display_name = display_name, lp_route = Route_of route, lp_ping_ms = ping,
         lp_jitter_ms = jitter,
         lp_packet_loss_percent = f32_of_rat (of_nat (unat loss) / 100)\<rparr> c)))))))))))"

fun take_lobby_players ::
  "nat \<Rightarrow> nat \<Rightarrow> bytes \<Rightarrow> (LobbyPlayerPayload list \<Rightarrow> bytes \<Rightarrow> 'a decoded) \<Rightarrow> 'a decoded" where
  "take_lobby_players index 0 c k = k [] c"
| "take_lobby_players index (Suc n) c k =
     take_lobby_player index c (\<lambda>p c. take_lobby_players (Suc index) n c (\<lambda>ps c. k (p # ps) c))"

definition decode_lobby_state :: "bytes \<Rightarrow> LobbyStatePayload decoded" where
  "decode_lobby_state bs =
     (let header = ''Lobby state header is invalid.'';
          metadata = ''Lobby metadata is invalid.'';
          countdown = ''Lobby countdown state is truncated.'' in
      expect64 header bs (\<lambda>generation c.
      expect8 header c (\<lambda>phase c.
      ensure (\<not> phase > byte_of_RoomPhase Finished) header (
      expectString metadata kMaximumLobbyNameBytes c (\<lambda>room_name c.
      ensure (valid_room_name room_name \<and> 17 \<le> length c) metadata (
      index8 c (\<lambda>visibility c.
      index8 c (\<lambda>host_control c.
      index8 c (\<lambda>maximum_players c.
      index8 c (\<lambda>rule_flags c.
      index8 c (\<lambda>manual_input_delay c.
      index8 c (\<lambda>rollback_window c.
      index8 c (\<lambda>synchronization c.
      index8 c (\<lambda>input_delay_frames c.
      index8 c (\<lambda>countdown_active c.
      expect32 countdown c (\<lambda>countdown_remaining_ms c.
      expect32 countdown c (\<lambda>countdown_generation c.
      ensure (\<not> (visibility > byte_of_Visibility Lan \<or>
                  host_control > byte_of_HostControlPolicy EveryAssignedPort \<or>
                  rule_flags AND NOT 7 \<noteq> 0 \<or>
                  synchronization > byte_of_SynchronizationMode Lockstep \<or>
                  input_delay_frames > 9 \<or> countdown_active > 1 \<or>
                  countdown_remaining_ms > 5000)) ''Lobby rules are invalid.'' (
      let rules = \<lparr>host_control = HostControlPolicy_of host_control,
                   maximum_players = maximum_players,
                   automatic_input_delay = (rule_flags AND 1 \<noteq> 0),
                   manual_input_delay = manual_input_delay,
                   rollback_window = rollback_window,
                   synchronization = SynchronizationMode_of synchronization,
                   relay_only = (rule_flags AND 2 \<noteq> 0),
                   record_replay = (rule_flags AND 4 \<noteq> 0)\<rparr> in
      ensure (valid_rules rules) ''Lobby rules are outside the supported limits.'' (
      take_lobby_players 0 kMaximumPlayers c (\<lambda>players c.
      ensure (c = []) ''Lobby state has trailing bytes.'' (
      Inr \<lparr>ls_generation = generation, ls_phase = RoomPhase_of phase,
           ls_room_name = room_name, ls_visibility = Visibility_of visibility,
           ls_rules = rules, ls_input_delay_frames = input_delay_frames,
           ls_countdown_active = (countdown_active \<noteq> 0),
           ls_countdown_remaining_ms = countdown_remaining_ms,
           ls_countdown_generation = countdown_generation,
           ls_players = players\<rparr>)))))))))))))))))))))"

subsection \<open>Admission messages round-trip\<close>


definition manifest_ok :: "CompatibilityManifest \<Rightarrow> bool" where
  "manifest_ok m \<longleftrightarrow> PutManifest m \<noteq> None \<and> release_version m \<noteq> [] \<and>
     build_fingerprint m \<noteq> [] \<and> architecture m \<noteq> [] \<and> floating_point_mode m \<noteq> []"

lemma Revision_cast [simp]:
  "Revision_of (byte_of_Revision r) = r"
  "b \<le> 1 \<Longrightarrow> byte_of_Revision (Revision_of b) = b"
  "byte_of_Revision r \<le> 1"
  by (cases r; auto simp: Revision_of_def u8_le_iffs)+

lemma PutManifest_Some:
  "PutManifest m = Some bs \<longleftrightarrow> (\<exists>release build arch fp.
     PutString (release_version m) kMaximumReleaseVersionBytes = Some release \<and>
     PutString (build_fingerprint m) kMaximumBuildFingerprintBytes = Some build \<and>
     PutString (architecture m) 32 = Some arch \<and>
     PutString (floating_point_mode m) 48 = Some fp \<and>
     bs = Put32 (protocol_version m) @ release @ build @ byte_of_Revision (revision m) #
       Put64 (canonical_rom_hash m) @ Put64 (patch_policy_hash m) @
       Put64 (gameplay_settings_hash m) @ Put64 (magic_codes_hash m) @
       Put64 (session_save_hash m) @ Put32 (simulation_rate m) @ arch @ fp)"
  by (auto simp: PutManifest_def bind_eq_Some_conv)

lemma CompatibilityManifest_collect:
  "\<lparr>protocol_version = protocol_version m, release_version = release_version m,
    build_fingerprint = build_fingerprint m, revision = revision m,
    canonical_rom_hash = canonical_rom_hash m, patch_policy_hash = patch_policy_hash m,
    gameplay_settings_hash = gameplay_settings_hash m, magic_codes_hash = magic_codes_hash m,
    session_save_hash = session_save_hash m, simulation_rate = simulation_rate m,
    architecture = architecture m, floating_point_mode = floating_point_mode m\<rparr> = m"
  by simp

lemma expectManifest_run:
  assumes "PutManifest m = Some bs" "manifest_ok m"
  shows "expectManifest msg (bs @ r) k = k m r"
  using assms
  by (auto simp: PutManifest_Some manifest_ok_def expectManifest_def wire_run
      CompatibilityManifest_collect)

lemma expectManifest_steps:
  assumes "expectManifest msg c k = y" and "y = Inl OutOfRange \<or> (\<exists>x. y = Inr x)"
  shows "\<exists>pv rel rel' bld bld' rv rom pat gam mag sav rate arch arch' fp fp' r.
    c = Put32 pv @ rel' @ bld' @ rv # Put64 rom @ Put64 pat @ Put64 gam @ Put64 mag @
      Put64 sav @ Put32 rate @ arch' @ fp' @ r \<and>
    PutString rel kMaximumReleaseVersionBytes = Some rel' \<and>
    PutString bld kMaximumBuildFingerprintBytes = Some bld' \<and>
    PutString arch 32 = Some arch' \<and> PutString fp 48 = Some fp' \<and>
    rv \<le> byte_of_Revision UsV80 \<and> rel \<noteq> [] \<and> bld \<noteq> [] \<and> arch \<noteq> [] \<and> fp \<noteq> [] \<and>
    k \<lparr>protocol_version = pv, release_version = rel, build_fingerprint = bld,
         revision = Revision_of rv, canonical_rom_hash = rom, patch_policy_hash = pat,
         gameplay_settings_hash = gam, magic_codes_hash = mag,
         session_save_hash = sav, simulation_rate = rate, architecture = arch,
         floating_point_mode = fp\<rparr> r = y"
  using assms(2)
proof (elim disjE exE)
  assume "y = Inl OutOfRange"
  show ?thesis
    using assms(1) unfolding \<open>y = Inl OutOfRange\<close> expectManifest_def wire_inv
    by (elim exE conjE, hypsubst, intro exI conjI) (rule refl | assumption)+
next
  fix x assume "y = Inr x"
  show ?thesis
    using assms(1) unfolding \<open>y = Inr x\<close> expectManifest_def wire_inv
    by (elim exE conjE, hypsubst, intro exI conjI) (rule refl | assumption)+
qed

lemma expectManifest_eq:
  assumes "expectManifest msg c k = y" and "y = Inl OutOfRange \<or> (\<exists>x. y = Inr x)"
  shows "\<exists>m bs r. manifest_ok m \<and> PutManifest m = Some bs \<and> c = bs @ r \<and> k m r = y"
proof -
  from expectManifest_steps [OF assms]
  obtain pv rel rel' bld bld' rv rom pat gam mag sav rate arch arch' fp fp' r where
    c: "c = Put32 pv @ rel' @ bld' @ rv # Put64 rom @ Put64 pat @ Put64 gam @ Put64 mag @
      Put64 sav @ Put32 rate @ arch' @ fp' @ r"
    and s: "PutString rel kMaximumReleaseVersionBytes = Some rel'"
      "PutString bld kMaximumBuildFingerprintBytes = Some bld'"
      "PutString arch 32 = Some arch'" "PutString fp 48 = Some fp'"
      "rv \<le> byte_of_Revision UsV80" "rel \<noteq> []" "bld \<noteq> []" "arch \<noteq> []" "fp \<noteq> []"
    and k: "k \<lparr>protocol_version = pv, release_version = rel, build_fingerprint = bld,
         revision = Revision_of rv, canonical_rom_hash = rom, patch_policy_hash = pat,
         gameplay_settings_hash = gam, magic_codes_hash = mag,
         session_save_hash = sav, simulation_rate = rate, architecture = arch,
         floating_point_mode = fp\<rparr> r = y"
    by (elim exE conjE) (rule that)
  let ?m = "\<lparr>protocol_version = pv, release_version = rel, build_fingerprint = bld,
         revision = Revision_of rv, canonical_rom_hash = rom, patch_policy_hash = pat,
         gameplay_settings_hash = gam, magic_codes_hash = mag,
         session_save_hash = sav, simulation_rate = rate, architecture = arch,
         floating_point_mode = fp\<rparr>"
  have "PutManifest ?m = Some (Put32 pv @ rel' @ bld' @ rv # Put64 rom @ Put64 pat @ Put64 gam @
      Put64 mag @ Put64 sav @ Put32 rate @ arch' @ fp')"
    using s by (simp add: PutManifest_Some)
  then show ?thesis
    using c s k by (intro exI [of _ ?m]) (auto simp: manifest_ok_def)
qed

lemma expectManifest_inv [wire_inv]:
  "expectManifest msg c k = Inr x \<longleftrightarrow>
     (\<exists>m bs r. manifest_ok m \<and> PutManifest m = Some bs \<and> c = bs @ r \<and> k m r = Inr x)"
  "expectManifest msg c k = Inl OutOfRange \<longleftrightarrow>
     (\<exists>m bs r. manifest_ok m \<and> PutManifest m = Some bs \<and> c = bs @ r \<and> k m r = Inl OutOfRange)"
  using expectManifest_eq [of msg c k] by (auto simp: expectManifest_run)

definition hello_ok :: "HelloPayload \<Rightarrow> bool" where
  "hello_ok p \<longleftrightarrow> encode_hello p \<noteq> [] \<and> valid_display_name (he_display_name p) \<and>
     manifest_ok (he_manifest p) \<and> length (he_friend_admission p) = 32"

interpretation hello: wire_codec encode_hello decode_hello hello_ok
proof
  show "decode_hello (encode_hello x) = Inr x" if "hello_ok x" for x
    using that
    by (cases x) (auto simp: hello_ok_def encode_hello_def decode_hello_def Let_def wire_run
        expectManifest_run split: option.splits)
  show "hello_ok x" if "decode_hello bs = Inr x" for bs x
    using that
    by (auto simp: hello_ok_def encode_hello_def decode_hello_def Let_def wire_inv
        dest: PutString_bound)
  show "encode_hello x = bs" if "decode_hello bs = Inr x" for bs x
    using that
    by (auto simp: encode_hello_def decode_hello_def Let_def wire_inv)
  show "decode_hello bs \<noteq> Inl OutOfRange" for bs
    by (auto simp: decode_hello_def Let_def wire_inv)
qed

interpretation online_save_ready: exact_codec encode_online_save_ready decode_online_save_ready
proof (rule exact_codecI)
  show "bs \<noteq> [] \<and> encode_online_save_ready x = bs" if "decode_online_save_ready bs = Inr x" for bs x
    using that
    by (auto simp: decode_online_save_ready_def encode_online_save_ready_def Let_def wire_inv)
  show "decode_online_save_ready (encode_online_save_ready x) = Inr x"
    if "encode_online_save_ready x \<noteq> []" for x
    using that
    by (cases x) (auto simp: decode_online_save_ready_def encode_online_save_ready_def Let_def
        wire_run split: if_splits)
  show "decode_online_save_ready bs \<noteq> Inl OutOfRange" for bs
    by (auto simp: decode_online_save_ready_def Let_def wire_inv)
qed

interpretation online_save_status: exact_codec encode_online_save_status decode_online_save_status
proof (rule exact_codecI)
  show "bs \<noteq> [] \<and> encode_online_save_status x = bs" if "decode_online_save_status bs = Inr x" for bs x
    using that
    by (auto simp: decode_online_save_status_def encode_online_save_status_def Let_def wire_inv
        split: if_splits)
  show "decode_online_save_status (encode_online_save_status x) = Inr x"
    if "encode_online_save_status x \<noteq> []" for x
    using that
    by (cases x) (auto simp: decode_online_save_status_def encode_online_save_status_def Let_def
        wire_run split: if_splits)
  show "decode_online_save_status bs \<noteq> Inl OutOfRange" for bs
    by (auto simp: decode_online_save_status_def Let_def wire_inv)
qed

lemma u16_save_size: "n = 0 \<or> n = 512 \<Longrightarrow> unat (of_nat n :: u16) = n"
  by auto

lemma encode_hello_ack_Some:
  "encode_hello_ack p \<noteq> [] \<Longrightarrow> \<exists>message offer.
     unat (hk_player_slot p) < kMaximumPlayers \<and>
     (length (hk_synchronized_save p) = 0 \<or> length (hk_synchronized_save p) = 512) \<and>
     (hk_accepted p \<longrightarrow> length (hk_synchronized_save p) = 512 \<and> hk_online_save_generation p \<noteq> 0 \<and>
        hk_online_save_hash p \<noteq> 0) \<and>
     PutString (hk_message p) 160 = Some message \<and>
     (case hk_compatibility_offer p of None \<Rightarrow> Some [] | Some m \<Rightarrow> PutManifest m) = Some offer \<and>
     encode_hello_ack p = (if hk_accepted p then 1 else 0) # hk_player_slot p # message @
       Put16 (of_nat (length (hk_synchronized_save p))) @ hk_synchronized_save p @
       (if hk_compatibility_offer p \<noteq> None then 1 else 0) # offer @
       Put32 (hk_online_save_generation p) @ Put64 (hk_online_save_hash p)"
  by (auto simp: encode_hello_ack_def not_le split: if_splits option.splits)

lemma decode_encode_hello_ack:
  assumes "encode_hello_ack p \<noteq> []" and "\<forall>m. hk_compatibility_offer p = Some m \<longrightarrow> manifest_ok m"
  shows "decode_hello_ack (encode_hello_ack p) = Inr p"
proof -
  obtain message offer where
    g: "unat (hk_player_slot p) < kMaximumPlayers"
      "length (hk_synchronized_save p) = 0 \<or> length (hk_synchronized_save p) = 512"
      "hk_accepted p \<longrightarrow> length (hk_synchronized_save p) = 512 \<and> hk_online_save_generation p \<noteq> 0 \<and>
        hk_online_save_hash p \<noteq> 0"
    and m: "PutString (hk_message p) 160 = Some message"
    and o: "(case hk_compatibility_offer p of None \<Rightarrow> Some [] | Some m \<Rightarrow> PutManifest m) = Some offer"
    and e: "encode_hello_ack p = (if hk_accepted p then 1 else 0) # hk_player_slot p # message @
       Put16 (of_nat (length (hk_synchronized_save p))) @ hk_synchronized_save p @
       (if hk_compatibility_offer p \<noteq> None then 1 else 0) # offer @
       Put32 (hk_online_save_generation p) @ Put64 (hk_online_save_hash p)"
    using encode_hello_ack_Some [OF assms(1)] by blast
  have n: "(of_nat (length (hk_synchronized_save p)) :: u16) = 0 \<or>
      (of_nat (length (hk_synchronized_save p)) :: u16) = 512"
    using g(2) by auto
  note u = u16_save_size [OF g(2)]
  show ?thesis
  proof (cases "hk_compatibility_offer p")
    case None
    then show ?thesis
      unfolding e using g m o n u
      by (auto simp: decode_hello_ack_def finish_hello_ack_def Let_def wire_run dest: length_PutString)
  next
    case (Some offer')
    then have "PutManifest offer' = Some offer" "manifest_ok offer'" using o assms(2) by auto
    then show ?thesis
      unfolding e using g m n u Some
      by (auto simp: decode_hello_ack_def finish_hello_ack_def Let_def wire_run expectManifest_run dest: length_PutString)
  qed
qed


lemma flags3_test [simp]:
  "flags3 a b c AND - 8 = 0"
  "flags3 a b c AND 1 = 0 \<longleftrightarrow> \<not> a"
  "flags3 a b c AND 2 = 0 \<longleftrightarrow> \<not> b"
  "flags3 a b c AND 4 = 0 \<longleftrightarrow> \<not> c"
  by (cases a; cases b; cases c; simp add: flags3_def)+

lemma flags3_of_byte:
  assumes "f AND NOT 7 = 0"
  shows "flags3 (f AND 1 \<noteq> 0) (f AND 2 \<noteq> 0) (f AND 4 \<noteq> 0) = f"
proof -
  have "f = (f AND 7) OR (f AND NOT 7)" by (simp flip: bit.conj_disj_distrib)
  then have "f = take_bit 3 f" using assms by (simp add: take_bit_eq_mask mask_eq_exp_minus_1)
  then have "uint f = uint (take_bit 3 f)" by (rule arg_cong)
  also have "\<dots> = take_bit 3 (uint f)" by (rule unsigned_take_bit_eq)
  also have "\<dots> < 2 ^ 3" by (rule take_bit_int_less_exp)
  finally have "uint f < 8" by simp
  then have "unat f < 8" by (simp add: unat_eq_nat_uint del: nat_uint_eq)
  then have "unat f = 0 \<or> unat f = 1 \<or> unat f = 2 \<or> unat f = 3 \<or> unat f = 4 \<or> unat f = 5 \<or>
      unat f = 6 \<or> unat f = 7"
    by presburger
  then have "f = 0 \<or> f = 1 \<or> f = 2 \<or> f = 3 \<or> f = 4 \<or> f = 5 \<or> f = 6 \<or> f = 7"
    by (simp add: word_unat_eq_iff)
  then show ?thesis by (elim disjE) (simp_all add: flags3_def)
qed

lemma enum_casts [simp]:
  "Visibility_of (byte_of_Visibility v) = v" "RoomPhase_of (byte_of_RoomPhase ph) = ph"
  "HostControlPolicy_of (byte_of_HostControlPolicy hc) = hc" "Route_of (byte_of_Route rt) = rt"
  "SynchronizationMode_of (byte_of_SynchronizationMode sm) = sm"
  "byte_of_Visibility v \<le> 3" "byte_of_RoomPhase ph \<le> 4" "byte_of_HostControlPolicy hc \<le> 2"
  "byte_of_Route rt \<le> 3" "byte_of_SynchronizationMode sm \<le> 1"
  subgoal by (cases v) (simp_all add: Visibility_of_def)
  subgoal by (cases ph) (simp_all add: RoomPhase_of_def)
  subgoal by (cases hc) (simp_all add: HostControlPolicy_of_def)
  subgoal by (cases rt) (simp_all add: Route_of_def)
  subgoal by (cases sm) (simp_all add: SynchronizationMode_of_def)
  subgoal by (cases v) simp_all
  subgoal by (cases ph) simp_all
  subgoal by (cases hc) simp_all
  subgoal by (cases rt) simp_all
  subgoal by (cases sm) simp_all
  done

lemma enum_bounds [simp]:
  "\<not> 3 < byte_of_Visibility v" "\<not> 4 < byte_of_RoomPhase ph"
  "\<not> 2 < byte_of_HostControlPolicy hc" "\<not> 3 < byte_of_Route rt"
  "\<not> 1 < byte_of_SynchronizationMode sm"
  by (simp_all add: not_less)

lemma enum_bytes [simp]:
  "b \<le> 3 \<Longrightarrow> byte_of_Visibility (Visibility_of b) = b"
  "b \<le> 4 \<Longrightarrow> byte_of_RoomPhase (RoomPhase_of b) = b"
  "b \<le> 2 \<Longrightarrow> byte_of_HostControlPolicy (HostControlPolicy_of b) = b"
  "b \<le> 3 \<Longrightarrow> byte_of_Route (Route_of b) = b"
  "b \<le> 1 \<Longrightarrow> byte_of_SynchronizationMode (SynchronizationMode_of b) = b"
  by (auto simp: u8_le_iffs Visibility_of_def RoomPhase_of_def HostControlPolicy_of_def
      Route_of_def SynchronizationMode_of_def)

definition hello_ack_ok :: "HelloAckPayload \<Rightarrow> bool" where
  "hello_ack_ok p \<longleftrightarrow> encode_hello_ack p \<noteq> [] \<and>
     (\<forall>m. hk_compatibility_offer p = Some m \<longrightarrow> manifest_ok m)"

lemma finish_hello_ack_inv:
  "finish_hello_ack accepted slot message save offer c = Inr p \<longleftrightarrow> (\<exists>generation hash.
     c = Put32 generation @ Put64 hash \<and>
     (accepted \<noteq> 0 \<longrightarrow> length save = 512 \<and> generation \<noteq> 0 \<and> hash \<noteq> 0) \<and>
     p = \<lparr>hk_accepted = (accepted \<noteq> 0), hk_player_slot = slot, hk_message = message,
          hk_synchronized_save = save, hk_compatibility_offer = offer,
          hk_online_save_generation = generation, hk_online_save_hash = hash\<rparr>)"
  "finish_hello_ack accepted slot message save offer c \<noteq> Inl OutOfRange"
  by (auto simp: finish_hello_ack_def Let_def wire_inv)

lemma decode_hello_ack_inv:
  assumes "decode_hello_ack bs = Inr p"
  shows "hello_ack_ok p \<and> encode_hello_ack p = bs"
proof -
  from assms obtain accepted slot message message' size c has_offer c' where
    bs: "bs = accepted # slot # message' @ Put16 size @ c" and a: "\<not> accepted > 1"
    and slot: "unat slot < kMaximumPlayers"
    and m: "PutString message 160 = Some message'"
    and size: "\<not> ((size \<noteq> 0 \<and> size \<noteq> 512) \<or> unat size \<ge> length c)"
    and ho: "drop (unat size) c = has_offer # c'" "\<not> has_offer > 1"
    and fin: "(if has_offer \<noteq> 0 then
        expectManifest ''Hello acknowledgement compatibility offer is truncated.'' c'
          (\<lambda>offer r. finish_hello_ack accepted slot message (take (unat size) c) (Some offer) r)
      else finish_hello_ack accepted slot message (take (unat size) c) None c') = Inr p"
    unfolding decode_hello_ack_def Let_def wire_inv
    by (elim exE conjE, hypsubst) (rule that, (rule refl | assumption)+)
  define save where "save = take (unat size) c"
  have l: "length save = unat size" using size by (simp add: save_def)
  have "c = save @ has_offer # c'" unfolding save_def ho(1) [symmetric] by simp
  note bs = bs [unfolded this]
  have sz: "save = [] \<or> length save = 512" "of_nat (length save) = size"
    using l size by (auto simp: of_nat_length_word)
  show ?thesis
  proof (cases "has_offer = 0")
    case True
    with fin show ?thesis
      using a slot m sz True
      by (auto simp: bs finish_hello_ack_inv save_def [symmetric] encode_hello_ack_def
          hello_ack_ok_def not_le not_less u8_le_iffs)
  next
    case False
    with fin ho(2) show ?thesis
      using a slot m sz
      by (auto simp: bs finish_hello_ack_inv wire_inv save_def [symmetric] encode_hello_ack_def
          hello_ack_ok_def not_le not_less u8_le_iffs)
  qed
qed

lemma decode_hello_ack_safe: "decode_hello_ack bs \<noteq> Inl OutOfRange"
  by (auto simp: decode_hello_ack_def finish_hello_ack_inv Let_def wire_inv split: if_splits)

interpretation hello_ack: wire_codec encode_hello_ack decode_hello_ack hello_ack_ok
  by unfold_locales
    (auto simp: decode_hello_ack_safe dest: decode_hello_ack_inv
      intro: decode_encode_hello_ack simp: hello_ack_ok_def)

subsection \<open>The lobby state round-trips\<close>

text \<open>A packet loss the decoder can produce: a whole number of hundredths, as a float.\<close>

definition quantised_loss :: "f32 \<Rightarrow> bool" where
  "quantised_loss l \<longleftrightarrow> (\<exists>h \<le> 10000. l = f32_of_rat (of_nat h / 100))"

lemma loss_hundredths_of_rat:
  "h \<le> 10000 \<Longrightarrow> loss_hundredths nan (f32_of_rat (of_nat h / 100)) = of_nat h"
  using hundredths_roundtrip [of h] by (auto simp: loss_hundredths_def)

lemma quantised_loss_send:
  assumes "quantised_loss l"
  shows "f32_of_rat (unsigned (loss_hundredths nan l) / 100) = l"
    and "loss_hundredths nan l \<le> 10000"
proof -
  obtain h where h: "h \<le> 10000" "l = f32_of_rat (of_nat h / 100)"
    using assms by (auto simp: quantised_loss_def)
  then have u: "unat (loss_hundredths nan l) = h"
    by (simp add: loss_hundredths_of_rat of_nat_u16_unat)
  have "f32_of_rat (of_nat (unat (loss_hundredths nan l)) / 100) = l" using u h by simp
  then show "f32_of_rat (unsigned (loss_hundredths nan l) / 100) = l" by simp
  show "loss_hundredths nan l \<le> 10000" using u h by (simp add: word_le_nat_alt)
qed

lemma loss_hundredths_received:
  "unat h \<le> 10000 \<Longrightarrow> loss_hundredths nan (f32_of_rat (unsigned h / 100)) = h"
  using loss_hundredths_of_rat [of "unat h" nan] by simp

lemma take_lobby_player_run:
  assumes "put_lobby_player nan i p = Some b" "quantised_loss (lp_packet_loss_percent p)"
  shows "take_lobby_player i (b @ r) k = k p r"
  using assms
  by (cases p) (auto simp: put_lobby_player_def take_lobby_player_def Let_def wire_run not_less
      quantised_loss_send split: if_splits)

lemma take_lobby_player_inv:
  assumes "take_lobby_player i c k = y" and "y = Inl OutOfRange \<or> (\<exists>x. y = Inr x)" and "i < 256"
  shows "\<exists>p b r. put_lobby_player nan i p = Some b \<and> quantised_loss (lp_packet_loss_percent p) \<and>
    c = b @ r \<and> k p r = y"
proof -
  have "\<exists>flags name name' route ping jitter loss r.
    c = flags # name' @ route # Put16 ping @ Put16 jitter @ Put16 loss @ r \<and>
    \<not> (flags AND NOT 7 \<noteq> 0) \<and> PutString name kMaximumPlayerNameBytes = Some name' \<and>
    \<not> (flags AND 1 \<noteq> 0 \<and> \<not> valid_display_name name) \<and> route \<le> byte_of_Route RouteRelay \<and>
    \<not> loss > 10000 \<and>
    k \<lparr>lp_occupied = (flags AND 1 \<noteq> 0), lp_ready = (flags AND 2 \<noteq> 0),
       lp_loaded = (flags AND 4 \<noteq> 0), lp_slot = of_nat i, lp_display_name = name,
       lp_route = Route_of route, lp_ping_ms = ping, lp_jitter_ms = jitter,
       lp_packet_loss_percent = f32_of_rat (of_nat (unat loss) / 100)\<rparr> r = y"
    using assms(2)
  proof (elim disjE exE)
    assume "y = Inl OutOfRange"
    show ?thesis
      using assms(1) unfolding \<open>y = Inl OutOfRange\<close> take_lobby_player_def Let_def wire_inv
      by (elim exE conjE, hypsubst, intro exI conjI) (rule refl | assumption)+
  next
    fix x assume "y = Inr x"
    show ?thesis
      using assms(1) unfolding \<open>y = Inr x\<close> take_lobby_player_def Let_def wire_inv
      by (elim exE conjE, hypsubst, intro exI conjI) (rule refl | assumption)+
  qed
  then obtain flags name name' route ping jitter loss r where
    c: "c = flags # name' @ route # Put16 ping @ Put16 jitter @ Put16 loss @ r"
    and g: "flags AND NOT 7 = 0" "PutString name kMaximumPlayerNameBytes = Some name'"
      "flags AND 1 \<noteq> 0 \<longrightarrow> valid_display_name name" "route \<le> 3" "unat loss \<le> 10000"
    and k: "k \<lparr>lp_occupied = (flags AND 1 \<noteq> 0), lp_ready = (flags AND 2 \<noteq> 0),
       lp_loaded = (flags AND 4 \<noteq> 0), lp_slot = of_nat i, lp_display_name = name,
       lp_route = Route_of route, lp_ping_ms = ping, lp_jitter_ms = jitter,
       lp_packet_loss_percent = f32_of_rat (of_nat (unat loss) / 100)\<rparr> r = y"
    (is "k ?p r = y")
    by (auto simp: not_less word_le_nat_alt)
  have "put_lobby_player nan i ?p =
      Some (flags # name' @ route # Put16 ping @ Put16 jitter @ Put16 loss)"
    using g \<open>i < 256\<close> flags3_of_byte [OF g(1)]
    by (auto simp: put_lobby_player_def of_nat_u8_unat loss_hundredths_received not_less)
  moreover have "quantised_loss (lp_packet_loss_percent ?p)"
    using g(5) by (auto simp: quantised_loss_def)
  ultimately show ?thesis
    using c k by (intro exI [of _ ?p]) auto
qed

lemma take_lobby_players_run:
  "put_lobby_players nan i ps = Some b \<Longrightarrow> \<forall>p \<in> set ps. quantised_loss (lp_packet_loss_percent p) \<Longrightarrow>
    take_lobby_players i (length ps) (b @ r) k = k ps r"
  by (induction ps arbitrary: i b k) (auto simp: bind_eq_Some_conv take_lobby_player_run)

lemma take_lobby_players_inv:
  assumes "take_lobby_players i n c k = y" "y = Inl OutOfRange \<or> (\<exists>x. y = Inr x)" "i + n \<le> 256"
  shows "\<exists>ps b r. length ps = n \<and> put_lobby_players nan i ps = Some b \<and>
    (\<forall>p \<in> set ps. quantised_loss (lp_packet_loss_percent p)) \<and> c = b @ r \<and> k ps r = y"
  using assms
proof (induction n arbitrary: i c k)
  case 0
  then show ?case by auto
next
  case (Suc n)
  obtain p b r where p: "put_lobby_player nan i p = Some b"
      "quantised_loss (lp_packet_loss_percent p)" "c = b @ r"
    and t: "take_lobby_players (Suc i) n r (\<lambda>ps c. k (p # ps) c) = y"
    using take_lobby_player_inv [OF Suc.prems(1) [simplified] Suc.prems(2), of nan] Suc.prems(3) by auto
  from Suc.IH [OF t Suc.prems(2)] Suc.prems(3) obtain ps b' r' where
    "length ps = n" "put_lobby_players nan (Suc i) ps = Some b'"
    "\<forall>p \<in> set ps. quantised_loss (lp_packet_loss_percent p)" "r = b' @ r'" "k (p # ps) r' = y"
    by auto
  with p show ?case by (intro exI [of _ "p # ps"]) auto
qed

definition lobby_state_ok :: "LobbyStatePayload \<Rightarrow> bool" where
  "lobby_state_ok p \<longleftrightarrow> encode_lobby_state 0 p \<noteq> [] \<and> length (ls_players p) = kMaximumPlayers \<and>
     ls_countdown_remaining_ms p \<le> 5000 \<and>
     (\<forall>l \<in> set (ls_players p). quantised_loss (lp_packet_loss_percent l))"

lemma decode_encode_lobby_state:
  assumes "lobby_state_ok p" and "put_lobby_players nan 0 (ls_players p) = Some players"
  shows "decode_lobby_state (encode_lobby_state nan p) = Inr p"
proof -
  obtain room where room: "PutString (ls_room_name p) kMaximumLobbyNameBytes = Some room"
    and g: "valid_room_name (ls_room_name p)" "valid_rules (ls_rules p)"
      "ls_input_delay_frames p \<le> 9"
    using assms(1)
    by (auto simp: lobby_state_ok_def encode_lobby_state_def not_less split: option.splits if_splits)
  have len: "length (ls_players p) = kMaximumPlayers" "ls_countdown_remaining_ms p \<le> 5000"
    and q: "\<forall>l \<in> set (ls_players p). quantised_loss (lp_packet_loss_percent l)"
    using assms(1) by (auto simp: lobby_state_ok_def)
  note run = take_lobby_players_run [OF assms(2) q, of "[]", unfolded len append_Nil2]
  obtain hc mp au mi rw sy re rr where r: "ls_rules p = \<lparr>host_control = hc, maximum_players = mp,
      automatic_input_delay = au, manual_input_delay = mi, rollback_window = rw,
      synchronization = sy, relay_only = re, record_replay = rr\<rparr>"
    by (cases "ls_rules p") auto
  have b: "\<not> 9 < ls_input_delay_frames p" "\<not> 5000 < ls_countdown_remaining_ms p"
    "\<not> 1 < (if ls_countdown_active p then 1 else 0 :: u8)"
    "((if ls_countdown_active p then 1 else 0 :: u8) \<noteq> 0) = ls_countdown_active p"
    using g len by simp_all
  have "encode_lobby_state nan p =
      Put64 (ls_generation p) @ byte_of_RoomPhase (ls_phase p) # room @
      byte_of_Visibility (ls_visibility p) # byte_of_HostControlPolicy hc # mp #
      flags3 au re rr # mi # rw # byte_of_SynchronizationMode sy # ls_input_delay_frames p #
      (if ls_countdown_active p then 1 else 0) # Put32 (ls_countdown_remaining_ms p) @
      Put32 (ls_countdown_generation p) @ players"
    using g b room assms(2) r by (simp add: encode_lobby_state_def)
  then show ?thesis
    using g(1,2) b room r
    by (simp add: decode_lobby_state_def Let_def wire_run run del: if_split split del: if_split)
qed

lemma take_lobby_players_all:
  assumes "take_lobby_players 0 kMaximumPlayers c k = y" "y = Inl OutOfRange \<or> (\<exists>x. y = Inr x)"
  shows "\<exists>ps b r. length ps = kMaximumPlayers \<and> put_lobby_players nan 0 ps = Some b \<and>
    (\<forall>p \<in> set ps. quantised_loss (lp_packet_loss_percent p)) \<and> c = b @ r \<and> k ps r = y"
  using take_lobby_players_inv [OF assms] by (simp add: kMaximumPlayers_def)

lemma decode_lobby_state_safe: "decode_lobby_state bs \<noteq> Inl OutOfRange"
proof
  assume "decode_lobby_state bs = Inl OutOfRange"
  then show False
    by (auto simp: decode_lobby_state_def Let_def wire_inv dest!: take_lobby_players_all)
qed

lemma decode_lobby_state_inv:
  assumes "decode_lobby_state bs = Inr p"
  shows "encode_lobby_state nan p = bs \<and> lobby_state_ok p"
proof -
  from assms obtain generation phase room room' visibility hc mp rf mi rw sy idf ca cr cg c
    players c' where
    bs: "bs = Put64 generation @ phase # room' @ visibility # hc # mp # rf # mi # rw # sy # idf #
      ca # Put32 cr @ Put32 cg @ c"
    and g: "\<not> phase > byte_of_RoomPhase Finished" 
    "PutString room kMaximumLobbyNameBytes = Some room'" "valid_room_name room \<and> 17 \<le> length (visibility # hc # mp # rf # mi # rw # sy # idf #
      ca # Put32 cr @ Put32 cg @ c)"
    "\<not> (visibility > byte_of_Visibility Lan \<or>
                  hc > byte_of_HostControlPolicy EveryAssignedPort \<or>
                  rf AND NOT 7 \<noteq> 0 \<or>
                  sy > byte_of_SynchronizationMode Lockstep \<or>
                  idf > 9 \<or> ca > 1 \<or> cr > 5000)"
    "valid_rules \<lparr>host_control = HostControlPolicy_of hc,
                   maximum_players = mp, automatic_input_delay = (rf AND 1 \<noteq> 0),
                   manual_input_delay = mi, rollback_window = rw,
                   synchronization = SynchronizationMode_of sy,
                   relay_only = (rf AND 2 \<noteq> 0), record_replay = (rf AND 4 \<noteq> 0)\<rparr>"
    "take_lobby_players 0 kMaximumPlayers c (\<lambda>players c.
      ensure (c = []) ''Lobby state has trailing bytes.'' (
      Inr \<lparr>ls_generation = generation, ls_phase = RoomPhase_of phase,
           ls_room_name = room, ls_visibility = Visibility_of visibility,
           ls_rules = \<lparr>host_control = HostControlPolicy_of hc,
                   maximum_players = mp, automatic_input_delay = (rf AND 1 \<noteq> 0),
                   manual_input_delay = mi, rollback_window = rw,
                   synchronization = SynchronizationMode_of sy,
                   relay_only = (rf AND 2 \<noteq> 0), record_replay = (rf AND 4 \<noteq> 0)\<rparr>,
           ls_input_delay_frames = idf,
           ls_countdown_active = (ca \<noteq> 0), ls_countdown_remaining_ms = cr,
           ls_countdown_generation = cg, ls_players = players\<rparr>)) = Inr p"
    unfolding decode_lobby_state_def Let_def wire_inv
    by (elim exE conjE, hypsubst) (rule that, (rule refl | assumption | rule conjI)+)
  have fl: "flags3 (rf AND 1 \<noteq> 0) (rf AND 2 \<noteq> 0) (rf AND 4 \<noteq> 0) = rf"
    using g(4) flags3_of_byte [of rf] by simp
  have put: "\<exists>b. length (ls_players p) = kMaximumPlayers \<and>
      (\<forall>l \<in> set (ls_players p). quantised_loss (lp_packet_loss_percent l)) \<and>
      put_lobby_players nan 0 (ls_players p) = Some b \<and> c = b" for nan
    using take_lobby_players_all [OF g(6), of nan] by (auto simp: wire_inv)
  have p: "p = \<lparr>ls_generation = generation, ls_phase = RoomPhase_of phase,
           ls_room_name = room, ls_visibility = Visibility_of visibility,
           ls_rules = \<lparr>host_control = HostControlPolicy_of hc,
                   maximum_players = mp, automatic_input_delay = (rf AND 1 \<noteq> 0),
                   manual_input_delay = mi, rollback_window = rw,
                   synchronization = SynchronizationMode_of sy,
                   relay_only = (rf AND 2 \<noteq> 0), record_replay = (rf AND 4 \<noteq> 0)\<rparr>,
           ls_input_delay_frames = idf,
           ls_countdown_active = (ca \<noteq> 0), ls_countdown_remaining_ms = cr,
           ls_countdown_generation = cg, ls_players = ls_players p\<rparr>"
    using take_lobby_players_all [OF g(6), of 0] by (auto simp: wire_inv)
  have enc: "encode_lobby_state nan p = bs" for nan
    using put [of nan] g fl
    by (subst p) (auto simp: encode_lobby_state_def bs not_less u8_le_iffs)
  have "bs \<noteq> []" "ls_countdown_remaining_ms p = cr" using bs p by (simp, metis LobbyStatePayload.select_convs(8))
  then show ?thesis using enc [of 0] enc [of nan] put [of 0] g(4) by (auto simp: lobby_state_ok_def not_less)
qed

lemma put_lobby_players_nan:
  "\<forall>l \<in> set ps. quantised_loss (lp_packet_loss_percent l) \<Longrightarrow>
    put_lobby_players nan i ps = put_lobby_players 0 i ps"
proof (induction ps arbitrary: i)
  case (Cons p ps)
  then obtain h where "h \<le> 10000" "lp_packet_loss_percent p = f32_of_rat (of_nat h / 100)"
    by (auto simp: quantised_loss_def)
  then have "put_lobby_player nan i p = put_lobby_player 0 i p"
    by (simp add: put_lobby_player_def loss_hundredths_of_rat)
  with Cons show ?case by simp
qed simp

interpretation lobby_state: wire_codec "encode_lobby_state nan" decode_lobby_state lobby_state_ok
  for nan
proof
  show "decode_lobby_state (encode_lobby_state nan x) = Inr x" if "lobby_state_ok x" for x
  proof (rule decode_encode_lobby_state [OF that])
    have "\<exists>b. put_lobby_players 0 0 (ls_players x) = Some b"
      using that by (auto simp: lobby_state_ok_def encode_lobby_state_def split: option.splits if_splits)
    then show "put_lobby_players nan 0 (ls_players x) = Some (the (put_lobby_players 0 0 (ls_players x)))"
      using that by (auto simp: lobby_state_ok_def put_lobby_players_nan [of _ nan])
  qed
qed (use decode_lobby_state_inv decode_lobby_state_safe in blast)+

end
