(* ===== verification/Protocol_Launch.thy ===== *)
theory Protocol_Launch
  imports Protocol_Lobby
begin

section \<open>Wire protocol: the launch handshake and the connection pre-flight\<close>

text \<open>
  Models the messages of \<^verbatim>\<open>netplay_protocol.cpp\<close> from line 1215 to the end: the loaded
  checkpoint, the start descriptor, the ready and countdown messages, the two-phase launch
  (prepare, commit, release, cancel with their acknowledgements) and the connection
  pre-flight. Every codec here but one is exact: the decoder accepts precisely the
  non-empty outputs of the encoder. The exception is the launch prepare message, whose
  decoder also demands stage 0.
\<close>

subsection \<open>Loaded checkpoint\<close>

record LoadedPayload =
  lo_player_slot :: u8
  lo_bootstrap_hash :: u64
  lo_online_save_generation :: u32
  lo_online_save_hash :: u64

definition encode_loaded :: "LoadedPayload \<Rightarrow> bytes" where
  "encode_loaded p =
     (if kMaximumPlayers \<le> unat (lo_player_slot p) \<or> lo_bootstrap_hash p = 0 \<or>
         lo_online_save_generation p = 0 \<or> lo_online_save_hash p = 0
      then []
      else [lo_player_slot p] @ Put64 (lo_bootstrap_hash p) @
           Put32 (lo_online_save_generation p) @ Put64 (lo_online_save_hash p))"

definition decode_loaded :: "bytes \<Rightarrow> LoadedPayload decoded" where
  "decode_loaded bs =
     (let invalid = ''Loaded checkpoint payload is invalid.'';
          hash_error = ''Loaded checkpoint hash is invalid.'' in
      ensure (length bs = 21) invalid (
      index8 bs (\<lambda>player_slot c.
      ensure (unat player_slot < kMaximumPlayers) invalid (
      expect64 hash_error c (\<lambda>bootstrap_hash c.
      expect32 hash_error c (\<lambda>generation c.
      expect64 hash_error c (\<lambda>hash c.
      ensure (\<not> (bootstrap_hash = 0 \<or> generation = 0 \<or> hash = 0 \<or> c \<noteq> [])) hash_error (
      Inr \<lparr>lo_player_slot = player_slot, lo_bootstrap_hash = bootstrap_hash,
           lo_online_save_generation = generation, lo_online_save_hash = hash\<rparr>))))))))"

subsection \<open>Start descriptor\<close>

record StartPayload =
  st_stage :: u8
  st_descriptor :: LaunchDescriptor
  st_descriptor_hash :: u64

definition encode_start :: "StartPayload \<Rightarrow> bytes" where
  "encode_start p =
     (let d = st_descriptor p in
      if st_stage p > 1 \<or> \<not> valid_launch_descriptor d \<or>
         st_descriptor_hash p \<noteq> launch_descriptor_hash d
      then []
      else [st_stage p] @ Put64 (ld_match_id d) @ Put64 (ld_lobby_generation d) @
           Put64 (ld_compatibility_hash d) @
           [ld_occupied_mask d, ld_player_count d, ld_input_delay_frames d,
            ld_rollback_window d, byte_of_SynchronizationMode (ld_synchronization d),
            byte_of_HostControlPolicy (ld_host_control d)] @
           Put64 (st_descriptor_hash p))"

definition decode_start :: "bytes \<Rightarrow> StartPayload decoded" where
  "decode_start bs =
     (let truncated = ''Start descriptor is truncated.'';
          identity = ''Start descriptor identity is invalid.'';
          failed = ''Start descriptor failed validation.'' in
      ensure (length bs = 39) truncated (
      index8 bs (\<lambda>stage c.
      ensure (\<not> stage > 1) truncated (
      expect64 identity c (\<lambda>match_id c.
      expect64 identity c (\<lambda>lobby_generation c.
      expect64 identity c (\<lambda>compatibility_hash c.
      index8 c (\<lambda>occupied_mask c.
      index8 c (\<lambda>player_count c.
      index8 c (\<lambda>input_delay_frames c.
      index8 c (\<lambda>rollback_window c.
      index8 c (\<lambda>synchronization c.
      ensure (\<not> synchronization > byte_of_SynchronizationMode Lockstep)
        ''Start descriptor synchronization mode is invalid.'' (
      index8 c (\<lambda>host_control c.
      ensure (\<not> host_control > byte_of_HostControlPolicy EveryAssignedPort)
        ''Start descriptor host policy is invalid.'' (
      expect64 failed c (\<lambda>descriptor_hash c.
      let descriptor = \<lparr>ld_match_id = match_id, ld_lobby_generation = lobby_generation,
            ld_compatibility_hash = compatibility_hash, ld_occupied_mask = occupied_mask,
            ld_player_count = player_count, ld_input_delay_frames = input_delay_frames,
            ld_rollback_window = rollback_window,
            ld_synchronization = SynchronizationMode_of synchronization,
            ld_host_control = HostControlPolicy_of host_control\<rparr> in
      ensure (\<not> (c \<noteq> [] \<or> \<not> valid_launch_descriptor descriptor \<or>
          descriptor_hash \<noteq> launch_descriptor_hash descriptor)) failed (
      Inr \<lparr>st_stage = stage, st_descriptor = descriptor,
           st_descriptor_hash = descriptor_hash\<rparr>)))))))))))))))))"

subsection \<open>Ready and countdown\<close>

record ReadyRequestPayload =
  rr_request_id :: u32
  rr_player_slot :: u8
  rr_ready :: bool

definition encode_ready_request :: "ReadyRequestPayload \<Rightarrow> bytes" where
  "encode_ready_request p =
     (if rr_request_id p = 0 \<or> kMaximumPlayers \<le> unat (rr_player_slot p) then []
      else Put32 (rr_request_id p) @ [rr_player_slot p, if rr_ready p then 1 else 0])"

definition decode_ready_request :: "bytes \<Rightarrow> ReadyRequestPayload decoded" where
  "decode_ready_request bs =
     (let invalid = ''Ready request payload is invalid.'' in
      ensure (length bs = 6) invalid (
      expect32 invalid bs (\<lambda>request_id c.
      ensure (request_id \<noteq> 0) invalid (
      index8 c (\<lambda>player_slot c.
      ensure (unat player_slot < kMaximumPlayers) invalid (
      index8 c (\<lambda>ready c.
      ensure (\<not> ready > 1) invalid (
      Inr \<lparr>rr_request_id = request_id, rr_player_slot = player_slot,
           rr_ready = (ready \<noteq> 0)\<rparr>))))))))"

record ReadyAckPayload =
  ra_request_id :: u32
  ra_player_slot :: u8
  ra_ready :: bool
  ra_lobby_generation :: u64

definition encode_ready_ack :: "ReadyAckPayload \<Rightarrow> bytes" where
  "encode_ready_ack p =
     (if ra_request_id p = 0 \<or> kMaximumPlayers \<le> unat (ra_player_slot p) \<or>
         ra_lobby_generation p = 0 then []
      else Put32 (ra_request_id p) @ [ra_player_slot p, if ra_ready p then 1 else 0] @
           Put64 (ra_lobby_generation p))"

definition decode_ready_ack :: "bytes \<Rightarrow> ReadyAckPayload decoded" where
  "decode_ready_ack bs =
     (let invalid = ''Ready acknowledgement payload is invalid.'';
          generation_error = ''Ready acknowledgement generation is invalid.'' in
      ensure (length bs = 14) invalid (
      expect32 invalid bs (\<lambda>request_id c.
      ensure (request_id \<noteq> 0) invalid (
      index8 c (\<lambda>player_slot c.
      ensure (unat player_slot < kMaximumPlayers) invalid (
      index8 c (\<lambda>ready c.
      ensure (\<not> ready > 1) invalid (
      expect64 generation_error c (\<lambda>lobby_generation c.
      ensure (\<not> (lobby_generation = 0 \<or> c \<noteq> [])) generation_error (
      Inr \<lparr>ra_request_id = request_id, ra_player_slot = player_slot,
           ra_ready = (ready \<noteq> 0), ra_lobby_generation = lobby_generation\<rparr>))))))))))"

record CountdownAckPayload =
  ck_countdown_generation :: u32
  ck_player_slot :: u8

definition encode_countdown_ack :: "CountdownAckPayload \<Rightarrow> bytes" where
  "encode_countdown_ack p =
     (if ck_countdown_generation p = 0 \<or> kMaximumPlayers \<le> unat (ck_player_slot p) then []
      else Put32 (ck_countdown_generation p) @ [ck_player_slot p])"

definition decode_countdown_ack :: "bytes \<Rightarrow> CountdownAckPayload decoded" where
  "decode_countdown_ack bs =
     (let invalid = ''Countdown acknowledgement payload is invalid.'' in
      ensure (length bs = 5) invalid (
      expect32 invalid bs (\<lambda>generation c.
      ensure (generation \<noteq> 0) invalid (
      index8 c (\<lambda>player_slot c.
      ensure (unat player_slot < kMaximumPlayers) invalid (
      Inr \<lparr>ck_countdown_generation = generation, ck_player_slot = player_slot\<rparr>))))))"

subsection \<open>Two-phase launch\<close>

record LaunchPreparePayload =
  pr_launch_epoch :: u32
  pr_lobby_generation :: u64
  pr_countdown_generation :: u32
  pr_start :: StartPayload

definition encode_launch_prepare :: "LaunchPreparePayload \<Rightarrow> bytes" where
  "encode_launch_prepare p =
     (let start = encode_start (pr_start p) in
      if pr_launch_epoch p = 0 \<or> pr_lobby_generation p = 0 \<or> pr_countdown_generation p = 0 \<or>
         start = []
      then []
      else Put32 (pr_launch_epoch p) @ Put64 (pr_lobby_generation p) @
           Put32 (pr_countdown_generation p) @ start)"

text \<open>
  The error text is an in-out argument of the source: a text the caller left in it survives
  a rejection of the outer fields. \<open>error\<close> is its value on entry; \<open>prepare_error\<close> its value
  after a rejection that wrote nothing.
\<close>

definition prepare_error :: "string \<Rightarrow> string" where
  "prepare_error error = (if error = [] then ''Launch prepare payload is invalid.'' else error)"

definition decode_launch_prepare :: "string \<Rightarrow> bytes \<Rightarrow> LaunchPreparePayload decoded" where
  "decode_launch_prepare error bs =
     (let invalid = prepare_error error in
      ensure (length bs = 55) invalid (
      expect32 invalid bs (\<lambda>launch_epoch c.
      expect64 invalid c (\<lambda>lobby_generation c.
      expect32 invalid c (\<lambda>countdown_generation c.
      ensure (launch_epoch \<noteq> 0 \<and> lobby_generation \<noteq> 0 \<and> countdown_generation \<noteq> 0) invalid (
      case decode_start c of
        Inl (Rejected e) \<Rightarrow> Inl (Rejected (prepare_error e))
      | Inl OutOfRange \<Rightarrow> Inl OutOfRange
      | Inr start \<Rightarrow>
          ensure (st_stage start = 0) (prepare_error []) (
          Inr \<lparr>pr_launch_epoch = launch_epoch, pr_lobby_generation = lobby_generation,
               pr_countdown_generation = countdown_generation, pr_start = start\<rparr>)))))))"

record LaunchPrepareAckPayload =
  pa_launch_epoch :: u32
  pa_player_slot :: u8
  pa_accepted :: bool

definition encode_launch_prepare_ack :: "LaunchPrepareAckPayload \<Rightarrow> bytes" where
  "encode_launch_prepare_ack p =
     (if pa_launch_epoch p = 0 \<or> kMaximumPlayers \<le> unat (pa_player_slot p) then []
      else Put32 (pa_launch_epoch p) @ [pa_player_slot p, if pa_accepted p then 1 else 0])"

definition decode_launch_prepare_ack :: "bytes \<Rightarrow> LaunchPrepareAckPayload decoded" where
  "decode_launch_prepare_ack bs =
     (let invalid = ''Launch prepare acknowledgement payload is invalid.'' in
      ensure (length bs = 6) invalid (
      expect32 invalid bs (\<lambda>launch_epoch c.
      ensure (launch_epoch \<noteq> 0) invalid (
      index8 c (\<lambda>player_slot c.
      ensure (unat player_slot < kMaximumPlayers) invalid (
      index8 c (\<lambda>accepted c.
      ensure (\<not> accepted > 1) invalid (
      Inr \<lparr>pa_launch_epoch = launch_epoch, pa_player_slot = player_slot,
           pa_accepted = (accepted \<noteq> 0)\<rparr>))))))))"

record LaunchCommitPayload =
  co_launch_epoch :: u32

definition encode_launch_commit :: "LaunchCommitPayload \<Rightarrow> bytes" where
  "encode_launch_commit p = (if co_launch_epoch p = 0 then [] else Put32 (co_launch_epoch p))"

definition decode_launch_commit :: "bytes \<Rightarrow> LaunchCommitPayload decoded" where
  "decode_launch_commit bs =
     (let invalid = ''Launch commit payload is invalid.'' in
      ensure (length bs = 4) invalid (
      expect32 invalid bs (\<lambda>launch_epoch c.
      ensure (launch_epoch \<noteq> 0) invalid (
      Inr \<lparr>co_launch_epoch = launch_epoch\<rparr>))))"

text \<open>The payloads of the two slot acknowledgements have the same two fields.\<close>

record LaunchSlotAck =
  sa_launch_epoch :: u32
  sa_player_slot :: u8

type_synonym LaunchCommitAckPayload = LaunchSlotAck
type_synonym LaunchReleaseAckPayload = LaunchSlotAck

definition EncodeLaunchSlotAck :: "LaunchSlotAck \<Rightarrow> bytes" where
  "EncodeLaunchSlotAck p =
     (if sa_launch_epoch p = 0 \<or> kMaximumPlayers \<le> unat (sa_player_slot p) then []
      else Put32 (sa_launch_epoch p) @ [sa_player_slot p])"

definition DecodeLaunchSlotAck :: "string \<Rightarrow> bytes \<Rightarrow> LaunchSlotAck decoded" where
  "DecodeLaunchSlotAck label bs =
     (let invalid = label @ '' payload is invalid.'' in
      ensure (length bs = 5) invalid (
      expect32 invalid bs (\<lambda>launch_epoch c.
      ensure (launch_epoch \<noteq> 0) invalid (
      index8 c (\<lambda>player_slot c.
      ensure (unat player_slot < kMaximumPlayers) invalid (
      Inr \<lparr>sa_launch_epoch = launch_epoch, sa_player_slot = player_slot\<rparr>))))))"

definition encode_launch_commit_ack :: "LaunchCommitAckPayload \<Rightarrow> bytes" where
  "encode_launch_commit_ack p = EncodeLaunchSlotAck p"

definition decode_launch_commit_ack :: "bytes \<Rightarrow> LaunchCommitAckPayload decoded" where
  "decode_launch_commit_ack bs = DecodeLaunchSlotAck ''Launch commit acknowledgement'' bs"

record LaunchReleasePayload =
  re_launch_epoch :: u32

definition encode_launch_release :: "LaunchReleasePayload \<Rightarrow> bytes" where
  "encode_launch_release p = encode_launch_commit \<lparr>co_launch_epoch = re_launch_epoch p\<rparr>"

definition decode_launch_release :: "bytes \<Rightarrow> LaunchReleasePayload decoded" where
  "decode_launch_release bs =
     (case decode_launch_commit bs of
        Inl e \<Rightarrow> Inl e
      | Inr commit \<Rightarrow> Inr \<lparr>re_launch_epoch = co_launch_epoch commit\<rparr>)"

definition encode_launch_release_ack :: "LaunchReleaseAckPayload \<Rightarrow> bytes" where
  "encode_launch_release_ack p = EncodeLaunchSlotAck p"

definition decode_launch_release_ack :: "bytes \<Rightarrow> LaunchReleaseAckPayload decoded" where
  "decode_launch_release_ack bs = DecodeLaunchSlotAck ''Launch release acknowledgement'' bs"

record LaunchCancelPayload =
  lc_launch_epoch :: u32

definition encode_launch_cancel :: "LaunchCancelPayload \<Rightarrow> bytes" where
  "encode_launch_cancel p = (if lc_launch_epoch p = 0 then [] else Put32 (lc_launch_epoch p))"

definition decode_launch_cancel :: "bytes \<Rightarrow> LaunchCancelPayload decoded" where
  "decode_launch_cancel bs =
     (let invalid = ''Launch cancel payload is invalid.'' in
      ensure (length bs = 4) invalid (
      expect32 invalid bs (\<lambda>launch_epoch c.
      ensure (launch_epoch \<noteq> 0) invalid (
      Inr \<lparr>lc_launch_epoch = launch_epoch\<rparr>))))"

subsection \<open>Connection pre-flight\<close>

record PreflightBeginPayload =
  pb_test_id :: u32
  pb_duration_ms :: u16

definition encode_preflight_begin :: "PreflightBeginPayload \<Rightarrow> bytes" where
  "encode_preflight_begin p =
     (if pb_test_id p = 0 \<or> pb_duration_ms p < 1000 \<or> pb_duration_ms p > 15000 then []
      else Put32 (pb_test_id p) @ Put16 (pb_duration_ms p))"

definition decode_preflight_begin :: "bytes \<Rightarrow> PreflightBeginPayload decoded" where
  "decode_preflight_begin bs =
     (let invalid = ''Connection pre-flight begin payload is invalid.'' in
      ensure (length bs = 6) invalid (
      expect32 invalid bs (\<lambda>test_id c.
      expect16 invalid c (\<lambda>duration_ms c.
      ensure (\<not> (test_id = 0 \<or> duration_ms < 1000 \<or> duration_ms > 15000)) invalid (
      Inr \<lparr>pb_test_id = test_id, pb_duration_ms = duration_ms\<rparr>)))))"

record PreflightProbePayload =
  pp_test_id :: u32
  pp_sequence :: u32
  pp_sent_time_us :: u64
  pp_echo :: bool
  pp_padding :: bytes

definition encode_preflight_probe :: "PreflightProbePayload \<Rightarrow> bytes" where
  "encode_preflight_probe p =
     (if pp_test_id p = 0 \<or> pp_sequence p = 0 \<or> pp_sent_time_us p = 0 \<or>
         length (pp_padding p) > 920 then []
      else Put32 (pp_test_id p) @ Put32 (pp_sequence p) @ Put64 (pp_sent_time_us p) @
           [if pp_echo p then 1 else 0] @ Put16 (of_nat (length (pp_padding p))) @
           pp_padding p)"

definition decode_preflight_probe :: "bytes \<Rightarrow> PreflightProbePayload decoded" where
  "decode_preflight_probe bs =
     (let invalid = ''Connection pre-flight probe payload is invalid.'' in
      ensure (\<not> length bs < 19) invalid (
      expect32 invalid bs (\<lambda>test_id c.
      expect32 invalid c (\<lambda>sequence c.
      expect64 invalid c (\<lambda>sent_time_us c.
      expect8 invalid c (\<lambda>echo c.
      ensure (\<not> echo > 1) invalid (
      expect16 invalid c (\<lambda>padding_size c.
      ensure (\<not> (padding_size > 920 \<or> unat padding_size \<noteq> length c \<or> test_id = 0 \<or>
          sequence = 0 \<or> sent_time_us = 0)) invalid (
      Inr \<lparr>pp_test_id = test_id, pp_sequence = sequence, pp_sent_time_us = sent_time_us,
           pp_echo = (echo \<noteq> 0), pp_padding = c\<rparr>)))))))))"

record PreflightResultPayload =
  pf_test_id :: u32
  pf_player_slot :: u8
  pf_score :: u8
  pf_p95_rtt_ms :: u16
  pf_jitter_ms :: u16
  pf_loss_tenths_percent :: u16
  pf_late_tenths_percent :: u16
  pf_queues_drained :: bool

definition encode_preflight_result :: "PreflightResultPayload \<Rightarrow> bytes" where
  "encode_preflight_result p =
     (if pf_test_id p = 0 \<or> kMaximumPlayers \<le> unat (pf_player_slot p) \<or>
         pf_score p < 1 \<or> pf_score p > 10 then []
      else Put32 (pf_test_id p) @ [pf_player_slot p, pf_score p] @ Put16 (pf_p95_rtt_ms p) @
           Put16 (pf_jitter_ms p) @ Put16 (pf_loss_tenths_percent p) @
           Put16 (pf_late_tenths_percent p) @ [if pf_queues_drained p then 1 else 0])"

definition decode_preflight_result :: "bytes \<Rightarrow> PreflightResultPayload decoded" where
  "decode_preflight_result bs =
     (let invalid = ''Connection pre-flight result payload is invalid.'' in
      ensure (length bs = 15) invalid (
      expect32 invalid bs (\<lambda>test_id c.
      ensure (\<not> length c < 2) invalid (
      index8 c (\<lambda>player_slot c.
      index8 c (\<lambda>score c.
      expect16 invalid c (\<lambda>p95_rtt_ms c.
      expect16 invalid c (\<lambda>jitter_ms c.
      expect16 invalid c (\<lambda>loss c.
      expect16 invalid c (\<lambda>late c.
      expect8 invalid c (\<lambda>drained c.
      ensure (\<not> (drained > 1 \<or> test_id = 0 \<or> kMaximumPlayers \<le> unat player_slot \<or>
          score < 1 \<or> score > 10)) invalid (
      Inr \<lparr>pf_test_id = test_id, pf_player_slot = player_slot, pf_score = score,
           pf_p95_rtt_ms = p95_rtt_ms, pf_jitter_ms = jitter_ms,
           pf_loss_tenths_percent = loss, pf_late_tenths_percent = late,
           pf_queues_drained = (drained \<noteq> 0)\<rparr>))))))))))))"

subsection \<open>The codecs are exact\<close>

lemma u16_gt_920: "(v :: u16) > 920 \<longleftrightarrow> unat v > 920"
  by (simp add: word_less_nat_alt)

interpretation loaded: exact_codec encode_loaded decode_loaded
proof (rule exact_codecI)
  show "bs \<noteq> [] \<and> encode_loaded x = bs" if "decode_loaded bs = Inr x" for bs x
    using that
    by (auto simp: decode_loaded_def encode_loaded_def Let_def wire_inv
        not_less u8_le_1_iff)
  show "decode_loaded (encode_loaded x) = Inr x" if "encode_loaded x \<noteq> []" for x
    using that
    by (cases x) (auto simp: decode_loaded_def encode_loaded_def Let_def
        wire_run split: if_splits)
  show "decode_loaded bs \<noteq> Inl OutOfRange" for bs
    by (auto simp: decode_loaded_def Let_def wire_inv)
qed

interpretation ready_request: exact_codec encode_ready_request decode_ready_request
proof (rule exact_codecI)
  show "bs \<noteq> [] \<and> encode_ready_request x = bs" if "decode_ready_request bs = Inr x" for bs x
    using that
    by (auto simp: decode_ready_request_def encode_ready_request_def Let_def wire_inv
        not_less u8_le_1_iff)
  show "decode_ready_request (encode_ready_request x) = Inr x" if "encode_ready_request x \<noteq> []" for x
    using that
    by (cases x) (auto simp: decode_ready_request_def encode_ready_request_def Let_def
        wire_run split: if_splits)
  show "decode_ready_request bs \<noteq> Inl OutOfRange" for bs
    by (auto simp: decode_ready_request_def Let_def wire_inv)
qed

interpretation ready_ack: exact_codec encode_ready_ack decode_ready_ack
proof (rule exact_codecI)
  show "bs \<noteq> [] \<and> encode_ready_ack x = bs" if "decode_ready_ack bs = Inr x" for bs x
    using that
    by (auto simp: decode_ready_ack_def encode_ready_ack_def Let_def wire_inv
        not_less u8_le_1_iff)
  show "decode_ready_ack (encode_ready_ack x) = Inr x" if "encode_ready_ack x \<noteq> []" for x
    using that
    by (cases x) (auto simp: decode_ready_ack_def encode_ready_ack_def Let_def
        wire_run split: if_splits)
  show "decode_ready_ack bs \<noteq> Inl OutOfRange" for bs
    by (auto simp: decode_ready_ack_def Let_def wire_inv)
qed

interpretation countdown_ack: exact_codec encode_countdown_ack decode_countdown_ack
proof (rule exact_codecI)
  show "bs \<noteq> [] \<and> encode_countdown_ack x = bs" if "decode_countdown_ack bs = Inr x" for bs x
    using that
    by (auto simp: decode_countdown_ack_def encode_countdown_ack_def Let_def wire_inv
        not_less u8_le_1_iff)
  show "decode_countdown_ack (encode_countdown_ack x) = Inr x" if "encode_countdown_ack x \<noteq> []" for x
    using that
    by (cases x) (auto simp: decode_countdown_ack_def encode_countdown_ack_def Let_def
        wire_run split: if_splits)
  show "decode_countdown_ack bs \<noteq> Inl OutOfRange" for bs
    by (auto simp: decode_countdown_ack_def Let_def wire_inv)
qed

interpretation launch_prepare_ack: exact_codec encode_launch_prepare_ack decode_launch_prepare_ack
proof (rule exact_codecI)
  show "bs \<noteq> [] \<and> encode_launch_prepare_ack x = bs" if "decode_launch_prepare_ack bs = Inr x" for bs x
    using that
    by (auto simp: decode_launch_prepare_ack_def encode_launch_prepare_ack_def Let_def wire_inv
        not_less u8_le_1_iff)
  show "decode_launch_prepare_ack (encode_launch_prepare_ack x) = Inr x" if "encode_launch_prepare_ack x \<noteq> []" for x
    using that
    by (cases x) (auto simp: decode_launch_prepare_ack_def encode_launch_prepare_ack_def Let_def
        wire_run split: if_splits)
  show "decode_launch_prepare_ack bs \<noteq> Inl OutOfRange" for bs
    by (auto simp: decode_launch_prepare_ack_def Let_def wire_inv)
qed

interpretation launch_commit: exact_codec encode_launch_commit decode_launch_commit
proof (rule exact_codecI)
  show "bs \<noteq> [] \<and> encode_launch_commit x = bs" if "decode_launch_commit bs = Inr x" for bs x
    using that
    by (auto simp: decode_launch_commit_def encode_launch_commit_def Let_def wire_inv
        not_less u8_le_1_iff)
  show "decode_launch_commit (encode_launch_commit x) = Inr x" if "encode_launch_commit x \<noteq> []" for x
    using that
    by (cases x) (auto simp: decode_launch_commit_def encode_launch_commit_def Let_def
        wire_run split: if_splits)
  show "decode_launch_commit bs \<noteq> Inl OutOfRange" for bs
    by (auto simp: decode_launch_commit_def Let_def wire_inv)
qed

interpretation launch_cancel: exact_codec encode_launch_cancel decode_launch_cancel
proof (rule exact_codecI)
  show "bs \<noteq> [] \<and> encode_launch_cancel x = bs" if "decode_launch_cancel bs = Inr x" for bs x
    using that
    by (auto simp: decode_launch_cancel_def encode_launch_cancel_def Let_def wire_inv
        not_less u8_le_1_iff)
  show "decode_launch_cancel (encode_launch_cancel x) = Inr x" if "encode_launch_cancel x \<noteq> []" for x
    using that
    by (cases x) (auto simp: decode_launch_cancel_def encode_launch_cancel_def Let_def
        wire_run split: if_splits)
  show "decode_launch_cancel bs \<noteq> Inl OutOfRange" for bs
    by (auto simp: decode_launch_cancel_def Let_def wire_inv)
qed

interpretation preflight_begin: exact_codec encode_preflight_begin decode_preflight_begin
proof (rule exact_codecI)
  show "bs \<noteq> [] \<and> encode_preflight_begin x = bs" if "decode_preflight_begin bs = Inr x" for bs x
    using that
    by (auto simp: decode_preflight_begin_def encode_preflight_begin_def Let_def wire_inv
        not_less u8_le_1_iff)
  show "decode_preflight_begin (encode_preflight_begin x) = Inr x" if "encode_preflight_begin x \<noteq> []" for x
    using that
    by (cases x) (auto simp: decode_preflight_begin_def encode_preflight_begin_def Let_def
        wire_run split: if_splits)
  show "decode_preflight_begin bs \<noteq> Inl OutOfRange" for bs
    by (auto simp: decode_preflight_begin_def Let_def wire_inv)
qed

interpretation preflight_probe: exact_codec encode_preflight_probe decode_preflight_probe
proof (rule exact_codecI)
  show "bs \<noteq> [] \<and> encode_preflight_probe x = bs" if "decode_preflight_probe bs = Inr x" for bs x
    using that
    by (auto simp: decode_preflight_probe_def encode_preflight_probe_def Let_def wire_inv
        not_less u8_le_1_iff of_nat_length_word of_nat_u16_unat u16_gt_920)
  show "decode_preflight_probe (encode_preflight_probe x) = Inr x" if "encode_preflight_probe x \<noteq> []" for x
    using that
    by (cases x) (auto simp: decode_preflight_probe_def encode_preflight_probe_def Let_def
        wire_run of_nat_length_word of_nat_u16_unat u16_gt_920 split: if_splits)
  show "decode_preflight_probe bs \<noteq> Inl OutOfRange" for bs
    by (auto simp: decode_preflight_probe_def Let_def wire_inv)
qed

interpretation preflight_result: exact_codec encode_preflight_result decode_preflight_result
proof (rule exact_codecI)
  show "bs \<noteq> [] \<and> encode_preflight_result x = bs" if "decode_preflight_result bs = Inr x" for bs x
    using that
    by (auto simp: decode_preflight_result_def encode_preflight_result_def Let_def wire_inv
        not_less u8_le_1_iff)
  show "decode_preflight_result (encode_preflight_result x) = Inr x" if "encode_preflight_result x \<noteq> []" for x
    using that
    by (cases x) (auto simp: decode_preflight_result_def encode_preflight_result_def Let_def
        wire_run split: if_splits)
  show "decode_preflight_result bs \<noteq> Inl OutOfRange" for bs
    by (auto simp: decode_preflight_result_def Let_def wire_inv)
qed

interpretation start: exact_codec encode_start decode_start
proof (rule exact_codecI)
  show "bs \<noteq> [] \<and> encode_start x = bs" if "decode_start bs = Inr x" for bs x
    using that
    by (auto simp: decode_start_def encode_start_def Let_def wire_inv not_less)
  show "decode_start (encode_start x) = Inr x" if "encode_start x \<noteq> []" for x
  proof -
    obtain stage d h where x: "x = \<lparr>st_stage = stage, st_descriptor = d, st_descriptor_hash = h\<rparr>"
      by (cases x) auto
    have g: "\<not> stage > 1" "valid_launch_descriptor d" "h = launch_descriptor_hash d"
      using that by (auto simp: x encode_start_def Let_def split: if_splits)
    have d: "\<lparr>ld_match_id = ld_match_id d, ld_lobby_generation = ld_lobby_generation d,
        ld_compatibility_hash = ld_compatibility_hash d, ld_occupied_mask = ld_occupied_mask d,
        ld_player_count = ld_player_count d, ld_input_delay_frames = ld_input_delay_frames d,
        ld_rollback_window = ld_rollback_window d, ld_synchronization = ld_synchronization d,
        ld_host_control = ld_host_control d\<rparr> = d"
      by simp
    show ?thesis
      using g by (simp add: x encode_start_def decode_start_def Let_def wire_run d)
  qed
  show "decode_start bs \<noteq> Inl OutOfRange" for bs
    by (auto simp: decode_start_def Let_def wire_inv)
qed

interpretation slot_ack: exact_codec EncodeLaunchSlotAck "DecodeLaunchSlotAck label" for label
proof (rule exact_codecI)
  show "bs \<noteq> [] \<and> EncodeLaunchSlotAck x = bs" if "DecodeLaunchSlotAck label bs = Inr x" for bs x
    using that
    by (auto simp: DecodeLaunchSlotAck_def EncodeLaunchSlotAck_def Let_def wire_inv)
  show "DecodeLaunchSlotAck label (EncodeLaunchSlotAck x) = Inr x"
    if "EncodeLaunchSlotAck x \<noteq> []" for x
    using that
    by (cases x) (auto simp: DecodeLaunchSlotAck_def EncodeLaunchSlotAck_def Let_def
        wire_run split: if_splits)
  show "DecodeLaunchSlotAck label bs \<noteq> Inl OutOfRange" for bs
    by (auto simp: DecodeLaunchSlotAck_def Let_def wire_inv)
qed

interpretation launch_commit_ack: exact_codec encode_launch_commit_ack decode_launch_commit_ack
  unfolding encode_launch_commit_ack_def [abs_def] decode_launch_commit_ack_def [abs_def]
  by (rule slot_ack.exact_codec_axioms)

interpretation launch_release_ack: exact_codec encode_launch_release_ack decode_launch_release_ack
  unfolding encode_launch_release_ack_def [abs_def] decode_launch_release_ack_def [abs_def]
  by (rule slot_ack.exact_codec_axioms)

lemma LaunchCommitPayload_collect: "\<lparr>co_launch_epoch = co_launch_epoch p\<rparr> = p"
  by simp

interpretation launch_release: exact_codec encode_launch_release decode_launch_release
proof (rule exact_codecI)
  show "bs \<noteq> [] \<and> encode_launch_release x = bs" if "decode_launch_release bs = Inr x" for bs x
    using that
    by (cases "decode_launch_commit bs")
      (auto simp: decode_launch_release_def encode_launch_release_def launch_commit.exact
        LaunchCommitPayload_collect)
  show "decode_launch_release (encode_launch_release x) = Inr x"
    if "encode_launch_release x \<noteq> []" for x
    using that launch_commit.codec.dec_enc
    by (simp add: decode_launch_release_def encode_launch_release_def)
  show "decode_launch_release bs \<noteq> Inl OutOfRange" for bs
    using launch_commit.exact_safe [of bs]
    by (auto simp: decode_launch_release_def split: sum.splits)
qed

definition prepare_ok :: "LaunchPreparePayload \<Rightarrow> bool" where
  "prepare_ok p \<longleftrightarrow> encode_launch_prepare p \<noteq> [] \<and> st_stage (pr_start p) = 0"

lemma length_encode_start: "encode_start p \<noteq> [] \<Longrightarrow> length (encode_start p) = 39"
  by (auto simp: encode_start_def Let_def split: if_splits)

lemma decode_start_case:
  "(case decode_start c of Inl (Rejected e) \<Rightarrow> Inl (Rejected (f e)) | Inl OutOfRange \<Rightarrow> Inl OutOfRange
    | Inr start \<Rightarrow> k start) = Inr x \<longleftrightarrow>
   (\<exists>start. c \<noteq> [] \<and> encode_start start = c \<and> k start = Inr x)"
proof -
  have "(\<exists>start. c \<noteq> [] \<and> encode_start start = c \<and> k start = Inr x) \<longleftrightarrow>
      (\<exists>start. decode_start c = Inr start \<and> k start = Inr x)"
    by (simp add: start.exact)
  then show ?thesis by (auto split: sum.splits wire_error.splits)
qed

interpretation launch_prepare: wire_codec encode_launch_prepare "decode_launch_prepare error"
  prepare_ok for error
proof
  show "decode_launch_prepare error (encode_launch_prepare x) = Inr x" if "prepare_ok x" for x
    using that start.codec.dec_enc [of "pr_start x"] length_encode_start [of "pr_start x"]
    by (cases x) (auto simp: prepare_ok_def decode_launch_prepare_def encode_launch_prepare_def
        Let_def wire_run split: if_splits)
  show "prepare_ok x" if "decode_launch_prepare error bs = Inr x" for bs x
    using that
    by (auto simp: prepare_ok_def decode_launch_prepare_def encode_launch_prepare_def Let_def
        wire_inv decode_start_case)
  show "encode_launch_prepare x = bs" if "decode_launch_prepare error bs = Inr x" for bs x
    using that
    by (auto simp: decode_launch_prepare_def encode_launch_prepare_def Let_def
        wire_inv decode_start_case)
  show "decode_launch_prepare error bs \<noteq> Inl OutOfRange" for bs
    by (auto simp: decode_launch_prepare_def Let_def wire_inv start.exact_safe
        split: sum.splits wire_error.splits)
qed

end
