(* ===== verification/State_Codec.thy ===== *)
theory State_Codec
  imports Wire
begin

section \<open>Run-length codec of the authoritative state\<close>

text \<open>
  Models \<^verbatim>\<open>authoritative_state_codec.cpp\<close>. A cursor into a byte span is the suffix of the
  list from the cursor on. An index outside a span is the error \<open>OutOfRange\<close>; a returned
  error text is \<open>Rejected\<close>.
\<close>

subsection \<open>Model\<close>

definition kMagic :: bytes where "kMagic = [0x44, 0x4B, 0x52, 0x5A]"
definition kDeltaMagic :: bytes where "kDeltaMagic = [0x44, 0x4B, 0x52, 0x44]"
definition kHeaderBytes :: nat where "kHeaderBytes = 8"
definition kDeltaHeaderBytes :: nat where "kDeltaHeaderBytes = 12"
definition kMaximumLiteral :: nat where "kMaximumLiteral = 128"
definition kMaximumRun :: nat where "kMaximumRun = 130"

definition take_u32 :: "bytes \<Rightarrow> nat \<Rightarrow> (u32 \<Rightarrow> 'a decoded) \<Rightarrow> 'a decoded" where
  "take_u32 bs offset k =
     (if offset + 4 \<le> length bs then k (foldl shift_in 0 (take 4 (drop offset bs)))
      else Inl OutOfRange)"

text \<open>The loop of \<^verbatim>\<open>repeated_length\<close>, over the bytes after the first.\<close>

fun extend_run :: "nat \<Rightarrow> u8 \<Rightarrow> bytes \<Rightarrow> nat" where
  "extend_run len b [] = len"
| "extend_run len b (x # xs) =
     (if len < kMaximumRun \<and> x = b then extend_run (Suc len) b xs else len)"

fun repeated_length :: "bytes \<Rightarrow> nat" where
  "repeated_length [] = 1"
| "repeated_length (b # rest) = extend_run 1 b rest"

lemma extend_run_bounds:
  "len \<le> extend_run len b xs" "extend_run len b xs \<le> len + length xs"
  "len \<le> kMaximumRun \<Longrightarrow> extend_run len b xs \<le> kMaximumRun"
  by (induction len b xs rule: extend_run.induct) (auto simp: kMaximumRun_def)

lemma repeated_length_pos [simp]: "0 < repeated_length s"
  using extend_run_bounds(1) [of 1] by (cases s) (auto simp: Suc_le_eq)

lemma repeated_length_le: "s \<noteq> [] \<Longrightarrow> repeated_length s \<le> length s"
  using extend_run_bounds(2) [of 1] by (cases s) auto

text \<open>The inner loop that extends a literal; \<open>taken\<close> is its length so far.\<close>

function literal_scan :: "bytes \<Rightarrow> nat \<Rightarrow> nat" where
  "literal_scan s taken =
     (if s = [] \<or> taken \<ge> kMaximumLiteral then taken
      else let next_run = repeated_length s in
        if next_run \<ge> 3 then taken
        else let step = min next_run (kMaximumLiteral - taken) in
          literal_scan (drop step s) (taken + step))"
  by auto
termination
  by (relation "measure (\<lambda>(s, _). length s)") auto

declare literal_scan.simps [simp del]

lemma literal_scan_bounds:
  "taken \<le> literal_scan s taken" "literal_scan s taken \<le> taken + length s"
  "taken \<le> kMaximumLiteral \<Longrightarrow> literal_scan s taken \<le> kMaximumLiteral"
proof (induction s taken rule: literal_scan.induct)
  case (1 s taken)
  let ?step = "min (repeated_length s) (kMaximumLiteral - taken)"
  have step: "?step \<le> length s" if "s \<noteq> []" using repeated_length_le [OF that] by simp
  {
    case 1
    show ?case
      using "1.IH"(1) by (subst literal_scan.simps) (force simp: Let_def)
  next
    case 2
    show ?case
    proof (cases "s = [] \<or> taken \<ge> kMaximumLiteral \<or> 3 \<le> repeated_length s")
      case False
      then have "literal_scan (drop ?step s) (taken + ?step) \<le> taken + ?step + length (drop ?step s)"
        by (intro "1.IH"(2)) auto
      then show ?thesis
        using False step by (subst literal_scan.simps) (simp add: Let_def)
    qed (auto simp: literal_scan.simps [of s taken] Let_def)
  next
    case 3
    then show ?case
      using "1.IH"(3) by (subst literal_scan.simps) (force simp: Let_def)
  }
qed

function rle_body :: "bytes \<Rightarrow> bytes" where
  "rle_body s =
     (if s = [] then []
      else let run = repeated_length s in
        if run \<ge> 3 then
          [0x80 OR of_nat (run - 3), hd s] @ rle_body (drop run s)
        else let literal_length = literal_scan (drop run s) run in
          [of_nat (literal_length - 1)] @ take literal_length s @ rle_body (drop literal_length s))"
  by auto
termination
proof (relation "measure length", goal_cases)
  case (3 s run literal_length)
  then have "1 \<le> literal_length"
    using literal_scan_bounds(1) [of run "drop run s"] repeated_length_pos [of s] by linarith
  with 3 show ?case by simp
qed auto

declare rle_body.simps [simp del]

definition encode_rle :: "bytes \<Rightarrow> bytes \<Rightarrow> u32 option \<Rightarrow> bytes" where
  "encode_rle bs magic base_frame =
     magic @ Put32 (of_nat (length bs)) @
     (case base_frame of None \<Rightarrow> [] | Some frame \<Rightarrow> Put32 frame) @ rle_body bs"

text \<open>The loop of \<^verbatim>\<open>decode_rle\<close>: the wire from the cursor on, and what is decoded so far.\<close>

function rle_loop :: "nat \<Rightarrow> bytes \<Rightarrow> bytes \<Rightarrow> bytes decoded" where
  "rle_loop decoded_size [] decoded =
     (if length decoded \<noteq> decoded_size
      then Inl (Rejected ''The compressed authoritative state is truncated or trailing.'')
      else Inr decoded)"
| "rle_loop decoded_size (command # wire) decoded =
     (if length decoded \<ge> decoded_size
      then Inl (Rejected ''The compressed authoritative state is truncated or trailing.'')
      else if command AND 0x80 \<noteq> 0 then
        let len = unat (command AND 0x7F) + 3 in
        if wire = [] \<or> length decoded + len > decoded_size
        then Inl (Rejected ''The compressed authoritative run is invalid.'')
        else rle_loop decoded_size (tl wire) (decoded @ replicate len (hd wire))
      else
        let len = unat command + 1 in
        if len > length wire \<or> length decoded + len > decoded_size
        then Inl (Rejected ''The compressed authoritative literal is invalid.'')
        else rle_loop decoded_size (drop len wire) (decoded @ take len wire))"
  by pat_completeness auto
termination
  by (relation "measure (\<lambda>(_, wire, _). length wire)") auto

definition decode_rle :: "bytes \<Rightarrow> nat \<Rightarrow> nat \<Rightarrow> bytes decoded" where
  "decode_rle wire header_bytes decoded_size =
     rle_loop decoded_size (drop header_bytes wire) []"

definition encode_authoritative_state_wire :: "bytes \<Rightarrow> bytes" where
  "encode_authoritative_state_wire state =
     (if state = [] \<or> length state > 0xFFFFFFFF then state
      else let encoded = encode_rle state kMagic None in
        if length encoded \<ge> length state then state else encoded)"

definition xor_bytes :: "bytes \<Rightarrow> bytes \<Rightarrow> bytes" where
  "xor_bytes a b = map2 (XOR) a b"

definition encode_authoritative_state_delta_wire :: "bytes \<Rightarrow> bytes \<Rightarrow> u32 \<Rightarrow> bytes" where
  "encode_authoritative_state_delta_wire state keyframe keyframe_frame =
     (if state = [] \<or> length state \<noteq> length keyframe \<or> length state > 0xFFFFFFFF then []
      else let delta = xor_bytes state keyframe;
               encoded = encode_rle delta kDeltaMagic (Some keyframe_frame) in
        if length encoded \<ge> length state then [] else encoded)"

definition authoritative_state_wire_is_delta :: "bytes \<Rightarrow> bool" where
  "authoritative_state_wire_is_delta wire \<longleftrightarrow>
     length wire \<ge> kDeltaHeaderBytes \<and> take 4 wire = kDeltaMagic"

definition decode_authoritative_state_delta_wire ::
  "bytes \<Rightarrow> bytes \<Rightarrow> u32 \<Rightarrow> nat \<Rightarrow> bytes decoded" where
  "decode_authoritative_state_delta_wire wire keyframe keyframe_frame maximum_decoded_size =
     ensure (authoritative_state_wire_is_delta wire)
       ''The authoritative replica is not a temporal delta.'' (
     take_u32 wire 4 (\<lambda>size.
     take_u32 wire 8 (\<lambda>declared_base_frame.
     let decoded_size = unat size in
     ensure (\<not> (decoded_size = 0 \<or> decoded_size > maximum_decoded_size \<or>
         decoded_size \<noteq> length keyframe \<or> declared_base_frame \<noteq> keyframe_frame))
       ''The authoritative replica does not match its keyframe.'' (
     case decode_rle wire kDeltaHeaderBytes decoded_size of
       Inl e \<Rightarrow> Inl e
     | Inr delta \<Rightarrow> Inr (xor_bytes delta keyframe)))))"

definition decode_authoritative_state_wire :: "bytes \<Rightarrow> nat \<Rightarrow> bytes decoded" where
  "decode_authoritative_state_wire wire maximum_decoded_size =
     (if length wire < kHeaderBytes \<or> take 4 wire \<noteq> kMagic then
        ensure (\<not> (wire = [] \<or> length wire > maximum_decoded_size))
          ''The authoritative state is outside decoded limits.'' (Inr wire)
      else
        take_u32 wire 4 (\<lambda>size.
        let decoded_size = unat size in
        ensure (\<not> (decoded_size = 0 \<or> decoded_size > maximum_decoded_size))
          ''The compressed authoritative state declares an invalid size.'' (
        decode_rle wire kHeaderBytes decoded_size)))"

subsection \<open>The body decodes to what was encoded\<close>

lemma extend_run_take:
  "len \<le> n \<Longrightarrow> n \<le> extend_run len b xs \<Longrightarrow> take (n - len) xs = replicate (n - len) b"
proof (induction len b xs rule: extend_run.induct)
  case (2 len b x xs)
  show ?case
  proof (cases "n = len")
    case False
    then have "len < kMaximumRun \<and> x = b" "Suc len \<le> n" using 2 by (auto split: if_splits)
    moreover from this have "n - len = Suc (n - Suc len)" by simp
    ultimately show ?thesis using 2 by simp
  qed simp
qed auto

lemma repeated_length_run:
  assumes "s \<noteq> []"
  shows "repeated_length s \<le> length s" "repeated_length s \<le> kMaximumRun"
    "s = replicate (repeated_length s) (hd s) @ drop (repeated_length s) s"
proof -
  obtain b xs where s: "s = b # xs" using assms by (cases s) auto
  let ?n = "extend_run 1 b xs"
  show "repeated_length s \<le> length s" "repeated_length s \<le> kMaximumRun"
    using extend_run_bounds(2) [of 1 b xs] extend_run_bounds(3) [of 1 b xs]
    by (auto simp: s kMaximumRun_def)
  have n: "1 \<le> ?n" by (rule extend_run_bounds(1))
  have "take ?n s = replicate ?n b"
    using extend_run_take [of 1 ?n b xs] n by (cases ?n) (auto simp: s)
  then have "take (repeated_length s) s = replicate (repeated_length s) (hd s)" by (simp add: s)
  then show "s = replicate (repeated_length s) (hd s) @ drop (repeated_length s) s"
    by (metis append_take_drop_id)
qed

lemma low_bits: "n < 128 \<Longrightarrow> take_bit 7 (of_nat n :: u8) = of_nat n"
  by (simp add: word_unat_eq_iff unsigned_take_bit_eq of_nat_u8_unat take_bit_nat_eq_self)

lemma mask_7F: "x AND 0x7F = take_bit 7 (x :: u8)"
  by (simp add: take_bit_eq_mask mask_eq_exp_minus_1)

lemma run_command:
  assumes "n < 128"
  shows "(0x80 OR of_nat n :: u8) AND 0x80 \<noteq> 0" "unat ((0x80 OR of_nat n :: u8) AND 0x7F) = n"
proof -
  have "(0x80 OR of_nat n :: u8) AND 0x80 = 0x80"
    by (rule bit_word_eqI) (auto simp: bit_simps)
  then show "(0x80 OR of_nat n :: u8) AND 0x80 \<noteq> 0" by simp
  have "(0x80 OR of_nat n :: u8) AND 0x7F = of_nat n"
    unfolding mask_7F take_bit_or low_bits [OF assms] by simp
  then show "unat ((0x80 OR of_nat n :: u8) AND 0x7F) = n"
    using assms by (simp add: of_nat_u8_unat)
qed

lemma literal_command:
  assumes "n < 128"
  shows "(of_nat n :: u8) AND 0x80 = 0" "unat (of_nat n :: u8) = n"
proof -
  have "(of_nat n :: u8) AND 0x80 = take_bit 7 (of_nat n) AND 0x80" using low_bits [OF assms] by simp
  also have "\<dots> = of_nat n AND take_bit 7 0x80"
    by (simp only: take_bit_eq_mask and.assoc and.commute [of "mask 7"])
  finally show "(of_nat n :: u8) AND 0x80 = 0" by simp
  show "unat (of_nat n :: u8) = n" using assms by (simp add: of_nat_u8_unat)
qed

lemma rle_loop_run:
  assumes "3 \<le> n" "n \<le> 130" "length d + n \<le> n0"
  shows "rle_loop n0 ((0x80 OR of_nat (n - 3)) # b # w) d = rle_loop n0 w (d @ replicate n b)"
  using assms run_command [of "n - 3"] by (simp add: Let_def del: replicate_add)

lemma rle_loop_literal:
  assumes "l \<noteq> []" "length l \<le> 128" "length d + length l \<le> n0"
  shows "rle_loop n0 (of_nat (length l - 1) # l @ w) d = rle_loop n0 w (d @ l)"
proof -
  have "length l - 1 < 128" "0 < length l" using assms by auto
  moreover from this have "\<not> n0 \<le> length d" using assms by linarith
  ultimately show ?thesis using assms literal_command [of "length l - 1"] by (simp add: Let_def)
qed

lemma rle_loop_body:
  "n0 = length d + length s \<Longrightarrow> rle_loop n0 (rle_body s) d = Inr (d @ s)"
proof (induction s arbitrary: d rule: rle_body.induct)
  case (1 s)
  show ?case
  proof (cases "s = []")
    case True
    then show ?thesis using 1 by (simp add: rle_body.simps [of "[]"])
  next
    case False
    note run = repeated_length_run [OF False]
    let ?n = "repeated_length s"
    show ?thesis
    proof (cases "3 \<le> ?n")
      case True
      have "rle_loop n0 (rle_body s) d = rle_loop n0 (rle_body (drop ?n s)) (d @ replicate ?n (hd s))"
        using rle_loop_run [of ?n d n0] True False run "1.prems"
        by (subst rle_body.simps) (simp add: Let_def kMaximumRun_def)
      also have "\<dots> = Inr (d @ replicate ?n (hd s) @ drop ?n s)"
        using "1.IH"(1) [OF False refl True, of "d @ replicate ?n (hd s)"] run(1) "1.prems" by simp
      also have "\<dots> = Inr (d @ s)" using run(3) by simp
      finally show ?thesis .
    next
      case short: False
      let ?m = "literal_scan (drop ?n s) ?n"
      have "?n \<le> ?m" by (rule literal_scan_bounds(1))
      then have pos: "0 < ?m" using repeated_length_pos [of s] by linarith
      have m: "?m \<le> length s" "?m \<le> 128"
        using literal_scan_bounds [where taken = ?n and s = "drop ?n s"] run(1) short
        by (auto simp: kMaximumLiteral_def)
      with pos have l: "take ?m s \<noteq> []" "length (take ?m s) = ?m" using False by auto
      have "rle_loop n0 (rle_body s) d = rle_loop n0 (rle_body (drop ?m s)) (d @ take ?m s)"
        using rle_loop_literal [of "take ?m s" d n0] m l short False "1.prems"
        by (subst rle_body.simps) (simp add: Let_def)
      then show ?thesis
        using "1.IH"(2) [OF False refl short refl, of "d @ take ?m s"] m "1.prems" by simp
    qed
  qed
qed

lemma rle_loop_safe: "rle_loop n0 w d \<noteq> Inl OutOfRange"
  by (induction n0 w d rule: rle_loop.induct) (auto simp: Let_def)

lemma rle_loop_length: "rle_loop n0 w d = Inr s \<Longrightarrow> length s = n0"
  by (induction n0 w d rule: rle_loop.induct) (auto simp: Let_def split: if_splits)

subsection \<open>The wire formats\<close>

lemma take_u32_run [wire_run]:
  "length h = 4 \<Longrightarrow> take_u32 (h @ Put32 v @ r) 4 k = k v"
  "length h = 4 \<Longrightarrow> take_u32 (h @ Put32 v @ Put32 w @ r) 8 k = k w"
  by (simp_all add: take_u32_def be32_value)

lemma length_magic [simp]: "length kMagic = 4" "length kDeltaMagic = 4" "kMagic \<noteq> kDeltaMagic"
  by (simp_all add: kMagic_def kDeltaMagic_def)

lemma unat_u32: "n \<le> 0xFFFFFFFF \<Longrightarrow> unat (of_nat n :: u32) = n"
  by (simp add: unat_of_nat take_bit_nat_eq_self)

lemma xor_bytes_cancel: "length a = length b \<Longrightarrow> xor_bytes (xor_bytes a b) b = a"
  by (induction a b rule: list_induct2) (simp_all add: xor_bytes_def xor.assoc)

lemma length_xor_bytes [simp]: "length (xor_bytes a b) = min (length a) (length b)"
  by (simp add: xor_bytes_def)

lemma encode_state_wire_length: "length (encode_authoritative_state_wire s) \<le> length s"
  by (simp add: encode_authoritative_state_wire_def Let_def)

lemma decode_compressed:
  assumes "s \<noteq> []" "length s \<le> maximum" "length s \<le> 0xFFFFFFFF"
  shows "decode_authoritative_state_wire (encode_rle s kMagic None) maximum = Inr s"
  using assms rle_loop_body [of "length s" "[]" s]
  by (simp add: decode_authoritative_state_wire_def encode_rle_def kHeaderBytes_def
      decode_rle_def wire_run Let_def unat_u32)

lemma decode_state_wire_roundtrip:
  assumes "s \<noteq> []" "length s \<le> maximum"
    and "take 4 s = kMagic \<longrightarrow> length s < kHeaderBytes \<or> length (encode_rle s kMagic None) < length s \<and>
      length s \<le> 0xFFFFFFFF"
  shows "decode_authoritative_state_wire (encode_authoritative_state_wire s) maximum = Inr s"
proof (cases "encode_authoritative_state_wire s = s")
  case True
  have "length s < kHeaderBytes \<or> take 4 s \<noteq> kMagic"
    using True assms(1,3) by (auto simp: encode_authoritative_state_wire_def Let_def split: if_splits)
  then show ?thesis
    using assms(1,2) True by (auto simp: decode_authoritative_state_wire_def wire_run)
next
  case False
  then have "encode_authoritative_state_wire s = encode_rle s kMagic None" "length s \<le> 0xFFFFFFFF"
    by (auto simp: encode_authoritative_state_wire_def Let_def split: if_splits)
  then show ?thesis using decode_compressed assms by simp
qed

lemma decode_state_wire_safe: "decode_authoritative_state_wire w maximum \<noteq> Inl OutOfRange"
  using rle_loop_safe
  by (auto simp: decode_authoritative_state_wire_def decode_rle_def take_u32_def kHeaderBytes_def
      ensure_def Let_def)

lemma decode_state_wire_bound:
  "decode_authoritative_state_wire w maximum = Inr s \<Longrightarrow> s \<noteq> [] \<and> length s \<le> maximum"
  by (auto simp: decode_authoritative_state_wire_def decode_rle_def take_u32_def
      ensure_def Let_def split: if_splits dest!: rle_loop_length)

lemma decode_delta_roundtrip:
  assumes "encode_authoritative_state_delta_wire s k f \<noteq> []" "length s \<le> maximum"
  shows "authoritative_state_wire_is_delta (encode_authoritative_state_delta_wire s k f)"
    and "decode_authoritative_state_delta_wire
      (encode_authoritative_state_delta_wire s k f) k f maximum = Inr s"
proof -
  let ?d = "xor_bytes s k"
  have e: "encode_authoritative_state_delta_wire s k f = encode_rle ?d kDeltaMagic (Some f)"
    and l: "s \<noteq> []" "length s = length k" "length k \<le> 0xFFFFFFFF" "k \<noteq> []"
    using assms(1) by (auto simp: encode_authoritative_state_delta_wire_def Let_def split: if_splits)
  show d: "authoritative_state_wire_is_delta (encode_authoritative_state_delta_wire s k f)"
    by (simp add: e authoritative_state_wire_is_delta_def encode_rle_def kDeltaHeaderBytes_def)
  show "decode_authoritative_state_delta_wire
      (encode_authoritative_state_delta_wire s k f) k f maximum = Inr s"
    using d l assms(2) rle_loop_body [of "length ?d" "[]" ?d] xor_bytes_cancel [OF l(2)]
    by (auto simp: e decode_authoritative_state_delta_wire_def encode_rle_def kDeltaHeaderBytes_def
      decode_rle_def wire_run Let_def unat_u32)
qed

lemma decode_delta_safe: "decode_authoritative_state_delta_wire w k f maximum \<noteq> Inl OutOfRange"
  using rle_loop_safe
  by (auto simp: decode_authoritative_state_delta_wire_def decode_rle_def take_u32_def
      authoritative_state_wire_is_delta_def kDeltaHeaderBytes_def ensure_def Let_def
      split: sum.splits)

lemma decode_delta_length:
  "decode_authoritative_state_delta_wire w k f maximum = Inr s \<Longrightarrow> length s = length k \<and> length s \<le> maximum"
  by (auto simp: decode_authoritative_state_delta_wire_def decode_rle_def take_u32_def
      ensure_def Let_def split: if_splits sum.splits dest!: rle_loop_length)

end
