(* ===== verification/Sequence_Window.thy ===== *)
theory Sequence_Window
  imports Prelude
begin

section \<open>Replay window of a peer\<close>

text \<open>
  Models \<^verbatim>\<open>sequence_window.hpp\<close>. The bit set is a word of 65536 bits: \<open>push_bit\<close> is its
  \<^verbatim>\<open><<=\<close>, which drops the bits beyond the width, as \<^verbatim>\<open>std::bitset\<close> does.

  The abstract specification is the set of the sequences accepted so far. The window
  refines it: it accepts a sequence exactly when the sequence is positive, was not accepted
  before and is less than 65536 behind the highest one.
\<close>

subsection \<open>Model\<close>

definition kReceiveSequenceWindowBits :: nat where "kReceiveSequenceWindowBits = 65536"

record ReceiveSequenceWindow =
  highest :: u64
  seen :: "65536 word"

definition empty_window :: ReceiveSequenceWindow where
  "empty_window = \<lparr>highest = 0, seen = 0\<rparr>"

definition accept :: "u64 \<Rightarrow> ReceiveSequenceWindow \<Rightarrow> bool \<times> ReceiveSequenceWindow" where
  "accept sequence w =
     (if sequence = 0 then (False, w)
      else if sequence > highest w then
        let advance = sequence - highest w;
            shifted = (if unat advance \<ge> kReceiveSequenceWindowBits then 0
                       else push_bit (unat advance) (seen w))
        in (True, w\<lparr>seen := set_bit 0 shifted, highest := sequence\<rparr>)
      else
        let age = highest w - sequence in
        if unat age \<ge> kReceiveSequenceWindowBits then (False, w)
        else if bit (seen w) (unat age) then (False, w)
        else (True, w\<lparr>seen := set_bit (unat age) (seen w)\<rparr>))"

text \<open>The sequences of a stream of datagrams that get through, in order of arrival.\<close>

fun accepted_from :: "ReceiveSequenceWindow \<Rightarrow> u64 list \<Rightarrow> u64 list" where
  "accepted_from w [] = []"
| "accepted_from w (s # ss) =
     (case accept s w of (ok, w') \<Rightarrow> (if ok then [s] else []) @ accepted_from w' ss)"

fun window_after :: "ReceiveSequenceWindow \<Rightarrow> u64 list \<Rightarrow> ReceiveSequenceWindow" where
  "window_after w [] = w"
| "window_after w (s # ss) = window_after (snd (accept s w)) ss"

subsection \<open>Refinement of the set of accepted sequences\<close>

definition window_represents :: "ReceiveSequenceWindow \<Rightarrow> u64 set \<Rightarrow> bool" where
  "window_represents w A \<longleftrightarrow>
     (\<forall>a \<in> A. 0 < a \<and> a \<le> highest w) \<and>
     (\<forall>i < kReceiveSequenceWindowBits.
        bit (seen w) i \<longleftrightarrow> (\<exists>a \<in> A. unat (highest w) = unat a + i))"

definition admits :: "u64 set \<Rightarrow> u64 \<Rightarrow> u64 \<Rightarrow> bool" where
  "admits A high s \<longleftrightarrow>
     0 < s \<and> s \<notin> A \<and> unat high < unat s + kReceiveSequenceWindowBits"

lemma window_represents_empty: "window_represents empty_window {}"
  by (simp add: window_represents_def empty_window_def)

lemma unat_diff: "(b :: u64) \<le> a \<Longrightarrow> unat (a - b) = unat a - unat b"
  by (simp add: unat_sub word_le_nat_alt)

lemma bit_set_bit: "bit (set_bit m v) n \<longleftrightarrow> (m = n \<and> n < LENGTH('a)) \<or> bit (v :: 'a::len word) n"
  by (auto simp: bit_simps dest: bit_imp_le_length)

lemma accept_advance:
  assumes r: "window_represents w A" and h: "s > highest w"
  shows "fst (accept s w) \<and> window_represents (snd (accept s w)) (insert s A) \<and>
    highest (snd (accept s w)) = s"
proof -
  let ?adv = "unat (s - highest w)"
  define sh where "sh = (if ?adv \<ge> kReceiveSequenceWindowBits then 0 else push_bit ?adv (seen w))"
  have s0: "0 < s" "s \<noteq> 0" using h by (auto simp: word_gt_0)
  have adv: "unat s = unat (highest w) + ?adv" "0 < ?adv"
    using h by (auto simp: unat_diff word_less_nat_alt word_le_nat_alt)
  have acc: "accept s w = (True, w\<lparr>seen := set_bit 0 sh, highest := s\<rparr>)"
    using h s0 by (simp add: accept_def Let_def sh_def)
  have old: "0 < a" "a \<le> highest w" if "a \<in> A" for a using r that by (auto simp: window_represents_def)
  have bits: "bit (set_bit 0 sh) i \<longleftrightarrow> (\<exists>a \<in> insert s A. unat s = unat a + i)"
    if i: "i < kReceiveSequenceWindowBits" for i
  proof (cases "i = 0")
    case False
    have "bit sh i \<longleftrightarrow> ?adv \<le> i \<and> bit (seen w) (i - ?adv)"
      using i by (auto simp: sh_def bit_simps kReceiveSequenceWindowBits_def)
    also have "\<dots> \<longleftrightarrow> ?adv \<le> i \<and> (\<exists>a \<in> A. unat (highest w) = unat a + (i - ?adv))"
      using r i by (auto simp: window_represents_def)
    also have "\<dots> \<longleftrightarrow> (\<exists>a \<in> A. unat s = unat a + i)"
    proof -
      have "unat a \<le> unat (highest w)" if "a \<in> A" for a
        using old(2) [OF that] by (simp add: word_le_nat_alt)
      then have "?adv \<le> i \<and> unat (highest w) = unat a + (i - ?adv) \<longleftrightarrow> unat s = unat a + i"
        if "a \<in> A" for a
        using adv that by fastforce
      then show ?thesis by blast
    qed
    finally show ?thesis using False by (simp add: bit_set_bit)
  qed (simp add: bit_set_bit)
  have "a \<le> s" if "a \<in> A" for a using old(2) [OF that] h by simp
  then show ?thesis
    using bits old s0 by (auto simp: acc window_represents_def)
qed

lemma accept_window:
  assumes r: "window_represents w A" and h: "\<not> s > highest w"
  shows "fst (accept s w) \<longleftrightarrow> admits A (highest w) s"
    and "window_represents (snd (accept s w)) (if fst (accept s w) then insert s A else A)"
    and "highest (snd (accept s w)) = highest w"
proof -
  let ?age = "unat (highest w - s)"
  have age: "unat (highest w) = unat s + ?age"
    using h by (auto simp: unat_diff word_le_nat_alt not_less)
  have seen: "bit (seen w) ?age \<longleftrightarrow> s \<in> A" if "?age < kReceiveSequenceWindowBits"
    using r that age by (auto simp: window_represents_def simp flip: word_unat_eq_iff)
  have in_win: "?age < kReceiveSequenceWindowBits \<longleftrightarrow>
      unat (highest w) < unat s + kReceiveSequenceWindowBits"
    using age by linarith
  show "fst (accept s w) \<longleftrightarrow> admits A (highest w) s"
    using h seen in_win by (auto simp: accept_def admits_def Let_def word_gt_0 not_le)
  show "highest (snd (accept s w)) = highest w"
    using h by (simp add: accept_def Let_def)
  show "window_represents (snd (accept s w)) (if fst (accept s w) then insert s A else A)"
  proof (cases "fst (accept s w)")
    case True
    then have acc: "accept s w = (True, w\<lparr>seen := set_bit ?age (seen w)\<rparr>)" and "s \<noteq> 0"
      using h by (auto simp: accept_def Let_def split: if_splits)
    then show ?thesis
      using r h age
      by (auto simp: window_represents_def bit_set_bit word_gt_0 not_less kReceiveSequenceWindowBits_def)
  next
    case False
    then have "snd (accept s w) = w"
      using h by (auto simp: accept_def Let_def split: if_splits)
    with False r show ?thesis by simp
  qed
qed

lemma accept_refines:
  assumes "window_represents w A"
  shows "fst (accept s w) \<longleftrightarrow> admits A (highest w) s"
    and "window_represents (snd (accept s w)) (if fst (accept s w) then insert s A else A)"
    and "highest (snd (accept s w)) = max (highest w) s"
proof -
  have new: "admits A (highest w) s" if "s > highest w"
    using that assms
    by (auto simp: admits_def window_represents_def word_less_nat_alt word_gt_0 not_less word_le_nat_alt)
  show "fst (accept s w) \<longleftrightarrow> admits A (highest w) s"
    "window_represents (snd (accept s w)) (if fst (accept s w) then insert s A else A)"
    "highest (snd (accept s w)) = max (highest w) s"
    using accept_advance [OF assms, of s] accept_window [OF assms, of s] new
    by (cases "s > highest w"; auto simp: max_def)+
qed

lemma accepted_from_fresh:
  "window_represents w A \<Longrightarrow> distinct (accepted_from w ss) \<and> set (accepted_from w ss) \<inter> A = {}"
proof (induction ss arbitrary: w A)
  case (Cons s ss)
  from accept_refines(1,2) [OF Cons.prems, of s] show ?case
    using Cons.IH [of "snd (accept s w)" "if fst (accept s w) then insert s A else A"]
    by (auto simp: admits_def split: prod.splits if_splits)
qed simp

lemma window_after_represents:
  "window_represents w A \<Longrightarrow> window_represents (window_after w ss) (A \<union> set (accepted_from w ss))"
proof (induction ss arbitrary: w A)
  case (Cons s ss)
  from accept_refines(2) [OF Cons.prems, of s] show ?case
    using Cons.IH [of "snd (accept s w)" "if fst (accept s w) then insert s A else A"]
    by (cases "accept s w") (auto split: if_splits)
qed simp

lemma window_after_highest:
  "window_represents w A \<Longrightarrow> highest (window_after w ss) = foldl max (highest w) ss"
proof (induction ss arbitrary: w A)
  case (Cons s ss)
  from accept_refines(2,3) [OF Cons.prems, of s] Cons.IH show ?case by simp
qed simp

end
