(* ===== verification/Rollback_Ring.thy ===== *)
theory Rollback_Ring
  imports Netplay_Types
begin

section \<open>Frame stores and the rollback ring\<close>

text \<open>
  The locale \<open>frame_store\<close> is the contract the simulation relies on when it rolls back:
  what a store returns for a frame is the state of the latest successful save of that
  frame, or nothing. The ring of \<^verbatim>\<open>rollback_ring.cpp\<close> is modelled here and interprets it;
  the page store of \<^verbatim>\<open>rollback_state_store.cpp\<close> interprets it in its own theory.

  A \<^verbatim>\<open>load\<close> that returns false is \<open>None\<close>; its destination span enters only with its size.
\<close>

subsection \<open>The contract\<close>

type_synonym saved = "bytes \<times> u64"

datatype save_op = SaveOp (op_frame: u32) (op_state: bytes) (op_checksum: u64)

text \<open>The specification: what the latest accepted save of a frame stored.\<close>

fun latest_save :: "(bytes \<Rightarrow> bool) \<Rightarrow> save_op list \<Rightarrow> u32 \<Rightarrow> saved option" where
  "latest_save accepts [] g = None"
| "latest_save accepts (op # ops) g =
     (case latest_save accepts ops g of
        Some v \<Rightarrow> Some v
      | None \<Rightarrow> if op_frame op = g \<and> accepts (op_state op)
                then Some (op_state op, op_checksum op) else None)"

fun run_saves ::
  "(u32 \<Rightarrow> bytes \<Rightarrow> u64 \<Rightarrow> 's \<Rightarrow> bool \<times> 's) \<Rightarrow> save_op list \<Rightarrow> 's \<Rightarrow> 's" where
  "run_saves save [] s = s"
| "run_saves save (op # ops) s =
     run_saves save ops (snd (save (op_frame op) (op_state op) (op_checksum op) s))"

text \<open>A run of consecutive frames from \<open>first\<close> on.\<close>

fun save_frames ::
  "(u32 \<Rightarrow> bytes \<Rightarrow> u64 \<Rightarrow> 's \<Rightarrow> bool \<times> 's) \<Rightarrow> nat \<Rightarrow> saved list \<Rightarrow> 's \<Rightarrow> 's" where
  "save_frames save first [] s = s"
| "save_frames save first ((st, c) # rest) s =
     save_frames save (Suc first) rest (snd (save (of_nat first) st c s))"

lemma save_frames_snoc:
  "save_frames save first (xs @ [(st, c)]) s =
     snd (save (of_nat (first + length xs)) st c (save_frames save first xs s))"
  by (induction save first xs s rule: save_frames.induct) simp_all

locale frame_store =
  fixes save :: "u32 \<Rightarrow> bytes \<Rightarrow> u64 \<Rightarrow> 's \<Rightarrow> bool \<times> 's"
    and load :: "u32 \<Rightarrow> 's \<Rightarrow> saved option"
    and inv :: "'s \<Rightarrow> bool"
    and accepts :: "'s \<Rightarrow> bytes \<Rightarrow> bool"
  assumes save_inv: "inv s \<Longrightarrow> inv (snd (save f st c s))"
    and save_accepts: "inv s \<Longrightarrow> fst (save f st c s) \<longleftrightarrow> accepts s st"
    and accepts_save: "inv s \<Longrightarrow> accepts (snd (save f st c s)) = accepts s"
    and save_rejected: "inv s \<Longrightarrow> \<not> accepts s st \<Longrightarrow> snd (save f st c s) = s"
    and load_save: "inv s \<Longrightarrow> accepts s st \<Longrightarrow> load g (snd (save f st c s)) = Some v \<Longrightarrow>
      (if g = f then v = (st, c) else load g s = Some v)"
begin

lemma run_saves_inv: "inv s \<Longrightarrow> inv (run_saves save ops s)"
  by (induction ops arbitrary: s) (simp_all add: save_inv)

lemma run_saves_accepts: "inv s \<Longrightarrow> accepts (run_saves save ops s) = accepts s"
  by (induction ops arbitrary: s) (simp_all add: save_inv accepts_save)

lemma load_run_saves:
  "inv s \<Longrightarrow> load g (run_saves save ops s) = Some v \<Longrightarrow>
     latest_save (accepts s) ops g = Some v \<or>
     (latest_save (accepts s) ops g = None \<and> load g s = Some v)"
proof (induction ops arbitrary: s)
  case (Cons op ops)
  let ?s' = "snd (save (op_frame op) (op_state op) (op_checksum op) s)"
  have "latest_save (accepts s) ops g = Some v \<or>
      (latest_save (accepts s) ops g = None \<and> load g ?s' = Some v)"
    using Cons.IH [of ?s'] Cons.prems by (simp add: save_inv accepts_save)
  then show ?case
    using load_save [OF Cons.prems(1), of "op_state op" g "op_frame op" "op_checksum op" v]
      save_rejected [OF Cons.prems(1), of "op_state op"]
    by (cases "accepts s (op_state op)") (auto split: if_splits)
qed simp

end

subsection \<open>The ring\<close>

record Slot =
  sl_frame :: u32
  sl_checksum :: u64
  sl_bytes :: bytes
  sl_valid :: bool

record RollbackRing =
  slots :: "Slot list"
  state_size :: nat

definition new_ring :: "nat \<Rightarrow> nat \<Rightarrow> RollbackRing" where
  "new_ring capacity bytes_size =
     \<lparr>slots = replicate (max capacity 2)
        \<lparr>sl_frame = 0, sl_checksum = 0, sl_bytes = replicate bytes_size 0, sl_valid = False\<rparr>,
      state_size = bytes_size\<rparr>"

definition slot_index :: "u32 \<Rightarrow> RollbackRing \<Rightarrow> nat" where
  "slot_index frame r = unat frame mod length (slots r)"

definition ring_save :: "u32 \<Rightarrow> bytes \<Rightarrow> u64 \<Rightarrow> RollbackRing \<Rightarrow> bool \<times> RollbackRing" where
  "ring_save frame state checksum r =
     (if length state \<noteq> state_size r then (False, r)
      else (True, r\<lparr>slots := (slots r)[slot_index frame r :=
        \<lparr>sl_frame = frame, sl_checksum = checksum, sl_bytes = state, sl_valid = True\<rparr>]\<rparr>))"

definition ring_load :: "u32 \<Rightarrow> nat \<Rightarrow> RollbackRing \<Rightarrow> saved option" where
  "ring_load frame bytes_size r =
     (if bytes_size \<noteq> state_size r then None
      else let slot = slots r ! slot_index frame r in
        if \<not> sl_valid slot \<or> sl_frame slot \<noteq> frame then None
        else Some (sl_bytes slot, sl_checksum slot))"

definition ring_contains :: "u32 \<Rightarrow> RollbackRing \<Rightarrow> bool" where
  "ring_contains frame r =
     (let slot = slots r ! slot_index frame r in sl_valid slot \<and> sl_frame slot = frame)"

definition ring_clear :: "RollbackRing \<Rightarrow> RollbackRing" where
  "ring_clear r = r\<lparr>slots := map (\<lambda>slot. slot\<lparr>sl_valid := False\<rparr>) (slots r)\<rparr>"

definition state_checksum :: "bytes \<Rightarrow> u64" where
  "state_checksum state = foldl (\<lambda>hash b. (hash XOR ucast b) * 1099511628211) 14695981039346656037 state"

subsection \<open>Correctness of the ring\<close>

definition ring_inv :: "RollbackRing \<Rightarrow> bool" where
  "ring_inv r \<longleftrightarrow> 2 \<le> length (slots r) \<and> (\<forall>slot \<in> set (slots r). length (sl_bytes slot) = state_size r)"

lemma new_ring_inv: "ring_inv (new_ring capacity bytes_size)"
  by (auto simp: ring_inv_def new_ring_def)

lemma ring_clear_inv: "ring_inv r \<Longrightarrow> ring_inv (ring_clear r)"
  by (auto simp: ring_inv_def ring_clear_def)

lemma slot_index_less: "ring_inv r \<Longrightarrow> slot_index f r < length (slots r)"
  unfolding ring_inv_def slot_index_def by (intro mod_less_divisor) linarith

lemma ring_save_inv: "ring_inv r \<Longrightarrow> ring_inv (snd (ring_save f st c r))"
  by (auto simp: ring_inv_def ring_save_def dest!: set_update_subset_insert [THEN subsetD])

lemma ring_save_slots:
  "length (slots (snd (ring_save f st c r))) = length (slots r)"
  "state_size (snd (ring_save f st c r)) = state_size r"
  by (simp_all add: ring_save_def)

text \<open>The exact effect of a save: it replaces whatever shared its slot.\<close>

lemma ring_load_save:
  assumes "ring_inv r" "length st = state_size r"
  shows "ring_load g n (snd (ring_save f st c r)) =
    (if n \<noteq> state_size r then None
     else if g = f then Some (st, c)
     else if slot_index g r = slot_index f r then None
     else ring_load g n r)"
  using assms slot_index_less [OF assms(1), of f]
  by (auto simp: ring_load_def ring_save_def slot_index_def Let_def nth_list_update)

lemma ring_contains_load: "ring_contains f r \<longleftrightarrow> ring_load f (state_size r) r \<noteq> None"
  by (simp add: ring_contains_def ring_load_def Let_def)

lemma ring_clear_load: "ring_inv r \<Longrightarrow> ring_load f n (ring_clear r) = None"
  using slot_index_less [of r f]
  by (auto simp: ring_load_def ring_clear_def slot_index_def Let_def)

interpretation ring: frame_store ring_save "\<lambda>f r. ring_load f (state_size r) r" ring_inv
  "\<lambda>r st. length st = state_size r"
proof
  show "if g = f then v = (st, c) else ring_load g (state_size s) s = Some v"
    if "ring_inv s" "length st = state_size s"
      "ring_load g (state_size (snd (ring_save f st c s))) (snd (ring_save f st c s)) = Some v"
    for s st g f c v
    using that by (auto simp: ring_load_save ring_save_slots split: if_splits)
qed (simp_all add: ring_save_inv ring_save_slots, simp_all add: ring_save_def)

lemma save_frames_inv:
  "ring_inv r \<Longrightarrow> ring_inv (save_frames ring_save first xs r)"
  "state_size (save_frames ring_save first xs r) = state_size r"
  "length (slots (save_frames ring_save first xs r)) = length (slots r)"
  by (induction ring_save first xs r rule: save_frames.induct) (auto simp: ring_save_inv ring_save_slots)

lemma load_save_frames_other:
  assumes "ring_inv r" "\<forall>(st, c) \<in> set xs. length st = state_size r"
    "n < first" "first + length xs \<le> 2 ^ 32" "first + length xs \<le> n + length (slots r)"
  shows "ring_load (of_nat n) (state_size r) (save_frames ring_save first xs r) =
    ring_load (of_nat n) (state_size r) r"
  using assms
proof (induction ring_save first xs r rule: save_frames.induct)
  case (2 first st c rest r)
  let ?r' = "snd (ring_save (of_nat first) st c r)"
  have u: "unat (of_nat n :: u32) = n" "unat (of_nat first :: u32) = first"
    using "2.prems" by (auto intro!: unat_frame)
  have "slot_index (of_nat n) r \<noteq> slot_index (of_nat first) r"
    using mod_distinct [of n first "length (slots r)"] u "2.prems" by (simp add: slot_index_def)
  moreover have "(of_nat n :: u32) \<noteq> of_nat first" using u "2.prems" by auto
  ultimately have "ring_load (of_nat n) (state_size r) ?r' = ring_load (of_nat n) (state_size r) r"
    using ring_load_save [of r st] "2.prems" by simp
  then show ?case
    using "2.hyps"(1) "2.prems" by (auto simp: ring_save_inv ring_save_slots)
qed simp

lemma load_save_frames:
  assumes "ring_inv r" "\<forall>(st, c) \<in> set xs. length st = state_size r"
    "first + length xs \<le> 2 ^ 32" "i < length xs" "length xs \<le> i + length (slots r)"
  shows "ring_load (of_nat (first + i)) (state_size r) (save_frames ring_save first xs r) = Some (xs ! i)"
  using assms
proof (induction ring_save first xs r arbitrary: i rule: save_frames.induct)
  case (2 first st c rest r)
  let ?r' = "snd (ring_save (of_nat first) st c r)"
  show ?case
  proof (cases i)
    case 0
    then have "ring_load (of_nat first) (state_size ?r') (save_frames ring_save (Suc first) rest ?r') =
        ring_load (of_nat first) (state_size ?r') ?r'"
      using "2.prems" by (intro load_save_frames_other) (auto simp: ring_save_inv ring_save_slots)
    then show ?thesis
      using 0 "2.prems" ring_load_save [of r st] by (simp add: ring_save_slots)
  next
    case (Suc j)
    then show ?thesis
      using "2.hyps"(1) [of j] "2.prems" by (auto simp: ring_save_inv ring_save_slots)
  qed
qed simp

end
