(* ===== verification/Rollback_Store.thy ===== *)
theory Rollback_Store
  imports Rollback_Ring
begin

section \<open>The page store of rollback states\<close>

text \<open>
  Models \<^verbatim>\<open>rollback_state_store.cpp\<close>: states as periodic full checkpoints plus the pages
  that changed since the state before. The store refines its history, the list of the
  frames with their full states: every retained frame is reconstructed byte for byte.
  The recycled entries of \<^verbatim>\<open>spare_entries_\<close> are part of the state; an entry taken from
  them is overwritten in full.
\<close>

subsection \<open>Model\<close>

definition kPageBytes :: nat where "kPageBytes = 4096"

record StoreEntry =
  se_frame :: u32
  se_checksum :: u64
  se_checkpoint :: bool
  se_page_indices :: "u32 list"
  se_page_bytes :: bytes

record RollbackStateStore =
  state_bytes :: nat
  capacity :: nat
  checkpoint_interval :: nat
  entries :: "StoreEntry list"
  spare_entries :: "StoreEntry list"
  latest_state :: bytes

definition new_store :: "nat \<Rightarrow> nat \<Rightarrow> nat \<Rightarrow> RollbackStateStore" where
  "new_store n cap interval =
     \<lparr>state_bytes = n, capacity = cap, checkpoint_interval = interval, entries = [],
      spare_entries = [], latest_state = replicate n 0\<rparr>"

text \<open>The part of a page that lies in the state.\<close>

definition page_of :: "bytes \<Rightarrow> nat \<Rightarrow> bytes" where
  "page_of state page = take kPageBytes (drop (page * kPageBytes) state)"

definition page_count :: "nat \<Rightarrow> nat" where
  "page_count n = (n + kPageBytes - 1) div kPageBytes"

fun collect_pages :: "bool \<Rightarrow> bytes \<Rightarrow> bytes \<Rightarrow> nat list \<Rightarrow> u32 list \<times> bytes" where
  "collect_pages checkpoint state latest [] = ([], [])"
| "collect_pages checkpoint state latest (page # pages) =
     (let (indices, bytes) = collect_pages checkpoint state latest pages in
      if checkpoint \<or> page_of state page \<noteq> page_of latest page
      then (of_nat page # indices, page_of state page @ bytes)
      else (indices, bytes))"

text \<open>The inner loop of \<^verbatim>\<open>reconstruct\<close>; the state it returns with False is partly written.\<close>

fun copy_pages :: "u32 list \<Rightarrow> bytes \<Rightarrow> bytes \<Rightarrow> bool \<times> bytes" where
  "copy_pages [] page_bytes state = (page_bytes = [], state)"
| "copy_pages (page # pages) page_bytes state =
     (let first = unat page * kPageBytes in
      if first \<ge> length state then (False, state)
      else let n = min kPageBytes (length state - first) in
        if n > length page_bytes then (False, state)
        else copy_pages pages (drop n page_bytes)
               (take first state @ take n page_bytes @ drop (first + n) state))"

fun replay :: "StoreEntry list \<Rightarrow> bytes \<Rightarrow> bool \<times> bytes" where
  "replay [] state = (True, state)"
| "replay (e # es) state =
     (case copy_pages (se_page_indices e) (se_page_bytes e) state of
        (ok, state') \<Rightarrow> if ok then replay es state' else (False, state'))"

fun checkpoint_before :: "StoreEntry list \<Rightarrow> nat \<Rightarrow> nat" where
  "checkpoint_before es 0 = 0"
| "checkpoint_before es (Suc n) =
     (if se_checkpoint (es ! Suc n) then Suc n else checkpoint_before es n)"

definition reconstruct :: "nat \<Rightarrow> bytes \<Rightarrow> RollbackStateStore \<Rightarrow> bool \<times> bytes" where
  "reconstruct entry_index state s =
     (if entry_index \<ge> length (entries s) \<or> length state \<noteq> state_bytes s then (False, state)
      else let checkpoint = checkpoint_before (entries s) entry_index in
        if \<not> se_checkpoint (entries s ! checkpoint) then (False, state)
        else replay (drop checkpoint (take (Suc entry_index) (entries s)))
               (replicate (length state) 0))"

definition retire :: "nat \<Rightarrow> StoreEntry \<Rightarrow> StoreEntry list \<Rightarrow> StoreEntry list" where
  "retire interval e spare = (if length spare < interval + 1 then spare @ [e] else spare)"

text \<open>The loop of \<^verbatim>\<open>discard_after\<close>, over the entries from the back.\<close>

fun pop_after :: "nat \<Rightarrow> u32 \<Rightarrow> StoreEntry list \<Rightarrow> StoreEntry list \<Rightarrow> StoreEntry list \<times> StoreEntry list" where
  "pop_after interval frame [] spare = ([], spare)"
| "pop_after interval frame (e # rev_es) spare =
     (if se_frame e > frame then pop_after interval frame rev_es (retire interval e spare)
      else (e # rev_es, spare))"

definition store_discard_after :: "u32 \<Rightarrow> RollbackStateStore \<Rightarrow> RollbackStateStore" where
  "store_discard_after frame s =
     (case pop_after (checkpoint_interval s) frame (rev (entries s)) (spare_entries s) of
        (rev_es, spare) \<Rightarrow>
          let s' = s\<lparr>entries := rev rev_es, spare_entries := spare\<rparr> in
          if rev_es = [] then s'\<lparr>latest_state := replicate (length (latest_state s)) 0\<rparr>
          else s'\<lparr>latest_state :=
                 snd (reconstruct (length rev_es - 1) (latest_state s) s')\<rparr>)"

definition store_clear :: "RollbackStateStore \<Rightarrow> RollbackStateStore" where
  "store_clear s =
     s\<lparr>entries := [],
       spare_entries := foldl (\<lambda>spare e. retire (checkpoint_interval s) e spare)
         (spare_entries s) (rev (entries s)),
       latest_state := replicate (length (latest_state s)) 0\<rparr>"

text \<open>The eviction loops: a checkpoint with the deltas that follow it leaves at once.\<close>

fun pop_deltas :: "nat \<Rightarrow> StoreEntry list \<Rightarrow> StoreEntry list \<Rightarrow> StoreEntry list \<times> StoreEntry list" where
  "pop_deltas interval [] spare = ([], spare)"
| "pop_deltas interval (e # es) spare =
     (if \<not> se_checkpoint e then pop_deltas interval es (retire interval e spare)
      else (e # es, spare))"

lemma length_pop_deltas: "length (fst (pop_deltas interval es spare)) \<le> length es"
  by (induction interval es spare rule: pop_deltas.induct) auto

function evict :: "nat \<Rightarrow> nat \<Rightarrow> StoreEntry list \<Rightarrow> StoreEntry list \<Rightarrow> StoreEntry list \<times> StoreEntry list" where
  "evict cap interval [] spare = ([], spare)"
| "evict cap interval (e # es) spare =
     (if length (e # es) > cap then
        case pop_deltas interval es (retire interval e spare) of
          (es', spare') \<Rightarrow> evict cap interval es' spare'
      else (e # es, spare))"
  by pat_completeness auto
termination
proof (relation "measure (\<lambda>(_, _, es, _). length es)", goal_cases)
  case (2 cap interval e es spare es' spare')
  then show ?case
    using length_pop_deltas [of interval es "retire interval e spare"]
    by (cases "pop_deltas interval es (retire interval e spare)") auto
qed simp

definition ensure_front_is_checkpoint :: "RollbackStateStore \<Rightarrow> RollbackStateStore" where
  "ensure_front_is_checkpoint s =
     (if entries s \<noteq> [] \<and> \<not> se_checkpoint (hd (entries s))
      then s\<lparr>entries := [], latest_state := replicate (length (latest_state s)) 0\<rparr>
      else s)"

definition new_entry :: "u32 \<Rightarrow> bytes \<Rightarrow> u64 \<Rightarrow> RollbackStateStore \<Rightarrow> StoreEntry" where
  "new_entry frame state checksum s =
     (let checkpoint = (entries s = [] \<or> unat frame mod checkpoint_interval s = 0);
          (indices, bytes) = collect_pages checkpoint state (latest_state s)
            [0..<page_count (state_bytes s)]
      in \<lparr>se_frame = frame, se_checksum = checksum, se_checkpoint = checkpoint,
          se_page_indices = indices, se_page_bytes = bytes\<rparr>)"

text \<open>The entries a save works on: the frames before the saved one.\<close>

definition before_save :: "u32 \<Rightarrow> RollbackStateStore \<Rightarrow> RollbackStateStore" where
  "before_save frame s =
     (if entries s \<noteq> [] \<and> frame \<le> se_frame (last (entries s))
      then let t = store_discard_after (if frame = 0 then 0 else frame - 1) s
           in if frame = 0 then store_clear t else t
      else s)"

definition store_save :: "u32 \<Rightarrow> bytes \<Rightarrow> u64 \<Rightarrow> RollbackStateStore \<Rightarrow> bool \<times> RollbackStateStore" where
  "store_save frame state checksum s =
     (if length state \<noteq> state_bytes s \<or> state_bytes s = 0 \<or> capacity s = 0 \<or>
         checkpoint_interval s = 0
      then (False, s)
      else
        let s1 = before_save frame s;
            s2 = s1\<lparr>spare_entries := butlast (spare_entries s1)\<rparr>;
            s3 = s2\<lparr>latest_state := state, entries := entries s2 @ [new_entry frame state checksum s2]\<rparr>;
            (es, spare) = evict (capacity s3) (checkpoint_interval s3) (entries s3) (spare_entries s3)
        in (True, ensure_front_is_checkpoint (s3\<lparr>entries := es, spare_entries := spare\<rparr>)))"

definition store_load :: "u32 \<Rightarrow> nat \<Rightarrow> RollbackStateStore \<Rightarrow> saved option" where
  "store_load frame n s =
     (let index = length (takeWhile (\<lambda>e. se_frame e \<noteq> frame) (entries s)) in
      if index = length (entries s) then None
      else case reconstruct index (replicate n 0) s of
        (ok, state) \<Rightarrow> if ok then Some (state, se_checksum (entries s ! index)) else None)"

definition store_contains :: "u32 \<Rightarrow> RollbackStateStore \<Rightarrow> bool" where
  "store_contains frame s = list_ex (\<lambda>e. se_frame e = frame) (entries s)"

definition memory_bytes :: "RollbackStateStore \<Rightarrow> nat" where
  "memory_bytes s = length (latest_state s) +
     sum_list (map (\<lambda>e. length (se_page_bytes e) + length (se_page_indices e) * 4) (entries s))"

subsection \<open>Pages\<close>

lemma page_count_bound: "n \<le> page_count n * kPageBytes"
  by (simp add: page_count_def kPageBytes_def)

lemma page_in_range: "p < page_count n \<Longrightarrow> p * kPageBytes < n"
  by (simp add: page_count_def kPageBytes_def)

text \<open>The state after the pages below \<open>k\<close> have been copied.\<close>

definition merged :: "nat \<Rightarrow> bytes \<Rightarrow> bytes \<Rightarrow> bytes" where
  "merged k state prev = take (k * kPageBytes) state @ drop (k * kPageBytes) prev"

lemma take_merge:
  assumes "length prev = length state" "a \<le> b" "a \<le> length state"
  shows "take a (take a state @ drop a prev) @ take (b - a) (drop a state) @
      drop b (take a state @ drop a prev) = take b state @ drop b prev"
proof -
  have "take b state = take a state @ take (b - a) (drop a state)"
    using assms(2) by (metis le_add_diff_inverse take_add)
  then show ?thesis using assms by simp
qed

lemma merged_copy:
  assumes "length prev = length state" "k * kPageBytes < length state"
  shows "take (k * kPageBytes) (merged k state prev) @ page_of state k @
      drop (k * kPageBytes + min kPageBytes (length state - k * kPageBytes)) (merged k state prev) =
    merged (Suc k) state prev"
proof (cases "kPageBytes \<le> length state - k * kPageBytes")
  case True
  then show ?thesis
    using take_merge [OF assms(1), of "k * kPageBytes" "Suc k * kPageBytes"] assms(2)
    by (simp add: merged_def page_of_def add.commute)
next
  case False
  then show ?thesis
    using take_merge [OF assms(1), of "k * kPageBytes" "Suc k * kPageBytes"] assms
    by (simp add: merged_def page_of_def)
qed

lemma merged_same:
  assumes "length prev = length state" "k * kPageBytes < length state" "page_of state k = page_of prev k"
  shows "merged (Suc k) state prev = merged k state prev"
proof -
  have "drop (k * kPageBytes) prev = page_of prev k @ drop (Suc k * kPageBytes) prev"
    unfolding page_of_def by (simp add: add.commute flip: drop_drop)
  moreover have "take (Suc k * kPageBytes) state = take (k * kPageBytes) state @ page_of state k"
    unfolding page_of_def mult_Suc by (subst add.commute) (rule take_add)
  ultimately show ?thesis using assms(3) by (simp add: merged_def)
qed

lemma length_page_of:
  "length (page_of state k) = min kPageBytes (length state - k * kPageBytes)"
  by (simp add: page_of_def min.commute)

lemma length_merged: "length prev = length state \<Longrightarrow> length (merged k state prev) = length state"
  by (simp add: merged_def)

lemma copy_collected:
  assumes "length prev = length state" "page_count (length state) \<le> 2 ^ 32"
    and "k \<le> page_count (length state)"
    and "collect_pages ck state prev [k..<page_count (length state)] = (indices, bs)"
  shows "copy_pages indices bs (merged k state prev) = (True, state)"
  using assms(3,4)
proof (induction "page_count (length state) - k" arbitrary: k indices bs)
  case 0
  then have "k = page_count (length state)" "indices = []" "bs = []" by auto
  then show ?case
    using page_count_bound [of "length state"] assms(1) by (simp add: merged_def)
next
  case (Suc m)
  let ?n = "page_count (length state)"
  have k: "k < ?n" using Suc.hyps(2) by simp
  then have first: "k * kPageBytes < length state" by (rule page_in_range)
  have u: "unat (of_nat k :: u32) = k" using k assms(2) by (intro unat_frame) simp
  obtain indices' bs' where rest: "collect_pages ck state prev [Suc k..<?n] = (indices', bs')"
    by force
  have IH: "copy_pages indices' bs' (merged (Suc k) state prev) = (True, state)"
    using Suc.hyps(1) [of "Suc k"] Suc.hyps(2) k rest by simp
  show ?case
  proof (cases "ck \<or> page_of state k \<noteq> page_of prev k")
    case True
    then have "indices = of_nat k # indices'" "bs = page_of state k @ bs'"
      using Suc.prems(2) k rest by (auto simp: upt_conv_Cons)
    then show ?thesis
      using IH u first merged_copy [OF assms(1) first] length_merged [OF assms(1), of k]
        length_page_of [of state k]
      by (simp add: Let_def del: min_less_iff_disj min_less_iff_conj)
  next
    case False
    then have "indices = indices'" "bs = bs'"
      using Suc.prems(2) k rest by (auto simp: upt_conv_Cons)
    then show ?thesis
      using IH merged_same [OF assms(1) first] False by simp
  qed
qed

lemma copy_entry:
  assumes "length prev = length state" "page_count (length state) \<le> 2 ^ 32"
    and "collect_pages ck state prev [0..<page_count (length state)] = (indices, bs)"
  shows "copy_pages indices bs prev = (True, state)"
  using copy_collected [OF assms(1,2) _ assms(3)] by (simp add: merged_def)

lemma collect_checkpoint:
  "collect_pages True state prev pages = collect_pages True state prev' pages"
  by (induction pages) auto

subsection \<open>The history a store represents\<close>

type_synonym history = "(u32 \<times> saved) list"

text \<open>
  \<open>chain n prev es h\<close>: the entries \<open>es\<close> hold the history \<open>h\<close> of states of \<open>n\<close> bytes, given
  the state \<open>prev\<close> before the first of them.
\<close>

fun chain :: "nat \<Rightarrow> bytes \<Rightarrow> StoreEntry list \<Rightarrow> history \<Rightarrow> bool" where
  "chain n prev [] h \<longleftrightarrow> h = []"
| "chain n prev (e # es) h \<longleftrightarrow>
     (case h of [] \<Rightarrow> False
      | (frame, state, checksum) # rest \<Rightarrow>
          se_frame e = frame \<and> se_checksum e = checksum \<and> length state = n \<and>
          collect_pages (se_checkpoint e) state prev [0..<page_count n] =
            (se_page_indices e, se_page_bytes e) \<and>
          chain n state es rest)"

definition last_state :: "bytes \<Rightarrow> history \<Rightarrow> bytes" where
  "last_state prev h = (if h = [] then prev else fst (snd (last h)))"

lemma chain_length: "chain n prev es h \<Longrightarrow> length h = length es"
  by (induction n prev es h rule: chain.induct) (auto split: list.splits)

lemma chain_frames: "chain n prev es h \<Longrightarrow> map se_frame es = map fst h"
  by (induction n prev es h rule: chain.induct) (auto split: list.splits)

lemma chain_append:
  "chain n prev (es @ fs) h \<longleftrightarrow>
     chain n prev es (take (length es) h) \<and>
     chain n (last_state prev (take (length es) h)) fs (drop (length es) h)"
proof (induction es arbitrary: prev h)
  case (Cons e es)
  then show ?case by (cases h) (auto simp: last_state_def)
qed (simp add: last_state_def)

lemma chain_checkpoint:
  "chain n prev es h \<Longrightarrow> es = [] \<or> se_checkpoint (hd es) \<Longrightarrow> chain n prev' es h"
  by (cases es) (auto split: list.splits simp: collect_checkpoint [of _ prev _ prev'])

lemma replay_chain:
  "chain n prev es h \<Longrightarrow> length prev = n \<Longrightarrow> page_count n \<le> 2 ^ 32 \<Longrightarrow>
     replay es prev = (True, last_state prev h)"
proof (induction es arbitrary: prev h)
  case (Cons e es)
  then obtain frame state checksum rest where h: "h = (frame, state, checksum) # rest"
    and l: "length state = n" and ch: "chain n state es rest"
    and c: "collect_pages (se_checkpoint e) state prev [0..<page_count (length state)] =
      (se_page_indices e, se_page_bytes e)"
    by (auto split: list.splits)
  have "copy_pages (se_page_indices e) (se_page_bytes e) prev = (True, state)"
    using Cons.prems l by (intro copy_entry [OF _ _ c]) auto
  then show ?case using Cons.IH [OF ch l Cons.prems(3)] by (simp add: h last_state_def)
qed (simp add: last_state_def)

lemma checkpoint_before_le: "checkpoint_before es i \<le> i"
  by (induction i) auto

lemma checkpoint_before_checkpoint:
  "se_checkpoint (es ! 0) \<Longrightarrow> se_checkpoint (es ! checkpoint_before es i)"
  by (induction i) auto

lemma reconstruct_chain:
  assumes ch: "chain (state_bytes s) prev (entries s) h" and ck: "se_checkpoint (hd (entries s))"
    and i: "i < length (entries s)" and len: "length dest = state_bytes s"
    and pc: "page_count (state_bytes s) \<le> 2 ^ 32"
  shows "reconstruct i dest s = (True, fst (snd (h ! i)))"
proof -
  let ?n = "state_bytes s" and ?c = "checkpoint_before (entries s) i"
  let ?es = "drop ?c (take (Suc i) (entries s))" and ?h = "drop ?c (take (Suc i) h)"
  have ck0: "se_checkpoint (entries s ! 0)" using ck i by (cases "entries s") auto
  have c: "?c \<le> i" "se_checkpoint (entries s ! ?c)"
    using checkpoint_before_le checkpoint_before_checkpoint [of "entries s"] ck0 by auto
  have lh: "length h = length (entries s)" using ch by (rule chain_length)
  have "chain ?n prev (take (Suc i) (entries s) @ drop (Suc i) (entries s)) h" using ch by simp
  then have "chain ?n prev (take (Suc i) (entries s)) (take (Suc i) h)"
    using i by (subst (asm) chain_append) (simp add: min_absorb2)
  then have "chain ?n prev (take ?c (take (Suc i) (entries s)) @ ?es) (take (Suc i) h)"
    by (simp only: append_take_drop_id)
  then obtain prev' where "chain ?n prev' ?es ?h"
    using i c(1) lh by (subst (asm) chain_append) (auto simp: min_absorb2)
  moreover have "se_checkpoint (hd ?es)" using c i by (simp add: hd_drop_conv_nth)
  ultimately have "chain ?n (replicate ?n 0) ?es ?h" by (blast intro: chain_checkpoint)
  then have "replay ?es (replicate ?n 0) = (True, last_state (replicate ?n 0) ?h)"
    using pc by (intro replay_chain) auto
  moreover have "?h \<noteq> []" "last ?h = h ! i" using c(1) i lh by (auto simp: last_conv_nth)
  ultimately show ?thesis
    using i len c(2) by (simp add: reconstruct_def Let_def last_state_def)
qed

text \<open>The invariant of a store, with its history.\<close>

definition represents :: "RollbackStateStore \<Rightarrow> history \<Rightarrow> bool" where
  "represents s h \<longleftrightarrow>
     chain (state_bytes s) (replicate (state_bytes s) 0) (entries s) h \<and>
     (entries s = [] \<or> se_checkpoint (hd (entries s))) \<and>
     sorted_wrt (<) (map fst h) \<and>
     (h \<noteq> [] \<longrightarrow> latest_state s = fst (snd (last h))) \<and>
     length (latest_state s) = state_bytes s \<and>
     page_count (state_bytes s) \<le> 2 ^ 32"

definition lookup :: "history \<Rightarrow> u32 \<Rightarrow> saved option" where
  "lookup h frame = map_of h frame"

lemma represents_new:
  "page_count n \<le> 2 ^ 32 \<Longrightarrow> represents (new_store n cap interval) []"
  by (simp add: represents_def new_store_def last_state_def)

lemma find_index:
  "map fst h = map se_frame es \<Longrightarrow>
   (let i = length (takeWhile (\<lambda>e. se_frame e \<noteq> frame) es) in
    (i = length es \<longrightarrow> map_of h frame = None) \<and>
    (i \<noteq> length es \<longrightarrow> i < length es \<and> map_of h frame = Some (snd (h ! i))))"
proof (induction es arbitrary: h)
  case (Cons e es)
  then obtain x h' where "h = x # h'" "fst x = se_frame e" "map fst h' = map se_frame es"
    by (cases h) auto
  then show ?case using Cons.IH [of h'] by (cases x) (auto simp: Let_def)
qed auto

lemma chain_checksum: "chain n prev es h \<Longrightarrow> i < length es \<Longrightarrow> se_checksum (es ! i) = snd (snd (h ! i))"
proof (induction n prev es h arbitrary: i rule: chain.induct)
  case (2 n prev e es h)
  then show ?case by (cases i) (auto split: list.splits)
qed simp

lemma store_load_lookup:
  assumes "represents s h"
  shows "store_load frame (state_bytes s) s = lookup h frame"
proof -
  let ?i = "length (takeWhile (\<lambda>e. se_frame e \<noteq> frame) (entries s))"
  have ch: "chain (state_bytes s) (replicate (state_bytes s) 0) (entries s) h"
    and pc: "page_count (state_bytes s) \<le> 2 ^ 32"
    using assms by (auto simp: represents_def)
  have f: "(?i = length (entries s) \<longrightarrow> map_of h frame = None) \<and>
      (?i \<noteq> length (entries s) \<longrightarrow> ?i < length (entries s) \<and> map_of h frame = Some (snd (h ! ?i)))"
    using find_index [of h "entries s" frame] chain_frames [OF ch] by (simp add: Let_def)
  show ?thesis
  proof (cases "?i = length (entries s)")
    case True
    then show ?thesis using f by (simp add: store_load_def lookup_def Let_def)
  next
    case False
    then have "reconstruct ?i (replicate (state_bytes s) 0) s = (True, fst (snd (h ! ?i)))"
      using f assms pc by (intro reconstruct_chain [OF ch]) (auto simp: represents_def)
    then show ?thesis
      using f False chain_checksum [OF ch] by (simp add: store_load_def lookup_def Let_def)
  qed
qed

subsection \<open>The operations on the history\<close>

lemma chain_state_length: "chain n prev es h \<Longrightarrow> x \<in> set h \<Longrightarrow> length (fst (snd x)) = n"
  by (induction n prev es h rule: chain.induct) (auto split: list.splits)

lemma pop_after_dropWhile:
  "fst (pop_after interval f es spare) = dropWhile (\<lambda>e. se_frame e > f) es"
  by (induction interval f es spare rule: pop_after.induct) simp_all

lemma rev_dropWhile_sorted:
  "sorted_wrt (<) (map fr es) \<Longrightarrow>
     rev (dropWhile (\<lambda>e. fr e > f) (rev es)) = takeWhile (\<lambda>e. fr e \<le> (f :: 'a::linorder)) es"
proof (induction es rule: rev_induct)
  case (snoc e es)
  have "takeWhile (\<lambda>e. fr e \<le> f) es = es" if "fr e \<le> f"
    using snoc.prems that by (auto simp: sorted_wrt_append takeWhile_eq_all_conv)
  then show ?case
    using snoc by (auto simp: sorted_wrt_append takeWhile_append)
qed simp

lemma takeWhile_map_take:
  assumes "map fr es = map fs h"
  shows "length (takeWhile (\<lambda>e. P (fr e)) es) = length (takeWhile (\<lambda>x. P (fs x)) h)"
proof -
  have "length (takeWhile P (map fr es)) = length (takeWhile P (map fs h))" using assms by simp
  then show ?thesis by (simp add: takeWhile_map comp_def)
qed

lemma represents_prefix:
  assumes "represents s h" "k \<le> length h"
  shows "chain (state_bytes s) (replicate (state_bytes s) 0) (take k (entries s)) (take k h)"
proof -
  have ch: "chain (state_bytes s) (replicate (state_bytes s) 0)
      (take k (entries s) @ drop k (entries s)) h"
    using assms by (simp add: represents_def)
  moreover have "length (take k (entries s)) = k"
    using assms chain_length by (fastforce simp: represents_def)
  ultimately show ?thesis unfolding chain_append by simp
qed

lemma discard_represents:
  assumes "represents s h"
  shows "represents (store_discard_after f s) (takeWhile (\<lambda>x. fst x \<le> f) h)"
proof -
  let ?es = "takeWhile (\<lambda>e. se_frame e \<le> f) (entries s)" and ?h = "takeWhile (\<lambda>x. fst x \<le> f) h"
  have ch: "chain (state_bytes s) (replicate (state_bytes s) 0) (entries s) h"
    and srt: "sorted_wrt (<) (map fst h)" and fr: "map se_frame (entries s) = map fst h"
    and pc: "page_count (state_bytes s) \<le> 2 ^ 32" and ll: "length (latest_state s) = state_bytes s"
    using assms chain_frames by (auto simp: represents_def)
  have len: "length ?es = length ?h" by (rule takeWhile_map_take [OF fr])
  define k where "k = length ?h"
  have es: "?es = take k (entries s)" unfolding k_def len [symmetric] by (rule takeWhile_eq_take)
  have h: "?h = take k h" unfolding k_def by (rule takeWhile_eq_take)
  have k: "k \<le> length h" unfolding k_def by (rule length_takeWhile_le)
  have "sorted_wrt (<) (map se_frame (entries s))" using srt fr by simp
  from rev_dropWhile_sorted [OF this, of f]
  have "rev (rev (dropWhile (\<lambda>e. se_frame e > f) (rev (entries s)))) = rev ?es"
    by (rule arg_cong)
  then obtain spare where p: "pop_after (checkpoint_interval s) f (rev (entries s)) (spare_entries s) =
      (rev ?es, spare)"
    using pop_after_dropWhile [of "checkpoint_interval s" f "rev (entries s)" "spare_entries s"]
    by (cases "pop_after (checkpoint_interval s) f (rev (entries s)) (spare_entries s)") simp
  define s' where "s' = s\<lparr>entries := ?es, spare_entries := spare\<rparr>"
  have ch': "chain (state_bytes s') (replicate (state_bytes s') 0) (entries s') ?h"
    using represents_prefix [OF assms k] es h by (simp add: s'_def)
  have ck: "entries s' = [] \<or> se_checkpoint (hd (entries s'))"
    using assms by (cases "entries s") (auto simp: s'_def represents_def)
  have srt': "sorted_wrt (<) (map fst ?h)" using srt unfolding h take_map [symmetric] by (rule sorted_wrt_take)
  show ?thesis
  proof (cases "?es = []")
    case True
    then have "?h = []" using len by simp
    then show ?thesis
      using True pc ll by (simp add: store_discard_after_def p Let_def represents_def)
  next
    case False
    have "reconstruct (length ?es - 1) (latest_state s) s' =
        (True, fst (snd (?h ! (length ?es - 1))))"
      using ck False pc ll by (intro reconstruct_chain [OF ch']) (auto simp: s'_def)
    moreover have "?h \<noteq> []" "?h ! (length ?es - 1) = last ?h" "length (fst (snd (last ?h))) = state_bytes s"
      using False len chain_state_length [OF ch']
      by (auto simp: last_conv_nth s'_def simp flip: length_greater_0_conv)
    ultimately show ?thesis
      using False pc ll ch' ck srt' by (simp add: store_discard_after_def p Let_def represents_def s'_def)
  qed
qed


lemma clear_represents: "represents s h \<Longrightarrow> represents (store_clear s) []"
  by (simp add: represents_def store_clear_def)

lemma push_represents:
  assumes r: "represents s h" and l: "length state = state_bytes s"
    and f: "\<forall>x \<in> set h. fst x < frame"
  shows "represents (s\<lparr>latest_state := state, entries := entries s @ [new_entry frame state checksum s],
      spare_entries := spare\<rparr>) (h @ [(frame, state, checksum)])"
proof -
  let ?e = "new_entry frame state checksum s" and ?z = "replicate (state_bytes s) 0 :: bytes"
  have e: "se_frame ?e = frame" "se_checksum ?e = checksum"
    "collect_pages (se_checkpoint ?e) state (latest_state s) [0..<page_count (state_bytes s)] =
      (se_page_indices ?e, se_page_bytes ?e)"
    "entries s = [] \<Longrightarrow> se_checkpoint ?e"
    by (auto simp: new_entry_def Let_def split: prod.splits)
  have ch: "chain (state_bytes s) ?z (entries s) h" and lh: "length h = length (entries s)"
    using r chain_length by (auto simp: represents_def)
  have "chain (state_bytes s) (last_state ?z h) [?e] [(frame, state, checksum)]"
  proof (cases "h = []")
    case True
    then show ?thesis
      using e lh l collect_checkpoint [of state ?z _ "latest_state s"] by (simp add: last_state_def)
  next
    case False
    then show ?thesis using e l r by (simp add: last_state_def represents_def)
  qed
  then have "chain (state_bytes s) ?z (entries s @ [?e]) (h @ [(frame, state, checksum)])"
    using ch lh by (simp add: chain_append)
  moreover have "sorted_wrt (<) (map fst (h @ [(frame, state, checksum)]))"
    using r f by (auto simp: represents_def sorted_wrt_append)
  moreover have "se_checkpoint (hd (entries s @ [?e]))"
    using r e(4) by (cases "entries s") (auto simp: represents_def)
  ultimately show ?thesis using r l by (simp add: represents_def)
qed

lemma pop_deltas_dropWhile:
  "fst (pop_deltas interval es spare) = dropWhile (\<lambda>e. \<not> se_checkpoint e) es"
  by (induction interval es spare rule: pop_deltas.induct) simp_all

text \<open>Eviction without the recycled entries.\<close>

lemma evict_fst:
  "fst (evict cap interval es spare) =
     (if length es \<le> cap then es
      else fst (evict cap interval (dropWhile (\<lambda>e. \<not> se_checkpoint e) (tl es))
             (snd (pop_deltas interval (tl es) (retire interval (hd es) spare)))))"
proof (cases es)
  case (Cons e es')
  then show ?thesis
    using pop_deltas_dropWhile [of interval es' "retire interval e spare"]
    by (cases "pop_deltas interval es' (retire interval e spare)") auto
qed simp

lemma evict_one_group:
  "cap < length es \<Longrightarrow> dropWhile (\<lambda>e. \<not> se_checkpoint e) (tl es) = es' \<Longrightarrow> length es' \<le> cap \<Longrightarrow>
     fst (evict cap interval es spare) = es'"
  by (simp add: evict_fst [of cap interval es] evict_fst [of cap interval es'])

lemma evict_suffix:
  "es = [] \<or> se_checkpoint (hd es) \<Longrightarrow>
   \<exists>k. fst (evict cap interval es spare) = drop k es \<and> length (drop k es) \<le> cap \<and>
     (drop k es = [] \<or> se_checkpoint (hd (drop k es)))"
proof (induction "length es" arbitrary: es spare rule: less_induct)
  case less
  show ?case
  proof (cases "length es \<le> cap")
    case True
    then show ?thesis using less.prems by (intro exI [of _ 0]) (simp add: evict_fst [of cap interval es])
  next
    case False
    let ?es = "dropWhile (\<lambda>e. \<not> se_checkpoint e) (tl es)"
    let ?j = "Suc (length (takeWhile (\<lambda>e. \<not> se_checkpoint e) (tl es)))"
    have j: "?es = drop ?j es" by (cases es) (auto simp: dropWhile_eq_drop)
    have "?es = [] \<or> se_checkpoint (hd ?es)" using hd_dropWhile [of "\<lambda>e. \<not> se_checkpoint e" "tl es"] by auto
    moreover have "length ?es < length es" using False j by (cases es) (auto simp: less_Suc_eq_le)
    ultimately obtain k where "fst (evict cap interval ?es
          (snd (pop_deltas interval (tl es) (retire interval (hd es) spare)))) = drop k ?es"
        "length (drop k ?es) \<le> cap" "drop k ?es = [] \<or> se_checkpoint (hd (drop k ?es))"
      using less.hyps by blast
    then show ?thesis
      using False by (intro exI [of _ "k + ?j"]) (simp add: evict_fst [of cap interval es] j add.commute)
  qed
qed

lemma represents_suffix:
  assumes "represents s h" "drop k (entries s) = [] \<or> se_checkpoint (hd (drop k (entries s)))"
  shows "represents (s\<lparr>entries := drop k (entries s), spare_entries := spare\<rparr>) (drop k h)"
proof -
  have lh: "length h = length (entries s)" using assms(1) chain_length by (auto simp: represents_def)
  have "chain (state_bytes s) (replicate (state_bytes s) 0) (take k (entries s) @ drop k (entries s)) h"
    using assms(1) by (simp add: represents_def)
  then obtain prev where "chain (state_bytes s) prev (drop k (entries s)) (drop (min (length h) k) h)"
    unfolding chain_append using lh by auto
  moreover have "drop (min (length h) k) h = drop k h" by (simp add: min_def)
  ultimately have "chain (state_bytes s) (replicate (state_bytes s) 0) (drop k (entries s)) (drop k h)"
    using assms(2) by (auto intro: chain_checkpoint)
  then show ?thesis
    using assms by (auto simp: represents_def drop_map [symmetric] intro: sorted_wrt_drop)
qed

definition store_accepts :: "RollbackStateStore \<Rightarrow> bytes \<Rightarrow> bool" where
  "store_accepts s state \<longleftrightarrow> length state = state_bytes s \<and> state_bytes s \<noteq> 0 \<and> capacity s \<noteq> 0 \<and>
     checkpoint_interval s \<noteq> 0"

lemma store_params [simp]:
  "state_bytes (store_discard_after f s) = state_bytes s" "capacity (store_discard_after f s) = capacity s"
  "checkpoint_interval (store_discard_after f s) = checkpoint_interval s"
  "state_bytes (store_clear s) = state_bytes s" "capacity (store_clear s) = capacity s"
  "checkpoint_interval (store_clear s) = checkpoint_interval s"
  by (auto simp: store_discard_after_def store_clear_def Let_def split: prod.splits)

lemma represents_length: "represents s h \<Longrightarrow> length h = length (entries s)"
  by (auto simp: represents_def dest: chain_length)

lemma represents_sorted: "represents s h \<Longrightarrow> sorted_wrt (<) (map fst h)"
  by (simp add: represents_def)

lemma takeWhile_False: "takeWhile (\<lambda>x. False) h = []"
  by (cases h) simp_all

lemma represents_before_save:
  assumes "represents s h"
  shows "represents (before_save frame s) (takeWhile (\<lambda>x. fst x < frame) h)"
proof -
  have le: "x \<le> frame - 1 \<longleftrightarrow> x < frame" if "frame \<noteq> 0" for x :: u32
    using that by (simp add: word_le_nat_alt word_less_nat_alt unat_minus_one) (metis le_simps(2) Suc_pred unat_gt_0)
  have fr: "map se_frame (entries s) = map fst h"
    using assms chain_frames by (auto simp: represents_def)
  show ?thesis
  proof (cases "entries s \<noteq> [] \<and> frame \<le> se_frame (last (entries s))")
    case True
    then show ?thesis
      using discard_represents [OF assms, of "frame - 1"] discard_represents [OF assms, of 0]
        takeWhile_False [of h]
      by (cases "frame = 0") (auto simp: before_save_def le intro: clear_represents)
  next
    case False
    have "takeWhile (\<lambda>x. fst x < frame) h = h"
    proof (cases "h = []")
      case nonempty: False
      have "entries s \<noteq> []" using nonempty fr by auto
      then have "se_frame (last (entries s)) = fst (last h)"
        using fr nonempty by (metis last_map)
      then have "fst (last h) < frame" using False \<open>entries s \<noteq> []\<close> by simp
      moreover have "fst x \<le> fst (last h)" if "x \<in> set h" for x
        using that represents_sorted [OF assms]
        by (cases h rule: rev_cases) (auto simp: sorted_wrt_append intro: less_imp_le)
      ultimately show ?thesis by (auto simp: takeWhile_eq_all_conv intro: le_less_trans)
    qed simp
    moreover have "before_save frame s = s" using False by (auto simp: before_save_def)
    ultimately show ?thesis using assms by (simp only:)
  qed
qed

lemma before_save_params [simp]:
  "state_bytes (before_save f s) = state_bytes s" "capacity (before_save f s) = capacity s"
  "checkpoint_interval (before_save f s) = checkpoint_interval s"
  by (simp_all add: before_save_def Let_def)

text \<open>The history a save leaves: the earlier frames, the saved one, less what is evicted.\<close>

definition saved_history :: "u32 \<Rightarrow> saved \<Rightarrow> history \<Rightarrow> history" where
  "saved_history frame v h = takeWhile (\<lambda>x. fst x < frame) h @ [(frame, v)]"

definition appended :: "u32 \<Rightarrow> bytes \<Rightarrow> u64 \<Rightarrow> RollbackStateStore \<Rightarrow> StoreEntry list" where
  "appended frame state checksum s =
     (let s1 = before_save frame s in entries s1 @ [new_entry frame state checksum s1])"

lemma new_entry_spare [simp]:
  "new_entry frame state checksum (s\<lparr>spare_entries := spare\<rparr>) = new_entry frame state checksum s"
  by (simp add: new_entry_def)

lemma represents_spare: "represents (s\<lparr>spare_entries := spare\<rparr>) h = represents s h"
  by (simp add: represents_def)

lemma store_save_represents:
  assumes r: "represents s h" and a: "store_accepts s state"
  shows "\<exists>k spare. represents (snd (store_save frame state checksum s))
      (drop k (saved_history frame (state, checksum) h)) \<and>
    entries (snd (store_save frame state checksum s)) = drop k (appended frame state checksum s) \<and>
    drop k (appended frame state checksum s) =
      fst (evict (capacity s) (checkpoint_interval s) (appended frame state checksum s) spare) \<and>
    length (drop k (appended frame state checksum s)) \<le> capacity s"
proof -
  define s1 where "s1 = before_save frame s"
  let ?es = "appended frame state checksum s" and ?h = "saved_history frame (state, checksum) h"
  define sp where "sp = butlast (spare_entries s1)"
  define s3 where "s3 = s1\<lparr>latest_state := state, entries := ?es, spare_entries := sp\<rparr>"
  have es: "?es = entries s1 @ [new_entry frame state checksum s1]" by (simp add: appended_def s1_def Let_def)
  have r1: "represents s1 (takeWhile (\<lambda>x. fst x < frame) h)"
    unfolding s1_def by (rule represents_before_save [OF r])
  have r3: "represents s3 ?h"
    unfolding s3_def es saved_history_def
    using a by (intro push_represents [OF r1]) (auto simp: store_accepts_def s1_def dest: set_takeWhileD)
  then have "?es = [] \<or> se_checkpoint (hd ?es)" by (simp add: represents_def s3_def)
  from evict_suffix [OF this, of "capacity s" "checkpoint_interval s" sp]
  obtain k where k: "fst (evict (capacity s) (checkpoint_interval s) ?es sp) = drop k ?es"
    "length (drop k ?es) \<le> capacity s" "drop k ?es = [] \<or> se_checkpoint (hd (drop k ?es))"
    by blast
  obtain sp' where ev: "evict (capacity s) (checkpoint_interval s) ?es sp = (drop k ?es, sp')"
    using k(1) by (cases "evict (capacity s) (checkpoint_interval s) ?es sp") simp
  have sv: "store_save frame state checksum s = (True, s3\<lparr>entries := drop k ?es, spare_entries := sp'\<rparr>)"
  proof -
    define es where "es = drop k ?es"
    have par: "capacity s1 = capacity s" "checkpoint_interval s1 = checkpoint_interval s"
      by (simp_all add: s1_def)
    have "\<not> (es \<noteq> [] \<and> \<not> se_checkpoint (hd es))" using k(3) by (auto simp: es_def)
    moreover have "evict (capacity s) (checkpoint_interval s)
        (entries s1 @ [new_entry frame state checksum s1]) (butlast (spare_entries s1)) = (es, sp')"
      using ev es by (simp only: es_def sp_def)
    moreover have "drop k (entries s1 @ [new_entry frame state checksum s1]) = es"
      using es by (simp only: es_def)
    ultimately show ?thesis
      using a par es
      by (simp add: store_save_def store_accepts_def Let_def s1_def [symmetric] s3_def
          ensure_front_is_checkpoint_def del: drop_append) blast
  qed
  have "represents (s3\<lparr>entries := drop k ?es, spare_entries := sp'\<rparr>) (drop k ?h)"
    using represents_suffix [OF r3, of k sp'] k(3) by (simp add: s3_def)
  then show ?thesis
    unfolding sv using k(1,2) by (intro exI [of _ k] exI [of _ sp] conjI) simp_all
qed

lemma lookup_mem: "sorted_wrt (<) (map fst h) \<Longrightarrow> lookup h f = Some v \<longleftrightarrow> (f, v) \<in> set h"
  unfolding lookup_def by (rule map_of_eq_Some_iff) (auto simp: strict_sorted_iff)

definition store_inv :: "RollbackStateStore \<Rightarrow> bool" where
  "store_inv s \<longleftrightarrow> (\<exists>h. represents s h)"

interpretation store: frame_store store_save "\<lambda>f s. store_load f (state_bytes s) s" store_inv
  store_accepts
proof
  show "store_inv (snd (store_save f st c s))" if "store_inv s" for s f st c
  proof (cases "store_accepts s st")
    case True
    then show ?thesis using that store_save_represents by (fastforce simp: store_inv_def)
  next
    case False
    then show ?thesis using that by (auto simp: store_save_def store_accepts_def)
  qed
  show "fst (store_save f st c s) = store_accepts s st" if "store_inv s" for s f st c
    by (auto simp: store_save_def store_accepts_def Let_def split: prod.splits)
  show "store_accepts (snd (store_save f st c s)) = store_accepts s" if "store_inv s" for s f st c
    by (auto simp: store_save_def store_accepts_def Let_def ensure_front_is_checkpoint_def fun_eq_iff
        split: prod.splits)
  show "snd (store_save f st c s) = s" if "store_inv s" "\<not> store_accepts s st" for s f st c
    using that by (auto simp: store_save_def store_accepts_def)
  show "if g = f then v = (st, c) else store_load g (state_bytes s) s = Some v"
    if i: "store_inv s" "store_accepts s st" and
      l: "store_load g (state_bytes (snd (store_save f st c s))) (snd (store_save f st c s)) = Some v"
    for s st g f c v
  proof -
    obtain h where h: "represents s h" using i by (auto simp: store_inv_def)
    from store_save_represents [OF h i(2), of f c] obtain k where
      r: "represents (snd (store_save f st c s)) (drop k (saved_history f (st, c) h))" by blast
    then have "(g, v) \<in> set (drop k (saved_history f (st, c) h))"
      using l store_load_lookup [OF r] lookup_mem [OF represents_sorted [OF r]] by simp
    then have "(g, v) \<in> set (takeWhile (\<lambda>x. fst x < f) h @ [(f, st, c)])"
      unfolding saved_history_def by (rule in_set_dropD)
    then have "(g, v) = (f, st, c) \<or> (g, v) \<in> set h \<and> g < f" by (auto dest: set_takeWhileD)
    then show ?thesis
      using store_load_lookup [OF h] lookup_mem [OF represents_sorted [OF h]] by auto
  qed
qed

lemma store_save_params:
  "state_bytes (snd (store_save f st c s)) = state_bytes s"
  "capacity (snd (store_save f st c s)) = capacity s"
  "checkpoint_interval (snd (store_save f st c s)) = checkpoint_interval s"
  by (auto simp: store_save_def Let_def ensure_front_is_checkpoint_def split: prod.splits)

subsection \<open>How far back the store reaches\<close>

text \<open>
  Under consecutive frames a checkpoint comes at least every \<open>checkpoint_interval\<close> frames, so
  that eviction never takes more than that many at once.
\<close>

definition regular :: "nat \<Rightarrow> RollbackStateStore \<Rightarrow> history \<Rightarrow> bool" where
  "regular a s h \<longleftrightarrow> represents s h \<and> a + length h \<le> 2 ^ 32 \<and>
     map fst h = map of_nat [a..<a + length h] \<and>
     (\<forall>i. 0 < i \<longrightarrow> i < length h \<longrightarrow>
        (se_checkpoint (entries s ! i) \<longleftrightarrow> (a + i) mod checkpoint_interval s = 0))"

lemma regular_next:
  assumes "regular a s h" "a + length h < 2 ^ 32"
  shows "takeWhile (\<lambda>x. fst x < of_nat (a + length h)) h = h" "before_save (of_nat (a + length h)) s = s"
proof -
  have fr: "fst (h ! i) = of_nat (a + i)" if "i < length h" for i
    using assms(1) that nth_map [OF that, of fst] by (simp add: regular_def)
  have lt: "fst x < of_nat (a + length h)" if "x \<in> set h" for x
    using that fr assms(2)
    by (auto simp: in_set_conv_nth word_less_nat_alt unat_frame simp del: of_nat_add)
  then show t: "takeWhile (\<lambda>x. fst x < of_nat (a + length h)) h = h"
    by (auto simp: takeWhile_eq_all_conv)
  have m: "map se_frame (entries s) = map fst h"
    using assms(1) chain_frames by (auto simp: regular_def represents_def)
  have "se_frame (last (entries s)) < of_nat (a + length h)" if "entries s \<noteq> []"
  proof -
    have "se_frame (last (entries s)) \<in> set (map fst h)" using that m by (metis last_in_set last_map map_is_Nil_conv)
    then show ?thesis using lt by auto
  qed
  then show "before_save (of_nat (a + length h)) s = s" by (auto simp: before_save_def)
qed

text \<open>The length of the front group: the next multiple of the interval ends it.\<close>

lemma next_multiple:
  fixes a m :: nat
  assumes "0 < m"
  shows "\<exists>j. 0 < j \<and> j \<le> m \<and> (a + j) mod m = 0"
proof (intro exI conjI)
  show "0 < m - a mod m" using assms by simp
  show "m - a mod m \<le> m" by simp
  have "a + (m - a mod m) = a div m * m + m"
    using assms mod_less_divisor [OF assms, of a] div_mult_mod_eq [of a m] by linarith
  then show "(a + (m - a mod m)) mod m = 0" by simp
qed

lemma front_group:
  assumes "0 < m" "m < length es"
    and "\<forall>i. 0 < i \<longrightarrow> i < length es \<longrightarrow> (se_checkpoint (es ! i) \<longleftrightarrow> (a + i) mod m = 0)"
  shows "\<exists>k. 0 < k \<and> k \<le> m \<and> dropWhile (\<lambda>e. \<not> se_checkpoint e) (tl es) = drop k es"
proof -
  from next_multiple [OF assms(1), of a]
  obtain j where j: "0 < j" "j \<le> m" "(a + j) mod m = 0" by (elim exE conjE) (rule that)
  let ?w = "takeWhile (\<lambda>e. \<not> se_checkpoint e) (tl es)"
  have "se_checkpoint (tl es ! (j - 1))" using j assms(2,3) by (simp add: nth_tl)
  have "length ?w \<le> j - 1"
  proof (rule ccontr)
    assume "\<not> length ?w \<le> j - 1"
    then have l: "j - 1 < length ?w" by simp
    then have "?w ! (j - 1) \<in> set ?w" by (rule nth_mem)
    from set_takeWhileD [OF this] have "\<not> se_checkpoint (?w ! (j - 1))" by (rule conjunct2)
    then show False using takeWhile_nth [OF l] \<open>se_checkpoint (tl es ! (j - 1))\<close> by simp
  qed
  then have "Suc (length ?w) \<le> m" using j by linarith
  moreover have "dropWhile (\<lambda>e. \<not> se_checkpoint e) (tl es) = drop (Suc (length ?w)) es"
    by (simp add: dropWhile_eq_drop drop_Suc)
  ultimately show ?thesis by blast
qed

lemma save_regular:
  assumes reg: "regular a s h" and acc: "store_accepts s state"
    and cap: "checkpoint_interval s \<le> capacity s" "length h \<le> capacity s"
    and f: "a + length h < 2 ^ 32"
  shows "\<exists>k. regular (a + k) (snd (store_save (of_nat (a + length h)) state checksum s))
      (drop k (h @ [(of_nat (a + length h), state, checksum)])) \<and>
    k \<le> length h + 1 \<and> (k = 0 \<or> capacity s + 1 \<le> checkpoint_interval s + (length h + 1 - k)) \<and>
    length h + 1 - k \<le> capacity s"
proof -
  let ?f = "of_nat (a + length h) :: u32" and ?m = "checkpoint_interval s"
  let ?es = "appended ?f state checksum s" and ?h = "h @ [(of_nat (a + length h), state, checksum)]"
  have r: "represents s h" using reg by (simp add: regular_def)
  have lh: "length (entries s) = length h" using represents_length [OF r] by simp
  have es: "?es = entries s @ [new_entry ?f state checksum s]" "saved_history ?f (state, checksum) h = ?h"
    using regular_next [OF reg f] by (simp_all add: appended_def saved_history_def)
  obtain k spare where k: "represents (snd (store_save ?f state checksum s)) (drop k ?h)"
    "entries (snd (store_save ?f state checksum s)) = drop k ?es"
    "drop k ?es = fst (evict (capacity s) ?m ?es spare)" "length (drop k ?es) \<le> capacity s"
    using store_save_represents [OF r acc, of ?f checksum] unfolding es(2) by blast
  have ck: "\<forall>i. 0 < i \<longrightarrow> i < length ?es \<longrightarrow> (se_checkpoint (?es ! i) \<longleftrightarrow> (a + i) mod ?m = 0)"
  proof (intro allI impI)
    fix i assume i: "0 < i" "i < length ?es"
    show "se_checkpoint (?es ! i) \<longleftrightarrow> (a + i) mod ?m = 0"
    proof (cases "i < length h")
      case True
      then show ?thesis using i reg lh by (simp add: es nth_append regular_def del: of_nat_add)
    next
      case False
      then have "i = length h" using i lh by (simp add: es del: of_nat_add)
      moreover from this have "entries s \<noteq> []" using i lh by auto
      moreover have "unat ?f = a + length h" using f by (rule unat_frame)
      ultimately show ?thesis
        using lh by (simp add: es nth_append new_entry_def Let_def split: prod.splits del: of_nat_add)
    qed
  qed
  have m: "0 < ?m" using acc by (simp add: store_accepts_def)
  have les: "length ?es = length h + 1" using lh by (simp add: es del: of_nat_add)
  have drop: "\<exists>k'. drop k ?es = drop k' ?es \<and> k' \<le> length h + 1 \<and>
      (k' = 0 \<or> capacity s + 1 \<le> ?m + (length h + 1 - k'))"
  proof (cases "length ?es \<le> capacity s")
    case True
    then show ?thesis using k(3) evict_fst [of "capacity s" ?m ?es spare] by (intro exI [of _ 0]) simp
  next
    case False
    then have "?m < length ?es" using cap by simp
    from front_group [OF m this ck] obtain j where j: "0 < j" "j \<le> ?m"
      "dropWhile (\<lambda>e. \<not> se_checkpoint e) (tl ?es) = drop j ?es" by blast
    have "length (drop j ?es) \<le> capacity s" using j(1) cap(2) les by simp
    then have "drop k ?es = drop j ?es"
      unfolding k(3) using False j(3) by (intro evict_one_group) auto
    moreover have "capacity s + 1 \<le> ?m + (length h + 1 - j)" "j \<le> length h + 1"
      using False j(2) les cap by auto
    ultimately show ?thesis by blast
  qed
  then obtain k' where k': "drop k ?es = drop k' ?es" "k' \<le> length h + 1"
    "k' = 0 \<or> capacity s + 1 \<le> ?m + (length h + 1 - k')" by blast
  have "length (drop k ?es) = length (drop k' ?es)" using k'(1) by simp
  then have "min k (length h + 1) = k'" using les k'(2) by auto
  then have "drop k ?h = drop k' ?h" by (cases "k \<le> length h + 1") auto
  moreover have "regular (a + k') (snd (store_save ?f state checksum s)) (drop k' ?h)"
    unfolding regular_def
  proof (intro conjI allI impI)
    have mf: "map fst ?h = map of_nat [a..<a + length ?h]" using reg by (simp add: regular_def)
    have e: "a + k' + length (drop k' ?h) = a + length ?h" using k'(2) by simp
    show "represents (snd (store_save ?f state checksum s)) (drop k' ?h)"
      using k(1) \<open>drop k ?h = drop k' ?h\<close> by (simp only:)
    show "a + k' + length (drop k' ?h) \<le> 2 ^ 32" using f k'(2) by simp
    show "map fst (drop k' ?h) = map of_nat [a + k'..<a + k' + length (drop k' ?h)]"
      unfolding drop_map [symmetric] mf e by (simp only: drop_map drop_upt)
    fix i assume "0 < i" "i < length (drop k' ?h)"
    then show "se_checkpoint (entries (snd (store_save ?f state checksum s)) ! i) \<longleftrightarrow>
        (a + k' + i) mod checkpoint_interval (snd (store_save ?f state checksum s)) = 0"
      using ck k(2) k'(1,2) les by (simp add: store_save_params add.assoc del: of_nat_add)
  qed
  moreover have "length h + 1 - k' \<le> capacity s" using k(4) unfolding k'(1) length_drop les .
  ultimately show ?thesis using k'(2,3) by (intro exI [of _ k'] conjI)
qed

definition tagged :: "nat \<Rightarrow> saved list \<Rightarrow> history" where
  "tagged first xs = zip (map of_nat [first..<first + length xs]) xs"

lemma tagged_snoc: "tagged first (xs @ [x]) = tagged first xs @ [(of_nat (first + length xs), x)]"
  by (simp add: tagged_def)

lemma save_frames_params:
  "state_bytes (save_frames store_save first xs s) = state_bytes s"
  "capacity (save_frames store_save first xs s) = capacity s"
  "checkpoint_interval (save_frames store_save first xs s) = checkpoint_interval s"
  by (induction store_save first xs s rule: save_frames.induct) (simp_all add: store_save_params)

lemma save_frames_regular:
  assumes n: "0 < n" "page_count n \<le> 2 ^ 32" and m: "0 < m" "m \<le> cap"
    and xs: "\<forall>(st, c) \<in> set xs. length st = n" "first + length xs \<le> 2 ^ 32"
  shows "\<exists>k. regular (first + k) (save_frames store_save first xs (new_store n cap m))
      (drop k (tagged first xs)) \<and>
    k \<le> length xs \<and> (k = 0 \<or> cap + 1 \<le> m + (length xs - k)) \<and> length xs - k \<le> cap"
  using xs
proof (induction xs rule: rev_induct)
  case Nil
  then show ?case using n by (auto simp: regular_def represents_new tagged_def)
next
  case (snoc x xs)
  obtain st c where x: "x = (st, c)" by force
  let ?s = "save_frames store_save first xs (new_store n cap m)"
  obtain k where k: "regular (first + k) ?s (drop k (tagged first xs))" "k \<le> length xs"
      "k = 0 \<or> cap + 1 \<le> m + (length xs - k)" "length xs - k \<le> cap"
    using snoc by auto
  let ?h = "drop k (tagged first xs)"
  have lt: "length ?h = length xs - k" by (simp add: tagged_def)
  have f: "first + k + length ?h = first + length xs" using lt k(2) by simp
  have par: "state_bytes ?s = n" "capacity ?s = cap" "checkpoint_interval ?s = m"
    by (simp_all add: save_frames_params) (simp_all add: new_store_def)
  have acc: "store_accepts ?s st"
    using par n m snoc.prems by (simp add: store_accepts_def x)
  have c': "checkpoint_interval ?s \<le> capacity ?s" "length ?h \<le> capacity ?s"
      "first + k + length ?h < 2 ^ 32"
    unfolding par f using m lt k snoc.prems by auto
  obtain j where j: "regular (first + k + j) (snd (store_save (of_nat (first + length xs)) st c ?s))
      (drop j (?h @ [(of_nat (first + length xs), st, c)]))" "j \<le> length ?h + 1"
      "j = 0 \<or> cap + 1 \<le> m + (length ?h + 1 - j)" "length ?h + 1 - j \<le> cap"
    using save_regular [OF k(1) acc c', of c, unfolded f par] by blast
  have "drop j (?h @ [(of_nat (first + length xs), st, c)]) = drop (k + j) (tagged first (xs @ [x]))"
    using k(2) by (simp add: tagged_snoc x tagged_def add.commute)
  then show ?case
    using j lt k(2,3) m
    by (intro exI [of _ "k + j"]) (auto simp: save_frames_snoc x add.assoc)
qed

lemma store_retains:
  assumes n: "0 < n" "page_count n \<le> 2 ^ 32" and m: "0 < m" "m \<le> cap"
    and xs: "\<forall>(st, c) \<in> set xs. length st = n" "first + length xs \<le> 2 ^ 32"
    and i: "i < length xs" "length xs \<le> i + (cap + 1 - m)"
  shows "store_load (of_nat (first + i)) n (save_frames store_save first xs (new_store n cap m)) =
    Some (xs ! i)"
proof -
  let ?s = "save_frames store_save first xs (new_store n cap m)"
  obtain k where k: "regular (first + k) ?s (drop k (tagged first xs))"
    "k = 0 \<or> cap + 1 \<le> m + (length xs - k)" "k \<le> length xs"
    using save_frames_regular [OF n m xs] by blast
  then have "k \<le> i" using i by linarith
  have r: "represents ?s (drop k (tagged first xs))" using k(1) by (simp add: regular_def)
  have "tagged first xs ! i = (of_nat (first + i), xs ! i)"
    using i by (simp add: tagged_def)
  then have "(of_nat (first + i), xs ! i) \<in> set (drop k (tagged first xs))"
    using \<open>k \<le> i\<close> i by (auto simp: in_set_conv_nth tagged_def intro!: exI [of _ "i - k"])
  then have "lookup (drop k (tagged first xs)) (of_nat (first + i)) = Some (xs ! i)"
    using lookup_mem [OF represents_sorted [OF r]] by blast
  then show ?thesis
    using store_load_lookup [OF r] by (simp add: save_frames_params new_store_def)
qed

end
