(* ===== verification/Input_Timeline.thy ===== *)
theory Input_Timeline
  imports Netplay_Types
begin

section \<open>The input timeline\<close>

text \<open>
  Models \<^verbatim>\<open>netplay_timeline.cpp\<close>: a direct-mapped ring of frames with the inputs of the
  four players, which of them have arrived and which are predictions. A reference to an
  entry of the ring is its index; a write through it updates the list.
\<close>

subsection \<open>Model\<close>

record TimelineEntry =
  te_frame :: u32
  te_inputs :: FrameInputs
  te_present :: "bool list"
  te_predicted :: "bool list"
  te_valid :: bool

record InputTimeline =
  tl_entries :: "TimelineEntry list"
  tl_newest_frame :: u32

definition empty_entry :: TimelineEntry where
  "empty_entry = \<lparr>te_frame = 0, te_inputs = replicate kMaximumPlayers no_input,
     te_present = replicate kMaximumPlayers False,
     te_predicted = replicate kMaximumPlayers False, te_valid = False\<rparr>"

definition new_timeline :: "nat \<Rightarrow> InputTimeline" where
  "new_timeline cap = \<lparr>tl_entries = replicate (max cap 32) empty_entry, tl_newest_frame = 0\<rparr>"

definition timeline_reset :: "u32 \<Rightarrow> InputTimeline \<Rightarrow> InputTimeline" where
  "timeline_reset frame t =
     \<lparr>tl_entries = replicate (length (tl_entries t)) empty_entry, tl_newest_frame = frame\<rparr>"

definition entry_index :: "u32 \<Rightarrow> InputTimeline \<Rightarrow> nat" where
  "entry_index frame t = unat frame mod length (tl_entries t)"

text \<open>\<^verbatim>\<open>entry\<close>: claim the slot of a frame, forgetting another frame that held it.\<close>

definition claim_entry :: "u32 \<Rightarrow> InputTimeline \<Rightarrow> InputTimeline" where
  "claim_entry frame t =
     (let current = tl_entries t ! entry_index frame t in
      if \<not> te_valid current \<or> te_frame current \<noteq> frame
      then t\<lparr>tl_entries := (tl_entries t)[entry_index frame t :=
             empty_entry\<lparr>te_valid := True, te_frame := frame\<rparr>]\<rparr>
      else t)"

definition current_entry :: "u32 \<Rightarrow> InputTimeline \<Rightarrow> TimelineEntry" where
  "current_entry frame t = tl_entries t ! entry_index frame t"

definition write_entry :: "u32 \<Rightarrow> TimelineEntry \<Rightarrow> InputTimeline \<Rightarrow> InputTimeline" where
  "write_entry frame e t = t\<lparr>tl_entries := (tl_entries t)[entry_index frame t := e]\<rparr>"

definition find_entry :: "u32 \<Rightarrow> InputTimeline \<Rightarrow> TimelineEntry option" where
  "find_entry frame t =
     (let current = current_entry frame t in
      if te_valid current \<and> te_frame current = frame then Some current else None)"

definition arrive :: "nat \<Rightarrow> PackedInput \<Rightarrow> TimelineEntry \<Rightarrow> TimelineEntry" where
  "arrive slot input e =
     e\<lparr>te_inputs := (te_inputs e)[slot := input], te_present := (te_present e)[slot := True],
       te_predicted := (te_predicted e)[slot := False]\<rparr>"

definition touch :: "u32 \<Rightarrow> InputTimeline \<Rightarrow> InputTimeline" where
  "touch frame t = t\<lparr>tl_newest_frame := max (tl_newest_frame t) frame\<rparr>"

definition set_local :: "u8 \<Rightarrow> u32 \<Rightarrow> PackedInput \<Rightarrow> InputTimeline \<Rightarrow> bool \<times> InputTimeline" where
  "set_local slot frame input t =
     (if kMaximumPlayers \<le> unat slot then (False, t)
      else let t1 = claim_entry frame t in
        (True, touch frame (write_entry frame (arrive (unat slot) input (current_entry frame t1)) t1)))"

definition set_remote ::
  "u8 \<Rightarrow> u32 \<Rightarrow> PackedInput \<Rightarrow> InputTimeline \<Rightarrow> u32 option \<times> InputTimeline" where
  "set_remote slot frame input t =
     (if kMaximumPlayers \<le> unat slot then (None, t)
      else let t1 = claim_entry frame t; current = current_entry frame t1;
               mismatch = te_predicted current ! unat slot \<and> te_inputs current ! unat slot \<noteq> input in
        (if mismatch then Some frame else None,
         touch frame (write_entry frame (arrive (unat slot) input current) t1)))"

text \<open>The loop of \<^verbatim>\<open>previous\<close> from a distance on; \<open>n\<close> distances are left.\<close>

fun previous_from :: "nat \<Rightarrow> nat \<Rightarrow> nat \<Rightarrow> u32 \<Rightarrow> InputTimeline \<Rightarrow> PackedInput" where
  "previous_from 0 distance slot frame t = no_input"
| "previous_from (Suc n) distance slot frame t =
     (case find_entry (frame - of_nat distance) t of
        Some candidate \<Rightarrow>
          if te_present candidate ! slot then te_inputs candidate ! slot
          else previous_from n (Suc distance) slot frame t
      | None \<Rightarrow> previous_from n (Suc distance) slot frame t)"

definition previous :: "nat \<Rightarrow> u32 \<Rightarrow> InputTimeline \<Rightarrow> PackedInput" where
  "previous slot frame t =
     previous_from (min (unat frame) (length (tl_entries t))) 1 slot frame t"

definition predict_slot :: "u32 \<Rightarrow> nat \<Rightarrow> InputTimeline \<Rightarrow> InputTimeline" where
  "predict_slot frame slot t =
     (let current = current_entry frame t in
      if \<not> te_present current ! slot
      then write_entry frame
             (current\<lparr>te_inputs := (te_inputs current)[slot := previous slot frame t],
                      te_predicted := (te_predicted current)[slot := True]\<rparr>) t
      else t)"

definition inputs_for :: "u32 \<Rightarrow> InputTimeline \<Rightarrow> FrameInputs \<times> InputTimeline" where
  "inputs_for frame t =
     (let t1 = fold (predict_slot frame) [0..<kMaximumPlayers] (claim_entry frame t);
          t2 = touch frame t1
      in (te_inputs (current_entry frame t2), t2))"

definition slot_bit :: "nat \<Rightarrow> u8" where
  "slot_bit slot = push_bit slot 1"

definition predicted_mask :: "u32 \<Rightarrow> u8 \<Rightarrow> InputTimeline \<Rightarrow> u8" where
  "predicted_mask frame occupied_mask t =
     (case find_entry frame t of
        None \<Rightarrow> occupied_mask AND 0x0F
      | Some current \<Rightarrow>
          foldl (\<lambda>mask slot.
              if occupied_mask AND slot_bit slot \<noteq> 0 \<and> te_predicted current ! slot
              then mask OR slot_bit slot else mask) 0 [0..<kMaximumPlayers])"

definition confirmed :: "u32 \<Rightarrow> u8 \<Rightarrow> InputTimeline \<Rightarrow> bool" where
  "confirmed frame player_count t =
     (case find_entry frame t of
        None \<Rightarrow> False
      | Some current \<Rightarrow>
          if player_count < 1 \<or> unat player_count > kMaximumPlayers then False
          else list_all (\<lambda>slot. te_present current ! slot \<and> \<not> te_predicted current ! slot)
                 [0..<unat player_count])"

definition confirmed_mask :: "u32 \<Rightarrow> u8 \<Rightarrow> InputTimeline \<Rightarrow> bool" where
  "confirmed_mask frame occupied_mask t =
     (let occupied = occupied_mask AND 0x0F in
      case find_entry frame t of
        None \<Rightarrow> False
      | Some current \<Rightarrow>
          if occupied = 0 then False
          else list_all (\<lambda>slot. \<not> (occupied AND slot_bit slot \<noteq> 0 \<and>
                 (\<not> te_present current ! slot \<or> te_predicted current ! slot))) [0..<kMaximumPlayers])"

definition slot_confirmed :: "u8 \<Rightarrow> u32 \<Rightarrow> InputTimeline \<Rightarrow> bool" where
  "slot_confirmed slot frame t =
     (if kMaximumPlayers \<le> unat slot then False
      else case find_entry frame t of
        None \<Rightarrow> False
      | Some current \<Rightarrow> te_present current ! unat slot \<and> \<not> te_predicted current ! unat slot)"

fun runway_from :: "nat \<Rightarrow> nat \<Rightarrow> u32 \<Rightarrow> u8 \<Rightarrow> InputTimeline \<Rightarrow> nat" where
  "runway_from 0 distance frame occupied_mask t = 0"
| "runway_from (Suc n) distance frame occupied_mask t =
     (if confirmed_mask (frame - of_nat distance) occupied_mask t then 0
      else Suc (runway_from n (Suc distance) frame occupied_mask t))"

definition unconfirmed_runway :: "u32 \<Rightarrow> u8 \<Rightarrow> InputTimeline \<Rightarrow> u32" where
  "unconfirmed_runway frame occupied_mask t =
     of_nat (runway_from (min (length (tl_entries t)) (unat frame + 1)) 0 frame occupied_mask t)"

subsection \<open>The invariant\<close>

definition entry_ok :: "TimelineEntry \<Rightarrow> bool" where
  "entry_ok e \<longleftrightarrow>
     length (te_inputs e) = kMaximumPlayers \<and> length (te_present e) = kMaximumPlayers \<and>
     length (te_predicted e) = kMaximumPlayers \<and>
     (\<forall>slot < kMaximumPlayers. \<not> (te_present e ! slot \<and> te_predicted e ! slot))"

text \<open>The ring is as large as a frame number at most: a \<^verbatim>\<open>size_t\<close> of at most 2^32 entries.\<close>

definition timeline_inv :: "InputTimeline \<Rightarrow> bool" where
  "timeline_inv t \<longleftrightarrow>
     32 \<le> length (tl_entries t) \<and> length (tl_entries t) < 2 ^ 32 \<and>
     (\<forall>e \<in> set (tl_entries t). entry_ok e)"

lemma entry_ok_empty [simp]: "entry_ok (empty_entry\<lparr>te_valid := v, te_frame := f\<rparr>)" "entry_ok empty_entry"
  by (simp_all add: entry_ok_def empty_entry_def)

lemma new_timeline_inv: "cap < 2 ^ 32 \<Longrightarrow> timeline_inv (new_timeline cap)"
  by (auto simp: timeline_inv_def new_timeline_def)

lemma reset_inv: "timeline_inv t \<Longrightarrow> timeline_inv (timeline_reset f t)"
  by (auto simp: timeline_inv_def timeline_reset_def)

lemma entry_index_less [simp]: "timeline_inv t \<Longrightarrow> entry_index f t < length (tl_entries t)"
  unfolding timeline_inv_def entry_index_def by (intro mod_less_divisor) linarith

lemma current_entry_ok: "timeline_inv t \<Longrightarrow> entry_ok (current_entry f t)"
  using entry_index_less [of t f] by (simp add: timeline_inv_def current_entry_def)

lemma write_entry_inv: "timeline_inv t \<Longrightarrow> entry_ok e \<Longrightarrow> timeline_inv (write_entry f e t)"
  by (auto simp: timeline_inv_def write_entry_def dest!: set_update_subset_insert [THEN subsetD])

lemma claim_entry_inv: "timeline_inv t \<Longrightarrow> timeline_inv (claim_entry f t)"
  using write_entry_inv [of t "empty_entry\<lparr>te_valid := True, te_frame := f\<rparr>" f]
  by (simp add: claim_entry_def write_entry_def Let_def)

lemma touch_simps [simp]:
  "tl_entries (touch f t) = tl_entries t" "timeline_inv (touch f t) = timeline_inv t"
  "find_entry g (touch f t) = find_entry g t" "current_entry g (touch f t) = current_entry g t"
  by (simp_all add: touch_def timeline_inv_def find_entry_def current_entry_def entry_index_def)

lemma write_entry_simps [simp]:
  "length (tl_entries (write_entry f e t)) = length (tl_entries t)"
  "entry_index g (write_entry f e t) = entry_index g t"
  by (simp_all add: write_entry_def entry_index_def)

lemma claim_entry_simps [simp]:
  "length (tl_entries (claim_entry f t)) = length (tl_entries t)"
  "entry_index g (claim_entry f t) = entry_index g t"
  by (simp_all add: claim_entry_def entry_index_def Let_def)

lemma current_write [simp]: "timeline_inv t \<Longrightarrow> current_entry f (write_entry f e t) = e"
  by (simp add: current_entry_def) (simp add: write_entry_def)

lemma find_write:
  assumes "timeline_inv t" "te_valid e" "te_frame e = f"
  shows "find_entry g (write_entry f e t) =
    (if g = f then Some e else if entry_index g t = entry_index f t then None else find_entry g t)"
proof -
  have "tl_entries (write_entry f e t) = (tl_entries t)[entry_index f t := e]"
    by (simp add: write_entry_def)
  then show ?thesis
    using assms by (auto simp: find_entry_def current_entry_def Let_def nth_list_update)
qed

text \<open>What claiming a slot leaves of the other frames.\<close>

lemma find_claim:
  assumes "timeline_inv t"
  shows "find_entry g (claim_entry f t) =
    (if g = f then Some (case find_entry f t of Some e \<Rightarrow> e
                         | None \<Rightarrow> empty_entry\<lparr>te_valid := True, te_frame := f\<rparr>)
     else if entry_index g t = entry_index f t then None else find_entry g t)"
proof (cases "find_entry f t")
  case None
  then have "claim_entry f t = write_entry f (empty_entry\<lparr>te_valid := True, te_frame := f\<rparr>) t"
    by (auto simp: find_entry_def claim_entry_def write_entry_def current_entry_def Let_def split: if_splits)
  then show ?thesis using find_write [OF assms, of "empty_entry\<lparr>te_valid := True, te_frame := f\<rparr>"] None
    by simp
next
  case (Some e)
  then have "claim_entry f t = t" "te_valid (current_entry f t)" "te_frame (current_entry f t) = f"
    by (auto simp: find_entry_def claim_entry_def current_entry_def Let_def split: if_splits)
  moreover have "find_entry g t = None" if "g \<noteq> f" "entry_index g t = entry_index f t"
    using that calculation by (simp add: find_entry_def current_entry_def Let_def)
  ultimately show ?thesis using Some by auto
qed

subsection \<open>Arriving inputs\<close>

definition entry_or_new :: "u32 \<Rightarrow> InputTimeline \<Rightarrow> TimelineEntry" where
  "entry_or_new f t = (case find_entry f t of Some e \<Rightarrow> e
     | None \<Rightarrow> empty_entry\<lparr>te_valid := True, te_frame := f\<rparr>)"

lemma find_entry_Some:
  "find_entry f t = Some e \<Longrightarrow> te_valid e \<and> te_frame e = f \<and> current_entry f t = e"
  by (auto simp: find_entry_def Let_def split: if_splits)

lemma find_entry_ok: "timeline_inv t \<Longrightarrow> find_entry f t = Some e \<Longrightarrow> entry_ok e"
  using current_entry_ok [of t f] find_entry_Some [of f t e] by auto

lemma entry_or_new_ok: "timeline_inv t \<Longrightarrow> entry_ok (entry_or_new f t)"
  by (auto simp: entry_or_new_def find_entry_ok split: option.splits)

lemma current_claim: "timeline_inv t \<Longrightarrow> current_entry f (claim_entry f t) = entry_or_new f t"
  using find_claim [of t f f] by (auto simp: entry_or_new_def dest: find_entry_Some)

lemma entry_or_new_key [simp]: "te_valid (entry_or_new f t)" "te_frame (entry_or_new f t) = f"
  by (auto simp: entry_or_new_def dest: find_entry_Some split: option.splits)

lemma arrive_key [simp]:
  "te_valid (arrive slot i e) = te_valid e" "te_frame (arrive slot i e) = te_frame e"
  by (simp_all add: arrive_def)

lemma arrive_ok: "entry_ok e \<Longrightarrow> slot < kMaximumPlayers \<Longrightarrow> entry_ok (arrive slot i e)"
  by (auto simp: entry_ok_def arrive_def nth_list_update)

lemma find_put:
  assumes "timeline_inv t" "te_valid e" "te_frame e = f"
  shows "find_entry g (write_entry f e (claim_entry f t)) =
    (if g = f then Some e else if entry_index g t = entry_index f t then None else find_entry g t)"
  using find_write [OF claim_entry_inv [OF assms(1)] assms(2,3)] find_claim [OF assms(1)] by auto

text \<open>Both writers store the input in the entry of the frame; the ring forgets only a frame
  that shares its slot.\<close>

lemma set_local_find:
  assumes "timeline_inv t" "unat slot < kMaximumPlayers"
  shows "find_entry g (snd (set_local slot f i t)) =
    (if g = f then Some (arrive (unat slot) i (entry_or_new f t))
     else if entry_index g t = entry_index f t then None else find_entry g t)"
  using assms find_put [OF assms(1)] by (simp add: set_local_def Let_def current_claim)

lemma set_remote_find:
  assumes "timeline_inv t" "unat slot < kMaximumPlayers"
  shows "find_entry g (snd (set_remote slot f i t)) =
    (if g = f then Some (arrive (unat slot) i (entry_or_new f t))
     else if entry_index g t = entry_index f t then None else find_entry g t)"
  using assms find_put [OF assms(1)] by (simp add: set_remote_def Let_def current_claim)

lemma set_local_inv: "timeline_inv t \<Longrightarrow> timeline_inv (snd (set_local slot f i t))"
  by (simp add: set_local_def Let_def write_entry_inv claim_entry_inv arrive_ok current_entry_ok not_le)

lemma set_remote_inv: "timeline_inv t \<Longrightarrow> timeline_inv (snd (set_remote slot f i t))"
  by (simp add: set_remote_def Let_def write_entry_inv claim_entry_inv arrive_ok current_entry_ok not_le)

lemma entry_index_set [simp]:
  "entry_index g (snd (set_remote slot f i t)) = entry_index g t"
  "entry_index g (snd (set_local slot f i t)) = entry_index g t"
  by (simp_all add: set_remote_def set_local_def Let_def entry_index_def [of g "touch _ _"])
    (simp_all add: entry_index_def)

subsection \<open>Prediction\<close>

lemma frame_minus: "0 < d \<Longrightarrow> d \<le> unat (f :: u32) \<Longrightarrow> f - of_nat d \<noteq> f"
proof -
  assume d: "0 < d" "d \<le> unat f"
  then have "d < 2 ^ 32" using unsigned_less [of f, where 'a = nat] by simp
  then have "unat (of_nat d :: u32) = d" by (rule unat_frame)
  then have "(of_nat d :: u32) \<noteq> 0" using d by auto
  then show "f - of_nat d \<noteq> f" by simp
qed

lemma previous_from_cong:
  "(\<And>d. distance \<le> d \<Longrightarrow> d < distance + n \<Longrightarrow>
      find_entry (f - of_nat d) t = find_entry (f - of_nat d) t') \<Longrightarrow>
   previous_from n distance slot f t = previous_from n distance slot f t'"
proof (induction n arbitrary: distance)
  case (Suc n)
  then have "previous_from n (Suc distance) slot f t = previous_from n (Suc distance) slot f t'"
    by simp
  with Suc.prems [of distance] show ?case by (simp split: option.splits)
qed simp

lemma previous_cong:
  assumes "length (tl_entries t) = length (tl_entries t')" "\<And>g. g \<noteq> f \<Longrightarrow> find_entry g t = find_entry g t'"
  shows "previous slot f t = previous slot f t'"
  unfolding previous_def assms(1)
  by (intro previous_from_cong assms(2) frame_minus) auto

text \<open>\<open>holds f t e\<close>: the slot of frame \<open>f\<close> is claimed and holds \<open>e\<close>.\<close>

definition holds :: "u32 \<Rightarrow> InputTimeline \<Rightarrow> TimelineEntry \<Rightarrow> bool" where
  "holds f t e \<longleftrightarrow> timeline_inv t \<and> find_entry f t = Some e"

lemma holds_write:
  assumes "holds f t e" "entry_ok e'" "te_valid e'" "te_frame e' = f"
  shows "holds f (write_entry f e' t) e'"
    and "g \<noteq> f \<Longrightarrow> find_entry g (write_entry f e' t) = find_entry g t"
    and "previous slot f (write_entry f e' t) = previous slot f t"
proof -
  have t: "timeline_inv t" and f: "te_valid e" "te_frame e = f" "current_entry f t = e"
    using assms(1) find_entry_Some by (auto simp: holds_def)
  show "holds f (write_entry f e' t) e'"
    using t assms by (simp add: holds_def write_entry_inv find_write)
  have other: "find_entry g (write_entry f e' t) = find_entry g t" if "g \<noteq> f" for g
    using that t f assms find_write [OF t assms(3,4), of g]
    by (auto simp: find_entry_def current_entry_def Let_def)
  then show "g \<noteq> f \<Longrightarrow> find_entry g (write_entry f e' t) = find_entry g t" .
  show "previous slot f (write_entry f e' t) = previous slot f t"
    by (rule previous_cong) (simp_all add: other)
qed

definition predicted_entry :: "u32 \<Rightarrow> InputTimeline \<Rightarrow> nat list \<Rightarrow> TimelineEntry \<Rightarrow> TimelineEntry" where
  "predicted_entry f t slots e =
     e\<lparr>te_inputs := map (\<lambda>s. if s \<in> set slots \<and> \<not> te_present e ! s then previous s f t
         else te_inputs e ! s) [0..<kMaximumPlayers],
       te_predicted := map (\<lambda>s. if s \<in> set slots \<and> \<not> te_present e ! s then True
         else te_predicted e ! s) [0..<kMaximumPlayers]\<rparr>"

lemma predicted_entry_ok: "entry_ok e \<Longrightarrow> entry_ok (predicted_entry f t slots e)"
  by (auto simp: entry_ok_def predicted_entry_def)

lemma predict_slot_holds:
  assumes "holds f t e" "s < kMaximumPlayers"
  shows "holds f (predict_slot f s t) (predicted_entry f t [s] e)"
    and "g \<noteq> f \<Longrightarrow> find_entry g (predict_slot f s t) = find_entry g t"
    and "length (tl_entries (predict_slot f s t)) = length (tl_entries t)"
proof -
  have c: "current_entry f t = e" and k: "te_valid e" "te_frame e = f" and ok: "entry_ok e"
    using assms(1) find_entry_Some find_entry_ok by (auto simp: holds_def)
  let ?e = "e\<lparr>te_inputs := (te_inputs e)[s := previous s f t], te_predicted := (te_predicted e)[s := True]\<rparr>"
  have eq: "predicted_entry f t [s] e = (if te_present e ! s then e else ?e)"
    using ok assms(2)
    by (auto simp: predicted_entry_def entry_ok_def intro!: TimelineEntry.equality nth_equalityI
        simp: nth_list_update)
  have oke: "entry_ok (predicted_entry f t [s] e)" using ok by (rule predicted_entry_ok)
  show "holds f (predict_slot f s t) (predicted_entry f t [s] e)"
    using holds_write(1) [OF assms(1) oke] assms(1) k by (auto simp: predict_slot_def Let_def c eq)
  show "g \<noteq> f \<Longrightarrow> find_entry g (predict_slot f s t) = find_entry g t"
    using holds_write(2) [OF assms(1) oke] k by (auto simp: predict_slot_def Let_def c eq)
  show "length (tl_entries (predict_slot f s t)) = length (tl_entries t)"
    by (simp add: predict_slot_def Let_def)
qed

lemma fold_predict_holds:
  assumes "holds f t e" "set slots \<subseteq> {..<kMaximumPlayers}"
  shows "holds f (fold (predict_slot f) slots t) (predicted_entry f t slots e) \<and>
    (\<forall>g. g \<noteq> f \<longrightarrow> find_entry g (fold (predict_slot f) slots t) = find_entry g t) \<and>
    length (tl_entries (fold (predict_slot f) slots t)) = length (tl_entries t)"
  using assms
proof (induction slots arbitrary: t e)
  case Nil
  then have "predicted_entry f t [] e = e"
    using find_entry_ok [of t f e]
    by (auto simp: predicted_entry_def holds_def entry_ok_def intro!: TimelineEntry.equality nth_equalityI)
  then show ?case using Nil by simp
next
  case (Cons s slots)
  let ?t = "predict_slot f s t" and ?e = "predicted_entry f t [s] e"
  note one = predict_slot_holds [OF Cons.prems(1), of s]
  have "previous s' f ?t = previous s' f t" for s'
    using one Cons.prems by (intro previous_cong) auto
  then have "predicted_entry f ?t slots ?e = predicted_entry f t (s # slots) e"
    using find_entry_ok [of t f e] Cons.prems
    by (auto simp: predicted_entry_def holds_def intro!: TimelineEntry.equality)
  then show ?case using Cons.IH [OF one(1)] one Cons.prems by auto
qed

subsection \<open>The inputs of a frame\<close>

lemma claim_holds: "timeline_inv t \<Longrightarrow> holds f (claim_entry f t) (entry_or_new f t)"
  by (simp add: holds_def claim_entry_inv find_claim entry_or_new_def)

lemma predicted_entry_key [simp]:
  "te_valid (predicted_entry f t ss e) = te_valid e" "te_frame (predicted_entry f t ss e) = te_frame e"
  "te_present (predicted_entry f t ss e) = te_present e"
  by (simp_all add: predicted_entry_def)

lemma inputs_for_holds:
  fixes f :: u32
  assumes "timeline_inv t"
  defines "e \<equiv> predicted_entry f (claim_entry f t) [0..<kMaximumPlayers] (entry_or_new f t)"
  shows "fst (inputs_for f t) = te_inputs e" "timeline_inv (snd (inputs_for f t))"
    "find_entry f (snd (inputs_for f t)) = Some e"
    "\<And>g. g \<noteq> f \<Longrightarrow> find_entry g (snd (inputs_for f t)) = find_entry g (claim_entry f t)"
    "length (tl_entries (snd (inputs_for f t))) = length (tl_entries t)"
proof -
  have "set [0..<kMaximumPlayers] \<subseteq> {..<kMaximumPlayers}" by auto
  note h = fold_predict_holds [OF claim_holds [OF assms(1), of f] this]
  let ?t = "fold (predict_slot f) [0..<kMaximumPlayers] (claim_entry f t)"
  have "holds f ?t e" using h by (auto simp: e_def)
  then show "fst (inputs_for f t) = te_inputs e" "timeline_inv (snd (inputs_for f t))"
    "find_entry f (snd (inputs_for f t)) = Some e"
    by (auto simp: inputs_for_def Let_def holds_def dest: find_entry_Some)
  show "find_entry g (snd (inputs_for f t)) = find_entry g (claim_entry f t)" if "g \<noteq> f" for g
    using h that by (auto simp: inputs_for_def Let_def)
  show "length (tl_entries (snd (inputs_for f t))) = length (tl_entries t)"
    using h by (auto simp: inputs_for_def Let_def)
qed

text \<open>The input of one player: what arrived, or the prediction.\<close>

definition arrived :: "nat \<Rightarrow> u32 \<Rightarrow> InputTimeline \<Rightarrow> PackedInput option" where
  "arrived slot f t = (case find_entry f t of
     Some e \<Rightarrow> if te_present e ! slot then Some (te_inputs e ! slot) else None | None \<Rightarrow> None)"

lemma entry_or_new_arrived:
  "slot < kMaximumPlayers \<Longrightarrow> arrived slot f t =
     (if te_present (entry_or_new f t) ! slot then Some (te_inputs (entry_or_new f t) ! slot) else None)"
  by (auto simp: arrived_def entry_or_new_def empty_entry_def split: option.splits)

lemma inputs_for_nth:
  assumes "timeline_inv t" "slot < kMaximumPlayers"
  shows "fst (inputs_for f t) ! slot = (case arrived slot f t of Some i \<Rightarrow> i
      | None \<Rightarrow> previous slot f (claim_entry f t))"
    and "length (fst (inputs_for f t)) = kMaximumPlayers"
  using assms entry_or_new_arrived [OF assms(2), of f t]
  by (auto simp: inputs_for_holds(1) predicted_entry_def)

lemma slot_confirmed_arrived:
  assumes "timeline_inv t" "unat slot < kMaximumPlayers"
  shows "slot_confirmed slot f t \<longleftrightarrow> arrived (unat slot) f t \<noteq> None"
  using assms find_entry_ok [OF assms(1), of f]
  by (auto simp: slot_confirmed_def arrived_def entry_ok_def split: option.splits)

lemma previous_from_spec:
  "previous_from n d slot f t =
     (case find (\<lambda>k. arrived slot (f - of_nat k) t \<noteq> None) [d..<d + n] of
        Some k \<Rightarrow> the (arrived slot (f - of_nat k) t) | None \<Rightarrow> no_input)"
proof (induction n arbitrary: d)
  case (Suc n)
  then show ?case
    by (simp add: upt_conv_Cons del: upt_Suc) (auto simp: arrived_def split: option.splits)
qed simp

text \<open>The prediction: the latest input that arrived among the frames the ring still holds.\<close>

lemma previous_spec:
  "previous slot f t =
     (case find (\<lambda>k. arrived slot (f - of_nat k) t \<noteq> None) [1..<Suc (min (unat f) (length (tl_entries t)))] of
        Some k \<Rightarrow> the (arrived slot (f - of_nat k) t) | None \<Rightarrow> no_input)"
  by (simp add: previous_def previous_from_spec)

text \<open>An input that arrives is confirmed, and changes what its frame is simulated with for its slot only.\<close>

lemma claim_held: "find_entry f t = Some e \<Longrightarrow> claim_entry f t = t"
  by (auto simp: claim_entry_def find_entry_def current_entry_def Let_def split: if_splits)

text \<open>Two timelines that agree outside a frame predict the same for it.\<close>

lemma inputs_for_cong:
  assumes "timeline_inv t" "timeline_inv t'" "length (tl_entries t) = length (tl_entries t')"
    "\<And>g. g \<noteq> f \<Longrightarrow> find_entry g (claim_entry f t') = find_entry g (claim_entry f t)"
    "\<And>k. k < kMaximumPlayers \<Longrightarrow> arrived k f t' = (if k = s then a k else arrived k f t)"
    "k < kMaximumPlayers"
  shows "fst (inputs_for f t') ! k = (if k = s then case a k of Some i \<Rightarrow> i | None \<Rightarrow> fst (inputs_for f t) ! k
      else fst (inputs_for f t) ! k) \<or> k = s \<and> a k = None"
proof -
  have "previous k f (claim_entry f t') = previous k f (claim_entry f t)"
    using assms(3,4) by (intro previous_cong) auto
  then show ?thesis using assms inputs_for_nth(1) [OF assms(1), of k f] inputs_for_nth(1) [OF assms(2), of k f]
    by (auto split: option.splits)
qed

lemma inputs_after_arrival:
  assumes "timeline_inv t" "unat slot < kMaximumPlayers" "t2 = snd (set_remote slot f i t)"
  shows "slot_confirmed slot f t2" "fst (inputs_for f t2) = (fst (inputs_for f t))[unat slot := i]"
proof -
  let ?s = "unat slot" and ?n = "entry_or_new f t"
  have ok: "entry_ok ?n" using assms(1) by (rule entry_or_new_ok)
  have inv2: "timeline_inv t2" unfolding assms(3) by (rule set_remote_inv [OF assms(1)])
  note find = set_remote_find [OF assms(1,2), of _ f i, folded assms(3)]
  have f2: "find_entry f t2 = Some (arrive ?s i ?n)" using find [of f] by simp
  show "slot_confirmed slot f t2"
    using assms(2) ok by (simp add: slot_confirmed_def f2 arrive_def entry_ok_def)
  have "find_entry g (claim_entry f t2) = find_entry g (claim_entry f t)" if "g \<noteq> f" for g
    using that find [of g] find_claim [OF assms(1), of g f] claim_held [OF f2] by simp
  then have prev: "previous k f (claim_entry f t2) = previous k f (claim_entry f t)" for k
    by (intro previous_cong) (simp_all add: assms(3) set_remote_def Let_def)
  show "fst (inputs_for f t2) = (fst (inputs_for f t))[?s := i]"
  proof (rule nth_equalityI)
    show "length (fst (inputs_for f t2)) = length ((fst (inputs_for f t))[?s := i])"
      using inputs_for_nth(2) [OF inv2 assms(2)] inputs_for_nth(2) [OF assms(1,2), of f] by simp
    fix k assume "k < length (fst (inputs_for f t2))"
    then have k: "k < kMaximumPlayers" using inputs_for_nth(2) [OF inv2 assms(2)] by simp
    have "arrived k f t2 = (if k = ?s then Some i else arrived k f t)"
      using k assms(2) ok entry_or_new_arrived [OF k, of f t]
      by (auto simp: arrived_def f2 arrive_def entry_ok_def)
    then show "fst (inputs_for f t2) ! k = (fst (inputs_for f t))[?s := i] ! k"
      using inputs_for_nth [OF inv2 k, of f] inputs_for_nth [OF assms(1) k, of f] k prev [of k]
      by (auto simp: nth_list_update split: option.splits)
  qed
qed

text \<open>Simulating a frame twice with nothing in between uses the same inputs.\<close>

lemma inputs_for_again:
  assumes "timeline_inv t"
  shows "fst (inputs_for f (snd (inputs_for f t))) = fst (inputs_for f t)"
proof (rule nth_equalityI)
  have p: "0 < kMaximumPlayers" by (simp add: kMaximumPlayers_def)
  let ?t = "snd (inputs_for f t)"
  have inv: "timeline_inv ?t" using inputs_for_holds(2) [OF assms] .
  show "length (fst (inputs_for f ?t)) = length (fst (inputs_for f t))"
    using inputs_for_nth(2) [OF inv p] inputs_for_nth(2) [OF assms p] by simp
  fix k assume "k < length (fst (inputs_for f ?t))"
  then have k: "k < kMaximumPlayers" using inputs_for_nth(2) [OF inv p] by simp
  have "arrived k f ?t = arrived k f t"
    using entry_or_new_arrived [OF k, of f t] entry_or_new_ok [OF assms, of f] k
    by (auto simp: arrived_def inputs_for_holds(3) [OF assms] predicted_entry_def entry_ok_def)
  moreover have "previous k f (claim_entry f ?t) = previous k f (claim_entry f t)"
    using inputs_for_holds(4) [OF assms] inputs_for_holds(5) [OF assms] claim_held [OF inputs_for_holds(3) [OF assms]]
    by (intro previous_cong) simp_all
  ultimately show "fst (inputs_for f ?t) ! k = fst (inputs_for f t) ! k"
    using inputs_for_nth(1) [OF inv k] inputs_for_nth(1) [OF assms k] by (simp split: option.splits)
qed

subsection \<open>Masks and the runway\<close>

lemma slot_bit_test: "(m :: u8) AND slot_bit s \<noteq> 0 \<longleftrightarrow> bit m s"
  by (simp add: slot_bit_def push_bit_of_1 and_exp_eq_0_iff_not_bit)

lemma low_mask_bit: "bit (m AND 0x0F :: u8) s \<longleftrightarrow> s < 4 \<and> bit m s"
proof -
  have "bit (m AND mask 4 :: u8) s \<longleftrightarrow> s < 4 \<and> bit m s" by (auto simp: bit_simps)
  then show ?thesis by (simp add: mask_eq_exp_minus_1)
qed

lemma low_mask_nonzero: "(m AND 0x0F :: u8) \<noteq> 0 \<longleftrightarrow> (\<exists>s < 4. bit m s)"
  using low_mask_bit [of m] by (metis bit_0_eq bit_eq_iff bot_apply bot_bool_def)

lemma confirmed_entry:
  assumes "timeline_inv t" "find_entry f t = Some e" "s < kMaximumPlayers"
  shows "te_present e ! s \<and> \<not> te_predicted e ! s \<longleftrightarrow> arrived s f t \<noteq> None"
  using find_entry_ok [OF assms(1,2)] assms(2,3) by (auto simp: arrived_def entry_ok_def)

lemma confirmed_mask_spec:
  assumes "timeline_inv t"
  shows "confirmed_mask f m t \<longleftrightarrow>
    (\<exists>s < 4. bit m s) \<and> (\<forall>s < 4. bit m s \<longrightarrow> arrived s f t \<noteq> None)"
proof (cases "find_entry f t")
  case None
  then show ?thesis by (auto simp: confirmed_mask_def arrived_def)
next
  case (Some e)
  have "list_all (\<lambda>s. \<not> ((m AND 0x0F) AND slot_bit s \<noteq> 0 \<and> (\<not> te_present e ! s \<or> te_predicted e ! s)))
      [0..<kMaximumPlayers] \<longleftrightarrow> (\<forall>s < kMaximumPlayers. bit m s \<longrightarrow> arrived s f t \<noteq> None)"
    using confirmed_entry [OF assms Some] unfolding list_all_iff slot_bit_test low_mask_bit
    by (simp add: kMaximumPlayers_def Ball_def)
  then show ?thesis
    using Some by (simp add: confirmed_mask_def Let_def low_mask_nonzero [symmetric] kMaximumPlayers_def)
qed

lemma confirmed_spec:
  assumes "timeline_inv t"
  shows "confirmed f n t \<longleftrightarrow> n \<noteq> 0 \<and> unat n \<le> kMaximumPlayers \<and> (\<forall>s < unat n. arrived s f t \<noteq> None)"
proof (cases "find_entry f t")
  case None
  have "\<exists>s. s < unat n" if "n \<noteq> 0" using that unat_gt_0 [of n] by blast
  with None show ?thesis by (auto simp: confirmed_def arrived_def)
next
  case (Some e)
  have "list_all (\<lambda>s. te_present e ! s \<and> \<not> te_predicted e ! s) [0..<unat n] \<longleftrightarrow>
      (\<forall>s < unat n. arrived s f t \<noteq> None)" if "unat n \<le> kMaximumPlayers"
    using confirmed_entry [OF assms Some] that by (auto simp: list_all_iff)
  then show ?thesis using Some by (auto simp: confirmed_def word_less_1 not_less)
qed

lemma fold_mask_bit:
  "bit (foldl (\<lambda>mask slot. if P slot then mask OR slot_bit slot else mask) (m :: u8) ss) s \<longleftrightarrow>
     bit m s \<or> (s < 8 \<and> s \<in> set ss \<and> P s)"
  by (induction ss arbitrary: m) (auto simp: slot_bit_def bit_simps)

lemma predicted_mask_bit:
  "bit (predicted_mask f m t) s \<longleftrightarrow> s < 4 \<and> bit m s \<and>
     (case find_entry f t of None \<Rightarrow> True | Some e \<Rightarrow> te_predicted e ! s)"
  by (auto simp: predicted_mask_def low_mask_bit fold_mask_bit slot_bit_test kMaximumPlayers_def
      split: option.splits)

text \<open>After a frame was simulated its predicted mask is exact.\<close>

lemma predicted_mask_after_use:
  assumes "timeline_inv t"
  shows "bit (predicted_mask f m (snd (inputs_for f t))) s \<longleftrightarrow>
    s < 4 \<and> bit m s \<and> arrived s f t = None"
proof (cases "s < kMaximumPlayers")
  case True
  then show ?thesis
    using entry_or_new_ok [OF assms, of f] entry_or_new_arrived [OF True, of f t]
    by (auto simp: predicted_mask_bit inputs_for_holds(3) [OF assms] predicted_entry_def entry_ok_def
        kMaximumPlayers_def)
qed (simp add: predicted_mask_bit kMaximumPlayers_def)

lemma runway_from_bound: "runway_from n d f m t \<le> n"
  by (induction n arbitrary: d) (auto simp: le_SucI)

lemma runway_from_spec:
  "(\<forall>k < runway_from n d f m t. \<not> confirmed_mask (f - of_nat (d + k)) m t) \<and>
   (runway_from n d f m t < n \<longrightarrow> confirmed_mask (f - of_nat (d + runway_from n d f m t)) m t)"
proof (induction n arbitrary: d)
  case (Suc n)
  then show ?case
    using Suc.IH [of "Suc d"] by (auto simp: less_Suc_eq_0_disj simp del: of_nat_add)
qed simp

lemma unconfirmed_runway_spec:
  fixes f :: u32 and m :: u8
  assumes "timeline_inv t"
  defines "n \<equiv> unat (unconfirmed_runway f m t)"
  shows "n \<le> length (tl_entries t)" "n \<le> unat f + 1"
    "\<forall>k < n. \<not> confirmed_mask (f - of_nat k) m t"
    "n < min (length (tl_entries t)) (unat f + 1) \<Longrightarrow> confirmed_mask (f - of_nat n) m t"
proof -
  let ?l = "min (length (tl_entries t)) (unat f + 1)"
  have b: "runway_from ?l 0 f m t \<le> ?l" by (rule runway_from_bound)
  then have "runway_from ?l 0 f m t < 2 ^ 32" using assms(1) by (auto simp: timeline_inv_def)
  then have n: "n = runway_from ?l 0 f m t" by (simp add: n_def unconfirmed_runway_def unat_frame)
  show "n \<le> length (tl_entries t)" "n \<le> unat f + 1" using b n by auto
  show "\<forall>k < n. \<not> confirmed_mask (f - of_nat k) m t"
    "n < ?l \<Longrightarrow> confirmed_mask (f - of_nat n) m t"
    using runway_from_spec [of ?l 0 f m t] n by auto
qed

subsection \<open>Sequences of calls\<close>

text \<open>
  The calls that change a timeline, and the abstract timeline they refine: what was last
  heard for a slot and a frame since the last reset, with no bound on the frames remembered.
\<close>

datatype timeline_call =
    SetLocal u8 u32 PackedInput
  | SetRemote u8 u32 PackedInput
  | InputsFor u32
  | ResetTo u32

fun timeline_perform :: "timeline_call \<Rightarrow> InputTimeline \<Rightarrow> InputTimeline" where
  "timeline_perform (SetLocal slot frame input) t = snd (set_local slot frame input t)"
| "timeline_perform (SetRemote slot frame input) t = snd (set_remote slot frame input t)"
| "timeline_perform (InputsFor frame) t = snd (inputs_for frame t)"
| "timeline_perform (ResetTo frame) t = timeline_reset frame t"

fun hear :: "timeline_call \<Rightarrow> (nat \<times> u32 \<rightharpoonup> PackedInput) \<Rightarrow> (nat \<times> u32 \<rightharpoonup> PackedInput)" where
  "hear (SetLocal slot frame input) m =
     (if unat slot < kMaximumPlayers then m((unat slot, frame) \<mapsto> input) else m)"
| "hear (SetRemote slot frame input) m =
     (if unat slot < kMaximumPlayers then m((unat slot, frame) \<mapsto> input) else m)"
| "hear (InputsFor frame) m = m"
| "hear (ResetTo frame) m = Map.empty"

lemma timeline_perform_inv: "timeline_inv t \<Longrightarrow> timeline_inv (timeline_perform call t)"
  by (cases call) (simp_all add: set_local_inv set_remote_inv inputs_for_holds(2) reset_inv)

interpretation timeline_run: invariant_run timeline_inv timeline_perform
  by unfold_locales (rule timeline_perform_inv)

lemma arrived_arrive:
  assumes "entry_ok e" "s < kMaximumPlayers"
  shows "te_present (arrive s i e) ! k \<longleftrightarrow> k = s \<or> te_present e ! k"
    "te_inputs (arrive s i e) ! k = (if k = s then i else te_inputs e ! k)"
  using assms by (auto simp: arrive_def entry_ok_def nth_list_update)

lemma arrived_reset: "timeline_inv t \<Longrightarrow> arrived slot f (timeline_reset g t) = None"
  using entry_index_less [OF reset_inv, of t f g]
  by (simp add: arrived_def find_entry_def current_entry_def timeline_reset_def empty_entry_def Let_def)

lemma arrived_put:
  assumes "timeline_inv t" "s < kMaximumPlayers" "slot < kMaximumPlayers"
    and "find_entry f t' = (if f = g then Some (arrive s i (entry_or_new g t))
      else if entry_index f t = entry_index g t then None else find_entry f t)"
    and "arrived slot f t' = Some v"
  shows "(if slot = s \<and> f = g then v = i else arrived slot f t = Some v)"
  using assms(4,5) arrived_arrive [OF entry_or_new_ok [OF assms(1), of g] assms(2), of i slot]
    entry_or_new_arrived [OF assms(3), of g t]
  by (auto simp: arrived_def split: if_splits)

lemma arrived_inputs_for:
  assumes "timeline_inv t" "slot < kMaximumPlayers" "arrived slot f (snd (inputs_for g t)) = Some v"
  shows "arrived slot f t = Some v"
proof (cases "f = g")
  case True
  then show ?thesis
    using assms entry_or_new_arrived [OF assms(2), of g t] entry_or_new_ok [OF assms(1), of g]
    by (auto simp: arrived_def inputs_for_holds(3) [OF assms(1)] predicted_entry_def entry_ok_def
        split: if_splits)
next
  case False
  then show ?thesis
    using assms(3) by (auto simp: arrived_def inputs_for_holds(4) [OF assms(1)] find_claim [OF assms(1)]
        split: if_splits)
qed

lemma timeline_heard:
  assumes "timeline_inv t" "slot < kMaximumPlayers"
    and "\<forall>v. arrived slot f t = Some v \<longrightarrow> m (slot, f) = Some v"
    and "arrived slot f (timeline_perform call t) = Some v"
  shows "hear call m (slot, f) = Some v"
proof (cases call)
  case (SetLocal s g i)
  then show ?thesis
    using assms arrived_put [OF assms(1) _ assms(2) set_local_find [OF assms(1), of s f g i], of v]
    by (cases "unat s < kMaximumPlayers") (auto simp: set_local_def split: if_splits)
next
  case (SetRemote s g i)
  then show ?thesis
    using assms arrived_put [OF assms(1) _ assms(2) set_remote_find [OF assms(1), of s f g i], of v]
    by (cases "unat s < kMaximumPlayers") (auto simp: set_remote_def split: if_splits)
next
  case (InputsFor g)
  then show ?thesis using assms arrived_inputs_for [OF assms(1,2)] by simp
next
  case (ResetTo g)
  then show ?thesis using assms arrived_reset [OF assms(1)] by simp
qed

lemma timeline_run_heard:
  assumes "timeline_inv t" "slot < kMaximumPlayers"
    and "\<forall>v. arrived slot f t = Some v \<longrightarrow> m (slot, f) = Some v"
    and "arrived slot f (fold timeline_perform calls t) = Some v"
  shows "fold hear calls m (slot, f) = Some v"
  using assms
proof (induction calls arbitrary: t m)
  case (Cons call calls)
  show ?case
    using Cons.IH [of "timeline_perform call t" "hear call m"] timeline_heard [of t slot f m call]
      Cons.prems timeline_perform_inv by simp
qed simp

text \<open>Nothing has arrived in a new timeline, and its prediction is no input.\<close>

lemma new_timeline_arrived:
  assumes "cap < 2 ^ 32"
  shows "arrived slot f (new_timeline cap) = None"
  using entry_index_less [OF new_timeline_inv [OF assms], of f]
  by (simp add: arrived_def find_entry_def current_entry_def new_timeline_def empty_entry_def Let_def)

lemma new_timeline_prediction:
  assumes "cap < 2 ^ 32" "slot < kMaximumPlayers"
  shows "fst (inputs_for f (new_timeline cap)) ! slot = no_input"
proof -
  have inv: "timeline_inv (new_timeline cap)" using assms(1) by (rule new_timeline_inv)
  have "arrived slot g (claim_entry f (new_timeline cap)) = None" for g
    using new_timeline_arrived [OF assms(1), of slot g] find_claim [OF inv, of g f] assms(2)
      new_timeline_arrived [OF assms(1), of slot f]
    by (auto simp: arrived_def empty_entry_def split: if_splits option.splits)
  moreover have "find (\<lambda>k. False) ks = None" for ks :: "nat list" by (induction ks) simp_all
  ultimately show ?thesis
    using inputs_for_nth(1) [OF inv assms(2), of f] new_timeline_arrived [OF assms(1), of slot f]
    by (simp add: previous_spec del: upt_Suc)
qed

subsection \<open>Rollback\<close>

text \<open>
  The prediction that is open for a slot of a frame: the value the latest simulation of the
  frame used for the slot without its input, until the input arrives, the timeline is reset, or
  another frame takes the place of the frame in the ring. It is kept beside the timeline,
  from the calls and what they returned alone.
\<close>

definition same_place :: "u32 \<Rightarrow> u32 \<Rightarrow> InputTimeline \<Rightarrow> bool" where
  "same_place g f t \<longleftrightarrow> unat g mod length (tl_entries t) = unat f mod length (tl_entries t)"

definition arrival :: "u8 \<Rightarrow> u32 \<Rightarrow> u8 \<Rightarrow> u32 \<Rightarrow> InputTimeline \<Rightarrow> PackedInput option \<Rightarrow> PackedInput option" where
  "arrival s g slot f t w =
     (if kMaximumPlayers \<le> unat s then w
      else if g = f then (if s = slot then None else w)
      else if same_place g f t then None else w)"

fun open_prediction ::
  "u8 \<Rightarrow> u32 \<Rightarrow> timeline_call \<Rightarrow> InputTimeline \<times> PackedInput option \<Rightarrow> InputTimeline \<times> PackedInput option" where
  "open_prediction slot f (SetLocal s g i) (t, w) =
     (timeline_perform (SetLocal s g i) t, arrival s g slot f t w)"
| "open_prediction slot f (SetRemote s g i) (t, w) =
     (timeline_perform (SetRemote s g i) t, arrival s g slot f t w)"
| "open_prediction slot f (InputsFor g) (t, w) =
     (timeline_perform (InputsFor g) t,
      if g = f then (if slot_confirmed slot f t then None else Some (fst (inputs_for f t) ! unat slot))
      else if same_place g f t then None else w)"
| "open_prediction slot f (ResetTo g) (t, w) = (timeline_perform (ResetTo g) t, None)"

lemma same_place_index: "same_place g f t \<longleftrightarrow> entry_index g t = entry_index f t"
  by (simp add: same_place_def entry_index_def)

lemma open_prediction_timeline: "fst (fold (open_prediction slot f) calls (t, w)) = fold timeline_perform calls t"
proof (induction calls arbitrary: t w)
  case (Cons call calls)
  obtain v where "open_prediction slot f call (t, w) = (timeline_perform call t, v)" by (cases call) auto
  then show ?case using Cons by simp
qed simp

text \<open>What the ring holds of an open prediction: the flag and the value of its entry.\<close>

definition entry_prediction :: "nat \<Rightarrow> TimelineEntry option \<Rightarrow> PackedInput option" where
  "entry_prediction slot found = (case found of None \<Rightarrow> None
     | Some e \<Rightarrow> if te_predicted e ! slot then Some (te_inputs e ! slot) else None)"

lemma entry_prediction_new: "slot < kMaximumPlayers \<Longrightarrow>
    entry_prediction slot (Some (entry_or_new f t)) = entry_prediction slot (find_entry f t)"
  by (auto simp: entry_prediction_def entry_or_new_def empty_entry_def split: option.splits)

lemma entry_prediction_arrive:
  assumes "entry_ok e" "s < kMaximumPlayers" "slot < kMaximumPlayers"
  shows "entry_prediction slot (Some (arrive s i e)) = (if s = slot then None else entry_prediction slot (Some e))"
  using assms by (auto simp: entry_prediction_def arrive_def entry_ok_def)

lemma prediction_put:
  assumes "timeline_inv t" "unat s < kMaximumPlayers" "unat slot < kMaximumPlayers"
    "find_entry f t' = (if f = g then Some (arrive (unat s) i (entry_or_new g t))
      else if entry_index f t = entry_index g t then None else find_entry f t)"
  shows "entry_prediction (unat slot) (find_entry f t') = arrival s g slot f t (entry_prediction (unat slot) (find_entry f t))"
proof -
  have "s = slot \<longleftrightarrow> unat s = unat slot" by (simp add: word_unat_eq_iff)
  then show ?thesis
    using assms entry_prediction_arrive [OF entry_or_new_ok [OF assms(1)] assms(2,3)] entry_prediction_new [OF assms(3)]
    by (auto simp: arrival_def same_place_index entry_prediction_def [of _ None])
qed

lemma prediction_used:
  assumes "timeline_inv t" "unat slot < kMaximumPlayers"
  shows "entry_prediction (unat slot) (find_entry f (snd (inputs_for f t))) =
    (if slot_confirmed slot f t then None else Some (fst (inputs_for f t) ! unat slot))"
  using assms entry_or_new_ok [OF assms(1), of f] slot_confirmed_arrived [OF assms] entry_or_new_arrived [OF assms(2), of f t]
  by (auto simp: entry_prediction_def inputs_for_holds(1,3) [OF assms(1)] predicted_entry_def entry_ok_def)

lemma open_prediction_keeps:
  assumes "timeline_inv t" "unat slot < kMaximumPlayers" "w = entry_prediction (unat slot) (find_entry f t)"
    "open_prediction slot f call (t, w) = (t', w')"
  shows "w' = entry_prediction (unat slot) (find_entry f t')"
proof (cases call)
  case (SetLocal s g i)
  then show ?thesis
    using assms prediction_put [OF assms(1) _ assms(2) set_local_find [OF assms(1), of s f g i]]
    by (cases "unat s < kMaximumPlayers") (auto simp: arrival_def set_local_def)
next
  case (SetRemote s g i)
  then show ?thesis
    using assms prediction_put [OF assms(1) _ assms(2) set_remote_find [OF assms(1), of s f g i]]
    by (cases "unat s < kMaximumPlayers") (auto simp: arrival_def set_remote_def)
next
  case (InputsFor g)
  then show ?thesis
    using assms prediction_used [OF assms(1,2), of f] inputs_for_holds(4) [OF assms(1), of f g] find_claim [OF assms(1), of f g]
    by (auto simp: same_place_index entry_prediction_def)
next
  case (ResetTo g)
  then have "find_entry f t' = None" using assms entry_index_less [OF reset_inv, of t f g]
    by (auto simp: find_entry_def current_entry_def timeline_reset_def empty_entry_def Let_def)
  then show ?thesis using ResetTo assms(4) by (simp add: entry_prediction_def)
qed

lemma open_prediction_run:
  assumes "timeline_inv t" "unat slot < kMaximumPlayers" "w = entry_prediction (unat slot) (find_entry f t)"
    "fold (open_prediction slot f) calls (t, w) = (t', w')"
  shows "timeline_inv t' \<and> w' = entry_prediction (unat slot) (find_entry f t')"
  using assms
proof (induction calls arbitrary: t w)
  case (Cons call calls)
  obtain t1 w1 where one: "open_prediction slot f call (t, w) = (t1, w1)" by fastforce
  then have "t1 = timeline_perform call t" by (cases call) auto
  then show ?case
    using Cons.IH [of t1 w1] Cons.prems one open_prediction_keeps [OF Cons.prems(1-3) one] timeline_perform_inv by simp
qed simp

text \<open>
  The rollback contract: whatever calls came before, an arriving input asks for a rollback exactly
  when there is an open prediction it contradicts.
\<close>

lemma rollback_contract:
  assumes "cap < 2 ^ 32" "unat slot < kMaximumPlayers"
    "fold (open_prediction slot f) calls (new_timeline cap, None) = (t, w)" "set_remote slot f i t = (rollback, t2)"
  shows "rollback = (case w of Some v \<Rightarrow> if v \<noteq> i then Some f else None | None \<Rightarrow> None)"
    "timeline_inv t"
proof -
  have n: "None = entry_prediction (unat slot) (find_entry f (new_timeline cap))"
    using entry_index_less [OF new_timeline_inv [OF assms(1)], of f]
    by (simp add: entry_prediction_def find_entry_def current_entry_def new_timeline_def empty_entry_def Let_def)
  note r = open_prediction_run [OF new_timeline_inv [OF assms(1)] assms(2) n assms(3)]
  then show t: "timeline_inv t" by simp
  have w: "w = entry_prediction (unat slot) (Some (entry_or_new f t))" using r entry_prediction_new [OF assms(2)] by simp
  then show "rollback = (case w of Some v \<Rightarrow> if v \<noteq> i then Some f else None | None \<Rightarrow> None)"
    using assms(2,4) current_claim [OF t, of f]
    by (auto simp: set_remote_def Let_def entry_prediction_def)
qed

end
