(* ===== verification/Lobby.thy ===== *)
theory Lobby
  imports Netplay_Types Float32
begin

section \<open>The lobby\<close>

text \<open>
  Models \<^verbatim>\<open>netplay_lobby.cpp\<close> with the structs \<^verbatim>\<open>Player\<close> and \<^verbatim>\<open>Room\<close> of
  \<^verbatim>\<open>netplay_types.hpp\<close>. The lobby is its room. An operation returns the error text
  or its result, and the room after it. A pointer to a player is the player's index. The
  reachable rooms are those a successful \<^verbatim>\<open>create\<close> and any sequence of calls can produce;
  the invariant of the roster is proved for all of them by rule induction.
\<close>

subsection \<open>Model\<close>

record Player =
  pl_occupied :: bool
  pl_host :: bool
  pl_ready :: bool
  pl_compatible :: bool
  pl_loaded :: bool
  pl_slot :: u8
  pl_peer_id :: string
  pl_display_name :: string
  pl_route :: Route
  pl_ping_ms :: u16
  pl_jitter_ms :: u16
  pl_packet_loss_percent :: f32

record Room =
  ro_room_id :: string
  ro_join_code :: string
  ro_name :: string
  ro_visibility :: Visibility
  ro_phase :: RoomPhase
  ro_rules :: Rules
  ro_manifest :: CompatibilityManifest
  ro_players :: "Player list"
  ro_generation :: u64

text \<open>\<^verbatim>\<open>Player{}\<close>, and the aggregates \<^verbatim>\<open>create\<close> and \<^verbatim>\<open>join\<close> build.\<close>

definition no_player :: Player where
  "no_player = \<lparr>pl_occupied = False, pl_host = False, pl_ready = False, pl_compatible = False,
     pl_loaded = False, pl_slot = 0, pl_peer_id = [], pl_display_name = [],
     pl_route = RouteUnknown, pl_ping_ms = 0, pl_jitter_ms = 0,
     pl_packet_loss_percent = Finite 0\<rparr>"

definition new_player :: "bool \<Rightarrow> u8 \<Rightarrow> string \<Rightarrow> string \<Rightarrow> Player" where
  "new_player is_host slot peer_id display_name =
     no_player\<lparr>pl_occupied := True, pl_host := is_host, pl_compatible := True, pl_slot := slot,
       pl_peer_id := peer_id, pl_display_name := display_name\<rparr>"

type_synonym 'a result = "string + 'a"

definition update_player :: "nat \<Rightarrow> (Player \<Rightarrow> Player) \<Rightarrow> Room \<Rightarrow> Room" where
  "update_player i f r = r\<lparr>ro_players := (ro_players r)[i := f (ro_players r ! i)]\<rparr>"

definition bump :: "Room \<Rightarrow> Room" where
  "bump r = r\<lparr>ro_generation := ro_generation r + 1\<rparr>"

definition find_player :: "string \<Rightarrow> Room \<Rightarrow> nat option" where
  "find_player peer_id r =
     find (\<lambda>i. pl_occupied (ro_players r ! i) \<and> pl_peer_id (ro_players r ! i) = peer_id)
       [0..<length (ro_players r)]"

definition invalidate_ready :: "Room \<Rightarrow> Room" where
  "invalidate_ready r =
     (bump r)\<lparr>ro_players := map (\<lambda>p. p\<lparr>pl_ready := False, pl_loaded := False\<rparr>) (ro_players r)\<rparr>"

text \<open>One pass of the outer loop of \<^verbatim>\<open>normalize_slots\<close>: fill the gap at \<open>i\<close> from the right.\<close>

definition fill_slot :: "nat \<Rightarrow> Player list \<Rightarrow> Player list" where
  "fill_slot i ps =
     (if pl_occupied (ps ! i) then ps
      else case find (\<lambda>j. pl_occupied (ps ! j)) [i + 1..<length ps] of
        None \<Rightarrow> ps
      | Some j \<Rightarrow> ps[i := (ps ! j)\<lparr>pl_slot := of_nat i\<rparr>, j := no_player])"

definition normalize_slots :: "Room \<Rightarrow> Room" where
  "normalize_slots r =
     r\<lparr>ro_players := fold fill_slot [1..<length (ro_players r) - 1] (ro_players r)\<rparr>"

definition player_count :: "Room \<Rightarrow> nat" where
  "player_count r = length (filter pl_occupied (ro_players r))"

definition lobby_create ::
  "string \<Rightarrow> string \<Rightarrow> string \<Rightarrow> Visibility \<Rightarrow> string \<Rightarrow> string \<Rightarrow> CompatibilityManifest \<Rightarrow> Rules \<Rightarrow>
     Room \<Rightarrow> unit result \<times> Room" where
  "lobby_create room_id join_code room_name visibility host_peer_id host_name manifest rules r =
     (if room_id = [] \<or> length join_code < 6 \<or> \<not> valid_room_name room_name \<or>
         \<not> valid_display_name host_name \<or> host_peer_id = [] \<or> \<not> valid_rules rules
      then (Inl ''The lobby settings are invalid.'', r)
      else (Inr (),
        \<lparr>ro_room_id = room_id, ro_join_code = join_code, ro_name = room_name,
         ro_visibility = visibility, ro_phase = Waiting, ro_rules = rules, ro_manifest = manifest,
         ro_players = new_player True 0 host_peer_id host_name #
           replicate (kMaximumPlayers - 1) no_player,
         ro_generation = 1\<rparr>))"

definition lobby_join ::
  "string \<Rightarrow> string \<Rightarrow> CompatibilityManifest \<Rightarrow> Room \<Rightarrow> u8 result \<times> Room" where
  "lobby_join peer_id display_name manifest r =
     (if ro_room_id r = [] \<or> ro_phase r \<noteq> Waiting
      then (Inl ''This lobby is not accepting racers.'', r)
      else if peer_id = [] \<or> \<not> valid_display_name display_name \<or> find_player peer_id r \<noteq> None
      then (Inl ''This racer identity is invalid or already connected.'', r)
      else let mismatch = incompatibility_reason (ro_manifest r) manifest in
        if mismatch \<noteq> [] then (Inl mismatch, r)
        else case find (\<lambda>i. \<not> pl_occupied (ro_players r ! i))
                    [1..<unat (maximum_players (ro_rules r))] of
          None \<Rightarrow> (Inl ''This lobby is full.'', r)
        | Some i \<Rightarrow>
            (Inr (of_nat i),
             invalidate_ready (update_player i
               (\<lambda>_. new_player False (of_nat i) peer_id display_name) r)))"

definition lobby_leave :: "string \<Rightarrow> Room \<Rightarrow> bool \<times> Room" where
  "lobby_leave peer_id r =
     (case find_player peer_id r of
        None \<Rightarrow> (False, r)
      | Some i \<Rightarrow>
          if pl_host (ro_players r ! i)
          then (True, bump (r\<lparr>ro_phase := Finished,
                 ro_players := map (\<lambda>p. p\<lparr>pl_ready := False, pl_loaded := False\<rparr>) (ro_players r)\<rparr>))
          else (True, invalidate_ready (normalize_slots (update_player i (\<lambda>_. no_player) r))))"

definition is_host :: "string \<Rightarrow> Room \<Rightarrow> bool" where
  "is_host peer_id r =
     (case find_player peer_id r of None \<Rightarrow> False | Some i \<Rightarrow> pl_host (ro_players r ! i))"

definition swap_slots :: "nat \<Rightarrow> nat \<Rightarrow> Player list \<Rightarrow> Player list" where
  "swap_slots source destination ps =
     (let swapped = ps[source := ps ! destination, destination := ps ! source];
          tagged = swapped[source := (swapped ! source)\<lparr>pl_slot := of_nat source\<rparr>]
      in tagged[destination := (tagged ! destination)\<lparr>pl_slot := of_nat destination\<rparr>])"

definition lobby_move_client :: "string \<Rightarrow> string \<Rightarrow> u8 \<Rightarrow> Room \<Rightarrow> unit result \<times> Room" where
  "lobby_move_client host_peer_id client_peer_id destination_slot r =
     (case find_player client_peer_id r of
        None \<Rightarrow> (Inl ''Only the host can move the connected client to Player 2.'', r)
      | Some i \<Rightarrow>
          if \<not> is_host host_peer_id r \<or> pl_host (ro_players r ! i) \<or> destination_slot = 0 \<or>
             destination_slot \<ge> maximum_players (ro_rules r)
          then (Inl ''Only the host can move the connected client to Player 2.'', r)
          else (Inr (), invalidate_ready (r\<lparr>ro_players :=
                 swap_slots (unat (pl_slot (ro_players r ! i))) (unat destination_slot)
                   (ro_players r)\<rparr>)))"

definition lobby_set_ready :: "string \<Rightarrow> bool \<Rightarrow> Room \<Rightarrow> unit result \<times> Room" where
  "lobby_set_ready peer_id ready r =
     (case find_player peer_id r of
        None \<Rightarrow> (Inl ''This racer cannot change Ready state.'', r)
      | Some i \<Rightarrow>
          if ro_phase r \<noteq> Waiting \<or> \<not> pl_compatible (ro_players r ! i)
          then (Inl ''This racer cannot change Ready state.'', r)
          else (Inr (),
            (if pl_ready (ro_players r ! i) \<noteq> ready
             then bump (update_player i (\<lambda>p. p\<lparr>pl_ready := ready\<rparr>) r) else r)
            \<lparr>ro_phase := Waiting\<rparr>))"

definition lobby_set_loaded :: "string \<Rightarrow> bool \<Rightarrow> Room \<Rightarrow> bool \<times> Room" where
  "lobby_set_loaded peer_id loaded r =
     (case find_player peer_id r of
        None \<Rightarrow> (False, r)
      | Some i \<Rightarrow>
          if ro_phase r \<noteq> Loading then (False, r)
          else (True,
            if pl_loaded (ro_players r ! i) \<noteq> loaded
            then bump (update_player i (\<lambda>p. p\<lparr>pl_loaded := loaded\<rparr>) r) else r))"

definition lobby_set_network_metrics ::
  "string \<Rightarrow> Route \<Rightarrow> u16 \<Rightarrow> u16 \<Rightarrow> f32 \<Rightarrow> Room \<Rightarrow> bool \<times> Room" where
  "lobby_set_network_metrics peer_id route ping_ms jitter_ms packet_loss_percent r =
     (case find_player peer_id r of
        None \<Rightarrow> (False, r)
      | Some i \<Rightarrow> (True, update_player i (\<lambda>p. p\<lparr>pl_route := route, pl_ping_ms := ping_ms,
          pl_jitter_ms := jitter_ms,
          pl_packet_loss_percent := f32_clamp packet_loss_percent (Finite 0) (Finite 100)\<rparr>) r))"

definition lobby_set_rules :: "string \<Rightarrow> Rules \<Rightarrow> Room \<Rightarrow> unit result \<times> Room" where
  "lobby_set_rules host_peer_id rules r =
     (if \<not> is_host host_peer_id r \<or> ro_phase r \<noteq> Waiting \<or> \<not> valid_rules rules \<or>
         unat (maximum_players rules) < player_count r
      then (Inl ''The room rules cannot be changed to those values.'', r)
      else (Inr (), if ro_rules r \<noteq> rules then invalidate_ready (r\<lparr>ro_rules := rules\<rparr>) else r))"

definition lobby_can_start :: "Room \<Rightarrow> unit result" where
  "lobby_can_start r =
     (if ro_phase r \<noteq> Waiting then Inl ''The lobby is not waiting at the starting grid.''
      else if player_count r < 2 then Inl ''At least two racers are required.''
      else if player_count r > 2 \<and> magic_codes_hash (ro_manifest r) AND push_bit 24 1 \<noteq> 0
      then Inl ''Two-player Adventure (JOINTVENTURE) requires exactly two racers. Disable it for three- or four-player races and minigames.''
      else if list_ex (\<lambda>p. pl_occupied p \<and> (\<not> pl_compatible p \<or> \<not> pl_ready p)) (ro_players r)
      then Inl ''Every connected racer must be compatible and Ready.''
      else Inr ())"

text \<open>
  The error text is an in-out argument: \<open>error\<close> is what the caller left in it, kept when
  somebody other than the host asks and the text is not empty.
\<close>

definition lobby_begin_loading :: "string \<Rightarrow> string \<Rightarrow> Room \<Rightarrow> unit result \<times> Room" where
  "lobby_begin_loading error host_peer_id r =
     (if \<not> is_host host_peer_id r
      then (Inl (if error = [] then ''Only Player 1 can start the lobby.'' else error), r)
      else case lobby_can_start r of
        Inl reason \<Rightarrow> (Inl (if reason = [] then ''Only Player 1 can start the lobby.'' else reason), r)
      | Inr _ \<Rightarrow> (Inr (), bump (r\<lparr>ro_phase := Loading,
          ro_players := map (\<lambda>p. p\<lparr>pl_loaded := False\<rparr>) (ro_players r)\<rparr>)))"

definition lobby_begin_running :: "string \<Rightarrow> Room \<Rightarrow> unit result \<times> Room" where
  "lobby_begin_running host_peer_id r =
     (if \<not> is_host host_peer_id r \<or> ro_phase r \<noteq> Loading
      then (Inl ''Only Player 1 can release the synchronized start.'', r)
      else if list_ex (\<lambda>p. pl_occupied p \<and> \<not> pl_loaded p) (ro_players r)
      then (Inl ''Every racer must finish loading before frame zero.'', r)
      else (Inr (), bump (r\<lparr>ro_phase := Running\<rparr>)))"

definition lobby_return_to_waiting :: "Room \<Rightarrow> Room" where
  "lobby_return_to_waiting r = invalidate_ready (r\<lparr>ro_phase := Waiting\<rparr>)"

subsection \<open>Calls and reachable rooms\<close>

datatype lobby_call =
    Join string string CompatibilityManifest
  | Leave string
  | MoveClient string string u8
  | SetReady string bool
  | SetLoaded string bool
  | SetMetrics string Route u16 u16 f32
  | SetRules string Rules
  | BeginLoading string string
  | BeginRunning string
  | ReturnToWaiting

fun perform :: "lobby_call \<Rightarrow> Room \<Rightarrow> Room" where
  "perform (Join peer name manifest) r = snd (lobby_join peer name manifest r)"
| "perform (Leave peer) r = snd (lobby_leave peer r)"
| "perform (MoveClient host client slot) r = snd (lobby_move_client host client slot r)"
| "perform (SetReady peer ready) r = snd (lobby_set_ready peer ready r)"
| "perform (SetLoaded peer loaded) r = snd (lobby_set_loaded peer loaded r)"
| "perform (SetMetrics peer route ping jitter loss) r =
     snd (lobby_set_network_metrics peer route ping jitter loss r)"
| "perform (SetRules host rules) r = snd (lobby_set_rules host rules r)"
| "perform (BeginLoading error host) r = snd (lobby_begin_loading error host r)"
| "perform (BeginRunning host) r = snd (lobby_begin_running host r)"
| "perform ReturnToWaiting r = lobby_return_to_waiting r"

inductive lobby_reachable :: "Room \<Rightarrow> bool" where
  created: "lobby_create room_id join_code room_name visibility host host_name manifest rules r0 = (Inr (), r) \<Longrightarrow>
     lobby_reachable r"
| called: "lobby_reachable r \<Longrightarrow> lobby_reachable (perform call r)"

subsection \<open>The invariant of the roster\<close>

definition player_ok :: "nat \<Rightarrow> Player \<Rightarrow> bool" where
  "player_ok i p \<longleftrightarrow>
     (pl_host p \<longleftrightarrow> i = 0) \<and> (i = 0 \<longrightarrow> pl_occupied p) \<and>
     (pl_occupied p \<longrightarrow> pl_slot p = of_nat i \<and> pl_compatible p \<and> pl_peer_id p \<noteq> [] \<and>
        valid_display_name (pl_display_name p)) \<and>
     (\<not> pl_occupied p \<longrightarrow> \<not> pl_ready p \<and> \<not> pl_loaded p)"

definition distinct_peers :: "Player list \<Rightarrow> bool" where
  "distinct_peers ps \<longleftrightarrow> (\<forall>i < length ps. \<forall>j < length ps.
     pl_occupied (ps ! i) \<longrightarrow> pl_occupied (ps ! j) \<longrightarrow> pl_peer_id (ps ! i) = pl_peer_id (ps ! j) \<longrightarrow>
     i = j)"

definition roster_ok :: "Player list \<Rightarrow> bool" where
  "roster_ok ps \<longleftrightarrow> length ps = kMaximumPlayers \<and> (\<forall>i < length ps. player_ok i (ps ! i)) \<and>
     distinct_peers ps"

definition room_inv :: "Room \<Rightarrow> bool" where
  "room_inv r \<longleftrightarrow> roster_ok (ro_players r) \<and> valid_rules (ro_rules r) \<and> ro_room_id r \<noteq> []"

text \<open>What identifies a player, apart from readiness and network metrics.\<close>

definition same_identity :: "Player \<Rightarrow> Player \<Rightarrow> bool" where
  "same_identity p q \<longleftrightarrow>
     pl_occupied q = pl_occupied p \<and> pl_host q = pl_host p \<and> pl_compatible q = pl_compatible p \<and>
     pl_slot q = pl_slot p \<and> pl_peer_id q = pl_peer_id p \<and> pl_display_name q = pl_display_name p"

lemma find_player_Some:
  "find_player peer r = Some i \<Longrightarrow>
     i < length (ro_players r) \<and> pl_occupied (ro_players r ! i) \<and> pl_peer_id (ro_players r ! i) = peer"
  by (auto simp: find_player_def find_Some_iff)

lemma find_player_None:
  "find_player peer r = None \<Longrightarrow> i < length (ro_players r) \<Longrightarrow> pl_occupied (ro_players r ! i) \<Longrightarrow>
     pl_peer_id (ro_players r ! i) \<noteq> peer"
  by (auto simp: find_player_def find_None_iff)

lemma roster_same:
  assumes "roster_ok ps" "length qs = length ps"
    and "\<And>i. i < length ps \<Longrightarrow> same_identity (ps ! i) (qs ! i)"
    and "\<And>i. i < length ps \<Longrightarrow> \<not> pl_occupied (ps ! i) \<Longrightarrow> \<not> pl_ready (qs ! i) \<and> \<not> pl_loaded (qs ! i)"
  shows "roster_ok qs"
  using assms by (auto simp: roster_ok_def player_ok_def distinct_peers_def same_identity_def)

lemma roster_update:
  assumes "roster_ok ps" "same_identity (ps ! i) q" "pl_occupied (ps ! i)"
  shows "roster_ok (ps[i := q])"
proof (cases "i < length ps")
  case True
  then show ?thesis
    using assms
    by (intro roster_same [OF assms(1)]) (auto simp: nth_list_update same_identity_def roster_ok_def player_ok_def)
qed (use assms in \<open>simp add: list_update_beyond not_less\<close>)

lemma roster_map:
  assumes "roster_ok ps" "\<And>p. same_identity p (f p)"
    "\<And>p. (pl_ready (f p) \<longrightarrow> pl_ready p) \<and> (pl_loaded (f p) \<longrightarrow> pl_loaded p)"
  shows "roster_ok (map f ps)"
proof (rule roster_same [OF assms(1)])
  show "\<not> pl_ready (map f ps ! i) \<and> \<not> pl_loaded (map f ps ! i)"
    if "i < length ps" "\<not> pl_occupied (ps ! i)" for i
    using that assms(1) assms(3) [of "ps ! i"] by (auto simp: roster_ok_def player_ok_def)
qed (simp_all add: assms(2))

text \<open>Filling a free slot other than the host's, and emptying one.\<close>

lemma roster_fill:
  assumes "roster_ok ps" "0 < i" "i < length ps" "\<not> pl_occupied (ps ! i)"
    and "player_ok i q" "\<forall>j < length ps. pl_occupied (ps ! j) \<longrightarrow> pl_peer_id (ps ! j) \<noteq> pl_peer_id q"
  shows "roster_ok (ps[i := q])"
  using assms by (auto simp: roster_ok_def distinct_peers_def nth_list_update)

lemma roster_empty:
  assumes "roster_ok ps" "0 < i"
  shows "roster_ok (ps[i := no_player])"
proof (cases "i < length ps")
  case True
  then show ?thesis
    using assms by (auto simp: roster_ok_def distinct_peers_def nth_list_update player_ok_def no_player_def)
qed (use assms in \<open>simp add: list_update_beyond not_less\<close>)

lemma roster_fill_slot:
  assumes "roster_ok ps" "0 < i" "i < length ps"
  shows "roster_ok (fill_slot i ps)"
proof (cases "pl_occupied (ps ! i) \<or> find (\<lambda>j. pl_occupied (ps ! j)) [i + 1..<length ps] = None")
  case False
  then obtain j where f: "find (\<lambda>j. pl_occupied (ps ! j)) [i + 1..<length ps] = Some j"
    and i: "\<not> pl_occupied (ps ! i)" by auto
  then have j: "i < j" "j < length ps" "pl_occupied (ps ! j)" by (auto simp: find_Some_iff)
  let ?q = "(ps ! j)\<lparr>pl_slot := of_nat i\<rparr>"
  have d: "roster_ok (ps[j := no_player])" using assms(1) j by (intro roster_empty) auto
  have "pl_peer_id (ps ! k) \<noteq> pl_peer_id (ps ! j)" if "k < length ps" "k \<noteq> j" "pl_occupied (ps ! k)" for k
    using assms(1) that j by (auto simp: roster_ok_def distinct_peers_def)
  then have "roster_ok ((ps[j := no_player])[i := ?q])"
    using d i j assms
    by (intro roster_fill [OF d])
      (auto simp: nth_list_update roster_ok_def player_ok_def no_player_def)
  then show ?thesis using i f j by (simp add: fill_slot_def list_update_swap)
qed (use assms in \<open>auto simp: fill_slot_def\<close>)

lemma length_fill_slot [simp]: "length (fill_slot i ps) = length ps"
  by (simp add: fill_slot_def split: option.splits)

lemma roster_fold_fill:
  "roster_ok ps \<Longrightarrow> \<forall>i \<in> set is. 0 < i \<and> i < length ps \<Longrightarrow> roster_ok (fold fill_slot is ps)"
  by (induction "is" arbitrary: ps) (auto simp: roster_fill_slot)

lemma swap_slots_nth:
  assumes "a < length ps" "b < length ps" "k < length ps"
  shows "swap_slots a b ps ! k =
    (if k = b then (ps ! a)\<lparr>pl_slot := of_nat b\<rparr>
     else if k = a then (ps ! b)\<lparr>pl_slot := of_nat a\<rparr> else ps ! k)"
  using assms by (auto simp: swap_slots_def Let_def nth_list_update)

lemma roster_swap:
  assumes "roster_ok ps" "0 < a" "0 < b" "a < length ps" "b < length ps"
  shows "roster_ok (swap_slots a b ps)"
proof -
  have l: "length (swap_slots a b ps) = length ps" by (simp add: swap_slots_def Let_def)
  have ok: "player_ok k (swap_slots a b ps ! k)" if "k < length ps" for k
    using assms that by (auto simp: swap_slots_nth roster_ok_def player_ok_def)
  have "distinct_peers (swap_slots a b ps)"
    unfolding distinct_peers_def l
  proof (intro allI impI)
    fix i j assume h: "i < length ps" "j < length ps" "pl_occupied (swap_slots a b ps ! i)"
      "pl_occupied (swap_slots a b ps ! j)"
      "pl_peer_id (swap_slots a b ps ! i) = pl_peer_id (swap_slots a b ps ! j)"
    define \<sigma> where "\<sigma> k = (if k = b then a else if k = a then b else k)" for k
    have \<sigma>: "pl_occupied (swap_slots a b ps ! k) = pl_occupied (ps ! \<sigma> k)"
      "pl_peer_id (swap_slots a b ps ! k) = pl_peer_id (ps ! \<sigma> k)" "\<sigma> k < length ps"
      if "k < length ps" for k
      using assms that by (auto simp: swap_slots_nth \<sigma>_def)
    have "\<sigma> i = \<sigma> j" using assms(1) h \<sigma> by (auto simp: roster_ok_def distinct_peers_def)
    then show "i = j" by (auto simp: \<sigma>_def split: if_splits)
  qed
  then show ?thesis using assms(1) ok l by (simp add: roster_ok_def)
qed

subsection \<open>Every call keeps the invariant\<close>

lemma room_inv_simps [simp]:
  "room_inv (bump r) = room_inv r" "room_inv (r\<lparr>ro_phase := ph\<rparr>) = room_inv r"
  "ro_players (bump r) = ro_players r" "ro_phase (bump r) = ro_phase r" "ro_rules (bump r) = ro_rules r"
  by (simp_all add: room_inv_def bump_def)

lemma room_inv_players:
  "room_inv r \<Longrightarrow> roster_ok ps \<Longrightarrow> room_inv (r\<lparr>ro_players := ps\<rparr>)"
  by (simp add: room_inv_def)

lemma room_inv_map:
  assumes "room_inv r" "\<And>p. same_identity p (f p)"
    "\<And>p. (pl_ready (f p) \<longrightarrow> pl_ready p) \<and> (pl_loaded (f p) \<longrightarrow> pl_loaded p)"
  shows "room_inv (r\<lparr>ro_players := map f (ro_players r)\<rparr>)"
  using assms by (intro room_inv_players roster_map) (auto simp: room_inv_def)

lemma invalidate_ready_inv: "room_inv r \<Longrightarrow> room_inv (invalidate_ready r)"
  using room_inv_map [of "bump r" "\<lambda>p. p\<lparr>pl_ready := False, pl_loaded := False\<rparr>"]
  by (simp add: invalidate_ready_def same_identity_def)

lemma update_player_inv:
  assumes "room_inv r" "find_player peer r = Some i" "\<And>p. same_identity p (f p)"
  shows "room_inv (update_player i f r)"
  unfolding update_player_def
  using assms find_player_Some [OF assms(2)]
  by (intro room_inv_players roster_update) (auto simp: room_inv_def)

lemma create_inv:
  assumes "lobby_create room_id join_code room_name visibility host host_name manifest rules r0 = (Inr (), r)"
  shows "room_inv r"
  using assms
  by (auto simp: lobby_create_def room_inv_def roster_ok_def player_ok_def distinct_peers_def
      new_player_def no_player_def kMaximumPlayers_def nth_Cons less_Suc_eq numeral_eq_Suc
      split: if_splits nat.splits)

lemma join_inv:
  assumes "room_inv r"
  shows "room_inv (snd (lobby_join peer name manifest r))"
proof (cases "\<exists>i. fst (lobby_join peer name manifest r) = Inr i")
  case True
  then obtain i where g: "peer \<noteq> []" "valid_display_name name" "find_player peer r = None"
    and f: "find (\<lambda>i. \<not> pl_occupied (ro_players r ! i)) [1..<unat (maximum_players (ro_rules r))] = Some i"
    and e: "snd (lobby_join peer name manifest r) =
      invalidate_ready (update_player i (\<lambda>_. new_player False (of_nat i) peer name) r)"
    by (auto simp: lobby_join_def Let_def split: if_splits option.splits)
  have "maximum_players (ro_rules r) \<le> kSupportedOnlinePlayers"
    using assms by (simp add: room_inv_def valid_rules_def)
  then have "unat (maximum_players (ro_rules r)) \<le> 4"
    by (simp add: kSupportedOnlinePlayers_def word_le_nat_alt)
  then have i: "0 < i" "i < length (ro_players r)" "\<not> pl_occupied (ro_players r ! i)"
    using f assms by (auto simp: find_Some_iff room_inv_def roster_ok_def kMaximumPlayers_def)
  have "roster_ok ((ro_players r)[i := new_player False (of_nat i) peer name])"
    using assms i g find_player_None [OF g(3)]
    by (intro roster_fill) (auto simp: room_inv_def player_ok_def new_player_def no_player_def)
  then show ?thesis
    unfolding e update_player_def using assms by (intro invalidate_ready_inv room_inv_players)
next
  case False
  then show ?thesis
    using assms by (auto simp: lobby_join_def Let_def split: if_splits option.splits)
qed

lemma leave_inv: "room_inv r \<Longrightarrow> room_inv (snd (lobby_leave peer r))"
proof (cases "find_player peer r")
  case (Some i)
  assume r: "room_inv r"
  note f = find_player_Some [OF Some]
  show ?thesis
  proof (cases "pl_host (ro_players r ! i)")
    case True
    then show ?thesis
      using Some r room_inv_map [of "r\<lparr>ro_phase := Finished\<rparr>" "\<lambda>p. p\<lparr>pl_ready := False, pl_loaded := False\<rparr>"]
      by (simp add: lobby_leave_def same_identity_def)
  next
    case False
    then have "0 < i" using r f by (auto simp: room_inv_def roster_ok_def player_ok_def)
    then have "roster_ok ((ro_players r)[i := no_player])"
      using r by (intro roster_empty) (auto simp: room_inv_def)
    then have "roster_ok (fold fill_slot [1..<length (ro_players r) - 1] ((ro_players r)[i := no_player]))"
      by (rule roster_fold_fill) auto
    then show ?thesis
      using Some False r
      by (simp add: lobby_leave_def invalidate_ready_inv normalize_slots_def update_player_def room_inv_players)
  qed
qed (simp add: lobby_leave_def)

lemma move_client_inv:
  assumes r: "room_inv r"
  shows "room_inv (snd (lobby_move_client host client slot r))"
proof (cases "fst (lobby_move_client host client slot r)")
  case (Inr u)
  then obtain i where f: "find_player client r = Some i" and g: "\<not> pl_host (ro_players r ! i)"
    "slot \<noteq> 0" "slot < maximum_players (ro_rules r)"
    and e: "snd (lobby_move_client host client slot r) = invalidate_ready (r\<lparr>ro_players :=
      swap_slots (unat (pl_slot (ro_players r ! i))) (unat slot) (ro_players r)\<rparr>)"
    by (auto simp: lobby_move_client_def not_le split: if_splits option.splits)
  note i = find_player_Some [OF f]
  have l: "length (ro_players r) = 4" using r by (simp add: room_inv_def roster_ok_def kMaximumPlayers_def)
  have "player_ok i (ro_players r ! i)" using r i by (simp add: room_inv_def roster_ok_def)
  then have s: "unat (pl_slot (ro_players r ! i)) = i" "0 < i"
    using i g(1) l by (auto simp: player_ok_def of_nat_u8_unat intro: gr0I)
  have "unat (maximum_players (ro_rules r)) \<le> 4"
    using r by (simp add: room_inv_def valid_rules_def kSupportedOnlinePlayers_def word_le_nat_alt)
  then have "unat slot < 4" using g(3) by (simp add: word_less_nat_alt)
  moreover have "0 < unat slot" using g(2) by (simp add: unat_gt_0)
  ultimately show ?thesis
    unfolding e using r s i l
    by (intro invalidate_ready_inv room_inv_players roster_swap) (auto simp: room_inv_def)
next
  case (Inl e)
  then show ?thesis
    using r by (auto simp: lobby_move_client_def split: if_splits option.splits)
qed

lemma perform_inv: "room_inv r \<Longrightarrow> room_inv (perform call r)"
proof (cases call)
  case (SetReady peer b)
  assume "room_inv r"
  then show ?thesis
    using SetReady
    by (auto simp: lobby_set_ready_def same_identity_def intro!: update_player_inv split: option.splits)
next
  case (SetLoaded peer b)
  assume "room_inv r"
  then show ?thesis
    using SetLoaded
    by (auto simp: lobby_set_loaded_def same_identity_def intro!: update_player_inv split: option.splits)
next
  case (SetMetrics peer route ping jitter loss)
  assume "room_inv r"
  then show ?thesis
    using SetMetrics
    by (auto simp: lobby_set_network_metrics_def same_identity_def intro!: update_player_inv split: option.splits)
next
  case (SetRules host rules)
  assume "room_inv r"
  then show ?thesis
    using SetRules
    by (auto simp: lobby_set_rules_def intro!: invalidate_ready_inv) (simp add: room_inv_def)
next
  case (BeginLoading e host)
  assume "room_inv r"
  then show ?thesis
    using BeginLoading room_inv_map [of "r\<lparr>ro_phase := Loading\<rparr>" "\<lambda>p. p\<lparr>pl_loaded := False\<rparr>"]
    by (auto simp: lobby_begin_loading_def same_identity_def split: sum.splits)
next
  case (BeginRunning host)
  assume "room_inv r"
  then show ?thesis using BeginRunning by (auto simp: lobby_begin_running_def)
next
  case ReturnToWaiting
  assume "room_inv r"
  then show ?thesis
    using ReturnToWaiting by (simp add: lobby_return_to_waiting_def invalidate_ready_inv)
qed (simp_all add: join_inv leave_inv move_client_inv)

lemma reachable_room_inv: "lobby_reachable r \<Longrightarrow> room_inv r"
  by (induction rule: lobby_reachable.induct) (auto intro: create_inv perform_inv)

subsection \<open>The generation stamps every visible change\<close>

text \<open>What a client is shown of a player, apart from the network metrics.\<close>

definition visible_player :: "Player \<Rightarrow> Player" where
  "visible_player p = p\<lparr>pl_route := RouteUnknown, pl_ping_ms := 0, pl_jitter_ms := 0,
     pl_packet_loss_percent := Finite 0\<rparr>"

definition visible_room :: "Room \<Rightarrow> Room" where
  "visible_room r = r\<lparr>ro_players := map visible_player (ro_players r)\<rparr>"

lemma word_Suc_neq: "(g :: u64) + 1 \<noteq> g"
  by simp

lemma room_phase_same: "ro_phase r = ph \<Longrightarrow> r\<lparr>ro_phase := ph\<rparr> = r"
  by auto

lemma perform_generation:
  "ro_generation (perform call r) = ro_generation r + 1 \<or>
   (ro_generation (perform call r) = ro_generation r \<and>
    visible_room (perform call r) = visible_room r)"
proof (cases call)
  case (SetMetrics peer route ping jitter loss)
  have "map visible_player (ps[i := (ps ! i)\<lparr>pl_route := route, pl_ping_ms := ping,
      pl_jitter_ms := jitter, pl_packet_loss_percent := f32_clamp loss (Finite 0) (Finite 100)\<rparr>]) =
      map visible_player ps" for ps :: "Player list" and i
  proof (rule nth_equalityI)
    fix k assume "k < length (map visible_player (ps[i := (ps ! i)\<lparr>pl_route := route, pl_ping_ms := ping,
      pl_jitter_ms := jitter, pl_packet_loss_percent := f32_clamp loss (Finite 0) (Finite 100)\<rparr>]))"
    then show "map visible_player (ps[i := (ps ! i)\<lparr>pl_route := route, pl_ping_ms := ping,
      pl_jitter_ms := jitter, pl_packet_loss_percent := f32_clamp loss (Finite 0) (Finite 100)\<rparr>]) ! k =
      map visible_player ps ! k"
      by (cases "k = i") (simp_all add: visible_player_def)
  qed simp
  then show ?thesis
    using SetMetrics
    by (auto simp: lobby_set_network_metrics_def update_player_def visible_room_def split: option.splits)
qed (auto simp: lobby_join_def lobby_leave_def lobby_move_client_def lobby_set_ready_def
      lobby_set_loaded_def lobby_set_rules_def lobby_begin_loading_def lobby_begin_running_def
      lobby_return_to_waiting_def invalidate_ready_def normalize_slots_def update_player_def bump_def
      room_phase_same Let_def split: option.splits sum.splits)

subsection \<open>The start barriers\<close>

lemma room_inv_host:
  assumes "room_inv r"
  shows "0 < length (ro_players r)" "player_ok 0 (ro_players r ! 0)"
  using assms by (auto simp: room_inv_def roster_ok_def kMaximumPlayers_def)

lemma is_host_iff:
  assumes "room_inv r"
  shows "is_host peer r \<longleftrightarrow> pl_peer_id (ro_players r ! 0) = peer"
proof
  assume "is_host peer r"
  then obtain i where "find_player peer r = Some i" "pl_host (ro_players r ! i)"
    by (auto simp: is_host_def split: option.splits)
  then show "pl_peer_id (ro_players r ! 0) = peer"
    using assms find_player_Some by (fastforce simp: room_inv_def roster_ok_def player_ok_def)
next
  assume p: "pl_peer_id (ro_players r ! 0) = peer"
  have z: "0 < length (ro_players r)" "pl_occupied (ro_players r ! 0)" "pl_host (ro_players r ! 0)"
    using room_inv_host [OF assms] by (simp_all add: player_ok_def)
  then obtain i where i: "find_player peer r = Some i"
    using find_player_None [of peer r 0] p by (cases "find_player peer r") auto
  have "i = 0"
    using assms find_player_Some [OF i] p z by (auto simp: room_inv_def roster_ok_def distinct_peers_def)
  then show "is_host peer r" using i z by (simp add: is_host_def)
qed

lemma begin_loading_success:
  "fst (lobby_begin_loading error host r) = Inr () \<longleftrightarrow> is_host host r \<and> lobby_can_start r = Inr ()"
  by (auto simp: lobby_begin_loading_def split: sum.splits)

lemma can_start_iff:
  assumes "room_inv r"
  shows "lobby_can_start r = Inr () \<longleftrightarrow>
    ro_phase r = Waiting \<and> 2 \<le> player_count r \<and>
    (player_count r > 2 \<longrightarrow> magic_codes_hash (ro_manifest r) AND push_bit 24 1 = 0) \<and>
    (\<forall>p \<in> set (ro_players r). pl_occupied p \<longrightarrow> pl_ready p)"
  using assms
  by (auto simp: lobby_can_start_def list_ex_iff not_less room_inv_def roster_ok_def player_ok_def in_set_conv_nth)

text \<open>How the phase can change in one call.\<close>

lemma perform_phase:
  "ro_phase (perform call r) = ro_phase r \<or>
   (ro_phase (perform call r) = Loading \<and> ro_phase r = Waiting \<and> lobby_can_start r = Inr () \<and>
      (\<exists>error host. call = BeginLoading error host \<and> is_host host r)) \<or>
   (ro_phase (perform call r) = Running \<and> ro_phase r = Loading \<and>
      (\<forall>p \<in> set (ro_players r). pl_occupied p \<longrightarrow> pl_loaded p) \<and>
      (\<exists>host. call = BeginRunning host \<and> is_host host r)) \<or>
   (ro_phase (perform call r) = Waiting \<and> call = ReturnToWaiting) \<or>
   (ro_phase (perform call r) = Finished \<and> (\<exists>host. call = Leave host \<and> is_host host r))"
proof (cases call)
  case (BeginLoading error host)
  then show ?thesis
    by (auto simp: lobby_begin_loading_def bump_def lobby_can_start_def split: sum.splits if_splits)
next
  case (BeginRunning host)
  then show ?thesis by (auto simp: lobby_begin_running_def bump_def list_ex_iff)
next
  case (Leave peer)
  then show ?thesis
    by (auto simp: lobby_leave_def bump_def invalidate_ready_def normalize_slots_def update_player_def
        is_host_def split: option.splits)
qed (auto simp: lobby_join_def lobby_move_client_def lobby_set_ready_def lobby_set_loaded_def
      lobby_set_rules_def lobby_set_network_metrics_def lobby_return_to_waiting_def
      invalidate_ready_def update_player_def bump_def Let_def split: option.splits)

subsection \<open>The roster has no gaps unless a client is moved\<close>

definition contiguous :: "Player list \<Rightarrow> bool" where
  "contiguous ps \<longleftrightarrow> (\<forall>i < length ps. pl_occupied (ps ! i) \<longleftrightarrow> i < length (filter pl_occupied ps))"

definition room_full_ok :: "Room \<Rightarrow> bool" where
  "room_full_ok r \<longleftrightarrow> room_inv r \<and> contiguous (ro_players r) \<and>
     player_count r \<le> unat (maximum_players (ro_rules r))"

lemma roster_cases:
  assumes "room_inv r"
  obtains a b c d where "ro_players r = [a, b, c, d]" "pl_occupied a"
  using assms room_inv_host [OF assms]
  by (auto simp: room_inv_def roster_ok_def kMaximumPlayers_def player_ok_def length_Suc_conv numeral_eq_Suc)

lemma contiguous_4:
  "contiguous [a, b, c, d] \<longleftrightarrow>
     (pl_occupied b \<longrightarrow> pl_occupied a) \<and> (pl_occupied c \<longrightarrow> pl_occupied b) \<and> (pl_occupied d \<longrightarrow> pl_occupied c)"
  by (auto simp: contiguous_def nth_Cons less_Suc_eq split: nat.splits)

lemma occupied_no_player [simp]: "\<not> pl_occupied no_player" "pl_occupied (new_player h i peer name)"
  by (simp_all add: no_player_def new_player_def)

text \<open>Normalising closes every gap behind the host.\<close>

lemma normalize_contiguous:
  assumes "pl_occupied a"
  shows "contiguous (fold fill_slot [1..<3] [a, b, c, d])"
    and "length (filter pl_occupied (fold fill_slot [1..<3] [a, b, c, d])) =
      length (filter pl_occupied [a, b, c, d])"
proof -
  have u: "[1..<3] = [1, 2 :: nat]" "[2..<4] = [2, 3 :: nat]" "[3..<4] = [3 :: nat]"
    by (simp_all add: upt_rec)
  show "contiguous (fold fill_slot [1..<3] [a, b, c, d])"
    "length (filter pl_occupied (fold fill_slot [1..<3] [a, b, c, d])) =
      length (filter pl_occupied [a, b, c, d])"
    using assms by (auto simp: u fill_slot_def contiguous_4 numeral_eq_Suc)
qed

lemma occupied_map:
  assumes "\<And>p. pl_occupied (f p) = pl_occupied p"
  shows "filter pl_occupied (map f ps) = map f (filter pl_occupied ps)"
    "contiguous (map f ps) = contiguous ps"
proof -
  show f: "filter pl_occupied (map f ps) = map f (filter pl_occupied ps)"
    using assms by (simp add: filter_map comp_def)
  show "contiguous (map f ps) = contiguous ps"
    using assms f by (auto simp: contiguous_def)
qed

lemma occupied_update:
  assumes "pl_occupied q = pl_occupied (ps ! i)"
  shows "map pl_occupied (ps[i := q]) = map pl_occupied ps"
  using assms list_update_id [of "map pl_occupied ps" i]
  by (cases "i < length ps") (simp_all add: map_update list_update_beyond not_less)

lemma contiguous_occupied:
  assumes "map pl_occupied ps = map pl_occupied qs"
  shows "contiguous ps = contiguous qs" "length (filter pl_occupied ps) = length (filter pl_occupied qs)"
proof -
  have "length (filter id (map pl_occupied ps)) = length (filter id (map pl_occupied qs))"
    using assms by simp
  then show f: "length (filter pl_occupied ps) = length (filter pl_occupied qs)"
    by (simp add: filter_map comp_def)
  have "length ps = length qs" using assms by (metis length_map)
  moreover have "pl_occupied (ps ! i) = pl_occupied (qs ! i)" if "i < length qs" for i
    using assms that calculation by (metis nth_map)
  ultimately show "contiguous ps = contiguous qs" using f by (auto simp: contiguous_def)
qed

lemma maximum_cases:
  assumes "room_inv r"
  shows "unat (maximum_players (ro_rules r)) \<in> {2, 3, 4}"
  using assms by (auto simp: room_inv_def valid_rules_def kSupportedOnlinePlayers_def word_le_nat_alt)

lemma join_full_ok:
  assumes r: "room_full_ok r"
  shows "room_full_ok (snd (lobby_join peer name manifest r))"
proof (cases "\<exists>i. fst (lobby_join peer name manifest r) = Inr i")
  case True
  then obtain i where
    f: "find (\<lambda>i. \<not> pl_occupied (ro_players r ! i)) [1..<unat (maximum_players (ro_rules r))] = Some i"
    and e: "snd (lobby_join peer name manifest r) =
      invalidate_ready (update_player i (\<lambda>_. new_player False (of_nat i) peer name) r)"
    by (auto simp: lobby_join_def Let_def split: if_splits option.splits)
  have inv: "room_inv r" using r by (simp add: room_full_ok_def)
  obtain a b c d where ps: "ro_players r = [a, b, c, d]" "pl_occupied a" using roster_cases [OF inv] .
  have u: "[1..<2] = [1 :: nat]" "[1..<3] = [1, 2 :: nat]" "[1..<4] = [1, 2, 3 :: nat]"
    by (simp_all add: upt_rec)
  have "contiguous ((ro_players r)[i := new_player False (of_nat i) peer name]) \<and>
      length (filter pl_occupied ((ro_players r)[i := new_player False (of_nat i) peer name])) \<le>
        unat (maximum_players (ro_rules r))"
    using maximum_cases [OF inv] f r
    by (auto simp: ps u contiguous_4 room_full_ok_def numeral_eq_Suc split: if_splits)
  then show ?thesis
    unfolding room_full_ok_def using join_inv [OF inv, of peer name manifest]
    by (simp add: e invalidate_ready_def update_player_def player_count_def occupied_map)
next
  case False
  then show ?thesis
    using r by (auto simp: lobby_join_def Let_def split: if_splits option.splits)
qed

lemma leave_full_ok:
  assumes r: "room_full_ok r"
  shows "room_full_ok (snd (lobby_leave peer r))"
proof (cases "find_player peer r")
  case (Some i)
  have inv: "room_inv r" using r by (simp add: room_full_ok_def)
  have inv': "room_inv (snd (lobby_leave peer r))" by (rule leave_inv [OF inv])
  show ?thesis
  proof (cases "pl_host (ro_players r ! i)")
    case True
    then show ?thesis
      using Some r inv' by (auto simp: room_full_ok_def lobby_leave_def player_count_def occupied_map bump_def)
  next
    case False
    obtain a b c d where ps: "ro_players r = [a, b, c, d]" "pl_occupied a" using roster_cases [OF inv] .
    have "0 < i" "i < 4"
      using find_player_Some [OF Some] False room_inv_host [OF inv] ps by (auto simp: player_ok_def intro: gr0I)
    then obtain a' b' c' d' where
      qs: "(ro_players r)[i := no_player] = [a', b', c', d']" "pl_occupied a'"
      "length (filter pl_occupied [a', b', c', d']) \<le> length (filter pl_occupied (ro_players r))"
      by (auto simp: ps less_Suc_eq numeral_eq_Suc)
    let ?ns = "fold fill_slot [1..<3] [a', b', c', d']"
    have l: "length (ro_players r) - 1 = 3" by (simp add: ps)
    have "fold fill_slot [1..<length ((ro_players r)[i := no_player]) - 1] ((ro_players r)[i := no_player]) = ?ns"
      using l qs(1) by (metis length_list_update)
    then have "ro_players (snd (lobby_leave peer r)) =
        map (\<lambda>p. p\<lparr>pl_ready := False, pl_loaded := False\<rparr>) ?ns"
      "ro_rules (snd (lobby_leave peer r)) = ro_rules r"
      using Some False
      by (simp_all add: lobby_leave_def invalidate_ready_def normalize_slots_def update_player_def bump_def)
    moreover have "length (filter pl_occupied ?ns) \<le> unat (maximum_players (ro_rules r))"
      unfolding normalize_contiguous(2) [OF qs(2)] using qs(3) r
      unfolding room_full_ok_def player_count_def by linarith
    ultimately show ?thesis
      using inv' normalize_contiguous(1) [OF qs(2), of b' c' d']
      by (simp add: room_full_ok_def player_count_def occupied_map)
  qed
qed (use r in \<open>simp add: lobby_leave_def\<close>)

fun is_move :: "lobby_call \<Rightarrow> bool" where
  "is_move (MoveClient _ _ _) = True"
| "is_move _ = False"

lemma perform_full_ok:
  assumes "room_full_ok r" "\<not> is_move call"
  shows "room_full_ok (perform call r)"
proof -
  have inv': "room_inv (perform call r)" using assms(1) by (simp add: room_full_ok_def perform_inv)
  have keep: "room_full_ok r'"
    if "room_inv r'" "map pl_occupied (ro_players r') = map pl_occupied (ro_players r)"
      "length (filter pl_occupied (ro_players r)) \<le> unat (maximum_players (ro_rules r'))" for r'
    using that assms(1) contiguous_occupied [OF that(2)] by (simp add: room_full_ok_def player_count_def)
  have cnt: "length (filter pl_occupied (ro_players r)) \<le> unat (maximum_players (ro_rules r))"
    using assms(1) by (simp add: room_full_ok_def player_count_def)
  show ?thesis
  proof (cases call)
    case (Join p n m)
    then show ?thesis using join_full_ok [OF assms(1)] by simp
  next
    case (Leave p)
    then show ?thesis using leave_full_ok [OF assms(1)] by simp
  next
    case (MoveClient h c s)
    then show ?thesis using assms(2) by simp
  next
    case (SetReady p b)
    then show ?thesis
      using cnt inv' by (intro keep)
        (auto simp: lobby_set_ready_def update_player_def occupied_update bump_def split: option.splits)
  next
    case (SetLoaded p b)
    then show ?thesis
      using cnt inv' by (intro keep)
        (auto simp: lobby_set_loaded_def update_player_def occupied_update bump_def split: option.splits)
  next
    case (SetMetrics p a b c d)
    then show ?thesis
      using cnt inv' by (intro keep)
        (auto simp: lobby_set_network_metrics_def update_player_def occupied_update split: option.splits)
  next
    case (SetRules h rules)
    then show ?thesis
      using cnt inv' by (intro keep)
        (auto simp: lobby_set_rules_def invalidate_ready_def bump_def player_count_def not_less)
  next
    case (BeginLoading e h)
    then show ?thesis
      using cnt inv' by (intro keep)
        (auto simp: lobby_begin_loading_def bump_def split: sum.splits)
  next
    case (BeginRunning h)
    then show ?thesis
      using cnt inv' by (intro keep) (auto simp: lobby_begin_running_def bump_def)
  next
    case ReturnToWaiting
    then show ?thesis
      using cnt inv' by (intro keep) (auto simp: lobby_return_to_waiting_def invalidate_ready_def bump_def)
  qed
qed

lemma create_full_ok:
  assumes "lobby_create room_id join_code room_name visibility host host_name manifest rules r0 = (Inr (), r)"
  shows "room_full_ok r"
proof -
  have "room_inv r" using assms by (rule create_inv)
  then show ?thesis
    using assms maximum_cases [of r]
    by (auto simp: room_full_ok_def lobby_create_def contiguous_4 player_count_def kMaximumPlayers_def
        numeral_eq_Suc split: if_splits)
qed

lemma run_full_ok:
  "room_full_ok r \<Longrightarrow> \<forall>call \<in> set calls. \<not> is_move call \<Longrightarrow> room_full_ok (fold perform calls r)"
  by (induction calls arbitrary: r) (auto simp: perform_full_ok)

lemma run_reachable: "lobby_reachable r \<Longrightarrow> lobby_reachable (fold perform calls r)"
  by (induction calls arbitrary: r) (auto intro: lobby_reachable.called)

subsection \<open>A concrete room\<close>

text \<open>The room a host creates with the rules' defaults, for the examples.\<close>

definition example_manifest :: CompatibilityManifest where
  "example_manifest = \<lparr>protocol_version = 1, release_version = ''1'', build_fingerprint = ''b'',
     revision = UsV77, canonical_rom_hash = 1, patch_policy_hash = 1, gameplay_settings_hash = 1,
     magic_codes_hash = 0, session_save_hash = 1, simulation_rate = 30, architecture = ''x'',
     floating_point_mode = ''f''\<rparr>"

definition example_rules :: "u8 \<Rightarrow> Rules" where
  "example_rules maximum = \<lparr>host_control = HostSharedMenus, maximum_players = maximum,
     automatic_input_delay = True, manual_input_delay = 2, rollback_window = 8,
     synchronization = Rollback, relay_only = False, record_replay = False\<rparr>"

definition example_room :: "u8 \<Rightarrow> Room" where
  "example_room maximum =
     \<lparr>ro_room_id = ''r'', ro_join_code = ''ABCDEF'', ro_name = ''Room'', ro_visibility = Private,
      ro_phase = Waiting, ro_rules = example_rules maximum, ro_manifest = example_manifest,
      ro_players = [new_player True 0 ''h'' ''Host'', no_player, no_player, no_player],
      ro_generation = 1\<rparr>"

lemma example_names [simp]:
  "valid_room_name ''Room''" "valid_display_name ''Host''" "valid_display_name ''Guest''"
  by code_simp+

lemma example_created:
  "2 \<le> maximum \<Longrightarrow> maximum \<le> 4 \<Longrightarrow>
   lobby_create ''r'' ''ABCDEF'' ''Room'' Private ''h'' ''Host'' example_manifest
     (example_rules maximum) r = (Inr (), example_room maximum)"
  by (simp add: lobby_create_def example_room_def example_rules_def valid_rules_def
      netplay_limits numeral_3_eq_3)

lemmas example_run = example_room_def example_rules_def lobby_join_def lobby_set_ready_def
  lobby_move_client_def lobby_set_rules_def is_host_def find_player_def invalidate_ready_def
  update_player_def bump_def new_player_def no_player_def incompatibility_reason_def
  player_count_def swap_slots_def valid_rules_def netplay_limits upt_conv_Cons Let_def

end
