(* ===== verification/Launch.thy ===== *)
theory Launch
  imports Protocol_Lobby Protocol_Launch Lobby
begin

section \<open>From the lobby to the synchronized start\<close>

text \<open>
  Models the part of \<^verbatim>\<open>direct_session.cpp\<close> that connects the lobby, the wire and the
  launch: the lobby state the host sends (\<^verbatim>\<open>lobby_payload\<close>) and a client applies
  (\<^verbatim>\<open>apply_lobby_payload\<close> with \<^verbatim>\<open>apply_online_save_status_locked\<close>), the launch
  descriptor the host makes and a client validates, and the admission of a manifest with a
  save to synchronize. The record holds the members of \<^verbatim>\<open>DirectSession\<close> these functions
  read and write. Points of the steady clock are integers in nanoseconds; the functions that
  read the clock take its value as an argument.
\<close>

subsection \<open>Model\<close>

datatype ConnectionState =
    StateOffline | StateHosting | StateConnecting | StateAwaitingApproval | StateLobby
  | StateLoading | StateRunning | StateFailed

datatype LaunchStage = StageIdle | StageCountdown | StagePreparing | StageCommitting | StageReleasing

record DirectSession =
  ds_is_host :: bool
  ds_state :: ConnectionState
  ds_lobby :: Room
  ds_room_view :: Room
  ds_manifest :: CompatibilityManifest
  ds_match_id :: u64
  ds_local_slot :: u8
  ds_input_delay :: u8
  ds_local_loaded :: bool
  ds_launch_descriptor :: "LaunchDescriptor option"
  ds_launch_stage :: LaunchStage
  ds_countdown_active :: bool
  ds_countdown_generation :: u32
  ds_countdown_deadline :: int
  ds_remote_countdown_remaining_ms :: u32
  ds_remote_countdown_received_at :: int
  ds_session_save :: bytes
  ds_session_save_generation :: u32
  ds_local_online_save_ready :: bool
  ds_local_online_save_acknowledged :: bool
  ds_online_save_status :: "OnlineSaveStatusPayload option"
  ds_status :: string

text \<open>\<^verbatim>\<open>duration_cast<milliseconds>\<close> rounds towards zero.\<close>

definition to_milliseconds :: "int \<Rightarrow> int" where
  "to_milliseconds d = (if 0 \<le> d then d div 1000000 else - (- d div 1000000))"

definition payload_player :: "nat \<Rightarrow> Player \<Rightarrow> LobbyPlayerPayload" where
  "payload_player index source =
     \<lparr>lp_occupied = pl_occupied source, lp_ready = pl_ready source, lp_loaded = pl_loaded source,
      lp_slot = of_nat index, lp_display_name = pl_display_name source,
      lp_route = pl_route source, lp_ping_ms = pl_ping_ms source,
      lp_jitter_ms = pl_jitter_ms source,
      lp_packet_loss_percent = pl_packet_loss_percent source\<rparr>"

definition lobby_payload :: "int \<Rightarrow> DirectSession \<Rightarrow> LobbyStatePayload" where
  "lobby_payload now s =
     (let room = ds_lobby s in
      \<lparr>ls_generation = ro_generation room, ls_phase = ro_phase room, ls_room_name = ro_name room,
       ls_visibility = ro_visibility room, ls_rules = ro_rules room,
       ls_input_delay_frames = ds_input_delay s, ls_countdown_active = ds_countdown_active s,
       ls_countdown_remaining_ms =
         (if ds_countdown_active s
          then of_int (max 0 (min 5000 (to_milliseconds (ds_countdown_deadline s - now)))) else 0),
       ls_countdown_generation = ds_countdown_generation s,
       ls_players = map (\<lambda>index. payload_player index (ro_players room ! index))
         [0..<length (ro_players room)]\<rparr>)"

definition apply_online_save_status_locked ::
  "OnlineSaveStatusPayload \<Rightarrow> DirectSession \<Rightarrow> DirectSession" where
  "apply_online_save_status_locked payload s =
     (if ds_is_host s \<or> ds_state s \<noteq> StateLobby \<or> \<not> ds_local_online_save_ready s \<or>
         ot_save_generation payload \<noteq> ds_session_save_generation s \<or>
         ot_save_hash payload \<noteq> session_save_hash (ds_manifest s) \<or>
         ot_room_generation payload < ro_generation (ds_room_view s) \<or>
         (case ds_online_save_status s of None \<Rightarrow> False
          | Some status \<Rightarrow> ot_room_generation payload < ot_room_generation status)
      then s
      else
        let updated = (case ds_online_save_status s of
              Some status \<Rightarrow>
                if ot_room_generation status = ot_room_generation payload
                then payload\<lparr>ot_verified_mask := ot_verified_mask payload OR ot_verified_mask status\<rparr>
                else payload
            | None \<Rightarrow> payload);
            s = s\<lparr>ds_online_save_status := Some updated\<rparr>
        in if ot_room_generation updated = ro_generation (ds_room_view s) \<and>
              unat (ds_local_slot s) < kMaximumPlayers \<and>
              pl_occupied (ro_players (ds_room_view s) ! unat (ds_local_slot s)) \<and>
              ot_verified_mask updated AND push_bit (unat (ds_local_slot s)) 1 \<noteq> 0
           then s\<lparr>ds_local_online_save_acknowledged := True\<rparr> else s)"

definition apply_lobby_player :: "bool \<Rightarrow> nat \<Rightarrow> LobbyPlayerPayload \<Rightarrow> Player \<Rightarrow> Player" where
  "apply_lobby_player semantic_update index source destination =
     (let destination = (if semantic_update
            then no_player\<lparr>pl_occupied := lp_occupied source, pl_ready := lp_ready source,
              pl_loaded := lp_loaded source, pl_slot := of_nat index,
              pl_host := (index = 0 \<and> lp_occupied source),
              pl_display_name := lp_display_name source\<rparr>
            else destination)
      in if semantic_update \<or> pl_occupied destination = lp_occupied source
         then destination\<lparr>pl_route := lp_route source, pl_ping_ms := lp_ping_ms source,
           pl_jitter_ms := lp_jitter_ms source,
           pl_packet_loss_percent := lp_packet_loss_percent source\<rparr>
         else destination)"

definition apply_countdown :: "int \<Rightarrow> LobbyStatePayload \<Rightarrow> DirectSession \<Rightarrow> DirectSession" where
  "apply_countdown now payload s =
     (if ls_countdown_generation payload > ds_countdown_generation s then
        s\<lparr>ds_countdown_active := ls_countdown_active payload,
          ds_countdown_generation := ls_countdown_generation payload,
          ds_remote_countdown_remaining_ms := ls_countdown_remaining_ms payload,
          ds_remote_countdown_received_at := now,
          ds_launch_stage := (if ls_countdown_active payload then StageCountdown else StageIdle)\<rparr>
      else if ls_countdown_generation payload = ds_countdown_generation s then
        let s = s\<lparr>ds_countdown_active := ls_countdown_active payload\<rparr> in
        if ls_countdown_active payload then
          s\<lparr>ds_launch_stage := (if ds_launch_stage s = StageIdle then StageCountdown
                                 else ds_launch_stage s),
            ds_remote_countdown_remaining_ms := ls_countdown_remaining_ms payload,
            ds_remote_countdown_received_at := now\<rparr>
        else
          s\<lparr>ds_launch_stage := (if ds_launch_stage s = StageCountdown then StageIdle
                                 else ds_launch_stage s),
            ds_remote_countdown_remaining_ms := 0, ds_remote_countdown_received_at := 0\<rparr>
      else s)"

text \<open>The first half of \<^verbatim>\<open>apply_lobby_payload\<close>: the fields of the room and the loop over its players.\<close>

definition apply_lobby_fields :: "LobbyStatePayload \<Rightarrow> DirectSession \<Rightarrow> DirectSession" where
  "apply_lobby_fields payload s =
     s\<lparr>ds_room_view := (ds_room_view s)\<lparr>ro_generation := ls_generation payload,
         ro_phase := ls_phase payload, ro_name := ls_room_name payload,
         ro_visibility := ls_visibility payload, ro_rules := ls_rules payload\<rparr>,
       ds_input_delay := ls_input_delay_frames payload\<rparr>"

definition apply_lobby_players :: "bool \<Rightarrow> LobbyStatePayload \<Rightarrow> DirectSession \<Rightarrow> DirectSession" where
  "apply_lobby_players semantic_update payload s =
     s\<lparr>ds_room_view := (ds_room_view s)\<lparr>ro_players :=
         map (\<lambda>index. apply_lobby_player semantic_update index
                (ls_players payload ! index) (ro_players (ds_room_view s) ! index))
           [0..<length (ls_players payload)]\<rparr>\<rparr>"

definition apply_lobby_payload :: "int \<Rightarrow> LobbyStatePayload \<Rightarrow> DirectSession \<Rightarrow> DirectSession" where
  "apply_lobby_payload now payload s =
     (if ls_generation payload < ro_generation (ds_room_view s) then s
      else
        let semantic_update = (ls_generation payload > ro_generation (ds_room_view s));
            s = (if semantic_update then apply_lobby_fields payload s else s);
            s = apply_lobby_players semantic_update payload s;
            s = (case ds_online_save_status s of None \<Rightarrow> s
                 | Some status \<Rightarrow> apply_online_save_status_locked status s);
            s = apply_countdown now payload s
        in if \<not> ds_is_host s \<and> semantic_update \<and> ls_phase payload = Running \<and> ds_local_loaded s
           then s\<lparr>ds_state := StateRunning, ds_status := ''Every racer is synchronized. Go!''\<rparr>
           else s)"

text \<open>The loop over the slots that builds a mask of the occupied ones.\<close>

definition occupied_mask_of :: "Player list \<Rightarrow> u8" where
  "occupied_mask_of ps = foldl (\<lambda>mask slot.
     if pl_occupied (ps ! slot) then mask OR ucast (push_bit slot (1 :: u32)) else mask) 0 [0..<length ps]"

definition make_launch_descriptor :: "DirectSession \<Rightarrow> LaunchDescriptor" where
  "make_launch_descriptor s =
     (let room = ds_lobby s; rules = ro_rules room in
      \<lparr>ld_match_id = ds_match_id s, ld_lobby_generation = ro_generation room,
       ld_compatibility_hash = manifest_hash (ds_manifest s),
       ld_occupied_mask = occupied_mask_of (ro_players room),
       ld_player_count = foldl (\<lambda>n slot. if pl_occupied (ro_players room ! slot) then n + 1 else n) 0
         [0..<length (ro_players room)],
       ld_input_delay_frames = ds_input_delay s,
       ld_rollback_window = (if synchronization rules = Rollback then rollback_window rules else 0),
       ld_synchronization = synchronization rules, ld_host_control = host_control rules\<rparr>)"

definition descriptor_occupied :: "LaunchDescriptor \<Rightarrow> u8 \<Rightarrow> bool" where
  "descriptor_occupied d slot \<longleftrightarrow>
     unat slot < kMaximumPlayers \<and> ld_occupied_mask d AND ucast (push_bit (unat slot) (1 :: u32)) \<noteq> 0"

definition validate_start_descriptor :: "StartPayload \<Rightarrow> DirectSession \<Rightarrow> unit result" where
  "validate_start_descriptor payload s =
     (let d = st_descriptor payload; rules = ro_rules (ds_room_view s) in
      if \<not> valid_launch_descriptor d \<or> st_descriptor_hash payload \<noteq> launch_descriptor_hash d \<or>
         ld_match_id d \<noteq> ds_match_id s \<or>
         ld_compatibility_hash d \<noteq> manifest_hash (ds_manifest s) \<or>
         ld_synchronization d \<noteq> synchronization rules \<or>
         ld_rollback_window d \<noteq> (if synchronization rules = Rollback then rollback_window rules else 0) \<or>
         kMaximumPlayers \<le> unat (ds_local_slot s) \<or> \<not> descriptor_occupied d (ds_local_slot s)
      then Inl ''The synchronized start does not match this racer or build.''
      else if occupied_mask_of (ro_players (ds_room_view s)) \<noteq> ld_occupied_mask d
      then Inl ''The lobby roster changed before the synchronized start.''
      else if ds_launch_descriptor s \<noteq> None \<and> ds_launch_descriptor s \<noteq> Some d
      then Inl ''Player 1 sent conflicting synchronized start rosters.''
      else Inr ())"

definition save_sync_available :: "DirectSession \<Rightarrow> bool" where
  "save_sync_available s =
     (if length (ds_session_save s) \<noteq> 512 \<or> ds_session_save_generation s = 0 then False
      else session_save_hash (ds_manifest s) = stable_hash (ds_session_save s))"

definition admission_incompatibility :: "CompatibilityManifest \<Rightarrow> DirectSession \<Rightarrow> string" where
  "admission_incompatibility candidate s =
     (let after_save_sync = candidate\<lparr>session_save_hash := session_save_hash (ds_manifest s)\<rparr>;
          other = incompatibility_reason (ds_manifest s) after_save_sync in
      if other \<noteq> [] then other
      else if session_save_hash candidate \<noteq> session_save_hash (ds_manifest s) \<and>
              \<not> save_sync_available s
      then ''The host session save differs and Player 1 has no validated save to synchronize.''
      else [])"

subsection \<open>The descriptor of a room is valid\<close>

lemma mask_4:
  "occupied_mask_of [a, b, c, d] = (if pl_occupied a then 1 else 0) OR (if pl_occupied b then 2 else 0)
     OR (if pl_occupied c then 4 else 0) OR (if pl_occupied d then 8 else 0)"
proof -
  have u: "[0..<length [a, b, c, d]] = [0, 1, 2, 3]" by (simp add: upt_rec)
  show ?thesis unfolding occupied_mask_of_def u by (simp add: push_bit_of_1)
qed

lemma launch_descriptor_valid:
  assumes ok: "room_full_ok (ds_lobby s)" and two: "2 \<le> player_count (ds_lobby s)"
    and ids: "ds_match_id s \<noteq> 0" "ro_generation (ds_lobby s) \<noteq> 0" "manifest_hash (ds_manifest s) \<noteq> 0"
    and delay: "ds_input_delay s \<le> kMaximumInputDelayFrames"
  shows "valid_launch_descriptor (make_launch_descriptor s)"
proof -
  have inv: "room_inv (ds_lobby s)" using ok by (simp add: room_full_ok_def)
  obtain a b c d where ps: "ro_players (ds_lobby s) = [a, b, c, d]" "pl_occupied a"
    using roster_cases [OF inv] .
  have u: "[0..<length [a, b, c, d]] = [0, 1, 2, 3]" by (simp add: upt_rec)
  have rules: "valid_rules (ro_rules (ds_lobby s))" using inv by (simp add: room_inv_def)
  have ct: "contiguous [a, b, c, d]" "2 \<le> length (filter pl_occupied [a, b, c, d])"
    using ok two ps by (simp_all add: room_full_ok_def player_count_def)
  have "ld_occupied_mask (make_launch_descriptor s) = occupied_mask_of [a, b, c, d]"
    "ld_player_count (make_launch_descriptor s) =
      foldl (\<lambda>n slot. if pl_occupied ([a, b, c, d] ! slot) then n + 1 else n) 0 [0, 1, 2, 3]"
    unfolding make_launch_descriptor_def Let_def ps(1) u by simp_all
  then show ?thesis
    using ids delay rules ct ps(2)
    by (auto simp: valid_launch_descriptor_def make_launch_descriptor_def Let_def mask_4 contiguous_4
        valid_rules_def netplay_limits push_bit_of_1 split: SynchronizationMode.splits HostControlPolicy.splits)
qed

subsection \<open>A client's view of the room after an update\<close>

lemma occupied_mask_cong:
  assumes "map pl_occupied ps = map pl_occupied qs"
  shows "occupied_mask_of ps = occupied_mask_of qs"
proof -
  have l: "length ps = length qs" using assms by (rule map_eq_imp_length_eq)
  have "pl_occupied (ps ! i) = pl_occupied (qs ! i)" if "i < length qs" for i
    using nth_map [of i ps pl_occupied] nth_map [of i qs pl_occupied] assms l that by simp
  then show ?thesis unfolding occupied_mask_of_def l by (intro foldl_cong) auto
qed

lemma save_status_simps [simp]:
  "ds_room_view (apply_online_save_status_locked p s) = ds_room_view s"
  "ds_match_id (apply_online_save_status_locked p s) = ds_match_id s"
  "ds_manifest (apply_online_save_status_locked p s) = ds_manifest s"
  "ds_local_slot (apply_online_save_status_locked p s) = ds_local_slot s"
  "ds_launch_descriptor (apply_online_save_status_locked p s) = ds_launch_descriptor s"
  by (simp_all add: apply_online_save_status_locked_def Let_def)

lemma countdown_simps [simp]:
  "ds_room_view (apply_countdown now p s) = ds_room_view s"
  "ds_match_id (apply_countdown now p s) = ds_match_id s"
  "ds_manifest (apply_countdown now p s) = ds_manifest s"
  "ds_local_slot (apply_countdown now p s) = ds_local_slot s"
  "ds_launch_descriptor (apply_countdown now p s) = ds_launch_descriptor s"
  by (simp_all add: apply_countdown_def Let_def)

lemma apply_lobby_parts [simp]:
  "ds_match_id (apply_lobby_fields p s) = ds_match_id s" "ds_manifest (apply_lobby_fields p s) = ds_manifest s"
  "ds_local_slot (apply_lobby_fields p s) = ds_local_slot s"
  "ds_launch_descriptor (apply_lobby_fields p s) = ds_launch_descriptor s"
  "ds_match_id (apply_lobby_players u p s) = ds_match_id s" "ds_manifest (apply_lobby_players u p s) = ds_manifest s"
  "ds_local_slot (apply_lobby_players u p s) = ds_local_slot s"
  "ds_launch_descriptor (apply_lobby_players u p s) = ds_launch_descriptor s"
  by (simp_all add: apply_lobby_fields_def apply_lobby_players_def)

text \<open>What is left of an update of the lobby once the room has been updated.\<close>

definition after_room :: "int \<Rightarrow> LobbyStatePayload \<Rightarrow> bool \<Rightarrow> DirectSession \<Rightarrow> DirectSession" where
  "after_room now payload semantic_update s =
     (let s = (case ds_online_save_status s of None \<Rightarrow> s
               | Some status \<Rightarrow> apply_online_save_status_locked status s);
          s = apply_countdown now payload s
      in if \<not> ds_is_host s \<and> semantic_update \<and> ls_phase payload = Running \<and> ds_local_loaded s
         then s\<lparr>ds_state := StateRunning, ds_status := ''Every racer is synchronized. Go!''\<rparr>
         else s)"

lemma after_room_simps [simp]:
  "ds_room_view (after_room now p u s) = ds_room_view s" "ds_match_id (after_room now p u s) = ds_match_id s"
  "ds_manifest (after_room now p u s) = ds_manifest s" "ds_local_slot (after_room now p u s) = ds_local_slot s"
  "ds_launch_descriptor (after_room now p u s) = ds_launch_descriptor s"
  by (cases "ds_online_save_status s"; simp add: after_room_def Let_def)+

lemma apply_lobby_cases:
  "apply_lobby_payload now p s =
     (if ls_generation p < ro_generation (ds_room_view s) then s
      else if ls_generation p > ro_generation (ds_room_view s)
      then after_room now p True (apply_lobby_players True p (apply_lobby_fields p s))
      else after_room now p False (apply_lobby_players False p s))"
  unfolding apply_lobby_payload_def after_room_def Let_def
  by (cases "ls_generation p < ro_generation (ds_room_view s)";
      cases "ro_generation (ds_room_view s) < ls_generation p"; simp only: if_True if_False simp_thms)

lemma apply_lobby_simps [simp]:
  "ds_match_id (apply_lobby_payload now p s) = ds_match_id s"
  "ds_manifest (apply_lobby_payload now p s) = ds_manifest s"
  "ds_local_slot (apply_lobby_payload now p s) = ds_local_slot s"
  "ds_launch_descriptor (apply_lobby_payload now p s) = ds_launch_descriptor s"
  by (simp_all add: apply_lobby_cases)

lemma applied_view:
  assumes "ro_generation (ds_room_view c) < ro_generation (ds_lobby h)"
  shows "ro_rules (ds_room_view (apply_lobby_payload now (lobby_payload sent h) c)) = ro_rules (ds_lobby h)"
    and "map pl_occupied (ro_players (ds_room_view (apply_lobby_payload now (lobby_payload sent h) c))) =
      map pl_occupied (ro_players (ds_lobby h))"
proof -
  have g: "ls_generation (lobby_payload sent h) = ro_generation (ds_lobby h)"
    "ls_rules (lobby_payload sent h) = ro_rules (ds_lobby h)"
    "ls_players (lobby_payload sent h) = map (\<lambda>index. payload_player index (ro_players (ds_lobby h) ! index))
         [0..<length (ro_players (ds_lobby h))]"
    by (simp_all add: lobby_payload_def Let_def)
  show "ro_rules (ds_room_view (apply_lobby_payload now (lobby_payload sent h) c)) = ro_rules (ds_lobby h)"
    using assms g(1,2) by (simp add: apply_lobby_cases apply_lobby_players_def apply_lobby_fields_def)
  show "map pl_occupied (ro_players (ds_room_view (apply_lobby_payload now (lobby_payload sent h) c))) =
      map pl_occupied (ro_players (ds_lobby h))"
    using assms g(1,3)
    by (auto simp: apply_lobby_cases apply_lobby_players_def apply_lobby_player_def payload_player_def
        intro!: nth_equalityI)
qed

lemma applied_generation:
  "ro_generation (ds_room_view (apply_lobby_payload now p s)) = max (ro_generation (ds_room_view s)) (ls_generation p)"
  by (auto simp: apply_lobby_cases max_def apply_lobby_players_def apply_lobby_fields_def)

subsection \<open>The start is accepted\<close>

lemma start_accepted:
  assumes ok: "room_full_ok (ds_lobby h)" "2 \<le> player_count (ds_lobby h)"
    and ids: "ds_match_id h \<noteq> 0" "manifest_hash (ds_manifest h) \<noteq> 0"
    and delay: "ds_input_delay h \<le> kMaximumInputDelayFrames"
    and peer: "ds_match_id c = ds_match_id h" "ds_manifest c = ds_manifest h" "ds_launch_descriptor c = None"
    and fresh: "ro_generation (ds_room_view c) < ro_generation (ds_lobby h)"
    and slot: "unat (ds_local_slot c) < kMaximumPlayers"
      "pl_occupied (ro_players (ds_lobby h) ! unat (ds_local_slot c))"
  defines "d \<equiv> make_launch_descriptor h"
  shows "validate_start_descriptor \<lparr>st_stage = 0, st_descriptor = d, st_descriptor_hash = launch_descriptor_hash d\<rparr>
      (apply_lobby_payload now (lobby_payload sent h) c) = Inr ()"
proof -
  have g: "ro_generation (ds_lobby h) \<noteq> 0" using fresh by (auto simp only: word_not_simps)
  have v: "valid_launch_descriptor d"
    unfolding d_def by (rule launch_descriptor_valid [OF ok ids(1) g ids(2) delay])
  have inv: "room_inv (ds_lobby h)" using ok by (simp add: room_full_ok_def)
  obtain p0 p1 p2 p3 where ps: "ro_players (ds_lobby h) = [p0, p1, p2, p3]" "pl_occupied p0"
    using roster_cases [OF inv] .
  have m: "occupied_mask_of (ro_players (ds_room_view (apply_lobby_payload now (lobby_payload sent h) c))) =
      ld_occupied_mask d"
    using occupied_mask_cong [OF applied_view(2) [OF fresh]] by (simp add: d_def make_launch_descriptor_def Let_def)
  have "unat (ds_local_slot c) \<in> {0, 1, 2, 3}" using slot(1) by (auto simp: kMaximumPlayers_def)
  then have "descriptor_occupied d (ds_local_slot c)"
    using slot by (auto simp: descriptor_occupied_def d_def make_launch_descriptor_def Let_def ps(1) mask_4
        kMaximumPlayers_def push_bit_of_1)
  then show ?thesis
    using v m slot peer applied_view(1) [OF fresh, of now sent]
    by (simp add: validate_start_descriptor_def Let_def)
      (simp add: d_def make_launch_descriptor_def Let_def)
qed

subsection \<open>Admission\<close>

lemma admission_iff:
  "admission_incompatibility m s = [] \<longleftrightarrow>
     m\<lparr>session_save_hash := session_save_hash (ds_manifest s)\<rparr> = ds_manifest s \<and>
     (m = ds_manifest s \<or> save_sync_available s)"
proof -
  have "m\<lparr>session_save_hash := session_save_hash (ds_manifest s)\<rparr> = ds_manifest s \<Longrightarrow>
      (session_save_hash m = session_save_hash (ds_manifest s)) = (m = ds_manifest s)"
    by (cases m; cases "ds_manifest s") auto
  then show ?thesis
    by (auto simp: admission_incompatibility_def Let_def incompatibility_reason_empty)
qed

subsection \<open>From the creation of the room\<close>

lemma loading_room:
  assumes "lobby_create room_id join_code room_name visibility host host_name manifest rules r0 = (Inr (), r)"
    and "list_all (\<lambda>call. \<not> is_move call) calls"
    and "lobby_begin_loading error host' (fold perform calls r) = (Inr (), r')"
  shows "room_full_ok r'" "2 \<le> player_count r'"
proof -
  have ok: "room_full_ok (fold perform calls r)"
    using run_full_ok [OF create_full_ok [OF assms(1)]] assms(2) by (simp add: list_all_iff)
  have r': "r' = perform (BeginLoading error host') (fold perform calls r)" using assms(3) by simp
  show "room_full_ok r'" unfolding r' by (rule perform_full_ok [OF ok]) simp
  have "lobby_can_start (fold perform calls r) = Inr ()"
    using begin_loading_success [of error host' "fold perform calls r"] assms(3) by simp
  then have "2 \<le> player_count (fold perform calls r)"
    by (auto simp: lobby_can_start_def split: if_splits)
  moreover have "map pl_occupied (ro_players r') = map pl_occupied (ro_players (fold perform calls r))"
    using assms(3) by (auto simp: lobby_begin_loading_def bump_def split: if_splits sum.splits)
  ultimately show "2 \<le> player_count r'"
    using contiguous_occupied(2) [of "ro_players r'"] by (simp add: player_count_def)
qed

text \<open>A host and a client that has just been admitted, for the examples.\<close>

definition example_session :: "bool \<Rightarrow> u8 \<Rightarrow> Room \<Rightarrow> Room \<Rightarrow> DirectSession" where
  "example_session hosting slot lobby view =
     \<lparr>ds_is_host = hosting, ds_state = StateLobby, ds_lobby = lobby, ds_room_view = view,
      ds_manifest = example_manifest, ds_match_id = 7, ds_local_slot = slot, ds_input_delay = 2,
      ds_local_loaded = False, ds_launch_descriptor = None, ds_launch_stage = StageIdle,
      ds_countdown_active = False, ds_countdown_generation = 0, ds_countdown_deadline = 0,
      ds_remote_countdown_remaining_ms = 0, ds_remote_countdown_received_at = 0,
      ds_session_save = [], ds_session_save_generation = 0, ds_local_online_save_ready = False,
      ds_local_online_save_acknowledged = False, ds_online_save_status = None, ds_status = []\<rparr>"

lemma example_manifest_hash: "manifest_hash example_manifest \<noteq> 0"
  by code_simp

end
