(* ===== verification/Pacing.thy ===== *)
theory Pacing
  imports Netplay_Types
begin

section \<open>Pacing policies\<close>

text \<open>
  Models \<^verbatim>\<open>netplay_pacing_policy.hpp\<close>: the frame debt of a guest, the cadence and the
  retention of the host's live replicas, the target debts, the lead limit and the
  backpressure of the host, and the catch-up controller of a guest with its hysteresis. The
  one function left out is \<^verbatim>\<open>host_authoritative_input_delay_frames\<close>, which computes in
  doubles. Unsigned arithmetic is word arithmetic, so the guards against overflow that the
  code has are visible and used. An out-parameter is a component of the result.

  Also here are the two small policies of \<^verbatim>\<open>online_lobby_policy.hpp\<close> and
  \<^verbatim>\<open>progress_budget.hpp\<close> that decide when a session gives up waiting.
\<close>

subsection \<open>Frame debt\<close>

datatype FrameDebtPhase =
    Inactive | Frontend | LoadingBarrier | GameplayStartBarrier | Gameplay | RecoveryBarrier
  | FinishBarrier | PostRace

text \<open>A \<^verbatim>\<open>std::int32_t\<close> is a word in two's complement.\<close>

definition authored_logic_step :: "bool \<Rightarrow> u32 \<Rightarrow> u32" where
  "authored_logic_step online_tick_admitted local_step =
     (if online_tick_admitted then 2 else local_step)"

record FrameDebtSample =
  fd_phase :: FrameDebtPhase
  fd_valid :: bool
  fd_intentionally_parked :: bool
  fd_authoritative_frame :: u32
  fd_local_frame :: u32
  fd_debt :: u32

definition frame_debt_phase_is_barrier :: "FrameDebtPhase \<Rightarrow> bool" where
  "frame_debt_phase_is_barrier phase \<longleftrightarrow>
     phase = LoadingBarrier \<or> phase = GameplayStartBarrier \<or> phase = RecoveryBarrier \<or>
     phase = FinishBarrier"

definition frame_debt_phase_has_timeline :: "FrameDebtPhase \<Rightarrow> bool" where
  "frame_debt_phase_has_timeline phase \<longleftrightarrow>
     phase = Frontend \<or> phase = Gameplay \<or> phase = PostRace"

definition frame_debt_phase_allows_catch_up :: "FrameDebtPhase \<Rightarrow> bool" where
  "frame_debt_phase_allows_catch_up phase \<longleftrightarrow>
     phase = Frontend \<or> phase = Gameplay \<or> phase = PostRace"

definition frame_debt_phase_allows_host_backpressure :: "FrameDebtPhase \<Rightarrow> bool" where
  "frame_debt_phase_allows_host_backpressure phase \<longleftrightarrow> frame_debt_phase_allows_catch_up phase"

definition rollback_coordinator_present :: "bool \<Rightarrow> bool \<Rightarrow> bool" where
  "rollback_coordinator_present host_authoritative client_session_attached \<longleftrightarrow>
     host_authoritative \<or> client_session_attached"

definition frame_debt_uses_rollback_cursor :: "FrameDebtPhase \<Rightarrow> bool \<Rightarrow> bool \<Rightarrow> bool" where
  "frame_debt_uses_rollback_cursor phase gameplay_ready coordinator_present \<longleftrightarrow>
     phase = Gameplay \<and> gameplay_ready \<and> coordinator_present"

definition frame_debt_local_cursor :: "FrameDebtPhase \<Rightarrow> bool \<Rightarrow> bool \<Rightarrow> u32 \<Rightarrow> u32 \<Rightarrow> u32" where
  "frame_debt_local_cursor phase gameplay_ready coordinator_present rollback_frame authored_frame =
     (if frame_debt_uses_rollback_cursor phase gameplay_ready coordinator_present
      then rollback_frame else authored_frame)"

definition host_may_predict_input :: "bool \<Rightarrow> SynchronizationMode \<Rightarrow> bool" where
  "host_may_predict_input authoritative_gameplay_active mode \<longleftrightarrow>
     \<not> authoritative_gameplay_active \<or> mode = Rollback"

definition measure_frame_debt :: "FrameDebtPhase \<Rightarrow> bool \<Rightarrow> u32 \<Rightarrow> u32 \<Rightarrow> FrameDebtSample" where
  "measure_frame_debt phase same_input_epoch authoritative_frame local_frame =
     (let valid = (same_input_epoch \<and> frame_debt_phase_has_timeline phase) in
      \<lparr>fd_phase = phase, fd_valid = valid,
       fd_intentionally_parked = frame_debt_phase_is_barrier phase,
       fd_authoritative_frame = authoritative_frame, fd_local_frame = local_frame,
       fd_debt = (if valid \<and> authoritative_frame > local_frame
                  then authoritative_frame - local_frame else 0)\<rparr>)"

subsection \<open>Live replicas\<close>

abbreviation UINT32_MAX :: u32 where "UINT32_MAX \<equiv> 0xFFFFFFFF"

definition kLiveReplicaCorrectionInterval :: u32 where "kLiveReplicaCorrectionInterval = 6"
definition kLiveReplicaRecoveryHistoryFrames :: u32 where "kLiveReplicaRecoveryHistoryFrames = 48"
definition kMinimumReplicaFastForwardFrames :: u32 where "kMinimumReplicaFastForwardFrames = 2"

lemmas replica_constants = kLiveReplicaCorrectionInterval_def kLiveReplicaRecoveryHistoryFrames_def
  kMinimumReplicaFastForwardFrames_def

definition live_replica_oldest_retained_frame :: "u32 \<Rightarrow> u32" where
  "live_replica_oldest_retained_frame newest_frame =
     (if newest_frame > kLiveReplicaRecoveryHistoryFrames
      then newest_frame - kLiveReplicaRecoveryHistoryFrames else 0)"

definition live_replica_within_recovery_window :: "u32 \<Rightarrow> u32 \<Rightarrow> bool" where
  "live_replica_within_recovery_window next_client_frame replica_frame \<longleftrightarrow>
     replica_frame \<ge> live_replica_oldest_retained_frame next_client_frame \<and>
     (next_client_frame > UINT32_MAX - kLiveReplicaRecoveryHistoryFrames \<or>
      replica_frame \<le> next_client_frame + kLiveReplicaRecoveryHistoryFrames)"

definition live_replica_correction_due :: "u32 \<Rightarrow> bool" where
  "live_replica_correction_due frame \<longleftrightarrow> frame mod kLiveReplicaCorrectionInterval = 0"

definition next_live_replica_frame :: "u32 \<Rightarrow> u32" where
  "next_live_replica_frame frame =
     (let remainder = frame mod kLiveReplicaCorrectionInterval;
          distance = (if remainder = 0 then kLiveReplicaCorrectionInterval
                      else kLiveReplicaCorrectionInterval - remainder)
      in if frame > UINT32_MAX - distance then UINT32_MAX else frame + distance)"

text \<open>\<^verbatim>\<open>true\<close> with the two frames written through the references is \<open>Some\<close> of them.\<close>

definition replica_fast_forward_window :: "u32 \<Rightarrow> u32 \<Rightarrow> u32 \<Rightarrow> (u32 \<times> u32) option" where
  "replica_fast_forward_window current_frame authoritative_frame target_debt =
     (if authoritative_frame \<le> current_frame \<or> authoritative_frame \<le> target_debt then None
      else let maximum_frame = authoritative_frame - target_debt;
               first_frame = next_live_replica_frame current_frame in
        if first_frame \<le> current_frame \<or> first_frame > maximum_frame \<or>
           first_frame - current_frame < kMinimumReplicaFastForwardFrames
        then None else Some (first_frame, maximum_frame))"

subsection \<open>Target debts and the host's lead\<close>

definition clamp :: "u32 \<Rightarrow> u32 \<Rightarrow> u32 \<Rightarrow> u32" where
  "clamp v lo hi = (if v < lo then lo else if hi < v then hi else v)"

definition rollback_replica_target_debt :: "u16 \<Rightarrow> u16 \<Rightarrow> u8 \<Rightarrow> u32" where
  "rollback_replica_target_debt round_trip_ms jitter_ms input_delay_frames =
     (let frame_ms = 34;
          delivery_budget_ms = ucast round_trip_ms div 2 + ucast jitter_ms * 2 + 8;
          measured_frames = (delivery_budget_ms + frame_ms - 1) div frame_ms + 1;
          configured_ceiling = clamp (ucast input_delay_frames + 2) 2 12
      in clamp measured_frames 1 configured_ceiling)"

definition authored_timeline_target_debt :: "u16 \<Rightarrow> u16 \<Rightarrow> u8 \<Rightarrow> u32" where
  "authored_timeline_target_debt round_trip_ms jitter_ms input_delay_frames =
     (let frame_ms = 34;
          delivery_budget_ms = ucast round_trip_ms div 2 + ucast jitter_ms * 2 + 8;
          measured_frames = (delivery_budget_ms + frame_ms - 1) div frame_ms + 1;
          configured_ceiling = clamp (ucast input_delay_frames + 2) 2 8
      in clamp measured_frames 1 configured_ceiling)"

definition authored_catch_up_budget :: "u32 \<Rightarrow> u32 \<Rightarrow> u32 \<Rightarrow> u32 \<Rightarrow> u32" where
  "authored_catch_up_budget frame_debt target_debt contiguous_commits maximum_ticks =
     (if maximum_ticks = 0 \<or> contiguous_commits = 0 then 0 else 1)"

definition checkpoint_retry_milliseconds :: "u16 \<Rightarrow> u16 \<Rightarrow> u32" where
  "checkpoint_retry_milliseconds round_trip_ms jitter_ms =
     clamp (100 + 2 * ucast round_trip_ms + 2 * ucast jitter_ms) 100 1000"

definition host_authority_lead_limit :: "u16 \<Rightarrow> u16 \<Rightarrow> u8 \<Rightarrow> u32" where
  "host_authority_lead_limit round_trip_ms jitter_ms input_delay_frames =
     (let frame_ms = 34; minimum_window = 8; maximum_window = 24;
          acknowledgement_budget_ms = ucast round_trip_ms + ucast jitter_ms * 2;
          acknowledgement_frames = (acknowledgement_budget_ms + frame_ms - 1) div frame_ms;
          processing_margin = ucast input_delay_frames + 2
      in clamp (acknowledgement_frames + processing_margin) minimum_window maximum_window)"

definition host_backpressure_required :: "u32 \<Rightarrow> u32 \<Rightarrow> u32 \<Rightarrow> bool" where
  "host_backpressure_required next_frame peer_completed_frame maximum_lead =
     (if next_frame \<le> peer_completed_frame then False
      else next_frame - peer_completed_frame > maximum_lead)"

definition host_backpressure_release_limit :: "u32 \<Rightarrow> u32" where
  "host_backpressure_release_limit maximum_lead =
     (let hysteresis_frames = 3 in
      if maximum_lead > hysteresis_frames then maximum_lead - hysteresis_frames
      else if maximum_lead > 1 then maximum_lead - 1 else 0)"

definition effective_host_authority_lead_limit :: "SynchronizationMode \<Rightarrow> u32 \<Rightarrow> u32" where
  "effective_host_authority_lead_limit mode ordinary_limit = ordinary_limit"

definition steady_commit_history_count :: "bool \<Rightarrow> nat" where
  "steady_commit_history_count quick_join = (if quick_join then 6 else 3)"

subsection \<open>The catch-up controller\<close>

datatype ClientCatchUpState = Normal | CatchUp | Cooldown

record ClientCatchUpSample =
  cs_eligible :: bool
  cs_frame_debt :: u32
  cs_target_debt :: u32
  cs_contiguous_commits :: u32

record ClientCatchUpDecision =
  cd_state :: ClientCatchUpState
  cd_pacing_scale_milli :: u32
  cd_target_simulation_hz :: u32
  cd_state_changed :: bool

record ClientCatchUpController =
  cc_state :: ClientCatchUpState
  cc_entry_count :: u8
  cc_settled_count :: u8
  cc_cooldown_count :: u8
  cc_missing_count :: u8
  cc_scale_milli :: u32

definition client_catch_up_rate_hz :: "u32 \<Rightarrow> u32 \<Rightarrow> u32" where
  "client_catch_up_rate_hz frame_debt target_debt =
     (let excess = (if frame_debt > target_debt then frame_debt - target_debt else 0) in
      if excess \<le> 1 then 30 else if excess \<le> 2 then 32 else if excess \<le> 5 then 34
      else if excess \<le> 8 then 36 else if excess \<le> 16 then 38 else 40)"

definition client_catch_up_scale_milli :: "u32 \<Rightarrow> u32" where
  "client_catch_up_scale_milli simulation_hz =
     clamp ((simulation_hz * 1000 + 15) div 30) 1000 1333"

definition catch_up_reset :: ClientCatchUpController where
  "catch_up_reset = \<lparr>cc_state = Normal, cc_entry_count = 0, cc_settled_count = 0,
     cc_cooldown_count = 0, cc_missing_count = 0, cc_scale_milli = 1000\<rparr>"

definition catch_up_decision :: "bool \<Rightarrow> ClientCatchUpController \<Rightarrow> ClientCatchUpDecision" where
  "catch_up_decision changed c =
     \<lparr>cd_state = cc_state c, cd_pacing_scale_milli = cc_scale_milli c,
      cd_target_simulation_hz = (cc_scale_milli c * 30 + 500) div 1000, cd_state_changed = changed\<rparr>"

definition settled_limit :: "ClientCatchUpSample \<Rightarrow> u32" where
  "settled_limit sample =
     (if cs_target_debt sample = UINT32_MAX then UINT32_MAX else cs_target_debt sample + 1)"

definition entry_debt :: "ClientCatchUpSample \<Rightarrow> u32" where
  "entry_debt sample =
     (if cs_target_debt sample > UINT32_MAX - 2 then UINT32_MAX else cs_target_debt sample + 2)"

text \<open>\<^verbatim>\<open>min(count + 1, limit)\<close> in \<^verbatim>\<open>unsigned\<close>, cast back to a byte.\<close>

definition count_up :: "u8 \<Rightarrow> u32 \<Rightarrow> u8" where
  "count_up count limit = ucast (min (ucast count + 1) limit)"

definition catch_up_transition ::
  "ClientCatchUpSample \<Rightarrow> ClientCatchUpController \<Rightarrow> ClientCatchUpController" where
  "catch_up_transition sample c =
     (if cc_state c = Normal then
        if cs_frame_debt sample \<ge> entry_debt sample \<and> cs_frame_debt sample > settled_limit sample then
          let c = c\<lparr>cc_entry_count := count_up (cc_entry_count c) 3\<rparr> in
          if cc_entry_count c \<ge> 3 then c\<lparr>cc_state := CatchUp, cc_settled_count := 0\<rparr> else c
        else c\<lparr>cc_entry_count := 0\<rparr>
      else if cc_state c = CatchUp then
        if cs_frame_debt sample \<le> settled_limit sample then
          let c = c\<lparr>cc_settled_count := count_up (cc_settled_count c) 6\<rparr> in
          if cc_settled_count c \<ge> 6 then c\<lparr>cc_state := Cooldown, cc_cooldown_count := 0\<rparr> else c
        else c\<lparr>cc_settled_count := 0\<rparr>
      else c)"

definition catch_up_ramp ::
  "ClientCatchUpSample \<Rightarrow> ClientCatchUpController \<Rightarrow> ClientCatchUpController" where
  "catch_up_ramp sample c =
     (let rise_step_milli = 67; fall_step_milli = 25;
          desired_scale = (if cc_state c = CatchUp
            then client_catch_up_scale_milli
                   (client_catch_up_rate_hz (cs_frame_debt sample) (cs_target_debt sample))
            else 1000) in
      if cc_scale_milli c < desired_scale
      then c\<lparr>cc_scale_milli := min desired_scale (cc_scale_milli c + rise_step_milli)\<rparr>
      else if cc_scale_milli c > desired_scale
      then c\<lparr>cc_scale_milli := (if cc_scale_milli c > desired_scale + fall_step_milli
                               then cc_scale_milli c - fall_step_milli else desired_scale)\<rparr>
      else c)"

definition catch_up_cool_down :: "ClientCatchUpController \<Rightarrow> ClientCatchUpController" where
  "catch_up_cool_down c =
     (if cc_state c = Cooldown then
        let c = c\<lparr>cc_cooldown_count := count_up (cc_cooldown_count c) 255\<rparr> in
        if cc_cooldown_count c \<ge> 12 \<and> cc_scale_milli c = 1000
        then c\<lparr>cc_state := Normal, cc_entry_count := 0\<rparr> else c
      else c)"

definition catch_up_update ::
  "ClientCatchUpSample \<Rightarrow> ClientCatchUpController \<Rightarrow> ClientCatchUpDecision \<times> ClientCatchUpController" where
  "catch_up_update sample c =
     (let previous_state = cc_state c;
          finish = (\<lambda>c'. (catch_up_decision (previous_state \<noteq> cc_state c') c', c')) in
      if \<not> cs_eligible sample then finish catch_up_reset
      else if cs_contiguous_commits sample = 0 then
        let c = c\<lparr>cc_scale_milli := 1000, cc_missing_count := cc_missing_count c + 1\<rparr> in
        finish (if cc_missing_count c \<ge> 6 then catch_up_reset else c)
      else
        let c = c\<lparr>cc_missing_count := 0\<rparr> in
        finish (catch_up_cool_down (catch_up_ramp sample (catch_up_transition sample c))))"

subsection \<open>When a session stops waiting\<close>

text \<open>Signed difference of sequence numbers, as \<^verbatim>\<open>static_cast<std::int32_t>\<close>.\<close>

definition newer_preflight :: "u32 \<Rightarrow> u32 \<Rightarrow> bool \<Rightarrow> u32 \<Rightarrow> bool" where
  "newer_preflight test_id terminal active current \<longleftrightarrow>
     test_id \<noteq> 0 \<and> sint (test_id - terminal) > 0 \<and> (\<not> active \<or> sint (test_id - current) > 0)"

text \<open>Points of the steady clock are integers, in nanoseconds.\<close>

record ProgressBudget =
  pb_started :: int
  pb_progressed :: int
  pb_marker :: u64

definition seconds :: "int \<Rightarrow> int" where "seconds s = s * 1000000000"

definition budget_start :: "u64 \<Rightarrow> int \<Rightarrow> ProgressBudget" where
  "budget_start value now = \<lparr>pb_started = now, pb_progressed = now, pb_marker = value\<rparr>"

definition budget_expired :: "u64 \<Rightarrow> int \<Rightarrow> ProgressBudget \<Rightarrow> bool \<times> ProgressBudget" where
  "budget_expired value now b =
     (let b = (if value \<noteq> pb_marker b then b\<lparr>pb_marker := value, pb_progressed := now\<rparr> else b) in
      (now - pb_progressed b \<ge> seconds 45 \<or> now - pb_started b \<ge> seconds 90, b))"

subsection \<open>Word arithmetic without overflow\<close>

lemma unat_small: "unat (a :: u16) \<le> 65535" "unat (b :: u8) \<le> 255" "unat (c :: u32) \<le> 4294967295"
proof -
  have "unat a < 2 ^ LENGTH(16)" "unat b < 2 ^ LENGTH(8)" "unat c < 2 ^ LENGTH(32)"
    by (rule unsigned_less)+
  then show "unat a \<le> 65535" "unat c \<le> 4294967295" by simp_all
  show "unat b \<le> 255" using unat_u8_less_256 [of b] by linarith
qed

lemma unat_widen: "unat (ucast (a :: u16) :: u32) = unat a" "unat (ucast (b :: u8) :: u32) = unat b"
  using unat_small(1) [of a] unat_small(2) [of b]
  by (simp_all add: unsigned_ucast_eq take_bit_nat_eq_self)

lemma unat_clamp: "unat lo \<le> unat hi \<Longrightarrow> unat (clamp v lo hi) = max (unat lo) (min (unat hi) (unat v))"
  by (auto simp: clamp_def word_less_nat_alt)

text \<open>Sums and products that stay below 2^32 are those of the numbers.\<close>

lemma unat_no_overflow:
  "unat a + unat b \<le> 4294967295 \<Longrightarrow> unat (a + b :: u32) = unat a + unat b"
  "unat a * unat b \<le> 4294967295 \<Longrightarrow> unat (a * b :: u32) = unat a * unat b"
  using unat_add_lem [of a b] unat_mult_lem [of a b] by (simp_all add: less_Suc_eq_le [symmetric])

lemma budget_frames:
  assumes "m \<le> 200000" "unat x = m"
  shows "unat ((x + 34 - 1) div 34 :: u32) = (m + 33) div 34"
proof -
  have x: "x + 34 - 1 = x + 33" by simp
  have "unat (x + 33) = m + 33" using assms by (subst unat_no_overflow) simp_all
  moreover have "unat (34 :: u32) = 34" by simp
  ultimately show ?thesis unfolding x unat_div by (simp only:)
qed

subsection \<open>The host's lead covers the guests' targets\<close>

lemma unat_lead:
  "unat (host_authority_lead_limit r j d) =
    max 8 (min 24 ((unat r + unat j * 2 + 33) div 34 + (unat d + 2)))"
proof -
  let ?x = "ucast r + ucast j * 2 :: u32"
  have x: "unat ?x = unat r + unat j * 2" "unat r + unat j * 2 \<le> 200000"
    using unat_small(1) [of r] unat_small(1) [of j] by (simp_all add: unat_no_overflow unat_widen)
  have y: "unat (ucast d + 2 :: u32) = unat d + 2"
    using unat_small(2) [of d] by (simp add: unat_no_overflow unat_widen)
  have "unat ((?x + 34 - 1) div 34 + (ucast d + 2)) = (unat r + unat j * 2 + 33) div 34 + (unat d + 2)"
    using x(2) unat_small(2) [of d] budget_frames [OF x(2) x(1)] y by (subst unat_no_overflow) simp_all
  then show ?thesis by (simp only: host_authority_lead_limit_def Let_def) (simp add: unat_clamp)
qed

lemma unat_targets:
  "unat (rollback_replica_target_debt r j d) =
     max 1 (min (min 12 (unat d + 2)) ((unat r div 2 + unat j * 2 + 8 + 33) div 34 + 1))"
  "unat (authored_timeline_target_debt r j d) =
     max 1 (min (min 8 (unat d + 2)) ((unat r div 2 + unat j * 2 + 8 + 33) div 34 + 1))"
proof -
  let ?x = "ucast r div 2 + ucast j * 2 + 8 :: u32"
  have x: "unat ?x = unat r div 2 + unat j * 2 + 8" "unat r div 2 + unat j * 2 + 8 \<le> 200000"
    using unat_small(1) [of r] unat_small(1) [of j] by (simp_all add: unat_no_overflow unat_widen unat_div)
  have y: "unat (ucast d + 2 :: u32) = unat d + 2"
    using unat_small(2) [of d] by (simp add: unat_no_overflow unat_widen)
  have m: "unat ((?x + 34 - 1) div 34 + 1) = (unat r div 2 + unat j * 2 + 8 + 33) div 34 + 1"
    using x(2) budget_frames [OF x(2) x(1)] by (subst unat_no_overflow) simp_all
  have c: "unat (clamp (ucast d + 2) 2 12) = min 12 (unat d + 2)" "unat (clamp (ucast d + 2) 2 8) = min 8 (unat d + 2)"
    using y by (simp_all add: unat_clamp)
  have t: "1 \<le> unat hi \<Longrightarrow> unat (clamp v 1 hi) = max 1 (min (unat hi) (unat v))" for hi v
    by (simp add: unat_clamp)
  show "unat (rollback_replica_target_debt r j d) =
     max 1 (min (min 12 (unat d + 2)) ((unat r div 2 + unat j * 2 + 8 + 33) div 34 + 1))"
  "unat (authored_timeline_target_debt r j d) =
     max 1 (min (min 8 (unat d + 2)) ((unat r div 2 + unat j * 2 + 8 + 33) div 34 + 1))"
    unfolding rollback_replica_target_debt_def authored_timeline_target_debt_def Let_def
    using t [of "clamp (ucast d + 2) 2 12" "(?x + 34 - 1) div 34 + 1"]
      t [of "clamp (ucast d + 2) 2 8" "(?x + 34 - 1) div 34 + 1"] unfolding m c by simp_all
qed

lemma targets_below_lead:
  "1 \<le> rollback_replica_target_debt r j d"
  "rollback_replica_target_debt r j d < host_authority_lead_limit r j d"
  "1 \<le> authored_timeline_target_debt r j d"
  "authored_timeline_target_debt r j d < host_authority_lead_limit r j d"
proof -
  have "unat r + 2 * unat j = 0 \<or> 1 \<le> (unat r + 2 * unat j + 33) div 34" by linarith
  then show "rollback_replica_target_debt r j d < host_authority_lead_limit r j d"
  "authored_timeline_target_debt r j d < host_authority_lead_limit r j d"
    by (auto simp: word_less_nat_alt unat_lead unat_targets)
  show "1 \<le> rollback_replica_target_debt r j d" "1 \<le> authored_timeline_target_debt r j d"
    by (simp_all add: word_le_nat_alt unat_targets)
qed

subsection \<open>Replicas stay available\<close>

lemma oldest_retained:
  "unat (live_replica_oldest_retained_frame n) = unat n - 48"
  by (auto simp: live_replica_oldest_retained_frame_def replica_constants word_less_nat_alt unat_sub word_le_nat_alt)

lemma within_window:
  "live_replica_within_recovery_window n f \<longleftrightarrow> unat n \<le> unat f + 48 \<and> unat f \<le> unat n + 48"
proof -
  have b: "unat f \<le> 4294967295" "unat n \<le> 4294967295" by (rule unat_small)+
  have "unat (UINT32_MAX - 48) = 4294967247" by simp
  then have "n > UINT32_MAX - 48 \<or> f \<le> n + 48 \<longleftrightarrow> unat f \<le> unat n + 48"
    using b unat_no_overflow(1) [of n 48] unfolding word_le_nat_alt word_less_nat_alt
    by (cases "unat n \<le> 4294967247") auto
  then show ?thesis
    by (auto simp: live_replica_within_recovery_window_def word_le_nat_alt oldest_retained replica_constants)
qed

lemma backpressure:
  "host_backpressure_required n p m \<longleftrightarrow> unat n > unat p + unat m"
  by (auto simp: host_backpressure_required_def word_le_nat_alt word_less_nat_alt unat_sub)

lemma recovery_in_window:
  assumes "\<not> host_backpressure_required n p (host_authority_lead_limit r j d)" "p \<le> n"
  shows "live_replica_oldest_retained_frame n \<le> p" "live_replica_within_recovery_window p n"
  using assms by (auto simp: backpressure within_window oldest_retained unat_lead word_le_nat_alt)

lemma next_replica:
  "unat (next_live_replica_frame f) = min (6 * (unat f div 6 + 1)) 4294967295"
proof -
  define q m where "q = unat f div 6" and "m = unat f mod 6"
  have f: "unat f = 6 * q + m" "m < 6" "unat f \<le> 4294967295" using unat_small(3) [of f] by (auto simp: q_def m_def)
  define d where "d = (if f mod 6 = 0 then 6 else 6 - f mod 6)"
  have nxt: "next_live_replica_frame f = (if f > UINT32_MAX - d then UINT32_MAX else f + d)"
    by (simp add: next_live_replica_frame_def replica_constants d_def Let_def)
  have d: "unat d = 6 - m"
    by (auto simp: d_def m_def word_unat_eq_iff unat_mod unat_sub word_le_nat_alt)
  then have u: "unat (UINT32_MAX - d) = 4294967295 - (6 - m)"
    by (subst unat_sub) (simp_all add: word_le_nat_alt)
  have "unat (f + d) = unat f + (6 - m)" if "unat f \<le> 4294967295 - (6 - m)"
    using that d f(2) unat_no_overflow(1) [of f d] by linarith
  then show ?thesis
    using f unfolding nxt word_less_nat_alt u q_def [symmetric] by (auto simp: min_def)
qed

lemma fast_forward_window:
  assumes "replica_fast_forward_window current authoritative target = Some (first, newest)" "0 < target"
  shows "live_replica_correction_due first" "unat current + 2 \<le> unat first" "first \<le> newest"
    "unat newest + unat target = unat authoritative"
    "live_replica_correction_due f \<Longrightarrow> current < f \<Longrightarrow> first \<le> f"
proof -
  have g: "target < authoritative" "current < first" "first \<le> newest" "2 \<le> first - current"
    "first = next_live_replica_frame current" "newest = authoritative - target"
    using assms(1) by (auto simp: replica_fast_forward_window_def Let_def replica_constants not_le not_less split: if_splits)
  then show "first \<le> newest" "unat current + 2 \<le> unat first" "unat newest + unat target = unat authoritative"
    by (simp_all add: word_le_nat_alt word_less_nat_alt unat_sub)
  then have "unat first < 4294967295"
    using assms(2) unat_small(3) [of authoritative] by (simp add: word_le_nat_alt word_less_nat_alt)
  then have n: "unat first = 6 * (unat current div 6 + 1)" using g(5) next_replica [of current] by (simp add: min_def split: if_splits)
  then show "live_replica_correction_due first"
    by (simp add: live_replica_correction_due_def replica_constants word_unat_eq_iff unat_mod)
  show "first \<le> f" if "live_replica_correction_due f" "current < f"
  proof -
    have "unat f mod 6 = 0" using that(1)
      by (simp add: live_replica_correction_due_def replica_constants word_unat_eq_iff unat_mod)
    moreover have "unat current < unat f" using that(2) by (simp add: word_less_nat_alt)
    ultimately show ?thesis unfolding word_le_nat_alt n by presburger
  qed
qed

subsection \<open>The catch-up controller stays in its bounds\<close>

text \<open>
  The invariant of the controller: in the normal state the pace is the retail one; while it
  catches up and cools down, the scale is bounded by the number of settled samples, so that
  it is back at 1000 when the twelve samples of the cooldown are over.
\<close>

definition catch_up_inv :: "ClientCatchUpController \<Rightarrow> bool" where
  "catch_up_inv c \<longleftrightarrow>
     unat (cc_entry_count c) \<le> 3 \<and> unat (cc_missing_count c) < 6 \<and>
     1000 \<le> unat (cc_scale_milli c) \<and> unat (cc_scale_milli c) \<le> 1333 \<and>
     (case cc_state c of
        Normal \<Rightarrow> unat (cc_entry_count c) < 3 \<and> unat (cc_scale_milli c) = 1000
      | CatchUp \<Rightarrow> unat (cc_settled_count c) < 6 \<and>
          unat (cc_scale_milli c) \<le> max 1000 (1333 - 25 * unat (cc_settled_count c))
      | Cooldown \<Rightarrow> 1 \<le> unat (cc_cooldown_count c) \<and> unat (cc_cooldown_count c) < 12 \<and>
          unat (cc_scale_milli c) \<le> max 1000 (1208 - 25 * unat (cc_cooldown_count c)))"

lemma unat_count_up: "unat n < unat l \<Longrightarrow> unat l \<le> 255 \<Longrightarrow> unat (count_up n l) = unat n + 1"
proof -
  assume "unat n < unat l" "unat l \<le> 255"
  then have "unat (min (ucast n + 1) l :: u32) = unat n + 1"
    by (auto simp: min_def word_le_nat_alt unat_no_overflow unat_widen)
  then show ?thesis
    using \<open>unat n < unat l\<close> \<open>unat l \<le> 255\<close> by (simp add: count_up_def unsigned_ucast_eq take_bit_nat_eq_self)
qed

lemma scale_bounds:
  "1000 \<le> unat (client_catch_up_scale_milli h)" "unat (client_catch_up_scale_milli h) \<le> 1333"
  by (simp_all add: client_catch_up_scale_milli_def unat_clamp)

lemma settled_scale:
  assumes "cs_frame_debt s \<le> settled_limit s"
  shows "client_catch_up_scale_milli (client_catch_up_rate_hz (cs_frame_debt s) (cs_target_debt s)) = 1000"
proof -
  have "unat (cs_frame_debt s) \<le> unat (cs_target_debt s) + 1"
    using assms unat_small(3) [of "cs_target_debt s"] unat_no_overflow(1) [of "cs_target_debt s" 1]
    by (auto simp: settled_limit_def word_le_nat_alt word_unat_eq_iff split: if_splits)
  then have "client_catch_up_rate_hz (cs_frame_debt s) (cs_target_debt s) = 30"
    by (auto simp: client_catch_up_rate_hz_def Let_def word_less_nat_alt word_le_nat_alt unat_sub)
  then show ?thesis by (simp add: client_catch_up_scale_milli_def clamp_def)
qed

definition ramped :: "nat \<Rightarrow> nat \<Rightarrow> nat" where
  "ramped desired scale = (if scale < desired then min desired (scale + 67)
     else if scale > desired then (if scale > desired + 25 then scale - 25 else desired) else scale)"

lemma ramp_simps:
  "cc_state (catch_up_ramp s c) = cc_state c" "cc_entry_count (catch_up_ramp s c) = cc_entry_count c"
  "cc_settled_count (catch_up_ramp s c) = cc_settled_count c"
  "cc_cooldown_count (catch_up_ramp s c) = cc_cooldown_count c"
  "cc_missing_count (catch_up_ramp s c) = cc_missing_count c"
  by (simp_all add: catch_up_ramp_def Let_def)

lemma ramp_scale:
  assumes "unat (cc_scale_milli c) \<le> 1333"
  shows "unat (cc_scale_milli (catch_up_ramp s c)) =
    ramped (unat (if cc_state c = CatchUp then client_catch_up_scale_milli
        (client_catch_up_rate_hz (cs_frame_debt s) (cs_target_debt s)) else 1000))
      (unat (cc_scale_milli c))"
proof -
  define d where "d = (if cc_state c = CatchUp then client_catch_up_scale_milli
        (client_catch_up_rate_hz (cs_frame_debt s) (cs_target_debt s)) else 1000)"
  have d: "unat d \<le> 1333" using scale_bounds(2) by (simp add: d_def)
  have "unat (cc_scale_milli c + 67) = unat (cc_scale_milli c) + 67" "unat (d + 25) = unat d + 25"
    using assms d unat_no_overflow(1) [of "cc_scale_milli c" 67] unat_no_overflow(1) [of d 25] by simp_all
  then show ?thesis
    unfolding d_def [symmetric] catch_up_ramp_def Let_def
    by (auto simp: ramped_def word_less_nat_alt min_def word_le_nat_alt unat_sub)
qed

lemma reset_catch_up_inv: "catch_up_inv catch_up_reset"
  by (simp add: catch_up_inv_def catch_up_reset_def)

definition catch_up_active :: "ClientCatchUpSample \<Rightarrow> ClientCatchUpController \<Rightarrow> ClientCatchUpController" where
  "catch_up_active s c =
     catch_up_cool_down (catch_up_ramp s (catch_up_transition s (c\<lparr>cc_missing_count := 0\<rparr>)))"

lemma update_cases:
  "snd (catch_up_update s c) =
     (if \<not> cs_eligible s then catch_up_reset
      else if cs_contiguous_commits s = 0 then
        if cc_missing_count c + 1 \<ge> 6 then catch_up_reset
        else c\<lparr>cc_scale_milli := 1000, cc_missing_count := cc_missing_count c + 1\<rparr>
      else catch_up_active s c)"
  "fst (catch_up_update s c) =
     catch_up_decision (cc_state c \<noteq> cc_state (snd (catch_up_update s c))) (snd (catch_up_update s c))"
  by (simp_all add: catch_up_update_def catch_up_active_def Let_def)

lemma active_normal:
  assumes "catch_up_inv c" "cc_state c = Normal"
  shows "catch_up_inv (catch_up_active s c) \<and> cc_state (catch_up_active s c) \<noteq> Cooldown"
    and "cs_frame_debt s \<le> settled_limit s \<Longrightarrow> cc_state (catch_up_active s c) = Normal"
proof -
  have t: "unat (cc_scale_milli c) = 1000" "unat (cc_entry_count c) < 3" using assms by (auto simp: catch_up_inv_def)
  have e: "unat (count_up (cc_entry_count c) 3) = unat (cc_entry_count c) + 1"
    using t(2) by (simp add: unat_count_up)
  show "catch_up_inv (catch_up_active s c) \<and> cc_state (catch_up_active s c) \<noteq> Cooldown"
    using assms t e scale_bounds [of "client_catch_up_rate_hz (cs_frame_debt s) (cs_target_debt s)"]
    by (auto simp: catch_up_active_def catch_up_cool_down_def catch_up_inv_def ramp_simps ramp_scale
        catch_up_transition_def Let_def word_le_nat_alt ramped_def)
  show "cc_state (catch_up_active s c) = Normal" if "cs_frame_debt s \<le> settled_limit s"
    using assms that by (auto simp: catch_up_active_def catch_up_cool_down_def ramp_simps catch_up_transition_def Let_def)
qed

lemma active_catch_up:
  assumes "catch_up_inv c" "cc_state c = CatchUp"
  shows "catch_up_inv (catch_up_active s c)"
    and "cs_frame_debt s \<le> settled_limit s \<Longrightarrow>
      (if unat (cc_settled_count c) < 5
       then cc_state (catch_up_active s c) = CatchUp \<and>
         unat (cc_settled_count (catch_up_active s c)) = unat (cc_settled_count c) + 1
       else cc_state (catch_up_active s c) = Cooldown \<and> unat (cc_cooldown_count (catch_up_active s c)) = 1)"
proof -
  have t: "unat (cc_scale_milli c) \<le> 1333" "1000 \<le> unat (cc_scale_milli c)" "unat (cc_settled_count c) < 6"
    "unat (cc_scale_milli c) \<le> max 1000 (1333 - 25 * unat (cc_settled_count c))"
    using assms by (auto simp: catch_up_inv_def)
  have e: "unat (count_up (cc_settled_count c) 6) = unat (cc_settled_count c) + 1"
    using t(3) by (simp add: unat_count_up)
  have z: "unat (count_up 0 255) = 1" by (simp add: unat_count_up)
  note defs = catch_up_active_def catch_up_cool_down_def catch_up_inv_def ramp_simps ramp_scale
        catch_up_transition_def Let_def word_le_nat_alt
  show "catch_up_inv (catch_up_active s c)"
  proof (cases "cs_frame_debt s \<le> settled_limit s")
    case True
    then have "unat (cc_settled_count c) < 5 \<or> unat (cc_settled_count c) = 5" using t(3) by linarith
    then show ?thesis
      using assms t e z True settled_scale [OF True] by (auto simp: defs ramped_def)
  next
    case False
    then show ?thesis using assms t e scale_bounds [of "client_catch_up_rate_hz (cs_frame_debt s) (cs_target_debt s)"] by (auto simp: defs ramped_def)
  qed
  show "cs_frame_debt s \<le> settled_limit s \<Longrightarrow>
      (if unat (cc_settled_count c) < 5
       then cc_state (catch_up_active s c) = CatchUp \<and>
         unat (cc_settled_count (catch_up_active s c)) = unat (cc_settled_count c) + 1
       else cc_state (catch_up_active s c) = Cooldown \<and> unat (cc_cooldown_count (catch_up_active s c)) = 1)"
    using assms t e z by (auto simp: defs)
qed

lemma active_cooldown:
  assumes "catch_up_inv c" "cc_state c = Cooldown"
  shows "catch_up_inv (catch_up_active s c)"
    and "if unat (cc_cooldown_count c) < 11
       then cc_state (catch_up_active s c) = Cooldown \<and>
         unat (cc_cooldown_count (catch_up_active s c)) = unat (cc_cooldown_count c) + 1
       else cc_state (catch_up_active s c) = Normal"
proof -
  have t: "unat (cc_scale_milli c) \<le> 1333" "1000 \<le> unat (cc_scale_milli c)"
    "1 \<le> unat (cc_cooldown_count c)" "unat (cc_cooldown_count c) < 12"
    "unat (cc_scale_milli c) \<le> max 1000 (1208 - 25 * unat (cc_cooldown_count c))"
    using assms by (auto simp: catch_up_inv_def)
  have e: "unat (count_up (cc_cooldown_count c) 255) = unat (cc_cooldown_count c) + 1"
    using t(4) by (simp add: unat_count_up)
  have d: "unat (cc_cooldown_count c) < 11 \<or> unat (cc_cooldown_count c) = 11" using t(4) by linarith
  note defs = catch_up_active_def catch_up_cool_down_def catch_up_inv_def ramp_simps ramp_scale
        catch_up_transition_def Let_def word_le_nat_alt word_unat_eq_iff
  show "catch_up_inv (catch_up_active s c)" "if unat (cc_cooldown_count c) < 11
       then cc_state (catch_up_active s c) = Cooldown \<and>
         unat (cc_cooldown_count (catch_up_active s c)) = unat (cc_cooldown_count c) + 1
       else cc_state (catch_up_active s c) = Normal"
    using assms t e d by (auto simp: defs ramped_def)
qed

lemma catch_up_active_inv: "catch_up_inv c \<Longrightarrow> catch_up_inv (catch_up_active s c)"
  using active_normal(1) active_catch_up(1) active_cooldown(1) by (cases "cc_state c") auto

lemma catch_up_update_inv: "catch_up_inv c \<Longrightarrow> catch_up_inv (snd (catch_up_update s c))"
proof -
  assume c: "catch_up_inv c"
  have "unat (cc_missing_count c + 1) = unat (cc_missing_count c) + 1"
    using c by (simp add: catch_up_inv_def unat_word_ariths)
  then have "catch_up_inv (c\<lparr>cc_scale_milli := 1000, cc_missing_count := cc_missing_count c + 1\<rparr>)"
    if "\<not> 6 \<le> cc_missing_count c + 1"
    using c that by (auto simp: catch_up_inv_def word_le_nat_alt split: ClientCatchUpState.splits)
  then show ?thesis
    using c by (auto simp: update_cases(1) reset_catch_up_inv catch_up_active_inv)
qed

definition catch_up_run :: "ClientCatchUpSample list \<Rightarrow> ClientCatchUpController \<Rightarrow> ClientCatchUpController" where
  "catch_up_run ss c = fold (\<lambda>s c. snd (catch_up_update s c)) ss c"

interpretation catch_up: invariant_run catch_up_inv "\<lambda>s c. snd (catch_up_update s c)"
  by unfold_locales (rule catch_up_update_inv)

lemmas catch_up_run_inv = catch_up.run_keeps [folded catch_up_run_def]

subsection \<open>It settles, and it starts\<close>

text \<open>A sample of a guest that is within a frame of its target, with commits to consume.\<close>

definition settled :: "ClientCatchUpSample \<Rightarrow> bool" where
  "settled s \<longleftrightarrow> cs_eligible s \<and> cs_contiguous_commits s \<noteq> 0 \<and> cs_frame_debt s \<le> settled_limit s"

definition catch_up_rank :: "ClientCatchUpController \<Rightarrow> nat" where
  "catch_up_rank c = (case cc_state c of
     Normal \<Rightarrow> 0
   | CatchUp \<Rightarrow> 17 - unat (cc_settled_count c)
   | Cooldown \<Rightarrow> 12 - unat (cc_cooldown_count c))"

lemma settled_rank:
  assumes "catch_up_inv c" "settled s"
  shows "catch_up_rank (snd (catch_up_update s c)) \<le> catch_up_rank c - 1"
proof -
  have u: "snd (catch_up_update s c) = catch_up_active s c" and d: "cs_frame_debt s \<le> settled_limit s"
    using assms(2) by (simp_all add: update_cases(1) settled_def)
  show ?thesis
    using active_normal(2) [OF assms(1) _ d] active_catch_up(2) [OF assms(1) _ d] active_cooldown(2) [OF assms(1), of s]
      assms(1)
    by (cases "cc_state c") (auto simp: u catch_up_rank_def catch_up_inv_def split: if_splits)
qed

lemma settled_run_rank:
  "catch_up_inv c \<Longrightarrow> list_all settled ss \<Longrightarrow> catch_up_rank (catch_up_run ss c) \<le> catch_up_rank c - length ss"
proof (induction ss arbitrary: c)
  case (Cons s ss)
  then show ?case
    using Cons.IH [OF catch_up_update_inv [OF Cons.prems(1), of s]] settled_rank [OF Cons.prems(1), of s]
    by (simp add: catch_up_run_def)
qed (simp add: catch_up_run_def)

lemma catch_up_settles:
  assumes "catch_up_inv c" "list_all settled ss" "17 \<le> length ss"
  shows "cc_state (catch_up_run ss c) = Normal \<and> cc_scale_milli (catch_up_run ss c) = 1000"
proof -
  have "catch_up_rank c \<le> 17" by (cases "cc_state c") (simp_all add: catch_up_rank_def)
  then have "catch_up_rank (catch_up_run ss c) = 0" using settled_run_rank [OF assms(1,2)] assms(3) by linarith
  moreover have "catch_up_inv (catch_up_run ss c)" using assms(1) by (rule catch_up_run_inv)
  ultimately show ?thesis
    by (cases "cc_state (catch_up_run ss c)") (auto simp: catch_up_rank_def catch_up_inv_def word_unat_eq_iff)
qed

text \<open>What a decision promises: a cadence between 30 and 40 Hz.\<close>

lemma decision_hz:
  assumes "catch_up_inv c"
  shows "30 \<le> cd_target_simulation_hz (catch_up_decision b c)" "cd_target_simulation_hz (catch_up_decision b c) \<le> 40"
proof -
  let ?n = "unat (cc_scale_milli c)"
  have b: "1000 \<le> ?n" "?n \<le> 1333" using assms by (auto simp: catch_up_inv_def)
  have "unat (cc_scale_milli c * 30) = ?n * 30" using b unat_no_overflow(2) [of "cc_scale_milli c" 30] by simp
  then have "unat (cc_scale_milli c * 30 + 500) = ?n * 30 + 500"
    using b unat_no_overflow(1) [of "cc_scale_milli c * 30" 500] by simp
  then have h: "unat (cd_target_simulation_hz (catch_up_decision b c)) = (?n * 30 + 500) div 1000"
    by (simp add: catch_up_decision_def unat_div)
  show "30 \<le> cd_target_simulation_hz (catch_up_decision b c)" "cd_target_simulation_hz (catch_up_decision b c) \<le> 40"
    unfolding word_le_nat_alt h using b by simp_all
qed

lemma catch_up_step_limit:
  assumes "catch_up_inv c"
  shows "unat (cc_scale_milli (snd (catch_up_update s c))) \<le> unat (cc_scale_milli c) + 67"
proof -
  have b: "1000 \<le> unat (cc_scale_milli c)" "unat (cc_scale_milli c) \<le> 1333" using assms by (auto simp: catch_up_inv_def)
  have t: "cc_scale_milli (catch_up_transition s c') = cc_scale_milli c'" "cc_scale_milli (catch_up_cool_down c') = cc_scale_milli c'" for c'
    by (simp_all add: catch_up_transition_def catch_up_cool_down_def Let_def)
  have "ramped d n \<le> n + 67" for d n by (auto simp: ramped_def)
  then show ?thesis
    using b by (auto simp: update_cases(1) catch_up_active_def t ramp_scale catch_up_reset_def)
qed

text \<open>Three samples in a row with a debt of two frames above the target start catching up.\<close>

definition behind :: "ClientCatchUpSample \<Rightarrow> bool" where
  "behind s \<longleftrightarrow> cs_eligible s \<and> cs_contiguous_commits s \<noteq> 0 \<and> unat (cs_frame_debt s) \<ge> unat (cs_target_debt s) + 2"

lemma behind_step:
  assumes "catch_up_inv c" "cc_state c = Normal" "behind s"
  shows "if unat (cc_entry_count c) = 2 then cc_state (snd (catch_up_update s c)) = CatchUp
    else cc_state (snd (catch_up_update s c)) = Normal \<and>
      unat (cc_entry_count (snd (catch_up_update s c))) = unat (cc_entry_count c) + 1"
proof -
  have n: "unat (cc_entry_count c) < 3" using assms by (simp add: catch_up_inv_def)
  have e: "unat (count_up (cc_entry_count c) 3) = unat (cc_entry_count c) + 1" using n by (simp add: unat_count_up)
  have "unat (cs_frame_debt s) \<le> 4294967295" by (rule unat_small)
  then have d: "entry_debt s \<le> cs_frame_debt s" "settled_limit s < cs_frame_debt s"
    using assms(3) unat_no_overflow(1) [of "cs_target_debt s" 1] unat_no_overflow(1) [of "cs_target_debt s" 2]
    by (auto simp: behind_def entry_debt_def settled_limit_def word_le_nat_alt word_less_nat_alt word_unat_eq_iff)
  show ?thesis
    using assms n e d
    by (auto simp: update_cases(1) behind_def catch_up_active_def catch_up_cool_down_def ramp_simps
        catch_up_transition_def Let_def word_le_nat_alt)
qed

lemma behind_starts:
  assumes "catch_up_inv c" "cc_state c = Normal" "behind s1" "behind s2" "behind s3"
  shows "\<exists>k \<le> 3. cc_state (catch_up_run (take k [s1, s2, s3]) c) = CatchUp"
proof -
  define c1 c2 where "c1 = snd (catch_up_update s1 c)" and "c2 = snd (catch_up_update s2 c1)"
  have i: "catch_up_inv c1" "catch_up_inv c2" using assms(1) by (simp_all add: c1_def c2_def catch_up_update_inv)
  have "cc_state c1 = CatchUp \<or> cc_state c2 = CatchUp \<or> cc_state (snd (catch_up_update s3 c2)) = CatchUp"
    using behind_step [OF assms(1-3)] behind_step [OF i(1) _ assms(4)] behind_step [OF i(2) _ assms(5)]
      i assms(1,2) unfolding c1_def [symmetric] c2_def [symmetric]
    by (auto simp: catch_up_inv_def split: if_splits)
  then show ?thesis
    by (auto simp: catch_up_run_def c1_def c2_def intro: exI [of _ 1] exI [of _ 2] exI [of _ 3])
qed

subsection \<open>Giving up\<close>

text \<open>The answers of a budget that is polled with markers at the given times.\<close>

fun budget_polls :: "(u64 \<times> int) list \<Rightarrow> ProgressBudget \<Rightarrow> bool list" where
  "budget_polls [] b = []"
| "budget_polls ((value, now) # ps) b =
     fst (budget_expired value now b) # budget_polls ps (snd (budget_expired value now b))"

lemma budget_expired_cases:
  "pb_started (snd (budget_expired v now b)) = pb_started b"
  "pb_progressed (snd (budget_expired v now b)) = (if v \<noteq> pb_marker b then now else pb_progressed b)"
  by (simp_all add: budget_expired_def Let_def)

lemma budget_polls_spec:
  assumes "i < length ps" "pb_started b \<le> pb_progressed b" "\<forall>p \<in> set ps. pb_started b \<le> snd p"
  shows "pb_started b + seconds 90 \<le> snd (ps ! i) \<Longrightarrow> budget_polls ps b ! i"
    and "snd (ps ! i) < pb_started b + seconds 45 \<Longrightarrow> \<not> budget_polls ps b ! i"
proof -
  have "(pb_started b + seconds 90 \<le> snd (ps ! i) \<longrightarrow> budget_polls ps b ! i) \<and>
    (snd (ps ! i) < pb_started b + seconds 45 \<longrightarrow> \<not> budget_polls ps b ! i)"
    using assms
  proof (induction ps b arbitrary: i rule: budget_polls.induct)
    case (2 v now ps b)
    then show ?case
      using "2.IH" [of "i - 1"]
      by (cases i) (auto simp: budget_expired_cases budget_expired_def [THEN arg_cong [where f = fst]] Let_def seconds_def split: if_splits)
  qed simp
  then show "pb_started b + seconds 90 \<le> snd (ps ! i) \<Longrightarrow> budget_polls ps b ! i"
    "snd (ps ! i) < pb_started b + seconds 45 \<Longrightarrow> \<not> budget_polls ps b ! i" by auto
qed

text \<open>The comparison of test numbers goes around: the half of the numbers after one are newer.\<close>

lemma sint_pos: "sint (x :: u32) > 0 \<longleftrightarrow> 0 < unat x \<and> unat x < 2 ^ 31"
proof -
  have u: "0 \<le> uint x" "uint x < 2 ^ 32" using uint_lt2p [of x] by simp_all
  have "bit (uint x) 31 \<longleftrightarrow> 2 ^ 31 \<le> uint x"
  proof -
    have "uint x div 2147483648 = (if 2147483648 \<le> uint x then 1 else 0)" using u by auto
    then show ?thesis by (simp add: bit_iff_odd)
  qed
  then have "sint x = (if 2 ^ 31 \<le> uint x then uint x - 2 ^ 32 else uint x)"
    using u by (simp add: sint_uint signed_take_bit_eq_take_bit_minus take_bit_int_eq_self del: bit_uint_iff)
  then have "sint x > 0 \<longleftrightarrow> 0 < uint x \<and> uint x < 2 ^ 31" using u by auto
  moreover obtain n where n: "unat x = n" "uint x = int n" by simp
  ultimately show ?thesis unfolding n by auto
qed

lemma newer_preflight_iff:
  "newer_preflight t terminal active current \<longleftrightarrow>
     t \<noteq> 0 \<and> unat (t - terminal) \<in> {0<..<2 ^ 31} \<and> (\<not> active \<or> unat (t - current) \<in> {0<..<2 ^ 31})"
  by (auto simp: newer_preflight_def sint_pos)

lemma newer_preflight_asym:
  "newer_preflight t terminal active current \<Longrightarrow> \<not> newer_preflight terminal t active' current'"
proof
  assume "newer_preflight t terminal active current" "newer_preflight terminal t active' current'"
  then have "unat (t - terminal) \<in> {0<..<2 ^ 31}" "unat (terminal - t) \<in> {0<..<2 ^ 31}"
    by (auto simp: newer_preflight_iff)
  moreover have "unat ((t - terminal) + (terminal - t)) = 0" by simp
  ultimately show False unfolding unat_word_ariths by simp
qed

end
