(* ===== verification/Adventure_Policy.thy ===== *)
theory Adventure_Policy
  imports Pacing
begin

section \<open>Two-player adventure topologies\<close>

text \<open>
  Models \<^verbatim>\<open>two_player_adventure_policy.hpp\<close>: which combination of race type, racers and
  players releases the input lanes when two players share an adventure. A race type is a
  C++ \<^verbatim>\<open>int\<close>, here an \<open>int\<close> (the code only compares it and tests one bit); counts are
  unsigned words. The lemmas show that the exceptions do not overlap and that none of them
  admits a session that is not an online session of two.
\<close>

subsection \<open>Model\<close>

definition kDefaultRaceType :: int where "kDefaultRaceType = 0"
definition kHubWorldRaceType :: int where "kHubWorldRaceType = 5"
definition kCutsceneRaceType1 :: int where "kCutsceneRaceType1 = 6"
definition kCutsceneRaceType2 :: int where "kCutsceneRaceType2 = 7"
definition kBossRaceType :: int where "kBossRaceType = 8"
definition kChallengeRaceTypeMask :: int where "kChallengeRaceTypeMask = 0x40"
definition kTwoPlayerAdventureRaceRacerCount :: u32 where "kTwoPlayerAdventureRaceRacerCount = 6"
definition kTwoPlayerAdventureChallengeRacerCount :: u32 where
  "kTwoPlayerAdventureChallengeRacerCount = 4"

lemmas race_constants = kDefaultRaceType_def kHubWorldRaceType_def kCutsceneRaceType1_def
  kCutsceneRaceType2_def kBossRaceType_def kChallengeRaceTypeMask_def
  kTwoPlayerAdventureRaceRacerCount_def kTwoPlayerAdventureChallengeRacerCount_def

text \<open>The loop over the pairs; the last byte of an odd table is not reached, as the size is 20.\<close>

fun redirect_from :: "bytes \<Rightarrow> u32 \<Rightarrow> u32 \<Rightarrow> bool" where
  "redirect_from (boss # introduction # pairs) requested resolved =
     (if ucast boss = requested then ucast introduction = resolved
      else redirect_from pairs requested resolved)"
| "redirect_from _ requested resolved = False"

definition boss_introduction_redirect_matches :: "bytes \<Rightarrow> u32 \<Rightarrow> u32 \<Rightarrow> bool" where
  "boss_introduction_redirect_matches pairs requested resolved =
     (if length pairs \<noteq> 20 \<or> requested = resolved then False
      else redirect_from pairs requested resolved)"

definition two_player_adventure_empty_cutscene_ready ::
  "bool \<Rightarrow> bool \<Rightarrow> bool \<Rightarrow> int \<Rightarrow> int \<Rightarrow> u32 \<Rightarrow> u32 \<Rightarrow> u8 \<Rightarrow> bool" where
  "two_player_adventure_empty_cutscene_ready online_running assigned_ports_released
     adventure_selected requested_race_type resolved_race_type active_players racer_count
     expected_players =
     (let cinematic = (resolved_race_type = kCutsceneRaceType1 \<or>
                       resolved_race_type = kCutsceneRaceType2);
          scripted_destination = (requested_race_type = kHubWorldRaceType \<or>
            requested_race_type = kBossRaceType \<or> requested_race_type = kCutsceneRaceType1 \<or>
            requested_race_type = kCutsceneRaceType2)
      in online_running \<and> assigned_ports_released \<and> adventure_selected \<and>
         expected_players = 2 \<and> active_players = 1 \<and>
         racer_count = 0 \<and> cinematic \<and> scripted_destination)"

datatype TwoPlayerAdventurePhase =
    GuidedMenus | SharedHubPlayer1 | SharedHubPlayer2 | TransitionBarrier | DualGameplay

definition two_player_adventure_phase ::
  "bool \<Rightarrow> bool \<Rightarrow> bool \<Rightarrow> bool \<Rightarrow> FrameDebtPhase \<Rightarrow> TwoPlayerAdventurePhase" where
  "two_player_adventure_phase online_running assigned_ports_released two_player_adventure
     player_two_is_lead frame_debt_phase =
     (if \<not> online_running \<or> frame_debt_phase = Inactive \<or> \<not> assigned_ports_released
      then GuidedMenus
      else if frame_debt_phase_is_barrier frame_debt_phase then TransitionBarrier
      else if frame_debt_phase = Gameplay then DualGameplay
      else if two_player_adventure
      then (if player_two_is_lead then SharedHubPlayer2 else SharedHubPlayer1)
      else GuidedMenus)"

definition two_player_adventure_accepts_assigned_input :: "TwoPlayerAdventurePhase \<Rightarrow> bool" where
  "two_player_adventure_accepts_assigned_input phase \<longleftrightarrow>
     phase = SharedHubPlayer1 \<or> phase = SharedHubPlayer2 \<or> phase = DualGameplay"

definition two_player_adventure_shared_hub_topology_ready ::
  "bool \<Rightarrow> bool \<Rightarrow> bool \<Rightarrow> int \<Rightarrow> int \<Rightarrow> u32 \<Rightarrow> u32 \<Rightarrow> u8 \<Rightarrow> bool" where
  "two_player_adventure_shared_hub_topology_ready online_running assigned_ports_released
     two_player_adventure requested_race_type resolved_race_type active_players racer_count
     expected_players =
     (let hub_scene = (resolved_race_type = kHubWorldRaceType \<or>
            resolved_race_type = kCutsceneRaceType1 \<or> resolved_race_type = kCutsceneRaceType2)
      in online_running \<and> assigned_ports_released \<and> two_player_adventure \<and>
         requested_race_type = kHubWorldRaceType \<and> hub_scene \<and> expected_players = 2 \<and>
         active_players = 1 \<and> racer_count \<ge> 1 \<and> racer_count \<le> 10)"

definition two_player_adventure_dual_gameplay_topology_ready ::
  "bool \<Rightarrow> bool \<Rightarrow> bool \<Rightarrow> int \<Rightarrow> int \<Rightarrow> u32 \<Rightarrow> u32 \<Rightarrow> u8 \<Rightarrow> bool" where
  "two_player_adventure_dual_gameplay_topology_ready online_running assigned_ports_released
     two_player_adventure requested_race_type resolved_race_type active_players racer_count
     expected_players =
     (if \<not> online_running \<or> \<not> assigned_ports_released \<or> \<not> two_player_adventure \<or>
         expected_players \<noteq> 2 \<or> active_players \<noteq> 1 \<or> requested_race_type < 0 \<or>
         requested_race_type \<noteq> resolved_race_type
      then False
      else if resolved_race_type = kDefaultRaceType
      then racer_count = kTwoPlayerAdventureRaceRacerCount
      else resolved_race_type AND kChallengeRaceTypeMask \<noteq> 0 \<and>
           racer_count = kTwoPlayerAdventureChallengeRacerCount)"

definition two_player_adventure_boss_topology_ready ::
  "bool \<Rightarrow> bool \<Rightarrow> bool \<Rightarrow> int \<Rightarrow> int \<Rightarrow> u32 \<Rightarrow> u32 \<Rightarrow> u8 \<Rightarrow> bool \<Rightarrow> bool" where
  "two_player_adventure_boss_topology_ready online_running assigned_ports_released
     two_player_adventure requested_race_type resolved_race_type active_players racer_count
     expected_players verified_boss_introduction =
     (if \<not> online_running \<or> \<not> assigned_ports_released \<or> \<not> two_player_adventure \<or>
         requested_race_type \<noteq> kBossRaceType \<or> expected_players \<noteq> 2 \<or> active_players \<noteq> 1
      then False
      else if resolved_race_type = kBossRaceType then racer_count = 2
      else if resolved_race_type = kHubWorldRaceType
      then verified_boss_introduction \<and> racer_count = 1
      else let boss_introduction = (resolved_race_type = kCutsceneRaceType1 \<or>
                 resolved_race_type = kCutsceneRaceType2)
        in boss_introduction \<and> racer_count \<ge> 1 \<and> racer_count \<le> 10)"

definition two_player_adventure_bootstrap_hub_topology_ready ::
  "bool \<Rightarrow> bool \<Rightarrow> bool \<Rightarrow> int \<Rightarrow> int \<Rightarrow> u32 \<Rightarrow> u32 \<Rightarrow> u8 \<Rightarrow> bool" where
  "two_player_adventure_bootstrap_hub_topology_ready online_running assigned_ports_released
     jointventure_selected requested_race_type resolved_race_type active_players racer_count
     expected_players =
     (let hub_scene = (resolved_race_type = kHubWorldRaceType \<or>
            resolved_race_type = kCutsceneRaceType1 \<or> resolved_race_type = kCutsceneRaceType2)
      in online_running \<and> assigned_ports_released \<and> jointventure_selected \<and>
         requested_race_type = kHubWorldRaceType \<and> hub_scene \<and> expected_players = 2 \<and>
         active_players = 1 \<and> racer_count \<ge> 1 \<and> racer_count \<le> 10)"

subsection \<open>The exceptions do not overlap\<close>

lemmas topology_defs = two_player_adventure_shared_hub_topology_ready_def
  two_player_adventure_dual_gameplay_topology_ready_def two_player_adventure_boss_topology_ready_def
  two_player_adventure_empty_cutscene_ready_def two_player_adventure_bootstrap_hub_topology_ready_def
  Let_def race_constants

text \<open>The topologies that a scene can match, by name.\<close>

definition matching_topologies ::
  "bool \<Rightarrow> bool \<Rightarrow> bool \<Rightarrow> int \<Rightarrow> int \<Rightarrow> u32 \<Rightarrow> u32 \<Rightarrow> u8 \<Rightarrow> bool \<Rightarrow> string list" where
  "matching_topologies running released adventure requested resolved active racers expected verified =
     (if two_player_adventure_shared_hub_topology_ready running released adventure requested resolved
           active racers expected then [''hub''] else []) @
     (if two_player_adventure_dual_gameplay_topology_ready running released adventure requested resolved
           active racers expected then [''dual''] else []) @
     (if two_player_adventure_boss_topology_ready running released adventure requested resolved
           active racers expected verified then [''boss''] else []) @
     (if two_player_adventure_empty_cutscene_ready running released adventure requested resolved
           active racers expected then [''cutscene''] else [])"

lemma matching_topologies_one:
  "length (matching_topologies running released adventure requested resolved active racers expected verified) \<le> 1"
  by (auto simp: matching_topologies_def topology_defs)

lemma matching_topologies_session:
  "matching_topologies running released adventure requested resolved active racers expected verified \<noteq> [] \<Longrightarrow>
   running \<and> released \<and> adventure \<and> expected = 2 \<and> active = 1"
  by (auto simp: matching_topologies_def topology_defs split: if_splits)

text \<open>Before the game has latched its adventure flag, the bootstrap rule is the hub rule.\<close>

lemma bootstrap_is_hub:
  "two_player_adventure_bootstrap_hub_topology_ready = two_player_adventure_shared_hub_topology_ready"
  by (intro ext) (simp add: topology_defs)

text \<open>Assigned input is accepted only on a released online session outside every barrier.\<close>

lemma assigned_input_accepted:
  "two_player_adventure_accepts_assigned_input
     (two_player_adventure_phase running released adventure second phase) \<longleftrightarrow>
   running \<and> released \<and> frame_debt_phase_has_timeline phase \<and> (phase = Gameplay \<or> adventure)"
  by (cases phase)
    (auto simp: two_player_adventure_accepts_assigned_input_def two_player_adventure_phase_def
      frame_debt_phase_is_barrier_def frame_debt_phase_has_timeline_def)

text \<open>A redirect matches exactly the first pair of the table for the requested boss.\<close>

fun table_pairs :: "bytes \<Rightarrow> (u32 \<times> u32) list" where
  "table_pairs (a # b # ps) = (ucast a, ucast b) # table_pairs ps"
| "table_pairs _ = []"

lemma redirect_from_map_of: "redirect_from ps requested resolved \<longleftrightarrow> map_of (table_pairs ps) requested = Some resolved"
  by (induction ps requested resolved rule: redirect_from.induct) auto

end
