(* ===== verification/Save_Codec.thy ===== *)
theory Save_Codec
  imports Wire Netplay_Types
begin

section \<open>The adventure save codec\<close>

text \<open>
  Models \<^verbatim>\<open>dkr_save_codec.cpp\<close>: the 512-byte EEPROM image of the game, with three
  adventure slots packed bit by bit, a configuration word and two blocks of records, each
  with its checksum; decoding, encoding, repair of the checksums, the canonical form that
  multiplayer compares, and the ranges of the fields the save builder edits. A vector that
  is passed by reference and written is an argument and a result. An access to the image is
  within its bounds by the size check of every entry point. The tables of course and record
  names, and the accessors that return them, are display data and not modelled.
\<close>

subsection \<open>Data\<close>

definition kImageSize :: nat where "kImageSize = 0x200"
definition kAdventureSlotCount :: nat where "kAdventureSlotCount = 3"
definition kCourseCount :: nat where "kCourseCount = 34"
definition kWorldCount :: nat where "kWorldCount = 6"
definition kRecordCount :: nat where "kRecordCount = 47"
definition kMaximumTotalBalloons :: u8 where "kMaximumTotalBalloons = 47"
definition kMaximumHubBalloons :: u8 where "kMaximumHubBalloons = 7"
definition kMaximumWorldBalloons :: u8 where "kMaximumWorldBalloons = 8"
definition kMaximumAmuletPieces :: u8 where "kMaximumAmuletPieces = 4"
definition kSlotSize :: nat where "kSlotSize = 0x28"
definition kConfigOffset :: nat where "kConfigOffset = 0x78"
definition kFastestLapsOffset :: nat where "kFastestLapsOffset = 0x80"
definition kCourseTimesOffset :: nat where "kCourseTimesOffset = 0x140"
definition kRecordBlockSize :: nat where "kRecordBlockSize = 0xC0"
definition kNameAlphabet :: string where "kNameAlphabet = ''ABCDEFGHIJKLMNOPQRSTUVWXYZ.?    ''"
definition kConfigPayloadMask :: u64 where "kConfigPayloadMask = 0x00FFFFFFFFFFFFFF"
definition kKnownConfigBits :: u64 where "kKnownConfigBits = 0x00FFFFFF OR push_bit 25 1"
definition kPreservedConfigBits :: u64 where
  "kPreservedConfigBits = kConfigPayloadMask AND NOT kKnownConfigBits"

lemmas save_sizes = kImageSize_def kAdventureSlotCount_def kCourseCount_def kWorldCount_def
  kRecordCount_def kSlotSize_def kConfigOffset_def kFastestLapsOffset_def kCourseTimesOffset_def
  kRecordBlockSize_def

record AdventureSlot =
  course_status :: "u8 list"
  taj_flags :: u8
  trophies :: u16
  bosses :: u16
  balloons :: "u8 list"
  tt_amulet :: u8
  wizpig_amulet :: u8
  world_flags :: "u16 list"
  slot_keys :: u8
  cutscenes :: u32
  slot_name :: string
  slot_reserved :: u8

record GlobalSettings =
  adventure_two :: bool
  drumstick :: bool
  language :: u8
  tt_trials :: "bool list"
  subtitles :: bool
  preserved_config_bits :: u64

record SaveRecord =
  record_time :: u16
  record_initials :: string

record SaveImage =
  si_slots :: "AdventureSlot list"
  si_settings :: GlobalSettings
  si_fastest_laps :: "SaveRecord list"
  si_course_times :: "SaveRecord list"
  si_fastest_laps_tail :: bytes
  si_course_times_tail :: bytes

definition empty_slot :: AdventureSlot where
  "empty_slot = \<lparr>course_status = replicate kCourseCount 0, taj_flags = 0, trophies = 0, bosses = 0,
     balloons = replicate kWorldCount 0, tt_amulet = 0, wizpig_amulet = 0,
     world_flags = replicate kWorldCount 0, slot_keys = 0, cutscenes = 0, slot_name = [],
     slot_reserved = 0\<rparr>"

subsection \<open>Words in the image and checksums\<close>

definition read_be16 :: "bytes \<Rightarrow> nat \<Rightarrow> u16" where
  "read_be16 bs offset = push_bit 8 (ucast (bs ! offset)) OR ucast (bs ! (offset + 1))"

definition write_be16 :: "bytes \<Rightarrow> nat \<Rightarrow> u16 \<Rightarrow> bytes" where
  "write_be16 bs offset value =
     bs[offset := ucast (drop_bit 8 value), offset + 1 := ucast value]"

definition read_be64 :: "bytes \<Rightarrow> nat \<Rightarrow> u64" where
  "read_be64 bs offset =
     foldl (\<lambda>value index. push_bit 8 value OR ucast (bs ! (offset + index))) 0 [0..<8]"

definition write_be64 :: "bytes \<Rightarrow> nat \<Rightarrow> u64 \<Rightarrow> bytes" where
  "write_be64 bs offset value =
     fst (foldl (\<lambda>(bs, value) index. (bs[offset + 7 - index := ucast value], drop_bit 8 value))
       (bs, value) [0..<8])"

definition block_checksum :: "bytes \<Rightarrow> nat \<Rightarrow> nat \<Rightarrow> u16" where
  "block_checksum bs offset n =
     ucast (foldl (\<lambda>checksum index. checksum + ucast (bs ! (offset + index))) (5 :: u32) [2..<n])"

definition config_checksum :: "u64 \<Rightarrow> u8" where
  "config_checksum payload =
     ucast (foldl (\<lambda>checksum index. checksum + ucast (ucast (drop_bit (index * 4) payload AND 0xF) :: u8))
       (5 :: u32) [0..<14])"

subsection \<open>Bit streams\<close>

fun read_bits :: "bytes \<Rightarrow> nat \<Rightarrow> nat \<Rightarrow> u32 \<Rightarrow> u32" where
  "read_bits bs pos 0 value = value"
| "read_bits bs pos (Suc count) value =
     read_bits bs (pos + 1) count
       (push_bit 1 value OR (drop_bit (7 - pos mod 8) (ucast (bs ! (pos div 8))) AND 1))"

text \<open>The reader is its position; \<^verbatim>\<open>read\<close> returns the value and advances it.\<close>

definition reader_read :: "bytes \<Rightarrow> nat \<Rightarrow> nat \<Rightarrow> u32 \<times> nat" where
  "reader_read bs count pos = (read_bits bs pos count 0, pos + count)"

fun reader_array :: "bytes \<Rightarrow> nat \<Rightarrow> nat \<Rightarrow> nat \<Rightarrow> u32 list \<times> nat" where
  "reader_array bs count 0 pos = ([], pos)"
| "reader_array bs count (Suc n) pos =
     (let (value, pos) = reader_read bs count pos;
          (values, pos) = reader_array bs count n pos
      in (value # values, pos))"

fun write_bits :: "bytes \<Rightarrow> nat \<Rightarrow> u32 \<Rightarrow> nat \<Rightarrow> bytes" where
  "write_bits bs pos value 0 = bs"
| "write_bits bs pos value (Suc shift) =
     (let mask = push_bit (7 - pos mod 8) 1;
          old = bs ! (pos div 8);
          new = (if drop_bit shift value AND 1 \<noteq> 0 then old OR mask else old AND NOT mask)
      in write_bits (bs[pos div 8 := new]) (pos + 1) value shift)"

definition writer_write :: "u32 \<Rightarrow> nat \<Rightarrow> bytes \<times> nat \<Rightarrow> bytes \<times> nat" where
  "writer_write value count w = (write_bits (fst w) (snd w) value count, snd w + count)"

subsection \<open>Names\<close>

definition alphabet_find :: "char \<Rightarrow> nat option" where
  "alphabet_find c = find (\<lambda>i. kNameAlphabet ! i = c) [0..<length kNameAlphabet]"

definition to_upper :: "char \<Rightarrow> char" where
  "to_upper c = (if 97 \<le> (of_char c :: nat) \<and> (of_char c :: nat) \<le> 122
                 then char_of ((of_char c :: nat) - 32) else c)"

definition sanitise_name :: "string \<Rightarrow> string" where
  "sanitise_name value =
     foldl (\<lambda>clean c. if length clean = 3 then clean
       else clean @ [case alphabet_find (to_upper c) of None \<Rightarrow> CHR '' '' | Some _ \<Rightarrow> to_upper c]) [] value"

definition pop_spaces :: "string \<Rightarrow> string" where
  "pop_spaces s = rev (dropWhile (\<lambda>c. c = CHR '' '') (rev s))"

definition decode_name :: "u16 \<Rightarrow> string" where
  "decode_name packed =
     pop_spaces [kNameAlphabet ! unat (drop_bit 10 packed AND 0x1F),
       kNameAlphabet ! unat (drop_bit 5 packed AND 0x1F), kNameAlphabet ! unat (packed AND 0x1F)]"

definition encode_name :: "string \<Rightarrow> u16" where
  "encode_name value =
     (let clean = sanitise_name value in
      foldl (\<lambda>packed index.
        let character = (if index < length clean then clean ! index else CHR '' '') in
        push_bit 5 packed OR of_nat (case alphabet_find character of None \<Rightarrow> 31 | Some found \<Rightarrow> found))
        0 [0, 1, 2])"

subsection \<open>Slots, settings and records\<close>

definition erased :: "bytes \<Rightarrow> nat \<Rightarrow> bool" where
  "erased bs offset \<longleftrightarrow> list_all (\<lambda>b. b = 0xFF) (take kSlotSize (drop offset bs))"

definition decode_slot :: "bytes \<Rightarrow> nat \<Rightarrow> AdventureSlot option" where
  "decode_slot bs offset =
     (if erased bs offset then Some empty_slot
      else if read_be16 bs offset \<noteq> block_checksum bs offset kSlotSize then None
      else
        let (status, p) = reader_array bs 2 kCourseCount (offset * 8 + 16);
            (taj, p) = reader_read bs 6 p;
            (trophy, p) = reader_read bs 10 p;
            (boss, p) = reader_read bs 12 p;
            (balloon, p) = reader_array bs 7 kWorldCount p;
            (tt, p) = reader_read bs 3 p;
            (wizpig, p) = reader_read bs 3 p;
            (flags, p) = reader_array bs 16 kWorldCount p;
            (key, p) = reader_read bs 8 p;
            (scenes, p) = reader_read bs 32 p;
            (name, p) = reader_read bs 16 p;
            (reserved, p) = reader_read bs 8 p
        in Some \<lparr>course_status = map ucast status, taj_flags = ucast taj, trophies = ucast trophy,
             bosses = ucast boss, balloons = map ucast balloon, tt_amulet = ucast tt,
             wizpig_amulet = ucast wizpig, world_flags = map ucast flags, slot_keys = ucast key,
             cutscenes = scenes, slot_name = decode_name (ucast name),
             slot_reserved = ucast reserved\<rparr>)"

definition fill_zero :: "bytes \<Rightarrow> nat \<Rightarrow> nat \<Rightarrow> bytes" where
  "fill_zero bs offset n = take offset bs @ replicate n 0 @ drop (offset + n) bs"

definition encode_slot :: "AdventureSlot \<Rightarrow> bytes \<Rightarrow> nat \<Rightarrow> bytes" where
  "encode_slot slot bs offset =
     (let w = (fill_zero bs offset kSlotSize, offset * 8 + 16);
          w = fold (\<lambda>status. writer_write (ucast (min status 3)) 2) (course_status slot) w;
          w = writer_write (ucast (taj_flags slot AND 0x3F)) 6 w;
          w = writer_write (ucast (trophies slot AND 0x3FF)) 10 w;
          w = writer_write (ucast (bosses slot AND 0xFFF)) 12 w;
          w = fold (\<lambda>b. writer_write (ucast (min b 127)) 7) (balloons slot) w;
          w = writer_write (ucast (min (tt_amulet slot) 7)) 3 w;
          w = writer_write (ucast (min (wizpig_amulet slot) 7)) 3 w;
          w = fold (\<lambda>flags. writer_write (ucast flags) 16) (world_flags slot) w;
          w = writer_write (ucast (slot_keys slot)) 8 w;
          w = writer_write (cutscenes slot) 32 w;
          w = writer_write (ucast (encode_name (slot_name slot))) 16 w;
          w = writer_write (ucast (slot_reserved slot)) 8 w
      in write_be16 (fst w) offset (block_checksum (fst w) offset kSlotSize))"

definition decode_records :: "bytes \<Rightarrow> nat \<Rightarrow> (SaveRecord list \<times> bytes) option" where
  "decode_records bs offset =
     (if read_be16 bs offset \<noteq> block_checksum bs offset kRecordBlockSize then None
      else Some (map (\<lambda>i. let cursor = offset + 2 + 4 * i in
                   \<lparr>record_time = read_be16 bs cursor,
                    record_initials = decode_name (read_be16 bs (cursor + 2))\<rparr>) [0..<kRecordCount],
                 [bs ! (offset + kRecordBlockSize - 2), bs ! (offset + kRecordBlockSize - 1)]))"

definition encode_records :: "SaveRecord list \<Rightarrow> bytes \<Rightarrow> bytes \<Rightarrow> nat \<Rightarrow> bytes" where
  "encode_records records tail bs offset =
     (let bs = fill_zero bs offset kRecordBlockSize;
          (bs, cursor) = foldl (\<lambda>(bs, cursor) r.
            (write_be16 (write_be16 bs cursor (record_time r)) (cursor + 2)
               (encode_name (record_initials r)), cursor + 4)) (bs, offset + 2) records;
          bs = bs[offset + kRecordBlockSize - 2 := tail ! 0];
          bs = bs[offset + kRecordBlockSize - 1 := tail ! 1]
      in write_be16 bs offset (block_checksum bs offset kRecordBlockSize))"

definition decode_settings :: "u64 \<Rightarrow> GlobalSettings" where
  "decode_settings payload =
     \<lparr>adventure_two = (payload AND 1 \<noteq> 0), drumstick = (payload AND 2 \<noteq> 0),
      language = ucast (drop_bit 2 payload AND 3),
      tt_trials = map (\<lambda>index. drop_bit (4 + index) payload AND 1 \<noteq> 0) [0..<20],
      subtitles = (drop_bit 25 payload AND 1 \<noteq> 0),
      preserved_config_bits = payload AND kPreservedConfigBits\<rparr>"

definition encode_settings :: "GlobalSettings \<Rightarrow> u64" where
  "encode_settings s =
     (let payload =
        (preserved_config_bits s AND kPreservedConfigBits) OR
        (if adventure_two s then 1 else 0) OR
        (if drumstick s then 2 else 0) OR
        push_bit 2 (ucast (language s AND 3)) OR
        push_bit 25 (if subtitles s then 1 else 0)
      in foldl (\<lambda>payload index.
           if tt_trials s ! index then payload OR push_bit (4 + index) 1 else payload)
           payload [0..<length (tt_trials s)])"

definition config_word :: "u64 \<Rightarrow> u64" where
  "config_word payload = payload OR push_bit 56 (ucast (config_checksum payload))"

subsection \<open>Images\<close>

fun decode_slots :: "bytes \<Rightarrow> nat list \<Rightarrow> string + AdventureSlot list" where
  "decode_slots bs [] = Inr []"
| "decode_slots bs (index # rest) =
     (case decode_slot bs (index * kSlotSize) of
        None \<Rightarrow> Inl (''Adventure slot '' @ to_string (of_nat (index + 1)) @ '' has an invalid checksum.'')
      | Some slot \<Rightarrow>
          (case decode_slots bs rest of Inl e \<Rightarrow> Inl e | Inr slots \<Rightarrow> Inr (slot # slots)))"

definition save_decode :: "bytes \<Rightarrow> string + SaveImage" where
  "save_decode bs =
     (if length bs \<noteq> kImageSize then Inl ''Adventure EEPROM must be exactly 512 bytes.''
      else case decode_slots bs [0..<kAdventureSlotCount] of Inl e \<Rightarrow> Inl e
      | Inr slots \<Rightarrow>
          let config = read_be64 bs kConfigOffset;
              payload = config AND 0x00FFFFFFFFFFFFFF in
          if ucast (drop_bit 56 config) \<noteq> config_checksum payload
          then Inl ''Global unlock settings have an invalid checksum.''
          else case (decode_records bs kFastestLapsOffset, decode_records bs kCourseTimesOffset) of
            (Some (laps, laps_tail), Some (courses, courses_tail)) \<Rightarrow>
              Inr \<lparr>si_slots = slots, si_settings = decode_settings payload,
                   si_fastest_laps = laps, si_course_times = courses,
                   si_fastest_laps_tail = laps_tail, si_course_times_tail = courses_tail\<rparr>
          | _ \<Rightarrow> Inl ''T.T. record data has an invalid checksum.'')"

definition save_encode :: "SaveImage \<Rightarrow> bytes" where
  "save_encode img =
     (let bs = replicate kImageSize 0;
          bs = foldl (\<lambda>bs index. encode_slot (si_slots img ! index) bs (index * kSlotSize)) bs
                 [0..<kAdventureSlotCount];
          payload = encode_settings (si_settings img);
          bs = write_be64 bs kConfigOffset (config_word payload);
          bs = encode_records (si_fastest_laps img) (si_fastest_laps_tail img) bs kFastestLapsOffset
      in encode_records (si_course_times img) (si_course_times_tail img) bs kCourseTimesOffset)"

definition blank_image :: SaveImage where
  "blank_image =
     \<lparr>si_slots = replicate kAdventureSlotCount empty_slot,
      si_settings = \<lparr>adventure_two = False, drumstick = False, language = 0,
        tt_trials = replicate 20 False, subtitles = True, preserved_config_bits = push_bit 24 1\<rparr>,
      si_fastest_laps = replicate kRecordCount \<lparr>record_time = 0, record_initials = []\<rparr>,
      si_course_times = replicate kRecordCount \<lparr>record_time = 0, record_initials = []\<rparr>,
      si_fastest_laps_tail = [0, 0], si_course_times_tail = [0, 0]\<rparr>"

definition blank_bytes :: bytes where
  "blank_bytes = save_encode blank_image"

definition save_validate :: "bytes \<Rightarrow> string + unit" where
  "save_validate bs = map_sum id (\<lambda>_. ()) (save_decode bs)"

definition repair_checksums :: "bytes \<Rightarrow> string + bytes" where
  "repair_checksums bs =
     (if length bs \<noteq> kImageSize then Inl ''Adventure EEPROM must be exactly 512 bytes.''
      else
        let repaired = foldl (\<lambda>repaired index.
              let offset = index * kSlotSize in
              if erased bs offset then repaired
              else write_be16 repaired offset (block_checksum repaired offset kSlotSize))
              bs [0..<kAdventureSlotCount];
            payload = read_be64 repaired kConfigOffset AND kConfigPayloadMask;
            repaired = write_be64 repaired kConfigOffset (config_word payload);
            repaired = write_be16 repaired kFastestLapsOffset
              (block_checksum repaired kFastestLapsOffset kRecordBlockSize);
            repaired = write_be16 repaired kCourseTimesOffset
              (block_checksum repaired kCourseTimesOffset kRecordBlockSize)
        in case save_validate repaired of
             Inl e \<Rightarrow> Inl (''The checksum-repaired EEPROM did not validate: '' @ e)
           | Inr _ \<Rightarrow> Inr repaired)"

definition canonical_bytes :: "bytes \<Rightarrow> string + bytes" where
  "canonical_bytes bs =
     (case save_decode bs of Inl e \<Rightarrow> Inl e
      | Inr img \<Rightarrow>
          let canonical = save_encode img in
          case save_validate canonical of Inl e \<Rightarrow> Inl e | Inr _ \<Rightarrow> Inr canonical)"

subsection \<open>Editable ranges\<close>

text \<open>The two loops over the five racing worlds; \<^verbatim>\<open>world_total\<close> is an \<^verbatim>\<open>unsigned\<close>.\<close>

definition world_total :: "u8 list \<Rightarrow> u32" where
  "world_total bs = foldl (\<lambda>total world. total + ucast (bs ! world)) 0 [1..<kWorldCount]"

definition normalise_balloons :: "u8 list \<Rightarrow> u8 list" where
  "normalise_balloons bs =
     (let bs = foldl (\<lambda>bs world. bs[world := min (bs ! world) kMaximumWorldBalloons]) bs
            [1..<kWorldCount];
          total = world_total bs;
          saved_total = min (ucast (bs ! 0)) (ucast kMaximumTotalBalloons);
          hub_count = (if saved_total > total
                       then min (saved_total - total) (ucast kMaximumHubBalloons) else 0)
      in bs[0 := ucast (total + hub_count)])"

definition normalise_slot :: "AdventureSlot \<Rightarrow> AdventureSlot" where
  "normalise_slot slot =
     slot\<lparr>course_status := map (\<lambda>status. min status 3) (course_status slot),
       taj_flags := taj_flags slot AND 0x3F, trophies := trophies slot AND 0x3FF,
       bosses := bosses slot AND 0xFFF, tt_amulet := min (tt_amulet slot) kMaximumAmuletPieces,
       wizpig_amulet := min (wizpig_amulet slot) kMaximumAmuletPieces,
       balloons := normalise_balloons (balloons slot),
       slot_name := sanitise_name (slot_name slot)\<rparr>"

definition normalise_editable_fields :: "SaveImage \<Rightarrow> SaveImage" where
  "normalise_editable_fields img =
     img\<lparr>si_slots := map normalise_slot (si_slots img),
       si_settings := (si_settings img)\<lparr>language := min (language (si_settings img)) 3\<rparr>\<rparr>"

definition validate_slot :: "nat \<Rightarrow> AdventureSlot \<Rightarrow> string + unit" where
  "validate_slot slot_index slot =
     (let prefix = ''Adventure '' @ to_string (of_nat (slot_index + 1)) @ '': '' in
      if list_ex (\<lambda>status. status > 3) (course_status slot)
      then Inl (prefix @ ''course progress is out of range.'')
      else if taj_flags slot > 0x3F \<or> trophies slot > 0x3FF \<or> bosses slot > 0xFFF
      then Inl (prefix @ ''progress flags are out of range.'')
      else if tt_amulet slot > kMaximumAmuletPieces \<or> wizpig_amulet slot > kMaximumAmuletPieces
      then Inl (prefix @ ''amulet pieces cannot exceed four.'')
      else if list_ex (\<lambda>world. balloons slot ! world > kMaximumWorldBalloons) [1..<kWorldCount]
      then Inl (prefix @ ''a racing world cannot contain more than eight balloons.'')
      else let total = world_total (balloons slot) in
        if balloons slot ! 0 > kMaximumTotalBalloons \<or> total > ucast (balloons slot ! 0) \<or>
           ucast (balloons slot ! 0) - total > ucast kMaximumHubBalloons
        then Inl (prefix @ ''balloon totals must equal the five worlds plus DKR-R's central island region.'')
        else Inr ())"

fun validate_slots :: "nat \<Rightarrow> AdventureSlot list \<Rightarrow> string + unit" where
  "validate_slots slot_index [] = Inr ()"
| "validate_slots slot_index (slot # slots) =
     (case validate_slot slot_index slot of Inl e \<Rightarrow> Inl e
      | Inr _ \<Rightarrow> validate_slots (Suc slot_index) slots)"

definition validate_editable_ranges :: "SaveImage \<Rightarrow> string + unit" where
  "validate_editable_ranges img =
     (case validate_slots 0 (si_slots img) of Inl e \<Rightarrow> Inl e
      | Inr _ \<Rightarrow> if language (si_settings img) > 3
                 then Inl ''The selected language is out of range.'' else Inr ())"

end
