(* ===== verification/Save_Image.thy ===== *)
theory Save_Image
  imports Save_Codec
begin

section \<open>Round trip of the save image\<close>

text \<open>
  The lemmas behind the round trip of \<^verbatim>\<open>dkr_save_codec.cpp\<close>. An image is a sequence of bits
  (\<open>get_bit\<close>); reading and writing fields are characterised bit by bit, sequences of fields by
  induction. Two images may agree on a region of bytes (\<open>agree\<close>), which is how the lemmas say
  what a block of the image depends on and what writing a block leaves alone. What survives
  a round trip is the canonical form of a slot, of the settings, of a record and of an image.
\<close>

subsection \<open>Bits of the image\<close>

definition get_bit :: "bytes \<Rightarrow> nat \<Rightarrow> bool" where
  "get_bit bs k \<longleftrightarrow> bit (bs ! (k div 8)) (7 - k mod 8)"

lemma and_one_bit: "(drop_bit n x AND 1 :: 'a::len word) \<noteq> 0 \<longleftrightarrow> bit x n"
  by (simp add: and_one_eq odd_iff_mod_2_eq_one [symmetric] bit_iff_odd_drop_bit mod2_eq_if)

lemma read_bits_bit:
  "bit (read_bits bs p n v) i \<longleftrightarrow> i < 32 \<and> (if i < n then get_bit bs (p + n - 1 - i) else bit v (i - n))"
proof (induction n arbitrary: p v)
  case 0
  then show ?case by (auto dest: bit_imp_le_length)
next
  case (Suc n)
  have b: "bit (push_bit 1 v OR (drop_bit (7 - p mod 8) (ucast (bs ! (p div 8))) AND 1)) k \<longleftrightarrow>
      k < 32 \<and> (if k = 0 then get_bit bs p else bit v (k - 1))" for k :: nat and v :: u32
    unfolding bit_or_iff bit_and_iff bit_push_bit_iff bit_drop_bit_eq
    by (cases k) (auto simp: bit_ucast_iff bit_1_iff get_bit_def dest: bit_imp_le_length)
  show ?case
  proof (cases i n rule: linorder_cases)
    case equal
    then show ?thesis using Suc.IH [of "p + 1"] b [of v 0] by (auto simp: read_bits.simps)
  next
    case greater
    then show ?thesis using Suc.IH [of "p + 1"] b [of v "i - n"] by (auto simp: read_bits.simps)
  qed (use Suc.IH [of "p + 1"] in auto)
qed

lemma length_write_bits [simp]: "length (write_bits bs p v n) = length bs"
  by (induction bs p v n rule: write_bits.induct) (simp_all add: Let_def)

lemma get_bit_update:
  assumes "k < 8 * length bs"
  shows "get_bit (bs[k div 8 := (if b then bs ! (k div 8) OR push_bit (7 - k mod 8) 1
      else bs ! (k div 8) AND NOT (push_bit (7 - k mod 8) 1))]) j \<longleftrightarrow> (if j = k then b else get_bit bs j)"
proof -
  have l: "k div 8 < length bs" using assms by simp
  have "j = k" if "j div 8 = k div 8" "7 - j mod 8 = 7 - k mod 8"
  proof -
    have "j mod 8 < 8" "k mod 8 < 8" by simp_all
    then have "j mod 8 = k mod 8" using that(2) by linarith
    then show ?thesis using that(1) by (metis div_mult_mod_eq)
  qed
  then have ne: "7 - j mod 8 \<noteq> 7 - k mod 8" if "j div 8 = k div 8" "j \<noteq> k" using that by blast
  show ?thesis
  proof (cases "j div 8 = k div 8")
    case True
    then show ?thesis
      using l ne [OF True] unfolding get_bit_def
      by (cases "j = k") (auto simp: bit_or_iff bit_and_iff bit_not_iff bit_exp_iff)
  next
    case False
    then show ?thesis by (auto simp: get_bit_def)
  qed
qed

lemma write_bits_bit:
  "p + n \<le> 8 * length bs \<Longrightarrow>
   get_bit (write_bits bs p v n) j \<longleftrightarrow> (if p \<le> j \<and> j < p + n then bit v (p + n - 1 - j) else get_bit bs j)"
proof (induction n arbitrary: bs p)
  case (Suc n)
  let ?b = "drop_bit n v AND 1 \<noteq> 0"
  let ?bs = "bs[p div 8 := (if ?b then bs ! (p div 8) OR push_bit (7 - p mod 8) 1
      else bs ! (p div 8) AND NOT (push_bit (7 - p mod 8) 1))]"
  have w: "write_bits bs p v (Suc n) = write_bits ?bs (p + 1) v n" by (simp add: Let_def)
  have "get_bit ?bs j \<longleftrightarrow> (if j = p then bit v n else get_bit bs j)"
    using get_bit_update [of p bs ?b j] Suc.prems and_one_bit [of n v] by simp
  then show ?case
    unfolding w using Suc.IH [of "p + 1" ?bs] Suc.prems by auto
qed auto

lemma read_write:
  assumes "p + n \<le> 8 * length bs" "n \<le> 32"
  shows "read_bits (write_bits bs p v n) p n 0 = take_bit n v"
  using assms by (intro bit_word_eqI) (auto simp: read_bits_bit write_bits_bit bit_take_bit_iff)

lemma read_cong:
  assumes "\<And>k. p \<le> k \<Longrightarrow> k < p + n \<Longrightarrow> get_bit bs k = get_bit cs k"
  shows "read_bits bs p n v = read_bits cs p n v"
  using assms by (intro bit_word_eqI) (auto simp: read_bits_bit)

subsection \<open>Sequences of fields\<close>

text \<open>A field is a value with its width; \<open>at_fields\<close> says which fields lie from a position on.\<close>

type_synonym field = "u32 \<times> nat"

fun at_fields :: "bytes \<Rightarrow> nat \<Rightarrow> field list \<Rightarrow> bool" where
  "at_fields bs p [] = True"
| "at_fields bs p ((v, n) # fs) = (read_bits bs p n 0 = v \<and> at_fields bs (p + n) fs)"

definition fields_width :: "field list \<Rightarrow> nat" where
  "fields_width fs = sum_list (map snd fs)"

definition write_fields :: "field list \<Rightarrow> bytes \<times> nat \<Rightarrow> bytes \<times> nat" where
  "write_fields fs = fold (\<lambda>(v, n). writer_write v n) fs"

lemma fields_width_simps [simp]:
  "fields_width [] = 0" "fields_width (f # fs) = snd f + fields_width fs"
  "fields_width (fs @ gs) = fields_width fs + fields_width gs"
  by (simp_all add: fields_width_def)

lemma fields_width_map [simp]: "fields_width (map (\<lambda>x. (f x, n)) xs) = n * length xs"
  by (induction xs) simp_all

lemma at_fields_cong:
  "(\<And>k. p \<le> k \<Longrightarrow> k < p + fields_width fs \<Longrightarrow> get_bit bs k = get_bit cs k) \<Longrightarrow>
   at_fields bs p fs = at_fields cs p fs"
proof (induction bs p fs rule: at_fields.induct)
  case (2 bs p v n fs)
  have "read_bits bs p n 0 = read_bits cs p n 0" using 2(2) by (intro read_cong) simp
  moreover have "at_fields bs (p + n) fs = at_fields cs (p + n) fs" using 2(2) by (intro 2(1)) simp_all
  ultimately show ?case by simp
qed simp

lemma at_fields_append:
  "at_fields bs p (fs @ gs) \<longleftrightarrow> at_fields bs p fs \<and> at_fields bs (p + fields_width fs) gs"
  by (induction bs p fs rule: at_fields.induct) (auto simp: add.assoc)

lemma write_fields_spec:
  assumes "p + fields_width fs \<le> 8 * length bs" "\<forall>f \<in> set fs. snd f \<le> 32"
  shows "snd (write_fields fs (bs, p)) = p + fields_width fs \<and>
    length (fst (write_fields fs (bs, p))) = length bs \<and>
    (\<forall>j. j < p \<or> p + fields_width fs \<le> j \<longrightarrow> get_bit (fst (write_fields fs (bs, p))) j = get_bit bs j) \<and>
    at_fields (fst (write_fields fs (bs, p))) p (map (\<lambda>(v, n). (take_bit n v, n)) fs)"
  using assms
proof (induction fs arbitrary: bs p)
  case (Cons f fs)
  obtain v n where f: "f = (v, n)" by (cases f)
  let ?b = "write_bits bs p v n"
  have w: "write_fields (f # fs) (bs, p) = write_fields fs (?b, p + n)"
    by (simp add: write_fields_def writer_write_def f)
  have IH: "snd (write_fields fs (?b, p + n)) = p + n + fields_width fs"
    "length (fst (write_fields fs (?b, p + n))) = length bs"
    "\<And>j. j < p + n \<or> p + n + fields_width fs \<le> j \<Longrightarrow> get_bit (fst (write_fields fs (?b, p + n))) j = get_bit ?b j"
    "at_fields (fst (write_fields fs (?b, p + n))) (p + n) (map (\<lambda>(v, n). (take_bit n v, n)) fs)"
    using Cons.IH [of "p + n" ?b] Cons.prems by (auto simp: f)
  have "read_bits (fst (write_fields fs (?b, p + n))) p n 0 = read_bits ?b p n 0"
    using IH(3) by (intro read_cong) simp
  also have "\<dots> = take_bit n v" using Cons.prems by (intro read_write) (auto simp: f)
  finally show ?case
    unfolding w using IH write_bits_bit [of p n bs v] Cons.prems(1) by (auto simp: f)
qed (simp add: write_fields_def)

lemma reader_array_fields:
  "at_fields bs p (map (\<lambda>v. (v, w)) vs) \<Longrightarrow> reader_array bs w (length vs) p = (vs, p + w * length vs)"
  by (induction vs arbitrary: p) (simp_all add: reader_read_def add.assoc)

lemma reader_array_map:
  "reader_array bs n m p = (map (\<lambda>i. read_bits bs (p + n * i) n 0) [0..<m], p + n * m)"
proof (induction m arbitrary: p)
  case (Suc m)
  have "map (\<lambda>i. read_bits bs (p + n * i) n 0) [0..<Suc m] =
      read_bits bs p n 0 # map (\<lambda>i. read_bits bs (p + n + n * i) n 0) [0..<m]"
    by (simp add: upt_conv_Cons map_Suc_upt [symmetric] add.assoc del: upt_Suc)
  then show ?case by (simp add: Suc reader_read_def add.assoc del: upt_Suc)
qed simp

lemma read_bound: "n \<le> 32 \<Longrightarrow> take_bit n (read_bits bs p n 0) = read_bits bs p n 0"
  by (intro bit_word_eqI) (auto simp: read_bits_bit bit_take_bit_iff)

subsection \<open>Narrowing and widening\<close>

lemma field_8: "take_bit n x = x \<Longrightarrow> n \<le> 32 \<Longrightarrow> ucast (take_bit n (ucast x :: u32)) = x"
  for x :: u8
proof (intro bit_word_eqI)
  fix k assume "take_bit n x = x"
  then have "bit x k \<longleftrightarrow> k < n \<and> bit x k" by (metis bit_take_bit_iff)
  then show "bit (ucast (take_bit n (ucast x :: u32)) :: u8) k = bit x k"
    by (auto simp: bit_take_bit_iff bit_ucast_iff dest: bit_imp_le_length)
qed

lemma field_16: "take_bit n x = x \<Longrightarrow> n \<le> 32 \<Longrightarrow> ucast (take_bit n (ucast x :: u32)) = x"
  for x :: u16
proof (intro bit_word_eqI)
  fix k assume "take_bit n x = x"
  then have "bit x k \<longleftrightarrow> k < n \<and> bit x k" by (metis bit_take_bit_iff)
  then show "bit (ucast (take_bit n (ucast x :: u32)) :: u16) k = bit x k"
    by (auto simp: bit_take_bit_iff bit_ucast_iff dest: bit_imp_le_length)
qed

lemma take_bit_min:
  "take_bit 2 (min x 3 :: u8) = min x 3" "take_bit 7 (min x 127 :: u8) = min x 127" "take_bit 3 (min x 7 :: u8) = min x 7"
proof -
  have t: "take_bit n (y :: u8) = y" if "unat y < 2 ^ n" for n y
    using that by (simp add: word_unat_eq_iff unsigned_take_bit_eq take_bit_nat_eq_self)
  have "unat (min x 3) < 2 ^ 2" "unat (min x 127) < 2 ^ 7" "unat (min x 7) < 2 ^ 3"
    by (simp_all add: min_def word_le_nat_alt)
  then show "take_bit 2 (min x 3 :: u8) = min x 3" "take_bit 7 (min x 127 :: u8) = min x 127" "take_bit 3 (min x 7 :: u8) = min x 7"
    by (simp_all only: t)
qed

lemma take_bit_mask:
  "take_bit 6 (x AND 0x3F :: u8) = x AND 0x3F" "take_bit 10 (y AND 0x3FF :: u16) = y AND 0x3FF"
  "take_bit 12 (y AND 0xFFF :: u16) = y AND 0xFFF"
proof -
  have "0x3F = (mask 6 :: u8)" "0x3FF = (mask 10 :: u16)" "0xFFF = (mask 12 :: u16)" by (simp_all add: mask_eq_exp_minus_1)
  then show "take_bit 6 (x AND 0x3F :: u8) = x AND 0x3F" "take_bit 10 (y AND 0x3FF :: u16) = y AND 0x3FF"
    "take_bit 12 (y AND 0xFFF :: u16) = y AND 0xFFF"
    by (simp_all only: take_bit_eq_mask and.assoc and.idem)
qed

subsection \<open>Names\<close>

lemma length_alphabet [simp]: "length kNameAlphabet = 32"
  by (simp add: kNameAlphabet_def)

lemma alphabet_find_Some: "alphabet_find c = Some i \<Longrightarrow> i < 32 \<and> kNameAlphabet ! i = c"
  by (auto simp: alphabet_find_def find_Some_iff)

lemma alphabet_find_member: "alphabet_find c \<noteq> None \<longleftrightarrow> c \<in> set kNameAlphabet"
  by (auto simp: alphabet_find_def find_None_iff in_set_conv_nth)

lemma space_in_alphabet: "CHR '' '' \<in> set kNameAlphabet"
  by (simp add: kNameAlphabet_def)

lemma to_upper_alphabet: "c \<in> set kNameAlphabet \<Longrightarrow> to_upper c = c"
  by (auto simp: kNameAlphabet_def to_upper_def)

definition clean_char :: "char \<Rightarrow> char" where
  "clean_char c = (case alphabet_find (to_upper c) of None \<Rightarrow> CHR '' '' | Some _ \<Rightarrow> to_upper c)"

lemma clean_char_alphabet: "clean_char c \<in> set kNameAlphabet"
  using alphabet_find_member [of "to_upper c"] space_in_alphabet by (auto simp: clean_char_def split: option.splits)

lemma clean_char_id: "c \<in> set kNameAlphabet \<Longrightarrow> clean_char c = c"
  using alphabet_find_member [of c] by (auto simp: clean_char_def to_upper_alphabet split: option.splits)

lemma sanitise_name_take: "sanitise_name s = map clean_char (take 3 s)"
proof -
  have "foldl (\<lambda>clean c. if length clean = 3 then clean else clean @ [clean_char c]) acc s =
      acc @ map clean_char (take (3 - length acc) s)" if "length acc \<le> 3" for acc
    using that
  proof (induction s arbitrary: acc)
    case (Cons c s)
    show ?case
    proof (cases "length acc = 3")
      case False
      then have "3 - length acc = Suc (2 - length acc)" using Cons.prems by linarith
      then show ?thesis using False Cons.IH [of "acc @ [clean_char c]"] Cons.prems by simp
    qed (use Cons in simp)
  qed simp
  from this [of "[]"] show ?thesis unfolding sanitise_name_def clean_char_def [symmetric] by simp
qed

definition padded_name :: "string \<Rightarrow> string" where
  "padded_name s = take 3 (map clean_char s @ replicate 3 (CHR '' ''))"

lemma padded_name_nth: "i < 3 \<Longrightarrow> padded_name s ! i =
    (if i < length (sanitise_name s) then sanitise_name s ! i else CHR '' '')"
  by (auto simp: padded_name_def sanitise_name_take nth_append)

lemma padded_name_alphabet: "set (padded_name s) \<subseteq> set kNameAlphabet"
  using clean_char_alphabet space_in_alphabet by (auto simp: padded_name_def dest!: in_set_takeD)

lemma name_index:
  assumes "c \<in> set kNameAlphabet"
  obtains i where "alphabet_find c = Some i" "i < 32" "kNameAlphabet ! i = c"
  using assms alphabet_find_member [of c] alphabet_find_Some [of c] by auto

lemma pack_unpack:
  fixes a b c :: nat
  assumes "a < 32" "b < 32" "c < 32"
  defines "p \<equiv> push_bit 5 (push_bit 5 (push_bit 5 0 OR of_nat a) OR of_nat b) OR (of_nat c :: u16)"
  shows "unat (drop_bit 10 p AND 0x1F) = a" "unat (drop_bit 5 p AND 0x1F) = b" "unat (p AND 0x1F) = c"
proof -
  have n: "unat (of_nat k :: u16) = k" "take_bit 5 (of_nat k :: u16) = of_nat k" if "k < 32" for k
    using that by (simp_all add: unat_of_nat take_bit_nat_eq_self word_unat_eq_iff unsigned_take_bit_eq)
  have m: "x AND 0x1F = take_bit 5 (x :: u16)" for x by (simp add: take_bit_eq_mask mask_eq_exp_minus_1)
  have bt: "i < 5" if "bit (of_nat k :: u16) i" "k < 32" for k i
    using n(2) [OF that(2)] that(1) by (metis bit_take_bit_iff)
  have bp: "bit p i \<longleftrightarrow> (if i < 5 then bit (of_nat c :: u16) i
      else if i < 10 then bit (of_nat b :: u16) (i - 5) else i < 15 \<and> bit (of_nat a :: u16) (i - 10))" for i
    using bt [OF _ assms(1), of "i - 10"] bt [OF _ assms(2), of "i - 5"] bt [OF _ assms(3), of i]
    unfolding p_def by (auto simp: bit_or_iff bit_push_bit_iff)
  have "take_bit 5 (drop_bit 10 p) = of_nat a"
    by (intro bit_word_eqI) (auto simp: bit_take_bit_iff bit_drop_bit_eq bp dest: bt [OF _ assms(1)])
  moreover have "take_bit 5 (drop_bit 5 p) = of_nat b"
    by (intro bit_word_eqI) (auto simp: bit_take_bit_iff bit_drop_bit_eq bp dest: bt [OF _ assms(2)])
  moreover have "take_bit 5 p = of_nat c"
    by (intro bit_word_eqI) (auto simp: bit_take_bit_iff bp dest: bt [OF _ assms(3)])
  ultimately show "unat (drop_bit 10 p AND 0x1F) = a" "unat (drop_bit 5 p AND 0x1F) = b" "unat (p AND 0x1F) = c"
    unfolding m using n(1) assms by simp_all
qed

lemma decode_encode_name: "decode_name (encode_name s) = pop_spaces (padded_name s)"
proof -
  have l: "length (padded_name s) = 3" by (simp add: padded_name_def)
  have m: "padded_name s ! i \<in> set kNameAlphabet" if "i < 3" for i
    using that l padded_name_alphabet [of s] nth_mem by force
  have ix: "\<exists>j < 32. alphabet_find (padded_name s ! i) = Some j \<and> kNameAlphabet ! j = padded_name s ! i"
    if "i < 3" for i using name_index [OF m [OF that]] by blast
  obtain a b c where abc:
    "alphabet_find (padded_name s ! 0) = Some a" "a < 32" "kNameAlphabet ! a = padded_name s ! 0"
    "alphabet_find (padded_name s ! 1) = Some b" "b < 32" "kNameAlphabet ! b = padded_name s ! 1"
    "alphabet_find (padded_name s ! 2) = Some c" "c < 32" "kNameAlphabet ! c = padded_name s ! 2"
    using ix [of 0] ix [of 1] ix [of 2] by auto
  have e: "encode_name s = push_bit 5 (push_bit 5 (push_bit 5 0 OR of_nat a) OR of_nat b) OR of_nat c"
  proof -
    have "encode_name s = foldl (\<lambda>packed index. push_bit 5 packed OR
        of_nat (case alphabet_find (padded_name s ! index) of None \<Rightarrow> 31 | Some found \<Rightarrow> found)) 0 [0, 1, 2]"
      unfolding encode_name_def Let_def by (intro foldl_cong refl) (auto simp: padded_name_nth)
    then show ?thesis unfolding foldl.simps abc(1,4,7) option.case .
  qed
  have "padded_name s = [padded_name s ! 0, padded_name s ! 1, padded_name s ! 2]"
    using l by (intro nth_equalityI) (auto simp: less_Suc_eq numeral_3_eq_3 numeral_2_eq_2)
  then show ?thesis unfolding decode_name_def e pack_unpack [OF abc(2,5,8)] abc(3,6,9) by simp
qed

subsection \<open>Regions of the image\<close>

definition agree :: "nat \<Rightarrow> nat \<Rightarrow> bytes \<Rightarrow> bytes \<Rightarrow> bool" where
  "agree a n bs cs \<longleftrightarrow> length bs = length cs \<and> (\<forall>k. a \<le> k \<and> k < a + n \<longrightarrow> bs ! k = cs ! k)"

lemma agree_refl [simp]: "agree a n bs bs"
  by (simp add: agree_def)

lemma agree_trans: "agree a n bs cs \<Longrightarrow> agree a n cs ds \<Longrightarrow> agree a n bs ds"
  by (simp add: agree_def)

lemma agree_sym: "agree a n bs cs \<Longrightarrow> agree a n cs bs"
  by (simp add: agree_def)

lemma agree_length: "agree a n bs cs \<Longrightarrow> length bs = length cs"
  by (simp add: agree_def)

lemma agree_bit: "agree a n bs cs \<Longrightarrow> 8 * a \<le> k \<Longrightarrow> k < 8 * (a + n) \<Longrightarrow> get_bit bs k = get_bit cs k"
  by (simp add: agree_def get_bit_def less_mult_imp_div_less mult.commute [of 8] div_le_mono [of "a * 8" k 8, simplified])

lemma agree_write_be16: "a + n \<le> p \<or> p + 2 \<le> a \<Longrightarrow> agree a n (write_be16 bs p v) bs"
  by (auto simp: agree_def write_be16_def)

lemma length_write_be16 [simp]: "length (write_be16 bs p v) = length bs"
  by (simp add: write_be16_def)

lemma read_write_be16: "p + 1 < length bs \<Longrightarrow> read_be16 (write_be16 bs p v) p = v"
  by (intro bit_word_eqI)
    (auto simp: read_be16_def write_be16_def bit_or_iff bit_push_bit_iff bit_ucast_iff bit_drop_bit_eq
      dest: bit_imp_le_length)

lemma read_be16_cong: "agree a n bs cs \<Longrightarrow> a \<le> p \<Longrightarrow> p + 2 \<le> a + n \<Longrightarrow> read_be16 bs p = read_be16 cs p"
  by (simp add: agree_def read_be16_def)

lemma block_checksum_cong:
  "agree a n bs cs \<Longrightarrow> a \<le> p + 2 \<Longrightarrow> p + m \<le> a + n \<Longrightarrow> block_checksum bs p m = block_checksum cs p m"
  unfolding block_checksum_def agree_def by (intro arg_cong [where f = ucast] foldl_cong refl) auto

lemma erased_nth: "off + kSlotSize \<le> length bs \<Longrightarrow> erased bs off \<longleftrightarrow> (\<forall>k < kSlotSize. bs ! (off + k) = 0xFF)"
  by (auto simp: erased_def list_all_length)

lemma erased_cong: "agree off kSlotSize bs cs \<Longrightarrow> off + kSlotSize \<le> length bs \<Longrightarrow> erased bs off = erased cs off"
  by (simp add: erased_nth agree_def)

lemma erased_checksum:
  assumes "off + kSlotSize \<le> length bs" "erased bs off"
  shows "read_be16 bs off = 0xFFFF" "block_checksum bs off kSlotSize = 0x25DF"
proof -
  have b: "bs ! (off + k) = 0xFF" if "k < kSlotSize" for k using assms erased_nth that by blast
  show "read_be16 bs off = 0xFFFF" using b [of 0] b [of 1] by (simp add: read_be16_def kSlotSize_def)
  have "block_checksum bs off kSlotSize =
      ucast (foldl (\<lambda>checksum index. checksum + 0xFF) (5 :: u32) [2..<kSlotSize])"
    unfolding block_checksum_def
    by (intro arg_cong [where f = ucast] foldl_cong refl) (auto simp: b)
  also have "\<dots> = 0x25DF" by (simp add: kSlotSize_def upt_conv_Cons)
  finally show "block_checksum bs off kSlotSize = 0x25DF" .
qed

lemma length_fill_zero [simp]: "off + n \<le> length bs \<Longrightarrow> length (fill_zero bs off n) = length bs"
  by (simp add: fill_zero_def)

lemma agree_fill_zero: "off + n \<le> length bs \<Longrightarrow> a + m \<le> off \<or> off + n \<le> a \<Longrightarrow> agree a m (fill_zero bs off n) bs"
  by (auto simp: agree_def fill_zero_def nth_append)

lemma agree_bits:
  assumes "length bs = length cs" "\<And>k. 8 * a \<le> k \<Longrightarrow> k < 8 * (a + n) \<Longrightarrow> get_bit bs k = get_bit cs k"
  shows "agree a n bs cs"
  unfolding agree_def
proof (intro conjI allI impI bit_word_eqI)
  fix k i assume k: "a \<le> k \<and> k < a + n" and i: "i < LENGTH(8)"
  have "8 * k + (7 - i) < 8 * k + 8" by simp
  also have "\<dots> \<le> 8 * (a + n)" using k by arith
  finally have "get_bit bs (8 * k + (7 - i)) = get_bit cs (8 * k + (7 - i))"
    using k by (intro assms(2)) simp_all
  then show "bit (bs ! k) i = bit (cs ! k) i" using i by (simp add: get_bit_def)
qed (rule assms(1))

subsection \<open>Slots\<close>

definition wf_slot :: "AdventureSlot \<Rightarrow> bool" where
  "wf_slot slot \<longleftrightarrow> length (course_status slot) = kCourseCount \<and> length (balloons slot) = kWorldCount \<and>
     length (world_flags slot) = kWorldCount"

text \<open>What is left of a slot when it is written and read again.\<close>

definition canonical_slot :: "AdventureSlot \<Rightarrow> AdventureSlot" where
  "canonical_slot slot =
     slot\<lparr>course_status := map (\<lambda>status. min status 3) (course_status slot),
       taj_flags := taj_flags slot AND 0x3F, trophies := trophies slot AND 0x3FF,
       bosses := bosses slot AND 0xFFF, balloons := map (\<lambda>b. min b 127) (balloons slot),
       tt_amulet := min (tt_amulet slot) 7, wizpig_amulet := min (wizpig_amulet slot) 7,
       slot_name := pop_spaces (padded_name (slot_name slot))\<rparr>"

definition slot_fields :: "AdventureSlot \<Rightarrow> field list" where
  "slot_fields slot =
     map (\<lambda>status. (ucast (min status 3), 2)) (course_status slot) @
     [(ucast (taj_flags slot AND 0x3F), 6), (ucast (trophies slot AND 0x3FF), 10),
      (ucast (bosses slot AND 0xFFF), 12)] @
     map (\<lambda>b. (ucast (min b 127), 7)) (balloons slot) @
     [(ucast (min (tt_amulet slot) 7), 3), (ucast (min (wizpig_amulet slot) 7), 3)] @
     map (\<lambda>flags. (ucast flags, 16)) (world_flags slot) @
     [(ucast (slot_keys slot), 8), (cutscenes slot, 32),
      (ucast (encode_name (slot_name slot)), 16), (ucast (slot_reserved slot), 8)]"

lemma slot_width: "wf_slot slot \<Longrightarrow> fields_width (slot_fields slot) = 304"
  by (simp add: slot_fields_def wf_slot_def save_sizes)

lemma slot_fields_width: "f \<in> set (slot_fields slot) \<Longrightarrow> snd f \<le> 32"
  by (auto simp: slot_fields_def)

lemma encode_slot_fields:
  "encode_slot slot bs off =
     (let cs = fst (write_fields (slot_fields slot) (fill_zero bs off kSlotSize, off * 8 + 16))
      in write_be16 cs off (block_checksum cs off kSlotSize))"
  by (simp add: encode_slot_def slot_fields_def write_fields_def fold_map comp_def Let_def)

lemma encode_slot_spec:
  assumes "wf_slot slot" "off + kSlotSize \<le> length bs"
  shows "length (encode_slot slot bs off) = length bs"
    and "a + n \<le> off \<or> off + kSlotSize \<le> a \<Longrightarrow> agree a n (encode_slot slot bs off) bs"
    and "read_be16 (encode_slot slot bs off) off = block_checksum (encode_slot slot bs off) off kSlotSize"
    and "at_fields (encode_slot slot bs off) (off * 8 + 16) (map (\<lambda>(v, n). (take_bit n v, n)) (slot_fields slot))"
proof -
  let ?z = "fill_zero bs off kSlotSize"
  define cs where "cs = fst (write_fields (slot_fields slot) (?z, off * 8 + 16))"
  have w: "off * 8 + 16 + fields_width (slot_fields slot) \<le> 8 * length ?z"
    using assms by (simp add: slot_width kSlotSize_def)
  note spec = write_fields_spec [OF w, folded cs_def]
  have l: "length cs = length bs" using spec slot_fields_width assms(2) by simp
  have e: "encode_slot slot bs off = write_be16 cs off (block_checksum cs off kSlotSize)"
    by (simp add: encode_slot_fields cs_def Let_def)
  show "length (encode_slot slot bs off) = length bs" using l by (simp add: e)
  have out: "get_bit cs k = get_bit ?z k" if "k < 8 * off \<or> 8 * (off + kSlotSize) \<le> k" for k
    using spec slot_fields_width that assms(1) by (auto simp: slot_width kSlotSize_def)
  show "agree a n (encode_slot slot bs off) bs" if o: "a + n \<le> off \<or> off + kSlotSize \<le> a"
  proof -
    have "agree a n cs ?z" using o l assms(2) by (intro agree_bits out) auto
    moreover have "agree a n (encode_slot slot bs off) cs"
      unfolding e using o by (intro agree_write_be16) (auto simp: kSlotSize_def)
    ultimately show ?thesis using agree_trans agree_fill_zero [OF assms(2) o] by blast
  qed
  have a: "agree (off + 2) (kSlotSize - 2) (encode_slot slot bs off) cs"
    unfolding e by (rule agree_write_be16) simp
  have "block_checksum (encode_slot slot bs off) off kSlotSize = block_checksum cs off kSlotSize"
    using a by (rule block_checksum_cong) (simp_all add: kSlotSize_def)
  moreover have "read_be16 (encode_slot slot bs off) off = block_checksum cs off kSlotSize"
    unfolding e using l assms(2) by (intro read_write_be16) (simp add: kSlotSize_def)
  ultimately show "read_be16 (encode_slot slot bs off) off = block_checksum (encode_slot slot bs off) off kSlotSize"
    by simp
  have "fields_width (map (\<lambda>(v, n). (take_bit n v, n)) fs) = fields_width fs" for fs
    by (simp add: fields_width_def comp_def case_prod_unfold)
  then have "at_fields (encode_slot slot bs off) (off * 8 + 16) (map (\<lambda>(v, n). (take_bit n v, n)) (slot_fields slot)) =
      at_fields cs (off * 8 + 16) (map (\<lambda>(v, n). (take_bit n v, n)) (slot_fields slot))"
    using agree_bit [OF a] assms(1) by (intro at_fields_cong) (auto simp: slot_width kSlotSize_def)
  then show "at_fields (encode_slot slot bs off) (off * 8 + 16) (map (\<lambda>(v, n). (take_bit n v, n)) (slot_fields slot))"
    using spec slot_fields_width by simp
qed

lemma reader_array_at:
  "at_fields bs p (map (\<lambda>x. (f x, w)) xs) \<Longrightarrow> length xs = m \<Longrightarrow>
   reader_array bs w m p = (map f xs, p + w * m)"
  using reader_array_fields [of bs p w "map f xs"] by (simp add: comp_def)

lemma decode_slot_fields:
  assumes "wf_slot slot" "off + kSlotSize \<le> length bs"
    and "read_be16 bs off = block_checksum bs off kSlotSize"
    and "at_fields bs (off * 8 + 16) (map (\<lambda>(v, n). (take_bit n v, n)) (slot_fields slot))"
  shows "decode_slot bs off = Some (canonical_slot slot)"
proof -
  have ne: "\<not> erased bs off"
    using erased_checksum [OF assms(2)] assms(3) by auto
  have f7: "ucast (take_bit 7 (ucast (min b 127 :: u8) :: u32)) = min b 127" for b :: u8
    by (rule field_8) (simp_all add: take_bit_min)
  have f2: "ucast (take_bit 2 (ucast (min b 3 :: u8) :: u32)) = min b 3" for b :: u8
    by (rule field_8) (simp_all add: take_bit_min)
  have f3: "ucast (take_bit 3 (ucast (min b 7 :: u8) :: u32)) = min b 7" for b :: u8
    by (rule field_8) (simp_all add: take_bit_min)
  have f6: "ucast (take_bit 6 (ucast (b AND 0x3F :: u8) :: u32)) = b AND 0x3F" for b :: u8
    by (rule field_8, rule take_bit_mask, simp)
  have f10: "ucast (take_bit 10 (ucast (b AND 0x3FF :: u16) :: u32)) = b AND 0x3FF" for b :: u16
    by (rule field_16, rule take_bit_mask, simp)
  have f12: "ucast (take_bit 12 (ucast (b AND 0xFFF :: u16) :: u32)) = b AND 0xFFF" for b :: u16
    by (rule field_16, rule take_bit_mask, simp)
  have f8: "ucast (take_bit 8 (ucast (b :: u8) :: u32)) = b" for b :: u8
    by (rule field_8) (simp_all add: take_bit_word_eq_self)
  have f16: "ucast (take_bit 16 (ucast (b :: u16) :: u32)) = b" for b :: u16
    by (rule field_16) (simp_all add: take_bit_word_eq_self)
  have f32: "take_bit 32 (b :: u32) = b" for b by (simp add: take_bit_word_eq_self)
  note narrow = f2 f3 f6 f7 f8 f10 f12 f16 f32
  note at = assms(4) [unfolded slot_fields_def map_append at_fields_append list.map at_fields.simps map_map comp_def prod.case]
  have len: "length (course_status slot) = kCourseCount" "length (balloons slot) = kWorldCount"
    "length (world_flags slot) = kWorldCount" using assms(1) by (simp_all add: wf_slot_def)
  have parts:
    "at_fields bs (off * 8 + 16) (map (\<lambda>x. (take_bit 2 (ucast (min x 3)), 2)) (course_status slot))"
    "at_fields bs (off * 8 + 112) (map (\<lambda>x. (take_bit 7 (ucast (min x 127)), 7)) (balloons slot))"
    "at_fields bs (off * 8 + 160) (map (\<lambda>x. (take_bit 16 (ucast x), 16)) (world_flags slot))"
    using at len by (simp_all add: save_sizes add.commute [of _ "off * 8"])
  note arrays = reader_array_at [OF parts(1) len(1)] reader_array_at [OF parts(2) len(2)]
    reader_array_at [OF parts(3) len(3)]
  show ?thesis
    using at ne assms(3) len arrays
    by (simp add: decode_slot_def reader_read_def narrow decode_encode_name canonical_slot_def
        comp_def save_sizes add.commute [of _ "off * 8"])
qed

lemma decode_slot_cong:
  assumes "agree off kSlotSize bs cs" "off + kSlotSize \<le> length bs"
  shows "decode_slot bs off = decode_slot cs off"
proof -
  have R: "read_bits bs p n 0 = read_bits cs p n 0" if "off * 8 \<le> p" "p + n \<le> off * 8 + 320" for p n
    using that by (intro read_cong agree_bit [OF assms(1)]) (simp_all add: kSlotSize_def)
  have A: "reader_array bs n m p = reader_array cs n m p" if "off * 8 \<le> p" "p + n * m \<le> off * 8 + 320" for p n m
  proof -
    have "p + n * i + n \<le> p + n * m" if "i < m" for i
      using mult_le_mono2 [of "Suc i" m n] that by simp
    then show ?thesis using that unfolding reader_array_map
      by (simp add: order_trans [of "p + n * _ + n" "p + n * m"] R)
  qed
  have "block_checksum bs off kSlotSize = block_checksum cs off kSlotSize" "read_be16 bs off = read_be16 cs off"
    using assms(1) by (auto intro: block_checksum_cong read_be16_cong simp: kSlotSize_def)
  then show ?thesis
    unfolding decode_slot_def erased_cong [OF assms]
    by (simp add: A R reader_array_map reader_read_def save_sizes)
qed

subsection \<open>Values a decoded slot can have\<close>

lemma pop_spaces_padded:
  assumes "length s = 3" "set s \<subseteq> set kNameAlphabet"
  shows "padded_name (pop_spaces s) = s"
proof -
  define r where "r = takeWhile (\<lambda>c. c = CHR '' '') (rev s)"
  have "rev s = r @ rev (pop_spaces s)" by (simp add: r_def pop_spaces_def)
  then have "s = pop_spaces s @ rev r" by (metis rev_append rev_rev_ident)
  moreover have "rev r = replicate (length r) (CHR '' '')"
    using set_takeWhileD [of _ "\<lambda>c. c = CHR '' ''" "rev s"] unfolding r_def [symmetric]
    by (intro replicate_eqI) auto
  ultimately have s: "s = pop_spaces s @ replicate (length r) (CHR '' '')" by simp
  then have l: "length (pop_spaces s) + length r = 3" using assms(1) by (metis length_append length_replicate)
  have "set (pop_spaces s) \<subseteq> set kNameAlphabet" using s assms(2) by (metis set_append sup.boundedE)
  then have "map clean_char (pop_spaces s) = pop_spaces s"
    by (intro map_idI clean_char_id) auto
  moreover have "take (length r) (replicate 3 (CHR '' '')) = replicate (length r) (CHR '' '')"
    using l by (simp add: min_def)
  ultimately show ?thesis using s l by (simp add: padded_name_def) (metis add_diff_cancel_left' take_replicate)
qed

lemma decode_name_canonical: "pop_spaces (padded_name (decode_name p)) = decode_name p"
proof -
  have b: "unat (x AND 0x1F :: u16) < 32" for x
  proof -
    have "x AND 0x1F = take_bit 5 x" by (simp add: take_bit_eq_mask mask_eq_exp_minus_1)
    then show ?thesis using take_bit_nat_less_exp [of 5 "unat x"] by (simp add: unsigned_take_bit_eq)
  qed
  show ?thesis unfolding decode_name_def
    by (subst pop_spaces_padded) (use b length_alphabet nth_mem in auto)
qed

lemma min_ucast:
  "min (ucast (read_bits bs p 2 0)) 3 = (ucast (read_bits bs p 2 0) :: u8)"
  "min (ucast (read_bits bs p 7 0)) 127 = (ucast (read_bits bs p 7 0) :: u8)"
  "min (ucast (read_bits bs p 3 0)) 7 = (ucast (read_bits bs p 3 0) :: u8)"
proof -
  have "unat (ucast (read_bits bs p n 0) :: u8) \<le> 2 ^ n - 1" if "n \<le> 32" for n
  proof -
    have "unat (ucast (read_bits bs p n 0) :: u8) \<le> unat (read_bits bs p n 0)"
      by (simp add: unsigned_ucast_eq)
    also have "\<dots> = unat (take_bit n (read_bits bs p n 0))" by (simp add: read_bound that)
    also have "\<dots> \<le> 2 ^ n - 1"
      unfolding unsigned_take_bit_eq using take_bit_nat_less_exp [of n "unat (read_bits bs p n 0)"] by linarith
    finally show ?thesis .
  qed
  from this [of 2] this [of 7] this [of 3]
  show "min (ucast (read_bits bs p 2 0)) 3 = (ucast (read_bits bs p 2 0) :: u8)"
    "min (ucast (read_bits bs p 7 0)) 127 = (ucast (read_bits bs p 7 0) :: u8)"
    "min (ucast (read_bits bs p 3 0)) 7 = (ucast (read_bits bs p 3 0) :: u8)"
    by (simp_all add: min_def word_le_nat_alt)
qed

lemma and_ucast:
  "ucast (read_bits bs p 6 0) AND 0x3F = (ucast (read_bits bs p 6 0) :: u8)"
  "ucast (read_bits bs p 10 0) AND 0x3FF = (ucast (read_bits bs p 10 0) :: u16)"
  "ucast (read_bits bs p 12 0) AND 0xFFF = (ucast (read_bits bs p 12 0) :: u16)"
proof -
  have m: "0x3F = (mask 6 :: u8)" "0x3FF = (mask 10 :: u16)" "0xFFF = (mask 12 :: u16)"
    by (simp_all add: mask_eq_exp_minus_1)
  show "ucast (read_bits bs p 6 0) AND 0x3F = (ucast (read_bits bs p 6 0) :: u8)"
    "ucast (read_bits bs p 10 0) AND 0x3FF = (ucast (read_bits bs p 10 0) :: u16)"
    "ucast (read_bits bs p 12 0) AND 0xFFF = (ucast (read_bits bs p 12 0) :: u16)"
    unfolding m by (intro bit_word_eqI; auto simp: bit_and_iff bit_mask_iff bit_ucast_iff read_bits_bit)+
qed

lemma empty_slot_canonical: "wf_slot empty_slot \<and> canonical_slot empty_slot = empty_slot"
  by (simp add: wf_slot_def empty_slot_def canonical_slot_def padded_name_def pop_spaces_def)

lemma decode_slot_canonical:
  assumes "decode_slot bs off = Some slot"
  shows "wf_slot slot \<and> canonical_slot slot = slot"
proof (cases "erased bs off")
  case True
  then show ?thesis using assms empty_slot_canonical by (simp add: decode_slot_def)
next
  case False
  have "slot = \<lparr>course_status = map (\<lambda>i. ucast (read_bits bs (off * 8 + 16 + 2 * i) 2 0)) [0..<kCourseCount],
      taj_flags = ucast (read_bits bs (off * 8 + 84) 6 0), trophies = ucast (read_bits bs (off * 8 + 90) 10 0),
      bosses = ucast (read_bits bs (off * 8 + 100) 12 0),
      balloons = map (\<lambda>i. ucast (read_bits bs (off * 8 + 112 + 7 * i) 7 0)) [0..<kWorldCount],
      tt_amulet = ucast (read_bits bs (off * 8 + 154) 3 0), wizpig_amulet = ucast (read_bits bs (off * 8 + 157) 3 0),
      world_flags = map (\<lambda>i. ucast (read_bits bs (off * 8 + 160 + 16 * i) 16 0)) [0..<kWorldCount],
      slot_keys = ucast (read_bits bs (off * 8 + 256) 8 0), cutscenes = read_bits bs (off * 8 + 264) 32 0,
      slot_name = decode_name (ucast (read_bits bs (off * 8 + 296) 16 0)),
      slot_reserved = ucast (read_bits bs (off * 8 + 312) 8 0)\<rparr>"
    using assms False
    by (simp add: decode_slot_def reader_array_map reader_read_def save_sizes add.commute [of _ "off * 8"] comp_def
        split: if_splits del: upt_rec_numeral)
  then show ?thesis
    by (simp add: wf_slot_def canonical_slot_def min_ucast and_ucast decode_name_canonical comp_def)
qed

subsection \<open>The configuration word\<close>

lemma upt_8: "[0..<8] = [0, 1, 2, 3, 4, 5, 6, 7]"
  by (simp add: upt_conv_Cons)

lemma write_be64_bytes:
  "write_be64 bs q v = bs[q + 7 := ucast v, q + 6 := ucast (drop_bit 8 v), q + 5 := ucast (drop_bit 16 v),
     q + 4 := ucast (drop_bit 24 v), q + 3 := ucast (drop_bit 32 v), q + 2 := ucast (drop_bit 40 v),
     q + 1 := ucast (drop_bit 48 v), q := ucast (drop_bit 56 v)]"
  unfolding write_be64_def upt_8 by (simp add: add.commute [of q])

lemma length_write_be64 [simp]: "length (write_be64 bs q v) = length bs"
  by (simp add: write_be64_bytes)

lemma agree_write_be64: "a + n \<le> q \<or> q + 8 \<le> a \<Longrightarrow> agree a n (write_be64 bs q v) bs"
  by (auto simp: agree_def write_be64_bytes)

lemma read_write_be64: "q + 8 \<le> length bs \<Longrightarrow> read_be64 (write_be64 bs q v) q = v"
  using be64_value [of v]
  by (simp add: read_be64_def write_be64_bytes Put64_def shift_in_def [symmetric] upt_8)

lemma read_be64_cong: "agree a n bs cs \<Longrightarrow> a \<le> q \<Longrightarrow> q + 8 \<le> a + n \<Longrightarrow> read_be64 bs q = read_be64 cs q"
  unfolding read_be64_def agree_def by (intro foldl_cong refl) auto

definition valid_payload :: "u64 \<Rightarrow> bool" where
  "valid_payload p \<longleftrightarrow> p AND kConfigPayloadMask = p"

lemma payload_mask: "p AND kConfigPayloadMask = take_bit 56 p"
  by (simp add: kConfigPayloadMask_def take_bit_eq_mask mask_eq_exp_minus_1)

lemma config_word_parts:
  assumes "valid_payload p"
  shows "config_word p AND kConfigPayloadMask = p" "ucast (drop_bit 56 (config_word p)) = config_checksum p"
proof -
  have b: "bit p i \<Longrightarrow> i < 56" for i
    using assms unfolding valid_payload_def payload_mask by (metis bit_take_bit_iff)
  show "config_word p AND kConfigPayloadMask = p"
    unfolding payload_mask config_word_def
    by (intro bit_word_eqI) (auto simp: bit_take_bit_iff bit_or_iff bit_push_bit_iff b)
  show "ucast (drop_bit 56 (config_word p)) = config_checksum p"
    unfolding config_word_def
    by (intro bit_word_eqI) (auto simp: bit_ucast_iff bit_drop_bit_eq bit_or_iff bit_push_bit_iff dest: b)
qed

definition wf_settings :: "GlobalSettings \<Rightarrow> bool" where
  "wf_settings s \<longleftrightarrow> length (tt_trials s) = 20"

definition canonical_settings :: "GlobalSettings \<Rightarrow> GlobalSettings" where
  "canonical_settings s = s\<lparr>language := language s AND 3,
     preserved_config_bits := preserved_config_bits s AND kPreservedConfigBits\<rparr>"

lemma bit_preserved: "bit kPreservedConfigBits i \<longleftrightarrow> i = 24 \<or> 26 \<le> i \<and> i < 56"
proof -
  have m: "kConfigPayloadMask = mask 56" "(0x00FFFFFF :: u64) = mask 24"
    by (simp_all add: kConfigPayloadMask_def mask_eq_exp_minus_1)
  show ?thesis
    unfolding kPreservedConfigBits_def kKnownConfigBits_def m bit_and_iff bit_or_iff bit_not_iff bit_mask_iff
      bit_push_bit_iff bit_1_iff
    by auto
qed

lemma bit_fold_or:
  "bit (foldl (\<lambda>p index. if f index then p OR push_bit (4 + index) 1 else p) (p :: u64) [0..<n]) i \<longleftrightarrow>
   bit p i \<or> (4 \<le> i \<and> i < 4 + n \<and> i < 64 \<and> f (i - 4))"
proof (induction n)
  case (Suc n)
  then show ?case by (cases "i = 4 + n") (auto simp: bit_or_iff bit_exp_iff)
qed auto

lemma bit_encode_settings:
  assumes "wf_settings s"
  shows "bit (encode_settings s) i \<longleftrightarrow>
    (if i = 0 then adventure_two s else if i = 1 then drumstick s
     else if i < 4 then bit (language s) (i - 2) else if i < 24 then tt_trials s ! (i - 4)
     else if i = 25 then subtitles s else bit kPreservedConfigBits i \<and> bit (preserved_config_bits s) i)"
proof -
  have three: "(3 :: u8) = mask 2" by (simp add: mask_eq_exp_minus_1)
  show ?thesis
    using assms unfolding encode_settings_def Let_def bit_fold_or wf_settings_def three
    by (auto simp: bit_2_iff bit_or_iff bit_and_iff bit_push_bit_iff bit_ucast_iff bit_mask_iff bit_1_iff bit_preserved
        dest: bit_imp_le_length)
qed

lemma encode_settings_valid: "wf_settings s \<Longrightarrow> valid_payload (encode_settings s)"
  unfolding valid_payload_def payload_mask
  by (intro bit_word_eqI) (auto simp: bit_take_bit_iff bit_encode_settings bit_preserved)

lemma decode_encode_settings:
  assumes "wf_settings s"
  shows "decode_settings (encode_settings s) = canonical_settings s"
proof -
  have one: "p AND 1 \<noteq> 0 \<longleftrightarrow> bit p 0" "p AND 2 \<noteq> 0 \<longleftrightarrow> bit p 1" for p :: u64
    using and_one_bit [of 0 p] and_exp_eq_0_iff_not_bit [of p 1] by simp_all
  have l: "ucast (drop_bit 2 (encode_settings s) AND 3) = (language s AND 3 :: u8)"
  proof -
    have m: "(3 :: u64) = mask 2" "(3 :: u8) = mask 2" by (simp_all add: mask_eq_exp_minus_1)
    show ?thesis
      unfolding m using assms
      by (intro bit_word_eqI) (auto simp: bit_ucast_iff bit_and_iff bit_mask_iff bit_drop_bit_eq bit_encode_settings)
  qed
  have t: "map (\<lambda>index. bit (encode_settings s) (4 + index)) [0..<20] = tt_trials s"
    using assms by (intro nth_equalityI) (auto simp: bit_encode_settings wf_settings_def)
  have p: "encode_settings s AND kPreservedConfigBits = preserved_config_bits s AND kPreservedConfigBits"
    using assms by (intro bit_word_eqI) (auto simp: bit_and_iff bit_encode_settings bit_preserved)
  show ?thesis
    unfolding decode_settings_def canonical_settings_def and_one_bit l t p unfolding one
    using assms by (simp add: bit_encode_settings)
qed

lemma decode_settings_canonical: "wf_settings (decode_settings p) \<and> canonical_settings (decode_settings p) = decode_settings p"
proof -
  have "ucast (x AND 3) AND 3 = (ucast (x AND 3) :: u8)" for x :: u64
  proof -
    have m: "(3 :: u64) = mask 2" "(3 :: u8) = mask 2" by (simp_all add: mask_eq_exp_minus_1)
    show ?thesis unfolding m by (intro bit_word_eqI) (auto simp: bit_ucast_iff bit_and_iff bit_mask_iff)
  qed
  then show ?thesis by (simp add: wf_settings_def canonical_settings_def decode_settings_def and.assoc)
qed

subsection \<open>Records\<close>

definition canonical_record :: "SaveRecord \<Rightarrow> SaveRecord" where
  "canonical_record r = r\<lparr>record_initials := pop_spaces (padded_name (record_initials r))\<rparr>"

abbreviation put_record :: "bytes \<times> nat \<Rightarrow> SaveRecord \<Rightarrow> bytes \<times> nat" where
  "put_record \<equiv> \<lambda>(bs, cursor) r. (write_be16 (write_be16 bs cursor (record_time r)) (cursor + 2)
     (encode_name (record_initials r)), cursor + 4)"

lemma put_records:
  "c + 4 * length rs \<le> length bs \<Longrightarrow>
   length (fst (foldl put_record (bs, c) rs)) = length bs \<and>
   (\<forall>a n. a + n \<le> c \<or> c + 4 * length rs \<le> a \<longrightarrow> agree a n (fst (foldl put_record (bs, c) rs)) bs) \<and>
   (\<forall>i < length rs. read_be16 (fst (foldl put_record (bs, c) rs)) (c + 4 * i) = record_time (rs ! i) \<and>
      read_be16 (fst (foldl put_record (bs, c) rs)) (c + 4 * i + 2) = encode_name (record_initials (rs ! i)))"
proof (induction rs arbitrary: bs c)
  case (Cons r rs)
  let ?w = "write_be16 bs c (record_time r)"
  let ?b = "write_be16 ?w (c + 2) (encode_name (record_initials r))"
  let ?f = "fst (foldl put_record (?b, c + 4) rs)"
  have l: "c + 4 + 4 * length rs \<le> length ?b" using Cons.prems by simp
  note IH = Cons.IH [OF l]
  have out: "agree a n ?f bs" if o: "a + n \<le> c \<or> c + 4 * length (r # rs) \<le> a" for a n
  proof -
    have "agree a n ?b ?w" "agree a n ?w bs" using o by (auto intro!: agree_write_be16)
    moreover have "agree a n ?f ?b" using o IH by auto
    ultimately show ?thesis using agree_trans by blast
  qed
  have rd: "read_be16 ?f (c + 4 * i) = record_time ((r # rs) ! i) \<and>
      read_be16 ?f (c + 4 * i + 2) = encode_name (record_initials ((r # rs) ! i))" if "i < length (r # rs)" for i
  proof (cases i)
    case 0
    have a: "agree c 4 ?f ?b" using IH by simp
    have "read_be16 ?f c = read_be16 ?b c" "read_be16 ?f (c + 2) = read_be16 ?b (c + 2)"
      using a by (auto intro: read_be16_cong)
    moreover have "read_be16 ?b c = read_be16 ?w c"
      by (rule read_be16_cong [OF agree_write_be16 [of c 2 "c + 2"]]) simp_all
    moreover have "read_be16 ?w c = record_time r" "read_be16 ?b (c + 2) = encode_name (record_initials r)"
      using Cons.prems by (auto intro!: read_write_be16)
    ultimately show ?thesis using 0 by simp
  next
    case (Suc j)
    have j: "j < length rs" and e: "c + 4 * i = c + 4 + 4 * j" using that Suc by simp_all
    show ?thesis unfolding e using conjunct2 [OF conjunct2 [OF IH], rule_format, OF j] Suc by simp
  qed
  show ?case using IH out rd by simp
qed simp

lemma agree_update: "q < a \<or> a + n \<le> q \<Longrightarrow> agree a n (bs[q := v]) bs"
  by (auto simp: agree_def)

definition records_at :: "SaveRecord list \<Rightarrow> bytes \<Rightarrow> bytes \<Rightarrow> nat \<Rightarrow> bool" where
  "records_at rs tail bs off \<longleftrightarrow>
     read_be16 bs off = block_checksum bs off kRecordBlockSize \<and>
     (\<forall>i < kRecordCount. read_be16 bs (off + 2 + 4 * i) = record_time (rs ! i) \<and>
        read_be16 bs (off + 2 + 4 * i + 2) = encode_name (record_initials (rs ! i))) \<and>
     bs ! (off + kRecordBlockSize - 2) = tail ! 0 \<and> bs ! (off + kRecordBlockSize - 1) = tail ! 1"

lemma encode_records_spec:
  assumes "length rs = kRecordCount" "length tail = 2" "off + kRecordBlockSize \<le> length bs"
  shows "length (encode_records rs tail bs off) = length bs"
    and "a + n \<le> off \<or> off + kRecordBlockSize \<le> a \<Longrightarrow> agree a n (encode_records rs tail bs off) bs"
    and "records_at rs tail (encode_records rs tail bs off) off"
proof -
  let ?z = "fill_zero bs off kRecordBlockSize"
  define cs where "cs = fst (foldl put_record (?z, off + 2) rs)"
  define ds where "ds = cs[off + kRecordBlockSize - 2 := tail ! 0, off + kRecordBlockSize - 1 := tail ! 1]"
  let ?e = "encode_records rs tail bs off"
  have e: "?e = write_be16 ds off (block_checksum ds off kRecordBlockSize)"
    by (simp add: encode_records_def Let_def case_prod_unfold cs_def ds_def)
  have room: "off + 2 + 4 * length rs \<le> length ?z" using assms by (simp add: save_sizes)
  note put = put_records [OF room, folded cs_def]
  have l: "length cs = length bs" "length ds = length bs" using put assms(3) by (simp_all add: ds_def)
  show "length ?e = length bs" using l by (simp add: e)
  show "agree a n ?e bs" if o: "a + n \<le> off \<or> off + kRecordBlockSize \<le> a"
  proof -
    have "agree a n ?e ds" unfolding e using o by (intro agree_write_be16) (auto simp: save_sizes)
    moreover have "agree a n ds cs" unfolding ds_def
      using o agree_trans [OF agree_update agree_update] by (auto simp: save_sizes)
    moreover have "agree a n cs ?z" using o assms(1) put by (auto simp: save_sizes)
    moreover have "agree a n ?z bs" using o assms(3) by (intro agree_fill_zero)
    ultimately show ?thesis using agree_trans by blast
  qed
  have ed: "agree (off + 2) (kRecordBlockSize - 2) ?e ds" unfolding e by (rule agree_write_be16) simp
  have dc: "agree (off + 2) (4 * kRecordCount) ds cs"
    unfolding ds_def by (rule agree_trans [OF agree_update agree_update]) (simp_all add: save_sizes)
  have "block_checksum ?e off kRecordBlockSize = block_checksum ds off kRecordBlockSize"
    using ed by (rule block_checksum_cong) (simp_all add: save_sizes)
  moreover have "read_be16 ?e off = block_checksum ds off kRecordBlockSize"
    unfolding e using l assms(3) by (intro read_write_be16) (simp add: save_sizes)
  moreover have rd: "read_be16 ?e (off + 2 + 4 * i + k) = read_be16 cs (off + 2 + 4 * i + k)"
    if "i < kRecordCount" "k = 0 \<or> k = 2" for i k
  proof -
    have "read_be16 ?e (off + 2 + 4 * i + k) = read_be16 ds (off + 2 + 4 * i + k)"
      using that by (intro read_be16_cong [OF ed]) (auto simp: save_sizes)
    also have "\<dots> = read_be16 cs (off + 2 + 4 * i + k)"
      using that by (intro read_be16_cong [OF dc]) (auto simp: save_sizes)
    finally show ?thesis .
  qed
  moreover have "?e ! (off + kRecordBlockSize - 2) = tail ! 0" "?e ! (off + kRecordBlockSize - 1) = tail ! 1"
    using l assms(3) by (simp_all add: e write_be16_def ds_def save_sizes)
  ultimately show "records_at rs tail ?e off"
    using put rd [of _ 0] rd [of _ 2] assms(1) unfolding records_at_def by simp
qed

lemma records_at_cong:
  assumes "agree off kRecordBlockSize bs cs"
  shows "records_at rs tail bs off = records_at rs tail cs off"
proof -
  have "read_be16 bs (off + 2 + 4 * i + k) = read_be16 cs (off + 2 + 4 * i + k)" if "i < kRecordCount" "k = 0 \<or> k = 2" for i k
    using that by (intro read_be16_cong [OF assms]) (auto simp: save_sizes)
  from this [of _ 0] this [of _ 2] show ?thesis
    using block_checksum_cong [OF assms, of off kRecordBlockSize] read_be16_cong [OF assms, of off] assms
    by (auto simp: records_at_def agree_def save_sizes)
qed

lemma decode_records_at:
  assumes "records_at rs tail bs off" "length rs = kRecordCount" "length tail = 2"
  shows "decode_records bs off = Some (map canonical_record rs, tail)"
proof -
  have "tail = [tail ! 0, tail ! 1]" using assms(3) by (intro nth_equalityI) (auto simp: less_2_cases_iff)
  moreover have "map (\<lambda>i. let cursor = off + 2 + 4 * i in \<lparr>record_time = read_be16 bs cursor,
      record_initials = decode_name (read_be16 bs (cursor + 2))\<rparr>) [0..<kRecordCount] = map canonical_record rs"
    using assms
    by (intro nth_equalityI) (auto simp: records_at_def canonical_record_def decode_encode_name Let_def)
  ultimately show ?thesis using assms(1) by (simp add: decode_records_def records_at_def)
qed

subsection \<open>Images\<close>

definition wf_image :: "SaveImage \<Rightarrow> bool" where
  "wf_image img \<longleftrightarrow> length (si_slots img) = kAdventureSlotCount \<and> list_all wf_slot (si_slots img) \<and>
     wf_settings (si_settings img) \<and>
     length (si_fastest_laps img) = kRecordCount \<and> length (si_course_times img) = kRecordCount \<and>
     length (si_fastest_laps_tail img) = 2 \<and> length (si_course_times_tail img) = 2"

definition canonical_image :: "SaveImage \<Rightarrow> SaveImage" where
  "canonical_image img =
     img\<lparr>si_slots := map canonical_slot (si_slots img), si_settings := canonical_settings (si_settings img),
       si_fastest_laps := map canonical_record (si_fastest_laps img),
       si_course_times := map canonical_record (si_course_times img)\<rparr>"

lemma slot_numbers: "[0..<kAdventureSlotCount] = [0, 1, 2]"
  by (simp add: kAdventureSlotCount_def upt_conv_Cons)

lemma encode_slots:
  assumes "length ss = 3" "list_all wf_slot ss" "120 \<le> length bs"
  defines "cs \<equiv> foldl (\<lambda>bs index. encode_slot (ss ! index) bs (index * kSlotSize)) bs [0..<kAdventureSlotCount]"
  shows "length cs = length bs" "120 \<le> a \<Longrightarrow> agree a n cs bs"
    and "i < 3 \<Longrightarrow> decode_slot cs (i * kSlotSize) = Some (canonical_slot (ss ! i))"
proof -
  define c0 where "c0 = encode_slot (ss ! 0) bs 0"
  define c1 where "c1 = encode_slot (ss ! 1) c0 40"
  have cs: "cs = encode_slot (ss ! 2) c1 80"
    by (simp add: cs_def c0_def c1_def slot_numbers kSlotSize_def)
  have wf: "wf_slot (ss ! i)" if "i < 3" for i using assms(1,2) that by (simp add: list_all_length)
  have b: "kSlotSize = 40" by (simp add: kSlotSize_def)
  note s0 = encode_slot_spec [OF wf [of 0], of 0 bs, folded c0_def, unfolded b]
  have l0: "length c0 = length bs" using s0(1) assms(3) by simp
  note s1 = encode_slot_spec [OF wf [of 1], of 40 c0, folded c1_def, unfolded b]
  have l1: "length c1 = length bs" using s1(1) l0 assms(3) by simp
  note s2 = encode_slot_spec [OF wf [of 2], of 80 c1, folded cs, unfolded b]
  show l2: "length cs = length bs" using s2(1) l1 assms(3) by simp
  show "agree a n cs bs" if "120 \<le> a"
  proof -
    have "agree a n cs c1" "agree a n c1 c0" "agree a n c0 bs" using that s0(2) s1(2) s2(2) l0 l1 assms(3) by auto
    then show ?thesis using agree_trans by blast
  qed
  have d2: "decode_slot cs 80 = Some (canonical_slot (ss ! 2))"
    using s2(3,4) l1 l2 assms(3) by (intro decode_slot_fields wf) (auto simp: b)
  have "decode_slot cs 40 = decode_slot c1 40"
    using s2(2) l1 l2 assms(3) by (intro decode_slot_cong) (auto simp: b)
  also have "\<dots> = Some (canonical_slot (ss ! 1))"
    using s1(3,4) l0 l1 assms(3) by (intro decode_slot_fields wf) (auto simp: b)
  finally have d1: "decode_slot cs 40 = Some (canonical_slot (ss ! 1))" .
  have "decode_slot cs 0 = decode_slot c1 0"
    using s2(2) l1 l2 assms(3) by (intro decode_slot_cong) (auto simp: b)
  also have "\<dots> = decode_slot c0 0"
    using s1(2) l0 l1 assms(3) by (intro decode_slot_cong) (auto simp: b)
  also have "\<dots> = Some (canonical_slot (ss ! 0))"
    using s0(3,4) l0 assms(3) by (intro decode_slot_fields wf) (auto simp: b)
  finally have d0: "decode_slot cs 0 = Some (canonical_slot (ss ! 0))" .
  show "decode_slot cs (i * kSlotSize) = Some (canonical_slot (ss ! i))" if "i < 3"
  proof -
    from that have "i = 0 \<or> i = 1 \<or> i = 2" by auto
    then show ?thesis using d0 d1 d2 by (auto simp: b)
  qed
qed

lemma save_decode_encode:
  assumes "wf_image img"
  shows "save_decode (save_encode img) = Inr (canonical_image img)"
proof -
  define z where "z = replicate kImageSize (0 :: u8)"
  define cs where "cs = foldl (\<lambda>bs index. encode_slot (si_slots img ! index) bs (index * kSlotSize)) z [0..<kAdventureSlotCount]"
  define p where "p = encode_settings (si_settings img)"
  define ds where "ds = write_be64 cs kConfigOffset (config_word p)"
  define es where "es = encode_records (si_fastest_laps img) (si_fastest_laps_tail img) ds kFastestLapsOffset"
  define fs where "fs = encode_records (si_course_times img) (si_course_times_tail img) es kCourseTimesOffset"
  have f: "save_encode img = fs"
    by (simp add: save_encode_def fs_def es_def ds_def p_def cs_def z_def Let_def)
  have wf: "length (si_slots img) = 3" "list_all wf_slot (si_slots img)" "wf_settings (si_settings img)"
    "length (si_fastest_laps img) = kRecordCount" "length (si_fastest_laps_tail img) = 2"
    "length (si_course_times img) = kRecordCount" "length (si_course_times_tail img) = 2"
    using assms by (simp_all add: wf_image_def kAdventureSlotCount_def)
  have lz: "length z = 512" by (simp add: z_def kImageSize_def)
  note slots = encode_slots [OF wf(1,2), of z, folded cs_def, unfolded lz, simplified]
  have ld: "length ds = 512" using slots(1) by (simp add: ds_def)
  note laps = encode_records_spec [OF wf(4,5), of kFastestLapsOffset ds, folded es_def, unfolded ld]
  have le: "length es = 512" using laps(1) by (simp add: save_sizes)
  note times = encode_records_spec [OF wf(6,7), of kCourseTimesOffset es, folded fs_def, unfolded le]
  have lf: "length fs = 512" using times(1) by (simp add: save_sizes)
  have fc: "agree a n fs cs" if "a + n \<le> 120" for a n
  proof -
    have "agree a n fs es" "agree a n es ds" "agree a n ds cs"
      using that times(2) laps(2) by (auto simp: save_sizes ds_def intro: agree_write_be64)
    then show ?thesis using agree_trans by blast
  qed
  have "decode_slot fs (i * kSlotSize) = Some (canonical_slot (si_slots img ! i))" if "i < 3" for i
    using slots(3) [OF that] lf that decode_slot_cong [OF fc, of "i * kSlotSize"] by (auto simp: save_sizes)
  from this [of 0] this [of 1] this [of 2]
  have "decode_slots fs [0..<kAdventureSlotCount] =
      Inr [canonical_slot (si_slots img ! 0), canonical_slot (si_slots img ! 1), canonical_slot (si_slots img ! 2)]"
    by (simp add: slot_numbers)
  also have "\<dots> = Inr (map canonical_slot (si_slots img))"
    using wf(1) by (auto intro!: nth_equalityI simp: less_Suc_eq numeral_3_eq_3 numeral_2_eq_2)
  finally have slots_ok: "decode_slots fs [0..<kAdventureSlotCount] = Inr (map canonical_slot (si_slots img))" .
  have "agree kConfigOffset 8 fs es" "agree kConfigOffset 8 es ds"
    using times(2) laps(2) by (auto simp: save_sizes)
  then have "read_be64 fs kConfigOffset = read_be64 ds kConfigOffset"
    by (intro read_be64_cong [OF agree_trans]) auto
  also have "\<dots> = config_word p" unfolding ds_def using slots(1) by (intro read_write_be64) (simp add: save_sizes)
  finally have config: "read_be64 fs kConfigOffset = config_word p" .
  have valid: "valid_payload p" unfolding p_def by (rule encode_settings_valid [OF wf(3)])
  note parts = config_word_parts [OF valid, unfolded kConfigPayloadMask_def]
  have "agree kFastestLapsOffset kRecordBlockSize fs es" using times(2) by (simp add: save_sizes)
  then have r1: "decode_records fs kFastestLapsOffset =
      Some (map canonical_record (si_fastest_laps img), si_fastest_laps_tail img)"
    using laps(3) records_at_cong wf by (intro decode_records_at) (auto simp: save_sizes)
  have r2: "decode_records fs kCourseTimesOffset =
      Some (map canonical_record (si_course_times img), si_course_times_tail img)"
    using times(3) wf by (intro decode_records_at) (auto simp: save_sizes)
  show ?thesis
    unfolding f save_decode_def slots_ok config r1 r2 Let_def parts
    using lf decode_encode_settings [OF wf(3)] by (simp add: canonical_image_def kImageSize_def p_def)
qed

lemma decode_slots_canonical:
  "decode_slots bs is = Inr ss \<Longrightarrow> length ss = length is \<and> list_all wf_slot ss \<and> map canonical_slot ss = ss"
  by (induction bs "is" arbitrary: ss rule: decode_slots.induct)
    (auto split: option.splits sum.splits dest: decode_slot_canonical)

lemma decode_records_canonical:
  "decode_records bs off = Some (rs, tail) \<Longrightarrow>
   length rs = kRecordCount \<and> map canonical_record rs = rs \<and> length tail = 2"
  by (auto simp: decode_records_def canonical_record_def decode_name_canonical Let_def split: if_splits)

lemma save_decode_canonical:
  assumes "save_decode bs = Inr img"
  shows "wf_image img" "canonical_image img = img"
proof -
  obtain ss laps lt times tt where
    "decode_slots bs [0..<kAdventureSlotCount] = Inr ss"
    "decode_records bs kFastestLapsOffset = Some (laps, lt)" "decode_records bs kCourseTimesOffset = Some (times, tt)"
    "img = \<lparr>si_slots = ss, si_settings = decode_settings (read_be64 bs kConfigOffset AND 0x00FFFFFFFFFFFFFF),
       si_fastest_laps = laps, si_course_times = times, si_fastest_laps_tail = lt, si_course_times_tail = tt\<rparr>"
    using assms by (auto simp: save_decode_def Let_def split: if_splits sum.splits option.splits)
  with decode_slots_canonical decode_records_canonical decode_settings_canonical
  show "wf_image img" "canonical_image img = img"
    by (simp_all add: wf_image_def canonical_image_def)
qed

lemma save_decode_encode_decoded:
  "save_decode bs = Inr img \<Longrightarrow> save_decode (save_encode img) = Inr img"
  using save_decode_encode save_decode_canonical by metis

lemma save_validate_iff: "save_validate bs = Inr () \<longleftrightarrow> (\<exists>img. save_decode bs = Inr img)"
  by (cases "save_decode bs") (auto simp: save_validate_def)

lemma canonical_bytes_decode:
  "canonical_bytes bs = map_sum id save_encode (save_decode bs)"
proof (cases "save_decode bs")
  case (Inr img)
  have "save_validate (save_encode img) = Inr ()"
    unfolding save_validate_iff using save_decode_encode_decoded [OF Inr] by blast
  then show ?thesis by (simp add: canonical_bytes_def Inr Let_def)
qed (simp add: canonical_bytes_def)

lemma blank_image_ok: "wf_image blank_image \<and> canonical_image blank_image = blank_image"
  using empty_slot_canonical
  by (simp add: wf_image_def canonical_image_def blank_image_def wf_settings_def canonical_settings_def
      list_all_length kKnownConfigBits_def kPreservedConfigBits_def kConfigPayloadMask_def canonical_record_def
      padded_name_def pop_spaces_def)

end
