(* ===== verification/Save_Repair.thy ===== *)
theory Save_Repair
  imports Save_Image
begin

section \<open>Repair of checksums and ranges of edited fields\<close>

text \<open>
  The lemmas on \<^verbatim>\<open>repair_checksums\<close>, \<^verbatim>\<open>normalise_editable_fields\<close> and
  \<^verbatim>\<open>validate_editable_ranges\<close> of \<^verbatim>\<open>dkr_save_codec.cpp\<close>. An image is valid when each
  of its blocks has its checksum; a repair writes the checksums only.
\<close>

subsection \<open>Repair\<close>

lemma put_read_be64: "Put64 (read_be64 bs q) = map (\<lambda>i. bs ! (q + i)) [0, 1, 2, 3, 4, 5, 6, 7]"
  using be64_bytes [of "bs ! q" "bs ! (q + 1)" "bs ! (q + 2)" "bs ! (q + 3)" "bs ! (q + 4)" "bs ! (q + 5)"
      "bs ! (q + 6)" "bs ! (q + 7)"]
  by (simp add: read_be64_def shift_in_def [symmetric] upt_8)

lemma ucast_low:
  fixes v w :: u64
  assumes "take_bit 56 v = take_bit 56 w" "k \<le> 48"
  shows "(ucast (drop_bit k v) :: u8) = ucast (drop_bit k w)"
proof (intro bit_word_eqI)
  fix n assume n: "n < LENGTH(8)"
  have "bit (take_bit 56 v) (k + n) = bit (take_bit 56 w) (k + n)" using assms(1) by simp
  then show "bit (ucast (drop_bit k v) :: u8) n = bit (ucast (drop_bit k w) :: u8) n"
    using n assms(2) by (simp add: bit_take_bit_iff bit_ucast_iff bit_drop_bit_eq)
qed

lemma rewrite_config:
  assumes "take_bit 56 v = take_bit 56 (read_be64 bs q)" "k \<noteq> q"
  shows "write_be64 bs q v ! k = bs ! k"
proof -
  have "ucast (drop_bit j v) = (ucast (drop_bit j (read_be64 bs q)) :: u8)" if "j \<le> 48" for j
    using ucast_low [OF assms(1) that] .
  from this [of 0] this [of 8] this [of 16] this [of 24] this [of 32] this [of 40] this [of 48]
  have "ucast v = bs ! (q + 7)" "ucast (drop_bit 8 v) = bs ! (q + 6)" "ucast (drop_bit 16 v) = bs ! (q + 5)"
    "ucast (drop_bit 24 v) = bs ! (q + 4)" "ucast (drop_bit 32 v) = bs ! (q + 3)"
    "ucast (drop_bit 40 v) = bs ! (q + 2)" "ucast (drop_bit 48 v) = bs ! (q + 1)"
    using put_read_be64 [of bs q] by (simp_all add: Put64_def)
  then show ?thesis using assms(2) by (simp add: write_be64_bytes)
qed

lemma rewrite_be64: "write_be64 bs q (read_be64 bs q) = bs"
proof -
  have "ucast (read_be64 bs q) = bs ! (q + 7)" "ucast (drop_bit 8 (read_be64 bs q)) = bs ! (q + 6)"
    "ucast (drop_bit 16 (read_be64 bs q)) = bs ! (q + 5)" "ucast (drop_bit 24 (read_be64 bs q)) = bs ! (q + 4)"
    "ucast (drop_bit 32 (read_be64 bs q)) = bs ! (q + 3)" "ucast (drop_bit 40 (read_be64 bs q)) = bs ! (q + 2)"
    "ucast (drop_bit 48 (read_be64 bs q)) = bs ! (q + 1)" "ucast (drop_bit 56 (read_be64 bs q)) = bs ! q"
    using put_read_be64 [of bs q] by (simp_all add: Put64_def)
  then show ?thesis by (simp add: write_be64_bytes)
qed

lemma rewrite_be16: "write_be16 bs q (read_be16 bs q) = bs"
proof -
  have "ucast (drop_bit 8 (read_be16 bs q)) = bs ! q" "ucast (read_be16 bs q) = bs ! (q + 1)"
    by (intro bit_word_eqI; auto simp: read_be16_def bit_ucast_iff bit_drop_bit_eq bit_or_iff bit_push_bit_iff
        dest: bit_imp_le_length)+
  then show ?thesis by (simp add: write_be16_def)
qed

lemma decode_slot_ok: "decode_slot bs off \<noteq> None \<longleftrightarrow> erased bs off \<or> read_be16 bs off = block_checksum bs off kSlotSize"
  by (simp add: decode_slot_def case_prod_unfold Let_def)

lemma decode_slots_ok: "(\<exists>ss. decode_slots bs is = Inr ss) \<longleftrightarrow> (\<forall>i \<in> set is. decode_slot bs (i * kSlotSize) \<noteq> None)"
  by (induction bs "is" rule: decode_slots.induct) (auto split: option.splits sum.splits)

lemma save_validate_blocks:
  "save_validate bs = Inr () \<longleftrightarrow> length bs = kImageSize \<and>
     (\<forall>i < kAdventureSlotCount. erased bs (i * kSlotSize) \<or>
        read_be16 bs (i * kSlotSize) = block_checksum bs (i * kSlotSize) kSlotSize) \<and>
     read_be64 bs kConfigOffset = config_word (read_be64 bs kConfigOffset AND kConfigPayloadMask) \<and>
     read_be16 bs kFastestLapsOffset = block_checksum bs kFastestLapsOffset kRecordBlockSize \<and>
     read_be16 bs kCourseTimesOffset = block_checksum bs kCourseTimesOffset kRecordBlockSize"
proof -
  have c: "ucast (drop_bit 56 w) = config_checksum (w AND kConfigPayloadMask) \<longleftrightarrow>
      w = config_word (w AND kConfigPayloadMask)" for w
  proof
    assume h: "ucast (drop_bit 56 w) = config_checksum (w AND kConfigPayloadMask)"
    show "w = config_word (w AND kConfigPayloadMask)"
      unfolding config_word_def h [symmetric] unfolding payload_mask
      by (intro bit_word_eqI) (auto simp: bit_or_iff bit_push_bit_iff bit_take_bit_iff bit_ucast_iff bit_drop_bit_eq)
  next
    assume h: "w = config_word (w AND kConfigPayloadMask)"
    have "valid_payload (w AND kConfigPayloadMask)" by (simp add: valid_payload_def and.assoc)
    then show "ucast (drop_bit 56 w) = config_checksum (w AND kConfigPayloadMask)"
      using config_word_parts(2) h by metis
  qed
  have s: "(\<exists>ss. decode_slots bs [0..<kAdventureSlotCount] = Inr ss) \<longleftrightarrow>
      (\<forall>i < kAdventureSlotCount. erased bs (i * kSlotSize) \<or>
        read_be16 bs (i * kSlotSize) = block_checksum bs (i * kSlotSize) kSlotSize)"
    unfolding decode_slots_ok decode_slot_ok by auto
  have r: "(\<exists>x. decode_records bs off = Some x) \<longleftrightarrow> read_be16 bs off = block_checksum bs off kRecordBlockSize" for off
    by (simp add: decode_records_def)
  show ?thesis
    unfolding save_validate_iff save_decode_def s [symmetric] c [symmetric] r [symmetric] Let_def
      kConfigPayloadMask_def [symmetric]
    by (auto split: sum.splits option.splits prod.splits)
qed

definition slot_ok :: "bytes \<Rightarrow> nat \<Rightarrow> bool" where
  "slot_ok bs off \<longleftrightarrow> erased bs off \<or> read_be16 bs off = block_checksum bs off kSlotSize"

lemma slot_ok_cong:
  "agree off kSlotSize bs cs \<Longrightarrow> off + kSlotSize \<le> length bs \<Longrightarrow> slot_ok bs off = slot_ok cs off"
  unfolding slot_ok_def
  using erased_cong read_be16_cong [of off kSlotSize bs cs off] block_checksum_cong [of off kSlotSize bs cs off kSlotSize]
  by (simp add: save_sizes)

lemma rechecked:
  assumes "2 \<le> n" "off + n \<le> length bs"
  defines "cs \<equiv> write_be16 bs off (block_checksum bs off n)"
  shows "read_be16 cs off = block_checksum cs off n"
proof -
  have "agree (off + 2) (n - 2) cs bs" unfolding cs_def by (rule agree_write_be16) simp
  then have "block_checksum cs off n = block_checksum bs off n"
    by (rule block_checksum_cong) (use assms in simp_all)
  then show ?thesis using assms read_write_be16 [of off bs] by simp
qed

lemma rechecked_same: "read_be16 bs off = block_checksum bs off n \<Longrightarrow> write_be16 bs off (block_checksum bs off n) = bs"
  by (metis rewrite_be16)

definition repair_slot :: "bytes \<Rightarrow> nat \<Rightarrow> bytes \<Rightarrow> bytes" where
  "repair_slot bs off r = (if erased bs off then r else write_be16 r off (block_checksum r off kSlotSize))"

lemma repair_slot_spec:
  assumes "off + kSlotSize \<le> length bs" "agree off kSlotSize r bs"
  shows "length (repair_slot bs off r) = length bs" "slot_ok (repair_slot bs off r) off"
    and "a + n \<le> off \<or> off + 2 \<le> a \<Longrightarrow> agree a n (repair_slot bs off r) r"
    and "slot_ok bs off \<Longrightarrow> r = bs \<Longrightarrow> repair_slot bs off r = bs"
proof -
  have l: "length r = length bs" using assms(2) by (simp add: agree_length)
  then show "length (repair_slot bs off r) = length bs" by (simp add: repair_slot_def)
  show "slot_ok (repair_slot bs off r) off"
    using erased_cong [OF assms(2)] rechecked [of kSlotSize off r] assms(1) l
    by (auto simp: repair_slot_def slot_ok_def save_sizes)
  show "agree a n (repair_slot bs off r) r" if "a + n \<le> off \<or> off + 2 \<le> a"
    using that by (auto simp: repair_slot_def intro: agree_write_be16)
  show "repair_slot bs off r = bs" if "slot_ok bs off" "r = bs"
    using that by (auto simp: repair_slot_def slot_ok_def rechecked_same)
qed

definition repair_slots :: "bytes \<Rightarrow> bytes" where
  "repair_slots bs = repair_slot bs 80 (repair_slot bs 40 (repair_slot bs 0 bs))"

lemma repair_slots_spec:
  assumes "120 \<le> length bs"
  shows "length (repair_slots bs) = length bs" "i < 3 \<Longrightarrow> slot_ok (repair_slots bs) (i * kSlotSize)"
    and "a + n \<le> 0 \<or> 2 \<le> a \<Longrightarrow> a + n \<le> 40 \<or> 42 \<le> a \<Longrightarrow> a + n \<le> 80 \<or> 82 \<le> a \<Longrightarrow> agree a n (repair_slots bs) bs"
    and "(\<forall>i < 3. slot_ok bs (i * kSlotSize)) \<Longrightarrow> repair_slots bs = bs"
proof -
  have b: "kSlotSize = 40" by (simp add: kSlotSize_def)
  define r0 where "r0 = repair_slot bs 0 bs"
  define r1 where "r1 = repair_slot bs 40 r0"
  have s: "repair_slots bs = repair_slot bs 80 r1" by (simp add: repair_slots_def r0_def r1_def)
  note s0 = repair_slot_spec [of 0 bs bs, folded r0_def, unfolded b]
  have l0: "length r0 = length bs" using s0(1) assms by simp
  have a0: "agree a n r0 bs" if "2 \<le> a \<or> n = 0 \<and> a = 0" for a n using s0(3) assms that by auto
  note s1 = repair_slot_spec [of 40 bs r0, folded r1_def, unfolded b]
  have l1: "length r1 = length bs" using s1(1) a0 assms by simp
  have a1: "agree a n r1 r0" if "a + n \<le> 40 \<or> 42 \<le> a" for a n using s1(3) assms that a0 by auto
  note s2 = repair_slot_spec [of 80 bs r1, folded s, unfolded b]
  have r1bs: "agree 80 40 r1 bs" using agree_trans [OF a1 a0] by simp
  show l2: "length (repair_slots bs) = length bs" using s2(1) r1bs assms by simp
  have a2: "agree a n (repair_slots bs) r1" if "a + n \<le> 80 \<or> 82 \<le> a" for a n using s2(3) assms that r1bs by auto
  show "agree a n (repair_slots bs) bs"
    if "a + n \<le> 0 \<or> 2 \<le> a" "a + n \<le> 40 \<or> 42 \<le> a" "a + n \<le> 80 \<or> 82 \<le> a"
    using agree_trans [OF agree_trans [OF a2 a1] a0] that by auto
  have "slot_ok r0 0" "slot_ok r1 40" "slot_ok (repair_slots bs) 80"
    using s0(2) s1(2) s2(2) a0 r1bs assms by simp_all
  then have "slot_ok (repair_slots bs) 0" "slot_ok (repair_slots bs) 40" "slot_ok (repair_slots bs) 80"
    using slot_ok_cong [of 0 r1 r0] slot_ok_cong [of 0 "repair_slots bs" r1] slot_ok_cong [of 40 "repair_slots bs" r1]
      a1 a2 l0 l1 l2 assms by (simp_all add: b)
  then show "slot_ok (repair_slots bs) (i * kSlotSize)" if "i < 3"
  proof -
    from that have "i = 0 \<or> i = 1 \<or> i = 2" by auto
    then show ?thesis using \<open>slot_ok (repair_slots bs) 0\<close> \<open>slot_ok (repair_slots bs) 40\<close> \<open>slot_ok (repair_slots bs) 80\<close>
      by (auto simp: b)
  qed
  show "repair_slots bs = bs" if h: "\<forall>i < 3. slot_ok bs (i * kSlotSize)"
  proof -
    have "slot_ok bs 0" "slot_ok bs 40" "slot_ok bs 80"
      using h [rule_format, of 0] h [rule_format, of 1] h [rule_format, of 2] by (simp_all add: b)
    then have "r0 = bs" "r1 = bs" using s0(4) s1(4) assms by simp_all
    then show ?thesis using s2(4) \<open>slot_ok bs 80\<close> assms by simp
  qed
qed

definition repaired_image :: "bytes \<Rightarrow> bytes" where
  "repaired_image bs =
     (let r = repair_slots bs;
          r = write_be64 r kConfigOffset (config_word (read_be64 r kConfigOffset AND kConfigPayloadMask));
          r = write_be16 r kFastestLapsOffset (block_checksum r kFastestLapsOffset kRecordBlockSize)
      in write_be16 r kCourseTimesOffset (block_checksum r kCourseTimesOffset kRecordBlockSize))"

lemma repair_checksums_image:
  "repair_checksums bs =
     (if length bs \<noteq> kImageSize then Inl ''Adventure EEPROM must be exactly 512 bytes.''
      else case save_validate (repaired_image bs) of
             Inl e \<Rightarrow> Inl (''The checksum-repaired EEPROM did not validate: '' @ e)
           | Inr _ \<Rightarrow> Inr (repaired_image bs))"
proof -
  have f: "foldl (\<lambda>r index. repair_slot bs (index * kSlotSize) r) bs [0..<kAdventureSlotCount] = repair_slots bs"
    by (simp add: slot_numbers repair_slots_def kSlotSize_def)
  show ?thesis
    unfolding repair_checksums_def repaired_image_def Let_def repair_slot_def [symmetric] f ..
qed

definition checksum_bytes :: "nat list" where
  "checksum_bytes = [0, 1, 40, 41, 80, 81, 120, 128, 129, 320, 321]"

lemma repaired_image_spec:
  assumes "length bs = kImageSize"
  shows "save_validate (repaired_image bs) = Inr ()"
    and "k \<notin> set checksum_bytes \<Longrightarrow> repaired_image bs ! k = bs ! k"
    and "save_validate bs = Inr () \<Longrightarrow> repaired_image bs = bs"
proof -
  let ?m = "\<lambda>r. config_word (read_be64 r kConfigOffset AND kConfigPayloadMask)"
  let ?c = "\<lambda>r off. block_checksum r off kRecordBlockSize"
  define r0 where "r0 = repair_slots bs"
  define r1 where "r1 = write_be64 r0 kConfigOffset (?m r0)"
  define r2 where "r2 = write_be16 r1 kFastestLapsOffset (?c r1 kFastestLapsOffset)"
  define r3 where "r3 = write_be16 r2 kCourseTimesOffset (?c r2 kCourseTimesOffset)"
  have r: "repaired_image bs = r3" by (simp add: repaired_image_def r0_def r1_def r2_def r3_def Let_def)
  have len: "length bs = 512" using assms by (simp add: kImageSize_def)
  note slots = repair_slots_spec [of bs, folded r0_def, unfolded len, simplified]
  have l: "length r1 = 512" "length r2 = 512" "length r3 = 512"
    using slots(1) len by (simp_all add: r1_def r2_def r3_def)
  have p: "valid_payload (w AND kConfigPayloadMask)" for w by (simp add: valid_payload_def and.assoc)
  have low: "take_bit 56 (?m r0) = take_bit 56 (read_be64 r0 kConfigOffset)"
    using config_word_parts(1) [OF p, of "read_be64 r0 kConfigOffset"] by (simp only: payload_mask)
  have a: "agree a n r1 r0" if "a + n \<le> 120 \<or> 128 \<le> a" for a n
    unfolding r1_def using that by (intro agree_write_be64) (auto simp: save_sizes)
  have b: "agree a n r2 r1" if "a + n \<le> 128 \<or> 130 \<le> a" for a n
    unfolding r2_def using that by (intro agree_write_be16) (auto simp: save_sizes)
  have c: "agree a n r3 r2" if "a + n \<le> 320 \<or> 322 \<le> a" for a n
    unfolding r3_def using that by (intro agree_write_be16) (auto simp: save_sizes)
  have "agree (i * kSlotSize) kSlotSize r3 r0" if "i < 3" for i
    using agree_trans [OF agree_trans [OF c b] a, of "i * kSlotSize" kSlotSize] that by (auto simp: save_sizes)
  then have 1: "slot_ok r3 (i * kSlotSize)" if "i < 3" for i
    using slots(2) [OF that] slot_ok_cong [of "i * kSlotSize" r3 r0] that l by (simp add: save_sizes)
  have "read_be64 r3 kConfigOffset = read_be64 r1 kConfigOffset"
    by (rule read_be64_cong [OF agree_trans [OF c b], of 120 8]) (simp_all add: save_sizes)
  also have "\<dots> = ?m r0" unfolding r1_def using slots(1) len by (intro read_write_be64) (simp add: save_sizes)
  finally have 2: "read_be64 r3 kConfigOffset = ?m r3" using config_word_parts(1) [OF p] by simp
  have "?c r3 kFastestLapsOffset = ?c r2 kFastestLapsOffset" "read_be16 r3 kFastestLapsOffset = read_be16 r2 kFastestLapsOffset"
    using c [of kFastestLapsOffset kRecordBlockSize]
    by (auto intro!: block_checksum_cong read_be16_cong simp: save_sizes)
  moreover have "read_be16 r2 kFastestLapsOffset = ?c r2 kFastestLapsOffset"
    unfolding r2_def using l(1) by (intro rechecked) (simp_all add: save_sizes)
  moreover have "read_be16 r3 kCourseTimesOffset = ?c r3 kCourseTimesOffset"
    unfolding r3_def using l(2) by (intro rechecked) (simp_all add: save_sizes)
  ultimately show "save_validate (repaired_image bs) = Inr ()"
    unfolding r save_validate_blocks using 1 2 l
    by (simp add: slot_ok_def kAdventureSlotCount_def kImageSize_def)
  show "repaired_image bs ! k = bs ! k" if k: "k \<notin> set checksum_bytes"
  proof -
    have "k \<noteq> 0 \<and> k \<noteq> 1 \<and> k \<noteq> 40 \<and> k \<noteq> 41 \<and> k \<noteq> 80 \<and> k \<noteq> 81 \<and> k \<noteq> 128 \<and> k \<noteq> 129 \<and> k \<noteq> 320 \<and> k \<noteq> 321"
      using k by (simp add: checksum_bytes_def)
    then have d: "k + 1 \<le> 320 \<or> 322 \<le> k" "k + 1 \<le> 128 \<or> 130 \<le> k" "k + 1 \<le> 0 \<or> 2 \<le> k"
      "k + 1 \<le> 40 \<or> 42 \<le> k" "k + 1 \<le> 80 \<or> 82 \<le> k" by arith+
    have "r3 ! k = r2 ! k" "r2 ! k = r1 ! k" "r0 ! k = bs ! k"
      using c [OF d(1)] b [OF d(2)] slots(3) [of k 1] d(3-5) by (auto simp: agree_def)
    moreover have "r1 ! k = r0 ! k"
      unfolding r1_def using k by (intro rewrite_config low) (auto simp: checksum_bytes_def save_sizes)
    ultimately show ?thesis by (simp add: r)
  qed
  show "repaired_image bs = bs" if v: "save_validate bs = Inr ()"
  proof -
    note ok = v [unfolded save_validate_blocks]
    have "r0 = bs" using slots(4) ok by (simp add: slot_ok_def kAdventureSlotCount_def)
    then have "r1 = bs" unfolding r1_def using ok rewrite_be64 [of bs kConfigOffset] by simp
    then show ?thesis using ok by (simp add: r r2_def r3_def rechecked_same)
  qed
qed

subsection \<open>Editable ranges\<close>

lemma world_numbers: "[1..<kWorldCount] = [1, 2, 3, 4, 5]"
  by (simp add: kWorldCount_def upt_conv_Cons)

lemma six: "length xs = kWorldCount \<Longrightarrow> \<exists>a b c d e f. xs = [a, b, c, d, e, f]"
  by (auto simp: kWorldCount_def length_Suc_conv eval_nat_numeral)

lemma unat_ucast_8_32: "unat (ucast (y :: u8) :: u32) = unat y"
  unfolding unsigned_ucast_eq
  by (rule take_bit_nat_eq_self) (rule less_trans [OF unat_u8_less_256], simp)

lemma world_total_unat:
  "unat (world_total [a, b, c, d, e, f]) = unat b + unat c + unat d + unat e + unat f"
proof -
  have s: "unat (x + ucast (y :: u8) :: u32) = unat x + unat y" if "unat x \<le> 100000" for x y
  proof -
    have "unat x + unat y < 100000 + 256" by (rule add_le_less_mono [OF that unat_u8_less_256])
    then show ?thesis by (subst unat_add_lem [THEN iffD1]) (simp_all add: unat_ucast_8_32)
  qed
  show ?thesis
    supply unat_u8_less_256 [simp del]
    unfolding world_total_def world_numbers
    using unat_u8_less_256 [of b] unat_u8_less_256 [of c] unat_u8_less_256 [of d] unat_u8_less_256 [of e] unat_u8_less_256 [of f]
    by (simp add: s unat_ucast_8_32)
qed

lemma unat_min: "unat (min x y :: 'a::len word) = min (unat x) (unat y)"
  by (simp add: min_def word_le_nat_alt)

text \<open>The counts in natural numbers: what each loop computes, and the range that validation wants.\<close>

lemma normalise_balloons_eq:
  fixes a b c d e f :: u8
  defines "t \<equiv> unat (min b 8) + unat (min c 8) + unat (min d 8) + unat (min e 8) + unat (min f 8)"
  shows "normalise_balloons [a, b, c, d, e, f] =
     of_nat (t + min (min (unat a) 47 - t) 7) # [min b 8, min c 8, min d 8, min e 8, min f 8]"
proof -
  define T where "T = world_total [a, min b 8, min c 8, min d 8, min e 8, min f 8]"
  define S where "S = min (ucast a) (47 :: u32)"
  define H where "H = (if S > T then min (S - T) 7 else 0 :: u32)"
  have n: "normalise_balloons [a, b, c, d, e, f] = ucast (T + H) # [min b 8, min c 8, min d 8, min e 8, min f 8]"
    unfolding normalise_balloons_def world_numbers T_def H_def S_def
    by (simp add: kMaximumWorldBalloons_def kMaximumTotalBalloons_def kMaximumHubBalloons_def Let_def)
  have T: "unat T = t" unfolding T_def t_def by (rule world_total_unat)
  have S: "unat S = min (unat a) 47" by (simp add: S_def unat_min unat_ucast_8_32)
  have H: "unat H = min (unat S - unat T) 7"
    by (auto simp: H_def unat_min unat_sub word_less_nat_alt word_le_nat_alt)
  have "t \<le> 40" by (simp add: t_def unat_min)
  then have "unat (T + H) = unat T + unat H" using T H by (subst unat_add_lem [THEN iffD1]) auto
  then have "(ucast (T + H) :: u8) = of_nat (t + min (min (unat a) 47 - t) 7)"
    using T S H by (metis of_nat_unat)
  then show ?thesis unfolding n by simp
qed

definition balloons_ok :: "u8 list \<Rightarrow> bool" where
  "balloons_ok bs \<longleftrightarrow> (\<forall>w \<in> set (tl bs). unat w \<le> 8) \<and> unat (hd bs) \<le> 47 \<and>
     sum_list (map unat (tl bs)) \<le> unat (hd bs) \<and> unat (hd bs) \<le> sum_list (map unat (tl bs)) + 7"

lemma normalise_balloons_ok:
  assumes "length bs = kWorldCount"
  shows "balloons_ok (normalise_balloons bs)" "length (normalise_balloons bs) = kWorldCount"
    and "balloons_ok bs \<Longrightarrow> normalise_balloons bs = bs"
proof -
  obtain a b c d e f where bs: "bs = [a, b, c, d, e, f]" using six [OF assms] by blast
  let ?t = "unat (min b 8) + unat (min c 8) + unat (min d 8) + unat (min e 8) + unat (min f 8)"
  let ?n = "?t + min (min (unat a) 47 - ?t) 7"
  have t: "?t \<le> 40" by (simp add: unat_min)
  have "unat (of_nat (k + min (m - k) 7) :: u8) = k + min (m - k) 7" if "k \<le> 40" for k m :: nat
    unfolding unat_of_nat using that by auto
  from this [OF t] have n: "unat (of_nat ?n :: u8) = ?n" .
  show "balloons_ok (normalise_balloons bs)"
    unfolding bs normalise_balloons_eq balloons_ok_def list.sel n
  proof (intro conjI)
    have "k + min (min m 47 - k) 7 \<le> 47" if "k \<le> 40" for k m :: nat using that by auto
    from this [OF t] show "?n \<le> 47" .
  qed (simp_all add: unat_min add.assoc)
  show "length (normalise_balloons bs) = kWorldCount"
    unfolding bs normalise_balloons_eq by (simp add: kWorldCount_def)
  show "normalise_balloons bs = bs" if ok: "balloons_ok bs"
  proof -
    have m: "min x 8 = x" if "unat x \<le> 8" for x :: u8 using that by (simp add: min_def word_le_nat_alt)
    have mm: "min b 8 = b" "min c 8 = c" "min d 8 = d" "min e 8 = e" "min f 8 = f"
      using ok by (simp_all add: balloons_ok_def bs m)
    have g: "k + min (min x 47 - k) 7 = x" if "x \<le> 47" "k \<le> x" "x \<le> k + 7" for k x :: nat
      using that by auto
    have "unat b + unat c + unat d + unat e + unat f +
        min (min (unat a) 47 - (unat b + unat c + unat d + unat e + unat f)) 7 = unat a"
      using ok by (intro g) (simp_all add: balloons_ok_def bs)
    then show ?thesis unfolding bs normalise_balloons_eq mm by (simp only: of_nat_unat ucast_id)
  qed
qed

lemma validate_slot_iff:
  assumes "length (balloons slot) = kWorldCount"
  shows "validate_slot i slot = Inr () \<longleftrightarrow>
    (\<forall>status \<in> set (course_status slot). status \<le> 3) \<and> taj_flags slot \<le> 0x3F \<and> trophies slot \<le> 0x3FF \<and>
    bosses slot \<le> 0xFFF \<and> tt_amulet slot \<le> 4 \<and> wizpig_amulet slot \<le> 4 \<and> balloons_ok (balloons slot)"
proof -
  obtain a b c d e f where bs: "balloons slot = [a, b, c, d, e, f]" using six [OF assms] by blast
  let ?t = "world_total [a, b, c, d, e, f]"
  have cs: "list_ex (\<lambda>status. status > 3) (course_status slot) \<longleftrightarrow> \<not> (\<forall>status \<in> set (course_status slot). status \<le> 3)"
    by (simp add: list_ex_iff not_le)
  define L where "L \<longleftrightarrow> list_ex (\<lambda>world. balloons slot ! world > kMaximumWorldBalloons) [1..<kWorldCount]"
  have w: "(\<forall>w \<in> set [b, c, d, e, f]. unat w \<le> 8) \<longleftrightarrow> \<not> L"
    unfolding L_def world_numbers bs by (simp add: kMaximumWorldBalloons_def word_less_nat_alt not_less)
  have t: "unat ?t = sum_list (map unat [b, c, d, e, f])" using world_total_unat [of a b c d e f] by simp
  have "balloons_ok (balloons slot) \<longleftrightarrow>
      \<not> L \<and> \<not> (a > kMaximumTotalBalloons \<or> ?t > ucast a \<or> ucast a - ?t > ucast kMaximumHubBalloons)"
    unfolding balloons_ok_def bs list.sel w t [symmetric]
    by (auto simp: kMaximumTotalBalloons_def kMaximumHubBalloons_def word_less_nat_alt word_le_nat_alt
        unat_ucast_8_32 unat_sub not_less)
  then show ?thesis
    unfolding validate_slot_def Let_def L_def [symmetric] cs unfolding bs
    by (auto simp: kMaximumAmuletPieces_def not_less)
qed

lemma and_mask_le: "x AND 0x3F \<le> (0x3F :: u8)" "y AND 0x3FF \<le> (0x3FF :: u16)" "y AND 0xFFF \<le> (0xFFF :: u16)"
  by (simp_all add: word_and_le1)

lemma validate_normalised_slot: "wf_slot slot \<Longrightarrow> validate_slot i (normalise_slot slot) = Inr ()"
  using normalise_balloons_ok [of "balloons slot"] and_mask_le
  by (subst validate_slot_iff)
    (auto simp: wf_slot_def normalise_slot_def kMaximumAmuletPieces_def)

lemma and_mask_id:
  "x \<le> 0x3F \<Longrightarrow> x AND 0x3F = (x :: u8)" "y \<le> 0x3FF \<Longrightarrow> y AND 0x3FF = (y :: u16)" "y \<le> 0xFFF \<Longrightarrow> y AND 0xFFF = (y :: u16)"
proof -
  have m: "(0x3F :: u8) = mask 6" "(0x3FF :: u16) = mask 10" "(0xFFF :: u16) = mask 12"
    by (simp_all add: mask_eq_exp_minus_1)
  have t: "v AND mask n = v" if "unat v < 2 ^ n" for v :: "'a::len word" and n
    using that by (simp add: take_bit_eq_mask [symmetric] word_unat_eq_iff unsigned_take_bit_eq take_bit_nat_eq_self)
  show "x \<le> 0x3F \<Longrightarrow> x AND 0x3F = (x :: u8)" using t [of x 6] by (simp add: m(1) [symmetric] word_le_nat_alt)
  show "y \<le> 0x3FF \<Longrightarrow> y AND 0x3FF = (y :: u16)" using t [of y 10] by (simp add: m(2) [symmetric] word_le_nat_alt)
  show "y \<le> 0xFFF \<Longrightarrow> y AND 0xFFF = (y :: u16)" using t [of y 12] by (simp add: m(3) [symmetric] word_le_nat_alt)
qed

lemma normalise_valid_slot:
  assumes "wf_slot slot" "validate_slot i slot = Inr ()"
  shows "normalise_slot slot = slot\<lparr>slot_name := sanitise_name (slot_name slot)\<rparr>"
proof -
  have l: "length (balloons slot) = kWorldCount" using assms(1) by (simp add: wf_slot_def)
  note ok = assms(2) [unfolded validate_slot_iff [OF l]]
  have "map (\<lambda>status. min status 3) (course_status slot) = course_status slot" using ok by (intro map_idI) (simp add: min_def)
  then show ?thesis
    using ok normalise_balloons_ok(3) [OF l]
    by (simp add: normalise_slot_def and_mask_id min_def kMaximumAmuletPieces_def)
qed

lemma validate_slots_iff:
  "validate_slots i ss = Inr () \<longleftrightarrow> (\<forall>k < length ss. validate_slot (i + k) (ss ! k) = Inr ())"
proof (induction i ss rule: validate_slots.induct)
  case (2 i slot slots)
  have "(\<forall>k < length (slot # slots). validate_slot (i + k) ((slot # slots) ! k) = Inr ()) \<longleftrightarrow>
      validate_slot i slot = Inr () \<and> (\<forall>k < length slots. validate_slot (Suc i + k) (slots ! k) = Inr ())"
    by (auto simp: less_Suc_eq_0_disj)
  then show ?case using 2 by (cases "validate_slot i slot") auto
qed simp

lemma validate_editable_ranges_iff:
  "validate_editable_ranges img = Inr () \<longleftrightarrow>
     (\<forall>k < length (si_slots img). validate_slot k (si_slots img ! k) = Inr ()) \<and> language (si_settings img) \<le> 3"
  using validate_slots_iff [of 0 "si_slots img"]
  by (auto simp: validate_editable_ranges_def not_less split: sum.splits)

lemma normalised_valid: "wf_image img \<Longrightarrow> validate_editable_ranges (normalise_editable_fields img) = Inr ()"
  unfolding validate_editable_ranges_iff
  by (auto simp: normalise_editable_fields_def wf_image_def list_all_length validate_normalised_slot)

lemma valid_normalised:
  assumes "wf_image img" "validate_editable_ranges img = Inr ()"
  shows "normalise_editable_fields img =
    img\<lparr>si_slots := map (\<lambda>slot. slot\<lparr>slot_name := sanitise_name (slot_name slot)\<rparr>) (si_slots img)\<rparr>"
proof -
  note ok = assms(2) [unfolded validate_editable_ranges_iff]
  have "map normalise_slot (si_slots img) = map (\<lambda>slot. slot\<lparr>slot_name := sanitise_name (slot_name slot)\<rparr>) (si_slots img)"
    using ok assms(1) by (intro nth_equalityI) (auto simp: wf_image_def list_all_length intro: normalise_valid_slot)
  then show ?thesis using ok by (simp add: normalise_editable_fields_def min_def)
qed

end
