(* ===== verification/Frame_Ledger.thy ===== *)
theory Frame_Ledger
  imports Protocol_Input Protocol_State Input_Timeline Launch Pacing "HOL-Library.AList"
begin

section \<open>The ledger of authoritative frames\<close>

text \<open>
  Models the frame commits of \<^verbatim>\<open>direct_session.cpp\<close>: Player 1 publishes, frame after frame,
  the inputs of all racers in a chain of hashes; every guest validates and stores what
  arrives, and consumes the frames in order.

  \<^item> \<open>Authority\<close> has the members of \<^verbatim>\<open>DirectSession\<close> that these operations only read;
    \<open>Ledger\<close> those they change. The timeline is an argument and a result.
  \<^item> An \<^verbatim>\<open>unordered_map\<close> is an association list with one entry per key.
  \<^item> The messages an operation sends are a list of \<open>Outgoing\<close>, in order. A call of
    \<^verbatim>\<open>fail_locked\<close> is an \<open>Inl\<close> with the message.
  \<^item> Statistics, the flight recorder, time stamps that only feed them, and the
    notification of waiting threads are left out.
\<close>

subsection \<open>Data\<close>

datatype AuthorityLifecycle = LifecycleInactive | LifecycleRacing | LifecycleSealingFinish | LifecyclePostRace

record GameplayHandoffState =
  gh_current_input_epoch :: u32
  gh_resume_input_epoch :: u32
  gh_boundary_frame :: u32
  gh_local_suspend_frame :: u32
  gh_map :: u32
  gh_local_load_started :: bool
  gh_suspended :: bool
  gh_armed :: bool
  gh_deadline :: int

record Authority =
  au_is_host :: bool
  au_state :: ConnectionState
  au_match_id :: u64
  au_launch_descriptor :: "LaunchDescriptor option"
  au_local_slot :: u8
  au_input_delay :: u8
  au_input_epoch :: u32
  au_authoritative_phase_active :: bool
  au_authority_lifecycle :: AuthorityLifecycle
  au_scene_epoch :: u32
  au_finish_seal_frame :: "u32 option"
  au_gameplay_handoff :: "GameplayHandoffState option"
  au_recovery_frame :: "u32 option"
  au_recovery_resumed :: bool

record FrameCorrectionAssembly =
  as_epoch :: u32
  as_generation :: u32
  as_first_frame :: u32
  as_last_frame :: u32
  as_commits :: "(u32 \<times> FrameCommitPayload) list"

record FrameCorrectionTransmission =
  tr_epoch :: u32
  tr_generation :: u32
  tr_first_frame :: u32
  tr_last_frame :: u32
  tr_commits :: "FrameCommitPayload list"
  tr_acknowledgements :: "bool list"

record Ledger =
  lg_frame_commits :: "(u32 \<times> FrameCommitPayload) list"
  lg_commit_history :: "FrameCommitPayload list"
  lg_next_commit_frame :: u32
  lg_last_consumed_commit_hash :: u64
  lg_last_consumed_input_frame :: "u32 option"
  lg_last_consumed_inputs :: FrameInputs
  lg_authoritative_input_frame :: u32
  lg_authoritative_inputs :: FrameInputs
  lg_authoritative_inputs_valid :: bool
  lg_authoritative_input_revision :: u16
  lg_authoritative_predicted_mask :: u8
  lg_pending_input_correction :: "u32 option"
  lg_frame_correction_generation :: u32
  lg_applied_generation :: u32
  lg_transmission :: "FrameCorrectionTransmission option"
  lg_assembly :: "FrameCorrectionAssembly option"
  lg_deferred :: "(u32 \<times> u32 \<times> FrameCommitPayload) list"

datatype Outgoing =
    Broadcast MessageType bytes u32
  | ToPeer u8 MessageType bytes u32
  | ToHost MessageType bytes u32

definition kCommitHistoryCapacity :: nat where "kCommitHistoryCapacity = 2048"

subsection \<open>Epochs and validation\<close>

definition authority_epoch_for_input_epoch :: "u32 \<Rightarrow> Authority \<Rightarrow> u32" where
  "authority_epoch_for_input_epoch input_epoch a =
     (let epoch = ucast (au_match_id a) XOR ucast (drop_bit 32 (au_match_id a));
          epoch = (case au_launch_descriptor a of None \<Rightarrow> epoch
                   | Some d \<Rightarrow> epoch XOR ucast (ld_lobby_generation d));
          epoch = epoch XOR (input_epoch * 0x9E3779B9)
      in if epoch \<noteq> 0 then epoch else 1)"

definition authority_epoch :: "Authority \<Rightarrow> u32" where
  "authority_epoch a = authority_epoch_for_input_epoch (au_input_epoch a) a"

definition initial_commit_hash :: "Authority \<Rightarrow> u64" where
  "initial_commit_hash a =
     (let seed = (case au_launch_descriptor a of Some d \<Rightarrow> launch_descriptor_hash d
                  | None \<Rightarrow> au_match_id a) XOR 0x444B522D4652414D
      in if seed \<noteq> 0 then seed else 1)"

definition expected_mask :: "Authority \<Rightarrow> u8" where
  "expected_mask a = (case au_launch_descriptor a of Some d \<Rightarrow> ld_occupied_mask d | None \<Rightarrow> 0)"

definition frame_text :: "u32 \<Rightarrow> string" where
  "frame_text frame = to_string (ucast frame)"

definition validate_commit :: "FrameCommitPayload \<Rightarrow> Authority \<Rightarrow> unit result" where
  "validate_commit commit a =
     (if fc_epoch commit \<noteq> authority_epoch a \<or> fc_occupied_mask commit \<noteq> expected_mask a \<or>
         fc_predicted_mask commit AND NOT (expected_mask a) \<noteq> 0 \<or>
         fc_commit_hash commit \<noteq> frame_commit_hash (au_match_id a) commit
      then Inl (''Player 1's authoritative frame commit failed validation at frame '' @
                frame_text (fc_frame commit) @ ''.'')
      else if list_ex (\<lambda>slot. expected_mask a AND slot_bit slot = 0 \<and> fc_inputs commit ! slot \<noteq> no_input)
                [0..<length (fc_inputs commit)]
      then Inl ''Player 1's frame commit contains input for an unoccupied port.''
      else Inr ())"

subsection \<open>Player 1 publishes\<close>

definition clear_unoccupied :: "u8 \<Rightarrow> FrameInputs \<Rightarrow> FrameInputs" where
  "clear_unoccupied occupied inputs =
     map (\<lambda>slot. if occupied AND slot_bit slot = 0 then no_input else inputs ! slot) [0..<length inputs]"

text \<open>The body that \<^verbatim>\<open>make_frame_commit_locked\<close> and the loop of \<^verbatim>\<open>rebuild_frame_commits_locked\<close> share.\<close>

definition build_commit ::
  "Authority \<Rightarrow> u32 \<Rightarrow> u16 \<Rightarrow> u64 \<Rightarrow> InputTimeline \<Rightarrow> FrameCommitPayload \<times> InputTimeline" where
  "build_commit a frame rev_no previous_hash timeline =
     (let occupied = expected_mask a;
          (inputs, timeline) = inputs_for frame timeline;
          commit = \<lparr>fc_epoch = authority_epoch a, fc_frame = frame, fc_revision = rev_no,
            fc_occupied_mask = occupied, fc_predicted_mask = predicted_mask frame occupied timeline,
            fc_inputs = clear_unoccupied occupied inputs, fc_previous_hash = previous_hash,
            fc_commit_hash = 0\<rparr>
      in (commit\<lparr>fc_commit_hash := frame_commit_hash (au_match_id a) commit\<rparr>, timeline))"

definition make_frame_commit ::
  "Authority \<Rightarrow> u32 \<Rightarrow> u16 \<Rightarrow> Ledger \<Rightarrow> InputTimeline \<Rightarrow> FrameCommitPayload \<times> InputTimeline" where
  "make_frame_commit a frame rev_no l timeline =
     build_commit a frame rev_no (lg_last_consumed_commit_hash l) timeline"

definition push_history :: "FrameCommitPayload \<Rightarrow> FrameCommitPayload list \<Rightarrow> FrameCommitPayload list" where
  "push_history commit history =
     drop (length history + 1 - kCommitHistoryCapacity) (history @ [commit])"

definition send_commit_history :: "u32 \<Rightarrow> nat \<Rightarrow> Authority \<Rightarrow> Ledger \<Rightarrow> Outgoing list" where
  "send_commit_history newest_frame history_count a l =
     (if \<not> au_is_host a \<or> history_count = 0 then []
      else
        let distance = of_nat (min history_count 64 - 1);
            oldest = (if newest_frame > distance then newest_frame - distance else 0);
            batch = \<lparr>fb_generation = lg_frame_correction_generation l, fb_correction_first = 0,
              fb_correction_last = 0, fb_correction = False,
              fb_commits = filter (\<lambda>c. oldest \<le> fc_frame c \<and> fc_frame c \<le> newest_frame)
                (lg_commit_history l)\<rparr>;
            payload = encode_frame_commit_batch batch
        in if payload \<noteq> [] then [Broadcast MsgFrameCommit payload newest_frame] else [])"

text \<open>The loop over the retained history that collects a contiguous run.\<close>

fun collect_repair :: "u32 \<Rightarrow> nat \<Rightarrow> u32 \<Rightarrow> nat \<Rightarrow> FrameCommitPayload list \<Rightarrow> FrameCommitPayload list" where
  "collect_repair first_frame maximum expected n [] = []"
| "collect_repair first_frame maximum expected n (c # cs) =
     (if fc_frame c < first_frame then collect_repair first_frame maximum expected n cs
      else if fc_frame c \<noteq> expected \<or> n \<ge> maximum then []
      else if expected = 0xFFFFFFFF then [c]
      else c # collect_repair first_frame maximum (expected + 1) (n + 1) cs)"

fun chunks :: "nat \<Rightarrow> 'a list \<Rightarrow> 'a list list" where
  "chunks n xs = (if xs = [] \<or> n = 0 then [] else take n xs # chunks n (drop n xs))"

declare chunks.simps [simp del]

definition send_commit_history_to_peer ::
  "u8 \<Rightarrow> u32 \<Rightarrow> nat \<Rightarrow> Authority \<Rightarrow> Ledger \<Rightarrow> Outgoing list" where
  "send_commit_history_to_peer peer first_frame maximum_count a l =
     (if \<not> au_is_host a \<or> maximum_count = 0 then []
      else concat (map (\<lambda>commits.
        let payload = encode_frame_commit_batch
              \<lparr>fb_generation = lg_frame_correction_generation l, fb_correction_first = 0,
               fb_correction_last = 0, fb_correction = False, fb_commits = commits\<rparr>
        in if payload \<noteq> [] then [ToPeer peer MsgFrameCommit payload (fc_frame (last commits))] else [])
        (chunks 16 (collect_repair first_frame (min maximum_count 64) first_frame 0 (lg_commit_history l)))))"

text \<open>What \<^verbatim>\<open>synchronize_inputs_result\<close> does on the host once a frame is admitted.\<close>

definition publish_commit ::
  "bool \<Rightarrow> u32 \<Rightarrow> Authority \<Rightarrow> Ledger \<Rightarrow> InputTimeline \<Rightarrow> Outgoing list \<times> Ledger \<times> InputTimeline" where
  "publish_commit quick_join frame a l timeline =
     (let (commit, timeline) = make_frame_commit a frame 0 l timeline;
          l = l\<lparr>lg_frame_commits := AList.update frame commit (lg_frame_commits l),
                lg_commit_history := push_history commit (lg_commit_history l)\<rparr>
      in (send_commit_history frame (steady_commit_history_count quick_join) a l, l, timeline))"

subsection \<open>A frame is consumed\<close>

definition consume_commit :: "u32 \<Rightarrow> Authority \<Rightarrow> Ledger \<Rightarrow> FrameInputs result \<times> Ledger" where
  "consume_commit frame a l =
     (case map_of (lg_frame_commits l) frame of
        None \<Rightarrow> (Inl ''Player 1 did not publish the authoritative frame commit.'', l)
      | Some found \<Rightarrow>
          (case validate_commit found a of
             Inl e \<Rightarrow> (Inl e, l)
           | Inr _ \<Rightarrow>
               if fc_previous_hash found \<noteq> lg_last_consumed_commit_hash l
               then (Inl (''Player 1's authoritative frame chain is discontinuous at frame '' @
                          frame_text frame @ ''.''), l)
               else (Inr (fc_inputs found),
                 l\<lparr>lg_last_consumed_commit_hash := fc_commit_hash found,
                   lg_last_consumed_input_frame := Some frame,
                   lg_last_consumed_inputs := fc_inputs found,
                   lg_authoritative_input_frame := max (lg_authoritative_input_frame l) frame,
                   lg_authoritative_inputs := fc_inputs found,
                   lg_authoritative_inputs_valid := True,
                   lg_authoritative_input_revision := fc_revision found,
                   lg_authoritative_predicted_mask := fc_predicted_mask found,
                   lg_next_commit_frame := lg_next_commit_frame l + 1,
                   lg_frame_commits := (if frame > 128
                     then AList.delete (frame - 128) (lg_frame_commits l) else lg_frame_commits l)\<rparr>)))"

definition authoritative_inputs_for :: "u32 \<Rightarrow> Ledger \<Rightarrow> (FrameInputs \<times> u16) option" where
  "authoritative_inputs_for frame l =
     map_option (\<lambda>c. (fc_inputs c, fc_revision c)) (map_of (lg_frame_commits l) frame)"

text \<open>The counting loop; \<open>n\<close> frames may still be counted.\<close>

fun contiguous_from :: "nat \<Rightarrow> u32 \<Rightarrow> u32 \<Rightarrow> Ledger \<Rightarrow> u32" where
  "contiguous_from 0 first_frame count l = count"
| "contiguous_from (Suc n) first_frame count l =
     (if first_frame \<le> 0xFFFFFFFF - count \<and> map_of (lg_frame_commits l) (first_frame + count) \<noteq> None
      then contiguous_from n first_frame (count + 1) l else count)"

definition contiguous_authoritative_commits :: "u32 \<Rightarrow> u32 \<Rightarrow> Ledger \<Rightarrow> u32" where
  "contiguous_authoritative_commits first_frame maximum_count l =
     contiguous_from (unat maximum_count) first_frame 0 l"

subsection \<open>A guest stores what arrives\<close>

definition note_correction :: "u32 \<Rightarrow> Ledger \<Rightarrow> Ledger" where
  "note_correction frame l =
     l\<lparr>lg_pending_input_correction := Some (case lg_pending_input_correction l of
         Some pending \<Rightarrow> min pending frame | None \<Rightarrow> frame)\<rparr>"

definition store_commit :: "FrameCommitPayload \<Rightarrow> Ledger \<Rightarrow> Ledger" where
  "store_commit commit l =
     l\<lparr>lg_frame_commits := AList.update (fc_frame commit) commit (lg_frame_commits l),
       lg_authoritative_input_frame := max (lg_authoritative_input_frame l) (fc_frame commit),
       lg_authoritative_input_revision := fc_revision commit,
       lg_authoritative_predicted_mask := fc_predicted_mask commit\<rparr>"

definition apply_frame_commit :: "FrameCommitPayload \<Rightarrow> Authority \<Rightarrow> Ledger \<Rightarrow> unit result \<times> Ledger" where
  "apply_frame_commit commit a l =
     (case validate_commit commit a of Inl e \<Rightarrow> (Inl e, l)
      | Inr _ \<Rightarrow>
          (case map_of (lg_frame_commits l) (fc_frame commit) of
             Some existing \<Rightarrow>
               if existing = commit \<or> fc_revision commit < fc_revision existing then (Inr (), l)
               else if fc_revision commit = fc_revision existing
               then (Inl (''Player 1 published conflicting data for simulation frame '' @
                          frame_text (fc_frame commit) @ ''.''), l)
               else (Inr (), store_commit commit
                      (if fc_frame commit < lg_next_commit_frame l
                       then note_correction (fc_frame commit) l else l))
           | None \<Rightarrow> (Inr (), store_commit commit l)))"

text \<open>The validation loop of a correction; \<open>n\<close> frames follow this one. The result is \<^verbatim>\<open>ordered\<close>.\<close>

definition check_incoming ::
  "u32 \<Rightarrow> u64 \<Rightarrow> FrameCorrectionAssembly \<Rightarrow> Authority \<Rightarrow> Ledger \<Rightarrow> FrameCommitPayload result" where
  "check_incoming frame previous_hash asm a l =
     (let broken = ''Player 1's atomic rollback correction chain is invalid at frame '' @ frame_text frame @ ''.'' in
      case map_of (as_commits asm) frame of None \<Rightarrow> Inl broken
      | Some incoming \<Rightarrow>
          if fc_previous_hash incoming \<noteq> previous_hash then Inl broken
          else (case validate_commit incoming a of Inl e \<Rightarrow> Inl e
           | Inr _ \<Rightarrow>
               (case map_of (lg_frame_commits l) frame of
                  Some existing \<Rightarrow>
                    if fc_revision incoming \<le> fc_revision existing
                    then Inl (''Player 1's rollback correction did not advance the revision at frame '' @
                              frame_text frame @ ''.'')
                    else Inr incoming
                | None \<Rightarrow>
                    if frame < lg_next_commit_frame l
                    then Inl ''The rollback correction fell outside local consumed commit history.''
                    else Inr incoming)))"

fun check_correction ::
  "nat \<Rightarrow> u32 \<Rightarrow> u64 \<Rightarrow> FrameCorrectionAssembly \<Rightarrow> Authority \<Rightarrow> Ledger \<Rightarrow> FrameCommitPayload list result" where
  "check_correction 0 frame previous_hash asm a l =
     map_sum id (\<lambda>incoming. [incoming]) (check_incoming frame previous_hash asm a l)"
| "check_correction (Suc n) frame previous_hash asm a l =
     (case check_incoming frame previous_hash asm a l of Inl e \<Rightarrow> Inl e
      | Inr incoming \<Rightarrow> map_sum id ((#) incoming)
          (check_correction n (frame + 1) (fc_commit_hash incoming) asm a l))"

definition refresh_history :: "Ledger \<Rightarrow> Ledger" where
  "refresh_history l =
     l\<lparr>lg_commit_history := map (\<lambda>c. case map_of (lg_frame_commits l) (fc_frame c) of
         Some revised \<Rightarrow> revised | None \<Rightarrow> c) (lg_commit_history l)\<rparr>"

text \<open>The consumed hash follows the commit of the last consumed frame.\<close>

definition follow_consumed :: "Ledger \<Rightarrow> Ledger" where
  "follow_consumed l =
     (if lg_next_commit_frame l > 0
      then case map_of (lg_frame_commits l) (lg_next_commit_frame l - 1) of
             Some consumed \<Rightarrow> l\<lparr>lg_last_consumed_commit_hash := fc_commit_hash consumed\<rparr>
           | None \<Rightarrow> l
      else l)"

definition install_correction :: "FrameCorrectionAssembly \<Rightarrow> FrameCommitPayload list \<Rightarrow> Ledger \<Rightarrow> Ledger" where
  "install_correction asm ordered l =
     (let l = l\<lparr>lg_frame_commits := fold (\<lambda>c. AList.update (fc_frame c) c) ordered (lg_frame_commits l)\<rparr>;
          l = refresh_history l;
          l = (if as_first_frame asm < lg_next_commit_frame l
               then note_correction (as_first_frame asm) l else l);
          l = follow_consumed l
      in l\<lparr>lg_applied_generation := as_generation asm, lg_assembly := None\<rparr>)"

text \<open>The commits that waited for this generation, in the order of their frames.\<close>

fun apply_deferred :: "u32 list \<Rightarrow> Authority \<Rightarrow> Ledger \<Rightarrow> unit result \<times> Ledger" where
  "apply_deferred [] a l = (Inr (), l)"
| "apply_deferred (frame # frames) a l =
     (case map_of (lg_deferred l) frame of None \<Rightarrow> apply_deferred frames a l
      | Some (generation, commit) \<Rightarrow>
          (case apply_frame_commit commit a l of
             (Inl e, l) \<Rightarrow> (Inl e, l)
           | (Inr _, l) \<Rightarrow> apply_deferred frames a
               (l\<lparr>lg_deferred := AList.delete frame (lg_deferred l)\<rparr>)))"

definition correction_acknowledgement :: "u32 \<Rightarrow> u32 \<Rightarrow> Authority \<Rightarrow> Outgoing" where
  "correction_acknowledgement generation frame a =
     ToHost MsgFrameCorrectionAck (encode_frame_correction_acknowledge
       \<lparr>ca_epoch = authority_epoch a, ca_generation = generation, ca_player_slot = au_local_slot a\<rparr>) frame"

definition correction_size :: "FrameCorrectionAssembly \<Rightarrow> u64" where
  "correction_size asm = ucast (as_last_frame asm) - ucast (as_first_frame asm) + 1"

text \<open>\<^verbatim>\<open>commits.at\<close> of a missing first frame throws; the text of that branch names the exception.\<close>

definition apply_frame_correction :: "Authority \<Rightarrow> Ledger \<Rightarrow> unit result \<times> Outgoing list \<times> Ledger" where
  "apply_frame_correction a l =
     (case lg_assembly l of
        None \<Rightarrow> (Inl ''The rollback correction transaction is missing.'', [], l)
      | Some asm \<Rightarrow>
          let count = correction_size asm in
          if count = 0 \<or> count > 128 \<or> of_nat (length (as_commits asm)) \<noteq> count
          then (Inl ''The rollback correction transaction is incomplete.'', [], l)
          else case map_of (as_commits asm) (as_first_frame asm) of
            None \<Rightarrow> (Inl ''std::out_of_range'', [], l)
          | Some first \<Rightarrow>
              let previous_hash = (if as_first_frame asm > 0
                    then case map_of (lg_frame_commits l) (as_first_frame asm - 1) of
                           Some predecessor \<Rightarrow> fc_commit_hash predecessor
                         | None \<Rightarrow> fc_previous_hash first
                    else fc_previous_hash first) in
              case check_correction (unat count - 1) (as_first_frame asm) previous_hash asm a l of
                Inl e \<Rightarrow> (Inl e, [], l)
              | Inr ordered \<Rightarrow>
                  let l = install_correction asm ordered l;
                      frames = sort (map fst (filter (\<lambda>(frame, generation, _). generation \<le> as_generation asm)
                        (lg_deferred l)))
                  in case apply_deferred frames a l of
                       (Inl e, l) \<Rightarrow> (Inl e, [], l)
                     | (Inr _, l) \<Rightarrow> (Inr (), replicate 2
                         (correction_acknowledgement (as_generation asm) (lg_next_commit_frame l) a), l))"

subsection \<open>The handler of a guest\<close>

text \<open>One commit of a correction joins the assembly.\<close>

definition assemble_commit ::
  "FrameCommitBatch \<Rightarrow> FrameCommitPayload \<Rightarrow> Ledger \<Rightarrow> unit result \<times> Ledger" where
  "assemble_commit batch commit l =
     (if fc_frame commit < fb_correction_first batch \<or> fc_frame commit > fb_correction_last batch \<or>
         fb_correction_last batch - fb_correction_first batch \<ge> 128
      then (Inl ''Player 1 sent an invalid rollback correction range.'', l)
      else
        let fresh = \<lparr>as_epoch = fc_epoch commit, as_generation = fb_generation batch,
              as_first_frame = fb_correction_first batch, as_last_frame = fb_correction_last batch,
              as_commits = []\<rparr>;
            asm = (case lg_assembly l of None \<Rightarrow> fresh
              | Some asm \<Rightarrow> if fb_generation batch > as_generation asm then fresh else asm)
        in if fb_generation batch < as_generation asm then (Inr (), l)
           else if as_epoch asm \<noteq> fc_epoch commit \<or> as_first_frame asm \<noteq> fb_correction_first batch \<or>
                   as_last_frame asm \<noteq> fb_correction_last batch
           then (Inl ''Player 1 sent conflicting rollback correction metadata.'',
                 l\<lparr>lg_assembly := Some asm\<rparr>)
           else (Inr (), l\<lparr>lg_assembly := Some (asm\<lparr>as_commits :=
                   AList.update (fc_frame commit) commit (as_commits asm)\<rparr>)\<rparr>))"

definition receive_commit ::
  "FrameCommitBatch \<Rightarrow> FrameCommitPayload \<Rightarrow> Authority \<Rightarrow> Ledger \<Rightarrow> unit result \<times> Ledger" where
  "receive_commit batch commit a l =
     (if fc_epoch commit \<noteq> authority_epoch a
      then (Inr (), l)
      else case validate_commit commit a of Inl e \<Rightarrow> (Inl e, l)
      | Inr _ \<Rightarrow>
          if fb_correction batch then assemble_commit batch commit l
          else if fb_generation batch > lg_applied_generation l
          then (Inr (), l\<lparr>lg_deferred :=
                 AList.update (fc_frame commit) (fb_generation batch, commit) (lg_deferred l)\<rparr>)
          else apply_frame_commit commit a l)"

fun receive_commits ::
  "FrameCommitBatch \<Rightarrow> FrameCommitPayload list \<Rightarrow> Authority \<Rightarrow> Ledger \<Rightarrow> unit result \<times> Ledger" where
  "receive_commits batch [] a l = (Inr (), l)"
| "receive_commits batch (commit # commits) a l =
     (case receive_commit batch commit a l of
        (Inl e, l) \<Rightarrow> (Inl e, l)
      | (Inr _, l) \<Rightarrow> receive_commits batch commits a l)"

text \<open>The branch of \<^verbatim>\<open>handle_client_packet\<close> for a \<^verbatim>\<open>FrameCommit\<close> with its payload and frame.\<close>

definition handle_frame_commit ::
  "bytes \<Rightarrow> u32 \<Rightarrow> Authority \<Rightarrow> Ledger \<Rightarrow> unit result \<times> Outgoing list \<times> Ledger" where
  "handle_frame_commit payload header_frame a l =
     (case decode_frame_commit_batch payload of Inl _ \<Rightarrow> (Inr (), [], l)
      | Inr batch \<Rightarrow>
          if fb_correction batch \<and> fb_generation batch \<le> lg_applied_generation l
          then (Inr (), [correction_acknowledgement (fb_generation batch) header_frame a], l)
          else if \<not> fb_correction batch \<and> fb_generation batch < lg_applied_generation l
          then (Inr (), [], l)
          else case receive_commits batch (fb_commits batch) a l of
            (Inl e, l) \<Rightarrow> (Inl e, [], l)
          | (Inr _, l) \<Rightarrow>
              (case (if fb_correction batch
                     then case lg_assembly l of
                            Some asm \<Rightarrow> if of_nat (length (as_commits asm)) = correction_size asm
                                        then apply_frame_correction a l else (Inr (), [], l)
                          | None \<Rightarrow> (Inr (), [], l)
                     else (Inr (), [], l)) of
                 (Inl e, sent, l) \<Rightarrow> (Inl e, sent, l)
               | (Inr _, sent, l) \<Rightarrow> (Inr (), sent, follow_consumed l)))"

subsection \<open>Player 1 corrects\<close>

text \<open>The loop that rebuilds the commits from a frame on; \<open>n\<close> frames are left.\<close>

fun rebuild_commits ::
  "nat \<Rightarrow> u32 \<Rightarrow> u64 \<Rightarrow> Authority \<Rightarrow> Ledger \<Rightarrow> InputTimeline \<Rightarrow> u64 result \<times> Ledger \<times> InputTimeline" where
  "rebuild_commits 0 frame previous_hash a l timeline = (Inr previous_hash, l, timeline)"
| "rebuild_commits (Suc n) frame previous_hash a l timeline =
     (case map_of (lg_frame_commits l) frame of
        None \<Rightarrow> (Inl ''Player 1's rollback commit history has a missing frame.'', l, timeline)
      | Some found \<Rightarrow>
          let rev_no = (if fc_revision found = 0xFFFF then 0xFFFF else fc_revision found + 1);
              (revised, timeline) = build_commit a frame rev_no previous_hash timeline;
              l = l\<lparr>lg_frame_commits := AList.update frame revised (lg_frame_commits l)\<rparr>
          in rebuild_commits n (frame + 1) (fc_commit_hash revised) a l timeline)"

text \<open>
  \<^verbatim>\<open>send_frame_correction_locked\<close>; a peer is its slot, the inactive ones are left out of \<open>peers\<close>.
\<close>

definition send_frame_correction :: "u8 list \<Rightarrow> Authority \<Rightarrow> Ledger \<Rightarrow> Outgoing list" where
  "send_frame_correction peers a l =
     (case lg_transmission l of None \<Rightarrow> []
      | Some tr \<Rightarrow>
          if \<not> au_is_host a then []
          else concat (map (\<lambda>peer.
            if kMaximumPlayers \<le> unat peer \<or> tr_acknowledgements tr ! unat peer then []
            else concat (map (\<lambda>commits.
              let payload = encode_frame_commit_batch
                    \<lparr>fb_generation = tr_generation tr, fb_correction_first = tr_first_frame tr,
                     fb_correction_last = tr_last_frame tr, fb_correction = True, fb_commits = commits\<rparr>
              in if payload \<noteq> [] then [ToPeer peer MsgFrameCommit payload (fc_frame (last commits))] else [])
              (chunks 16 (tr_commits tr)))) peers))"

definition next_generation :: "u32 \<Rightarrow> u32" where
  "next_generation g = (if g + 1 = 0 then 1 else g + 1)"

definition rebuild_frame_commits ::
  "u32 \<Rightarrow> u8 list \<Rightarrow> Authority \<Rightarrow> Ledger \<Rightarrow> InputTimeline \<Rightarrow>
   unit result \<times> Outgoing list \<times> Ledger \<times> InputTimeline" where
  "rebuild_frame_commits first_frame peers a l timeline =
     (if \<not> au_is_host a \<or>
         (case au_launch_descriptor a of None \<Rightarrow> True | Some d \<Rightarrow> ld_synchronization d \<noteq> Rollback) \<or>
         first_frame \<ge> lg_next_commit_frame l
      then (Inr (), [], l, timeline)
      else
        let first_frame = (case lg_transmission l of
              Some tr \<Rightarrow> min first_frame (tr_first_frame tr) | None \<Rightarrow> first_frame)
        in case map_of (lg_frame_commits l) first_frame of
             None \<Rightarrow> (Inl ''A late racer input fell outside Player 1's rollback history.'', [], l, timeline)
           | Some first \<Rightarrow>
               (case rebuild_commits (unat (lg_next_commit_frame l - first_frame)) first_frame
                       (fc_previous_hash first) a l timeline of
                  (Inl e, l, timeline) \<Rightarrow> (Inl e, [], l, timeline)
                | (Inr previous_hash, l, timeline) \<Rightarrow>
                    let l = (refresh_history l)\<lparr>lg_last_consumed_commit_hash := previous_hash\<rparr>;
                        l = note_correction first_frame l;
                        generation = next_generation (lg_frame_correction_generation l);
                        frames = map (\<lambda>i. first_frame + of_nat i)
                          [0..<unat (lg_next_commit_frame l - first_frame)];
                        tr = \<lparr>tr_epoch = authority_epoch a, tr_generation = generation,
                          tr_first_frame = first_frame, tr_last_frame = lg_next_commit_frame l - 1,
                          tr_commits = map (\<lambda>frame. the (map_of (lg_frame_commits l) frame)) frames,
                          tr_acknowledgements =
                            (replicate kMaximumPlayers False)[unat (au_local_slot a) := True]\<rparr>;
                        l = l\<lparr>lg_frame_correction_generation := generation, lg_transmission := Some tr\<rparr>
                    in (Inr (), send_frame_correction peers a l, l, timeline)))"

text \<open>The branch of \<^verbatim>\<open>handle_host_packet\<close> for the acknowledgement of a correction by a peer.\<close>

definition handle_frame_correction_ack ::
  "u8 \<Rightarrow> bytes \<Rightarrow> Player list \<Rightarrow> Authority \<Rightarrow> Ledger \<Rightarrow> Ledger" where
  "handle_frame_correction_ack peer payload players a l =
     (case (decode_frame_correction_acknowledge payload, lg_transmission l) of
        (Inr ack, Some tr) \<Rightarrow>
          if ca_epoch ack \<noteq> authority_epoch a \<or> ca_generation ack \<noteq> tr_generation tr \<or>
             ca_player_slot ack \<noteq> peer
          then l
          else let tr = tr\<lparr>tr_acknowledgements := (tr_acknowledgements tr)[unat peer := True]\<rparr> in
            if list_all (\<lambda>slot. pl_occupied (players ! slot) \<longrightarrow> tr_acknowledgements tr ! slot)
                 [0..<length players]
            then l\<lparr>lg_transmission := None\<rparr> else l\<lparr>lg_transmission := Some tr\<rparr>
      | _ \<Rightarrow> l)"

subsection \<open>Chains of commits\<close>

text \<open>What Player 1 has published since an epoch began at the frame \<open>first\<close> with the hash \<open>seed\<close>.\<close>

definition hash_at :: "u64 \<Rightarrow> FrameCommitPayload list \<Rightarrow> nat \<Rightarrow> u64" where
  "hash_at seed cs i = (if i = 0 then seed else fc_commit_hash (cs ! (i - 1)))"

definition chain :: "Authority \<Rightarrow> u32 \<Rightarrow> u64 \<Rightarrow> FrameCommitPayload list \<Rightarrow> bool" where
  "chain a first seed cs \<longleftrightarrow> unat first + length cs < 2 ^ 32 \<and>
     (\<forall>i < length cs. fc_frame (cs ! i) = first + of_nat i \<and> fc_previous_hash (cs ! i) = hash_at seed cs i \<and>
        fc_revision (cs ! i) = 0 \<and> validate_commit (cs ! i) a = Inr () \<and> commit_ok (cs ! i))"

definition same_match :: "Authority \<Rightarrow> Authority \<Rightarrow> bool" where
  "same_match a b \<longleftrightarrow> au_match_id a = au_match_id b \<and> au_launch_descriptor a = au_launch_descriptor b \<and>
     au_input_epoch a = au_input_epoch b"

lemma same_match_epoch: "same_match a b \<Longrightarrow> authority_epoch a = authority_epoch b \<and> expected_mask a = expected_mask b"
  by (simp add: same_match_def authority_epoch_def authority_epoch_for_input_epoch_def expected_mask_def)

lemma same_match_validate: "same_match a b \<Longrightarrow> validate_commit c a = validate_commit c b"
  using same_match_epoch [of a b] by (simp add: validate_commit_def same_match_def)

lemma validate_epoch: "validate_commit c a = Inr () \<Longrightarrow> fc_epoch c = authority_epoch a"
  by (auto simp: validate_commit_def split: if_splits)

lemma frame_offset: "unat first + i < 2 ^ 32 \<Longrightarrow> unat (first + of_nat i :: u32) = unat first + i"
  using unat_no_overflow(1) [of first "of_nat i"] by (simp add: unat_frame)

lemma chain_member:
  assumes "chain a first seed cs" "c \<in> set cs"
  obtains i where "i < length cs" "c = cs ! i" "unat (fc_frame c) = unat first + i"
proof -
  obtain i where i: "i < length cs" "c = cs ! i" using assms(2) by (auto simp: in_set_conv_nth)
  then have "unat first + i < 2 ^ 32" "fc_frame c = first + of_nat i" using assms(1) by (auto simp: chain_def)
  then show ?thesis using that i frame_offset by simp
qed

lemma chain_valid: "chain a first seed cs \<Longrightarrow> c \<in> set cs \<Longrightarrow> validate_commit c a = Inr () \<and> commit_ok c"
  by (auto simp: chain_def in_set_conv_nth)

lemma chain_unique:
  assumes "chain a first seed cs" "b \<in> set cs" "c \<in> set cs" "fc_frame b = fc_frame c"
  shows "b = c"
  using chain_member [OF assms(1,2)] chain_member [OF assms(1,3)] assms(4) by (metis add_left_cancel)

lemma chain_at:
  assumes "chain a first seed cs" "c \<in> set cs" "fc_frame c = first + of_nat k" "k \<le> length cs"
  shows "k < length cs \<and> c = cs ! k"
proof -
  obtain i where i: "i < length cs" "c = cs ! i" "unat (fc_frame c) = unat first + i"
    using chain_member [OF assms(1,2)] .
  have "unat first + k < 2 ^ 32" using assms(1,4) by (simp add: chain_def)
  then have "i = k" using i(3) assms(3) frame_offset by simp
  then show ?thesis using i by simp
qed

lemma hash_at_append: "i \<le> length cs \<Longrightarrow> hash_at seed (cs @ ds) i = hash_at seed cs i"
  by (auto simp: hash_at_def nth_append)

lemma chain_snoc:
  assumes "chain a first seed cs" "unat first + length cs + 1 < 2 ^ 32"
    "fc_frame c = first + of_nat (length cs)" "fc_previous_hash c = hash_at seed cs (length cs)"
    "fc_revision c = 0" "validate_commit c a = Inr ()" "commit_ok c"
  shows "chain a first seed (cs @ [c])"
  using assms by (auto simp: chain_def nth_append less_Suc_eq hash_at_append)

subsection \<open>Published commits are valid\<close>

lemma authority_epoch_nonzero: "authority_epoch a \<noteq> 0"
  by (simp add: authority_epoch_def authority_epoch_for_input_epoch_def Let_def)

lemma predicted_within: "predicted_mask f m t AND NOT m = 0"
  by (intro bit_word_eqI) (auto simp: bit_and_iff bit_not_iff predicted_mask_bit)

lemma build_commit_ok:
  assumes "timeline_inv t" "expected_mask a \<noteq> 0" "build_commit a f r h t = (c, u)"
  shows "validate_commit c a = Inr ()" "commit_ok c" "timeline_inv u"
    "fc_frame c = f" "fc_revision c = r" "fc_previous_hash c = h"
proof -
  have n: "length (fst (inputs_for f t)) = kMaximumPlayers"
    using inputs_for_nth(2) [OF assms(1), of 0] by (simp add: kMaximumPlayers_def)
  note c = assms(3) [unfolded build_commit_def Let_def split_beta, simplified, THEN conjunct1, symmetric]
    and u = assms(3) [unfolded build_commit_def Let_def split_beta, simplified, THEN conjunct2, symmetric]
  show "timeline_inv u" using inputs_for_holds(2) [OF assms(1)] u by simp
  show "fc_frame c = f" "fc_revision c = r" "fc_previous_hash c = h" by (simp_all add: c)
  show "commit_ok c"
    by (simp add: c commit_ok_def authority_epoch_nonzero assms(2) predicted_within frame_commit_hash_nonzero
        clear_unoccupied_def n)
  have "fc_commit_hash c = frame_commit_hash (au_match_id a) c"
    unfolding c by (simp add: frame_commit_hash_def)
  moreover have "fc_epoch c = authority_epoch a" "fc_occupied_mask c = expected_mask a"
    "fc_predicted_mask c AND NOT (expected_mask a) = 0"
    "fc_inputs c = clear_unoccupied (expected_mask a) (fst (inputs_for f t))"
    by (simp_all add: c predicted_within)
  ultimately show "validate_commit c a = Inr ()"
    by (simp add: validate_commit_def clear_unoccupied_def list_ex_iff)
qed

subsection \<open>Only valid commits are stored\<close>

definition valid_store :: "Authority \<Rightarrow> (u32 \<rightharpoonup> FrameCommitPayload) \<Rightarrow> bool" where
  "valid_store a m \<longleftrightarrow> (\<forall>f c. m f = Some c \<longrightarrow> validate_commit c a = Inr () \<and> fc_frame c = f)"

definition ledger_inv :: "Authority \<Rightarrow> Ledger \<Rightarrow> bool" where
  "ledger_inv a l \<longleftrightarrow> valid_store a (map_of (lg_frame_commits l)) \<and>
     valid_store a (map_option snd \<circ> map_of (lg_deferred l)) \<and>
     (case lg_assembly l of None \<Rightarrow> True | Some asm \<Rightarrow> valid_store a (map_of (as_commits asm)))"

lemma valid_store_update:
  "valid_store a m \<Longrightarrow> validate_commit c a = Inr () \<Longrightarrow> valid_store a (m(fc_frame c \<mapsto> c))"
  by (auto simp: valid_store_def)

lemma valid_store_delete: "valid_store a m \<Longrightarrow> valid_store a (m(f := None))"
  by (auto simp: valid_store_def)

lemma ledger_inv_simps [simp]:
  "ledger_inv a (note_correction f l) = ledger_inv a l" "ledger_inv a (follow_consumed l) = ledger_inv a l"
  "ledger_inv a (refresh_history l) = ledger_inv a l"
  by (simp_all add: ledger_inv_def note_correction_def follow_consumed_def refresh_history_def split: option.split)

lemma store_commit_inv:
  "ledger_inv a l \<Longrightarrow> validate_commit c a = Inr () \<Longrightarrow> ledger_inv a (store_commit c l)"
  by (simp add: ledger_inv_def store_commit_def update_conv' valid_store_update)

lemma apply_frame_commit_inv: "ledger_inv a l \<Longrightarrow> ledger_inv a (snd (apply_frame_commit c a l))"
  by (auto simp: apply_frame_commit_def store_commit_inv split: sum.split option.split)

lemma consume_commit_inv: "ledger_inv a l \<Longrightarrow> ledger_inv a (snd (consume_commit f a l))"
  by (auto simp: consume_commit_def ledger_inv_def delete_conv' valid_store_delete split: sum.split option.split)

lemma assemble_commit_inv:
  assumes "ledger_inv a l" "validate_commit c a = Inr ()"
  shows "ledger_inv a (snd (assemble_commit b c l))"
proof -
  have e: "valid_store a (map_of [])" by (simp add: valid_store_def)
  show ?thesis
    using assms valid_store_update [OF _ assms(2)] e
    by (auto simp: assemble_commit_def ledger_inv_def Let_def update_conv' split: option.splits)
qed

lemma receive_commit_inv:
  assumes "ledger_inv a l"
  shows "ledger_inv a (snd (receive_commit b c a l))"
proof -
  have d: "(map_option snd \<circ> map_of (AList.update f (g, c) xs)) = (map_option snd \<circ> map_of xs)(f \<mapsto> c)" for f and g :: u32 and xs
    by (auto simp: update_conv')
  show ?thesis
    using assms assemble_commit_inv apply_frame_commit_inv valid_store_update
    by (auto simp: receive_commit_def ledger_inv_def d simp del: comp_apply split: sum.split)
qed

lemma receive_commits_inv: "ledger_inv a l \<Longrightarrow> ledger_inv a (snd (receive_commits b cs a l))"
proof (induction cs arbitrary: l)
  case (Cons c cs)
  then show ?case using receive_commit_inv [OF Cons.prems, of b c] by (auto split: prod.split sum.split)
qed simp

text \<open>A correction replaces a commit by a later revision, or comes before the frame is consumed.\<close>

definition advances :: "Ledger \<Rightarrow> u32 \<Rightarrow> FrameCommitPayload \<Rightarrow> bool" where
  "advances l f c \<longleftrightarrow> (case map_of (lg_frame_commits l) f of
     Some e \<Rightarrow> fc_revision e < fc_revision c | None \<Rightarrow> lg_next_commit_frame l \<le> f)"

lemma check_incoming_ok:
  "check_incoming f h asm a l = Inr c \<Longrightarrow> map_of (as_commits asm) f = Some c \<and> validate_commit c a = Inr () \<and>
     fc_previous_hash c = h \<and> advances l f c"
  by (auto simp: advances_def check_incoming_def Let_def not_le not_less split: option.splits sum.splits if_splits)

lemma map_sum_Inr: "map_sum id g x = Inr y \<longleftrightarrow> (\<exists>z. x = Inr z \<and> y = g z)"
  by (cases x) auto

definition corrected ::
  "FrameCorrectionAssembly \<Rightarrow> Authority \<Rightarrow> Ledger \<Rightarrow> u32 \<Rightarrow> u64 \<Rightarrow> FrameCommitPayload list \<Rightarrow> nat \<Rightarrow> bool" where
  "corrected asm a l f h cs i \<longleftrightarrow> map_of (as_commits asm) (f + of_nat i) = Some (cs ! i) \<and>
     validate_commit (cs ! i) a = Inr () \<and> fc_previous_hash (cs ! i) = hash_at h cs i \<and>
     advances l (f + of_nat i) (cs ! i)"

lemma corrected_Cons:
  "corrected asm a l f h (c # cs) (Suc i) \<longleftrightarrow> corrected asm a l (f + 1) (fc_commit_hash c) cs i"
proof -
  have "hash_at h (c # cs) (Suc i) = hash_at (fc_commit_hash c) cs i" by (cases i) (auto simp: hash_at_def)
  then show ?thesis by (simp add: corrected_def add.assoc)
qed

lemma check_correction_ok:
  "check_correction n f h asm a l = Inr cs \<Longrightarrow> length cs = Suc n \<and> (\<forall>i < Suc n. corrected asm a l f h cs i)"
proof (induction n arbitrary: f h cs)
  case 0
  then obtain c where "check_incoming f h asm a l = Inr c" "cs = [c]" by (auto simp: map_sum_Inr)
  then show ?case using check_incoming_ok [of f h asm a l c] by (simp add: corrected_def hash_at_def)
next
  case (Suc n)
  then obtain c ds where c: "check_incoming f h asm a l = Inr c" "cs = c # ds"
    "check_correction n (f + 1) (fc_commit_hash c) asm a l = Inr ds"
    by (auto simp: map_sum_Inr split: sum.splits)
  have "corrected asm a l f h cs 0" using check_incoming_ok [OF c(1)] by (simp add: corrected_def hash_at_def c(2))
  then show ?case using Suc.IH [OF c(3)] by (auto simp: c(2) less_Suc_eq_0_disj corrected_Cons)
qed

subsection \<open>A correction is atomic\<close>

abbreviation install_all :: "FrameCommitPayload list \<Rightarrow> (u32 \<rightharpoonup> FrameCommitPayload) \<Rightarrow> (u32 \<rightharpoonup> FrameCommitPayload)" where
  "install_all \<equiv> fold (\<lambda>c m. m(fc_frame c \<mapsto> c))"

lemma map_of_install: "map_of (fold (\<lambda>c. AList.update (fc_frame c) c) cs xs) = install_all cs (map_of xs)"
  by (induction cs arbitrary: xs) (auto simp: update_conv')

lemma install_other: "f \<notin> fc_frame ` set cs \<Longrightarrow> install_all cs m f = m f"
  by (induction cs arbitrary: m) auto

lemma install_new: "distinct (map fc_frame cs) \<Longrightarrow> c \<in> set cs \<Longrightarrow> install_all cs m (fc_frame c) = Some c"
  by (induction cs arbitrary: m) (auto simp: install_other)

lemma install_valid: "valid_store a m \<Longrightarrow> \<forall>c \<in> set cs. validate_commit c a = Inr () \<Longrightarrow> valid_store a (install_all cs m)"
  by (induction cs arbitrary: m) (auto simp: valid_store_update)

lemma install_correction_simps:
  "lg_frame_commits (install_correction asm cs l) = fold (\<lambda>c. AList.update (fc_frame c) c) cs (lg_frame_commits l)"
  "lg_deferred (install_correction asm cs l) = lg_deferred l" "lg_assembly (install_correction asm cs l) = None"
  "lg_next_commit_frame (install_correction asm cs l) = lg_next_commit_frame l"
  "lg_applied_generation (install_correction asm cs l) = as_generation asm"
  by (simp_all add: install_correction_def Let_def note_correction_def follow_consumed_def refresh_history_def split: option.split)

lemma install_correction_inv:
  "ledger_inv a l \<Longrightarrow> \<forall>c \<in> set cs. validate_commit c a = Inr () \<Longrightarrow> ledger_inv a (install_correction asm cs l)"
  by (simp add: ledger_inv_def install_correction_simps map_of_install install_valid)

lemma apply_deferred_inv: "ledger_inv a l \<Longrightarrow> ledger_inv a (snd (apply_deferred fs a l))"
proof (induction fs a l rule: apply_deferred.induct)
  case (2 f fs a l)
  have d: "map_option snd \<circ> map_of (AList.delete f xs) = (map_option snd \<circ> map_of xs)(f := None)" for xs :: "(u32 \<times> u32 \<times> FrameCommitPayload) list"
    by (auto simp: delete_conv')
  show ?case
  proof (cases "map_of (lg_deferred l) f")
    case (Some gc)
    obtain g c where gc: "gc = (g, c)" by fastforce
    obtain r l1 where r: "apply_frame_commit c a l = (r, l1)" by fastforce
    then have l1: "ledger_inv a l1" using apply_frame_commit_inv [OF "2.prems", of c] by simp
    then have "ledger_inv a (l1\<lparr>lg_deferred := AList.delete f (lg_deferred l1)\<rparr>)"
      by (simp add: ledger_inv_def d valid_store_delete del: comp_apply)
    then show ?thesis using "2.IH"(2) Some gc r l1 by (cases r) auto
  qed (use 2 in simp)
qed simp

text \<open>The three outcomes: refused without a change, installed, installed but a deferred commit conflicts.\<close>

lemma apply_frame_correction_cases:
  assumes "apply_frame_correction a l = (r, sent, l2)"
  obtains (refused) e where "r = Inl e" "sent = []" "l2 = l"
  | (installed) asm cs h fs where "lg_assembly l = Some asm" "unat (correction_size asm) = length cs" "cs \<noteq> []" "length cs \<le> 128"
      "\<forall>i < length cs. corrected asm a l (as_first_frame asm) h cs i"
      "fs = sort (map fst (filter (\<lambda>(frame, generation, _). generation \<le> as_generation asm) (lg_deferred l)))"
      "apply_deferred fs a (install_correction asm cs l) = (r, l2)"
      "sent = (case r of Inl _ \<Rightarrow> [] | Inr _ \<Rightarrow>
         replicate 2 (correction_acknowledgement (as_generation asm) (lg_next_commit_frame l2) a))"
proof (cases "lg_assembly l")
  case None
  then show ?thesis using assms refused by (auto simp: apply_frame_correction_def)
next
  case (Some asm)
  let ?n = "correction_size asm"
  show ?thesis
  proof (cases "?n = 0 \<or> ?n > 128 \<or> of_nat (length (as_commits asm)) \<noteq> ?n \<or> map_of (as_commits asm) (as_first_frame asm) = None")
    case True
    then show ?thesis using assms refused Some by (auto simp: apply_frame_correction_def Let_def split: if_splits)
  next
    case False
    then obtain first where f: "map_of (as_commits asm) (as_first_frame asm) = Some first" by auto
    define h where "h = (if as_first_frame asm > 0
                    then case map_of (lg_frame_commits l) (as_first_frame asm - 1) of
                           Some predecessor \<Rightarrow> fc_commit_hash predecessor
                         | None \<Rightarrow> fc_previous_hash first
                    else fc_previous_hash first)"
    have e: "(case check_correction (unat ?n - 1) (as_first_frame asm) h asm a l of
                Inl e \<Rightarrow> (Inl e, [], l)
              | Inr ordered \<Rightarrow>
                  let l = install_correction asm ordered l;
                      frames = sort (map fst (filter (\<lambda>(frame, generation, _). generation \<le> as_generation asm)
                        (lg_deferred l)))
                  in case apply_deferred frames a l of
                       (Inl e, l) \<Rightarrow> (Inl e, [], l)
                     | (Inr _, l) \<Rightarrow> (Inr (), replicate 2
                         (correction_acknowledgement (as_generation asm) (lg_next_commit_frame l) a), l)) = (r, sent, l2)"
      using assms False f unfolding apply_frame_correction_def Some by (simp add: h_def Let_def)
    show ?thesis
    proof (cases "check_correction (unat ?n - 1) (as_first_frame asm) h asm a l")
      case (Inl x)
      then show ?thesis using e refused by auto
    next
      case (Inr cs)
      note ok = check_correction_ok [OF Inr]
      have n: "0 < unat ?n" "unat ?n \<le> 128" using False by (auto simp: unat_gt_0 word_less_nat_alt not_less)
      then have len: "unat ?n = length cs" "length cs \<le> 128" "cs \<noteq> []" using ok by auto
      let ?fs = "sort (map fst (filter (\<lambda>(frame, generation, _). generation \<le> as_generation asm) (lg_deferred l)))"
      obtain r' l' where d: "apply_deferred ?fs a (install_correction asm cs l) = (r', l')" by fastforce
      have "\<forall>i < length cs. corrected asm a l (as_first_frame asm) h cs i" using ok by simp
      then show ?thesis
        using installed [OF Some len(1,3,2) _ refl] d e unfolding Inr
        by (cases r') (auto simp: Let_def install_correction_simps)
    qed
  qed
qed

lemma apply_frame_correction_inv:
  assumes "ledger_inv a l" "apply_frame_correction a l = (r, sent, l2)"
  shows "ledger_inv a l2"
  using assms(2)
proof (cases rule: apply_frame_correction_cases)
  case (installed asm cs h fs)
  then have "\<forall>c \<in> set cs. validate_commit c a = Inr ()" by (auto simp: corrected_def in_set_conv_nth)
  then show ?thesis
    using apply_deferred_inv [OF install_correction_inv [OF assms(1)], where fs = fs] installed(7) by (metis snd_conv)
qed (use assms(1) in simp)

text \<open>Whatever bytes arrive, only commits that validate are stored, each under its frame.\<close>

lemma handle_frame_commit_inv:
  assumes "ledger_inv a l" "handle_frame_commit payload h a l = (r, sent, l2)"
  shows "ledger_inv a l2"
proof (cases "decode_frame_commit_batch payload")
  case (Inr b)
  obtain r1 l1 where r1: "receive_commits b (fb_commits b) a l = (r1, l1)" by fastforce
  then have "ledger_inv a l1" using receive_commits_inv [OF assms(1), of b "fb_commits b"] by simp
  then show ?thesis
    using assms r1 Inr apply_frame_correction_inv [of a l1]
    unfolding handle_frame_commit_def by (auto split: if_splits sum.splits option.splits prod.splits)
qed (use assms in \<open>simp add: handle_frame_commit_def\<close>)

lemma unat_correction_size:
  assumes "as_first_frame asm \<le> as_last_frame asm"
  shows "unat (correction_size asm) = unat (as_last_frame asm) - unat (as_first_frame asm) + 1"
proof -
  let ?f = "ucast (as_first_frame asm) :: u64" and ?l = "ucast (as_last_frame asm) :: u64"
  have u: "unat ?f = unat (as_first_frame asm)" "unat ?l = unat (as_last_frame asm)"
    using unat_small(3) [of "as_first_frame asm"] unat_small(3) [of "as_last_frame asm"]
    by (simp_all add: unsigned_ucast_eq take_bit_nat_eq_self)
  have "unat (?l - ?f) = unat ?l - unat ?f" using assms u by (intro unat_sub) (simp add: word_le_nat_alt)
  moreover have "unat (?l - ?f) + unat (1 :: u64) < 2 ^ 64" using u unat_small(3) [of "as_last_frame asm"] calculation by simp
  ultimately show ?thesis using u unat_add_lem [of "?l - ?f" 1] by (simp add: correction_size_def)
qed

text \<open>A frame holds a commit or a newer one.\<close>

definition at_least :: "FrameCommitPayload \<Rightarrow> FrameCommitPayload option \<Rightarrow> bool" where
  "at_least c found \<longleftrightarrow> (case found of None \<Rightarrow> False | Some d \<Rightarrow> d = c \<or> fc_revision c < fc_revision d)"

lemma at_least_trans: "at_least c (Some d) \<Longrightarrow> at_least d found \<Longrightarrow> at_least c found"
  by (auto simp: at_least_def split: option.splits)

lemma at_least_refl [simp]: "at_least c (Some c)"
  by (simp add: at_least_def)

text \<open>Two different commits of one frame and revision.\<close>

definition conflicting :: "Ledger \<Rightarrow> FrameCommitPayload \<Rightarrow> string \<Rightarrow> bool" where
  "conflicting l c message \<longleftrightarrow>
     (case map_of (lg_frame_commits l) (fc_frame c) of None \<Rightarrow> False
      | Some d \<Rightarrow> d \<noteq> c \<and> fc_revision d = fc_revision c) \<and>
     message = ''Player 1 published conflicting data for simulation frame '' @ frame_text (fc_frame c) @ ''.''"

text \<open>What nothing but a correction, a consumed frame and an arriving batch change.\<close>

definition same_course :: "Ledger \<Rightarrow> Ledger \<Rightarrow> bool" where
  "same_course l m \<longleftrightarrow> lg_assembly m = lg_assembly l \<and> lg_applied_generation m = lg_applied_generation l \<and>
     lg_next_commit_frame m = lg_next_commit_frame l"

lemma note_correction_simps [simp]:
  "lg_frame_commits (note_correction f l) = lg_frame_commits l" "lg_deferred (note_correction f l) = lg_deferred l"
  "same_course (note_correction f l) m = same_course l m" "same_course m (note_correction f l) = same_course m l"
  by (simp_all add: note_correction_def same_course_def split: option.split)

lemma apply_frame_commit_step:
  assumes "apply_frame_commit c a l = (r, m)" "validate_commit c a = Inr ()"
  shows "same_course l m" "lg_deferred m = lg_deferred l"
    "f \<noteq> fc_frame c \<Longrightarrow> map_of (lg_frame_commits m) f = map_of (lg_frame_commits l) f"
    "map_of (lg_frame_commits l) f = Some d \<Longrightarrow> at_least d (map_of (lg_frame_commits m) f)"
    "r = Inr () \<Longrightarrow> at_least c (map_of (lg_frame_commits m) (fc_frame c))"
    "r = Inl e \<Longrightarrow> m = l \<and> conflicting l c e"
proof -
  have s: "same_course l m \<and> lg_deferred m = lg_deferred l"
    using assms by (auto simp: apply_frame_commit_def store_commit_def note_correction_def same_course_def split: option.splits if_splits)
  then show "same_course l m" "lg_deferred m = lg_deferred l" by simp_all
  show "f \<noteq> fc_frame c \<Longrightarrow> map_of (lg_frame_commits m) f = map_of (lg_frame_commits l) f"
    using assms by (auto simp: apply_frame_commit_def store_commit_def update_conv' split: option.splits if_splits)
  show "map_of (lg_frame_commits l) f = Some d \<Longrightarrow> at_least d (map_of (lg_frame_commits m) f)"
    using assms by (auto simp: apply_frame_commit_def store_commit_def update_conv' at_least_def split: option.splits if_splits)
  show "r = Inr () \<Longrightarrow> at_least c (map_of (lg_frame_commits m) (fc_frame c))"
    using assms by (auto simp: apply_frame_commit_def store_commit_def update_conv' at_least_def split: option.splits if_splits)
  show "r = Inl e \<Longrightarrow> m = l \<and> conflicting l c e"
    using assms by (auto simp: apply_frame_commit_def conflicting_def split: option.splits if_splits)
qed

lemma delete_deferred_inv:
  assumes "ledger_inv a l"
  shows "ledger_inv a (l\<lparr>lg_deferred := AList.delete f (lg_deferred l)\<rparr>)"
proof -
  have "map_option snd \<circ> map_of (AList.delete f xs) = (map_option snd \<circ> map_of xs)(f := None)" for xs :: "(u32 \<times> u32 \<times> FrameCommitPayload) list"
    by (auto simp: delete_conv')
  then show ?thesis using assms by (simp add: ledger_inv_def valid_store_delete del: comp_apply)
qed

lemma deferred_valid:
  assumes "ledger_inv a l" "map_of (lg_deferred l) f = Some (g, c)"
  shows "validate_commit c a = Inr () \<and> fc_frame c = f"
proof -
  have "(map_option snd \<circ> map_of (lg_deferred l)) f = Some c" using assms(2) by simp
  then show ?thesis using assms(1) unfolding ledger_inv_def valid_store_def by blast
qed

lemma apply_deferred_outcome:
  assumes "ledger_inv a l" "apply_deferred fs a l = (r, m)"
  shows "same_course l m \<and>
    (\<forall>f. f \<notin> set fs \<longrightarrow> map_of (lg_frame_commits m) f = map_of (lg_frame_commits l) f) \<and>
    (\<forall>f d. map_of (lg_frame_commits l) f = Some d \<longrightarrow> at_least d (map_of (lg_frame_commits m) f)) \<and>
    (case r of
       Inr _ \<Rightarrow> \<forall>f \<in> set fs. case map_of (lg_deferred l) f of
         Some (g, c) \<Rightarrow> at_least c (map_of (lg_frame_commits m) f) | None \<Rightarrow> True
     | Inl e \<Rightarrow> \<exists>f \<in> set fs. \<exists>g c. map_of (lg_deferred l) f = Some (g, c) \<and> conflicting m c e)"
  using assms
proof (induction fs a l arbitrary: r m rule: apply_deferred.induct)
  case (1 a l)
  then show ?case by (auto simp: same_course_def)
next
  case (2 f fs a l)
  show ?case
  proof (cases "map_of (lg_deferred l) f")
    case None
    then show ?thesis using "2.IH"(1) [OF None "2.prems"(1)] "2.prems"(2) by (auto split: sum.splits)
  next
    case (Some gc)
    obtain g c where gc: "gc = (g, c)" by fastforce
    note v = deferred_valid [OF "2.prems"(1) Some [unfolded gc]]
    obtain r1 l1 where r1: "apply_frame_commit c a l = (r1, l1)" by fastforce
    note st = apply_frame_commit_step [OF r1 conjunct1 [OF v]]
    let ?l = "l1\<lparr>lg_deferred := AList.delete f (lg_deferred l1)\<rparr>"
    show ?thesis
    proof (cases r1)
      case (Inl e)
      then have "r = Inl e" "m = l" "conflicting l c e" using "2.prems"(2) Some gc r1 st(6) by auto
      then show ?thesis using Some gc by (auto simp: same_course_def)
    next
      case (Inr u)
      have inv: "ledger_inv a ?l" using apply_frame_commit_inv [OF "2.prems"(1), of c] r1 delete_deferred_inv by simp
      have ap: "apply_deferred fs a ?l = (r, m)" using "2.prems"(2) Some gc r1 Inr by simp
      have sc: "same_course l m" if "same_course ?l m" using that st(1) by (simp add: same_course_def)
      have c: "at_least c (map_of (lg_frame_commits l1) f)" using st(5) Inr v by simp
      note ih = "2.IH"(2) [OF Some gc [symmetric] r1 [symmetric] Inr inv ap]
      have up: "at_least d (map_of (lg_frame_commits m) h)" if d: "at_least d (map_of (lg_frame_commits l1) h)" for d h
      proof -
        obtain b where b: "map_of (lg_frame_commits l1) h = Some b" using d by (auto simp: at_least_def split: option.splits)
        then have "at_least b (map_of (lg_frame_commits m) h)" using ih by simp
        then show ?thesis using at_least_trans d b by metis
      qed
      have "\<forall>h. h \<notin> set (f # fs) \<longrightarrow> map_of (lg_frame_commits m) h = map_of (lg_frame_commits l) h"
        using ih st(3) v by simp
      moreover have "\<forall>h d. map_of (lg_frame_commits l) h = Some d \<longrightarrow> at_least d (map_of (lg_frame_commits m) h)"
        using up st(4) by blast
      moreover have "case r of
         Inr _ \<Rightarrow> \<forall>h \<in> set (f # fs). case map_of (lg_deferred l) h of
           Some (g, c) \<Rightarrow> at_least c (map_of (lg_frame_commits m) h) | None \<Rightarrow> True
       | Inl e \<Rightarrow> \<exists>h \<in> set (f # fs). \<exists>g c. map_of (lg_deferred l) h = Some (g, c) \<and> conflicting m c e"
      proof (cases r)
        case (Inl e)
        then obtain h g' c' where h: "h \<in> set fs" "map_of (AList.delete f (lg_deferred l)) h = Some (g', c')" "conflicting m c' e"
          using ih st(2) by auto
        then have "map_of (lg_deferred l) h = Some (g', c')" by (simp add: delete_conv' split: if_splits)
        then show ?thesis using Inl h by auto
      next
        case (Inr w)
        have "case map_of (lg_deferred l) h of Some (g, c) \<Rightarrow> at_least c (map_of (lg_frame_commits m) h) | None \<Rightarrow> True"
          if "h \<in> set (f # fs)" for h
        proof (cases "h = f")
          case True
          then show ?thesis using Some gc up [OF c] by simp
        next
          case False
          then have "map_of (AList.delete f (lg_deferred l)) h = map_of (lg_deferred l) h" by (simp add: delete_conv')
          then show ?thesis using ih Inr False that st(2) by auto
        qed
        then show ?thesis using Inr by simp
      qed
      ultimately show ?thesis using ih sc by blast
    qed
  qed
qed

text \<open>
  A correction is taken whole or not at all. What comes after its installation is the work of
  the commits that were deferred for its generation.
\<close>

definition due_deferred :: "FrameCorrectionAssembly \<Rightarrow> Ledger \<Rightarrow> u32 list" where
  "due_deferred asm l = sort (map fst (filter (\<lambda>(frame, generation, _). generation \<le> as_generation asm) (lg_deferred l)))"

definition range_installed :: "Authority \<Rightarrow> FrameCorrectionAssembly \<Rightarrow> Ledger \<Rightarrow> Ledger \<Rightarrow> bool" where
  "range_installed a asm l m \<longleftrightarrow> (\<forall>f.
     if as_first_frame asm \<le> f \<and> f \<le> as_last_frame asm
     then map_of (lg_frame_commits m) f = map_of (as_commits asm) f \<and>
          (\<exists>c. map_of (as_commits asm) f = Some c \<and> validate_commit c a = Inr () \<and> advances l f c \<and>
             (as_first_frame asm < f \<longrightarrow> map_option fc_commit_hash (map_of (as_commits asm) (f - 1)) = Some (fc_previous_hash c)))
     else map_of (lg_frame_commits m) f = map_of (lg_frame_commits l) f)"

lemma install_correction_range:
  assumes "ledger_inv a l" "lg_assembly l = Some asm" "as_first_frame asm \<le> as_last_frame asm"
    "unat (correction_size asm) = length cs" "cs \<noteq> []" "\<forall>i < length cs. corrected asm a l (as_first_frame asm) h cs i"
  shows "range_installed a asm l (install_correction asm cs l)"
proof -
  have n: "unat (as_last_frame asm) = unat (as_first_frame asm) + (length cs - 1)" "0 < length cs"
    using unat_correction_size [OF assms(3)] assms(4,5) assms(3) by (auto simp: word_le_nat_alt)
  have at: "unat (as_first_frame asm + of_nat i) = unat (as_first_frame asm) + i" if "i < length cs" for i
    using that n unat_small(3) [of "as_last_frame asm"] by (intro frame_offset) simp
  have c: "map_of (as_commits asm) (as_first_frame asm + of_nat i) = Some (cs ! i)" "fc_frame (cs ! i) = as_first_frame asm + of_nat i"
    "validate_commit (cs ! i) a = Inr ()" "advances l (as_first_frame asm + of_nat i) (cs ! i)"
    "fc_previous_hash (cs ! i) = hash_at h cs i" if "i < length cs" for i
    using assms(6) that assms(1,2) by (auto simp: corrected_def ledger_inv_def valid_store_def)
  have "distinct (map fc_frame cs)"
    unfolding distinct_conv_nth using c(2) at by (metis add_left_cancel length_map nth_map)
  note new = install_new [OF this] and other = install_other [of _ cs]
  have "if as_first_frame asm \<le> f \<and> f \<le> as_last_frame asm
        then install_all cs (map_of (lg_frame_commits l)) f = map_of (as_commits asm) f \<and>
             (\<exists>c. map_of (as_commits asm) f = Some c \<and> validate_commit c a = Inr () \<and> advances l f c \<and>
                (as_first_frame asm < f \<longrightarrow> map_option fc_commit_hash (map_of (as_commits asm) (f - 1)) = Some (fc_previous_hash c)))
        else install_all cs (map_of (lg_frame_commits l)) f = map_of (lg_frame_commits l) f" for f
  proof (cases "as_first_frame asm \<le> f \<and> f \<le> as_last_frame asm")
    case True
    define i where "i = unat f - unat (as_first_frame asm)"
    have i: "i < length cs" using True n unfolding i_def word_le_nat_alt by linarith
    have f: "f = as_first_frame asm + of_nat i"
      using at [OF i] True by (simp add: word_unat_eq_iff i_def word_le_nat_alt)
    have "map_option fc_commit_hash (map_of (as_commits asm) (f - 1)) = Some (fc_previous_hash (cs ! i))" if "as_first_frame asm < f"
    proof -
      have "0 < i" using that by (simp add: i_def word_less_nat_alt)
      moreover from this obtain k where "i = Suc k" by (cases i) auto
      moreover have "f - 1 = as_first_frame asm + of_nat (i - 1)" using f calculation by simp
      ultimately show ?thesis using c(1) [of "i - 1"] c(5) [OF i] i by (simp add: hash_at_def)
    qed
    then show ?thesis using c [OF i] new [of "cs ! i"] i True f by auto
  next
    case False
    have "f \<notin> fc_frame ` set cs"
    proof
      assume "f \<in> fc_frame ` set cs"
      then obtain i where "i < length cs" "f = fc_frame (cs ! i)" by (auto simp: in_set_conv_nth)
      then show False using False c(2) [of i] at [of i] n by (simp add: word_le_nat_alt)
    qed
    then show ?thesis using False other by auto
  qed
  then show ?thesis unfolding range_installed_def install_correction_simps map_of_install by blast
qed

lemma correction_atomic:
  assumes "ledger_inv a l" "lg_assembly l = Some asm" "as_first_frame asm \<le> as_last_frame asm"
    "apply_frame_correction a l = (r, sent, l2)"
  obtains (refused) e where "r = Inl e" "l2 = l" "sent = []"
  | (taken) m where "range_installed a asm l m" "lg_assembly m = None" "lg_applied_generation m = as_generation asm"
      "lg_next_commit_frame m = lg_next_commit_frame l" "lg_deferred m = lg_deferred l" "ledger_inv a m"
      "apply_deferred (due_deferred asm l) a m = (r, l2)"
      "sent = (case r of Inl _ \<Rightarrow> []
         | Inr _ \<Rightarrow> replicate 2 (correction_acknowledgement (as_generation asm) (lg_next_commit_frame l2) a))"
  using assms(4)
proof (cases rule: apply_frame_correction_cases)
  case (installed asm' cs h fs)
  have as: "asm' = asm" using installed(1) assms(2) by simp
  note in' = installed [unfolded as]
  have "\<forall>c \<in> set cs. validate_commit c a = Inr ()" using in'(5) by (auto simp: corrected_def in_set_conv_nth)
  note inv = install_correction_inv [OF assms(1) this, of asm]
  show ?thesis
    by (rule taken [OF install_correction_range [OF assms(1-3) in'(2,3,5)] _ _ _ _ inv])
      (use in' in \<open>simp_all add: install_correction_simps due_deferred_def\<close>)
qed (rule refused)

lemma correction_outcome:
  assumes "ledger_inv a l" "lg_assembly l = Some asm" "as_first_frame asm \<le> as_last_frame asm"
    "apply_frame_correction a l = (r, sent, l2)"
  defines "due \<equiv> set (due_deferred asm l)" and "now \<equiv> map_of (lg_frame_commits l2)"
  shows "if lg_assembly l2 \<noteq> None then l2 = l \<and> sent = [] \<and> isl r
    else lg_applied_generation l2 = as_generation asm \<and> lg_next_commit_frame l2 = lg_next_commit_frame l \<and>
      (\<forall>f. if as_first_frame asm \<le> f \<and> f \<le> as_last_frame asm
         then \<exists>c. map_of (as_commits asm) f = Some c \<and> validate_commit c a = Inr () \<and> advances l f c \<and>
           (as_first_frame asm < f \<longrightarrow> map_option fc_commit_hash (map_of (as_commits asm) (f - 1)) = Some (fc_previous_hash c)) \<and>
           at_least c (now f) \<and> (f \<notin> due \<longrightarrow> now f = Some c)
         else (f \<notin> due \<longrightarrow> now f = map_of (lg_frame_commits l) f) \<and>
           (\<forall>d. map_of (lg_frame_commits l) f = Some d \<longrightarrow> at_least d (now f))) \<and>
      (case r of
         Inr _ \<Rightarrow> sent = replicate 2 (correction_acknowledgement (as_generation asm) (lg_next_commit_frame l2) a) \<and>
           (\<forall>f \<in> due. case map_of (lg_deferred l) f of Some (g, c) \<Rightarrow> at_least c (now f) | None \<Rightarrow> True)
       | Inl e \<Rightarrow> sent = [] \<and> (\<exists>f \<in> due. \<exists>g c. map_of (lg_deferred l) f = Some (g, c) \<and> conflicting l2 c e))"
  using assms(1-4)
proof (cases rule: correction_atomic)
  case refused
  then show ?thesis using assms(2) by simp
next
  case (taken m)
  have out: "same_course m l2" "\<And>f. f \<notin> due \<Longrightarrow> now f = map_of (lg_frame_commits m) f"
    "\<And>f d. map_of (lg_frame_commits m) f = Some d \<Longrightarrow> at_least d (now f)"
    "case r of
       Inr _ \<Rightarrow> \<forall>f \<in> due. case map_of (lg_deferred l) f of Some (g, c) \<Rightarrow> at_least c (now f) | None \<Rightarrow> True
     | Inl e \<Rightarrow> \<exists>f \<in> due. \<exists>g c. map_of (lg_deferred l) f = Some (g, c) \<and> conflicting l2 c e"
    using apply_deferred_outcome [OF taken(6,7)] unfolding due_def now_def taken(5) by blast+
  have range: "if as_first_frame asm \<le> f \<and> f \<le> as_last_frame asm
         then \<exists>c. map_of (as_commits asm) f = Some c \<and> validate_commit c a = Inr () \<and> advances l f c \<and>
           (as_first_frame asm < f \<longrightarrow> map_option fc_commit_hash (map_of (as_commits asm) (f - 1)) = Some (fc_previous_hash c)) \<and>
           at_least c (now f) \<and> (f \<notin> due \<longrightarrow> now f = Some c)
         else (f \<notin> due \<longrightarrow> now f = map_of (lg_frame_commits l) f) \<and>
           (\<forall>d. map_of (lg_frame_commits l) f = Some d \<longrightarrow> at_least d (now f))" for f
  proof (cases "as_first_frame asm \<le> f \<and> f \<le> as_last_frame asm")
    case True
    obtain c where c: "map_of (lg_frame_commits m) f = Some c" "map_of (as_commits asm) f = Some c"
      "validate_commit c a = Inr ()" "advances l f c"
      "as_first_frame asm < f \<longrightarrow> map_option fc_commit_hash (map_of (as_commits asm) (f - 1)) = Some (fc_previous_hash c)"
      using taken(1) True unfolding range_installed_def by metis
    have "at_least c (now f)" "f \<notin> due \<longrightarrow> now f = Some c" using out(2,3) [of f] c(1) by auto
    then show ?thesis using True c by auto
  next
    case False
    then have "map_of (lg_frame_commits m) f = map_of (lg_frame_commits l) f"
      using taken(1) unfolding range_installed_def by meson
    then show ?thesis using False out(2,3) [of f] by auto
  qed
  have after: "lg_assembly l2 = None" "lg_applied_generation l2 = as_generation asm" "lg_next_commit_frame l2 = lg_next_commit_frame l"
    using out(1) taken(2-4) by (simp_all add: same_course_def)
  have result: "case r of
         Inr _ \<Rightarrow> sent = replicate 2 (correction_acknowledgement (as_generation asm) (lg_next_commit_frame l2) a) \<and>
           (\<forall>f \<in> due. case map_of (lg_deferred l) f of Some (g, c) \<Rightarrow> at_least c (now f) | None \<Rightarrow> True)
       | Inl e \<Rightarrow> sent = [] \<and> (\<exists>f \<in> due. \<exists>g c. map_of (lg_deferred l) f = Some (g, c) \<and> conflicting l2 c e)"
    using out(4) taken(8) by (cases r) simp_all
  have none: "\<not> lg_assembly l2 \<noteq> None" using after(1) by simp
  show ?thesis unfolding if_not_P [OF none] by (intro conjI allI after(2,3) range result)
qed

subsection \<open>Any sequence of packets and frames\<close>

datatype LedgerCall = ReceiveCommits bytes u32 | ConsumeFrame u32

fun ledger_perform :: "Authority \<Rightarrow> LedgerCall \<Rightarrow> Ledger \<Rightarrow> Ledger" where
  "ledger_perform a (ReceiveCommits payload header_frame) l = snd (snd (handle_frame_commit payload header_frame a l))"
| "ledger_perform a (ConsumeFrame frame) l = snd (consume_commit frame a l)"

interpretation ledger_run: invariant_run "ledger_inv a" "ledger_perform a"
proof
  show "ledger_inv a (ledger_perform a call l)" if "ledger_inv a l" for call l
    using that handle_frame_commit_inv consume_commit_inv by (cases call) (auto intro: prod_eqI, metis prod.collapse)
qed

end
