(* ===== verification/Input_Delivery.thy ===== *)
theory Input_Delivery
  imports Frame_Ledger
begin

section \<open>Delivery of inputs to Player 1\<close>

text \<open>
  Models the other direction of \<^verbatim>\<open>direct_session.cpp\<close>: a guest samples its controller for a
  future frame, keeps the samples in a sorted history, sends them in batches, repairs holes
  and forgets what Player 1 has acknowledged; Player 1 stores what arrives in its timeline and
  keeps, for every guest, the first frame whose input is missing.

  The binary search of \<^verbatim>\<open>std::lower_bound\<close> is the split of the sorted history at a frame.
  The time a sample was taken feeds statistics only and is left out, as are the statistics.
\<close>

subsection \<open>Data\<close>

record Delivery =
  dl_timeline :: InputTimeline
  dl_local_history :: "(u32 \<times> PackedInput) list"
  dl_local_input_metadata :: "(u32 \<times> u32) list"
  dl_received_input_revisions :: "(u32 \<times> u32) list list"
  dl_local_input_submitted_frame :: u32
  dl_local_input_submitted :: PackedInput
  dl_pending_local_submission_frame :: "u32 option"
  dl_host_input_accepted_frame :: u32
  dl_host_input_first_missing_frame :: u32
  dl_peer_input_first_missing_frame :: "u32 list"
  dl_simulation_progress_present :: "bool list"
  dl_simulation_completed_frame :: "u32 list"
  dl_native_completed_frame :: "u32 option"
  dl_host_backpressure_active :: bool

abbreviation frames_before :: "u32 \<Rightarrow> (u32 \<times> 'a) list \<Rightarrow> (u32 \<times> 'a) list" where
  "frames_before frame \<equiv> takeWhile (\<lambda>entry. fst entry < frame)"

abbreviation frames_from :: "u32 \<Rightarrow> (u32 \<times> 'a) list \<Rightarrow> (u32 \<times> 'a) list" where
  "frames_from frame \<equiv> dropWhile (\<lambda>entry. fst entry < frame)"

definition clear_input_history :: "Delivery \<Rightarrow> Delivery" where
  "clear_input_history d =
     d\<lparr>dl_local_history := [], dl_local_input_metadata := [],
       dl_received_input_revisions := map (\<lambda>_. []) (dl_received_input_revisions d)\<rparr>"

text \<open>\<^verbatim>\<open>first_frame + input_delay\<close> without wrapping round.\<close>

definition delayed :: "u32 \<Rightarrow> u8 \<Rightarrow> u32" where
  "delayed frame input_delay =
     (if frame > 0xFFFFFFFF - ucast input_delay then 0xFFFFFFFF else frame + ucast input_delay)"

definition reset_input_delivery_tracking :: "u32 \<Rightarrow> Authority \<Rightarrow> Delivery \<Rightarrow> Delivery" where
  "reset_input_delivery_tracking first_frame a d =
     (let first_authored_input = delayed first_frame (au_input_delay a) in
      d\<lparr>dl_host_input_accepted_frame := (if first_authored_input = 0 then 0 else first_authored_input - 1),
        dl_host_input_first_missing_frame := first_authored_input,
        dl_peer_input_first_missing_frame :=
          map (\<lambda>_. first_authored_input) (dl_peer_input_first_missing_frame d),
        dl_native_completed_frame := None, dl_host_backpressure_active := False\<rparr>)"

subsection \<open>Sampling\<close>

text \<open>The loop that keeps the host's history short drops entries from the front.\<close>

definition trim_history :: "nat \<Rightarrow> Delivery \<Rightarrow> Delivery" where
  "trim_history n d =
     d\<lparr>dl_local_history := drop n (dl_local_history d),
       dl_local_input_metadata := fold (\<lambda>entry. AList.delete (fst entry))
         (take n (dl_local_history d)) (dl_local_input_metadata d)\<rparr>"

definition store_local_input ::
  "u32 \<Rightarrow> PackedInput \<Rightarrow> bool \<Rightarrow> Authority \<Rightarrow> Ledger \<Rightarrow> Delivery \<Rightarrow> unit result \<times> Delivery" where
  "store_local_input frame input physical_sample a l d =
     (if physical_sample \<and>
         (au_is_host a \<and> frame < lg_next_commit_frame l \<or>
          \<not> au_is_host a \<and> lg_authoritative_inputs_valid l \<and> frame \<le> lg_authoritative_input_frame l)
      then (Inr (), d)
      else
        let older = frames_before frame (dl_local_history d);
            newer = frames_from frame (dl_local_history d);
            rev_no = (case map_of (dl_local_input_metadata d) frame of Some r \<Rightarrow> r | None \<Rightarrow> 1);
            d = d\<lparr>dl_local_input_metadata := AList.update frame rev_no (dl_local_input_metadata d)\<rparr>;
            stored = (\<lambda>d. let d = d\<lparr>dl_timeline := snd (set_local (au_local_slot a) frame input (dl_timeline d))\<rparr>
              in (Inr (), if au_is_host a then trim_history (length (dl_local_history d) - 256) d else d))
        in case newer of
             (found, current) # rest \<Rightarrow>
               if found = frame then
                 if current = input then (Inr (), d)
                 else if rev_no = 0xFFFFFFFF
                 then (Inl ''The input sample revision limit was exceeded.'', d)
                 else stored (d\<lparr>dl_local_history := older @ (frame, input) # rest,
                        dl_local_input_metadata := AList.update frame (rev_no + 1) (dl_local_input_metadata d)\<rparr>)
               else stored (d\<lparr>dl_local_history := older @ (frame, input) # newer\<rparr>)
           | [] \<Rightarrow> stored (d\<lparr>dl_local_history := older @ [(frame, input)]\<rparr>))"

subsection \<open>Batches\<close>

text \<open>The loop over the history; the batch so far is the accumulator.\<close>

fun collect_batch ::
  "u32 \<Rightarrow> u32 \<Rightarrow> (u32 \<times> u32) list \<Rightarrow> (u32 \<times> PackedInput) list \<Rightarrow> InputBatch \<Rightarrow> InputBatch" where
  "collect_batch oldest newest_frame metadata [] batch = batch"
| "collect_batch oldest newest_frame metadata ((frame, input) # history) batch =
     (if frame < oldest \<or> frame > newest_frame
      then collect_batch oldest newest_frame metadata history batch
      else
        let batch = (if ib_inputs batch = [] then batch\<lparr>ib_first_frame := frame\<rparr> else batch) in
        if unat frame \<noteq> unat (ib_first_frame batch) + length (ib_inputs batch)
        then collect_batch oldest newest_frame metadata history batch
        else
          let batch = batch\<lparr>ib_inputs := ib_inputs batch @ [input],
                ib_revisions := ib_revisions batch @
                  [case map_of metadata frame of Some r \<Rightarrow> r | None \<Rightarrow> 1]\<rparr>
          in if length (ib_inputs batch) = 64 then batch
             else collect_batch oldest newest_frame metadata history batch)"

definition empty_batch :: InputBatch where
  "empty_batch = \<lparr>ib_epoch = 0, ib_player_slot = 0, ib_first_frame = 0, ib_inputs = [],
     ib_simulation_progress_present = False, ib_simulation_scene_epoch = 0,
     ib_simulation_completed_frame = 0, ib_revisions = []\<rparr>"

definition make_local_history_batch ::
  "u32 \<Rightarrow> bool \<Rightarrow> u32 option \<Rightarrow> Authority \<Rightarrow> Delivery \<Rightarrow> InputBatch" where
  "make_local_history_batch newest_frame reliable_repair requested_first a d =
     (if au_is_host a \<or> dl_local_history d = [] then empty_batch
      else
        let slot = unat (au_local_slot a);
            batch = empty_batch\<lparr>ib_epoch := authority_epoch a, ib_player_slot := au_local_slot a\<rparr>;
            batch = (if slot < kMaximumPlayers \<and> dl_simulation_progress_present d ! slot
              then batch\<lparr>ib_simulation_progress_present := True,
                     ib_simulation_scene_epoch :=
                       (if au_authoritative_phase_active a \<and> au_authority_lifecycle a = LifecycleRacing
                        then au_scene_epoch a else 0),
                     ib_simulation_completed_frame := dl_simulation_completed_frame d ! slot\<rparr>
              else batch);
            rolling_oldest = (if newest_frame \<ge> 15 then newest_frame - 15 else 0);
            retained_oldest = fst (hd (dl_local_history d));
            requested_oldest = min (case requested_first of Some f \<Rightarrow> f
              | None \<Rightarrow> dl_host_input_first_missing_frame d) newest_frame;
            oldest = max retained_oldest (if reliable_repair then requested_oldest else rolling_oldest)
        in collect_batch oldest newest_frame (dl_local_input_metadata d) (dl_local_history d) batch)"

definition send_local_history ::
  "u32 \<Rightarrow> bool \<Rightarrow> u32 option \<Rightarrow> Authority \<Rightarrow> Delivery \<Rightarrow> Outgoing list" where
  "send_local_history newest_frame reliable_repair requested_first a d =
     (let batch = make_local_history_batch newest_frame reliable_repair requested_first a d;
          payload = encode_input_batch batch
      in if payload = [] then []
         else [ToHost (if reliable_repair then MsgInputRepair else MsgInput) payload (ib_first_frame batch)])"

subsection \<open>Repair and acknowledgement on a guest\<close>

definition handoff_suspended :: "Authority \<Rightarrow> bool" where
  "handoff_suspended a = (case au_gameplay_handoff a of Some h \<Rightarrow> gh_suspended h | None \<Rightarrow> False)"

definition ensure_local_input_for_repair ::
  "u32 \<Rightarrow> Authority \<Rightarrow> Ledger \<Rightarrow> Delivery \<Rightarrow> bool result \<times> Delivery" where
  "ensure_local_input_for_repair frame a l d =
     (if au_is_host a \<or> kMaximumPlayers \<le> unat (au_local_slot a) \<or> au_state a \<noteq> StateRunning \<or>
         handoff_suspended a
      then (Inr False, d)
      else
        let older = frames_before frame (dl_local_history d); newer = frames_from frame (dl_local_history d) in
        if newer \<noteq> [] \<and> fst (hd newer) = frame then (Inr True, d)
        else if frame > dl_local_input_submitted_frame d \<and> frame - dl_local_input_submitted_frame d > 64
        then (Inr False, d)
        else
          let held = (if older \<noteq> [] then snd (last older) else dl_local_input_submitted d) in
          case store_local_input frame held False a l d of
            (Inl e, d) \<Rightarrow> (Inl e, d)
          | (Inr _, d) \<Rightarrow>
              (Inr True, if frame > dl_local_input_submitted_frame d
                then d\<lparr>dl_local_input_submitted_frame := frame, dl_local_input_submitted := held,
                       dl_pending_local_submission_frame := Some frame\<rparr> else d))"

definition handle_input_repair_request ::
  "bytes \<Rightarrow> u32 \<Rightarrow> Authority \<Rightarrow> Ledger \<Rightarrow> Delivery \<Rightarrow> unit result \<times> Outgoing list \<times> Delivery" where
  "handle_input_repair_request payload header_frame a l d =
     (case decode_input_repair_request payload of Inl _ \<Rightarrow> (Inr (), [], d)
      | Inr request \<Rightarrow>
          if ir_player_slot request \<noteq> au_local_slot a \<or> ir_epoch request \<noteq> authority_epoch a \<or>
             ir_first_missing_frame request \<noteq> header_frame
          then (Inr (), [], d)
          else
            let d = d\<lparr>dl_host_input_first_missing_frame :=
                  max (dl_host_input_first_missing_frame d) (ir_first_missing_frame request)\<rparr>
            in if handoff_suspended a then (Inr (), [], d)
               else case ensure_local_input_for_repair (ir_first_missing_frame request) a l d of
                 (Inl e, d) \<Rightarrow> (Inl e, [], d)
               | (Inr ready, d) \<Rightarrow>
                   (Inr (), if ready then send_local_history (dl_local_input_submitted_frame d) True
                       (Some (ir_first_missing_frame request)) a d else [], d))"

text \<open>The loop that reclaims acknowledged samples, all but the newest 256.\<close>

fun reclaimable :: "u32 \<Rightarrow> (u32 \<times> PackedInput) list \<Rightarrow> nat" where
  "reclaimable first_missing [] = 0"
| "reclaimable first_missing (entry # history) =
     (if length (entry # history) > 256 \<and> fst entry < first_missing
      then Suc (reclaimable first_missing history) else 0)"

definition handle_input_ack :: "bytes \<Rightarrow> Authority \<Rightarrow> Delivery \<Rightarrow> Delivery" where
  "handle_input_ack payload a d =
     (case decode_input_acknowledge payload of Inl _ \<Rightarrow> d
      | Inr ack \<Rightarrow>
          let submitted = dl_local_input_submitted_frame d;
              maximum_acknowledge = (if submitted = 0xFFFFFFFF then submitted else submitted + 1)
          in if ia_player_slot ack \<noteq> au_local_slot a \<or> ia_epoch ack \<noteq> authority_epoch a \<or>
                ia_first_missing_frame ack > maximum_acknowledge
             then d
             else
               let d = d\<lparr>dl_host_input_accepted_frame :=
                     max (dl_host_input_accepted_frame d) (ia_newest_frame ack),
                   dl_host_input_first_missing_frame :=
                     max (dl_host_input_first_missing_frame d) (ia_first_missing_frame ack)\<rparr>
               in trim_history (reclaimable (dl_host_input_first_missing_frame d) (dl_local_history d)) d)"

subsection \<open>Player 1 receives inputs\<close>

definition record_simulation_progress ::
  "u8 \<Rightarrow> u32 \<Rightarrow> u32 \<Rightarrow> u32 \<Rightarrow> Authority \<Rightarrow> Ledger \<Rightarrow> Delivery \<Rightarrow> bool \<times> Delivery" where
  "record_simulation_progress player_slot progress_scene_epoch progress_input_epoch completed_frame a l d =
     (let slot = unat player_slot;
          gameplay_progress = (progress_scene_epoch \<noteq> 0);
          gameplay_timeline = (au_authoritative_phase_active a \<and>
            au_authority_lifecycle a = LifecycleRacing \<and> au_scene_epoch a \<noteq> 0 \<and>
            progress_scene_epoch = au_scene_epoch a);
          frontend_timeline = (\<not> au_authoritative_phase_active a \<and>
            (au_authority_lifecycle a = LifecycleInactive \<or> au_authority_lifecycle a = LifecyclePostRace) \<and>
            \<not> handoff_suspended a)
      in if \<not> au_is_host a \<or> kMaximumPlayers \<le> slot \<or> au_launch_descriptor a = None \<or>
            progress_input_epoch \<noteq> authority_epoch a \<or> completed_frame \<ge> lg_next_commit_frame l \<or>
            (if gameplay_progress then \<not> gameplay_timeline else \<not> frontend_timeline)
         then (False, d)
         else if dl_simulation_progress_present d ! slot \<and>
                 completed_frame < dl_simulation_completed_frame d ! slot
         then (False, d)
         else (True, d\<lparr>dl_simulation_completed_frame := (dl_simulation_completed_frame d)[slot := completed_frame],
                  dl_simulation_progress_present := (dl_simulation_progress_present d)[slot := True]\<rparr>))"

text \<open>Frames that are too far from the next one to be indexed in the ring.\<close>

definition out_of_reach :: "u32 \<Rightarrow> u32 \<Rightarrow> bool" where
  "out_of_reach next_frame frame \<longleftrightarrow>
     frame < next_frame \<and> next_frame - frame > 512 \<or> frame > next_frame \<and> frame - next_frame > 256"

text \<open>One sample of a batch: kept when its revision is newer than the last one accepted.\<close>

definition accept_sample :: "u8 \<Rightarrow> u32 \<Rightarrow> u32 \<Rightarrow> PackedInput \<Rightarrow> Ledger \<Rightarrow> Delivery \<Rightarrow> Delivery" where
  "accept_sample player_slot input_frame rev_no input l d =
     (if out_of_reach (lg_next_commit_frame l) input_frame then d
      else
        let slot = unat player_slot;
            revisions = dl_received_input_revisions d ! slot;
            accepted = (case map_of revisions input_frame of Some r \<Rightarrow> r | None \<Rightarrow> 0)
        in if rev_no \<le> accepted
           then d\<lparr>dl_received_input_revisions := (dl_received_input_revisions d)
                    [slot := AList.update input_frame accepted revisions]\<rparr>
           else d\<lparr>dl_received_input_revisions := (dl_received_input_revisions d)
                    [slot := AList.update input_frame rev_no revisions],
                  dl_timeline := snd (set_remote player_slot input_frame input (dl_timeline d))\<rparr>)"

definition accept_batch :: "u8 \<Rightarrow> InputBatch \<Rightarrow> Ledger \<Rightarrow> Delivery \<Rightarrow> Delivery" where
  "accept_batch player_slot batch l d =
     fold (\<lambda>index. accept_sample player_slot (ib_first_frame batch + of_nat index)
         (ib_revisions batch ! index) (ib_inputs batch ! index) l)
       [0..<length (ib_inputs batch)] d"

text \<open>The loop that advances the first missing frame; the ring holds no more frames than it has entries.\<close>

fun first_missing_from :: "nat \<Rightarrow> u8 \<Rightarrow> u32 \<Rightarrow> InputTimeline \<Rightarrow> u32" where
  "first_missing_from 0 slot frame timeline = frame"
| "first_missing_from (Suc n) slot frame timeline =
     (if slot_confirmed slot frame timeline \<and> frame \<noteq> 0xFFFFFFFF
      then first_missing_from n slot (frame + 1) timeline else frame)"

definition handle_input :: "u8 \<Rightarrow> bytes \<Rightarrow> Authority \<Rightarrow> Ledger \<Rightarrow> Delivery \<Rightarrow> Outgoing list \<times> Delivery" where
  "handle_input peer payload a l d =
     (case decode_input_batch payload of Inl _ \<Rightarrow> ([], d)
      | Inr batch \<Rightarrow>
          if ib_player_slot batch \<noteq> peer \<or> ib_epoch batch \<noteq> authority_epoch a then ([], d)
          else
            let newest = ib_first_frame batch + of_nat (length (ib_inputs batch) - 1);
                next_frame = lg_next_commit_frame l; slot = unat peer
            in if newest > next_frame \<and> newest - next_frame > 256 \<or>
                  newest < next_frame \<and> next_frame - newest > 512
               then ([], d)
               else
                 let d = (if ib_simulation_progress_present batch
                       then snd (record_simulation_progress peer (ib_simulation_scene_epoch batch)
                              (ib_epoch batch) (ib_simulation_completed_frame batch) a l d)
                       else d);
                     d = accept_batch peer batch l d;
                     d = d\<lparr>dl_received_input_revisions := (dl_received_input_revisions d)
                           [slot := filter (\<lambda>entry. \<not> (fst entry < next_frame \<and> next_frame - fst entry > 512))
                              (dl_received_input_revisions d ! slot)],
                         dl_host_input_accepted_frame := max (dl_host_input_accepted_frame d) newest\<rparr>;
                     first_missing = first_missing_from (length (tl_entries (dl_timeline d))) peer
                       (dl_peer_input_first_missing_frame d ! slot) (dl_timeline d);
                     d = d\<lparr>dl_peer_input_first_missing_frame :=
                           (dl_peer_input_first_missing_frame d)[slot := first_missing]\<rparr>
                 in ([ToPeer peer MsgInputAck (encode_input_acknowledge
                       \<lparr>ia_epoch = ib_epoch batch, ia_player_slot = peer, ia_newest_frame = newest,
                        ia_first_missing_frame = first_missing\<rparr>) newest], d))"

definition advertise_missing_inputs :: "u8 list \<Rightarrow> Authority \<Rightarrow> Delivery \<Rightarrow> Outgoing list" where
  "advertise_missing_inputs peers a d =
     (if \<not> au_is_host a \<or> au_state a \<noteq> StateRunning then []
      else concat (map (\<lambda>peer.
        if kMaximumPlayers \<le> unat peer then []
        else let first_missing = dl_peer_input_first_missing_frame d ! unat peer;
                 payload = encode_input_repair_request \<lparr>ir_epoch = authority_epoch a,
                   ir_player_slot = peer, ir_first_missing_frame = first_missing\<rparr>
             in if payload \<noteq> [] then [ToPeer peer MsgInputRepairRequest payload first_missing] else []) peers))"

definition request_missing_commit :: "u32 \<Rightarrow> Authority \<Rightarrow> Outgoing list" where
  "request_missing_commit frame a =
     (if au_is_host a \<or> au_state a \<noteq> StateRunning then []
      else let payload = encode_frame_commit_request \<lparr>fr_epoch = authority_epoch a,
                 fr_player_slot = au_local_slot a, fr_first_missing_frame = frame\<rparr>
           in if payload = [] then [] else replicate 2 (ToHost MsgFrameCommitRequest payload frame))"

text \<open>What a request for a missing commit leads to: nothing, history, a recovery or a failure.\<close>

datatype RepairOutcome = Ignored | Repaired "Outgoing list" | ScheduleRecovery u32 | RepairFailed string

definition handle_frame_commit_request ::
  "u8 \<Rightarrow> bytes \<Rightarrow> u32 \<Rightarrow> Authority \<Rightarrow> Ledger \<Rightarrow> RepairOutcome" where
  "handle_frame_commit_request peer payload header_frame a l =
     (let gameplay = (au_authoritative_phase_active a \<and> au_authority_lifecycle a = LifecycleRacing);
          frontend = (\<not> au_authoritative_phase_active a \<and>
            (au_authority_lifecycle a = LifecycleInactive \<or> au_authority_lifecycle a = LifecyclePostRace));
          sealed = (if au_authority_lifecycle a = LifecycleSealingFinish then au_finish_seal_frame a else None);
          next_frame = lg_next_commit_frame l;
          parked = (case au_gameplay_handoff a of Some h \<Rightarrow>
              if gh_suspended h \<and> \<not> gh_armed h then Some (gh_boundary_frame h) else None | None \<Rightarrow> None)
      in if \<not> gameplay \<and> \<not> frontend \<and> sealed = None \<or> au_launch_descriptor a = None then Ignored
         else case decode_frame_commit_request payload of Inl _ \<Rightarrow> Ignored
         | Inr request \<Rightarrow>
             let first_missing = fr_first_missing_frame request in
             if fr_epoch request \<noteq> authority_epoch a \<or> fr_player_slot request \<noteq> peer \<or>
                first_missing \<noteq> header_frame \<or> first_missing \<ge> next_frame \<or>
                (case sealed of Some seal \<Rightarrow> first_missing > seal | None \<Rightarrow> False) \<or>
                (case parked of Some boundary \<Rightarrow> first_missing \<ge> boundary | None \<Rightarrow> False)
             then Ignored
             else if lg_commit_history l = [] \<or> first_missing < fc_frame (hd (lg_commit_history l))
             then if gameplay then ScheduleRecovery first_missing
                  else RepairFailed (''Required menu input history is no longer available. The session '' @
                    ''cannot safely resume; leave and reconnect. Your separate saves are retained.'')
             else
               let repair_end = (case sealed of Some seal \<Rightarrow>
                       if seal < next_frame then seal + 1 else next_frame | None \<Rightarrow> next_frame);
                   repair_end = (case parked of Some boundary \<Rightarrow> min repair_end boundary | None \<Rightarrow> repair_end)
               in Repaired (send_commit_history_to_peer peer first_missing
                    (min 64 (unat (repair_end - first_missing))) a l))"

lemma handle_input_inv:
  assumes "handle_input peer payload a l d = (sent, e)" "timeline_inv (dl_timeline d)"
  shows "timeline_inv (dl_timeline e)"
proof -
  have sample: "timeline_inv (dl_timeline (accept_sample p f r i l d))" if "timeline_inv (dl_timeline d)" for p f r i d
    using that set_remote_inv [OF that] by (auto simp: accept_sample_def Let_def split: option.split)
  have "timeline_inv (dl_timeline (accept_batch p batch l d))" if "timeline_inv (dl_timeline d)" for p batch d
  proof -
    have "timeline_inv (dl_timeline (fold (\<lambda>index. accept_sample p (ib_first_frame batch + of_nat index)
        (ib_revisions batch ! index) (ib_inputs batch ! index) l) is d))" for "is"
      using that by (induction "is" arbitrary: d) (auto simp: sample)
    then show ?thesis by (simp add: accept_batch_def)
  qed
  moreover have "dl_timeline (snd (record_simulation_progress p s ie c a l d)) = dl_timeline d" for p s ie c
    by (simp add: record_simulation_progress_def Let_def)
  ultimately show ?thesis
    using assms unfolding handle_input_def Let_def by (auto split: sum.splits if_splits)
qed


subsection \<open>The first missing frame\<close>

lemma slot_confirmed_entry: "slot_confirmed slot f t \<Longrightarrow> te_frame (current_entry f t) = f"
  by (auto simp: slot_confirmed_def find_entry_def Let_def split: option.splits if_splits)

lemma first_missing_steps:
  "f \<le> first_missing_from n slot f t \<and>
   (\<forall>h. f \<le> h \<and> h < first_missing_from n slot f t \<longrightarrow> slot_confirmed slot h t) \<and>
   (slot_confirmed slot (first_missing_from n slot f t) t \<longrightarrow> first_missing_from n slot f t = 0xFFFFFFFF \<or>
      unat (first_missing_from n slot f t) = unat f + n)"
proof (induction n arbitrary: f)
  case (Suc n)
  show ?case
  proof (cases "slot_confirmed slot f t \<and> f \<noteq> 0xFFFFFFFF")
    case True
    then have "unat f \<noteq> unat (0xFFFFFFFF :: u32)" using word_unat_eq_iff by blast
    then have u: "unat (f + 1) = unat f + 1"
      using unat_small(3) [of f] unat_no_overflow(1) [of f 1] by simp
    have le: "f \<le> h \<longleftrightarrow> h = f \<or> f + 1 \<le> h" for h
      unfolding word_le_nat_alt word_unat_eq_iff u by auto
    show ?thesis using Suc.IH [of "f + 1"] True u by (auto simp: le)
  qed auto
qed auto

text \<open>
  The ring has one entry for a frame and the frame that follows a whole turn later, so that
  the search ends within one turn, and more fuel changes nothing.
\<close>

lemma first_missing_spec:
  fixes f h :: u32 and slot :: u8
  assumes "timeline_inv t" "length (tl_entries t) \<le> n"
  defines "g \<equiv> first_missing_from n slot f t"
  shows "f \<le> g" "f \<le> h \<Longrightarrow> h < g \<Longrightarrow> slot_confirmed slot h t"
    "\<not> slot_confirmed slot g t \<or> g = 0xFFFFFFFF"
proof -
  let ?L = "length (tl_entries t)"
  note s = first_missing_steps [of f n slot t, folded g_def]
  show "f \<le> g" "f \<le> h \<Longrightarrow> h < g \<Longrightarrow> slot_confirmed slot h t" using s by auto
  show "\<not> slot_confirmed slot g t \<or> g = 0xFFFFFFFF"
  proof (rule ccontr)
    assume n: "\<not> (\<not> slot_confirmed slot g t \<or> g = 0xFFFFFFFF)"
    then have u: "unat g = unat f + n" using s by auto
    have L: "0 < ?L" "?L < 2 ^ 32" using assms(1) by (auto simp: timeline_inv_def)
    define h where "h = g - of_nat ?L"
    have h: "unat h = unat g - ?L"
      using unat_sub [of "of_nat ?L" g] u assms(2) L by (simp add: h_def word_le_nat_alt unat_frame)
    have "unat h < unat g" "unat f \<le> unat h" using h u assms(2) L by linarith+
    then have "f \<le> h" "h < g" "entry_index h t = entry_index g t"
      using u assms(2) h by (auto simp: word_less_nat_alt word_le_nat_alt entry_index_def le_mod_geq)
    then have "te_frame (current_entry g t) = h"
      using s slot_confirmed_entry [of slot h t] by (auto simp: current_entry_def)
    then show False using n slot_confirmed_entry [of slot g t] \<open>h < g\<close> by auto
  qed
qed

lemma first_missing_fuel:
  assumes "timeline_inv t" "length (tl_entries t) \<le> n"
  shows "first_missing_from n slot f t = first_missing_from (length (tl_entries t)) slot f t"
proof -
  let ?a = "first_missing_from n slot f t" and ?b = "first_missing_from (length (tl_entries t)) slot f t"
  note a = first_missing_spec [OF assms, where slot = slot and f = f]
    and b = first_missing_spec [OF assms(1) order_refl, where slot = slot and f = f]
  have m: "x < y \<Longrightarrow> x \<noteq> (0xFFFFFFFF :: u32)" for x y using unat_small(3) [of y] by (auto simp: word_less_nat_alt)
  have "\<not> ?a < ?b" using a(1,3) b(2) [of ?a] m by blast
  moreover have "\<not> ?b < ?a" using b(1,3) a(2) [of ?b] m by blast
  ultimately show ?thesis by simp
qed

subsection \<open>The local history\<close>

definition history_inv :: "Delivery \<Rightarrow> bool" where
  "history_inv d \<longleftrightarrow> sorted_wrt (<) (map fst (dl_local_history d))"

lemma sorted_frames_split:
  fixes h :: "(u32 \<times> 'a) list"
  assumes "sorted_wrt (<) (map fst h)"
  shows "\<forall>e \<in> set (frames_before f h). fst e < f" "\<forall>e \<in> set (frames_from f h). f \<le> fst e"
proof -
  show "\<forall>e \<in> set (frames_before f h). fst e < f" by (auto dest: set_takeWhileD)
  show "\<forall>e \<in> set (frames_from f h). f \<le> fst e"
    using assms by (induction h) (auto simp: not_less)
qed

lemma trim_history_inv: "history_inv d \<Longrightarrow> history_inv (trim_history n d)"
  by (simp add: history_inv_def trim_history_def drop_map [symmetric] sorted_wrt_drop)

definition place_sample :: "u32 \<Rightarrow> 'a \<Rightarrow> (u32 \<times> 'a) list \<Rightarrow> (u32 \<times> 'a) list" where
  "place_sample f i h = frames_before f h @ (f, i) # filter (\<lambda>e. fst e \<noteq> f) (frames_from f h)"

lemma place_sample_sorted:
  assumes "sorted_wrt (<) (map fst h)"
  shows "sorted_wrt (<) (map fst (place_sample f i h))"
proof -
  have "sorted_wrt (<) (map fst (frames_before f h @ frames_from f h))" using assms by simp
  then have "sorted_wrt (<) (map fst (frames_before f h))" "sorted_wrt (<) (map fst (frames_from f h))"
    unfolding map_append sorted_wrt_append by auto
  moreover have "sorted_wrt (<) (map fst (filter P k))" if "sorted_wrt (<) (map fst k)" for P and k :: "(u32 \<times> 'a) list"
    using that by (induction k) auto
  moreover have "\<forall>x \<in> set (map fst (frames_before f h)). x < f"
    "\<forall>y \<in> set (map fst (filter (\<lambda>e. fst e \<noteq> f) (frames_from f h))). f < y"
    using sorted_frames_split [OF assms, of f] by auto
  ultimately show ?thesis
    unfolding place_sample_def map_append list.map sorted_wrt_append sorted_wrt.simps list.set fst_conv
    by (blast intro: less_trans)
qed

lemma map_of_place_sample:
  assumes "sorted_wrt (<) (map fst h)"
  shows "map_of (place_sample f i h) = (map_of h)(f \<mapsto> i)"
proof -
  have m: "map_of h = map_of (frames_from f h) ++ map_of (frames_before f h)"
    by (metis map_of_append takeWhile_dropWhile_id)
  have "map_of (filter (\<lambda>e. fst e \<noteq> f) k) = (map_of k)(f := None)" for k :: "(u32 \<times> 'a) list"
    by (induction k) auto
  moreover have "map_of (frames_before f h) f = None"
    using sorted_frames_split(1) [OF assms, of f] by (force simp: map_of_eq_None_iff)
  ultimately show ?thesis unfolding m by (intro ext) (auto simp: place_sample_def map_add_def split: option.split)
qed

text \<open>A sample is refused, is there already, or is put in its place.\<close>

lemma store_local_input_puts:
  assumes "history_inv d"
  shows "dl_local_history (snd (store_local_input f i p a l d)) = dl_local_history d \<or>
    (\<exists>n. dl_local_history (snd (store_local_input f i p a l d)) = drop n (place_sample f i (dl_local_history d)))"
proof -
  let ?h = "dl_local_history d"
  have s: "sorted_wrt (<) (map fst (frames_before f ?h @ frames_from f ?h))"
    using assms by (simp add: history_inv_def)
  have "\<forall>e \<in> set rest. fst e \<noteq> f" if "frames_from f ?h = (g, c) # rest" for g c rest
    using s sorted_frames_split(2) [OF assms [unfolded history_inv_def], of f] that by (auto simp: sorted_wrt_append)
  then have r': "place_sample f i ?h = frames_before f ?h @ (f, i) # (if g = f then rest else frames_from f ?h)"
    if "frames_from f ?h = (g, c) # rest" for g c rest
    using that by (auto simp: place_sample_def filter_id_conv)
  show ?thesis
  proof (cases "frames_from f ?h")
    case Nil
    then have r: "frames_before f ?h @ [(f, i)] = place_sample f i ?h" by (simp add: place_sample_def del: dropWhile_eq_Nil_conv)
    show ?thesis unfolding store_local_input_def Let_def Nil list.case r
      by (auto simp: trim_history_def intro: drop_0 [symmetric])
  next
    case (Cons e rest)
    obtain g c where e: "e = (g, c)" by fastforce
    have r: "frames_before f ?h @ (f, i) # rest = place_sample f i ?h" if "g = f"
      using r' [OF Cons [unfolded e]] that by simp
    have q: "frames_before f ?h @ (f, i) # (g, c) # rest = place_sample f i ?h" if "g \<noteq> f"
      using r' [OF Cons [unfolded e]] that Cons e by simp
    show ?thesis unfolding store_local_input_def Let_def Cons e list.case prod.case
      by (cases "g = f") (auto simp: r q trim_history_def intro: drop_0 [symmetric])
  qed
qed

lemma store_local_input_history:
  assumes "history_inv d"
  shows "history_inv (snd (store_local_input f i p a l d))"
  using store_local_input_puts [OF assms, of f i p a l] assms place_sample_sorted [of "dl_local_history d" f i]
  unfolding history_inv_def by (auto simp: drop_map [symmetric] intro: sorted_wrt_drop)

lemma ensure_local_input_history:
  "history_inv d \<Longrightarrow> history_inv (snd (ensure_local_input_for_repair f a l d))"
  using store_local_input_history [of d f _ False a l] unfolding ensure_local_input_for_repair_def Let_def
  by (auto simp: history_inv_def split: sum.split prod.split) (metis snd_conv)+

lemma handle_input_ack_history: "history_inv d \<Longrightarrow> history_inv (handle_input_ack payload a d)"
  unfolding handle_input_ack_def Let_def by (auto intro!: trim_history_inv [unfolded history_inv_def] simp: history_inv_def split: sum.split)

subsection \<open>Batches are slices of the history\<close>

definition sample_rev :: "(u32 \<times> u32) list \<Rightarrow> u32 \<Rightarrow> u32" where
  "sample_rev metadata f = (case map_of metadata f of Some r \<Rightarrow> r | None \<Rightarrow> 1)"

definition batch_slice :: "u32 \<Rightarrow> u32 \<Rightarrow> (u32 \<times> u32) list \<Rightarrow> (u32 \<times> PackedInput) list \<Rightarrow> InputBatch \<Rightarrow> bool" where
  "batch_slice oldest newest metadata h b \<longleftrightarrow>
     length (ib_revisions b) = length (ib_inputs b) \<and> length (ib_inputs b) \<le> 64 \<and>
     (\<forall>j < length (ib_inputs b). \<exists>g. unat g = unat (ib_first_frame b) + j \<and> (g, ib_inputs b ! j) \<in> set h \<and>
        oldest \<le> g \<and> g \<le> newest \<and> ib_revisions b ! j = sample_rev metadata g)"

lemma batch_slice_snoc:
  assumes "batch_slice oldest newest metadata h b" "length (ib_inputs b) < 64" "(g, i) \<in> set h"
    "oldest \<le> g" "g \<le> newest" "unat g = unat (ib_first_frame b) + length (ib_inputs b)"
  shows "batch_slice oldest newest metadata h (b\<lparr>ib_inputs := ib_inputs b @ [i], ib_revisions := ib_revisions b @ [sample_rev metadata g]\<rparr>)"
  using assms by (auto simp: batch_slice_def nth_append less_Suc_eq)

lemma collect_batch_slice:
  assumes "batch_slice oldest newest metadata h b" "length (ib_inputs b) < 64" "set k \<subseteq> set h"
  shows "batch_slice oldest newest metadata h (collect_batch oldest newest metadata k b)"
  using assms
proof (induction oldest newest metadata k b rule: collect_batch.induct)
  case (2 oldest newest metadata f i k b)
  define c where "c = (if ib_inputs b = [] then b\<lparr>ib_first_frame := f\<rparr> else b)"
  have c: "batch_slice oldest newest metadata h c" "ib_inputs c = ib_inputs b" "ib_revisions c = ib_revisions b"
    using "2.prems"(1) by (auto simp: c_def batch_slice_def)
  show ?case
  proof (cases "f < oldest \<or> f > newest")
    case True
    then show ?thesis using 2 by simp
  next
    case reach: False
    show ?thesis
    proof (cases "unat f = unat (ib_first_frame c) + length (ib_inputs c)")
      case False
      then show ?thesis using "2.IH"(2) [OF reach c_def False] c(1,2) "2.prems" reach
        by (simp add: c_def [symmetric] Let_def)
    next
      case True
      define e where "e = c\<lparr>ib_inputs := ib_inputs c @ [i], ib_revisions := ib_revisions c @ [sample_rev metadata f]\<rparr>"
      have e: "batch_slice oldest newest metadata h e"
        using batch_slice_snoc [OF c(1)] c(2) True reach "2.prems"(2,3) by (simp add: e_def not_less)
      have s: "collect_batch oldest newest metadata ((f, i) # k) b =
        (if length (ib_inputs e) = 64 then e else collect_batch oldest newest metadata k e)"
        using reach True by (simp add: c_def [symmetric] Let_def e_def sample_rev_def)
      show ?thesis
      proof (cases "length (ib_inputs e) = 64")
        case False
        then have "length (ib_inputs e) < 64" using e by (simp add: batch_slice_def)
        then show ?thesis
          using "2.IH"(3) [OF reach c_def] True e False "2.prems"(3) s by (simp add: e_def sample_rev_def)
      qed (use e s in simp)
    qed
  qed
qed simp

lemma make_batch_slice:
  assumes "history_inv d"
  defines "b n r q a \<equiv> make_local_history_batch n r q a d"
  shows "j < length (ib_inputs (b n r q a)) \<Longrightarrow> \<exists>f. unat f = unat (ib_first_frame (b n r q a)) + j \<and> f \<le> n \<and>
      map_of (dl_local_history d) f = Some (ib_inputs (b n r q a) ! j) \<and>
      ib_revisions (b n r q a) ! j = sample_rev (dl_local_input_metadata d) f"
    and "length (ib_revisions (b n r q a)) = length (ib_inputs (b n r q a)) \<and> length (ib_inputs (b n r q a)) \<le> 64"
proof -
  have "\<exists>oldest. batch_slice oldest n (dl_local_input_metadata d) (dl_local_history d) (b n r q a)"
  proof (cases "au_is_host a \<or> dl_local_history d = []")
    case True
    then show ?thesis by (simp add: b_def make_local_history_batch_def batch_slice_def empty_batch_def)
  next
    case False
    show ?thesis unfolding b_def make_local_history_batch_def Let_def if_not_P [OF False]
      by (rule exI, rule collect_batch_slice) (simp_all add: batch_slice_def empty_batch_def)
  qed
  then obtain oldest where s: "batch_slice oldest n (dl_local_input_metadata d) (dl_local_history d) (b n r q a)" by blast
  have "distinct (map fst (dl_local_history d))"
    using assms(1) by (simp add: history_inv_def strict_sorted_iff)
  then show "j < length (ib_inputs (b n r q a)) \<Longrightarrow> \<exists>f. unat f = unat (ib_first_frame (b n r q a)) + j \<and> f \<le> n \<and>
      map_of (dl_local_history d) f = Some (ib_inputs (b n r q a) ! j) \<and>
      ib_revisions (b n r q a) ! j = sample_rev (dl_local_input_metadata d) f"
    using s unfolding batch_slice_def by (metis map_of_is_SomeI)
  show "length (ib_revisions (b n r q a)) = length (ib_inputs (b n r q a)) \<and> length (ib_inputs (b n r q a)) \<le> 64"
    using s by (simp add: batch_slice_def)
qed

subsection \<open>Samples that reach Player 1\<close>

definition accepted_rev :: "u8 \<Rightarrow> u32 \<Rightarrow> Delivery \<Rightarrow> u32" where
  "accepted_rev slot f d = (case map_of (dl_received_input_revisions d ! unat slot) f of Some r \<Rightarrow> r | None \<Rightarrow> 0)"

definition host_delivery :: "Delivery \<Rightarrow> bool" where
  "host_delivery d \<longleftrightarrow> timeline_inv (dl_timeline d) \<and> length (dl_received_input_revisions d) = kMaximumPlayers"

lemma accept_sample_spec:
  fixes f g r :: u32 and i :: PackedInput and l :: Ledger
  assumes "host_delivery d" "unat slot < kMaximumPlayers"
  defines "e \<equiv> accept_sample slot f r i l d"
  shows "host_delivery e" "length (tl_entries (dl_timeline e)) = length (tl_entries (dl_timeline d))"
    "g \<noteq> f \<Longrightarrow> accepted_rev slot g e = accepted_rev slot g d"
    "\<not> out_of_reach (lg_next_commit_frame l) f \<Longrightarrow> accepted_rev slot f d < r \<Longrightarrow> arrived (unat slot) f (dl_timeline e) = Some i"
    "g \<noteq> f \<Longrightarrow> entry_index g (dl_timeline d) \<noteq> entry_index f (dl_timeline d) \<Longrightarrow>
       arrived s g (dl_timeline e) = arrived s g (dl_timeline d)"
proof -
  have t: "timeline_inv (dl_timeline d)" "unat slot < length (dl_received_input_revisions d)"
    using assms(1,2) by (auto simp: host_delivery_def)
  note find = set_remote_find [OF t(1) assms(2), of _ f i]
  have len: "length (tl_entries (snd (set_remote slot f i (dl_timeline d)))) = length (tl_entries (dl_timeline d))"
    by (simp add: set_remote_def Let_def)
  show "host_delivery e"
    using assms(1) set_remote_inv [OF t(1)] by (auto simp: e_def host_delivery_def accept_sample_def Let_def)
  show "length (tl_entries (dl_timeline e)) = length (tl_entries (dl_timeline d))"
    using len by (auto simp: e_def accept_sample_def Let_def)
  show "accepted_rev slot g e = accepted_rev slot g d" if "g \<noteq> f"
    using that t(2) by (auto simp: e_def accept_sample_def accepted_rev_def Let_def update_conv)
  show "arrived (unat slot) f (dl_timeline e) = Some i" if "\<not> out_of_reach (lg_next_commit_frame l) f" "accepted_rev slot f d < r"
    using that find [of f] assms(2) entry_or_new_ok [OF t(1), of f]
    by (simp add: e_def accept_sample_def accepted_rev_def Let_def arrived_def arrive_def entry_ok_def not_le [symmetric])
  show "arrived s g (dl_timeline e) = arrived s g (dl_timeline d)"
    if "g \<noteq> f" "entry_index g (dl_timeline d) \<noteq> entry_index f (dl_timeline d)"
    using that find [of g] by (simp add: e_def accept_sample_def Let_def arrived_def)
qed

lemma accept_batch_spec:
  assumes "host_delivery d" "unat slot < kMaximumPlayers"
    "unat (ib_first_frame b) + length (ib_inputs b) \<le> 2 ^ 32"
    "length (ib_inputs b) \<le> length (tl_entries (dl_timeline d))"
    "j < length (ib_inputs b)" "f = ib_first_frame b + of_nat j"
    "\<not> out_of_reach (lg_next_commit_frame l) f" "accepted_rev slot f d < ib_revisions b ! j"
  shows "arrived (unat slot) f (dl_timeline (accept_batch slot b l d)) = Some (ib_inputs b ! j)"
    and "host_delivery (accept_batch slot b l d)"
proof -
  define step where "step = (\<lambda>index. accept_sample slot (ib_first_frame b + of_nat index)
         (ib_revisions b ! index) (ib_inputs b ! index) l)"
  have at: "unat (ib_first_frame b + of_nat k) = unat (ib_first_frame b) + k" if "k < length (ib_inputs b)" for k
    using that assms(3) frame_offset [of "ib_first_frame b" k] by simp
  have inv: "host_delivery (fold step [0..<n] d) \<and>
      length (tl_entries (dl_timeline (fold step [0..<n] d))) = length (tl_entries (dl_timeline d)) \<and>
      (n \<le> j \<longrightarrow> accepted_rev slot f (fold step [0..<n] d) = accepted_rev slot f d) \<and>
      (j < n \<longrightarrow> arrived (unat slot) f (dl_timeline (fold step [0..<n] d)) = Some (ib_inputs b ! j))"
    if "n \<le> length (ib_inputs b)" for n
    using that
  proof (induction n)
    case (Suc n)
    let ?e = "fold step [0..<n] d" and ?g = "ib_first_frame b + of_nat n"
    have e: "host_delivery ?e" "length (tl_entries (dl_timeline ?e)) = length (tl_entries (dl_timeline d))"
      "n \<le> j \<Longrightarrow> accepted_rev slot f ?e = accepted_rev slot f d"
      "j < n \<Longrightarrow> arrived (unat slot) f (dl_timeline ?e) = Some (ib_inputs b ! j)" using Suc by auto
    note s = accept_sample_spec [where f = ?g and r = "ib_revisions b ! n" and i = "ib_inputs b ! n" and l = l, OF e(1) assms(2)]
    have u: "unat ?g = unat (ib_first_frame b) + n" "unat f = unat (ib_first_frame b) + j"
      using at [of n] at [OF assms(5)] Suc.prems assms(6) by auto
    have ne: "f \<noteq> ?g" if "n \<noteq> j" using u that by auto
    have ix: "entry_index f (dl_timeline ?e) \<noteq> entry_index ?g (dl_timeline ?e)" if "j < n"
      using mod_distinct [of "unat f" "unat ?g" "length (tl_entries (dl_timeline d))"] that u Suc.prems assms(4)
      by (simp add: entry_index_def e(2))
    show ?case
      using s(1,2) s(3) [where g = f] s(5) [where g = f and s = "unat slot"] s(4) ne ix e assms(6,7,8)
      by (cases "j < n"; cases "j = n") (auto simp: step_def)
  qed (use assms(1) in simp)
  show "arrived (unat slot) f (dl_timeline (accept_batch slot b l d)) = Some (ib_inputs b ! j)"
    "host_delivery (accept_batch slot b l d)"
    using inv [of "length (ib_inputs b)"] assms(5) by (auto simp: accept_batch_def step_def)
qed

lemma collect_batch_header:
  "ib_epoch (collect_batch o1 n m h b) = ib_epoch b" "ib_player_slot (collect_batch o1 n m h b) = ib_player_slot b"
  by (induction o1 n m h b rule: collect_batch.induct) (auto simp: Let_def)

lemma make_batch_header:
  assumes "ib_inputs (make_local_history_batch n r q a d) \<noteq> []"
  shows "ib_epoch (make_local_history_batch n r q a d) = authority_epoch a"
    "ib_player_slot (make_local_history_batch n r q a d) = au_local_slot a" "\<not> au_is_host a"
proof -
  have c: "\<not> (au_is_host a \<or> dl_local_history d = [])"
    using assms by (auto simp: make_local_history_batch_def empty_batch_def)
  show "ib_epoch (make_local_history_batch n r q a d) = authority_epoch a"
    "ib_player_slot (make_local_history_batch n r q a d) = au_local_slot a" "\<not> au_is_host a"
    using c unfolding make_local_history_batch_def Let_def if_not_P [OF c] by (simp_all add: collect_batch_header)
qed

lemma progress_delivery:
  "host_delivery (snd (record_simulation_progress s e i c a l d)) = host_delivery d"
  "accepted_rev slot f (snd (record_simulation_progress s e i c a l d)) = accepted_rev slot f d"
  "dl_timeline (snd (record_simulation_progress s e i c a l d)) = dl_timeline d"
  "dl_peer_input_first_missing_frame (snd (record_simulation_progress s e i c a l d)) = dl_peer_input_first_missing_frame d"
  by (auto simp: record_simulation_progress_def Let_def host_delivery_def accepted_rev_def)

lemma accept_batch_missing [simp]:
  "dl_peer_input_first_missing_frame (accept_batch slot b l d) = dl_peer_input_first_missing_frame d"
proof -
  have "dl_peer_input_first_missing_frame (fold (\<lambda>index. accept_sample slot (ib_first_frame b + of_nat index)
         (ib_revisions b ! index) (ib_inputs b ! index) l) is d) = dl_peer_input_first_missing_frame d" for "is"
    by (induction "is" arbitrary: d) (auto simp: accept_sample_def Let_def)
  then show ?thesis by (simp add: accept_batch_def)
qed

text \<open>What the handler does with a batch of the right racer and epoch that is in reach.\<close>

definition newest_frame :: "InputBatch \<Rightarrow> u32" where
  "newest_frame b = ib_first_frame b + of_nat (length (ib_inputs b) - 1)"

lemma handle_input_accepts:
  assumes "decode_input_batch payload = Inr b" "ib_player_slot b = peer" "ib_epoch b = authority_epoch a"
    "\<not> out_of_reach (lg_next_commit_frame l) (newest_frame b)" "handle_input peer payload a l d = (sent, e)"
  obtains d1 where "host_delivery d1 = host_delivery d" "\<And>f. accepted_rev peer f d1 = accepted_rev peer f d"
    "dl_timeline d1 = dl_timeline d" "dl_timeline e = dl_timeline (accept_batch peer b l d1)"
    "sent = [ToPeer peer MsgInputAck (encode_input_acknowledge \<lparr>ia_epoch = ib_epoch b, ia_player_slot = peer,
       ia_newest_frame = newest_frame b, ia_first_missing_frame = first_missing_from (length (tl_entries (dl_timeline e))) peer
         (dl_peer_input_first_missing_frame d ! unat peer) (dl_timeline e)\<rparr>) (newest_frame b)]"
proof -
  define d1 where "d1 = (if ib_simulation_progress_present b
       then snd (record_simulation_progress peer (ib_simulation_scene_epoch b)
              (ib_epoch b) (ib_simulation_completed_frame b) a l d) else d)"
  have "dl_peer_input_first_missing_frame d1 = dl_peer_input_first_missing_frame d" by (simp add: d1_def progress_delivery)
  moreover have "\<not> (newest_frame b > lg_next_commit_frame l \<and> newest_frame b - lg_next_commit_frame l > 256 \<or>
      newest_frame b < lg_next_commit_frame l \<and> lg_next_commit_frame l - newest_frame b > 512)"
    using assms(4) by (auto simp: out_of_reach_def)
  ultimately show ?thesis
    using that [of d1] assms(1,2,3,5) unfolding handle_input_def Let_def newest_frame_def [symmetric] d1_def [symmetric]
    by (auto simp: d1_def progress_delivery split: if_splits)
qed

text \<open>A sample goes from the history of a guest, over the wire, into the timeline of Player 1.\<close>

lemma batch_delivered:
  assumes "history_inv d" "b = make_local_history_batch n r q ga d" "encode_input_batch b \<noteq> []"
    "host_delivery hv" "64 \<le> length (tl_entries (dl_timeline hv))" "same_match ga ha"
    "\<not> out_of_reach (lg_next_commit_frame l) (newest_frame b)"
    "handle_input (au_local_slot ga) (encode_input_batch b) ha l hv = (sent, hw)"
    "unat (ib_first_frame b) \<le> unat f" "unat f < unat (ib_first_frame b) + length (ib_inputs b)"
    "\<not> out_of_reach (lg_next_commit_frame l) f"
    "accepted_rev (au_local_slot ga) f hv < sample_rev (dl_local_input_metadata d) f"
  shows "map_of (dl_local_history d) f \<noteq> None \<and>
    arrived (unat (au_local_slot ga)) f (dl_timeline hw) = map_of (dl_local_history d) f"
proof -
  let ?slot = "au_local_slot ga"
  have ne: "ib_inputs b \<noteq> []" "unat (ib_player_slot b) < kMaximumPlayers" "length (ib_inputs b) \<le> 64"
    "\<not> ib_first_frame b > u32_max - of_nat (length (ib_inputs b) - 1)"
    using assms(3) by (auto simp: encode_input_batch_def split: if_splits)
  note hdr = make_batch_header [OF ne(1) [unfolded assms(2)], folded assms(2)]
  note slice = make_batch_slice [OF assms(1), where n = n and r = r and q = q and a = ga, folded assms(2)]
  define j where "j = unat f - unat (ib_first_frame b)"
  have j: "j < length (ib_inputs b)" using assms(9,10) by (simp add: j_def)
  obtain g where g: "unat g = unat (ib_first_frame b) + j" "map_of (dl_local_history d) g = Some (ib_inputs b ! j)"
    "ib_revisions b ! j = sample_rev (dl_local_input_metadata d) g" using slice(1) [OF j] by blast
  have fg: "f = g" using g(1) assms(9) by (simp add: j_def word_unat_eq_iff)
  have jl: "length (ib_inputs b) - 1 < length (ib_inputs b)" using ne(1) by simp
  obtain z :: u32 where z: "unat z = unat (ib_first_frame b) + (length (ib_inputs b) - 1)" using slice(1) [OF jl] by blast
  have room: "unat (ib_first_frame b) + length (ib_inputs b) \<le> 2 ^ 32" using z unat_small(3) [of z] by simp
  have f: "f = ib_first_frame b + of_nat j"
    using frame_offset [of "ib_first_frame b" j] room j assms(9) by (simp add: word_unat_eq_iff j_def)
  let ?c = "canonical_batch b"
  have c: "decode_input_batch (encode_input_batch b) = Inr ?c" by (rule decode_encode_input_batch [OF assms(3)])
  have cs: "ib_inputs ?c = ib_inputs b" "ib_first_frame ?c = ib_first_frame b" "ib_player_slot ?c = ?slot"
    "ib_epoch ?c = authority_epoch ha" "ib_revisions ?c = ib_revisions b" "newest_frame ?c = newest_frame b"
    using hdr slice(2) ne(1) same_match_epoch [OF assms(6)]
    by (auto simp: canonical_batch_def batch_revisions_def newest_frame_def)
  obtain d1 where d1: "host_delivery d1" "\<And>f. accepted_rev ?slot f d1 = accepted_rev ?slot f hv"
    "dl_timeline d1 = dl_timeline hv" "dl_timeline hw = dl_timeline (accept_batch ?slot ?c l d1)"
    using handle_input_accepts [OF c cs(3,4) _ assms(8)] assms(4,7) cs(6) by metis
  have "arrived (unat ?slot) f (dl_timeline (accept_batch ?slot ?c l d1)) = Some (ib_inputs ?c ! j)"
    using accept_batch_spec(1) [OF d1(1), of ?slot ?c j f l] ne hdr room j f assms(5,11,12) d1 cs g(3) fg by auto
  then show ?thesis using d1(4) g(2) fg cs(1) by simp
qed

text \<open>The acknowledgement names the first frame from the old one on that is missing.\<close>

lemma acknowledged_first_missing:
  assumes "host_delivery d" "decode_input_batch payload = Inr b" "ib_player_slot b = peer" "ib_epoch b = authority_epoch a"
    "unat peer < kMaximumPlayers" "\<not> out_of_reach (lg_next_commit_frame l) (newest_frame b)"
    "handle_input peer payload a l d = (sent, e)"
  shows "\<exists>missing. sent = [ToPeer peer MsgInputAck (encode_input_acknowledge \<lparr>ia_epoch = authority_epoch a, ia_player_slot = peer,
       ia_newest_frame = newest_frame b, ia_first_missing_frame = missing\<rparr>) (newest_frame b)] \<and>
    dl_peer_input_first_missing_frame d ! unat peer \<le> missing \<and>
    (\<forall>f. dl_peer_input_first_missing_frame d ! unat peer \<le> f \<and> f < missing \<longrightarrow> arrived (unat peer) f (dl_timeline e) \<noteq> None) \<and>
    (arrived (unat peer) missing (dl_timeline e) = None \<or> missing = 0xFFFFFFFF)"
proof -
  obtain d1 where d1: "host_delivery d1" "dl_timeline e = dl_timeline (accept_batch peer b l d1)"
    "sent = [ToPeer peer MsgInputAck (encode_input_acknowledge \<lparr>ia_epoch = ib_epoch b, ia_player_slot = peer,
       ia_newest_frame = newest_frame b, ia_first_missing_frame = first_missing_from (length (tl_entries (dl_timeline e))) peer
         (dl_peer_input_first_missing_frame d ! unat peer) (dl_timeline e)\<rparr>) (newest_frame b)]"
    using handle_input_accepts [OF assms(2,3,4,6,7)] assms(1) by metis
  have "timeline_inv (dl_timeline e)" using handle_input_inv [OF assms(7)] assms(1) by (simp add: host_delivery_def)
  note m = first_missing_spec [where n = "length (tl_entries (dl_timeline e))" and f = "dl_peer_input_first_missing_frame d ! unat peer" and slot = peer, OF this order_refl]
    and c = slot_confirmed_arrived [OF this assms(5)]
  show ?thesis using d1(3) m c assms(4) by auto
qed

subsection \<open>Any sequence of samples, repairs and acknowledgements\<close>

datatype DeliveryCall =
    Sample u32 PackedInput bool Ledger
  | RepairRequest bytes u32 Ledger
  | Acknowledge bytes

fun delivery_perform :: "Authority \<Rightarrow> DeliveryCall \<Rightarrow> Delivery \<Rightarrow> Delivery" where
  "delivery_perform a (Sample frame input physical_sample l) d = snd (store_local_input frame input physical_sample a l d)"
| "delivery_perform a (RepairRequest payload header_frame l) d =
     snd (snd (handle_input_repair_request payload header_frame a l d))"
| "delivery_perform a (Acknowledge payload) d = handle_input_ack payload a d"

lemma handle_repair_history:
  assumes "history_inv d"
  shows "history_inv (snd (snd (handle_input_repair_request payload h a l d)))"
proof -
  have "history_inv (d\<lparr>dl_host_input_first_missing_frame := m\<rparr>)" for m using assms by (simp add: history_inv_def)
  then show ?thesis
    using assms ensure_local_input_history
    unfolding handle_input_repair_request_def Let_def by (auto split: sum.split prod.split) (metis snd_conv)+
qed

interpretation delivery_run: invariant_run history_inv "delivery_perform a"
proof
  show "history_inv (delivery_perform a call d)" if "history_inv d" for call d
    using that store_local_input_history handle_repair_history handle_input_ack_history by (cases call) auto
qed

end
