(* ===== verification/Input_Admission.thy ===== *)
theory Input_Admission
  imports Input_Delivery
begin

section \<open>Admission of a frame\<close>

text \<open>
  Models \<^verbatim>\<open>synchronize_inputs_result\<close> of \<^verbatim>\<open>direct_session.cpp\<close> as the simulation thread polls
  it, with a timeout of zero: a sample of the controller is submitted for a later frame, and
  the frame that is due is consumed if its commit is there, or can be published; otherwise
  the repair traffic is served and the call returns \<^verbatim>\<open>Pending\<close>.

  \<^item> \<open>Session\<close> puts together the parts of \<^verbatim>\<open>DirectSession\<close> the call touches.
  \<^item> The clock is read at the submission (\<open>sent_at\<close>) and at the wait (\<open>now\<close>), in nanoseconds;
    a time point that was never set is 0, as in the source.
  \<^item> A call that does not commit leaves the output \<^verbatim>\<open>inputs\<close> alone or clears it; here it is
    \<open>no_inputs\<close>, as no caller reads it then.
  \<^item> The blocking wait of a positive timeout, status lines, statistics and the replay
    recorder are left out.
\<close>

subsection \<open>Data\<close>

datatype InputSynchronizationResult = SyncPending | SyncCommitted | SyncAlreadyCommitted | SyncSuspended | SyncFailed

datatype SessionPollResult = PollPending | PollReady | PollFailed

record CommitWait =
  cw_frame :: "u32 option"
  cw_started :: int
  cw_last_commit_repair_request :: int
  cw_last_input_history_send :: int

record Session =
  ss_authority :: Authority
  ss_ledger :: Ledger
  ss_delivery :: Delivery
  ss_wait :: CommitWait
  ss_players :: "Player list"
  ss_failure :: string

definition milliseconds :: "int \<Rightarrow> int" where
  "milliseconds n = n * 1000000"

definition fail_locked :: "string \<Rightarrow> Session \<Rightarrow> Outgoing list \<times> Session" where
  "fail_locked message s =
     (if au_state (ss_authority s) = StateFailed then ([], s)
      else ([if au_is_host (ss_authority s) then Broadcast MsgDisconnect (map of_char message) 0
             else ToHost MsgDisconnect (map of_char message) 0],
            s\<lparr>ss_authority := (ss_authority s)\<lparr>au_state := StateFailed\<rparr>, ss_failure := message\<rparr>))"

definition reset_pending_commit_wait :: "Session \<Rightarrow> Session" where
  "reset_pending_commit_wait s =
     s\<lparr>ss_wait := (ss_wait s)\<lparr>cw_frame := None, cw_started := 0, cw_last_commit_repair_request := 0\<rparr>\<rparr>"

definition occupied_players :: "Session \<Rightarrow> u8" where
  "occupied_players s = of_nat (length (filter pl_occupied (ss_players s)))"

subsection \<open>Submission of the local sample\<close>

text \<open>The frame a sample is for: a guest follows the newest commit of Player 1.\<close>

definition authored_target :: "u32 \<Rightarrow> Authority \<Rightarrow> Ledger \<Rightarrow> u32" where
  "authored_target frame a l =
     (let target = delayed frame (au_input_delay a);
          newest = lg_authoritative_input_frame l
      in if \<not> au_is_host a \<and> au_launch_descriptor a \<noteq> None \<and> lg_authoritative_inputs_valid l
         then max target (delayed (if newest = 0xFFFFFFFF then newest else newest + 1) (au_input_delay a))
         else target)"

definition store_local :: "u32 \<Rightarrow> PackedInput \<Rightarrow> bool \<Rightarrow> Session \<Rightarrow> Outgoing list \<times> Session" where
  "store_local frame input physical_sample s =
     (case store_local_input frame input physical_sample (ss_authority s) (ss_ledger s) (ss_delivery s) of
        (Inl e, d) \<Rightarrow> fail_locked e (s\<lparr>ss_delivery := d\<rparr>)
      | (Inr _, d) \<Rightarrow> ([], s\<lparr>ss_delivery := d\<rparr>))"

text \<open>The first frame of the run that holds the last sample, when frames were skipped.\<close>

definition hold_first :: "u32 \<Rightarrow> Delivery \<Rightarrow> u32 option" where
  "hold_first target d =
     (if dl_local_history d \<noteq> [] \<and>
         dl_local_input_submitted_frame d < target - (if target > 0 then 1 else 0)
      then Some (max (dl_local_input_submitted_frame d + 1) (if target > 255 then target - 255 else 0))
      else None)"

fun hold_last :: "u32 list \<Rightarrow> PackedInput \<Rightarrow> Session \<Rightarrow> Outgoing list \<times> Session" where
  "hold_last [] held s = ([], s)"
| "hold_last (missing # rest) held s =
     (let (sent, s) = store_local missing held False s;
          (more, s) = hold_last rest held s
      in (sent @ more, s))"

definition frames_between :: "u32 \<Rightarrow> u32 \<Rightarrow> u32 list" where
  "frames_between first end = map of_nat [unat first..<unat end]"

text \<open>The frames before the first sample are played with neutral pads.\<close>

definition neutral_runway :: "u32 list \<Rightarrow> u8 \<Rightarrow> u8 \<Rightarrow> InputTimeline \<Rightarrow> InputTimeline" where
  "neutral_runway frames players local_slot timeline =
     fold (\<lambda>initial. fold (\<lambda>slot timeline.
         if slot = local_slot then snd (set_local slot initial no_input timeline)
         else snd (set_remote slot initial no_input timeline))
       (map of_nat [0..<unat players])) frames timeline"

definition submit_local :: "u32 \<Rightarrow> u32 \<Rightarrow> PackedInput \<Rightarrow> int \<Rightarrow> Session \<Rightarrow> Outgoing list \<times> Session" where
  "submit_local frame target local sent_at s =
     (let a = ss_authority s; d = ss_delivery s in
      if dl_pending_local_submission_frame d = Some target \<and> dl_local_input_submitted d = local
      then ([], s)
      else
        let first_held = hold_first target d;
            (held, s) = (case first_held of None \<Rightarrow> ([], s)
              | Some first \<Rightarrow> hold_last (frames_between first target) (dl_local_input_submitted d) s);
            (stored, s) = store_local target local True s;
            d = (ss_delivery s)\<lparr>dl_pending_local_submission_frame := Some target,
              dl_local_input_submitted_frame := target, dl_local_input_submitted := local\<rparr>;
            d = (if au_is_host a then d\<lparr>dl_host_input_accepted_frame := target\<rparr> else d);
            d = (if au_is_host a \<and> frame = 0
                 then d\<lparr>dl_timeline := neutral_runway (frames_between 0 (ucast (au_input_delay a)))
                        (occupied_players s) (au_local_slot a) (dl_timeline d)\<rparr>
                 else d)
        in (held @ stored @ send_local_history target False None a d @
              (case first_held of None \<Rightarrow> []
               | Some first \<Rightarrow> send_local_history target True (Some first) a d),
            s\<lparr>ss_delivery := d, ss_wait := (ss_wait s)\<lparr>cw_last_input_history_send := sent_at\<rparr>\<rparr>))"

subsection \<open>The wait\<close>

definition input_window_exhausted :: "u32 \<Rightarrow> Authority \<Rightarrow> Delivery \<Rightarrow> bool" where
  "input_window_exhausted frame a d =
     (case au_launch_descriptor a of None \<Rightarrow> False
      | Some descriptor \<Rightarrow>
          au_is_host a \<and> au_authoritative_phase_active a \<and> ld_synchronization descriptor = Rollback \<and>
          list_ex (\<lambda>slot.
            let missing = dl_peer_input_first_missing_frame d ! slot in
            slot \<noteq> unat (au_local_slot a) \<and> ld_occupied_mask descriptor AND slot_bit slot \<noteq> 0 \<and>
            frame \<ge> missing \<and> frame - missing \<ge> ucast (ld_rollback_window descriptor))
            [0..<kMaximumPlayers])"

definition session_synchronization :: "Authority \<Rightarrow> SynchronizationMode" where
  "session_synchronization a =
     (case au_launch_descriptor a of Some d \<Rightarrow> ld_synchronization d | None \<Rightarrow> Lockstep)"

definition awaiting_commit :: "u32 \<Rightarrow> Session \<Rightarrow> bool" where
  "awaiting_commit frame s =
     (let a = ss_authority s; d = ss_delivery s; occupied = expected_mask a;
          predict = host_may_predict_input (au_authoritative_phase_active a) (session_synchronization a)
      in (au_is_host a \<and> \<not> predict \<and> \<not> confirmed_mask frame occupied (dl_timeline d)) \<or>
         (au_is_host a \<and> predict \<and> au_authoritative_phase_active a \<and>
          (case au_launch_descriptor a of None \<Rightarrow> False
           | Some descriptor \<Rightarrow>
               unconfirmed_runway frame occupied (dl_timeline d) > ucast (ld_rollback_window descriptor) \<or>
               input_window_exhausted frame a d)) \<or>
         (\<not> au_is_host a \<and> map_of (lg_frame_commits (ss_ledger s)) frame = None))"

definition begin_wait :: "u32 \<Rightarrow> int \<Rightarrow> CommitWait \<Rightarrow> CommitWait" where
  "begin_wait frame now w =
     (if cw_frame w \<noteq> Some frame
      then w\<lparr>cw_frame := Some frame, cw_started := now, cw_last_commit_repair_request := 0\<rparr> else w)"

text \<open>\<open>peers\<close> are the active peers, by their slots.\<close>

definition service_pending_repair ::
  "u8 list \<Rightarrow> u32 \<Rightarrow> u32 \<Rightarrow> int \<Rightarrow> Session \<Rightarrow> Outgoing list \<times> CommitWait" where
  "service_pending_repair peers frame target now s =
     (let a = ss_authority s; l = ss_ledger s; d = ss_delivery s; w = ss_wait s;
          resend = (cw_last_input_history_send w = 0 \<or>
            now - cw_last_input_history_send w \<ge> milliseconds 100);
          histories = (if resend
            then send_local_history target False None a d @
                 (if \<not> au_is_host a \<and> dl_host_input_first_missing_frame d \<le> target
                  then send_local_history target True None a d else []) @
                 (if au_is_host a \<and> frame > 0 then send_commit_history (frame - 1) 8 a l else [])
            else []);
          w = (if resend then w\<lparr>cw_last_input_history_send := now\<rparr> else w);
          ask = (cw_last_commit_repair_request w = 0 \<or>
            now - cw_last_commit_repair_request w \<ge> milliseconds 50)
      in (histories @ (if \<not> ask then [] else if au_is_host a then advertise_missing_inputs peers a d
                       else request_missing_commit frame a),
          if ask then w\<lparr>cw_last_commit_repair_request := now\<rparr> else w))"

definition no_progress_text :: string where
  "no_progress_text = ''No authenticated input progress for 90 seconds. The connection could not '' @
     ''recover; leave the session and reconnect. Your separate saves are retained.''"

definition wait_for_commit ::
  "u8 list \<Rightarrow> u32 \<Rightarrow> u32 \<Rightarrow> int \<Rightarrow> Session \<Rightarrow> InputSynchronizationResult \<times> Outgoing list \<times> Session" where
  "wait_for_commit peers frame target now s =
     (let s = s\<lparr>ss_wait := begin_wait frame now (ss_wait s)\<rparr>;
          (repairs, w) = service_pending_repair peers frame target now s;
          s = s\<lparr>ss_wait := w\<rparr>
      in if now - cw_started w \<ge> seconds 90
         then let (sent, s) = fail_locked no_progress_text s in (SyncFailed, repairs @ sent, s)
         else (SyncPending, repairs, s))"

subsection \<open>The call\<close>

definition admission_parked :: "u32 \<Rightarrow> Authority \<Rightarrow> bool" where
  "admission_parked frame a \<longleftrightarrow>
     (case au_gameplay_handoff a of Some h \<Rightarrow> gh_suspended h \<and> frame \<ge> gh_local_suspend_frame h
      | None \<Rightarrow> False) \<or>
     (case au_recovery_frame a of Some recovery \<Rightarrow> \<not> au_recovery_resumed a \<and> frame > recovery
      | None \<Rightarrow> False)"

definition wrong_frame_text :: "u32 \<Rightarrow> u32 \<Rightarrow> string" where
  "wrong_frame_text frame next_frame =
     ''The local simulation requested frame '' @ frame_text frame @
     '' while Player 1's authoritative timeline expected frame '' @ frame_text next_frame @ ''.''"

definition no_inputs :: FrameInputs where
  "no_inputs = replicate kMaximumPlayers no_input"

text \<open>The frame is due and not waited for: Player 1 publishes it, everybody consumes it.\<close>

definition commit_frame ::
  "bool \<Rightarrow> u32 \<Rightarrow> Session \<Rightarrow> InputSynchronizationResult \<times> FrameInputs \<times> Outgoing list \<times> Session" where
  "commit_frame quick_join frame s =
     (let a = ss_authority s;
          (published, l, timeline) = (if au_is_host a
             then publish_commit quick_join frame a (ss_ledger s) (dl_timeline (ss_delivery s))
             else ([], ss_ledger s, dl_timeline (ss_delivery s)));
          s = s\<lparr>ss_ledger := l, ss_delivery := (ss_delivery s)\<lparr>dl_timeline := timeline\<rparr>\<rparr>
      in case consume_commit frame a l of
           (Inl e, l) \<Rightarrow> let (sent, s) = fail_locked e (s\<lparr>ss_ledger := l\<rparr>)
                        in (SyncFailed, no_inputs, published @ sent, s)
         | (Inr inputs, l) \<Rightarrow> (SyncCommitted, inputs, published,
             s\<lparr>ss_ledger := l,
               ss_delivery := (ss_delivery s)\<lparr>dl_pending_local_submission_frame := None\<rparr>\<rparr>))"

definition synchronize_inputs ::
  "u8 list \<Rightarrow> bool \<Rightarrow> u32 \<Rightarrow> PackedInput \<Rightarrow> int \<Rightarrow> int \<Rightarrow> Session \<Rightarrow>
   InputSynchronizationResult \<times> FrameInputs \<times> Outgoing list \<times> Session" where
  "synchronize_inputs peers quick_join frame local sent_at now s =
     (let a = ss_authority s; l = ss_ledger s in
      if au_state a \<noteq> StateRunning then (SyncFailed, no_inputs, [], s)
      else if admission_parked frame a then (SyncSuspended, no_inputs, [], s)
      else if frame \<noteq> lg_next_commit_frame l then
        if lg_next_commit_frame l > 0 \<and> frame = lg_next_commit_frame l - 1 \<and>
           lg_last_consumed_input_frame l = Some frame
        then (SyncAlreadyCommitted, lg_last_consumed_inputs l, [], s)
        else let (sent, s) = fail_locked (wrong_frame_text frame (lg_next_commit_frame l)) s
             in (SyncFailed, no_inputs, sent, s)
      else
        let target = authored_target frame a l;
            (submitted, s) = submit_local frame target local sent_at s
        in if awaiting_commit frame s
           then let (outcome, sent, s) = wait_for_commit peers frame target now s
                in (outcome, no_inputs, submitted @ sent, s)
           else
             let s = reset_pending_commit_wait s in
             if au_state (ss_authority s) \<noteq> StateRunning then (SyncFailed, no_inputs, submitted, s)
             else let (outcome, inputs, sent, s) = commit_frame quick_join frame s
                  in (outcome, inputs, submitted @ sent, s))"

subsection \<open>Fast forward\<close>

text \<open>The validation loop; a missing frame is \<open>Inl None\<close>, a broken chain \<open>Inl (Some error)\<close>.\<close>

fun fast_forward_chain ::
  "u32 list \<Rightarrow> FrameCommitPayload option \<Rightarrow> u64 \<Rightarrow> Authority \<Rightarrow> Ledger \<Rightarrow>
   (u32 \<times> string option) + FrameCommitPayload option" where
  "fast_forward_chain [] newest previous_hash a l = Inr newest"
| "fast_forward_chain (frame # frames) newest previous_hash a l =
     (case map_of (lg_frame_commits l) frame of None \<Rightarrow> Inl (frame, None)
      | Some found \<Rightarrow>
          (case validate_commit found a of Inl e \<Rightarrow> Inl (frame, Some e)
           | Inr _ \<Rightarrow>
               if fc_previous_hash found \<noteq> previous_hash
               then Inl (frame, Some (''Player 1's state fast-forward chain is discontinuous at frame '' @
                      frame_text frame @ ''.''))
               else fast_forward_chain frames (Some found) (fc_commit_hash found) a l))"

definition fast_forward_ledger :: "u32 \<Rightarrow> FrameCommitPayload \<Rightarrow> Ledger \<Rightarrow> Ledger" where
  "fast_forward_ledger next_frame newest l =
     l\<lparr>lg_last_consumed_commit_hash := fc_commit_hash newest,
       lg_last_consumed_input_frame := Some (next_frame - 1),
       lg_last_consumed_inputs := fc_inputs newest,
       lg_authoritative_input_revision := fc_revision newest,
       lg_authoritative_predicted_mask := fc_predicted_mask newest,
       lg_pending_input_correction := None,
       lg_next_commit_frame := next_frame,
       lg_frame_commits := (if next_frame > 128
         then filter (\<lambda>entry. \<not> fst entry < next_frame - 128) (lg_frame_commits l)
         else lg_frame_commits l)\<rparr>"

text \<open>
  \<open>barrier\<close> says that a gameplay or transition barrier is pending, \<open>installed\<close> that the
  installer, which a caller passes, has replaced the state of the simulation.
\<close>

definition install_fast_forward ::
  "u32 \<Rightarrow> bool \<Rightarrow> bool \<Rightarrow> Session \<Rightarrow> SessionPollResult \<times> string \<times> Outgoing list \<times> Session" where
  "install_fast_forward next_frame barrier installed s =
     (let a = ss_authority s; l = ss_ledger s in
      if au_is_host a \<or> au_state a \<noteq> StateRunning \<or> \<not> au_authoritative_phase_active a \<or>
         au_authority_lifecycle a \<noteq> LifecycleRacing \<or> session_synchronization a \<noteq> Rollback
      then (PollFailed, ''Only a running rollback guest can fast-forward to Player 1's state.'', [], s)
      else if au_gameplay_handoff a \<noteq> None \<or> barrier \<or> au_recovery_frame a \<noteq> None \<or>
              au_finish_seal_frame a \<noteq> None
      then (PollPending, [], [], s)
      else if next_frame < lg_next_commit_frame l
      then (PollFailed, ''The Player 1 state fast-forward boundary moved backwards.'', [], s)
      else case fast_forward_chain (frames_between (lg_next_commit_frame l) next_frame) None
             (lg_last_consumed_commit_hash l) a l of
          Inl (frame, None) \<Rightarrow> (PollPending, [], request_missing_commit frame a, s)
        | Inl (frame, Some e) \<Rightarrow> (PollFailed, e, [], s)
        | Inr None \<Rightarrow> (PollReady, [], [], s)
        | Inr (Some newest) \<Rightarrow>
            if \<not> installed then (PollPending, [], [], s)
            else (PollReady, [], [], s\<lparr>ss_ledger := fast_forward_ledger next_frame newest l,
              ss_delivery := (ss_delivery s)\<lparr>dl_pending_local_submission_frame := None,
                dl_native_completed_frame := Some (next_frame - 1)\<rparr>\<rparr>))"

end
