(* ===== verification/State_Transfer.thy ===== *)
theory State_Transfer
  imports Input_Admission State_Codec
begin

section \<open>Whole states in chunks\<close>

text \<open>
  Models how \<^verbatim>\<open>direct_session.cpp\<close> moves whole states of the simulation from Player 1 to the
  guests: a state is encoded, cut into chunks, sent, assembled, checked and decoded. There
  are two kinds of states: checkpoints (\<^verbatim>\<open>authoritative_states_\<close>), which everybody must have,
  and live replicas, whose frame carries a tag bit on the wire and of which the newest wins.

  \<^item> \<open>Transfer\<close> has the members of \<^verbatim>\<open>DirectSession\<close> that these operations change, and the
    gameplay barrier, which they read.
  \<^item> The outbound queue may refuse a message: \<open>takes n\<close> says whether it takes the n-th one of
    a call.
  \<^item> Peers are the slots of the active ones. Statistics, the flight recorder and the wake-up
    of waiting threads are left out.
\<close>

subsection \<open>Data\<close>

definition kMaximumAuthoritativeStateBytes :: nat where "kMaximumAuthoritativeStateBytes = 14336"
definition kAuthoritativeDeltaKeyframeInterval :: u32 where "kAuthoritativeDeltaKeyframeInterval = 30"
definition kLiveReplicaFrameTag :: u32 where "kLiveReplicaFrameTag = 0x80000000"

definition is_live_replica_frame :: "u32 \<Rightarrow> bool" where
  "is_live_replica_frame frame \<longleftrightarrow> frame AND kLiveReplicaFrameTag \<noteq> 0"

definition live_replica_wire_frame :: "u32 \<Rightarrow> u32" where
  "live_replica_wire_frame frame = frame OR kLiveReplicaFrameTag"

definition live_replica_logical_frame :: "u32 \<Rightarrow> u32" where
  "live_replica_logical_frame frame = frame AND NOT kLiveReplicaFrameTag"

definition authoritative_state_checksum :: "bytes \<Rightarrow> u64" where
  "authoritative_state_checksum snapshot =
     (let hash = foldl HashByte fnv_basis snapshot in if hash \<noteq> 0 then hash else 1)"

datatype RecoveryStage = StageIdle | StageScheduled | StageSnapshotReady | StageAwaitingResume | StageCompleted

record SnapshotAssembly =
  sn_scene_epoch :: u32
  sn_checksum :: u64
  sn_total_size :: u32
  sn_chunk_count :: u16
  sn_chunks :: "bytes list"
  sn_present :: "bool list"

record GameplayBarrierState =
  gb_scene_epoch :: u32
  gb_map :: u32
  gb_racer_count :: u32
  gb_ready :: "bool list"
  gb_armed :: "bool list"
  gb_epoch_synchronized :: bool
  gb_baseline_released :: bool
  gb_arm_announced :: bool
  gb_go_released :: bool

record CheckpointEncoding =
  ce_epoch :: u32
  ce_frame :: u32
  ce_source :: bytes
  ce_wire :: bytes

record Transfer =
  tf_authoritative_states :: "(u32 \<times> bytes) list"
  tf_authoritative_acknowledgements :: "(u32 \<times> bool list) list"
  tf_fully_acknowledged_states :: "u32 list"
  tf_snapshot_assemblies :: "(u32 \<times> SnapshotAssembly) list"
  tf_live_replica_states :: "(u32 \<times> bytes) list"
  tf_live_replica_assemblies :: "(u32 \<times> SnapshotAssembly) list"
  tf_live_replica_keyframe_frame :: "u32 option"
  tf_live_replica_keyframe_state :: bytes
  tf_checkpoint_encoding :: "CheckpointEncoding option"
  tf_last_authoritative_request_frame :: u32
  tf_last_authoritative_request :: int
  tf_last_live_replica_request_frame :: u32
  tf_last_live_replica_request :: int
  tf_recovery_stage :: RecoveryStage
  tf_gameplay_barrier :: "GameplayBarrierState option"

text \<open>What the sender asks of its transport.\<close>

record Transport =
  tp_quick_join :: bool
  tp_maximum_plaintext_datagram_bytes :: nat

subsection \<open>Sending a state\<close>

text \<open>
  The bytes that go on the wire: those of the last checkpoint if it is sent again, a delta to
  the keyframe if that is shorter, and otherwise the run-length code of the state.
\<close>

definition wire_state :: "bool \<Rightarrow> u32 \<Rightarrow> bytes \<Rightarrow> Authority \<Rightarrow> Transfer \<Rightarrow> bytes \<times> Transfer" where
  "wire_state live_replica frame state a t =
     (let cached = (case tf_checkpoint_encoding t of None \<Rightarrow> []
            | Some e \<Rightarrow> if \<not> live_replica \<and> ce_epoch e = au_scene_epoch a \<and> ce_frame e = frame \<and>
                          ce_source e = state then ce_wire e else []);
          wire = (case tf_live_replica_keyframe_frame t of None \<Rightarrow> cached
            | Some keyframe \<Rightarrow>
                if live_replica \<and> keyframe < frame \<and> tf_live_replica_keyframe_state t \<noteq> []
                then encode_authoritative_state_delta_wire state (tf_live_replica_keyframe_state t) keyframe
                else cached)
      in if wire \<noteq> [] then (wire, t)
         else
           let wire = encode_authoritative_state_wire state
           in (wire, if \<not> live_replica \<and> wire \<noteq> []
                then t\<lparr>tf_checkpoint_encoding := Some \<lparr>ce_epoch = au_scene_epoch a, ce_frame = frame,
                       ce_source = state, ce_wire = wire\<rparr>\<rparr>
                else t))"

definition chunk_size :: "Transport \<Rightarrow> nat" where
  "chunk_size transport =
     (if tp_quick_join transport
      then min kMaximumAuthoritativeStateBytes (tp_maximum_plaintext_datagram_bytes transport - 56)
      else 900)"

definition state_chunk :: "u32 \<Rightarrow> nat \<Rightarrow> nat \<Rightarrow> bytes \<Rightarrow> Authority \<Rightarrow> nat \<Rightarrow> StateSnapshotChunk" where
  "state_chunk wire_frame chunk_bytes count wire a index =
     \<lparr>sc_scene_epoch = au_scene_epoch a, sc_frame = wire_frame,
      sc_checksum = authoritative_state_checksum wire, sc_total_size = of_nat (length wire),
      sc_chunk_index = of_nat index, sc_chunk_count = of_nat count,
      sc_bytes = take chunk_bytes (drop (index * chunk_bytes) wire)\<rparr>"

text \<open>The peers one chunk goes to: the one that asked, or all that have not acknowledged.\<close>

definition chunk_peers :: "u8 option \<Rightarrow> u8 list \<Rightarrow> bool \<Rightarrow> u32 \<Rightarrow> Transfer \<Rightarrow> u8 list" where
  "chunk_peers destination peers live_replica frame t =
     (case destination of Some peer \<Rightarrow> [peer]
      | None \<Rightarrow> filter (\<lambda>peer. live_replica \<or>
          (case map_of (tf_authoritative_acknowledgements t) frame of
             Some acknowledged \<Rightarrow> \<not> acknowledged ! unat peer | None \<Rightarrow> True)) peers)"

text \<open>The messages in their order; \<open>None\<close> is a chunk the encoder refuses.\<close>

fun send_in_order :: "(nat \<Rightarrow> bool) \<Rightarrow> Outgoing option list \<Rightarrow> bool \<times> Outgoing list" where
  "send_in_order takes [] = (True, [])"
| "send_in_order takes (None # messages) = (False, [])"
| "send_in_order takes (Some message # messages) =
     (if takes 0
      then let (queued, sent) = send_in_order (takes \<circ> Suc) messages in (queued, message # sent)
      else (False, []))"

definition send_authoritative_state ::
  "(nat \<Rightarrow> bool) \<Rightarrow> Transport \<Rightarrow> u8 list \<Rightarrow> u8 option \<Rightarrow> u32 \<Rightarrow> bytes \<Rightarrow> u16 \<Rightarrow> MessageType \<Rightarrow> bool \<Rightarrow>
   Authority \<Rightarrow> Transfer \<Rightarrow> bool \<times> Outgoing list \<times> Transfer" where
  "send_authoritative_state takes transport peers destination frame state requested_chunks message_type
     live_replica a t =
     (if \<not> au_is_host a \<or> state = [] \<or> length state > kMaximumAuthoritativeStateBytes \<or>
         tp_maximum_plaintext_datagram_bytes transport \<le> 56
      then (False, [], t)
      else
        let chunk_bytes = chunk_size transport;
            (wire, t) = wire_state live_replica frame state a t;
            count = (length wire + chunk_bytes - 1) div chunk_bytes
        in if wire = [] \<or> length wire > kMaximumAuthoritativeStateBytes \<or> count = 0 \<or> count > 16
           then (False, [], t)
           else
             let wire_frame = (if live_replica then live_replica_wire_frame frame else frame);
                 messages = concat (map (\<lambda>index.
                   let payload = encode_state_snapshot_chunk (state_chunk wire_frame chunk_bytes count wire a index)
                         (tp_maximum_plaintext_datagram_bytes transport)
                   in if payload = [] then [None]
                      else map (\<lambda>peer. Some (ToPeer peer message_type payload wire_frame))
                             (chunk_peers destination peers live_replica frame t))
                   (filter (bit requested_chunks) [0..<count]));
                 (queued, sent) = send_in_order takes messages
             in (queued, sent, t))"

subsection \<open>Receiving a chunk\<close>

text \<open>Frames a guest takes chunks for.\<close>

definition gameplay_bootstrap :: "bool \<Rightarrow> u32 \<Rightarrow> Authority \<Rightarrow> Transfer \<Rightarrow> bool" where
  "gameplay_bootstrap live_replica logical_frame a t \<longleftrightarrow>
     au_authority_lifecycle a = LifecycleRacing \<and>
     (case tf_gameplay_barrier t of None \<Rightarrow> False
      | Some barrier \<Rightarrow> gb_scene_epoch barrier = au_scene_epoch a \<and> gb_baseline_released barrier \<and>
          \<not> gb_arm_announced barrier) \<and>
     logical_frame = 0 \<and> \<not> live_replica"

definition recovery_checkpoint :: "bool \<Rightarrow> u32 \<Rightarrow> Authority \<Rightarrow> bool" where
  "recovery_checkpoint live_replica logical_frame a \<longleftrightarrow>
     au_recovery_frame a = Some logical_frame \<and> \<not> live_replica"

definition snapshot_admitted :: "bool \<Rightarrow> u32 \<Rightarrow> Authority \<Rightarrow> Ledger \<Rightarrow> Transfer \<Rightarrow> bool" where
  "snapshot_admitted live_replica logical_frame a l t \<longleftrightarrow>
     (let next_frame = lg_next_commit_frame l in
      if live_replica then live_replica_within_recovery_window next_frame logical_frame
      else
        \<not> (case au_recovery_frame a of Some recovery \<Rightarrow> logical_frame > recovery | None \<Rightarrow> False) \<and>
        (gameplay_bootstrap live_replica logical_frame a t \<or> recovery_checkpoint live_replica logical_frame a \<or>
         \<not> (logical_frame > next_frame + (ucast (au_input_delay a) + 2) \<or>
            next_frame > 64 \<and> logical_frame < next_frame - 64)))"

text \<open>At most 16 assemblies: a new one replaces the oldest.\<close>

definition make_room :: "u32 \<Rightarrow> (u32 \<times> SnapshotAssembly) list \<Rightarrow> (u32 \<times> SnapshotAssembly) list" where
  "make_room logical_frame assemblies =
     (if map_of assemblies logical_frame = None \<and> length assemblies \<ge> 16
      then AList.delete (Min (set (map fst assemblies))) assemblies else assemblies)"

definition fresh_assembly :: "StateSnapshotChunk \<Rightarrow> SnapshotAssembly" where
  "fresh_assembly chunk =
     \<lparr>sn_scene_epoch = sc_scene_epoch chunk, sn_checksum = sc_checksum chunk,
      sn_total_size = sc_total_size chunk, sn_chunk_count = sc_chunk_count chunk,
      sn_chunks = replicate (unat (sc_chunk_count chunk)) [],
      sn_present = replicate (unat (sc_chunk_count chunk)) False\<rparr>"

definition same_snapshot :: "SnapshotAssembly \<Rightarrow> StateSnapshotChunk \<Rightarrow> bool" where
  "same_snapshot assembly chunk \<longleftrightarrow>
     sn_scene_epoch assembly = sc_scene_epoch chunk \<and> sn_checksum assembly = sc_checksum chunk \<and>
     sn_total_size assembly = sc_total_size chunk \<and> sn_chunk_count assembly = sc_chunk_count chunk"

definition place_chunk :: "StateSnapshotChunk \<Rightarrow> SnapshotAssembly \<Rightarrow> SnapshotAssembly" where
  "place_chunk chunk assembly =
     (let index = unat (sc_chunk_index chunk) in
      if \<not> sn_present assembly ! index
      then assembly\<lparr>sn_chunks := (sn_chunks assembly)[index := sc_bytes chunk],
             sn_present := (sn_present assembly)[index := True]\<rparr>
      else assembly)"

text \<open>The maps a chunk belongs to.\<close>

definition assemblies :: "bool \<Rightarrow> Transfer \<Rightarrow> (u32 \<times> SnapshotAssembly) list" where
  "assemblies live_replica t = (if live_replica then tf_live_replica_assemblies t else tf_snapshot_assemblies t)"

definition set_assemblies :: "bool \<Rightarrow> (u32 \<times> SnapshotAssembly) list \<Rightarrow> Transfer \<Rightarrow> Transfer" where
  "set_assemblies live_replica entries t =
     (if live_replica then t\<lparr>tf_live_replica_assemblies := entries\<rparr>
      else t\<lparr>tf_snapshot_assemblies := entries\<rparr>)"

definition completed_states :: "bool \<Rightarrow> Transfer \<Rightarrow> (u32 \<times> bytes) list" where
  "completed_states live_replica t =
     (if live_replica then tf_live_replica_states t else tf_authoritative_states t)"

definition set_completed_states :: "bool \<Rightarrow> (u32 \<times> bytes) list \<Rightarrow> Transfer \<Rightarrow> Transfer" where
  "set_completed_states live_replica entries t =
     (if live_replica then t\<lparr>tf_live_replica_states := entries\<rparr>
      else t\<lparr>tf_authoritative_states := entries\<rparr>)"

definition decode_snapshot :: "bytes \<Rightarrow> Transfer \<Rightarrow> bytes option" where
  "decode_snapshot wire t =
     (if authoritative_state_wire_is_delta wire
      then case tf_live_replica_keyframe_frame t of None \<Rightarrow> None
           | Some keyframe \<Rightarrow>
               (case decode_authoritative_state_delta_wire wire (tf_live_replica_keyframe_state t) keyframe
                       kMaximumAuthoritativeStateBytes of Inl _ \<Rightarrow> None | Inr state \<Rightarrow> Some state)
      else (case decode_authoritative_state_wire wire kMaximumAuthoritativeStateBytes of
              Inl _ \<Rightarrow> None | Inr state \<Rightarrow> Some state))"

definition retained :: "bool \<Rightarrow> u32 \<Rightarrow> (u32 \<times> 'a) list \<Rightarrow> (u32 \<times> 'a) list" where
  "retained live_replica logical_frame entries =
     (let retention = (if live_replica then kLiveReplicaRecoveryHistoryFrames else 64) in
      if logical_frame > retention
      then filter (\<lambda>entry. \<not> fst entry < logical_frame - retention) entries else entries)"

text \<open>A state is complete: it becomes the keyframe if it is due, and older entries retire.\<close>

definition finish_snapshot :: "bool \<Rightarrow> u32 \<Rightarrow> bool \<Rightarrow> bytes \<Rightarrow> Authority \<Rightarrow> Transfer \<Rightarrow> Transfer" where
  "finish_snapshot live_replica logical_frame delta_wire state a t =
     (let t = (if live_replica \<and> \<not> delta_wire \<and> logical_frame mod kAuthoritativeDeltaKeyframeInterval = 0 \<and>
             (case tf_live_replica_keyframe_frame t of None \<Rightarrow> True | Some keyframe \<Rightarrow> logical_frame \<ge> keyframe)
           then t\<lparr>tf_live_replica_keyframe_frame := Some logical_frame, tf_live_replica_keyframe_state := state\<rparr>
           else t);
          t = (if recovery_checkpoint live_replica logical_frame a
               then t\<lparr>tf_recovery_stage := StageSnapshotReady\<rparr> else t)
      in set_completed_states live_replica (retained live_replica logical_frame
             (AList.update logical_frame state (completed_states live_replica t)))
           (set_assemblies live_replica (retained live_replica logical_frame
             (AList.delete logical_frame (assemblies live_replica t))) t))"

definition receive_chunk ::
  "bool \<Rightarrow> u32 \<Rightarrow> StateSnapshotChunk \<Rightarrow> Authority \<Rightarrow> Transfer \<Rightarrow> unit result \<times> Transfer" where
  "receive_chunk live_replica logical_frame chunk a t =
     (let entries = make_room logical_frame (assemblies live_replica t);
          assembly = (case map_of entries logical_frame of
              Some assembly \<Rightarrow> if sn_chunk_count assembly = 0 then fresh_assembly chunk else assembly
            | None \<Rightarrow> fresh_assembly chunk);
          kept = (\<lambda>assembly. set_assemblies live_replica (AList.update logical_frame assembly entries) t);
          dropped = set_assemblies live_replica (AList.delete logical_frame entries) t
      in if \<not> same_snapshot assembly chunk \<and> \<not> live_replica
         then (Inl ''Player 1 sent conflicting authoritative snapshot metadata.'', kept assembly)
         else
           let assembly = place_chunk chunk (if same_snapshot assembly chunk then assembly
                 else fresh_assembly chunk)
           in if \<not> list_all id (sn_present assembly) then (Inr (), kept assembly)
              else
                let complete = concat (sn_chunks assembly) in
                if length complete \<noteq> unat (sn_total_size assembly) \<or>
                   authoritative_state_checksum complete \<noteq> sn_checksum assembly
                then if live_replica then (Inr (), dropped)
                     else (Inl ''Player 1's authoritative snapshot failed its checksum.'', kept assembly)
                else case decode_snapshot complete t of
                    None \<Rightarrow> if live_replica then (Inr (), dropped)
                      else (Inl ''Player 1's authoritative snapshot compression is invalid.'', kept assembly)
                  | Some state \<Rightarrow> (Inr (), finish_snapshot live_replica logical_frame
                      (authoritative_state_wire_is_delta complete) state a (kept assembly)))"

text \<open>The branch of \<^verbatim>\<open>handle_client_packet\<close> for a snapshot of either kind.\<close>

definition handle_snapshot ::
  "MessageType \<Rightarrow> bytes \<Rightarrow> Authority \<Rightarrow> Ledger \<Rightarrow> Transfer \<Rightarrow> unit result \<times> Transfer" where
  "handle_snapshot message_type payload a l t =
     (if \<not> au_authoritative_phase_active a then (Inr (), t)
      else case decode_state_snapshot_chunk payload of Inl _ \<Rightarrow> (Inr (), t)
      | Inr chunk \<Rightarrow>
          let live_replica = is_live_replica_frame (sc_frame chunk);
              logical_frame = (if live_replica then live_replica_logical_frame (sc_frame chunk) else sc_frame chunk)
          in if sc_scene_epoch chunk \<noteq> au_scene_epoch a \<or>
                message_type = MsgLiveReplicaSnapshot \<and> \<not> live_replica \<or>
                \<not> snapshot_admitted live_replica logical_frame a l t
             then (Inr (), t)
             else receive_chunk live_replica logical_frame chunk a t)"

subsection \<open>Player 1 answers and publishes\<close>

text \<open>The branch of \<^verbatim>\<open>handle_host_packet\<close> for a request for the missing chunks of a state.\<close>

definition handle_state_request ::
  "(nat \<Rightarrow> bool) \<Rightarrow> Transport \<Rightarrow> u8 list \<Rightarrow> u8 \<Rightarrow> bytes \<Rightarrow> Authority \<Rightarrow> Transfer \<Rightarrow> Outgoing list \<times> Transfer" where
  "handle_state_request takes transport peers peer payload a t =
     (if \<not> au_authoritative_phase_active a then ([], t)
      else case decode_state_request payload of Inl _ \<Rightarrow> ([], t)
      | Inr request \<Rightarrow>
          if sr_scene_epoch request \<noteq> au_scene_epoch a then ([], t)
          else if is_live_replica_frame (sr_frame request) then
            let logical_frame = live_replica_logical_frame (sr_frame request)
            in case map_of (tf_live_replica_states t) logical_frame of None \<Rightarrow> ([], t)
               | Some state \<Rightarrow> snd (send_authoritative_state takes transport peers (Some peer) logical_frame state
                   (sr_missing_chunks request) MsgStateSnapshot True a t)
          else case map_of (tf_authoritative_states t) (sr_frame request) of None \<Rightarrow> ([], t)
               | Some state \<Rightarrow> snd (send_authoritative_state takes transport peers (Some peer) (sr_frame request)
                   state (sr_missing_chunks request) MsgStateSnapshot False a t))"

text \<open>Every occupied slot of the room has acknowledged.\<close>

definition all_acknowledged :: "Player list \<Rightarrow> bool list \<Rightarrow> bool" where
  "all_acknowledged players acknowledgements \<longleftrightarrow>
     list_all (\<lambda>slot. pl_occupied (players ! slot) \<longrightarrow> acknowledgements ! slot) [0..<length players]"

definition handle_state_acknowledge ::
  "u8 \<Rightarrow> bytes \<Rightarrow> Player list \<Rightarrow> Authority \<Rightarrow> Transfer \<Rightarrow> Transfer" where
  "handle_state_acknowledge peer payload players a t =
     (if \<not> au_authoritative_phase_active a then t
      else case decode_state_acknowledge payload of Inl _ \<Rightarrow> t
      | Inr acknowledgement \<Rightarrow>
          let frame = sa_frame acknowledgement in
          if sa_scene_epoch acknowledgement \<noteq> au_scene_epoch a \<or> StateAcknowledgePayload.sa_player_slot acknowledgement \<noteq> peer then t
          else (case (map_of (tf_authoritative_states t) frame,
                      map_of (tf_authoritative_acknowledgements t) frame) of
              (Some state, Some acknowledgements) \<Rightarrow>
                if authoritative_state_checksum state \<noteq> sa_checksum acknowledgement then t
                else
                  let acknowledgements = acknowledgements[unat peer := True] in
                  if all_acknowledged players acknowledgements
                  then t\<lparr>tf_fully_acknowledged_states := List.insert frame (tf_fully_acknowledged_states t),
                         tf_authoritative_acknowledgements :=
                           AList.delete frame (tf_authoritative_acknowledgements t)\<rparr>
                  else t\<lparr>tf_authoritative_acknowledgements :=
                           AList.update frame acknowledgements (tf_authoritative_acknowledgements t)\<rparr>
            | _ \<Rightarrow> t))"

text \<open>Checkpoints and acknowledgements more than 64 frames old are dropped.\<close>

definition retire_checkpoints :: "u32 \<Rightarrow> Transfer \<Rightarrow> Transfer" where
  "retire_checkpoints frame t =
     (if frame > 64
      then t\<lparr>tf_authoritative_states := filter (\<lambda>entry. \<not> fst entry < frame - 64) (tf_authoritative_states t),
             tf_authoritative_acknowledgements :=
               filter (\<lambda>entry. \<not> fst entry < frame - 64) (tf_authoritative_acknowledgements t)\<rparr>
      else t)"

definition publish_authoritative_state ::
  "(nat \<Rightarrow> bool) \<Rightarrow> Transport \<Rightarrow> u8 list \<Rightarrow> Player list \<Rightarrow> u32 \<Rightarrow> bytes \<Rightarrow> Authority \<Rightarrow> Transfer \<Rightarrow>
   unit result \<times> Outgoing list \<times> Transfer" where
  "publish_authoritative_state takes transport peers players frame state a t =
     (if \<not> au_is_host a \<or> au_state a \<noteq> StateRunning \<or> \<not> au_authoritative_phase_active a
      then (Inl ''Only Player 1 can publish authoritative gameplay state.'', [], t)
      else if state = [] \<or> length state > kMaximumAuthoritativeStateBytes
      then (Inl ''The authoritative gameplay state is outside protocol limits.'', [], t)
      else if map_of (tf_authoritative_states t) frame \<notin> {None, Some state}
      then (Inl ''Player 1 attempted to replace an already published state frame.'', [], t)
      else
        let acknowledgements = (case map_of (tf_authoritative_acknowledgements t) frame of
              Some acknowledgements \<Rightarrow> acknowledgements | None \<Rightarrow> replicate kMaximumPlayers False);
            acknowledgements = acknowledgements[unat (au_local_slot a) := True];
            t = t\<lparr>tf_authoritative_states := AList.update frame state (tf_authoritative_states t),
                  tf_authoritative_acknowledgements :=
                    AList.update frame acknowledgements (tf_authoritative_acknowledgements t),
                  tf_fully_acknowledged_states := (if all_acknowledged players acknowledgements
                    then List.insert frame (tf_fully_acknowledged_states t)
                    else tf_fully_acknowledged_states t)\<rparr>;
            (queued, sent, t) = send_authoritative_state takes transport peers None frame state 0xFFFF
              MsgStateSnapshot False a t
        in if \<not> queued then (Inl ''The authoritative gameplay state could not be queued reliably.'', sent, t)
           else (Inr (), sent, retire_checkpoints frame t))"

definition publish_live_replica ::
  "(nat \<Rightarrow> bool) \<Rightarrow> Transport \<Rightarrow> u8 list \<Rightarrow> u32 \<Rightarrow> bytes \<Rightarrow> bool \<Rightarrow> Authority \<Rightarrow> Transfer \<Rightarrow>
   unit result \<times> Outgoing list \<times> Transfer" where
  "publish_live_replica takes transport peers frame state reliable_keyframe a t =
     (if \<not> au_is_host a \<or> au_state a \<noteq> StateRunning \<or> \<not> au_authoritative_phase_active a \<or>
         au_authority_lifecycle a \<noteq> LifecycleRacing
      then (Inl ''Only Player 1 can publish live race state.'', [], t)
      else if is_live_replica_frame frame \<or> state = [] \<or> length state > kMaximumAuthoritativeStateBytes
      then (Inl ''The live race state is outside protocol limits.'', [], t)
      else
        let t = t\<lparr>tf_live_replica_states := AList.update frame state (tf_live_replica_states t)\<rparr>;
            t = (if reliable_keyframe
                 then t\<lparr>tf_live_replica_keyframe_frame := Some frame, tf_live_replica_keyframe_state := state\<rparr>
                 else t);
            (queued, sent, t) = send_authoritative_state takes transport peers None frame state 0xFFFF
              (if reliable_keyframe then MsgStateSnapshot else MsgLiveReplicaSnapshot) True a t
        in if \<not> queued then (Inl ''Player 1 could not queue the live race state.'', sent, t)
           else (Inr (), sent,
             if frame > kLiveReplicaRecoveryHistoryFrames
             then t\<lparr>tf_live_replica_states := filter
                 (\<lambda>entry. \<not> fst entry < live_replica_oldest_retained_frame frame) (tf_live_replica_states t)\<rparr>
             else t))"

subsection \<open>The simulation polls for a state\<close>

text \<open>The chunks to ask for: those that are missing, or all when nothing has arrived.\<close>

definition missing_chunks :: "SnapshotAssembly option \<Rightarrow> u16 \<times> u16" where
  "missing_chunks entry =
     (case entry of Some assembly \<Rightarrow>
        if sn_chunk_count assembly > 0
        then (sn_chunk_count assembly,
          fold (\<lambda>index missing. if \<not> sn_present assembly ! index then missing OR push_bit index 1 else missing)
            [0..<unat (sn_chunk_count assembly)] 0)
        else (16, 0xFFFF)
      | None \<Rightarrow> (16, 0xFFFF))"

definition state_request :: "u32 \<Rightarrow> SnapshotAssembly option \<Rightarrow> Authority \<Rightarrow> Outgoing" where
  "state_request wire_frame entry a =
     (let (chunk_count, missing) = missing_chunks entry
      in ToHost MsgStateRequest (encode_state_request \<lparr>sr_scene_epoch = au_scene_epoch a,
           sr_frame = wire_frame, sr_chunk_count = chunk_count, sr_missing_chunks = missing\<rparr>) wire_frame)"

definition measured_route :: "Player list \<Rightarrow> Authority \<Rightarrow> u16 \<times> u16" where
  "measured_route players a =
     (let slot = unat (au_local_slot a) in
      if slot < length players then (pl_ping_ms (players ! slot), pl_jitter_ms (players ! slot)) else (0, 0))"

text \<open>The result, the state if there is one, the error text, what is sent, and the new state.\<close>

definition poll_authoritative_state ::
  "u32 \<Rightarrow> Player list \<Rightarrow> string \<Rightarrow> int \<Rightarrow> Authority \<Rightarrow> Transfer \<Rightarrow>
   SessionPollResult \<times> bytes \<times> string \<times> Outgoing list \<times> Transfer" where
  "poll_authoritative_state frame players status now a t =
     (if \<not> au_authoritative_phase_active a \<or> au_state a \<noteq> StateRunning
      then (PollFailed, [], if status = [] then ''The authoritative gameplay phase is not running.'' else status, [], t)
      else case map_of (tf_authoritative_states t) frame of
        Some state \<Rightarrow> (PollReady, state, [], [], retire_checkpoints frame t)
      | None \<Rightarrow>
          if au_is_host a
          then (PollPending, [], ''Player 1 has not published that authoritative state yet.'', [], t)
          else
            let (measured_rtt, measured_jitter) = measured_route players a;
                retry_interval = milliseconds (uint (checkpoint_retry_milliseconds measured_rtt measured_jitter));
                t = (if tf_last_authoritative_request_frame t \<noteq> frame
                     then t\<lparr>tf_last_authoritative_request_frame := frame, tf_last_authoritative_request := now\<rparr>
                     else t)
            in if now - tf_last_authoritative_request t \<ge> retry_interval
               then (PollPending, [], [],
                 [state_request frame (map_of (tf_snapshot_assemblies t) frame) a],
                 t\<lparr>tf_last_authoritative_request := now\<rparr>)
               else (PollPending, [], [], [], t))"

text \<open>What the two polls for live replicas share: ask again when the route had its time.\<close>

definition replica_retry_milliseconds :: "u16 \<Rightarrow> u16 \<Rightarrow> int" where
  "replica_retry_milliseconds measured_rtt measured_jitter =
     min (max (20 + uint (measured_rtt div 3) + uint measured_jitter) 20) 150"

definition request_live_replica ::
  "u32 \<Rightarrow> Player list \<Rightarrow> int \<Rightarrow> Authority \<Rightarrow> Transfer \<Rightarrow> Outgoing list \<times> Transfer" where
  "request_live_replica frame players now a t =
     (let (measured_rtt, measured_jitter) = measured_route players a;
          t = (if tf_last_live_replica_request_frame t \<noteq> frame
               then t\<lparr>tf_last_live_replica_request_frame := frame, tf_last_live_replica_request := now\<rparr> else t)
      in if now - tf_last_live_replica_request t \<ge> milliseconds (replica_retry_milliseconds measured_rtt measured_jitter)
         then ([state_request (live_replica_wire_frame frame) (map_of (tf_live_replica_assemblies t) frame) a],
               t\<lparr>tf_last_live_replica_request := now\<rparr>)
         else ([], t))"

definition replica_stream_running :: "Authority \<Rightarrow> bool" where
  "replica_stream_running a \<longleftrightarrow>
     au_authoritative_phase_active a \<and> au_state a = StateRunning \<and> au_authority_lifecycle a = LifecycleRacing"

definition replica_stream_error :: "string \<Rightarrow> string" where
  "replica_stream_error status =
     (if status = [] then ''The live race-state stream is not running.'' else status)"

definition poll_live_replica ::
  "u32 \<Rightarrow> Player list \<Rightarrow> string \<Rightarrow> int \<Rightarrow> Authority \<Rightarrow> Transfer \<Rightarrow>
   SessionPollResult \<times> bytes \<times> string \<times> Outgoing list \<times> Transfer" where
  "poll_live_replica frame players status now a t =
     (if \<not> replica_stream_running a then (PollFailed, [], replica_stream_error status, [], t)
      else case map_of (tf_live_replica_states t) frame of
        Some state \<Rightarrow> (PollReady, state, [], [],
          if frame > kLiveReplicaRecoveryHistoryFrames
          then t\<lparr>tf_live_replica_states := filter
                   (\<lambda>entry. \<not> fst entry < live_replica_oldest_retained_frame frame) (tf_live_replica_states t),
                 tf_live_replica_assemblies := filter
                   (\<lambda>entry. \<not> fst entry < live_replica_oldest_retained_frame frame) (tf_live_replica_assemblies t)\<rparr>
          else t)
      | None \<Rightarrow>
          if au_is_host a then (PollPending, [], [], [], t)
          else let (sent, t) = request_live_replica frame players now a t in (PollPending, [], [], sent, t))"

definition poll_latest_live_replica ::
  "u32 \<Rightarrow> u32 \<Rightarrow> Player list \<Rightarrow> string \<Rightarrow> int \<Rightarrow> Authority \<Rightarrow> Transfer \<Rightarrow>
   SessionPollResult \<times> (u32 \<times> bytes) option \<times> string \<times> Outgoing list \<times> Transfer" where
  "poll_latest_live_replica minimum_frame maximum_frame players status now a t =
     (if \<not> replica_stream_running a then (PollFailed, None, replica_stream_error status, [], t)
      else if minimum_frame > maximum_frame
      then (PollFailed, None, ''The live race-state window is invalid.'', [], t)
      else
        let window = filter (\<lambda>frame. minimum_frame \<le> frame \<and> frame \<le> maximum_frame)
              (map fst (tf_live_replica_states t))
        in if window \<noteq> []
           then let state_frame = Max (set window) in
             (PollReady, Some (state_frame, the (map_of (tf_live_replica_states t) state_frame)), [], [],
              t\<lparr>tf_live_replica_states := filter (\<lambda>entry. \<not> fst entry \<le> state_frame) (tf_live_replica_states t),
                tf_live_replica_assemblies :=
                  filter (\<lambda>entry. \<not> fst entry \<le> state_frame) (tf_live_replica_assemblies t)\<rparr>)
           else if au_is_host a then (PollPending, None, [], [], t)
           else let (sent, t) = request_live_replica minimum_frame players now a t
                in (PollPending, None, [], sent, t))"

subsection \<open>The maps\<close>

lemma map_simps [simp]:
  "assemblies b (set_assemblies b e t) = e" "completed_states b (set_assemblies c e t) = completed_states b t"
  "completed_states b (set_completed_states b s t) = s" "assemblies b (set_completed_states c s t) = assemblies b t"
  "decode_snapshot w (set_assemblies b e t) = decode_snapshot w t"
  "decode_snapshot w (set_completed_states b s t) = decode_snapshot w t"
  "tf_gameplay_barrier (set_assemblies b e t) = tf_gameplay_barrier t"
  "tf_gameplay_barrier (set_completed_states b s t) = tf_gameplay_barrier t"
  "tf_checkpoint_encoding (set_assemblies b e t) = tf_checkpoint_encoding t"
  "tf_checkpoint_encoding (set_completed_states b s t) = tf_checkpoint_encoding t"
  by (simp_all add: assemblies_def set_assemblies_def completed_states_def set_completed_states_def decode_snapshot_def
      split: option.split)

subsection \<open>What Player 1 sends\<close>

lemma send_in_order_all:
  assumes "send_in_order takes messages = (True, sent)"
  shows "map Some sent = messages"
  using assms by (induction takes messages arbitrary: sent rule: send_in_order.induct) (auto split: if_splits prod.splits)

text \<open>The encoding that Player 1 keeps of the last checkpoint is that of its source.\<close>

definition cache_ok :: "Transfer \<Rightarrow> bool" where
  "cache_ok t \<longleftrightarrow> (\<forall>e. tf_checkpoint_encoding t = Some e \<longrightarrow>
     ce_wire e = encode_authoritative_state_wire (ce_source e))"

definition own_magic :: "bytes \<Rightarrow> bool" where
  "own_magic state \<longleftrightarrow> take 4 state \<noteq> kMagic \<and> take 4 state \<noteq> kDeltaMagic"

text \<open>The plain encoding, or a delta to the keyframe.\<close>

lemma wire_state_sources:
  assumes "wire_state b f state a t = (wire, t2)" "cache_ok t"
  shows "wire = encode_authoritative_state_wire state \<or>
      (\<exists>k < f. b \<and> tf_live_replica_keyframe_frame t = Some k \<and> wire \<noteq> [] \<and>
         wire = encode_authoritative_state_delta_wire state (tf_live_replica_keyframe_state t) k)"
    "cache_ok t2"
proof -
  let ?plain = "encode_authoritative_state_wire state"
  define cached where "cached = (case tf_checkpoint_encoding t of None \<Rightarrow> []
      | Some e \<Rightarrow> if \<not> b \<and> ce_epoch e = au_scene_epoch a \<and> ce_frame e = f \<and> ce_source e = state
                  then ce_wire e else [])"
  have c: "cached = [] \<or> cached = ?plain" using assms(2) by (auto simp: cached_def cache_ok_def split: option.split)
  define chosen where "chosen = (case tf_live_replica_keyframe_frame t of None \<Rightarrow> cached
      | Some k \<Rightarrow> if b \<and> k < f \<and> tf_live_replica_keyframe_state t \<noteq> []
                  then encode_authoritative_state_delta_wire state (tf_live_replica_keyframe_state t) k else cached)"
  have w: "if chosen \<noteq> [] then wire = chosen \<and> t2 = t
      else wire = ?plain \<and> t2 \<in> {t, t\<lparr>tf_checkpoint_encoding := Some \<lparr>ce_epoch = au_scene_epoch a, ce_frame = f,
        ce_source = state, ce_wire = ?plain\<rparr>\<rparr>}"
    using assms(1) unfolding wire_state_def cached_def [symmetric] chosen_def [symmetric] Let_def by (auto split: if_splits)
  show "cache_ok t2" using w assms(2) by (auto simp: cache_ok_def split: if_splits)
  show "wire = ?plain \<or> (\<exists>k < f. b \<and> tf_live_replica_keyframe_frame t = Some k \<and> wire \<noteq> [] \<and>
      wire = encode_authoritative_state_delta_wire state (tf_live_replica_keyframe_state t) k)"
    using w c by (auto simp: chosen_def split: option.splits if_splits)
qed

text \<open>The receiver has the keyframe a delta to frame \<open>f\<close> would refer to.\<close>

definition same_keyframe :: "u32 \<Rightarrow> Transfer \<Rightarrow> Transfer \<Rightarrow> bool" where
  "same_keyframe f sender receiver \<longleftrightarrow>
     (\<forall>k < f. tf_live_replica_keyframe_frame sender = Some k \<longrightarrow>
        tf_live_replica_keyframe_frame receiver = Some k \<and>
        tf_live_replica_keyframe_state receiver = tf_live_replica_keyframe_state sender)"

lemma wire_state_decodes:
  assumes "wire_state b f state a t = (wire, t2)" "cache_ok t" "own_magic state" "state \<noteq> []"
    "length state \<le> kMaximumAuthoritativeStateBytes"
    "b \<Longrightarrow> same_keyframe f t u"
  shows "decode_snapshot wire u = Some state" "cache_ok t2"
proof -
  let ?plain = "encode_authoritative_state_wire state"
  have plain: "decode_snapshot ?plain v = Some state" for v
  proof -
    have "\<not> authoritative_state_wire_is_delta ?plain"
      using assms(3) by (auto simp: authoritative_state_wire_is_delta_def encode_authoritative_state_wire_def Let_def
          encode_rle_def own_magic_def split: if_splits)
    moreover have "decode_authoritative_state_wire ?plain kMaximumAuthoritativeStateBytes = Inr state"
      using assms(3-5) by (intro decode_state_wire_roundtrip) (auto simp: own_magic_def)
    ultimately show ?thesis by (simp add: decode_snapshot_def)
  qed
  have delta: "decode_snapshot wire u = Some state"
    if "b" "tf_live_replica_keyframe_frame t = Some k" "wire \<noteq> []" "k < f"
      "wire = encode_authoritative_state_delta_wire state (tf_live_replica_keyframe_state t) k" for k
    using that assms(5,6) decode_delta_roundtrip [of state "tf_live_replica_keyframe_state t" k kMaximumAuthoritativeStateBytes]
    by (simp add: decode_snapshot_def same_keyframe_def)
  show "decode_snapshot wire u = Some state"
    using wire_state_sources [OF assms(1,2)] plain delta by blast
  show "cache_ok t2" by (rule wire_state_sources(2) [OF assms(1,2)])
qed

subsection \<open>Bounds of the maps\<close>

text \<open>What is stored is bounded, and the lists of an assembly have the length of its count.\<close>

definition assembly_ok :: "SnapshotAssembly \<Rightarrow> bool" where
  "assembly_ok assembly \<longleftrightarrow> 0 < sn_chunk_count assembly \<and> sn_chunk_count assembly \<le> 16 \<and>
     length (sn_chunks assembly) = unat (sn_chunk_count assembly) \<and>
     length (sn_present assembly) = unat (sn_chunk_count assembly)"

definition assemblies_ok :: "(u32 \<times> SnapshotAssembly) list \<Rightarrow> bool" where
  "assemblies_ok entries \<longleftrightarrow> length entries \<le> 16 \<and> distinct (map fst entries) \<and>
     (\<forall>entry \<in> set entries. assembly_ok (snd entry))"

definition state_size_ok :: "bytes \<Rightarrow> bool" where
  "state_size_ok state \<longleftrightarrow> state \<noteq> [] \<and> length state \<le> kMaximumAuthoritativeStateBytes"

definition transfer_inv :: "Transfer \<Rightarrow> bool" where
  "transfer_inv t \<longleftrightarrow> cache_ok t \<and> assemblies_ok (tf_snapshot_assemblies t) \<and>
     assemblies_ok (tf_live_replica_assemblies t) \<and>
     (\<forall>entry \<in> set (tf_authoritative_states t). state_size_ok (snd entry)) \<and>
     (\<forall>entry \<in> set (tf_live_replica_states t). state_size_ok (snd entry)) \<and>
     (tf_live_replica_keyframe_frame t \<noteq> None \<longrightarrow> state_size_ok (tf_live_replica_keyframe_state t))"

lemma assemblies_ok_filter: "assemblies_ok entries \<Longrightarrow> assemblies_ok (filter P entries)"
  by (auto simp: assemblies_ok_def distinct_map_filter intro: order_trans [OF length_filter_le])

lemma assemblies_ok_delete: "assemblies_ok entries \<Longrightarrow> assemblies_ok (AList.delete k entries)"
  by (simp add: AList.delete_eq assemblies_ok_filter)

lemma set_update_subset: "set (AList.update k v xs) \<subseteq> insert (k, v) (set xs)"
  by (induction xs) auto

lemma make_room_ok:
  assumes "assemblies_ok entries"
  shows "assemblies_ok (make_room f entries) \<and> (length (make_room f entries) < 16 \<or> f \<in> fst ` set (make_room f entries))"
proof (cases "map_of entries f = None \<and> 16 \<le> length entries")
  case True
  let ?m = "Min (set (map fst entries))"
  have "map fst entries \<noteq> []" using True by auto
  then have "?m \<in> set (map fst entries)" by (intro Min_in) auto
  then have "length (map fst (AList.delete ?m entries)) < length (map fst entries)"
    unfolding delete_keys by (rule length_removeAll_less)
  then show ?thesis using True assms assemblies_ok_delete [OF assms] by (auto simp: make_room_def assemblies_ok_def)
next
  case False
  then show ?thesis using assms by (auto simp: make_room_def map_of_eq_None_iff)
qed

lemma assemblies_ok_update:
  assumes "assemblies_ok entries" "length entries < 16 \<or> f \<in> fst ` set entries" "assembly_ok assembly"
  shows "assemblies_ok (AList.update f assembly entries)"
proof -
  have "length (map fst (AList.update f assembly entries)) \<le> 16"
    using assms(1,2) unfolding update_keys by (auto simp: assemblies_ok_def)
  then show ?thesis
    using assms set_update_subset [of f assembly entries] by (auto simp: assemblies_ok_def distinct_update)
qed

lemma chunk_ok:
  assumes "decode_state_snapshot_chunk payload = Inr chunk"
  shows "unat (sc_chunk_index chunk) < unat (sc_chunk_count chunk)" "assembly_ok (fresh_assembly chunk)"
  using decode_state_snapshot_chunk_inv [OF assms, of 0]
  by (auto simp: assembly_ok_def fresh_assembly_def word_less_nat_alt)

lemma place_chunk_ok: "assembly_ok assembly \<Longrightarrow> assembly_ok (place_chunk chunk assembly)"
  by (simp add: assembly_ok_def place_chunk_def Let_def)

lemma decode_snapshot_size:
  assumes "decode_snapshot wire t = Some state" "tf_live_replica_keyframe_frame t \<noteq> None \<longrightarrow> state_size_ok (tf_live_replica_keyframe_state t)"
  shows "state_size_ok state"
  using assms decode_delta_length [of wire "tf_live_replica_keyframe_state t" _ kMaximumAuthoritativeStateBytes state]
    decode_state_wire_bound [of wire kMaximumAuthoritativeStateBytes state]
  by (auto simp: decode_snapshot_def state_size_ok_def split: if_splits option.splits sum.splits)

lemma retained_subset: "set (retained b f entries) \<subseteq> set entries"
  by (auto simp: retained_def Let_def)

lemma retained_assemblies: "assemblies_ok entries \<Longrightarrow> assemblies_ok (retained b f entries)"
  by (simp add: retained_def Let_def assemblies_ok_filter)

text \<open>The invariant, by the two maps a chunk may belong to.\<close>

lemma transfer_inv_maps:
  "transfer_inv t \<longleftrightarrow> cache_ok t \<and> (\<forall>b. assemblies_ok (assemblies b t)) \<and>
     (\<forall>b. \<forall>entry \<in> set (completed_states b t). state_size_ok (snd entry)) \<and>
     (tf_live_replica_keyframe_frame t \<noteq> None \<longrightarrow> state_size_ok (tf_live_replica_keyframe_state t))"
  by (auto simp: transfer_inv_def assemblies_def completed_states_def all_bool_eq)

lemma other_map_simps:
  "assemblies c (set_assemblies b e t) = (if b = c then e else assemblies c t)"
  "completed_states c (set_completed_states b s t) = (if b = c then s else completed_states c t)"
  "tf_live_replica_keyframe_frame (set_assemblies b e t) = tf_live_replica_keyframe_frame t"
  "tf_live_replica_keyframe_state (set_assemblies b e t) = tf_live_replica_keyframe_state t"
  "tf_live_replica_keyframe_frame (set_completed_states b s t) = tf_live_replica_keyframe_frame t"
  "tf_live_replica_keyframe_state (set_completed_states b s t) = tf_live_replica_keyframe_state t"
  "cache_ok (set_assemblies b e t) = cache_ok t" "cache_ok (set_completed_states b s t) = cache_ok t"
  by (simp_all add: assemblies_def set_assemblies_def completed_states_def set_completed_states_def cache_ok_def)

lemma set_assemblies_inv:
  "transfer_inv t \<Longrightarrow> assemblies_ok entries \<Longrightarrow> transfer_inv (set_assemblies b entries t)"
  by (auto simp: transfer_inv_maps other_map_simps)

lemma finish_snapshot_inv:
  assumes "transfer_inv t" "state_size_ok state"
  shows "transfer_inv (finish_snapshot b f d state a t)"
proof -
  have k: "transfer_inv (t\<lparr>tf_live_replica_keyframe_frame := Some f, tf_live_replica_keyframe_state := state\<rparr>)"
    using assms by (auto simp: transfer_inv_def cache_ok_def)
  have r: "transfer_inv (u\<lparr>tf_recovery_stage := s\<rparr>)" if "transfer_inv u" for u s
    using that by (auto simp: transfer_inv_def cache_ok_def)
  have "transfer_inv (set_completed_states b (retained b f (AList.update f state (completed_states b u)))
      (set_assemblies b (retained b f (AList.delete f (assemblies b u))) u))" if u: "transfer_inv u" for u
  proof -
    have sub: "set (retained b f (AList.update f state (completed_states b u))) \<subseteq> insert (f, state) (set (completed_states b u))"
      by (rule order_trans [OF retained_subset set_update_subset])
    have "\<forall>entry \<in> set (retained b f (AList.update f state (completed_states b u))). state_size_ok (snd entry)"
    proof
      fix entry assume "entry \<in> set (retained b f (AList.update f state (completed_states b u)))"
      then have "entry = (f, state) \<or> entry \<in> set (completed_states b u)" using sub by blast
      then show "state_size_ok (snd entry)" using u assms(2) by (auto simp: transfer_inv_maps)
    qed
    then show ?thesis
      using u retained_assemblies [OF assemblies_ok_delete] by (auto simp: transfer_inv_maps other_map_simps)
  qed
  then show ?thesis using assms(1) k r by (simp add: finish_snapshot_def Let_def)
qed

lemma receive_chunk_inv:
  assumes "transfer_inv t" "assembly_ok (fresh_assembly chunk)"
  shows "transfer_inv (snd (receive_chunk b f chunk a t))"
proof -
  let ?e = "make_room f (assemblies b t)"
  have e: "assemblies_ok ?e" "length ?e < 16 \<or> f \<in> fst ` set ?e"
    using make_room_ok [of "assemblies b t" f] assms(1) by (auto simp: transfer_inv_maps)
  define asm where "asm = (case map_of ?e f of
      Some assembly \<Rightarrow> if sn_chunk_count assembly = 0 then fresh_assembly chunk else assembly | None \<Rightarrow> fresh_assembly chunk)"
  have asm: "assembly_ok asm"
    using e(1) assms(2) by (auto simp: asm_def assemblies_ok_def split: option.split dest!: map_of_SomeD)
  define placed where "placed = place_chunk chunk (if same_snapshot asm chunk then asm else fresh_assembly chunk)"
  have placed: "assembly_ok placed" using asm assms(2) by (simp add: placed_def place_chunk_ok)
  have kept: "transfer_inv (set_assemblies b (AList.update f x ?e) t)" if "assembly_ok x" for x
    using that assms(1) e assemblies_ok_update by (blast intro: set_assemblies_inv)
  have dropped: "transfer_inv (set_assemblies b (AList.delete f ?e) t)"
    using assms(1) e(1) assemblies_ok_delete by (blast intro: set_assemblies_inv)
  have size: "state_size_ok state" if "decode_snapshot wire t = Some state" for wire state
    using decode_snapshot_size [OF that] assms(1) by (simp add: transfer_inv_def)
  show ?thesis
    using kept [OF asm] kept [OF placed] dropped finish_snapshot_inv [OF kept [OF placed]] size
    unfolding receive_chunk_def Let_def asm_def [symmetric] placed_def [symmetric]
    by (auto split: option.split)
qed

lemma handle_snapshot_inv: "transfer_inv t \<Longrightarrow> transfer_inv (snd (handle_snapshot mt payload a l t))"
  using receive_chunk_inv [OF _ chunk_ok(2)]
  by (simp add: handle_snapshot_def Let_def split: sum.split)

lemma send_state_inv:
  assumes "transfer_inv t"
  shows "transfer_inv (snd (snd (send_authoritative_state takes transport peers destination f state req mt b a t)))"
proof -
  obtain wire t2 where w: "wire_state b f state a t = (wire, t2)" by fastforce
  have c: "cache_ok t2" using wire_state_sources(2) [OF w] assms by (simp add: transfer_inv_def)
  obtain e where "t2 = t \<or> t2 = t\<lparr>tf_checkpoint_encoding := e\<rparr>"
    using w unfolding wire_state_def Let_def by (auto split: if_splits)
  then have "transfer_inv t2" using assms c by (auto simp: transfer_inv_def)
  then show ?thesis
    using assms unfolding send_authoritative_state_def w Let_def prod.case by (simp split: prod.split)
qed

subsection \<open>Runs\<close>

text \<open>The calls and packets that change the maps, in the terms of one machine.\<close>

datatype TransferCall =
    ReceiveSnapshot MessageType bytes Ledger
  | AnswerRequest "nat \<Rightarrow> bool" Transport "u8 list" u8 bytes
  | ReceiveAcknowledge u8 bytes "Player list"
  | PublishState "nat \<Rightarrow> bool" Transport "u8 list" "Player list" u32 bytes
  | PublishReplica "nat \<Rightarrow> bool" Transport "u8 list" u32 bytes bool
  | PollState u32 "Player list" string int
  | PollReplica u32 "Player list" string int
  | PollLatest u32 u32 "Player list" string int

fun transfer_perform :: "Authority \<Rightarrow> TransferCall \<Rightarrow> Transfer \<Rightarrow> Transfer" where
  "transfer_perform a (ReceiveSnapshot message_type payload l) t = snd (handle_snapshot message_type payload a l t)"
| "transfer_perform a (AnswerRequest takes transport peers peer payload) t =
     snd (handle_state_request takes transport peers peer payload a t)"
| "transfer_perform a (ReceiveAcknowledge peer payload players) t = handle_state_acknowledge peer payload players a t"
| "transfer_perform a (PublishState takes transport peers players frame state) t =
     snd (snd (publish_authoritative_state takes transport peers players frame state a t))"
| "transfer_perform a (PublishReplica takes transport peers frame state keyframe) t =
     snd (snd (publish_live_replica takes transport peers frame state keyframe a t))"
| "transfer_perform a (PollState frame players status now) t =
     snd (snd (snd (snd (poll_authoritative_state frame players status now a t))))"
| "transfer_perform a (PollReplica frame players status now) t =
     snd (snd (snd (snd (poll_live_replica frame players status now a t))))"
| "transfer_perform a (PollLatest minimum_frame maximum_frame players status now) t =
     snd (snd (snd (snd (poll_latest_live_replica minimum_frame maximum_frame players status now a t))))"

lemma transfer_inv_simps [simp]:
  "transfer_inv (t\<lparr>tf_authoritative_acknowledgements := x\<rparr>) = transfer_inv t"
  "transfer_inv (t\<lparr>tf_fully_acknowledged_states := y\<rparr>) = transfer_inv t"
  "transfer_inv (t\<lparr>tf_last_authoritative_request_frame := f\<rparr>) = transfer_inv t"
  "transfer_inv (t\<lparr>tf_last_authoritative_request := i\<rparr>) = transfer_inv t"
  "transfer_inv (t\<lparr>tf_last_live_replica_request_frame := f\<rparr>) = transfer_inv t"
  "transfer_inv (t\<lparr>tf_last_live_replica_request := i\<rparr>) = transfer_inv t"
  by (simp_all add: transfer_inv_def cache_ok_def)

lemma transfer_inv_drop:
  assumes "transfer_inv t"
  shows "transfer_inv (t\<lparr>tf_authoritative_states := filter P (tf_authoritative_states t)\<rparr>)"
    "transfer_inv (t\<lparr>tf_live_replica_states := filter P (tf_live_replica_states t)\<rparr>)"
    "transfer_inv (t\<lparr>tf_live_replica_assemblies := filter Q (tf_live_replica_assemblies t)\<rparr>)"
  using assms assemblies_ok_filter by (auto simp: transfer_inv_def cache_ok_def)

lemma transfer_inv_put:
  assumes "transfer_inv t" "state_size_ok state"
  shows "transfer_inv (t\<lparr>tf_authoritative_states := AList.update f state (tf_authoritative_states t)\<rparr>)"
    "transfer_inv (t\<lparr>tf_live_replica_states := AList.update f state (tf_live_replica_states t)\<rparr>)"
    "transfer_inv (t\<lparr>tf_live_replica_keyframe_frame := Some f, tf_live_replica_keyframe_state := state\<rparr>)"
  using assms set_update_subset [of f state "tf_authoritative_states t"] set_update_subset [of f state "tf_live_replica_states t"]
  by (fastforce simp: transfer_inv_def cache_ok_def)+

lemma retire_checkpoints_inv: "transfer_inv t \<Longrightarrow> transfer_inv (retire_checkpoints frame t)"
  by (simp add: retire_checkpoints_def transfer_inv_drop)

lemma request_live_replica_inv: "transfer_inv t \<Longrightarrow> transfer_inv (snd (request_live_replica frame players now a t))"
  by (simp add: request_live_replica_def Let_def split: prod.split)

text \<open>The state after a send is the one before it but for the cache.\<close>

lemma publish_state_inv:
  assumes "transfer_inv t"
  shows "transfer_inv (snd (snd (publish_authoritative_state takes transport peers players frame state a t)))"
proof -
  define ack where "ack = (case map_of (tf_authoritative_acknowledgements t) frame of
      Some acknowledgements \<Rightarrow> acknowledgements | None \<Rightarrow> replicate kMaximumPlayers False) [unat (au_local_slot a) := True]"
  define u where "u = t\<lparr>tf_authoritative_states := AList.update frame state (tf_authoritative_states t),
      tf_authoritative_acknowledgements := AList.update frame ack (tf_authoritative_acknowledgements t),
      tf_fully_acknowledged_states := (if all_acknowledged players ack
        then List.insert frame (tf_fully_acknowledged_states t) else tf_fully_acknowledged_states t)\<rparr>"
  obtain queued sent v where v: "send_authoritative_state takes transport peers None frame state 0xFFFF MsgStateSnapshot
      False a u = (queued, sent, v)" by (metis prod_cases3)
  have "transfer_inv u" if "state_size_ok state"
    using transfer_inv_put(1) [OF assms that, of frame] by (simp add: u_def)
  then have "transfer_inv v" if "state_size_ok state" using send_state_inv [of u] that v by (metis snd_conv)
  then show ?thesis
    using assms unfolding publish_authoritative_state_def Let_def ack_def [symmetric] u_def [symmetric] v prod.case
    by (auto simp: state_size_ok_def retire_checkpoints_inv)
qed

lemma publish_replica_inv:
  assumes "transfer_inv t"
  shows "transfer_inv (snd (snd (publish_live_replica takes transport peers frame state keyframe a t)))"
proof -
  define u where "u = t\<lparr>tf_live_replica_states := AList.update frame state (tf_live_replica_states t)\<rparr>"
  define w where "w = (if keyframe
      then u\<lparr>tf_live_replica_keyframe_frame := Some frame, tf_live_replica_keyframe_state := state\<rparr> else u)"
  obtain queued sent v where v: "send_authoritative_state takes transport peers None frame state 0xFFFF
      (if keyframe then MsgStateSnapshot else MsgLiveReplicaSnapshot) True a w = (queued, sent, v)" by (metis prod_cases3)
  have "transfer_inv w" if "state_size_ok state"
    using transfer_inv_put(3) [OF _ that, of u frame] transfer_inv_put(2) [OF assms that, of frame] by (simp add: w_def u_def)
  then have "transfer_inv v" if "state_size_ok state" using send_state_inv [of w] that v by (metis snd_conv)
  then show ?thesis
    using assms unfolding publish_live_replica_def Let_def u_def [symmetric] w_def [symmetric] v prod.case
    by (auto simp: state_size_ok_def transfer_inv_drop)
qed

lemma poll_inv:
  assumes "transfer_inv t"
  shows "transfer_inv (snd (snd (snd (snd (poll_authoritative_state frame players status now a t)))))"
    "transfer_inv (snd (snd (snd (snd (poll_live_replica frame players status now a t)))))"
    "transfer_inv (snd (snd (snd (snd (poll_latest_live_replica minimum_frame maximum_frame players status now a t)))))"
proof -
  have d: "transfer_inv (t\<lparr>tf_live_replica_states := filter P (tf_live_replica_states t),
      tf_live_replica_assemblies := filter Q (tf_live_replica_assemblies t)\<rparr>)" for P Q
    using transfer_inv_drop(3) [OF transfer_inv_drop(2) [OF assms, of P], of Q] by simp
  note r = request_live_replica_inv [OF assms]
  show "transfer_inv (snd (snd (snd (snd (poll_authoritative_state frame players status now a t)))))"
    using assms by (simp add: poll_authoritative_state_def retire_checkpoints_inv Let_def split: prod.split option.split)
  show "transfer_inv (snd (snd (snd (snd (poll_live_replica frame players status now a t)))))"
    using assms d r by (auto simp: poll_live_replica_def Let_def split: prod.split option.split)
  show "transfer_inv (snd (snd (snd (snd (poll_latest_live_replica minimum_frame maximum_frame players status now a t)))))"
    using assms d r by (auto simp: poll_latest_live_replica_def Let_def split: prod.split)
qed

interpretation transfer_run: invariant_run transfer_inv "transfer_perform a"
proof
  show "transfer_inv (transfer_perform a call t)" if "transfer_inv t" for call t
  proof (cases call)
    case (AnswerRequest takes transport peers peer payload)
    then show ?thesis
      using that send_state_inv [OF that] by (simp add: handle_state_request_def Let_def split: sum.split option.split)
  next
    case (ReceiveAcknowledge peer payload players)
    then show ?thesis using that by (simp add: handle_state_acknowledge_def Let_def split: sum.split option.split)
  qed (use that in \<open>simp_all add: handle_snapshot_inv publish_state_inv publish_replica_inv poll_inv\<close>)
qed

end
