(* ===== verification/State_Arrival.thy ===== *)
theory State_Arrival
  imports State_Transfer
begin

section \<open>States arrive\<close>

text \<open>
  The round trip of a whole state from Player 1 to a guest, over \<open>State_Transfer\<close>: a snapshot is
  a wire text cut into pieces, an assembly at the receiver is a part of it, and however the
  chunks are lost, repeated and reordered, the state that is completed is the one sent. What
  is missing is asked for, and the answer completes it.
\<close>

subsection \<open>Cutting and joining\<close>

lemma chunk_size_pos: "56 < tp_maximum_plaintext_datagram_bytes transport \<Longrightarrow> 0 < chunk_size transport"
  by (simp add: chunk_size_def kMaximumAuthoritativeStateBytes_def)

lemma concat_slices: "concat (map (\<lambda>i. take n (drop (i * n) xs)) [0..<k]) = take (k * n) xs"
  by (induction k) (simp_all add: take_add add.commute [of n])

lemma chunks_cover: "0 < n \<Longrightarrow> length xs \<le> (length xs + n - 1) div n * n" for xs :: "'a list"
  using div_mult_mod_eq [of "length xs + n - 1" n] mod_less_divisor [of n "length xs + n - 1"] by linarith

text \<open>The bytes of a chunk.\<close>

definition piece :: "nat \<Rightarrow> bytes \<Rightarrow> nat \<Rightarrow> bytes" where
  "piece n wire i = take n (drop (i * n) wire)"

lemma concat_pieces:
  "0 < n \<Longrightarrow> concat (map (piece n wire) [0..<(length wire + n - 1) div n]) = wire"
  using chunks_cover [of n wire] by (simp add: piece_def [abs_def] concat_slices)

subsection \<open>A snapshot under way\<close>

text \<open>
  A snapshot is a wire text cut into \<open>count\<close> pieces of \<open>n\<close> bytes; an assembly of it is
  partial, with the pieces it has at their places.
\<close>

record Snapshot =
  sp_wire :: bytes
  sp_bytes :: nat
  sp_count :: nat
  sp_epoch :: u32

definition proper :: "Snapshot \<Rightarrow> bool" where
  "proper p \<longleftrightarrow> 0 < sp_bytes p \<and> 0 < sp_count p \<and> sp_count p \<le> 16 \<and>
     length (sp_wire p) \<le> kMaximumAuthoritativeStateBytes \<and>
     sp_count p = (length (sp_wire p) + sp_bytes p - 1) div sp_bytes p"

definition chunk_of :: "Snapshot \<Rightarrow> u32 \<Rightarrow> nat \<Rightarrow> StateSnapshotChunk" where
  "chunk_of p wire_frame i =
     \<lparr>sc_scene_epoch = sp_epoch p, sc_frame = wire_frame,
      sc_checksum = authoritative_state_checksum (sp_wire p), sc_total_size = of_nat (length (sp_wire p)),
      sc_chunk_index = of_nat i, sc_chunk_count = of_nat (sp_count p),
      sc_bytes = piece (sp_bytes p) (sp_wire p) i\<rparr>"

definition partial :: "Snapshot \<Rightarrow> SnapshotAssembly \<Rightarrow> bool" where
  "partial p assembly \<longleftrightarrow>
     sn_scene_epoch assembly = sp_epoch p \<and>
     sn_checksum assembly = authoritative_state_checksum (sp_wire p) \<and>
     sn_total_size assembly = of_nat (length (sp_wire p)) \<and>
     sn_chunk_count assembly = of_nat (sp_count p) \<and>
     length (sn_chunks assembly) = sp_count p \<and> length (sn_present assembly) = sp_count p \<and>
     (\<forall>i < sp_count p. sn_present assembly ! i \<longrightarrow> sn_chunks assembly ! i = piece (sp_bytes p) (sp_wire p) i)"

lemma proper_counts:
  assumes "proper p"
  shows "unat (of_nat (sp_count p) :: u16) = sp_count p" "(of_nat (sp_count p) :: u16) \<noteq> 0"
    "i < sp_count p \<Longrightarrow> unat (of_nat i :: u16) = i"
    "unat (of_nat (length (sp_wire p)) :: u32) = length (sp_wire p)"
    "concat (map (piece (sp_bytes p) (sp_wire p)) [0..<sp_count p]) = sp_wire p"
  using assms concat_pieces [of "sp_bytes p" "sp_wire p"]
  by (auto simp: proper_def kMaximumAuthoritativeStateBytes_def of_nat_u16_unat of_nat_u16_eq_0 unat_of_nat
      take_bit_nat_eq_self)

lemma fresh_partial: "proper p \<Longrightarrow> partial p (fresh_assembly (chunk_of p fr i))"
  by (simp add: partial_def fresh_assembly_def chunk_of_def proper_counts)

lemma partial_same: "partial p assembly \<Longrightarrow> same_snapshot assembly (chunk_of p fr i)"
  by (simp add: partial_def same_snapshot_def chunk_of_def)

lemma place_partial:
  assumes "proper p" "partial p assembly" "i < sp_count p"
  shows "partial p (place_chunk (chunk_of p fr i) assembly)"
    "sn_present (place_chunk (chunk_of p fr i) assembly) = (sn_present assembly)[i := True]"
proof -
  have i: "unat (sc_chunk_index (chunk_of p fr i)) = i" using proper_counts(3) [OF assms(1,3)] by (simp add: chunk_of_def)
  have b: "sc_bytes (chunk_of p fr i) = piece (sp_bytes p) (sp_wire p) i" by (simp add: chunk_of_def)
  show "partial p (place_chunk (chunk_of p fr i) assembly)"
    using assms(2,3) by (auto simp: partial_def place_chunk_def i b Let_def nth_list_update)
  show "sn_present (place_chunk (chunk_of p fr i) assembly) = (sn_present assembly)[i := True]"
    using assms(2,3) by (auto simp: partial_def place_chunk_def i Let_def list_update_same_conv [THEN iffD2])
qed

lemma partial_complete:
  assumes "proper p" "partial p assembly" "list_all id (sn_present assembly)"
  shows "concat (sn_chunks assembly) = sp_wire p"
proof -
  have "sn_chunks assembly = map (piece (sp_bytes p) (sp_wire p)) [0..<sp_count p]"
    using assms(2,3) by (intro nth_equalityI) (auto simp: partial_def list_all_length)
  then show ?thesis using proper_counts(5) [OF assms(1)] by simp
qed

subsection \<open>A chunk is received\<close>

text \<open>
  What holds of the receiver while the chunks of a snapshot arrive: its assembly of the frame
  is partial and incomplete, the wire text decodes to the state, and the frame is not taken
  for another one.
\<close>

definition under_way :: "Snapshot \<Rightarrow> bool \<Rightarrow> u32 \<Rightarrow> bytes \<Rightarrow> Transfer \<Rightarrow> bool" where
  "under_way p live_replica frame state t \<longleftrightarrow>
     decode_snapshot (sp_wire p) t = Some state \<and>
     (\<forall>assembly. map_of (assemblies live_replica t) frame = Some assembly \<longrightarrow>
        partial p assembly \<and> \<not> list_all id (sn_present assembly))"

text \<open>Piece \<open>i\<close> is here, as a part of the assembly.\<close>

definition has_piece :: "bool \<Rightarrow> u32 \<Rightarrow> Transfer \<Rightarrow> nat \<Rightarrow> bool" where
  "has_piece live_replica frame t i \<longleftrightarrow>
     (case map_of (assemblies live_replica t) frame of Some assembly \<Rightarrow> sn_present assembly ! i | None \<Rightarrow> False)"

lemma map_of_filter_keys: "map_of (filter (\<lambda>entry. P (fst entry)) xs) k = (if P k then map_of xs k else None)"
  by (induction xs) auto

lemma retained_same: "map_of (retained live_replica f entries) f = map_of entries f"
proof -
  have "\<not> f < f - r" if "f > r" for r using that by (simp add: word_less_nat_alt unat_sub word_le_nat_alt)
  then show ?thesis by (simp add: retained_def Let_def map_of_filter_keys [where P = "\<lambda>k. \<not> k < f - _"])
qed

lemma make_room_same: "map_of (make_room f entries) f = map_of entries f"
proof (cases "map_of entries f = None \<and> 16 \<le> length entries")
  case True
  then have "map_of (AList.delete k entries) f = None" for k by (simp add: delete_conv)
  then show ?thesis using True by (simp add: make_room_def)
qed (auto simp: make_room_def)

lemma finish_snapshot_simps:
  "map_of (completed_states b (finish_snapshot b f d state a t)) f = Some state"
  "map_of (assemblies b (finish_snapshot b f d state a t)) f = None"
  "tf_gameplay_barrier (finish_snapshot b f d state a t) = tf_gameplay_barrier t"
  "tf_checkpoint_encoding (finish_snapshot b f d state a t) = tf_checkpoint_encoding t"
  by (simp_all add: finish_snapshot_def Let_def retained_same update_conv' delete_conv')

lemma decode_snapshot_cong:
  assumes "authoritative_state_wire_is_delta wire \<Longrightarrow>
      tf_live_replica_keyframe_frame t = tf_live_replica_keyframe_frame u \<and>
      tf_live_replica_keyframe_state t = tf_live_replica_keyframe_state u"
  shows "decode_snapshot wire t = decode_snapshot wire u"
  using assms by (cases "authoritative_state_wire_is_delta wire") (simp_all add: decode_snapshot_def split: option.split)

lemma finish_snapshot_decodes:
  "decode_snapshot wire (finish_snapshot b f (authoritative_state_wire_is_delta wire) state' a t) = decode_snapshot wire t"
  by (rule decode_snapshot_cong) (simp add: finish_snapshot_def Let_def set_assemblies_def set_completed_states_def)

text \<open>One chunk of the snapshot: no failure, and its piece is here, or the state is complete.\<close>

lemma receive_chunk_under_way:
  assumes "proper p" "under_way p b f state t" "i < sp_count p"
  obtains t2 where "receive_chunk b f (chunk_of p fr i) a t = (Inr (), t2)" "under_way p b f state t2"
    "tf_gameplay_barrier t2 = tf_gameplay_barrier t"
    "map_of (completed_states b t2) f = Some state \<or>
     map_of (completed_states b t2) f = map_of (completed_states b t) f \<and>
     (\<forall>j < sp_count p. has_piece b f t2 j \<longleftrightarrow> j = i \<or> has_piece b f t j)"
proof -
  let ?c = "chunk_of p fr i" and ?e = "make_room f (assemblies b t)"
  have d: "decode_snapshot (sp_wire p) t = Some state" using assms(2) by (simp add: under_way_def)
  define asm where "asm = (case map_of ?e f of
      Some assembly \<Rightarrow> if sn_chunk_count assembly = 0 then fresh_assembly ?c else assembly | None \<Rightarrow> fresh_assembly ?c)"
  have asm: "partial p asm" "\<And>j. j < sp_count p \<Longrightarrow> sn_present asm ! j \<longleftrightarrow> has_piece b f t j"
    using assms(2) proper_counts(2) [OF assms(1)] fresh_partial [OF assms(1), of fr i]
    by (auto simp: asm_def make_room_same under_way_def partial_def has_piece_def fresh_assembly_def chunk_of_def
        proper_counts(1) [OF assms(1)] split: option.split)
  define placed where "placed = place_chunk ?c asm"
  have placed: "partial p placed" "sn_present placed = (sn_present asm)[i := True]"
    unfolding placed_def by (rule place_partial [OF assms(1) asm(1) assms(3)])+
  define kept where "kept = set_assemblies b (AList.update f placed ?e) t"
  have "receive_chunk b f ?c a t =
      (if \<not> list_all id (sn_present placed) then (Inr (), kept)
       else (Inr (), finish_snapshot b f (authoritative_state_wire_is_delta (sp_wire p)) state a kept))"
  proof (cases "list_all id (sn_present placed)")
    case True
    have w: "concat (sn_chunks placed) = sp_wire p" by (rule partial_complete [OF assms(1) placed(1) True])
    show ?thesis
      using True partial_same [OF asm(1), of fr i] w placed(1) d proper_counts(4) [OF assms(1)]
      by (simp add: receive_chunk_def asm_def [symmetric] placed_def [symmetric] kept_def Let_def partial_def)
  next
    case False
    then show ?thesis
      using partial_same [OF asm(1), of fr i]
      by (simp add: receive_chunk_def asm_def [symmetric] placed_def [symmetric] kept_def Let_def)
  qed
  then consider (waiting) "\<not> list_all id (sn_present placed)" "receive_chunk b f ?c a t = (Inr (), kept)"
    | (finished) "receive_chunk b f ?c a t =
        (Inr (), finish_snapshot b f (authoritative_state_wire_is_delta (sp_wire p)) state a kept)"
    by (auto split: if_splits)
  then show ?thesis
  proof cases
    case waiting
    have "has_piece b f kept j \<longleftrightarrow> j = i \<or> has_piece b f t j" if "j < sp_count p" for j
    proof -
      have "has_piece b f kept j \<longleftrightarrow> sn_present placed ! j" by (simp add: has_piece_def kept_def update_conv')
      then show ?thesis using asm(1) asm(2) [OF that] placed(2) assms(3) by (simp add: partial_def nth_list_update)
    qed
    then show ?thesis
      using that [OF waiting(2)] waiting(1) placed(1) d by (simp add: kept_def under_way_def update_conv')
  next
    case finished
    then show ?thesis
      using that [OF finished] d by (simp add: under_way_def finish_snapshot_simps finish_snapshot_decodes kept_def)
  qed
qed

text \<open>The chunks arrive in any order, more than once or not at all.\<close>

fun receive_snapshots ::
  "MessageType \<Rightarrow> bytes list \<Rightarrow> Authority \<Rightarrow> Ledger \<Rightarrow> Transfer \<Rightarrow> unit result \<times> Transfer" where
  "receive_snapshots message_type [] a l t = (Inr (), t)"
| "receive_snapshots message_type (payload # payloads) a l t =
     (case handle_snapshot message_type payload a l t of
        (Inl e, t) \<Rightarrow> (Inl e, t)
      | (Inr _, t) \<Rightarrow> receive_snapshots message_type payloads a l t)"

text \<open>The payload of a piece, and when the receiver takes the frame.\<close>

definition wire_frame_of :: "bool \<Rightarrow> u32 \<Rightarrow> u32" where
  "wire_frame_of live_replica frame = (if live_replica then live_replica_wire_frame frame else frame)"

definition payload_of :: "Snapshot \<Rightarrow> bool \<Rightarrow> u32 \<Rightarrow> nat \<Rightarrow> nat \<Rightarrow> bytes" where
  "payload_of p live_replica frame maximum i =
     encode_state_snapshot_chunk (chunk_of p (wire_frame_of live_replica frame) i) maximum"

definition takes_frame :: "Snapshot \<Rightarrow> MessageType \<Rightarrow> bool \<Rightarrow> u32 \<Rightarrow> Authority \<Rightarrow> Ledger \<Rightarrow> Transfer \<Rightarrow> bool" where
  "takes_frame p message_type live_replica frame a l t \<longleftrightarrow>
     au_authoritative_phase_active a \<and> au_scene_epoch a = sp_epoch p \<and> \<not> is_live_replica_frame frame \<and>
     (message_type = MsgLiveReplicaSnapshot \<longrightarrow> live_replica) \<and> snapshot_admitted live_replica frame a l t"

lemma wire_frame_simps:
  assumes "\<not> is_live_replica_frame frame"
  shows "is_live_replica_frame (wire_frame_of live_replica frame) = live_replica"
    "live_replica \<Longrightarrow> live_replica_logical_frame (wire_frame_of live_replica frame) = frame"
proof -
  have t: "(frame OR kLiveReplicaFrameTag) AND kLiveReplicaFrameTag = kLiveReplicaFrameTag"
    by (simp add: bit_eq_iff bit_simps)
  have n: "kLiveReplicaFrameTag \<noteq> 0" by (simp add: kLiveReplicaFrameTag_def)
  have "frame AND kLiveReplicaFrameTag = 0" using assms by (simp add: is_live_replica_frame_def)
  then have "\<not> (bit frame k \<and> bit kLiveReplicaFrameTag k)" for k by (metis bit_0_eq bit_and_iff bot_apply bot_bool_def)
  then have z: "(frame OR kLiveReplicaFrameTag) AND NOT kLiveReplicaFrameTag = frame"
    by (intro bit_word_eqI) (auto simp: bit_simps)
  show "is_live_replica_frame (wire_frame_of live_replica frame) = live_replica"
    using assms t n by (simp add: is_live_replica_frame_def wire_frame_of_def live_replica_wire_frame_def)
  show "live_replica_logical_frame (wire_frame_of live_replica frame) = frame" if live_replica
    using that z by (simp add: live_replica_logical_frame_def wire_frame_of_def live_replica_wire_frame_def)
qed

lemma takes_frame_cong:
  "tf_gameplay_barrier t = tf_gameplay_barrier u \<Longrightarrow> takes_frame p mt b f a l t = takes_frame p mt b f a l u"
  by (simp add: takes_frame_def snapshot_admitted_def gameplay_bootstrap_def)

lemma decode_piece:
  assumes "proper p" "payload_of p b f maximum i \<noteq> []"
  shows "decode_state_snapshot_chunk (payload_of p b f maximum i) = Inr (chunk_of p (wire_frame_of b f) i)"
proof -
  let ?c = "chunk_of p (wire_frame_of b f) i"
  have "unat (sc_total_size ?c) \<le> 14336" "unat (sc_chunk_count ?c) \<le> 16"
    using assms(1) proper_counts(1,4) [OF assms(1)]
    by (simp_all add: chunk_of_def proper_def kMaximumAuthoritativeStateBytes_def)
  then show ?thesis
    unfolding payload_of_def
    by (intro decode_encode_state_snapshot_chunk) (use assms(2) in \<open>simp_all add: payload_of_def word_le_nat_alt\<close>)
qed

lemma handle_piece:
  assumes "proper p" "takes_frame p mt b f a l t" "payload_of p b f maximum i \<noteq> []"
  shows "handle_snapshot mt (payload_of p b f maximum i) a l t =
    receive_chunk b f (chunk_of p (wire_frame_of b f) i) a t"
  using assms(2) wire_frame_simps [of f b] decode_piece [OF assms(1,3)]
  by (cases b) (auto simp: handle_snapshot_def takes_frame_def chunk_of_def Let_def wire_frame_of_def)

lemma payload_index:
  assumes "proper p" "payload_of p b f maximum i = payload_of p b f maximum j" "payload_of p b f maximum i \<noteq> []"
    "i < sp_count p" "j < sp_count p"
  shows "i = j"
proof -
  have "chunk_of p (wire_frame_of b f) i = chunk_of p (wire_frame_of b f) j"
    using decode_piece [OF assms(1), of b f maximum i] decode_piece [OF assms(1), of b f maximum j] assms(2,3) by simp
  then have "(of_nat i :: u16) = of_nat j" by (simp add: chunk_of_def)
  then show ?thesis using proper_counts(3) [OF assms(1)] assms(4,5) by metis
qed

text \<open>Any selection of the chunks, in any order: no failure, and all together give the state.\<close>

lemma receive_pieces:
  assumes "proper p" "takes_frame p mt b f a l t" "under_way p b f state t"
    "\<forall>payload \<in> set ps. \<exists>i < sp_count p. payload = payload_of p b f maximum i \<and> payload \<noteq> []"
  obtains t2 where "receive_snapshots mt ps a l t = (Inr (), t2)" "under_way p b f state t2"
    "tf_gameplay_barrier t2 = tf_gameplay_barrier t"
    "map_of (completed_states b t2) f = Some state \<or>
     map_of (completed_states b t2) f = map_of (completed_states b t) f \<and>
     (\<forall>j < sp_count p. has_piece b f t j \<or> payload_of p b f maximum j \<in> set ps \<longrightarrow> has_piece b f t2 j)"
  using assms(2-4)
proof (induction ps arbitrary: t thesis)
  case (Cons payload ps)
  obtain i where i: "i < sp_count p" "payload = payload_of p b f maximum i" "payload \<noteq> []" using Cons.prems(4) by auto
  obtain t1 where t1: "receive_chunk b f (chunk_of p (wire_frame_of b f) i) a t = (Inr (), t1)"
    "under_way p b f state t1" "tf_gameplay_barrier t1 = tf_gameplay_barrier t"
    "map_of (completed_states b t1) f = Some state \<or>
     map_of (completed_states b t1) f = map_of (completed_states b t) f \<and>
     (\<forall>j < sp_count p. has_piece b f t1 j \<longleftrightarrow> j = i \<or> has_piece b f t j)"
    by (rule receive_chunk_under_way [OF assms(1) Cons.prems(3) i(1)])
  have first: "handle_snapshot mt payload a l t = (Inr (), t1)"
    using handle_piece [OF assms(1) Cons.prems(2), of maximum i] i t1(1) by simp
  obtain t2 where t2: "receive_snapshots mt ps a l t1 = (Inr (), t2)" "under_way p b f state t2"
    "tf_gameplay_barrier t2 = tf_gameplay_barrier t1"
    "map_of (completed_states b t2) f = Some state \<or>
     map_of (completed_states b t2) f = map_of (completed_states b t1) f \<and>
     (\<forall>j < sp_count p. has_piece b f t1 j \<or> payload_of p b f maximum j \<in> set ps \<longrightarrow> has_piece b f t2 j)"
    by (rule Cons.IH [OF _ _ t1(2)]) (use Cons.prems(2,4) takes_frame_cong [OF t1(3)] in auto)
  have "j = i" if "j < sp_count p" "payload_of p b f maximum j = payload" for j
    using payload_index [OF assms(1)] that i by metis
  then show ?case
    using t1(3,4) t2(3,4) first t2(1,2) by (intro Cons.prems(1) [of t2]) auto
qed simp

lemma all_pieces:
  assumes "proper p" "under_way p b f state t"
  shows "\<not> (\<forall>j < sp_count p. has_piece b f t j)"
proof
  assume all: "\<forall>j < sp_count p. has_piece b f t j"
  then have "has_piece b f t 0" using assms(1) by (simp add: proper_def)
  then obtain asm where asm: "map_of (assemblies b t) f = Some asm" by (auto simp: has_piece_def split: option.splits)
  then have "length (sn_present asm) = sp_count p" "\<not> list_all id (sn_present asm)"
    using assms(2) by (auto simp: under_way_def partial_def)
  then show False using all asm by (auto simp: has_piece_def list_all_length)
qed

subsection \<open>From the sender to the receiver\<close>

fun payloads_to :: "u8 \<Rightarrow> Outgoing list \<Rightarrow> bytes list" where
  "payloads_to peer [] = []"
| "payloads_to peer (ToPeer q message_type payload frame # sent) =
     (if q = peer then payload # payloads_to peer sent else payloads_to peer sent)"
| "payloads_to peer (_ # sent) = payloads_to peer sent"

lemma set_payloads_to: "set (payloads_to peer sent) = {payload. \<exists>mt frame. ToPeer peer mt payload frame \<in> set sent}"
  by (induction peer sent rule: payloads_to.induct) auto

definition snapshot_for :: "Transport \<Rightarrow> bytes \<Rightarrow> Authority \<Rightarrow> Snapshot" where
  "snapshot_for transport wire a = \<lparr>sp_wire = wire, sp_bytes = chunk_size transport,
     sp_count = (length wire + chunk_size transport - 1) div chunk_size transport, sp_epoch = au_scene_epoch a\<rparr>"

text \<open>Every requested chunk goes to every peer.\<close>

lemma send_state_spec:
  assumes "send_authoritative_state takes transport peers destination f state requested mt b a t = (True, sent, t2)"
  obtains wire where "wire_state b f state a t = (wire, t2)" "proper (snapshot_for transport wire a)"
    "state \<noteq> []" "length state \<le> kMaximumAuthoritativeStateBytes"
    "\<And>i. i < sp_count (snapshot_for transport wire a) \<Longrightarrow> bit requested i \<Longrightarrow>
       payload_of (snapshot_for transport wire a) b f (tp_maximum_plaintext_datagram_bytes transport) i \<noteq> []"
    "\<And>peer. peer \<in> set (chunk_peers destination peers b f t2) \<Longrightarrow>
       set (payloads_to peer sent) = {payload_of (snapshot_for transport wire a) b f
         (tp_maximum_plaintext_datagram_bytes transport) i | i. i < sp_count (snapshot_for transport wire a) \<and> bit requested i}"
    "\<And>peer. peer \<notin> set (chunk_peers destination peers b f t2) \<Longrightarrow> payloads_to peer sent = []"
proof -
  obtain wire t' where w: "wire_state b f state a t = (wire, t')" by fastforce
  let ?p = "snapshot_for transport wire a" and ?max = "tp_maximum_plaintext_datagram_bytes transport"
  let ?wf = "if b then live_replica_wire_frame f else f"
  have s: "state \<noteq> []" "length state \<le> kMaximumAuthoritativeStateBytes" "56 < ?max"
    using assms by (auto simp: send_authoritative_state_def split: if_splits)
  define k where "k = (length wire + chunk_size transport - 1) div chunk_size transport"
  have k: "sp_count ?p = k" by (simp add: snapshot_for_def k_def)
  have c: "state_chunk ?wf (chunk_size transport) k wire a i = chunk_of ?p (wire_frame_of b f) i" for i
    by (simp add: state_chunk_def chunk_of_def snapshot_for_def piece_def wire_frame_of_def k_def)
  define messages where "messages = concat (map (\<lambda>index.
      let payload = payload_of ?p b f ?max index
      in if payload = [] then [None]
         else map (\<lambda>peer. Some (ToPeer peer mt payload ?wf)) (chunk_peers destination peers b f t'))
      (filter (bit requested) [0..<k]))"
  have r: "wire \<noteq> [] \<and> length wire \<le> kMaximumAuthoritativeStateBytes \<and> sp_count ?p \<noteq> 0 \<and> sp_count ?p \<le> 16 \<and>
      send_in_order takes messages = (True, sent) \<and> t2 = t'"
    using assms s(3) unfolding send_authoritative_state_def w Let_def prod.case k_def [symmetric] c k
      payload_of_def [symmetric] messages_def [unfolded Let_def, symmetric]
    by (cases "send_in_order takes messages") (simp split: if_splits)
  have p: "proper ?p" using r chunk_size_pos [OF s(3)] by (simp add: proper_def snapshot_for_def)
  have m: "map Some sent = messages" by (rule send_in_order_all [of takes]) (use r in simp)
  have n: "payload_of ?p b f ?max i \<noteq> []" if "i < sp_count ?p" "bit requested i" for i
  proof
    assume "payload_of ?p b f ?max i = []"
    then have "None \<in> set messages" using that unfolding messages_def k by (auto simp: Let_def intro!: bexI [of _ i])
    then show False unfolding m [symmetric] by auto
  qed
  have "ToPeer q mt' payload frame \<in> set sent \<longleftrightarrow> q \<in> set (chunk_peers destination peers b f t2) \<and> mt' = mt \<and> frame = ?wf \<and>
      (\<exists>i < sp_count ?p. bit requested i \<and> payload = payload_of ?p b f ?max i)" for q mt' payload frame
  proof -
    have "ToPeer q mt' payload frame \<in> set sent \<longleftrightarrow> Some (ToPeer q mt' payload frame) \<in> set messages"
      unfolding m [symmetric] by auto
    also have "\<dots> \<longleftrightarrow> q \<in> set (chunk_peers destination peers b f t2) \<and> mt' = mt \<and> frame = ?wf \<and>
      (\<exists>i < sp_count ?p. bit requested i \<and> payload = payload_of ?p b f ?max i)"
      using n r unfolding messages_def k by (auto simp: Let_def)
    finally show ?thesis .
  qed
  then have t: "set (payloads_to peer sent) = {payload. peer \<in> set (chunk_peers destination peers b f t2) \<and>
      (\<exists>i < sp_count ?p. bit requested i \<and> payload = payload_of ?p b f ?max i)}" for peer
    by (auto simp: set_payloads_to)
  show ?thesis
  proof (rule that [of wire])
    show "payloads_to peer sent = []" if "peer \<notin> set (chunk_peers destination peers b f t2)" for peer
      using t [of peer] that by simp
  qed (use w r p s n t in auto)
qed

lemma bit_all_chunks: "i < 16 \<Longrightarrow> bit (0xFFFF :: u16) i"
proof -
  have "(0xFFFF :: u16) = mask 16" by (simp add: mask_eq_exp_minus_1)
  then show ?thesis if "i < 16" using that by (simp only: bit_mask_iff) simp
qed

text \<open>A state arrives, whatever the order and the number of times its chunks arrive.\<close>

lemma transfer_arrives:
  assumes "send_authoritative_state takes transport peers destination f state 0xFFFF mt b ha ht = (True, sent, ht2)"
    "cache_ok ht" "own_magic state" "payloads_to peer sent \<noteq> []"
    "au_authoritative_phase_active ga" "au_scene_epoch ga = au_scene_epoch ha" "\<not> is_live_replica_frame f"
    "mt = MsgLiveReplicaSnapshot \<longrightarrow> b" "snapshot_admitted b f ga l t" "b \<longrightarrow> same_keyframe f ht t"
    "map_of (assemblies b t) f = None" "set ps \<subseteq> set (payloads_to peer sent)"
  obtains wire t2 where "receive_snapshots mt ps ga l t = (Inr (), t2)"
    "wire_state b f state ha ht = (wire, ht2)" "under_way (snapshot_for transport wire ha) b f state t2"
    "tf_gameplay_barrier t2 = tf_gameplay_barrier t"
    "map_of (completed_states b t2) f = Some state \<or>
     map_of (completed_states b t2) f = map_of (completed_states b t) f \<and> \<not> set (payloads_to peer sent) \<subseteq> set ps"
proof -
  obtain wire where w: "wire_state b f state ha ht = (wire, ht2)" "proper (snapshot_for transport wire ha)"
    "state \<noteq> []" "length state \<le> kMaximumAuthoritativeStateBytes"
    and n: "\<And>i. i < sp_count (snapshot_for transport wire ha) \<Longrightarrow> bit (0xFFFF :: u16) i \<Longrightarrow>
       payload_of (snapshot_for transport wire ha) b f (tp_maximum_plaintext_datagram_bytes transport) i \<noteq> []"
    and s: "\<And>peer. peer \<in> set (chunk_peers destination peers b f ht2) \<Longrightarrow>
       set (payloads_to peer sent) = {payload_of (snapshot_for transport wire ha) b f
         (tp_maximum_plaintext_datagram_bytes transport) i | i. i < sp_count (snapshot_for transport wire ha) \<and> bit (0xFFFF :: u16) i}"
    and e: "\<And>peer. peer \<notin> set (chunk_peers destination peers b f ht2) \<Longrightarrow> payloads_to peer sent = []"
    by (rule send_state_spec [OF assms(1)]) blast
  let ?p = "snapshot_for transport wire ha" and ?max = "tp_maximum_plaintext_datagram_bytes transport"
  have c: "sp_count ?p \<le> 16" using w(2) by (simp add: proper_def)
  then have all: "i < sp_count ?p \<Longrightarrow> bit (0xFFFF :: u16) i" for i by (intro bit_all_chunks) simp
  have to: "set (payloads_to peer sent) = payload_of ?p b f ?max ` {..<sp_count ?p}"
    using s [of peer] e [of peer] assms(4) all by (cases "peer \<in> set (chunk_peers destination peers b f ht2)") auto
  have u: "under_way ?p b f state t"
    using wire_state_decodes(1) [OF w(1) assms(2,3) w(3,4)] assms(10,11) by (simp add: under_way_def snapshot_for_def)
  have tf: "takes_frame ?p mt b f ga l t" using assms(5-9) by (simp add: takes_frame_def snapshot_for_def)
  have sub: "\<forall>payload \<in> set ps. \<exists>i < sp_count ?p. payload = payload_of ?p b f ?max i \<and> payload \<noteq> []"
  proof
    fix payload assume "payload \<in> set ps"
    then obtain i where "i < sp_count ?p" "payload = payload_of ?p b f ?max i" using assms(12) to by auto
    then show "\<exists>i < sp_count ?p. payload = payload_of ?p b f ?max i \<and> payload \<noteq> []" using n all by blast
  qed
  obtain t2 where t2: "receive_snapshots mt ps ga l t = (Inr (), t2)" "under_way ?p b f state t2"
    "tf_gameplay_barrier t2 = tf_gameplay_barrier t"
    "map_of (completed_states b t2) f = Some state \<or>
     map_of (completed_states b t2) f = map_of (completed_states b t) f \<and>
     (\<forall>j < sp_count ?p. has_piece b f t j \<or> payload_of ?p b f ?max j \<in> set ps \<longrightarrow> has_piece b f t2 j)"
    by (rule receive_pieces [OF w(2) tf u sub]) blast
  then show ?thesis using that [OF t2(1) w(1) t2(2,3)] t2(4) all_pieces [OF w(2) t2(2)] to by blast
qed

subsection \<open>Missing chunks are asked for and answered\<close>

lemma bit_missing:
  "bit (fold (\<lambda>index missing. if \<not> P index then missing OR push_bit index 1 else missing) [0..<n] (0 :: u16)) i \<longleftrightarrow>
     i < n \<and> i < 16 \<and> \<not> P i"
  by (induction n) (auto simp: bit_simps less_Suc_eq)

lemma send_in_order_some: "send_in_order (\<lambda>_. True) (map Some xs) = (True, xs)"
proof -
  have "(\<lambda>_ :: nat. True) \<circ> Suc = (\<lambda>_. True)" by (simp add: comp_def)
  then show ?thesis by (induction xs) simp_all
qed

lemma send_state_answers:
  assumes "wire_state b f state a t = (wire, t2)" "proper (snapshot_for transport wire a)" "wire \<noteq> []"
    "au_is_host a" "state \<noteq> []" "length state \<le> kMaximumAuthoritativeStateBytes"
    "56 < tp_maximum_plaintext_datagram_bytes transport"
    "\<And>i. i < sp_count (snapshot_for transport wire a) \<Longrightarrow>
       payload_of (snapshot_for transport wire a) b f (tp_maximum_plaintext_datagram_bytes transport) i \<noteq> []"
  obtains sent where
    "send_authoritative_state (\<lambda>_. True) transport peers destination f state requested mt b a t = (True, sent, t2)"
proof -
  let ?p = "snapshot_for transport wire a" and ?max = "tp_maximum_plaintext_datagram_bytes transport"
  let ?wf = "if b then live_replica_wire_frame f else f"
  define k where "k = (length wire + chunk_size transport - 1) div chunk_size transport"
  have k: "sp_count ?p = k" by (simp add: snapshot_for_def k_def)
  have c: "state_chunk ?wf (chunk_size transport) k wire a i = chunk_of ?p (wire_frame_of b f) i" for i
    by (simp add: state_chunk_def chunk_of_def snapshot_for_def piece_def wire_frame_of_def k_def)
  define plan where "plan = concat (map (\<lambda>index. map (\<lambda>peer. ToPeer peer mt (payload_of ?p b f ?max index) ?wf)
      (chunk_peers destination peers b f t2)) (filter (bit requested) [0..<k]))"
  have "concat (map (\<lambda>index.
      if payload_of ?p b f ?max index = [] then [None]
      else map (\<lambda>peer. Some (ToPeer peer mt (payload_of ?p b f ?max index) ?wf)) (chunk_peers destination peers b f t2))
      (filter (bit requested) [0..<k])) = map Some plan"
  proof -
    have "(if payload_of ?p b f ?max index = [] then [None]
        else map (\<lambda>peer. Some (ToPeer peer mt (payload_of ?p b f ?max index) ?wf)) (chunk_peers destination peers b f t2)) =
      map Some (map (\<lambda>peer. ToPeer peer mt (payload_of ?p b f ?max index) ?wf) (chunk_peers destination peers b f t2))"
      if "index \<in> set (filter (bit requested) [0..<k])" for index
      using that assms(8) [of index] k by (simp add: comp_def)
    then show ?thesis unfolding plan_def map_concat map_map comp_def by (intro arg_cong [of _ _ concat] map_cong) auto
  qed
  moreover have "0 < k" "k \<le> 16" "length wire \<le> kMaximumAuthoritativeStateBytes"
    using assms(2) k by (auto simp: proper_def snapshot_for_def)
  ultimately have "send_authoritative_state (\<lambda>_. True) transport peers destination f state requested mt b a t =
      (True, plan, t2)"
    using assms(3-7)
    unfolding send_authoritative_state_def assms(1) Let_def prod.case k_def [symmetric] c payload_of_def [symmetric]
    by (simp add: send_in_order_some)
  then show ?thesis by (rule that)
qed

text \<open>Chunks that arrive do not touch the clock of the requests.\<close>

lemma receive_chunk_clock:
  assumes "receive_chunk b f chunk a t = (r, t1)"
  shows "tf_last_authoritative_request_frame t1 = tf_last_authoritative_request_frame t \<and>
    tf_last_authoritative_request t1 = tf_last_authoritative_request t"
  using assms
  by (auto simp: receive_chunk_def finish_snapshot_def set_assemblies_def set_completed_states_def Let_def
      split: if_splits option.splits)

lemma receive_snapshots_clock:
  assumes "receive_snapshots mt ps a l t = (r, t1)"
  shows "tf_last_authoritative_request_frame t1 = tf_last_authoritative_request_frame t \<and>
    tf_last_authoritative_request t1 = tf_last_authoritative_request t"
  using assms
proof (induction ps arbitrary: t)
  case (Cons payload ps)
  obtain e u where u: "handle_snapshot mt payload a l t = (e, u)" by fastforce
  then have "tf_last_authoritative_request_frame u = tf_last_authoritative_request_frame t \<and>
      tf_last_authoritative_request u = tf_last_authoritative_request t"
    using receive_chunk_clock by (auto simp: handle_snapshot_def Let_def split: sum.splits if_splits)
  then show ?case using Cons u by (auto split: sum.splits)
qed simp

text \<open>
  A guest that waits for a checkpoint and polls again when the time of the route is over asks
  for what it lacks.
\<close>

lemma poll_asks_again:
  assumes "poll_authoritative_state f players0 status0 now0 ga t0 = (PollPending, s0, e0, asked0, t)" "\<not> au_is_host ga"
    "tf_last_authoritative_request t0 \<le> now0" "receive_snapshots mt ps ga l t = (r, t1)"
    "map_of (tf_authoritative_states t1) f = None" "measured_route players ga = (rtt, jitter)"
    "now - now0 \<ge> milliseconds (uint (checkpoint_retry_milliseconds rtt jitter))"
  shows "poll_authoritative_state f players status now ga t1 = (PollPending, [], [],
    [state_request f (map_of (tf_snapshot_assemblies t1) f) ga], t1\<lparr>tf_last_authoritative_request := now\<rparr>)"
proof -
  have "au_authoritative_phase_active ga" "au_state ga = StateRunning" "tf_last_authoritative_request_frame t = f"
    "tf_last_authoritative_request t \<le> now0"
    using assms(1-3) by (auto simp: poll_authoritative_state_def Let_def split: if_splits option.splits prod.splits)
  then show ?thesis
    using receive_snapshots_clock [OF assms(4)] assms(2,5-7) by (simp add: poll_authoritative_state_def Let_def)
qed

text \<open>
  A guest that has received a part of a checkpoint and polls for it asks for the rest;
  Player 1 answers; and when the answer has arrived, among late chunks of the first sending, the
  next poll returns the state.
\<close>

lemma repair_arrives:
  assumes "send_authoritative_state takes transport peers destination f state 0xFFFF MsgStateSnapshot False ha ht =
      (True, sent, ht2)"
    "cache_ok ht" "own_magic state" "payloads_to peer sent \<noteq> []"
    "au_scene_epoch ga = au_scene_epoch ha" "\<not> is_live_replica_frame f"
    "snapshot_admitted False f ga l t" "map_of (tf_snapshot_assemblies t) f = None"
    "set ps \<subseteq> set (payloads_to peer sent)"
    "receive_snapshots MsgStateSnapshot ps ga l t = (r, t1)"
    "au_authoritative_phase_active ga" "au_state ga = StateRunning" "map_of (tf_authoritative_states t1) f = None"
    "\<not> au_is_host ga" "ToHost mt request g = state_request f (map_of (tf_snapshot_assemblies t1) f) ga"
    "au_authoritative_phase_active ha" "cache_ok hu" "map_of (tf_authoritative_states hu) f = Some state"
    "handle_state_request (\<lambda>_. True) transport peers peer request ha hu = (answer, hv)"
    "set (payloads_to peer answer) \<subseteq> set qs" "set qs \<subseteq> set (payloads_to peer answer) \<union> set (payloads_to peer sent)"
    "t2 = t1\<lparr>tf_last_authoritative_request := now\<rparr>"
  obtains t3 where "receive_snapshots MsgStateSnapshot qs ga l t2 = (Inr (), t3)"
    "poll_authoritative_state f later_players later_status later_now ga t3 = (PollReady, state, [], [], retire_checkpoints f t3)"
proof -
  let ?max = "tp_maximum_plaintext_datagram_bytes transport"
  note poll = assms(11-14) and rq = assms(15)
  have t2: "tf_snapshot_assemblies t2 = tf_snapshot_assemblies t1" "tf_authoritative_states t2 = tf_authoritative_states t1"
      "tf_gameplay_barrier t2 = tf_gameplay_barrier t1" "decode_snapshot w t2 = decode_snapshot w t1" for w
    using assms(22) by (simp_all add: decode_snapshot_def cong: option.case_cong)
  obtain wire where w: "wire_state False f state ha ht = (wire, ht2)"
    and u: "under_way (snapshot_for transport wire ha) False f state t1" "tf_gameplay_barrier t1 = tf_gameplay_barrier t"
  proof (rule transfer_arrives [OF assms(1-4) poll(1) assms(5,6) _ assms(7) _ _ assms(9)])
    show "map_of (assemblies False t) f = None" using assms(8) by (simp add: assemblies_def)
  qed (use assms(10) in auto)
  let ?p = "snapshot_for transport wire ha"
  obtain wire' where wp: "wire' = wire" "proper ?p" "state \<noteq> []" "length state \<le> kMaximumAuthoritativeStateBytes"
    and n: "\<And>i. i < sp_count ?p \<Longrightarrow> bit (0xFFFF :: u16) i \<Longrightarrow> payload_of ?p False f ?max i \<noteq> []"
    and first: "set (payloads_to peer sent) \<subseteq> payload_of ?p False f ?max ` {..<sp_count ?p}"
  proof (rule send_state_spec [OF assms(1)], goal_cases)
    case (1 wire')
    then have w': "wire' = wire" using w by simp
    then have "set (payloads_to peer sent) \<subseteq> payload_of ?p False f ?max ` {..<sp_count ?p}"
    proof (cases "peer \<in> set (chunk_peers destination peers False f ht2)")
      case True
      from 1(7) [OF this] show ?thesis using w' by auto
    next
      case False
      from 1(8) [OF this] show ?thesis by simp
    qed
    then show ?case using 1 w' by (intro 1(1) [of wire']) auto
  qed
  have c: "sp_count ?p \<le> 16" "0 < sp_count ?p" using wp(2) by (simp_all add: proper_def)
  then have n: "payload_of ?p False f ?max i \<noteq> []" if "i < sp_count ?p" for i
    using that n bit_all_chunks [of i] by simp
  have h: "au_is_host ha" "56 < ?max" "wire \<noteq> []"
    using assms(1) w unfolding send_authoritative_state_def Let_def by (auto split: if_splits)
  have pw: "wire = encode_authoritative_state_wire state"
    using wire_state_sources(1) [OF w assms(2)] by simp
  obtain wire2 ht3 where w2: "wire_state False f state ha hu = (wire2, ht3)" by fastforce
  have "wire2 = wire" using wire_state_sources(1) [OF w2 assms(17)] pw by simp
  note w2 = w2 [unfolded this]
  let ?entry = "map_of (tf_snapshot_assemblies t1) f"
  obtain count missing where m: "missing_chunks ?entry = (count, missing)" by fastforce
  have part: "partial ?p asm \<and> \<not> list_all id (sn_present asm)" if "?entry = Some asm" for asm
    using u(1) that by (simp add: under_way_def assemblies_def)
  have cm: "0 < count \<and> count \<le> 16 \<and> missing \<noteq> 0 \<and>
      (\<forall>i < sp_count ?p. bit missing i \<longleftrightarrow> \<not> has_piece False f t1 i)"
  proof (cases ?entry)
    case None
    then show ?thesis using m bit_all_chunks c
      by (auto simp: missing_chunks_def has_piece_def assemblies_def)
  next
    case (Some asm)
    note a = part [OF Some, THEN conjunct1, unfolded partial_def]
    have cc: "sn_chunk_count asm = of_nat (sp_count ?p)" "unat (sn_chunk_count asm) = sp_count ?p"
      using a proper_counts(1) [OF wp(2)] by auto
    then have cp: "0 < sn_chunk_count asm" "sn_chunk_count asm \<le> 16"
      using c by (simp_all add: word_less_nat_alt word_le_nat_alt)
    have mb: "count = sn_chunk_count asm" "\<And>i. bit missing i \<longleftrightarrow> i < sp_count ?p \<and> i < 16 \<and> \<not> sn_present asm ! i"
      using m cp cc by (auto simp: missing_chunks_def Some bit_missing)
    obtain j where "j < sp_count ?p" "\<not> sn_present asm ! j" using part [OF Some] a by (auto simp: list_all_length)
    then have "bit missing j" using mb(2) c by auto
    then have "missing \<noteq> 0" by auto
    then show ?thesis using mb cp c Some by (auto simp: has_piece_def assemblies_def)
  qed
  have epoch: "au_scene_epoch ga \<noteq> 0"
    using n [OF c(2)] assms(5) by (auto simp: payload_of_def chunk_of_def snapshot_for_def encode_state_snapshot_chunk_def)
  let ?request = "\<lparr>sr_scene_epoch = au_scene_epoch ga, sr_frame = f, sr_chunk_count = count, sr_missing_chunks = missing\<rparr>"
  have req: "request = encode_state_request ?request" using rq m by (simp add: state_request_def)
  have "encode_state_request ?request \<noteq> []" using cm epoch by (auto simp: encode_state_request_def Put_nonempty)
  then have dec: "decode_state_request request = Inr ?request" by (simp add: req state_request.exact)
  obtain sent2 where sent2: "send_authoritative_state (\<lambda>_. True) transport peers (Some peer) f state missing
      MsgStateSnapshot False ha hu = (True, sent2, ht3)"
    by (rule send_state_answers [OF w2 wp(2) h(3) h(1) wp(3,4) h(2) n])
  have answer: "answer = sent2" using assms(6,16,18,19) dec sent2 assms(5) by (simp add: handle_state_request_def)
  have to: "set (payloads_to peer answer) = {payload_of ?p False f ?max i | i. i < sp_count ?p \<and> bit missing i}"
  proof (rule send_state_spec [OF sent2], goal_cases)
    case (1 wire')
    then have "wire' = wire" using w2 by simp
    then show ?case using 1(6) [of peer] answer by (simp add: chunk_peers_def)
  qed
  have tf: "takes_frame ?p MsgStateSnapshot False f ga l t2"
    using poll(1) assms(5-7) t2(3) u(2)
    by (simp add: takes_frame_def snapshot_for_def snapshot_admitted_def gameplay_bootstrap_def)
  have u2: "under_way ?p False f state t2" using u(1) t2 by (simp add: under_way_def assemblies_def)
  have hp: "has_piece False f t2 i = has_piece False f t1 i" for i using t2(1) by (simp add: has_piece_def assemblies_def)
  have sub: "\<forall>payload \<in> set qs. \<exists>i < sp_count ?p. payload = payload_of ?p False f ?max i \<and> payload \<noteq> []"
  proof
    fix payload assume "payload \<in> set qs"
    then have "payload \<in> payload_of ?p False f ?max ` {..<sp_count ?p}" using assms(21) to first by auto
    then show "\<exists>i < sp_count ?p. payload = payload_of ?p False f ?max i \<and> payload \<noteq> []" using n by auto
  qed
  obtain t3 where t3: "receive_snapshots MsgStateSnapshot qs ga l t2 = (Inr (), t3)" "under_way ?p False f state t3"
    "map_of (completed_states False t3) f = Some state \<or>
     map_of (completed_states False t3) f = map_of (completed_states False t2) f \<and>
     (\<forall>j < sp_count ?p. has_piece False f t2 j \<or> payload_of ?p False f ?max j \<in> set qs \<longrightarrow> has_piece False f t3 j)"
    by (rule receive_pieces [OF wp(2) tf u2 sub]) blast
  have "has_piece False f t2 j \<or> payload_of ?p False f ?max j \<in> set qs" if "j < sp_count ?p" for j
  proof (cases "has_piece False f t1 j")
    case False
    then have "payload_of ?p False f ?max j \<in> set (payloads_to peer answer)" using that cm unfolding to by blast
    then show ?thesis using assms(20) by blast
  qed (use hp in simp)
  then have "map_of (tf_authoritative_states t3) f = Some state"
    using t3(3) all_pieces [OF wp(2) t3(2)] by (auto simp: completed_states_def)
  then show ?thesis using that [OF t3(1)] poll by (simp add: poll_authoritative_state_def)
qed

subsection \<open>An example\<close>

definition example_transfer :: Transfer where
  "example_transfer = \<lparr>tf_authoritative_states = [], tf_authoritative_acknowledgements = [], tf_fully_acknowledged_states = [],
     tf_snapshot_assemblies = [], tf_live_replica_states = [], tf_live_replica_assemblies = [],
     tf_live_replica_keyframe_frame = None, tf_live_replica_keyframe_state = [], tf_checkpoint_encoding = None,
     tf_last_authoritative_request_frame = 0, tf_last_authoritative_request = 0,
     tf_last_live_replica_request_frame = 0, tf_last_live_replica_request = 0,
     tf_recovery_stage = StageIdle, tf_gameplay_barrier = None\<rparr>"

definition example_transport :: Transport where
  "example_transport = \<lparr>tp_quick_join = True, tp_maximum_plaintext_datagram_bytes = 60\<rparr>"

text \<open>A state of ten bytes, which travels raw and in three chunks.\<close>

definition example_state :: bytes where
  "example_state = [0x44, 0x4B, 0x52, 0x41, 1, 2, 3, 4, 5, 6]"

lemma example_sent:
  assumes "au_is_host a" "au_scene_epoch a \<noteq> 0"
  obtains sent t2 where "send_authoritative_state (\<lambda>_. True) example_transport [1] None 3 example_state 0xFFFF
      MsgStateSnapshot False a example_transfer = (True, sent, t2)" "payloads_to 1 sent \<noteq> []"
    "proper (snapshot_for example_transport example_state a)" "sp_count (snapshot_for example_transport example_state a) = 3"
    "\<And>i. i < 3 \<Longrightarrow> payload_of (snapshot_for example_transport example_state a) False 3 60 i \<in> set (payloads_to 1 sent)"
    "payload_of (snapshot_for example_transport example_state a) False 3 60 1 \<noteq> []"
proof -
  let ?p = "snapshot_for example_transport example_state a" and ?max = "tp_maximum_plaintext_datagram_bytes example_transport"
  have l: "length example_state = 10" "chunk_size example_transport = 4" "?max = 60"
    by (simp_all add: example_state_def chunk_size_def example_transport_def kMaximumAuthoritativeStateBytes_def)
  have "2 \<le> length (rle_body example_state)" by code_simp
  then have e: "encode_authoritative_state_wire example_state = example_state"
    using l(1) by (simp add: encode_authoritative_state_wire_def encode_rle_def Let_def)
  have s: "example_state \<noteq> []" using l(1) by auto
  obtain t2 where w: "wire_state False 3 example_state a example_transfer = (example_state, t2)"
    using s by (simp add: wire_state_def example_transfer_def e)
  have p: "proper ?p" using l by (simp add: proper_def snapshot_for_def kMaximumAuthoritativeStateBytes_def)
  have n: "payload_of ?p False 3 ?max i \<noteq> []" if "i < sp_count ?p" for i
  proof -
    have i: "i < 3" using that l by (simp add: snapshot_for_def)
    then have "(of_nat i :: u16) < 3" by (simp add: word_less_nat_alt of_nat_u16_unat)
    moreover have "authoritative_state_checksum example_state \<noteq> 0" by (simp add: authoritative_state_checksum_def Let_def)
    ultimately show ?thesis
      using assms(2) i l by (simp add: payload_of_def encode_state_snapshot_chunk_def chunk_of_def snapshot_for_def piece_def
          kMaximumQuickJoinDatagramBytes_def Put_nonempty)
  qed
  obtain sent where sent: "send_authoritative_state (\<lambda>_. True) example_transport [1] None 3 example_state 0xFFFF
      MsgStateSnapshot False a example_transfer = (True, sent, t2)"
    by (rule send_state_answers [OF w p s assms(1) s _ _ n]) (use l in \<open>simp_all add: kMaximumAuthoritativeStateBytes_def\<close>)
  have "payload_of ?p False 3 ?max i \<in> set (payloads_to 1 sent)" if "i < 3" for i
  proof (rule send_state_spec [OF sent], goal_cases)
    case (1 wire)
    then have wire: "wire = example_state" using w by simp
    have "tf_authoritative_acknowledgements t2 = []"
      using w by (auto simp: wire_state_def example_transfer_def e s split: if_splits)
    then have "(1 :: u8) \<in> set (chunk_peers None [1] False 3 t2)" by (simp add: chunk_peers_def)
    moreover have "i < sp_count ?p" using that l by (simp add: snapshot_for_def)
    moreover have "bit (0xFFFF :: u16) i" using that by (intro bit_all_chunks) simp
    ultimately show ?case unfolding 1(6) [OF \<open>(1 :: u8) \<in> set (chunk_peers None [1] False 3 t2)\<close>] wire l(3) by auto
  qed
  then have to: "payload_of ?p False 3 60 i \<in> set (payloads_to 1 sent)" if "i < 3" for i using that l(3) by simp
  have three: "sp_count ?p = 3" using l by (simp add: snapshot_for_def)
  have "payload_of ?p False 3 60 1 \<noteq> []" using n [of 1] three l(3) by simp
  moreover have "payloads_to 1 sent \<noteq> []" using to [of 0] by auto
  ultimately show ?thesis using that [OF sent _ p three to] by blast
qed

text \<open>A guest that has received the second of the three chunks has a part, and no state yet.\<close>

lemma example_part:
  assumes "proper p" "sp_count p = 3" "takes_frame p MsgStateSnapshot False 3 ga l t" "payload_of p False 3 maximum 1 \<noteq> []"
    "tf_snapshot_assemblies t = []"
  shows "\<exists>assembly. receive_snapshots MsgStateSnapshot [payload_of p False 3 maximum 1] ga l t =
    (Inr (), t\<lparr>tf_snapshot_assemblies := [(3, assembly)]\<rparr>)"
proof -
  have three: "replicate 3 False = [False, False, False]" by (simp add: numeral_3_eq_3)
  have "receive_chunk False 3 (chunk_of p (wire_frame_of False 3) 1) ga t =
     (Inr (), t\<lparr>tf_snapshot_assemblies := [(3, place_chunk (chunk_of p (wire_frame_of False 3) 1)
        (fresh_assembly (chunk_of p (wire_frame_of False 3) 1)))]\<rparr>)"
    using assms(2,5) three by (simp add: receive_chunk_def make_room_def assemblies_def set_assemblies_def fresh_assembly_def
        same_snapshot_def place_chunk_def chunk_of_def Let_def)
  then show ?thesis using handle_piece [OF assms(1,3,4)] by auto
qed

end
