(* ===== verification/Race_Start.thy ===== *)
theory Race_Start
  imports Input_Admission State_Transfer
begin

section \<open>The start of a race\<close>

text \<open>
  Models how the machines of a session start a race together, in \<^verbatim>\<open>direct_session.cpp\<close>.
  First the handoff: whoever loads a track parks the old timeline of inputs at a boundary
  Player 1 decides, and Player 1 assigns the next input epoch. Then the barrier: Player 1
  announces its scene (\<^verbatim>\<open>Prepare\<close>), every guest that has loaded the same scene says \<^verbatim>\<open>Ready\<close>,
  Player 1 releases the baseline, and when everybody has acknowledged it lets the guests arm
  the new input epoch (\<^verbatim>\<open>Arm\<close>, \<^verbatim>\<open>Armed\<close>) and starts the race (\<^verbatim>\<open>Go\<close>).

  \<^item> \<open>Racer\<close> is one machine: its \<open>Session\<close>, its \<open>Transfer\<close> and \<open>RaceStart\<close>, the further members
    these operations change. Points of the clock are nanoseconds, 0 for one that was never set.
  \<^item> Active peers of Player 1 are pairs of slot and sender.
  \<^item> The outbound queues, the transition barrier and statistics (among them the pending and
    the retired epoch, which only count packets) are left out, and so are status lines and the
    calls that wait, which are loops around the polls.
\<close>

subsection \<open>Data\<close>

record CompletedRelease =
  cr_type :: MessageType
  cr_epoch :: u32
  cr_boundary :: u32
  cr_detail :: u32
  cr_recipients :: "u64 list"
  cr_expires :: int

record RaceStart =
  st_last_host_scene_epoch :: u32
  st_last_gameplay_barrier_broadcast :: int
  st_gameplay_resume_until :: int
  st_last_gameplay_ready_announcement :: int
  st_last_gameplay_resume_ack :: int
  st_last_gameplay_handoff_send :: int
  st_completed_releases :: "CompletedRelease list"

record Racer =
  rc_session :: Session
  rc_transfer :: Transfer
  rc_start :: RaceStart

abbreviation rc_authority :: "Racer \<Rightarrow> Authority" where
  "rc_authority x \<equiv> ss_authority (rc_session x)"

abbreviation rc_ledger :: "Racer \<Rightarrow> Ledger" where
  "rc_ledger x \<equiv> ss_ledger (rc_session x)"

abbreviation rc_barrier :: "Racer \<Rightarrow> GameplayBarrierState option" where
  "rc_barrier x \<equiv> tf_gameplay_barrier (rc_transfer x)"

definition set_handoff :: "GameplayHandoffState option \<Rightarrow> Session \<Rightarrow> Session" where
  "set_handoff h s = s\<lparr>ss_authority := (ss_authority s)\<lparr>au_gameplay_handoff := h\<rparr>\<rparr>"

definition set_barrier :: "GameplayBarrierState \<Rightarrow> Racer \<Rightarrow> Racer" where
  "set_barrier b x = x\<lparr>rc_transfer := (rc_transfer x)\<lparr>tf_gameplay_barrier := Some b\<rparr>\<rparr>"

definition fail_racer :: "string \<Rightarrow> Racer \<Rightarrow> Outgoing list \<times> Racer" where
  "fail_racer message x = (let (sent, s) = fail_locked message (rc_session x) in (sent, x\<lparr>rc_session := s\<rparr>))"

text \<open>A retry is due: nothing was sent yet, or the interval is over.\<close>

definition due :: "int \<Rightarrow> int \<Rightarrow> int \<Rightarrow> bool" where
  "due now sent interval \<longleftrightarrow> sent = 0 \<or> now - sent \<ge> milliseconds interval"

subsection \<open>The handoff\<close>

definition adopt_gameplay_handoff ::
  "GameplayHandoffPayload \<Rightarrow> bool \<Rightarrow> int \<Rightarrow> Session \<Rightarrow> unit result \<times> Session" where
  "adopt_gameplay_handoff p local_load_started now s =
     (let a = ss_authority s; next_frame = lg_next_commit_frame (ss_ledger s);
          current = GameplayHandoffPayload.gh_current_input_epoch p;
          resume = GameplayHandoffPayload.gh_resume_input_epoch p;
          boundary = GameplayHandoffPayload.gh_boundary_frame p;
          level = GameplayHandoffPayload.gh_map p in
      if au_state a \<noteq> StateRunning \<or> au_launch_descriptor a = None \<or> current \<noteq> au_input_epoch a \<or>
         \<not> (resume = 0 \<and> boundary \<le> next_frame) \<and> \<not> (resume \<noteq> 0 \<and> boundary \<ge> next_frame)
      then (Inl ''The gameplay handoff did not match the active input timeline.'', s)
      else case au_gameplay_handoff a of
        None \<Rightarrow> (Inr (), set_handoff (Some \<lparr>gh_current_input_epoch = current, gh_resume_input_epoch = resume,
            gh_boundary_frame = boundary,
            gh_local_suspend_frame = (if resume \<noteq> 0 \<or> local_load_started then boundary else next_frame),
            gh_map = level, gh_local_load_started = local_load_started, gh_suspended = True, gh_armed = False,
            gh_deadline = now + seconds 90\<rparr>) s)
      | Some h \<Rightarrow>
          if gh_current_input_epoch h \<noteq> current \<or> gh_map h \<noteq> level
          then (Inl ''The racers attempted to load conflicting tracks.'', s)
          else
            let h = h\<lparr>gh_suspended := True\<rparr> in
            if resume \<noteq> 0 \<and> gh_resume_input_epoch h \<noteq> 0 \<and> gh_resume_input_epoch h \<noteq> resume
            then (Inl ''Player 1 assigned conflicting gameplay input epochs.'', set_handoff (Some h) s)
            else
              let h = (if resume \<noteq> 0
                    then h\<lparr>gh_resume_input_epoch := resume, gh_boundary_frame := boundary,
                           gh_local_suspend_frame := (if gh_local_load_started h
                             then gh_local_suspend_frame h else boundary)\<rparr>
                    else h);
                  h = (if local_load_started
                    then h\<lparr>gh_local_load_started := True,
                           gh_local_suspend_frame := (if gh_resume_input_epoch h = 0
                             then min (gh_local_suspend_frame h) boundary else gh_local_suspend_frame h)\<rparr>
                    else h)
              in (Inr (), set_handoff (Some h) s))"

definition send_gameplay_handoff ::
  "GameplayHandoffStage \<Rightarrow> int \<Rightarrow> Racer \<Rightarrow> Outgoing list \<times> Racer" where
  "send_gameplay_handoff stage now x =
     (let a = rc_authority x in
      case au_gameplay_handoff a of None \<Rightarrow> ([], x)
      | Some h \<Rightarrow>
          let payload = encode_gameplay_handoff
                \<lparr>GameplayHandoffPayload.gh_current_input_epoch = gh_current_input_epoch h,
                 gh_resume_input_epoch = (if stage = HandoffSuspend then gh_resume_input_epoch h else 0),
                 gh_boundary_frame = gh_boundary_frame h, gh_map = gh_map h,
                 gh_player_slot = au_local_slot a, gh_stage = stage\<rparr>
          in if payload = [] \<or> (if au_is_host a then stage \<noteq> HandoffSuspend else stage \<noteq> HandoffRequest)
             then ([], x)
             else (if au_is_host a
                   then replicate 3 (Broadcast MsgGameplayHandoff payload (gh_boundary_frame h))
                   else [ToHost MsgGameplayHandoff payload (gh_boundary_frame h)],
                   x\<lparr>rc_start := (rc_start x)\<lparr>st_last_gameplay_handoff_send := now\<rparr>\<rparr>))"

definition resume_epoch :: "u32 \<Rightarrow> u32" where
  "resume_epoch input_epoch = (if input_epoch + 1 = 0 then 1 else input_epoch + 1)"

definition begin_gameplay_handoff ::
  "u32 \<Rightarrow> u32 \<Rightarrow> int \<Rightarrow> Racer \<Rightarrow> unit result \<times> Outgoing list \<times> Racer" where
  "begin_gameplay_handoff boundary_frame level now x =
     (let a = rc_authority x;
          stage = (if au_is_host a then HandoffSuspend else HandoffRequest);
          (outcome, s) = adopt_gameplay_handoff
            \<lparr>GameplayHandoffPayload.gh_current_input_epoch = au_input_epoch a,
             gh_resume_input_epoch = (if au_is_host a then resume_epoch (au_input_epoch a) else 0),
             gh_boundary_frame = boundary_frame, gh_map = level, gh_player_slot = au_local_slot a,
             gh_stage = stage\<rparr> True now (rc_session x);
          x = x\<lparr>rc_session := s\<rparr>
      in case outcome of Inl e \<Rightarrow> (Inl e, [], x)
         | Inr _ \<Rightarrow> let (sent, x) = send_gameplay_handoff stage now x in (Inr (), sent, x))"

text \<open>The branches of the packet handlers for a \<^verbatim>\<open>GameplayHandoff\<close>.\<close>

definition handle_handoff_request :: "u8 \<Rightarrow> bytes \<Rightarrow> int \<Rightarrow> Racer \<Rightarrow> Outgoing list \<times> Racer" where
  "handle_handoff_request peer payload now x =
     (let a = rc_authority x; next_frame = lg_next_commit_frame (rc_ledger x) in
      case decode_gameplay_handoff payload of Inl _ \<Rightarrow> ([], x)
      | Inr request \<Rightarrow>
          if gh_stage request \<noteq> HandoffRequest \<or> gh_player_slot request \<noteq> peer \<or>
             GameplayHandoffPayload.gh_current_input_epoch request \<noteq> au_input_epoch a \<or>
             GameplayHandoffPayload.gh_boundary_frame request > next_frame
          then ([], x)
          else
            let (outcome, s) = adopt_gameplay_handoff
                  (request\<lparr>GameplayHandoffPayload.gh_boundary_frame := next_frame,
                     GameplayHandoffPayload.gh_resume_input_epoch := resume_epoch (au_input_epoch a),
                     gh_player_slot := au_local_slot a, gh_stage := HandoffSuspend\<rparr>) False now (rc_session x);
                x = x\<lparr>rc_session := s\<rparr>
            in case outcome of Inl e \<Rightarrow> fail_racer e x
               | Inr _ \<Rightarrow> send_gameplay_handoff HandoffSuspend now x)"

definition handle_handoff_suspend :: "bytes \<Rightarrow> int \<Rightarrow> Racer \<Rightarrow> Outgoing list \<times> Racer" where
  "handle_handoff_suspend payload now x =
     (case decode_gameplay_handoff payload of Inl _ \<Rightarrow> ([], x)
      | Inr handoff \<Rightarrow>
          if gh_stage handoff \<noteq> HandoffSuspend \<or> gh_player_slot handoff \<noteq> 0 \<or>
             GameplayHandoffPayload.gh_current_input_epoch handoff \<noteq> au_input_epoch (rc_authority x) \<or>
             GameplayHandoffPayload.gh_boundary_frame handoff < lg_next_commit_frame (rc_ledger x)
          then ([], x)
          else
            let (outcome, s) = adopt_gameplay_handoff handoff False now (rc_session x);
                x = x\<lparr>rc_session := s\<rparr>
            in case outcome of Inl e \<Rightarrow> fail_racer e x | Inr _ \<Rightarrow> ([], x))"

subsection \<open>The new scene and the new input epoch\<close>

text \<open>What both ends of an authoritative phase clear.\<close>

definition clear_transfer :: "Transfer \<Rightarrow> Transfer" where
  "clear_transfer t =
     t\<lparr>tf_authoritative_states := [], tf_authoritative_acknowledgements := [],
       tf_fully_acknowledged_states := [], tf_snapshot_assemblies := [], tf_live_replica_states := [],
       tf_live_replica_assemblies := [], tf_live_replica_keyframe_frame := None,
       tf_live_replica_keyframe_state := [], tf_recovery_stage := StageIdle, tf_gameplay_barrier := None,
       tf_last_authoritative_request := 0, tf_last_authoritative_request_frame := 0\<rparr>"

definition clear_start :: "RaceStart \<Rightarrow> RaceStart" where
  "clear_start st =
     st\<lparr>st_last_gameplay_barrier_broadcast := 0, st_gameplay_resume_until := 0,
        st_last_gameplay_ready_announcement := 0, st_last_gameplay_resume_ack := 0\<rparr>"

definition clear_inputs :: "Ledger \<Rightarrow> Ledger" where
  "clear_inputs l =
     l\<lparr>lg_pending_input_correction := None, lg_authoritative_input_revision := 0,
       lg_authoritative_predicted_mask := 0, lg_authoritative_inputs := no_inputs,
       lg_authoritative_inputs_valid := False\<rparr>"

definition begin_authoritative_phase :: "Racer \<Rightarrow> Racer" where
  "begin_authoritative_phase x =
     (let s = rc_session x; a = ss_authority s; active = (au_state a = StateRunning);
          a = a\<lparr>au_authoritative_phase_active := active,
                au_authority_lifecycle := (if active then LifecycleRacing else LifecycleInactive),
                au_finish_seal_frame := None, au_recovery_frame := None, au_recovery_resumed := False,
                au_scene_epoch := (if \<not> active then au_scene_epoch a
                  else if au_scene_epoch a + 1 = 0 then 1 else au_scene_epoch a + 1)\<rparr>;
          d = (ss_delivery s)\<lparr>
                dl_simulation_completed_frame := map (\<lambda>_. 0) (dl_simulation_completed_frame (ss_delivery s)),
                dl_simulation_progress_present := map (\<lambda>_. False) (dl_simulation_progress_present (ss_delivery s))\<rparr>
      in x\<lparr>rc_session := s\<lparr>ss_authority := a, ss_ledger := clear_inputs (ss_ledger s), ss_delivery := d\<rparr>,
           rc_transfer := clear_transfer (rc_transfer x), rc_start := clear_start (rc_start x)\<rparr>)"

definition end_authoritative_phase :: "Racer \<Rightarrow> Outgoing list \<times> Racer" where
  "end_authoritative_phase x =
     (let s = rc_session x; a = ss_authority s in
      if au_authority_lifecycle a = LifecycleRacing \<and> au_recovery_frame a \<noteq> None \<and> \<not> au_recovery_resumed a
      then fail_racer ''The level attempted to unload before its synchronized recovery completed.'' x
      else ([], x\<lparr>rc_session := s\<lparr>ss_authority := a\<lparr>au_authoritative_phase_active := False,
              au_authority_lifecycle := LifecycleInactive, au_finish_seal_frame := None,
              au_recovery_frame := None, au_recovery_resumed := False\<rparr>\<rparr>,
            rc_transfer := clear_transfer (rc_transfer x), rc_start := clear_start (rc_start x)\<rparr>))"

definition reset_pending_input :: "Session \<Rightarrow> Session" where
  "reset_pending_input s =
     (let l = ss_ledger s; d = ss_delivery s in
      reset_pending_commit_wait (s\<lparr>
        ss_ledger := (clear_inputs l)\<lparr>lg_frame_commits := [], lg_commit_history := [],
          lg_frame_correction_generation := 0, lg_applied_generation := 0, lg_assembly := None,
          lg_transmission := None, lg_deferred := []\<rparr>,
        ss_delivery := (clear_input_history (d\<lparr>dl_timeline := timeline_reset (lg_next_commit_frame l) (dl_timeline d)\<rparr>))
          \<lparr>dl_pending_local_submission_frame := None\<rparr>,
        ss_wait := (ss_wait s)\<lparr>cw_last_input_history_send := 0\<rparr>\<rparr>))"

text \<open>The hash a race begins its chain of commits with, from what the handoff shares.\<close>

definition epoch_chain :: "u32 \<Rightarrow> Authority \<Rightarrow> u64" where
  "epoch_chain resume_frame a =
     (let hash = initial_commit_hash a;
          hash = hash XOR push_bit 32 (ucast (au_input_epoch a));
          hash = hash XOR ucast resume_frame;
          hash = hash XOR 0x47414D45504C4159;
          hash = hash XOR drop_bit 30 hash;
          hash = hash * 0xBF58476D1CE4E5B9;
          hash = hash XOR drop_bit 27 hash;
          hash = hash * 0x94D049BB133111EB;
          hash = hash XOR drop_bit 31 hash
      in if hash \<noteq> 0 then hash else 1)"

text \<open>The progress of every occupied slot begins just before the boundary.\<close>

definition reset_progress :: "u32 \<Rightarrow> Player list \<Rightarrow> Delivery \<Rightarrow> Delivery" where
  "reset_progress resume_frame players d =
     d\<lparr>dl_simulation_completed_frame :=
         map (\<lambda>_. if resume_frame = 0 then 0 else resume_frame - 1) (dl_simulation_completed_frame d),
       dl_simulation_progress_present := map pl_occupied players\<rparr>"

definition enter_input_epoch :: "GameplayHandoffState \<Rightarrow> Session \<Rightarrow> Session" where
  "enter_input_epoch h s =
     (let resume_frame = gh_boundary_frame h;
          a = (ss_authority s)\<lparr>au_input_epoch := gh_resume_input_epoch h\<rparr>;
          s = reset_pending_input (s\<lparr>ss_authority := a,
                ss_ledger := (ss_ledger s)\<lparr>lg_next_commit_frame := resume_frame,
                  lg_last_consumed_input_frame := None, lg_last_consumed_inputs := no_inputs\<rparr>\<rparr>);
          d = reset_progress resume_frame (ss_players s)
                (reset_input_delivery_tracking resume_frame a (ss_delivery s))
      in s\<lparr>ss_ledger := (ss_ledger s)\<lparr>lg_last_consumed_commit_hash := epoch_chain resume_frame a\<rparr>,
           ss_delivery := d\<lparr>dl_timeline := neutral_runway
             (frames_between resume_frame (resume_frame + ucast (au_input_delay a)))
             (occupied_players s) (au_local_slot a) (dl_timeline d)\<rparr>\<rparr>)"

definition arm_gameplay_handoff :: "int \<Rightarrow> Racer \<Rightarrow> u32 result \<times> Outgoing list \<times> Racer" where
  "arm_gameplay_handoff now x =
     (let s = rc_session x; a = ss_authority s;
          refused = (Inl ''The gameplay input handoff is not ready to arm.'', [], x) in
      case (au_gameplay_handoff a, rc_barrier x) of
        (Some h, Some b) \<Rightarrow>
          if au_state a \<noteq> StateRunning \<or> \<not> gh_local_load_started h \<or> gh_resume_input_epoch h = 0 \<or>
             \<not> gb_arm_announced b
          then refused
          else if gh_armed h then (Inr (gh_boundary_frame h), [], x)
          else
            let s = set_handoff (Some (h\<lparr>gh_armed := True\<rparr>)) (enter_input_epoch h s);
                x = set_barrier (b\<lparr>gb_armed := (gb_armed b)[unat (au_local_slot a) := True]\<rparr>)
                      (x\<lparr>rc_session := s\<rparr>);
                payload = encode_gameplay_barrier \<lparr>GameplayBarrierPayload.gb_scene_epoch = gb_scene_epoch b,
                  gb_map = gb_map b, gb_racer_count = gb_racer_count b, gb_player_slot = au_local_slot a,
                  gb_stage = BarrierArmed\<rparr>
            in if au_is_host a then (Inr (gh_boundary_frame h), [], x)
               else (Inr (gh_boundary_frame h), replicate 5 (ToHost MsgGameplayBarrier payload 0),
                     x\<lparr>rc_start := (rc_start x)\<lparr>st_last_gameplay_resume_ack := now\<rparr>\<rparr>)
      | _ \<Rightarrow> refused)"

definition complete_gameplay_handoff :: "Racer \<Rightarrow> u32 result \<times> Racer" where
  "complete_gameplay_handoff x =
     (let a = rc_authority x;
          refused = (Inl ''Player 1 has not released the armed gameplay input epoch.'', x) in
      case (au_gameplay_handoff a, rc_barrier x) of
        (Some h, Some b) \<Rightarrow>
          if au_state a \<noteq> StateRunning \<or> \<not> gh_armed h \<or> \<not> gb_go_released b then refused
          else (Inr (gh_boundary_frame h), x\<lparr>rc_session := set_handoff None (rc_session x),
                  rc_start := (rc_start x)\<lparr>st_last_gameplay_handoff_send := 0\<rparr>\<rparr>)
      | _ \<Rightarrow> refused)"

subsection \<open>The barrier, as the simulation polls it\<close>

definition new_barrier :: "u32 \<Rightarrow> u32 \<Rightarrow> u32 \<Rightarrow> bool \<Rightarrow> GameplayBarrierState" where
  "new_barrier scene_epoch level racer_count host =
     \<lparr>gb_scene_epoch = scene_epoch, gb_map = level, gb_racer_count = racer_count,
      gb_ready = replicate kMaximumPlayers False, gb_armed = replicate kMaximumPlayers False,
      gb_epoch_synchronized = host, gb_baseline_released = False, gb_arm_announced = False,
      gb_go_released = False\<rparr>"

text \<open>The message of a stage, with the identity of the scene.\<close>

definition barrier_message :: "GameplayBarrierStage \<Rightarrow> u32 \<Rightarrow> u32 \<Rightarrow> u32 \<Rightarrow> Authority \<Rightarrow> bytes" where
  "barrier_message stage scene_epoch level racer_count a = encode_gameplay_barrier
     \<lparr>GameplayBarrierPayload.gb_scene_epoch = scene_epoch, gb_map = level, gb_racer_count = racer_count,
      gb_player_slot = au_local_slot a, gb_stage = stage\<rparr>"

text \<open>Every occupied slot of the room has its flag.\<close>

definition all_slots :: "Player list \<Rightarrow> bool list \<Rightarrow> bool" where
  "all_slots players flags \<longleftrightarrow>
     list_all (\<lambda>slot. pl_occupied (players ! slot) \<longrightarrow> flags ! slot) [0..<length players]"

definition announced :: "int \<Rightarrow> Racer \<Rightarrow> Racer" where
  "announced now x = x\<lparr>rc_start := (rc_start x)\<lparr>st_last_gameplay_barrier_broadcast := now\<rparr>\<rparr>"

definition handoff_entered :: "u32 \<Rightarrow> Authority \<Rightarrow> Ledger \<Rightarrow> bool" where
  "handoff_entered requested_map a l \<longleftrightarrow>
     (case au_gameplay_handoff a of None \<Rightarrow> False
      | Some h \<Rightarrow> gh_local_load_started h \<and> gh_suspended h \<and> gh_current_input_epoch h = au_input_epoch a \<and>
          gh_boundary_frame h \<ge> lg_next_commit_frame l \<and> gh_map h = requested_map)"

text \<open>The part of \<^verbatim>\<open>poll_gameplay_ready\<close> that follows the checks, with the barrier in place.\<close>

definition service_ready :: "int \<Rightarrow> GameplayBarrierState \<Rightarrow> Racer \<Rightarrow> SessionPollResult \<times> Outgoing list \<times> Racer" where
  "service_ready now b x =
     (let a = rc_authority x; st = rc_start x;
          b = b\<lparr>gb_ready := (gb_ready b)[unat (au_local_slot a) := True]\<rparr>;
          x = set_barrier b x;
          message = (\<lambda>stage. barrier_message stage (au_scene_epoch a) (gb_map b) (gb_racer_count b) a)
      in if au_is_host a then
           if \<not> all_slots (ss_players (rc_session x)) (gb_ready b) then
             if due now (st_last_gameplay_barrier_broadcast st) 100
             then (PollPending, replicate 3 (Broadcast MsgGameplayBarrier (message BarrierPrepare) 0), announced now x)
             else (PollPending, [], x)
           else if \<not> gb_baseline_released b
           then (PollReady, replicate 3 (Broadcast MsgGameplayBarrier (message BarrierBaseline) 0),
                 announced now (set_barrier (b\<lparr>gb_baseline_released := True\<rparr>) x))
           else (PollReady, [], x)
         else
           let ask = gb_epoch_synchronized b \<and> due now (st_last_gameplay_ready_announcement st) 100
           in (if gb_baseline_released b then PollReady else PollPending,
               if ask then [ToHost MsgGameplayBarrier (message BarrierReady) 0] else [],
               if ask then x\<lparr>rc_start := st\<lparr>st_last_gameplay_ready_announcement := now\<rparr>\<rparr> else x))"

definition poll_gameplay_ready ::
  "u32 \<Rightarrow> u32 \<Rightarrow> u32 \<Rightarrow> int \<Rightarrow> Racer \<Rightarrow> SessionPollResult \<times> string \<times> Outgoing list \<times> Racer" where
  "poll_gameplay_ready requested_map resolved_map racer_count now x =
     (let a = rc_authority x in
      if au_state a \<noteq> StateRunning \<or> \<not> au_authoritative_phase_active a \<or>
         au_authority_lifecycle a \<noteq> LifecycleRacing \<or> au_scene_epoch a = 0 \<or> racer_count > 10
      then (PollFailed, ''The synchronized gameplay-start barrier is not available.'', [], x)
      else if \<not> handoff_entered requested_map a (rc_ledger x)
      then (PollFailed, ''The track load did not enter the synchronized input handoff.'', [], x)
      else if map_option gh_resume_input_epoch (au_gameplay_handoff a) = Some 0
      then (PollPending, [], [], x)
      else
        let b = (case rc_barrier x of Some b \<Rightarrow> b
              | None \<Rightarrow> new_barrier (au_scene_epoch a) resolved_map racer_count (au_is_host a))
        in if gb_map b \<noteq> resolved_map \<or> gb_racer_count b \<noteq> racer_count
           then let conflict = ''The racers reached conflicting gameplay-start boundaries.'';
                    (sent, x) = fail_racer conflict x in (PollFailed, conflict, sent, x)
           else let (outcome, sent, x) = service_ready now b x in (outcome, [], sent, x))"

text \<open>Completed releases are remembered for two minutes, the last 16 of them.\<close>

definition live_releases :: "int \<Rightarrow> Racer \<Rightarrow> CompletedRelease list" where
  "live_releases now x = filter (\<lambda>entry. \<not> cr_expires entry \<le> now) (st_completed_releases (rc_start x))"

definition completed_release ::
  "MessageType \<Rightarrow> u32 \<Rightarrow> u32 \<Rightarrow> u32 \<Rightarrow> u64 \<Rightarrow> int \<Rightarrow> Racer \<Rightarrow> bool \<times> Racer" where
  "completed_release message_type epoch boundary detail recipient now x =
     (let entries = live_releases now x in
      (list_ex (\<lambda>entry. cr_type entry = message_type \<and> cr_epoch entry = epoch \<and> cr_boundary entry = boundary \<and>
           cr_detail entry = detail \<and> (recipient = 0 \<or> recipient \<in> set (cr_recipients entry))) entries,
       x\<lparr>rc_start := (rc_start x)\<lparr>st_completed_releases := entries\<rparr>\<rparr>))"

definition remember_release ::
  "MessageType \<Rightarrow> u32 \<Rightarrow> u32 \<Rightarrow> u32 \<Rightarrow> (u8 \<times> u64) list \<Rightarrow> int \<Rightarrow> Racer \<Rightarrow> Racer" where
  "remember_release message_type epoch boundary detail peers now x =
     (let (known, x) = completed_release message_type epoch boundary detail 0 now x;
          entries = st_completed_releases (rc_start x)
      in if known then x
         else x\<lparr>rc_start := (rc_start x)\<lparr>st_completed_releases :=
             (if length entries = 16 then tl entries else entries) @
             [\<lparr>cr_type = message_type, cr_epoch = epoch, cr_boundary = boundary, cr_detail = detail,
               cr_recipients = fold (\<lambda>(slot, sender) recipients. recipients[unat slot := sender])
                 peers (replicate kMaximumPlayers 0),
               cr_expires = now + seconds 120\<rparr>]\<rparr>\<rparr>)"

text \<open>Player 1 waits for the acknowledged baseline, lets everybody arm, and says go.\<close>

definition resume_host ::
  "(u8 \<times> u64) list \<Rightarrow> int \<Rightarrow> GameplayBarrierState \<Rightarrow> Racer \<Rightarrow> SessionPollResult \<times> string \<times> Outgoing list \<times> Racer" where
  "resume_host peers now b x =
     (let a = rc_authority x;
          message = (\<lambda>stage. barrier_message stage (au_scene_epoch a) (gb_map b) (gb_racer_count b) a);
          resumed = (\<lambda>x. x\<lparr>rc_start := (rc_start x)\<lparr>st_gameplay_resume_until := now + seconds 2\<rparr>\<rparr>)
      in if 0 \<notin> set (tf_fully_acknowledged_states (rc_transfer x)) then (PollPending, [], [], x)
         else
           let (armed, sent, x) = (if gb_arm_announced b then (Inr 0, [], x)
                 else case arm_gameplay_handoff now (set_barrier (b\<lparr>gb_arm_announced := True\<rparr>) x) of
                     (Inl e, sent, x) \<Rightarrow> (Inl e, sent, x)
                   | (Inr resume_frame, sent, x) \<Rightarrow> (Inr resume_frame,
                       sent @ replicate 5 (Broadcast MsgGameplayBarrier (message BarrierArm) 0),
                       resumed (announced now x)))
           in case (armed, rc_barrier x) of
                (Inr _, Some b) \<Rightarrow>
                  if \<not> all_slots (ss_players (rc_session x)) (gb_armed b) then (PollPending, [], sent, x)
                  else if gb_go_released b then (PollReady, [], sent, x)
                  else (PollReady, [], sent @ replicate 5 (Broadcast MsgGameplayBarrier (message BarrierGo) 0),
                    resumed (announced now (remember_release MsgGameplayBarrier (au_scene_epoch a)
                      (gb_map b) (gb_racer_count b) peers now (set_barrier (b\<lparr>gb_go_released := True\<rparr>) x))))
              | (Inl e, _) \<Rightarrow> (PollFailed, e, sent, x)
              | (Inr _, None) \<Rightarrow> (PollPending, [], sent, x))"

definition resume_guest ::
  "(u8 \<times> u64) list \<Rightarrow> int \<Rightarrow> GameplayBarrierState \<Rightarrow> Racer \<Rightarrow> SessionPollResult \<times> string \<times> Outgoing list \<times> Racer" where
  "resume_guest peers now b x =
     (let (armed, sent, x) = (if gb_arm_announced b \<and> \<not> gb_armed b ! unat (au_local_slot (rc_authority x))
            then arm_gameplay_handoff now x else (Inr 0, [], x))
      in case armed of Inl e \<Rightarrow> (PollFailed, e, sent, x)
         | Inr _ \<Rightarrow>
             if \<not> gb_go_released b then (PollPending, [], sent, x)
             else (PollReady, [], sent, remember_release MsgGameplayBarrier (au_scene_epoch (rc_authority x))
               (gb_map b) (gb_racer_count b) peers now x))"

definition poll_gameplay_resume ::
  "u32 \<Rightarrow> u32 \<Rightarrow> (u8 \<times> u64) list \<Rightarrow> int \<Rightarrow> Racer \<Rightarrow> SessionPollResult \<times> string \<times> Outgoing list \<times> Racer" where
  "poll_gameplay_resume level racer_count peers now x =
     (let a = rc_authority x;
          refused = (PollFailed, ''The synchronized gameplay baseline is not ready to resume.'', [], x) in
      case rc_barrier x of None \<Rightarrow> refused
      | Some b \<Rightarrow>
          if au_state a \<noteq> StateRunning \<or> \<not> au_authoritative_phase_active a \<or> \<not> gb_epoch_synchronized b \<or>
             gb_scene_epoch b \<noteq> au_scene_epoch a \<or> gb_map b \<noteq> level \<or> gb_racer_count b \<noteq> racer_count \<or>
             \<not> gb_baseline_released b
          then refused
          else if au_is_host a then resume_host peers now b x else resume_guest peers now b x)"

subsection \<open>The barrier, as packets arrive\<close>

text \<open>The branch of \<^verbatim>\<open>handle_host_packet\<close> for a \<^verbatim>\<open>GameplayBarrier\<close>.\<close>

definition handle_barrier_host :: "u8 \<Rightarrow> u64 \<Rightarrow> bytes \<Rightarrow> int \<Rightarrow> Racer \<Rightarrow> Outgoing list \<times> Racer" where
  "handle_barrier_host peer sender_id payload now x =
     (let a = rc_authority x in
      case decode_gameplay_barrier payload of Inl _ \<Rightarrow> ([], x)
      | Inr p \<Rightarrow>
          let scene_epoch = GameplayBarrierPayload.gb_scene_epoch p; level = GameplayBarrierPayload.gb_map p;
              racer_count = GameplayBarrierPayload.gb_racer_count p in
          if gb_player_slot p \<noteq> peer \<or> gb_stage p \<notin> {BarrierReady, BarrierArmed} then ([], x)
          else
            let (completed, x) = completed_release MsgGameplayBarrier scene_epoch level racer_count sender_id now x
            in if completed
               then ([ToPeer peer MsgGameplayBarrier (barrier_message BarrierGo scene_epoch level racer_count a) 0], x)
               else case rc_barrier x of None \<Rightarrow> ([], x)
               | Some b \<Rightarrow>
                   if \<not> au_authoritative_phase_active a \<or> scene_epoch \<noteq> au_scene_epoch a \<or>
                      scene_epoch \<noteq> gb_scene_epoch b \<or> level \<noteq> gb_map b \<or> racer_count \<noteq> gb_racer_count b
                   then ([], x)
                   else if gb_stage p = BarrierReady
                   then ([], if gb_baseline_released b then x
                             else set_barrier (b\<lparr>gb_ready := (gb_ready b)[unat peer := True]\<rparr>) x)
                   else ([], if \<not> gb_baseline_released b \<or> \<not> gb_arm_announced b \<or> gb_go_released b then x
                             else set_barrier (b\<lparr>gb_armed := (gb_armed b)[unat peer := True]\<rparr>) x))"

definition scene_disagreement :: "GameplayBarrierPayload \<Rightarrow> GameplayBarrierState \<Rightarrow> Authority \<Rightarrow> string" where
  "scene_disagreement p b a =
     ''Loaded scene disagreement: host map '' @ to_string (ucast (GameplayBarrierPayload.gb_map p)) @
     '', racers '' @ to_string (ucast (GameplayBarrierPayload.gb_racer_count p)) @
     ''; local map '' @ to_string (ucast (gb_map b)) @ '', racers '' @ to_string (ucast (gb_racer_count b)) @
     '', scene epoch '' @ to_string (ucast (GameplayBarrierPayload.gb_scene_epoch p)) @
     '', input epoch '' @ to_string (ucast (au_input_epoch a)) @ ''. The session cannot safely continue.''"

text \<open>A guest takes the scene epoch of Player 1, once, from a \<^verbatim>\<open>Prepare\<close> newer than the last scene.\<close>

definition adopt_scene :: "u32 \<Rightarrow> GameplayBarrierState \<Rightarrow> Racer \<Rightarrow> Racer" where
  "adopt_scene scene_epoch b x =
     (let newest = st_last_host_scene_epoch (rc_start x); s = rc_session x in
      if scene_epoch = 0 \<or> gb_epoch_synchronized b \<and> scene_epoch \<noteq> gb_scene_epoch b \<or>
         \<not> gb_epoch_synchronized b \<and> newest \<noteq> 0 \<and> scene_epoch \<le> newest
      then x
      else set_barrier (b\<lparr>gb_scene_epoch := scene_epoch, gb_epoch_synchronized := True\<rparr>)
        (x\<lparr>rc_session := s\<lparr>ss_authority := (ss_authority s)\<lparr>au_scene_epoch := scene_epoch\<rparr>\<rparr>,
           rc_start := (rc_start x)\<lparr>st_last_host_scene_epoch := scene_epoch,
             st_last_gameplay_ready_announcement := 0\<rparr>\<rparr>))"

text \<open>The branch of \<^verbatim>\<open>handle_client_packet\<close> for a \<^verbatim>\<open>GameplayBarrier\<close>.\<close>

definition handle_barrier_guest :: "bytes \<Rightarrow> Racer \<Rightarrow> Outgoing list \<times> Racer" where
  "handle_barrier_guest payload x =
     (let a = rc_authority x in
      case (decode_gameplay_barrier payload, rc_barrier x) of
        (Inr p, Some b) \<Rightarrow>
          let scene_epoch = GameplayBarrierPayload.gb_scene_epoch p; stage = gb_stage p in
          if \<not> au_authoritative_phase_active a \<or> gb_player_slot p \<noteq> 0 \<or> stage \<in> {BarrierReady, BarrierArmed}
          then ([], x)
          else if GameplayBarrierPayload.gb_map p \<noteq> gb_map b \<or>
                  GameplayBarrierPayload.gb_racer_count p \<noteq> gb_racer_count b
          then if (if gb_epoch_synchronized b then scene_epoch = gb_scene_epoch b
                   else (case au_gameplay_handoff a of Some h \<Rightarrow> gh_local_load_started h | None \<Rightarrow> False) \<and>
                     stage = BarrierPrepare \<and> scene_epoch > st_last_host_scene_epoch (rc_start x))
               then fail_racer (scene_disagreement p b a) x else ([], x)
          else if stage = BarrierPrepare then ([], adopt_scene scene_epoch b x)
          else if \<not> gb_epoch_synchronized b \<or> scene_epoch \<noteq> au_scene_epoch a \<or> scene_epoch \<noteq> gb_scene_epoch b
          then ([], x)
          else if stage = BarrierBaseline then ([], set_barrier (b\<lparr>gb_baseline_released := True\<rparr>) x)
          else if stage = BarrierArm \<and> gb_baseline_released b
          then ([], set_barrier (b\<lparr>gb_arm_announced := True\<rparr>) x)
          else if stage = BarrierGo \<and> gb_baseline_released b \<and> gb_arm_announced b \<and>
                  gb_armed b ! unat (au_local_slot a)
          then ([], set_barrier (b\<lparr>gb_go_released := True\<rparr>) x)
          else ([], x)
      | _ \<Rightarrow> ([], x))"

subsection \<open>The network thread\<close>

text \<open>What \<^verbatim>\<open>pump_locked\<close> repeats of a handoff; the result says whether it goes on.\<close>

definition service_handoff :: "int \<Rightarrow> Racer \<Rightarrow> bool \<times> Outgoing list \<times> Racer" where
  "service_handoff now x =
     (let a = rc_authority x in
      case au_gameplay_handoff a of None \<Rightarrow> (True, [], x)
      | Some h \<Rightarrow>
          if au_state a \<noteq> StateRunning then (True, [], x)
          else if now \<ge> gh_deadline h
          then (False, fail_racer ''A racer did not complete the synchronized track-loading handoff.'' x)
          else if \<not> due now (st_last_gameplay_handoff_send (rc_start x)) 100 then (True, [], x)
          else if au_is_host a then (True, send_gameplay_handoff HandoffSuspend now x)
          else if gh_resume_input_epoch h = 0 then (True, send_gameplay_handoff HandoffRequest now x)
          else (True, [], x))"

text \<open>What it repeats of the barrier: \<^verbatim>\<open>Arm\<close> and \<^verbatim>\<open>Go\<close> of Player 1, \<^verbatim>\<open>Armed\<close> of a guest.\<close>

definition service_barrier :: "int \<Rightarrow> Racer \<Rightarrow> Outgoing list \<times> Racer" where
  "service_barrier now x =
     (let a = rc_authority x; st = rc_start x in
      case rc_barrier x of None \<Rightarrow> ([], x)
      | Some b \<Rightarrow>
          let message = (\<lambda>stage. barrier_message stage (gb_scene_epoch b) (gb_map b) (gb_racer_count b) a) in
          if au_is_host a then
            if gb_arm_announced b \<and> \<not> gb_go_released b \<and> \<not> all_slots (ss_players (rc_session x)) (gb_armed b) \<and>
               due now (st_last_gameplay_barrier_broadcast st) 100
            then ([Broadcast MsgGameplayBarrier (message BarrierArm) 0], announced now x)
            else if gb_go_released b \<and> now < st_gameplay_resume_until st \<and>
               due now (st_last_gameplay_barrier_broadcast st) 100
            then ([Broadcast MsgGameplayBarrier (message BarrierGo) 0], announced now x)
            else ([], x)
          else if gb_arm_announced b \<and> gb_armed b ! unat (au_local_slot a) \<and> \<not> gb_go_released b \<and>
                  due now (st_last_gameplay_resume_ack st) 100
          then ([ToHost MsgGameplayBarrier (message BarrierArmed) 0],
                x\<lparr>rc_start := st\<lparr>st_last_gameplay_resume_ack := now\<rparr>\<rparr>)
          else ([], x))"

definition service_start :: "int \<Rightarrow> Racer \<Rightarrow> Outgoing list \<times> Racer" where
  "service_start now x =
     (case service_handoff now x of
        (False, sent, x) \<Rightarrow> (sent, x)
      | (True, sent, x) \<Rightarrow> let (more, x) = service_barrier now x in (sent @ more, x))"

end
