(* ===== verification/Lockstep.thy ===== *)
theory Lockstep
  imports Input_Admission
begin

section \<open>Lockstep: one chain of commits\<close>

text \<open>
  The ledger of Player 1 holds a chain of commits, and every guest a part of it; sending,
  receiving, consuming, repairing and fast-forwarding keep it so.
\<close>

subsection \<open>Player 1's ledger\<close>

definition host_ledger :: "Authority \<Rightarrow> u32 \<Rightarrow> u64 \<Rightarrow> FrameCommitPayload list \<Rightarrow> Ledger \<Rightarrow> bool" where
  "host_ledger a first seed cs l \<longleftrightarrow> chain a first seed cs \<and>
     lg_next_commit_frame l = first + of_nat (length cs) \<and>
     lg_last_consumed_commit_hash l = hash_at seed cs (length cs) \<and>
     lg_commit_history l = drop (length cs - kCommitHistoryCapacity) cs \<and> lg_frame_correction_generation l = 0"

text \<open>A payload that carries commits of the chain only, and no correction.\<close>

definition carries :: "FrameCommitPayload list \<Rightarrow> bytes \<Rightarrow> bool" where
  "carries cs payload \<longleftrightarrow> (\<exists>batch. decode_frame_commit_batch payload = Inr batch \<and>
     \<not> fb_correction batch \<and> fb_generation batch = 0 \<and> set (fb_commits batch) \<subseteq> set cs)"

fun outgoing_commit :: "Outgoing \<Rightarrow> bytes option" where
  "outgoing_commit (Broadcast t payload f) = (if t = MsgFrameCommit then Some payload else None)"
| "outgoing_commit (ToPeer p t payload f) = (if t = MsgFrameCommit then Some payload else None)"
| "outgoing_commit (ToHost t payload f) = None"

definition commit_payloads :: "Outgoing list \<Rightarrow> bytes set" where
  "commit_payloads sent = {payload. \<exists>m \<in> set sent. outgoing_commit m = Some payload}"

lemma commit_payloads_simps [simp]:
  "commit_payloads [] = {}" "commit_payloads (xs @ ys) = commit_payloads xs \<union> commit_payloads ys"
  by (auto simp: commit_payloads_def)

lemma encoded_carries:
  assumes "chain a first seed cs" "set commits \<subseteq> set cs" "payload \<noteq> []"
    "payload = encode_frame_commit_batch \<lparr>fb_generation = 0, fb_correction_first = 0, fb_correction_last = 0,
       fb_correction = False, fb_commits = commits\<rparr>"
  shows "carries cs payload"
proof -
  let ?b = "\<lparr>fb_generation = 0, fb_correction_first = 0, fb_correction_last = 0,
       fb_correction = False, fb_commits = commits\<rparr> :: FrameCommitBatch"
  have "\<forall>e \<in> set commits. commit_ok e" using chain_valid [OF assms(1)] assms(2) by blast
  then have "decode_frame_commit_batch payload = Inr ?b"
    using frame_commit_batch.dec_enc [of ?b] assms(3,4) by simp
  then show ?thesis using assms(2) by (auto simp: carries_def)
qed

lemma history_carries:
  assumes "chain a first seed cs" "set (lg_commit_history l) \<subseteq> set cs" "lg_frame_correction_generation l = 0"
    "payload \<in> commit_payloads (send_commit_history f n b l)"
  shows "carries cs payload"
proof -
  obtain commits where "set commits \<subseteq> set (lg_commit_history l)" "payload \<noteq> []"
    "payload = encode_frame_commit_batch \<lparr>fb_generation = lg_frame_correction_generation l,
       fb_correction_first = 0, fb_correction_last = 0, fb_correction = False, fb_commits = commits\<rparr>"
    using assms(4) unfolding send_commit_history_def commit_payloads_def Let_def
    by (auto split: if_splits intro!: that [OF filter_is_subset])
  then show ?thesis using encoded_carries [OF assms(1), of commits] assms(2,3) by auto
qed

lemma set_collect_repair: "set (collect_repair f m e n cs) \<subseteq> set cs"
  by (induction f m e n cs rule: collect_repair.induct) auto

lemma concat_chunks: "0 < n \<Longrightarrow> concat (chunks n xs) = xs"
  by (induction n xs rule: chunks.induct) (subst chunks.simps, auto)

lemma chunks_members: "ys \<in> set (chunks n xs) \<Longrightarrow> set ys \<subseteq> set xs"
  by (induction n xs rule: chunks.induct)
    (subst (asm) (2) chunks.simps, auto split: if_splits dest: in_set_takeD in_set_dropD)

lemma repair_carries:
  assumes "host_ledger a first seed cs l" "payload \<in> commit_payloads (send_commit_history_to_peer p f n b l)"
  shows "carries cs payload"
proof -
  obtain commits where c: "commits \<in> set (chunks 16 (collect_repair f (min n 64) f 0 (lg_commit_history l)))"
    "payload \<noteq> []" "payload = encode_frame_commit_batch \<lparr>fb_generation = lg_frame_correction_generation l,
       fb_correction_first = 0, fb_correction_last = 0, fb_correction = False, fb_commits = commits\<rparr>"
    using assms(2) by (auto simp: send_commit_history_to_peer_def commit_payloads_def Let_def split: if_splits)
  moreover have "set commits \<subseteq> set cs"
    using chunks_members [OF c(1)] set_collect_repair [of f "min n 64" f 0 "lg_commit_history l"]
      set_drop_subset [of "length cs - kCommitHistoryCapacity" cs] assms(1)
    unfolding host_ledger_def by auto
  ultimately show ?thesis using encoded_carries [of a first seed cs commits] assms(1) by (simp add: host_ledger_def)
qed

lemma push_history_chain:
  "push_history c (drop (length cs - kCommitHistoryCapacity) cs) = drop (length (cs @ [c]) - kCommitHistoryCapacity) (cs @ [c])"
proof -
  have "Suc (length cs - 2048) = length cs - 2047" if "\<not> length cs < 2048" using that by simp
  then show ?thesis
    by (cases "length cs < kCommitHistoryCapacity") (auto simp: push_history_def kCommitHistoryCapacity_def)
qed

text \<open>Publishing and consuming the next frame extends the chain by one commit, without failure.\<close>

lemma publish_consume:
  assumes "host_ledger a first seed cs l" "timeline_inv t" "expected_mask a \<noteq> 0"
    "publish_commit q (lg_next_commit_frame l) a l t = (sent, l1, u)"
  shows "\<exists>c l2. consume_commit (lg_next_commit_frame l) a l1 = (Inr (fc_inputs c), l2) \<and>
    timeline_inv u \<and> fc_frame c = lg_next_commit_frame l \<and>
    (unat first + length cs + 1 < 2 ^ 32 \<longrightarrow> host_ledger a first seed (cs @ [c]) l2 \<and>
      (\<forall>payload \<in> commit_payloads sent. carries (cs @ [c]) payload))"
proof -
  let ?f = "lg_next_commit_frame l"
  obtain c where b: "build_commit a ?f 0 (lg_last_consumed_commit_hash l) t = (c, u)"
    and l1: "l1 = l\<lparr>lg_frame_commits := AList.update ?f c (lg_frame_commits l),
                lg_commit_history := push_history c (lg_commit_history l)\<rparr>"
    and s: "sent = send_commit_history ?f (steady_commit_history_count q) a l1"
    using assms(4) by (auto simp: publish_commit_def make_frame_commit_def Let_def split: prod.splits)
  note ok = build_commit_ok [OF assms(2,3) b]
  define l2 where "l2 = snd (consume_commit ?f a l1)"
  have consumed: "consume_commit ?f a l1 = (Inr (fc_inputs c), l2)"
    using ok by (simp add: l2_def consume_commit_def l1 update_conv)
  have e: "lg_commit_history l1 = drop (length (cs @ [c]) - kCommitHistoryCapacity) (cs @ [c])"
    using assms(1) push_history_chain [of c cs] by (simp add: host_ledger_def l1)
  have h: "set (lg_commit_history l1) \<subseteq> set (cs @ [c])" "lg_frame_correction_generation l1 = 0"
    unfolding e by (rule set_drop_subset, use assms(1) in \<open>simp add: host_ledger_def l1\<close>)
  have "host_ledger a first seed (cs @ [c]) l2 \<and> (\<forall>payload \<in> commit_payloads sent. carries (cs @ [c]) payload)"
    if "unat first + length cs + 1 < 2 ^ 32"
  proof -
    have ch: "chain a first seed (cs @ [c])"
      using chain_snoc [OF _ that, of a seed c] assms(1) ok by (simp add: host_ledger_def)
    have "host_ledger a first seed (cs @ [c]) l2"
      using assms(1) ok ch e
      by (auto simp: host_ledger_def l2_def consume_commit_def l1 update_conv hash_at_def nth_append subset_iff)
    then show ?thesis using history_carries [OF ch h] s by blast
  qed
  then show ?thesis using consumed ok by blast
qed

subsection \<open>The ledger of a guest\<close>

definition guest_ledger :: "u32 \<Rightarrow> u64 \<Rightarrow> FrameCommitPayload list \<Rightarrow> nat \<Rightarrow> Ledger \<Rightarrow> bool" where
  "guest_ledger first seed cs k l \<longleftrightarrow> k \<le> length cs \<and>
     lg_next_commit_frame l = first + of_nat k \<and> lg_last_consumed_commit_hash l = hash_at seed cs k \<and>
     (\<forall>f c. map_of (lg_frame_commits l) f = Some c \<longrightarrow> c \<in> set cs \<and> fc_frame c = f) \<and>
     lg_applied_generation l = 0"

lemma guest_ledger_extend: "guest_ledger first seed cs k l \<Longrightarrow> guest_ledger first seed (cs @ ds) k l"
  by (auto simp: guest_ledger_def hash_at_append)

lemma apply_commit_chain:
  assumes "chain a first seed cs" "guest_ledger first seed cs k l" "c \<in> set cs"
  shows "\<exists>l2. apply_frame_commit c a l = (Inr (), l2) \<and> guest_ledger first seed cs k l2 \<and>
    map_of (lg_frame_commits l2) (fc_frame c) = Some c \<and>
    (\<forall>f b. map_of (lg_frame_commits l) f = Some b \<longrightarrow> map_of (lg_frame_commits l2) f = Some b)"
proof (cases "map_of (lg_frame_commits l) (fc_frame c)")
  case None
  have "guest_ledger first seed cs k (store_commit c l)"
    using assms(2,3) by (auto simp: guest_ledger_def store_commit_def update_conv split: if_splits)
  moreover have "apply_frame_commit c a l = (Inr (), store_commit c l)"
    using None chain_valid [OF assms(1,3)] by (simp add: apply_frame_commit_def)
  ultimately show ?thesis using None by (auto simp: store_commit_def update_conv)
next
  case (Some b)
  then have "b = c" using assms by (auto simp: guest_ledger_def intro: chain_unique)
  then show ?thesis
    using Some assms(2) chain_valid [OF assms(1,3)] by (auto simp: apply_frame_commit_def)
qed

lemma receive_commits_chain:
  assumes "chain a first seed cs" "guest_ledger first seed cs k l" "set commits \<subseteq> set cs"
    "\<not> fb_correction batch" "fb_generation batch = 0"
  shows "\<exists>l2. receive_commits batch commits a l = (Inr (), l2) \<and> guest_ledger first seed cs k l2 \<and>
    (\<forall>c \<in> set commits. map_of (lg_frame_commits l2) (fc_frame c) = Some c) \<and>
    (\<forall>f b. map_of (lg_frame_commits l) f = Some b \<longrightarrow> map_of (lg_frame_commits l2) f = Some b)"
  using assms(2,3)
proof (induction commits arbitrary: l)
  case (Cons c commits)
  then have c: "c \<in> set cs" by simp
  obtain l1 where l1: "apply_frame_commit c a l = (Inr (), l1)" "guest_ledger first seed cs k l1"
    "map_of (lg_frame_commits l1) (fc_frame c) = Some c"
    "\<forall>f b. map_of (lg_frame_commits l) f = Some b \<longrightarrow> map_of (lg_frame_commits l1) f = Some b"
    using apply_commit_chain [OF assms(1) Cons.prems(1) c] by blast
  have "receive_commit batch c a l = (Inr (), l1)"
    using l1(1) chain_valid [OF assms(1) c] validate_epoch [of c a] assms(4,5) Cons.prems(1)
    by (simp add: receive_commit_def guest_ledger_def)
  then show ?case using Cons.IH [OF l1(2)] Cons.prems(2) l1(3,4) by auto
qed simp

lemma follow_consumed_chain:
  assumes "chain a first seed cs" "guest_ledger first seed cs k l"
  shows "follow_consumed l = l"
proof (cases "lg_next_commit_frame l > 0 \<and> map_of (lg_frame_commits l) (lg_next_commit_frame l - 1) \<noteq> None")
  case True
  then obtain c where c: "map_of (lg_frame_commits l) (lg_next_commit_frame l - 1) = Some c" by auto
  then have m: "c \<in> set cs" "fc_frame c = lg_next_commit_frame l - 1" using assms(2) by (auto simp: guest_ledger_def)
  obtain i where i: "i < length cs" "c = cs ! i" "unat (fc_frame c) = unat first + i"
    using chain_member [OF assms(1) m(1)] .
  have n: "unat (lg_next_commit_frame l) = unat first + k"
    using assms frame_offset [of first k] by (simp add: guest_ledger_def chain_def)
  have "unat (lg_next_commit_frame l - 1) = unat (lg_next_commit_frame l) - 1"
    using True unat_sub [of 1 "lg_next_commit_frame l"] by (simp add: word_le_nat_alt word_less_nat_alt)
  then have "k = Suc i" using i(3) m(2) n True by (auto simp: word_less_nat_alt)
  then have "lg_last_consumed_commit_hash l = fc_commit_hash c"
    using assms(2) i(2) by (simp add: guest_ledger_def hash_at_def)
  then show ?thesis using c by (simp add: follow_consumed_def)
qed (auto simp: follow_consumed_def split: option.splits)

text \<open>A guest takes every payload Player 1 sent without failure, and keeps the commits in it.\<close>

lemma handle_commit_chain:
  assumes "chain a first seed cs" "guest_ledger first seed cs k l" "carries cs payload"
  obtains l2 where "handle_frame_commit payload h a l = (Inr (), [], l2)" "guest_ledger first seed cs k l2"
    "\<And>batch c. decode_frame_commit_batch payload = Inr batch \<Longrightarrow> c \<in> set (fb_commits batch) \<Longrightarrow>
       map_of (lg_frame_commits l2) (fc_frame c) = Some c"
    "\<And>f b. map_of (lg_frame_commits l) f = Some b \<Longrightarrow> map_of (lg_frame_commits l2) f = Some b"
proof -
  obtain batch where b: "decode_frame_commit_batch payload = Inr batch" "\<not> fb_correction batch"
    "fb_generation batch = 0" "set (fb_commits batch) \<subseteq> set cs"
    using assms(3) by (auto simp: carries_def)
  obtain l2 where l2: "receive_commits batch (fb_commits batch) a l = (Inr (), l2)" "guest_ledger first seed cs k l2"
    "\<forall>c \<in> set (fb_commits batch). map_of (lg_frame_commits l2) (fc_frame c) = Some c"
    "\<forall>f b. map_of (lg_frame_commits l) f = Some b \<longrightarrow> map_of (lg_frame_commits l2) f = Some b"
    using receive_commits_chain [OF assms(1,2) b(4,2,3)] by blast
  have "handle_frame_commit payload h a l = (Inr (), [], l2)"
    using b l2(1) assms(2) follow_consumed_chain [OF assms(1) l2(2)]
    by (simp add: handle_frame_commit_def guest_ledger_def)
  then show ?thesis using that l2 b by simp
qed

text \<open>A stored commit of the next frame is the one of the chain, and is consumed.\<close>

lemma consume_chain:
  assumes "chain a first seed cs" "guest_ledger first seed cs k l"
    "map_of (lg_frame_commits l) (lg_next_commit_frame l) \<noteq> None"
  obtains l2 where "k < length cs" "consume_commit (lg_next_commit_frame l) a l = (Inr (fc_inputs (cs ! k)), l2)"
    "guest_ledger first seed cs (Suc k) l2"
proof -
  obtain c where c: "map_of (lg_frame_commits l) (lg_next_commit_frame l) = Some c" using assms(3) by auto
  then have m: "c \<in> set cs" "fc_frame c = first + of_nat k" using assms(2) by (auto simp: guest_ledger_def)
  have k: "k < length cs" "c = cs ! k"
    using chain_at [OF assms(1) m] assms(2) by (auto simp: guest_ledger_def)
  have p: "fc_previous_hash c = lg_last_consumed_commit_hash l"
    using assms(1,2) k by (simp add: chain_def guest_ledger_def)
  define l2 where "l2 = snd (consume_commit (lg_next_commit_frame l) a l)"
  have e: "consume_commit (lg_next_commit_frame l) a l = (Inr (fc_inputs c), l2)"
    using c p chain_valid [OF assms(1) m(1)] by (simp add: l2_def consume_commit_def)
  have "guest_ledger first seed cs (Suc k) l2"
    using assms(2) c p k chain_valid [OF assms(1) m(1)]
    by (auto simp: l2_def consume_commit_def guest_ledger_def hash_at_def delete_conv add.commute split: if_splits)
  then show ?thesis using that k e by simp
qed

subsection \<open>Steps that leave the ledger alone\<close>

definition own_failure :: "string \<Rightarrow> bool" where
  "own_failure text \<longleftrightarrow> text \<in> {[], no_progress_text, ''The input sample revision limit was exceeded.''} \<or>
     (\<exists>frame next_frame. text = wrong_frame_text frame next_frame)"

text \<open>A session that has a failure has stopped.\<close>

definition sound_failure :: "Session \<Rightarrow> bool" where
  "sound_failure s \<longleftrightarrow> ss_failure s = [] \<or> au_state (ss_authority s) = StateFailed"

lemma sound_failure_simps [simp]:
  "sound_failure (s\<lparr>ss_ledger := l\<rparr>) = sound_failure s" "sound_failure (s\<lparr>ss_delivery := d\<rparr>) = sound_failure s"
  "sound_failure (s\<lparr>ss_wait := w\<rparr>) = sound_failure s"
  by (simp_all add: sound_failure_def)

definition quiet :: "Session \<Rightarrow> Session \<Rightarrow> bool" where
  "quiet s t \<longleftrightarrow> ss_ledger t = ss_ledger s \<and> ss_players t = ss_players s \<and>
     (sound_failure s \<longrightarrow> sound_failure t) \<and>
     (\<exists>state. ss_authority t = (ss_authority s)\<lparr>au_state := state\<rparr>) \<and>
     (ss_failure t = ss_failure s \<or> own_failure (ss_failure t)) \<and>
     (timeline_inv (dl_timeline (ss_delivery s)) \<longrightarrow> timeline_inv (dl_timeline (ss_delivery t)))"

lemma quiet_refl [simp]: "quiet s s"
  by (auto simp: quiet_def intro: exI [of _ "au_state (ss_authority s)"])

lemma quiet_trans: "quiet s t \<Longrightarrow> quiet t u \<Longrightarrow> quiet s u"
  by (auto simp: quiet_def)

lemma quiet_wait [simp]: "quiet s (s\<lparr>ss_wait := w\<rparr>)"
  by (auto simp: quiet_def intro: exI [of _ "au_state (ss_authority s)"])

lemma quiet_delivery:
  "(timeline_inv (dl_timeline (ss_delivery s)) \<Longrightarrow> timeline_inv (dl_timeline d)) \<Longrightarrow> quiet s (s\<lparr>ss_delivery := d\<rparr>)"
  by (auto simp: quiet_def intro: exI [of _ "au_state (ss_authority s)"])

lemma fail_quiet:
  assumes "own_failure e" shows "quiet s (snd (fail_locked e s))" "commit_payloads (fst (fail_locked e s)) = {}"
  using assms
  by (auto simp: fail_locked_def quiet_def sound_failure_def commit_payloads_def intro: exI [of _ "au_state (ss_authority s)"])

lemma trim_timeline [simp]: "dl_timeline (trim_history n d) = dl_timeline d"
  by (simp add: trim_history_def)

lemma store_local_input_inv:
  assumes "timeline_inv (dl_timeline d)"
  shows "timeline_inv (dl_timeline (snd (store_local_input f i p a l d)))"
  using assms set_local_inv [OF assms] unfolding store_local_input_def Let_def by (auto split: list.split prod.split)

lemma store_local_input_error:
  "fst (store_local_input f i p a l d) = Inl e \<Longrightarrow> e = ''The input sample revision limit was exceeded.''"
  unfolding store_local_input_def Let_def by (auto split: list.splits prod.splits if_splits)

lemma store_local_quiet:
  "quiet s (snd (store_local f i p s))" "commit_payloads (fst (store_local f i p s)) = {}"
proof -
  obtain r d where rd: "store_local_input f i p (ss_authority s) (ss_ledger s) (ss_delivery s) = (r, d)"
    by fastforce
  have q: "quiet s (s\<lparr>ss_delivery := d\<rparr>)"
    using store_local_input_inv [of "ss_delivery s" f i p "ss_authority s" "ss_ledger s"] rd
    by (intro quiet_delivery) simp
  have e: "own_failure e" if "r = Inl e" for e
    using store_local_input_error [of f i p "ss_authority s" "ss_ledger s" "ss_delivery s" e] rd that
    by (simp add: own_failure_def)
  show "quiet s (snd (store_local f i p s))"
    using q quiet_trans [OF q] fail_quiet(1) [OF e] by (auto simp: store_local_def rd split: sum.split)
  show "commit_payloads (fst (store_local f i p s)) = {}"
    using fail_quiet(2) [OF e] by (auto simp: store_local_def rd split: sum.split)
qed

lemma hold_last_quiet:
  "quiet s (snd (hold_last fs h s)) \<and> commit_payloads (fst (hold_last fs h s)) = {}"
proof (induction fs arbitrary: s)
  case (Cons f fs)
  show ?case
    using Cons.IH [of "snd (store_local f h False s)"] store_local_quiet [where s = s and f = f and i = h and p = False]
    by (auto simp: Let_def split_beta intro: quiet_trans)
qed simp

lemma send_local_history_payloads [simp]: "commit_payloads (send_local_history n r q a d) = {}"
  by (auto simp: send_local_history_def Let_def commit_payloads_def)

lemma neutral_runway_inv: "timeline_inv t \<Longrightarrow> timeline_inv (neutral_runway fs n slot t)"
proof (induction fs arbitrary: t)
  case (Cons f fs)
  have "timeline_inv (fold (\<lambda>slot' t. if slot' = slot then snd (set_local slot' f no_input t)
      else snd (set_remote slot' f no_input t)) slots t)" for slots
    using Cons.prems by (induction slots arbitrary: t) (auto simp: set_local_inv set_remote_inv)
  then show ?case using Cons.IH by (simp add: neutral_runway_def)
qed (simp add: neutral_runway_def)

lemma submit_quiet:
  "quiet s (snd (submit_local f target i time s)) \<and> commit_payloads (fst (submit_local f target i time s)) = {}"
proof (cases "dl_pending_local_submission_frame (ss_delivery s) = Some target \<and> dl_local_input_submitted (ss_delivery s) = i")
  case False
  define h where "h = (case hold_first target (ss_delivery s) of None \<Rightarrow> ([], s)
    | Some first \<Rightarrow> hold_last (frames_between first target) (dl_local_input_submitted (ss_delivery s)) s)"
  define u where "u = store_local target i True (snd h)"
  have "quiet s (snd h)" "commit_payloads (fst h) = {}"
    using hold_last_quiet unfolding h_def by (auto split: option.split)
  then have q: "quiet s (snd u)" "commit_payloads (fst h) = {}" "commit_payloads (fst u) = {}"
    using store_local_quiet unfolding u_def by (auto intro: quiet_trans)
  have t: "timeline_inv (dl_timeline (ss_delivery s)) \<longrightarrow> timeline_inv (dl_timeline (ss_delivery (snd u)))"
    using q(1) by (simp add: quiet_def)
  show ?thesis
    using False q t neutral_runway_inv unfolding submit_local_def Let_def h_def [symmetric] split_beta u_def [symmetric]
    by (auto simp: quiet_def split: option.split)
qed (simp add: submit_local_def)

lemma awaiting_repairs:
  assumes "host_ledger a first seed cs (ss_ledger s)"
    "payload \<in> commit_payloads (fst (service_pending_repair peers f target now s))"
  shows "carries cs payload"
proof -
  have n: "commit_payloads (advertise_missing_inputs peers b d) = {}" "commit_payloads (request_missing_commit f b) = {}" for b d
    by (auto simp: advertise_missing_inputs_def request_missing_commit_def commit_payloads_def Let_def split: if_splits)
  show ?thesis
    using assms n history_carries [of a first seed cs "ss_ledger s" payload] set_drop_subset [of "length cs - kCommitHistoryCapacity" cs]
    by (auto simp: service_pending_repair_def Let_def host_ledger_def split: if_splits)
qed

lemma guest_repairs: "\<not> au_is_host (ss_authority s) \<Longrightarrow>
    commit_payloads (fst (service_pending_repair peers f target now s)) = {}"
  by (auto simp: service_pending_repair_def Let_def request_missing_commit_def commit_payloads_def send_local_history_def)

lemma wait_quiet: "quiet s (snd (snd (wait_for_commit peers f target now s)))"
proof -
  have o: "own_failure no_progress_text" by (simp add: own_failure_def)
  obtain r w where "service_pending_repair peers f target now (s\<lparr>ss_wait := begin_wait f now (ss_wait s)\<rparr>) = (r, w)"
    by fastforce
  then show ?thesis
    using quiet_trans [OF quiet_wait fail_quiet(1) [OF o], of s w] by (simp add: wait_for_commit_def Let_def split_beta)
qed

lemma same_match_simps [simp]: "same_match a a" "same_match a (b\<lparr>au_state := state\<rparr>) \<longleftrightarrow> same_match a b"
  by (simp_all add: same_match_def)

lemma chain_same_match: "same_match a b \<Longrightarrow> chain a first seed cs = chain b first seed cs"
  using same_match_validate [of a b] by (simp add: chain_def)

lemma quiet_authority: "quiet s t \<Longrightarrow> au_is_host (ss_authority t) = au_is_host (ss_authority s) \<and>
    (same_match a (ss_authority t) \<longleftrightarrow> same_match a (ss_authority s))"
  by (auto simp: quiet_def)

lemma reset_wait_quiet [simp]: "quiet s (reset_pending_commit_wait s)"
  by (simp add: reset_pending_commit_wait_def)

lemma commit_frame_guest:
  assumes "\<not> au_is_host (ss_authority s)" "chain (ss_authority s) first seed cs"
    "guest_ledger first seed cs k (ss_ledger s)"
    "map_of (lg_frame_commits (ss_ledger s)) (lg_next_commit_frame (ss_ledger s)) \<noteq> None"
  shows "\<exists>t. commit_frame q (lg_next_commit_frame (ss_ledger s)) s = (SyncCommitted, fc_inputs (cs ! k), [], t) \<and>
    k < length cs \<and> guest_ledger first seed cs (Suc k) (ss_ledger t) \<and>
    ss_authority t = ss_authority s \<and> ss_failure t = ss_failure s"
proof -
  obtain l where "k < length cs"
    "consume_commit (lg_next_commit_frame (ss_ledger s)) (ss_authority s) (ss_ledger s) = (Inr (fc_inputs (cs ! k)), l)"
    "guest_ledger first seed cs (Suc k) l"
    using consume_chain [OF assms(2,3,4)] .
  then show ?thesis using assms(1) by (simp add: commit_frame_def Let_def)
qed

lemma wait_not_committed: "fst (wait_for_commit peers f target now s) \<noteq> SyncCommitted"
  by (auto simp: wait_for_commit_def Let_def split_beta)

text \<open>The outcomes of the call: parked, repeated, refused, waiting, or on to the commit.\<close>

lemma synchronize_cases:
  assumes "synchronize_inputs peers q f i sent_at now s = (r, inputs, sent, t)"
  obtains (unchanged) "r \<noteq> SyncCommitted" "t = s" "sent = []"
  | (refused) "r = SyncFailed" "(sent, t) = fail_locked (wrong_frame_text f (lg_next_commit_frame (ss_ledger s))) s"
  | (waiting) u more target where "r \<noteq> SyncCommitted" "quiet s u" "quiet u t"
      "(r, more, t) = wait_for_commit peers f target now u" "commit_payloads sent = commit_payloads more"
  | (failed) "r = SyncFailed" "quiet s t" "commit_payloads sent = {}"
  | (commit) u more where "f = lg_next_commit_frame (ss_ledger s)" "quiet s u" "\<not> awaiting_commit f u"
      "commit_frame q f u = (r, inputs, more, t)" "commit_payloads sent = commit_payloads more"
      "au_state (ss_authority s) = StateRunning"
proof -
  let ?target = "authored_target f (ss_authority s) (ss_ledger s)"
  obtain first u where su: "submit_local f ?target i sent_at s = (first, u)" by fastforce
  have q: "quiet s u" "commit_payloads first = {}" using submit_quiet [of s f ?target i sent_at] su by auto
  note def = assms [unfolded synchronize_inputs_def Let_def su split_beta, simplified]
  have aw: "awaiting_commit f (reset_pending_commit_wait u) = awaiting_commit f u"
    by (simp add: awaiting_commit_def reset_pending_commit_wait_def)
  show ?thesis
  proof (cases "au_state (ss_authority s) \<noteq> StateRunning \<or> admission_parked f (ss_authority s) \<or>
      f \<noteq> lg_next_commit_frame (ss_ledger s)")
    case True
    then show ?thesis using unchanged refused def by (auto split: if_splits)
  next
    case False
    then have due: "au_state (ss_authority s) = StateRunning" "\<not> admission_parked f (ss_authority s)"
      "lg_next_commit_frame (ss_ledger s) = f" by auto
    show ?thesis
    proof (cases "awaiting_commit f u")
      case True
      then have w: "(r, inputs, sent, t) = (let (outcome, more, v) = wait_for_commit peers f ?target now u in
          (outcome, no_inputs, first @ more, v))" using due def by (simp add: split_beta)
      show ?thesis
        using waiting [of u "fst (snd (wait_for_commit peers f ?target now u))" ?target] q w
          wait_quiet [of u peers f ?target now] wait_not_committed [of peers f ?target now u]
        by (auto simp: split_beta)
    next
      case False
      let ?v = "reset_pending_commit_wait u"
      have v: "quiet s ?v" "\<not> awaiting_commit f ?v" using quiet_trans [OF q(1)] False aw by auto
      obtain r' i' more t' where c: "commit_frame q f ?v = (r', i', more, t')" by (metis prod_cases4)
      show ?thesis
        using failed commit [of ?v more] due def False v q c by (auto split: if_splits)
    qed
  qed
qed

subsection \<open>A frame on Player 1 and on a guest\<close>

lemma commit_frame_host:
  assumes "au_is_host (ss_authority s)" "host_ledger (ss_authority s) first seed cs (ss_ledger s)"
    "timeline_inv (dl_timeline (ss_delivery s))" "expected_mask (ss_authority s) \<noteq> 0"
  shows "\<exists>c sent t. commit_frame q (lg_next_commit_frame (ss_ledger s)) s = (SyncCommitted, fc_inputs c, sent, t) \<and>
    fc_frame c = lg_next_commit_frame (ss_ledger s) \<and>
    timeline_inv (dl_timeline (ss_delivery t)) \<and> ss_authority t = ss_authority s \<and> ss_failure t = ss_failure s \<and>
    (unat first + length cs + 1 < 2 ^ 32 \<longrightarrow> host_ledger (ss_authority s) first seed (cs @ [c]) (ss_ledger t) \<and>
      (\<forall>payload \<in> commit_payloads sent. carries (cs @ [c]) payload))"
proof -
  let ?f = "lg_next_commit_frame (ss_ledger s)"
  obtain sent l1 u where p: "publish_commit q ?f (ss_authority s) (ss_ledger s) (dl_timeline (ss_delivery s)) = (sent, l1, u)"
    by (metis prod_cases3)
  then show ?thesis
    using publish_consume [OF assms(2,3,4) p] assms(1) by (auto simp: commit_frame_def Let_def)
qed

lemma host_ledger_same_match: "same_match a b \<Longrightarrow> host_ledger a first seed cs l = host_ledger b first seed cs l"
  using chain_same_match [of a b] by (simp add: host_ledger_def)

lemma wait_payloads:
  assumes "(r, sent, t) = wait_for_commit peers f target now s" "payload \<in> commit_payloads sent"
  shows "\<exists>w. payload \<in> commit_payloads (fst (service_pending_repair peers f target now (s\<lparr>ss_wait := w\<rparr>)))"
proof -
  have "own_failure no_progress_text" by (simp add: own_failure_def)
  then show ?thesis
    using assms fail_quiet(2) [of no_progress_text]
    by (auto simp: wait_for_commit_def Let_def split_beta split: if_splits)
qed

text \<open>What one call means for Player 1: the chain grows by the inputs it returns, or stays.\<close>

lemma host_tick:
  assumes "synchronize_inputs peers q f i sent_at now s = (r, inputs, sent, t)"
    "au_is_host (ss_authority s)" "same_match a (ss_authority s)" "expected_mask a \<noteq> 0"
    "host_ledger a first seed cs (ss_ledger s)" "timeline_inv (dl_timeline (ss_delivery s))"
    "own_failure (ss_failure s)"
    "r = SyncCommitted \<longrightarrow> unat first + length cs + 1 < 2 ^ 32"
  obtains cs' where "host_ledger a first seed cs' (ss_ledger t)" "timeline_inv (dl_timeline (ss_delivery t))"
    "au_is_host (ss_authority t)" "same_match a (ss_authority t)" "own_failure (ss_failure t)"
    "if r = SyncCommitted then \<exists>c. cs' = cs @ [c] \<and> fc_frame c = f \<and> fc_inputs c = inputs else cs' = cs"
    "\<forall>payload \<in> commit_payloads sent. carries cs' payload"
proof -
  have same: "host_ledger a first seed cs (ss_ledger t)" "timeline_inv (dl_timeline (ss_delivery t))"
    "au_is_host (ss_authority t)" "same_match a (ss_authority t)" "own_failure (ss_failure t)" if "quiet s t" for t
    using that assms(2,3,5,6,7) quiet_authority [OF that, of a] by (auto simp: quiet_def)
  show ?thesis
    using assms(1)
  proof (cases rule: synchronize_cases)
    case unchanged
    then show ?thesis using that [of cs] same [of s] by simp
  next
    case refused
    then have "t = snd (fail_locked (wrong_frame_text f (lg_next_commit_frame (ss_ledger s))) s)"
      "sent = fst (fail_locked (wrong_frame_text f (lg_next_commit_frame (ss_ledger s))) s)" by (metis fst_conv snd_conv)+
    moreover have "own_failure (wrong_frame_text f (lg_next_commit_frame (ss_ledger s)))"
      by (auto simp: own_failure_def)
    ultimately show ?thesis using that [of cs] same [of t] fail_quiet refused(1) by simp
  next
    case (waiting u more target)
    have "carries cs payload" if p: "payload \<in> commit_payloads more" for payload
    proof -
      obtain w where "payload \<in> commit_payloads (fst (service_pending_repair peers f target now (u\<lparr>ss_wait := w\<rparr>)))"
        using wait_payloads [OF waiting(4) p] by blast
      moreover have "ss_ledger (u\<lparr>ss_wait := w\<rparr>) = ss_ledger s" using waiting(2) by (simp add: quiet_def)
      ultimately show ?thesis using awaiting_repairs assms(5) by metis
    qed
    then show ?thesis using that [of cs] same [of t] quiet_trans waiting by metis
  next
    case failed
    then show ?thesis using that [of cs] same [of t] by simp
  next
    case (commit u more)
    note u = same [OF commit(2)]
    have l: "ss_ledger u = ss_ledger s" using commit(2) by (simp add: quiet_def)
    have m: "expected_mask (ss_authority u) \<noteq> 0" using same_match_epoch u(4) assms(4) by metis
    have h: "host_ledger (ss_authority u) first seed cs (ss_ledger u)"
      using host_ledger_same_match u(1,4) by blast
    obtain c where c: "r = SyncCommitted" "inputs = fc_inputs c" "fc_frame c = f" "timeline_inv (dl_timeline (ss_delivery t))"
      "ss_authority t = ss_authority u" "ss_failure t = ss_failure u"
      "unat first + length cs + 1 < 2 ^ 32 \<longrightarrow> host_ledger (ss_authority u) first seed (cs @ [c]) (ss_ledger t) \<and>
        (\<forall>payload \<in> commit_payloads sent. carries (cs @ [c]) payload)"
      using commit_frame_host [OF u(3) h u(2) m, of q] commit(1,4,5) l by auto
    then show ?thesis
      using that [of "cs @ [c]"] u assms(8) host_ledger_same_match [OF u(4)] by simp
  qed
qed

lemma guest_tick:
  assumes "synchronize_inputs peers q f i sent_at now s = (r, inputs, sent, t)"
    "\<not> au_is_host (ss_authority s)" "same_match a (ss_authority s)" "chain a first seed cs"
    "guest_ledger first seed cs k (ss_ledger s)" "own_failure (ss_failure s)"
  shows "\<not> au_is_host (ss_authority t) \<and> same_match a (ss_authority t) \<and> own_failure (ss_failure t) \<and>
    (if r = SyncCommitted then k < length cs \<and> f = fc_frame (cs ! k) \<and> inputs = fc_inputs (cs ! k) \<and>
       guest_ledger first seed cs (Suc k) (ss_ledger t)
     else guest_ledger first seed cs k (ss_ledger t))"
proof -
  have same: "guest_ledger first seed cs k (ss_ledger t)"
    "\<not> au_is_host (ss_authority t)" "same_match a (ss_authority t)" "own_failure (ss_failure t)" if "quiet s t" for t
    using that assms(2,3,5,6) quiet_authority [OF that, of a] by (auto simp: quiet_def)
  show ?thesis
    using assms(1)
  proof (cases rule: synchronize_cases)
    case refused
    then have "t = snd (fail_locked (wrong_frame_text f (lg_next_commit_frame (ss_ledger s))) s)" by (metis snd_conv)
    moreover have "own_failure (wrong_frame_text f (lg_next_commit_frame (ss_ledger s)))"
      by (auto simp: own_failure_def)
    ultimately show ?thesis using same [of t] fail_quiet refused(1) by simp
  next
    case (waiting u more target)
    then show ?thesis using same [of t] quiet_trans by metis
  next
    case (commit u more)
    note u = same [OF commit(2)]
    have l: "ss_ledger u = ss_ledger s" using commit(2) by (simp add: quiet_def)
    have c: "chain (ss_authority u) first seed cs" using chain_same_match [OF u(3)] assms(4) by simp
    have m: "map_of (lg_frame_commits (ss_ledger u)) (lg_next_commit_frame (ss_ledger u)) \<noteq> None"
      using commit(1,3) u(2) l by (simp add: awaiting_commit_def Let_def)
    have "k < length cs" and r: "r = SyncCommitted" "inputs = fc_inputs (cs ! k)"
      "guest_ledger first seed cs (Suc k) (ss_ledger t)" "ss_authority t = ss_authority u" "ss_failure t = ss_failure u"
      using commit_frame_guest [OF u(2) c u(1) m, of q] commit(1,4) l by auto
    moreover have "f = fc_frame (cs ! k)"
      using assms(4,5) commit(1) \<open>k < length cs\<close> by (simp add: chain_def guest_ledger_def)
    ultimately show ?thesis using u by simp
  qed (use same [of s] same [of t] in auto)
qed

lemma fast_forward_chain_spec:
  assumes "chain a first seed cs" "\<And>f c. map_of (lg_frame_commits l) f = Some c \<Longrightarrow> c \<in> set cs \<and> fc_frame c = f"
    "k \<le> length cs" "unat first + k + n < 2 ^ 32"
  shows "case fast_forward_chain (map (\<lambda>i. first + of_nat i) [k..<k + n]) newest (hash_at seed cs k) a l of
      Inl (frame, e) \<Rightarrow> e = None
    | Inr found \<Rightarrow> k + n \<le> length cs \<and> found = (if n = 0 then newest else Some (cs ! (k + n - 1)))"
  using assms(3,4)
proof (induction n arbitrary: k newest)
  case (Suc n)
  define rest where "rest = map (\<lambda>i. first + of_nat i :: u32) [Suc k..<Suc k + n]"
  have u: "map (\<lambda>i. first + of_nat i) [k..<k + Suc n] = (first + of_nat k) # rest"
    by (simp add: rest_def upt_conv_Cons del: upt_Suc)
  show ?case
  proof (cases "map_of (lg_frame_commits l) (first + of_nat k)")
    case (Some c)
    then have "c \<in> set cs" "fc_frame c = first + of_nat k" using assms(2) by auto
    then have k: "k < length cs" "c = cs ! k" using chain_at [OF assms(1)] Suc.prems(1) by auto
    then have c: "validate_commit c a = Inr ()" "fc_previous_hash c = hash_at seed cs k"
      "hash_at seed cs (Suc k) = fc_commit_hash c"
      using assms(1) by (auto simp: chain_def hash_at_def)
    have "case fast_forward_chain rest (Some c) (hash_at seed cs (Suc k)) a l of
      Inl (frame, e) \<Rightarrow> e = None
    | Inr found \<Rightarrow> Suc k + n \<le> length cs \<and> found = (if n = 0 then Some c else Some (cs ! (Suc k + n - 1)))"
      using Suc.IH [of "Suc k" "Some c"] k(1) Suc.prems(2) unfolding rest_def by simp
    then show ?thesis using Some c k(2) unfolding u by (auto split: sum.splits prod.splits)
  qed (simp only: u fast_forward_chain.simps option.case sum.case prod.case)
qed (use assms in simp)

lemma map_of_filter_oldest:
  "map_of (filter (\<lambda>e. \<not> fst e < oldest) xs) k = (if k < (oldest :: u32) then None else map_of xs k)"
  by (induction xs) auto

text \<open>A fast forward never meets a broken chain; it moves the cursor along the chain or stays.\<close>

lemma guest_fast_forward:
  assumes "install_fast_forward n barrier installed s = (r, e, sent, t)"
    "same_match a (ss_authority s)" "chain a first seed cs" "guest_ledger first seed cs k (ss_ledger s)"
  shows "ss_authority t = ss_authority s \<and> ss_failure t = ss_failure s \<and>
    (\<exists>k'. k \<le> k' \<and> guest_ledger first seed cs k' (ss_ledger t))"
proof -
  let ?l = "ss_ledger s"
  let ?f = "frames_between (lg_next_commit_frame ?l) n"
  have c: "chain (ss_authority s) first seed cs" using chain_same_match [OF assms(2)] assms(3) by simp
  show ?thesis
  proof (cases "\<exists>newest. fast_forward_chain ?f None (lg_last_consumed_commit_hash ?l) (ss_authority s) ?l = Inr (Some newest)
      \<and> lg_next_commit_frame ?l \<le> n \<and> t = s\<lparr>ss_ledger := fast_forward_ledger n newest ?l,
              ss_delivery := (ss_delivery s)\<lparr>dl_pending_local_submission_frame := None, dl_native_completed_frame := Some (n - 1)\<rparr>\<rparr>")
    case True
    then obtain newest where ff: "fast_forward_chain ?f None (lg_last_consumed_commit_hash ?l) (ss_authority s) ?l = Inr (Some newest)"
      and le: "lg_next_commit_frame ?l \<le> n" and t: "t = s\<lparr>ss_ledger := fast_forward_ledger n newest ?l,
              ss_delivery := (ss_delivery s)\<lparr>dl_pending_local_submission_frame := None, dl_native_completed_frame := Some (n - 1)\<rparr>\<rparr>" by blast
    have g: "k \<le> length cs" "lg_next_commit_frame ?l = first + of_nat k" "lg_last_consumed_commit_hash ?l = hash_at seed cs k"
      "\<And>f c. map_of (lg_frame_commits ?l) f = Some c \<Longrightarrow> c \<in> set cs \<and> fc_frame c = f"
      using assms(4) by (auto simp: guest_ledger_def)
    have nk: "unat (lg_next_commit_frame ?l) = unat first + k"
      using g(1,2) assms(3) frame_offset [of first k] by (simp add: chain_def)
    define m where "m = unat n - (unat first + k)"
    have un: "unat n = unat first + k + m" using le nk by (simp add: m_def word_le_nat_alt)
    then have b: "unat first + k + m < 2 ^ 32" using unat_small(3) [of n] by simp
    have "?f = map (\<lambda>i. first + of_nat i) [k..<k + m]"
      unfolding frames_between_def nk un
      by (intro nth_equalityI) (auto simp: of_nat_add add.assoc)
    then have k': "k + m \<le> length cs" "Some newest = (if m = 0 then None else Some (cs ! (k + m - 1)))"
      using fast_forward_chain_spec [where l = ?l and newest = None, OF c g(4) g(1) b] ff g(3) by auto
    have n: "n = first + of_nat (k + m)"
      using un frame_offset [of first "k + m"] b by (simp add: word_unat_eq_iff)
    have "guest_ledger first seed cs (k + m) (fast_forward_ledger n newest ?l)"
      using assms(4) k' n by (auto simp: guest_ledger_def fast_forward_ledger_def hash_at_def map_of_filter_oldest split: if_splits)
    then show ?thesis using t by (auto intro!: exI [of _ "k + m"])
  next
    case False
    have "t = s" using assms(1) False
      unfolding install_fast_forward_def Let_def by (auto split: if_splits sum.splits option.splits prod.splits)
    then show ?thesis using assms(4) by auto
  qed
qed

end
