(* ===== verification/Match.thy ===== *)
theory Match
  imports Lockstep "HOL-Library.Sublist"
begin

section \<open>A match over an unreliable network\<close>

text \<open>
  Player 1, its guests and a network that loses, repeats and reorders, as a step relation;
  its invariant, and the repair of a missing commit.
\<close>

subsection \<open>A match: Player 1, the guests and the network\<close>

text \<open>
  The network keeps every payload of commits Player 1 has sent; a guest may receive any of
  them at any time, more than once, or never. The inputs that reach Player 1 and the
  acknowledgements that reach a guest are arbitrary bytes.
\<close>

record Match =
  mt_host :: Session
  mt_guests :: "Session list"
  mt_sent :: "bytes set"
  mt_host_log :: "(u32 \<times> FrameInputs) list"
  mt_guest_logs :: "(u32 \<times> FrameInputs) list list"

definition log_frame ::
  "u32 \<Rightarrow> InputSynchronizationResult \<Rightarrow> FrameInputs \<Rightarrow> (u32 \<times> FrameInputs) list \<Rightarrow> (u32 \<times> FrameInputs) list" where
  "log_frame frame outcome inputs frames =
     (if outcome = SyncCommitted then frames @ [(frame, inputs)] else frames)"

definition opened :: "u32 \<Rightarrow> u64 \<Rightarrow> Ledger \<Rightarrow> bool" where
  "opened first seed l \<longleftrightarrow> lg_next_commit_frame l = first \<and> lg_last_consumed_commit_hash l = seed \<and>
     lg_frame_commits l = [] \<and> lg_commit_history l = [] \<and>
     lg_frame_correction_generation l = 0 \<and> lg_applied_generation l = 0"

definition match_opening :: "u32 \<Rightarrow> u64 \<Rightarrow> Match \<Rightarrow> bool" where
  "match_opening first seed M \<longleftrightarrow>
     au_is_host (ss_authority (mt_host M)) \<and>
     (case au_launch_descriptor (ss_authority (mt_host M)) of
        Some d \<Rightarrow> valid_launch_descriptor d | None \<Rightarrow> False) \<and>
     opened first seed (ss_ledger (mt_host M)) \<and> timeline_inv (dl_timeline (ss_delivery (mt_host M))) \<and>
     ss_failure (mt_host M) = [] \<and>
     (\<forall>g \<in> set (mt_guests M). \<not> au_is_host (ss_authority g) \<and> ss_failure g = [] \<and>
        same_match (ss_authority (mt_host M)) (ss_authority g) \<and> opened first seed (ss_ledger g)) \<and>
     mt_sent M = {} \<and> mt_host_log M = [] \<and> mt_guest_logs M = replicate (length (mt_guests M)) []"

text \<open>A change of the session that is no business of the ledger: phases, barriers, recovery.\<close>

definition rearranged :: "Authority \<Rightarrow> Authority \<Rightarrow> bool" where
  "rearranged a b \<longleftrightarrow> same_match a b \<and> au_is_host a = au_is_host b \<and> au_local_slot a = au_local_slot b"

inductive match_step :: "Match \<Rightarrow> Match \<Rightarrow> bool" where
  host_frame: "synchronize_inputs peers q frame local sent_at now (mt_host M) = (r, inputs, sent, s) \<Longrightarrow>
    match_step M (M\<lparr>mt_host := s, mt_sent := mt_sent M \<union> commit_payloads sent,
      mt_host_log := log_frame frame r inputs (mt_host_log M)\<rparr>)"
| host_input: "handle_input peer payload (ss_authority (mt_host M)) (ss_ledger (mt_host M))
      (ss_delivery (mt_host M)) = (sent, d) \<Longrightarrow>
    match_step M (M\<lparr>mt_host := (mt_host M)\<lparr>ss_delivery := d\<rparr>\<rparr>)"
| host_repair: "handle_frame_commit_request peer payload h (ss_authority (mt_host M))
      (ss_ledger (mt_host M)) = Repaired sent \<Longrightarrow>
    match_step M (M\<lparr>mt_sent := mt_sent M \<union> commit_payloads sent\<rparr>)"
| host_phase: "rearranged (ss_authority (mt_host M)) a \<Longrightarrow>
    match_step M (M\<lparr>mt_host := (mt_host M)\<lparr>ss_authority := a\<rparr>\<rparr>)"
| guest_frame: "g < length (mt_guests M) \<Longrightarrow>
    synchronize_inputs peers q frame local sent_at now (mt_guests M ! g) = (r, inputs, sent, s) \<Longrightarrow>
    match_step M (M\<lparr>mt_guests := (mt_guests M)[g := s],
      mt_guest_logs := (mt_guest_logs M)[g := log_frame frame r inputs (mt_guest_logs M ! g)]\<rparr>)"
| guest_commits: "g < length (mt_guests M) \<Longrightarrow> payload \<in> mt_sent M \<Longrightarrow>
    handle_frame_commit payload h (ss_authority (mt_guests M ! g)) (ss_ledger (mt_guests M ! g)) = (r, sent, l) \<Longrightarrow>
    s = (mt_guests M ! g)\<lparr>ss_ledger := l\<rparr> \<Longrightarrow>
    match_step M (M\<lparr>mt_guests := (mt_guests M)[g := (case r of Inl e \<Rightarrow> snd (fail_locked e s) | Inr _ \<Rightarrow> s)]\<rparr>)"
| guest_delivery: "g < length (mt_guests M) \<Longrightarrow>
    match_step M (M\<lparr>mt_guests := (mt_guests M)[g := (mt_guests M ! g)\<lparr>ss_delivery := d\<rparr>]\<rparr>)"
| guest_forward: "g < length (mt_guests M) \<Longrightarrow>
    install_fast_forward next_frame barrier installed (mt_guests M ! g) = (r, e, sent, s) \<Longrightarrow>
    match_step M (M\<lparr>mt_guests := (mt_guests M)[g := s]\<rparr>)"
| guest_phase: "g < length (mt_guests M) \<Longrightarrow> rearranged (ss_authority (mt_guests M ! g)) a \<Longrightarrow>
    match_step M (M\<lparr>mt_guests := (mt_guests M)[g := (mt_guests M ! g)\<lparr>ss_authority := a\<rparr>]\<rparr>)"

inductive match_reachable :: "u32 \<Rightarrow> u64 \<Rightarrow> Match \<Rightarrow> bool" for first seed where
  open_match: "match_opening first seed M \<Longrightarrow> match_reachable first seed M"
| step_match: "match_reachable first seed M \<Longrightarrow> match_step M N \<Longrightarrow> match_reachable first seed N"

definition entry_of :: "FrameCommitPayload \<Rightarrow> u32 \<times> FrameInputs" where
  "entry_of c = (fc_frame c, fc_inputs c)"

definition guest_ok :: "Authority \<Rightarrow> u32 \<Rightarrow> u64 \<Rightarrow> FrameCommitPayload list \<Rightarrow> Session \<Rightarrow> (u32 \<times> FrameInputs) list \<Rightarrow> bool" where
  "guest_ok a first seed cs g frames \<longleftrightarrow> \<not> au_is_host (ss_authority g) \<and> same_match a (ss_authority g) \<and>
     own_failure (ss_failure g) \<and>
     (\<exists>k. guest_ledger first seed cs k (ss_ledger g) \<and> subseq frames (map entry_of (take k cs)))"

definition match_inv :: "u32 \<Rightarrow> u64 \<Rightarrow> FrameCommitPayload list \<Rightarrow> Match \<Rightarrow> bool" where
  "match_inv first seed cs M \<longleftrightarrow> (let a = ss_authority (mt_host M) in
     au_is_host a \<and> expected_mask a \<noteq> 0 \<and> host_ledger a first seed cs (ss_ledger (mt_host M)) \<and>
     timeline_inv (dl_timeline (ss_delivery (mt_host M))) \<and> own_failure (ss_failure (mt_host M)) \<and>
     mt_host_log M = map entry_of cs \<and> (\<forall>payload \<in> mt_sent M. carries cs payload) \<and>
     list_all2 (guest_ok a first seed cs) (mt_guests M) (mt_guest_logs M))"

lemma carries_extend: "carries cs payload \<Longrightarrow> carries (cs @ ds) payload"
  by (auto simp: carries_def)

lemma guest_ok_extend:
  assumes "guest_ok a first seed cs g frames"
  shows "guest_ok a first seed (cs @ ds) g frames"
proof -
  obtain k where k: "guest_ledger first seed cs k (ss_ledger g)" "subseq frames (map entry_of (take k cs))"
    using assms by (auto simp: guest_ok_def)
  then have "guest_ledger first seed (cs @ ds) k (ss_ledger g)" "take k (cs @ ds) = take k cs"
    using guest_ledger_extend by (auto simp: guest_ledger_def)
  then show ?thesis using assms k(2) unfolding guest_ok_def by metis
qed

lemma guest_ok_same_match: "same_match a b \<Longrightarrow> guest_ok a first seed cs g frames = guest_ok b first seed cs g frames"
  by (auto simp: guest_ok_def same_match_def)

lemma match_opening_inv:
  assumes "match_opening first seed M"
  shows "match_inv first seed [] M"
proof -
  let ?a = "ss_authority (mt_host M)"
  have "expected_mask ?a \<noteq> 0"
    using assms by (auto simp: match_opening_def expected_mask_def valid_launch_descriptor_def Let_def split: option.splits if_splits)
  moreover have "list_all2 (guest_ok ?a first seed []) (mt_guests M) (mt_guest_logs M)"
    using assms
    by (auto simp: match_opening_def list_all2_conv_all_nth guest_ok_def guest_ledger_def opened_def hash_at_def own_failure_def)
  moreover have "unat first < 4294967296" using unat_small(3) [of first] by simp
  ultimately show ?thesis
    using assms by (simp add: match_inv_def Let_def match_opening_def host_ledger_def opened_def chain_def hash_at_def own_failure_def)
qed

text \<open>Guests with each step keep agreeing with the chain.\<close>

lemma guest_frame_ok:
  assumes "synchronize_inputs peers q f i sent_at now g = (r, inputs, sent, s)"
    "guest_ok a first seed cs g frames" "chain a first seed cs"
  shows "guest_ok a first seed cs s (log_frame f r inputs frames)"
proof -
  obtain k where k: "guest_ledger first seed cs k (ss_ledger g)" "subseq frames (map entry_of (take k cs))"
    and g: "\<not> au_is_host (ss_authority g)" "same_match a (ss_authority g)" "own_failure (ss_failure g)"
    using assms(2) by (auto simp: guest_ok_def)
  note t = guest_tick [OF assms(1) g(1,2) assms(3) k(1) g(3)]
  show ?thesis
  proof (cases "r = SyncCommitted")
    case True
    then have "k < length cs" "f = fc_frame (cs ! k)" "inputs = fc_inputs (cs ! k)" using t by auto
    then have "log_frame f r inputs frames = frames @ [entry_of (cs ! k)]"
      "map entry_of (take (Suc k) cs) = map entry_of (take k cs) @ [entry_of (cs ! k)]"
      using True by (auto simp: log_frame_def entry_of_def take_Suc_conv_app_nth)
    then have "subseq (log_frame f r inputs frames) (map entry_of (take (Suc k) cs))"
      using k(2) by (auto intro: list_emb_append_mono)
    then show ?thesis using t True unfolding guest_ok_def by auto
  next
    case False
    then show ?thesis using t k(2) unfolding guest_ok_def log_frame_def by auto
  qed
qed

lemma guest_commits_ok:
  assumes "handle_frame_commit payload h (ss_authority g) (ss_ledger g) = (r, sent, l)" "s = g\<lparr>ss_ledger := l\<rparr>"
    "guest_ok a first seed cs g frames" "chain a first seed cs" "carries cs payload"
  shows "guest_ok a first seed cs (case r of Inl e \<Rightarrow> snd (fail_locked e s) | Inr _ \<Rightarrow> s) frames"
proof -
  obtain k where k: "guest_ledger first seed cs k (ss_ledger g)" "subseq frames (map entry_of (take k cs))"
    and g: "same_match a (ss_authority g)" using assms(3) by (auto simp: guest_ok_def)
  have c: "chain (ss_authority g) first seed cs" using chain_same_match [OF g] assms(4) by simp
  obtain l2 where "handle_frame_commit payload h (ss_authority g) (ss_ledger g) = (Inr (), [], l2)"
    "guest_ledger first seed cs k l2" using handle_commit_chain [OF c k(1) assms(5), of h] by metis
  then show ?thesis using assms(1,2,3) k(2) unfolding guest_ok_def by auto
qed

lemma guest_forward_ok:
  assumes "install_fast_forward n barrier installed g = (r, e, sent, s)"
    "guest_ok a first seed cs g frames" "chain a first seed cs"
  shows "guest_ok a first seed cs s frames"
proof -
  obtain k where k: "guest_ledger first seed cs k (ss_ledger g)" "subseq frames (map entry_of (take k cs))"
    and g: "same_match a (ss_authority g)" using assms(2) by (auto simp: guest_ok_def)
  obtain k' where k': "k \<le> k'" "guest_ledger first seed cs k' (ss_ledger s)"
    and s: "ss_authority s = ss_authority g" "ss_failure s = ss_failure g"
    using guest_fast_forward [OF assms(1) g assms(3) k(1)] by blast
  have "take k' cs = take k cs @ take (k' - k) (drop k cs)" using k'(1) by (metis le_add_diff_inverse take_add)
  then have "subseq frames (map entry_of (take k' cs))" using k(2) by (simp add: subseq_rev_drop_many)
  then show ?thesis using assms(2) k'(2) s unfolding guest_ok_def by auto
qed

lemma match_inv_chain: "match_inv first seed cs M \<Longrightarrow> chain (ss_authority (mt_host M)) first seed cs"
  by (simp add: match_inv_def Let_def host_ledger_def)

lemma match_inv_guest:
  assumes "match_inv first seed cs M" "g < length (mt_guests M)"
    "guest_ok (ss_authority (mt_host M)) first seed cs s frames"
  shows "match_inv first seed cs (M\<lparr>mt_guests := (mt_guests M)[g := s], mt_guest_logs := (mt_guest_logs M)[g := frames]\<rparr>)"
  using assms by (simp add: match_inv_def Let_def list_all2_update_cong)

lemma match_inv_guest_ok:
  "match_inv first seed cs M \<Longrightarrow> g < length (mt_guests M) \<Longrightarrow>
     guest_ok (ss_authority (mt_host M)) first seed cs (mt_guests M ! g) (mt_guest_logs M ! g)"
  by (simp add: match_inv_def Let_def list_all2_nthD)

lemma match_inv_guest_only:
  assumes "match_inv first seed cs M" "g < length (mt_guests M)"
    "guest_ok (ss_authority (mt_host M)) first seed cs s (mt_guest_logs M ! g)"
  shows "match_inv first seed cs (M\<lparr>mt_guests := (mt_guests M)[g := s]\<rparr>)"
  using match_inv_guest [OF assms] by (simp add: match_inv_def)

lemma match_inv_host:
  assumes "match_inv first seed cs M" "au_is_host (ss_authority s)" "same_match (ss_authority (mt_host M)) (ss_authority s)"
    "host_ledger (ss_authority (mt_host M)) first seed (cs @ ds) (ss_ledger s)"
    "timeline_inv (dl_timeline (ss_delivery s))" "own_failure (ss_failure s)"
    "\<forall>payload \<in> sent. carries (cs @ ds) payload"
  shows "match_inv first seed (cs @ ds) (M\<lparr>mt_host := s, mt_sent := mt_sent M \<union> sent, mt_host_log := map entry_of (cs @ ds)\<rparr>)"
proof -
  have "list_all2 (guest_ok (ss_authority s) first seed (cs @ ds)) (mt_guests M) (mt_guest_logs M)"
    using assms(1) guest_ok_extend guest_ok_same_match [OF assms(3)] unfolding match_inv_def Let_def
    by (auto elim!: list_all2_mono)
  then show ?thesis
    using assms same_match_epoch [OF assms(3)] host_ledger_same_match [OF assms(3)] carries_extend
    by (auto simp: match_inv_def Let_def)
qed

lemma host_frame_inv:
  assumes "synchronize_inputs peers q f i sent_at now (mt_host M) = (r, inputs, sent, s)" "match_inv first seed cs M"
    "unat first + length (log_frame f r inputs (mt_host_log M)) < 2 ^ 32"
  shows "\<exists>ds. match_inv first seed ds (M\<lparr>mt_host := s, mt_sent := mt_sent M \<union> commit_payloads sent,
      mt_host_log := log_frame f r inputs (mt_host_log M)\<rparr>)"
proof -
  have h: "au_is_host (ss_authority (mt_host M))" "expected_mask (ss_authority (mt_host M)) \<noteq> 0"
    "host_ledger (ss_authority (mt_host M)) first seed cs (ss_ledger (mt_host M))"
    "timeline_inv (dl_timeline (ss_delivery (mt_host M)))" "own_failure (ss_failure (mt_host M))"
    "mt_host_log M = map entry_of cs"
    using assms(2) by (auto simp: match_inv_def Let_def)
  have b: "r = SyncCommitted \<longrightarrow> unat first + length cs + 1 < 2 ^ 32"
    using assms(3) h(6) by (auto simp: log_frame_def)
  obtain cs' where t: "host_ledger (ss_authority (mt_host M)) first seed cs' (ss_ledger s)"
    "timeline_inv (dl_timeline (ss_delivery s))" "au_is_host (ss_authority s)"
    "same_match (ss_authority (mt_host M)) (ss_authority s)" "own_failure (ss_failure s)"
    "if r = SyncCommitted then \<exists>c. cs' = cs @ [c] \<and> fc_frame c = f \<and> fc_inputs c = inputs else cs' = cs"
    "\<forall>payload \<in> commit_payloads sent. carries cs' payload"
    by (rule host_tick [OF assms(1) h(1) _ h(2,3,4,5) b]) auto
  obtain ds where ds: "cs' = cs @ ds" "log_frame f r inputs (mt_host_log M) = map entry_of (cs @ ds)"
    using t(6) h(6) by (auto simp: log_frame_def entry_of_def split: if_splits)
  then show ?thesis using match_inv_host [OF assms(2) t(3,4), of ds "commit_payloads sent"] t by auto
qed

lemma match_step_inv:
  assumes "match_step M N" "match_inv first seed cs M" "unat first + length (mt_host_log N) < 2 ^ 32"
  shows "\<exists>ds. match_inv first seed ds N"
  using assms
proof (cases rule: match_step.cases)
  case (host_frame peers q frame loc sent_at now r inputs sent s)
  then show ?thesis using host_frame_inv [OF host_frame(2) assms(2)] assms(3) by simp
next
  case (host_input peer payload sent d)
  then have "timeline_inv (dl_timeline d)" using handle_input_inv assms(2) by (auto simp: match_inv_def Let_def)
  then show ?thesis using assms(2) host_input by (auto simp: match_inv_def Let_def)
next
  case (host_repair peer payload h sent)
  have "carries cs payload" if "payload \<in> commit_payloads sent" for payload
    using that host_repair(2) repair_carries assms(2)
    unfolding handle_frame_commit_request_def Let_def match_inv_def
    by (auto split: if_splits sum.splits option.splits)
  then show ?thesis using assms(2) host_repair by (auto simp: match_inv_def Let_def)
next
  case (host_phase a)
  then have "same_match (ss_authority (mt_host M)) a" "au_is_host a"
    using assms(2) by (auto simp: rearranged_def match_inv_def Let_def)
  then show ?thesis
    using match_inv_host [OF assms(2), of "(mt_host M)\<lparr>ss_authority := a\<rparr>" "[]" "{}"] assms(2) host_phase
    by (auto simp: match_inv_def Let_def)
next
  case (guest_frame g peers q frame loc sent_at now r inputs sent s)
  note ok = guest_frame_ok [OF guest_frame(3) match_inv_guest_ok [OF assms(2) guest_frame(2)] match_inv_chain [OF assms(2)]]
  show ?thesis using match_inv_guest [OF assms(2) guest_frame(2) ok] guest_frame(1) by blast
next
  case (guest_commits g payload h r sent l s)
  have "carries cs payload" using guest_commits(3) assms(2) by (simp add: match_inv_def Let_def)
  note ok = guest_commits_ok [OF guest_commits(4,5) match_inv_guest_ok [OF assms(2) guest_commits(2)]
    match_inv_chain [OF assms(2)] this]
  show ?thesis using match_inv_guest_only [OF assms(2) guest_commits(2) ok] guest_commits(1) by blast
next
  case (guest_delivery g d)
  then show ?thesis
    using match_inv_guest_only [OF assms(2) guest_delivery(2), of "(mt_guests M ! g)\<lparr>ss_delivery := d\<rparr>"]
      match_inv_guest_ok [OF assms(2) guest_delivery(2)] by (auto simp: guest_ok_def)
next
  case (guest_forward g next_frame barrier installed r e sent s)
  note ok = guest_forward_ok [OF guest_forward(3) match_inv_guest_ok [OF assms(2) guest_forward(2)] match_inv_chain [OF assms(2)]]
  show ?thesis using match_inv_guest_only [OF assms(2) guest_forward(2) ok] guest_forward(1) by blast
next
  case (guest_phase g a)
  have "same_match (ss_authority (mt_host M)) a" "\<not> au_is_host a"
    using guest_phase(3) match_inv_guest_ok [OF assms(2) guest_phase(2)]
    by (auto simp: guest_ok_def rearranged_def same_match_def)
  then show ?thesis
    using match_inv_guest_only [OF assms(2) guest_phase(2), of "(mt_guests M ! g)\<lparr>ss_authority := a\<rparr>"]
      match_inv_guest_ok [OF assms(2) guest_phase(2)] guest_phase(1) by (auto simp: guest_ok_def)
qed

lemma match_step_log: "match_step M N \<Longrightarrow> length (mt_host_log M) \<le> length (mt_host_log N)"
  by (induction rule: match_step.induct) (auto simp: log_frame_def)

theorem match_reachable_inv:
  "match_reachable first seed M \<Longrightarrow> unat first + length (mt_host_log M) < 2 ^ 32 \<Longrightarrow> \<exists>cs. match_inv first seed cs M"
proof (induction rule: match_reachable.induct)
  case (open_match M)
  then show ?case using match_opening_inv by blast
next
  case (step_match M N)
  then obtain cs where "match_inv first seed cs M" using match_step_log [OF step_match(2)] by auto
  then show ?case using match_step_inv [OF step_match(2)] step_match(4) by blast
qed

subsection \<open>Repair\<close>

lemma chain_frame:
  assumes "chain a first seed cs" "i < length cs"
  shows "unat (fc_frame (cs ! i)) = unat first + i"
  using assms frame_offset [of first i] by (simp add: chain_def)

lemma collect_repair_head:
  assumes "chain a first seed cs" "n \<le> k" "k < length cs" "0 < m"
  shows "\<exists>rest. collect_repair (fc_frame (cs ! k)) m (fc_frame (cs ! k)) 0 (drop n cs) = cs ! k # rest"
  using assms(2)
proof (induction "k - n" arbitrary: n)
  case 0
  then have "drop n cs = cs ! k # drop (Suc k) cs" using assms(3) by (simp add: Cons_nth_drop_Suc)
  then show ?case using assms(4) by simp
next
  case (Suc d)
  then have n: "n < k" "drop n cs = cs ! n # drop (Suc n) cs" using assms(3) by (auto simp: Cons_nth_drop_Suc)
  then have "fc_frame (cs ! n) < fc_frame (cs ! k)"
    using chain_frame [OF assms(1)] assms(3) by (simp add: word_less_nat_alt)
  then show ?case using Suc.hyps(1) [of "Suc n"] Suc.hyps(2) n by simp
qed

lemma repair_answers:
  assumes "host_ledger a first seed cs l" "au_is_host b" "k < length cs" "length cs \<le> k + kCommitHistoryCapacity" "0 < m"
  shows "\<exists>payload batch. payload \<in> commit_payloads (send_commit_history_to_peer peer (fc_frame (cs ! k)) m b l) \<and>
    decode_frame_commit_batch payload = Inr batch \<and> cs ! k \<in> set (fb_commits batch)"
proof -
  let ?f = "fc_frame (cs ! k)"
  have c: "chain a first seed cs" and h: "lg_commit_history l = drop (length cs - kCommitHistoryCapacity) cs"
    and g: "lg_frame_correction_generation l = 0" using assms(1) by (auto simp: host_ledger_def)
  obtain rest where r: "collect_repair ?f (min m 64) ?f 0 (lg_commit_history l) = cs ! k # rest"
  proof -
    have "length cs - kCommitHistoryCapacity \<le> k" "0 < min m 64" using assms(4,5) by auto
    then show ?thesis using that collect_repair_head [OF c _ assms(3)] h by metis
  qed
  define commits where "commits = take 16 (cs ! k # rest)"
  define batch where "batch = \<lparr>fb_generation = 0, fb_correction_first = 0, fb_correction_last = 0,
    fb_correction = False, fb_commits = commits\<rparr>"
  have first: "chunks 16 (cs ! k # rest) = commits # chunks 16 (drop 16 (cs ! k # rest))"
    by (subst chunks.simps) (simp add: commits_def)
  have "set commits \<subseteq> set cs"
    using chunks_members [of commits 16 "cs ! k # rest"] first set_collect_repair [of ?f "min m 64" ?f 0 "lg_commit_history l"]
      set_drop_subset [of "length cs - kCommitHistoryCapacity" cs] r h by auto
  then have ok: "\<forall>e \<in> set commits. commit_ok e" using chain_valid [OF c] by blast
  then have e: "encode_frame_commit_batch batch \<noteq> []"
    by (auto simp: encode_frame_commit_batch_def batch_def commits_def commit_ok_def)
  have "encode_frame_commit_batch batch \<in> commit_payloads (send_commit_history_to_peer peer ?f m b l)"
    using e assms(2,5) by (auto simp: send_commit_history_to_peer_def r first g batch_def commit_payloads_def Let_def)
  moreover have "decode_frame_commit_batch (encode_frame_commit_batch batch) = Inr batch"
    using frame_commit_batch.dec_enc [of batch] e ok by (simp add: batch_def)
  moreover have "cs ! k \<in> set (fb_commits batch)" by (simp add: batch_def commits_def)
  ultimately show ?thesis by blast
qed

text \<open>Player 1 answers a request in a race and in menus, unless a handoff is about to begin.\<close>

definition repair_open :: "Authority \<Rightarrow> bool" where
  "repair_open a \<longleftrightarrow>
     (if au_authoritative_phase_active a then au_authority_lifecycle a = LifecycleRacing
      else au_authority_lifecycle a \<in> {LifecycleInactive, LifecyclePostRace}) \<and>
     (case au_gameplay_handoff a of Some h \<Rightarrow> gh_suspended h \<longrightarrow> gh_armed h | None \<Rightarrow> True)"

lemma request_answered:
  assumes "host_ledger a first seed cs l" "same_match a b" "same_match a c" "au_is_host b" "repair_open b"
    "au_launch_descriptor b \<noteq> None"
    "k < length cs" "length cs \<le> k + kCommitHistoryCapacity" "unat (au_local_slot c) < kMaximumPlayers"
    "f = fc_frame (cs ! k)" "payload = encode_frame_commit_request \<lparr>fr_epoch = authority_epoch c,
       fr_player_slot = au_local_slot c, fr_first_missing_frame = f\<rparr>"
  shows "\<exists>sent. handle_frame_commit_request (au_local_slot c) payload f b l = Repaired sent \<and>
    (\<exists>p batch. p \<in> commit_payloads sent \<and> decode_frame_commit_batch p = Inr batch \<and> cs ! k \<in> set (fb_commits batch))"
proof -
  let ?n = "length cs - kCommitHistoryCapacity"
  have ch: "chain a first seed cs" and h: "lg_commit_history l = drop ?n cs"
    and nx: "lg_next_commit_frame l = first + of_nat (length cs)" using assms(1) by (auto simp: host_ledger_def)
  have d: "decode_frame_commit_request payload = Inr \<lparr>fr_epoch = authority_epoch c,
       fr_player_slot = au_local_slot c, fr_first_missing_frame = f\<rparr>"
    unfolding assms(11) using assms(9) authority_epoch_nonzero [of c]
    by (intro frame_commit_request.codec.dec_enc) (simp add: encode_frame_commit_request_def not_le)
  have u: "unat (lg_next_commit_frame l) = unat first + length cs" "unat f = unat first + k"
    using ch nx frame_offset [of first "length cs"] chain_frame [OF ch assms(7)] assms(10) by (auto simp: chain_def)
  have lt: "f < lg_next_commit_frame l" using u assms(7) by (simp add: word_less_nat_alt)
  have m: "0 < min 64 (unat (lg_next_commit_frame l - f))"
    using lt by (simp add: unat_sub word_le_nat_alt word_less_nat_alt)
  have n: "?n \<le> k" using assms(8) by simp
  have hd: "lg_commit_history l \<noteq> []" "fc_frame (hd (lg_commit_history l)) \<le> f"
    using h n assms(7,10) chain_frame [OF ch, of ?n] u by (auto simp: hd_drop_conv_nth word_le_nat_alt)
  have e: "authority_epoch c = authority_epoch b" using same_match_epoch assms(2,3) by metis
  have "handle_frame_commit_request (au_local_slot c) payload f b l =
     Repaired (send_commit_history_to_peer (au_local_slot c) f (min 64 (unat (lg_next_commit_frame l - f))) b l)"
    using assms(5,6) d e lt hd unfolding repair_open_def handle_frame_commit_request_def Let_def
    by (cases "au_gameplay_handoff b"; cases "au_authority_lifecycle b"; cases "au_authoritative_phase_active b")
      (auto simp: not_le not_less)
  then show ?thesis using repair_answers [OF assms(1,4,7,8) m] assms(10) by blast
qed

subsection \<open>A guest that has the commit moves on\<close>

definition running_or_exhausted :: "Session \<Rightarrow> bool" where
  "running_or_exhausted s \<longleftrightarrow> au_state (ss_authority s) = StateRunning \<or>
     au_state (ss_authority s) = StateFailed \<and> ss_failure s = ''The input sample revision limit was exceeded.''"

lemma store_local_running: "running_or_exhausted s \<Longrightarrow> running_or_exhausted (snd (store_local f i p s))"
  using store_local_input_error [of f i p "ss_authority s" "ss_ledger s" "ss_delivery s"]
  by (auto simp: running_or_exhausted_def store_local_def fail_locked_def split: prod.split sum.split)

lemma hold_last_running: "running_or_exhausted s \<Longrightarrow> running_or_exhausted (snd (hold_last fs h s))"
  by (induction fs arbitrary: s) (auto simp: Let_def split_beta store_local_running)

lemma submit_running:
  assumes "running_or_exhausted s"
  shows "running_or_exhausted (snd (submit_local f target i time s))"
proof -
  have "running_or_exhausted (snd (store_local target i True (snd (case hold_first target (ss_delivery s) of None \<Rightarrow> ([], s)
    | Some first \<Rightarrow> hold_last (frames_between first target) (dl_local_input_submitted (ss_delivery s)) s))))"
    using assms hold_last_running by (intro store_local_running) (auto split: option.split)
  then show ?thesis using assms
    unfolding submit_local_def Let_def split_beta by (simp add: running_or_exhausted_def)
qed

lemma poll_commits:
  assumes "\<not> au_is_host (ss_authority s)" "chain (ss_authority s) first seed cs"
    "guest_ledger first seed cs k (ss_ledger s)" "au_state (ss_authority s) = StateRunning"
    "f = lg_next_commit_frame (ss_ledger s)" "\<not> admission_parked f (ss_authority s)"
    "map_of (lg_frame_commits (ss_ledger s)) f \<noteq> None"
    "synchronize_inputs peers q f i sent_at now s = (r, inputs, sent, t)"
  shows "r = SyncCommitted \<and> inputs = fc_inputs (cs ! k) \<and> k < length cs \<and> guest_ledger first seed cs (Suc k) (ss_ledger t) \<or>
    r = SyncFailed \<and> ss_failure t = ''The input sample revision limit was exceeded.''"
proof -
  let ?target = "authored_target f (ss_authority s) (ss_ledger s)"
  obtain out u where su: "submit_local f ?target i sent_at s = (out, u)" by fastforce
  define v where "v = reset_pending_commit_wait u"
  have q: "quiet s v"
    using submit_quiet [of s f ?target i sent_at] quiet_trans [OF _ reset_wait_quiet] su by (simp add: v_def)
  have run: "running_or_exhausted v"
    using submit_running [of s f ?target i sent_at] assms(4) su
    by (simp add: running_or_exhausted_def v_def reset_pending_commit_wait_def)
  have vl: "ss_ledger v = ss_ledger s" "\<not> au_is_host (ss_authority v)" "chain (ss_authority v) first seed cs"
    using q assms(1,2) quiet_authority [OF q, of "ss_authority s"] chain_same_match [of "ss_authority s" "ss_authority v"]
    by (auto simp: quiet_def)
  have "\<not> awaiting_commit f u"
    using vl(1,2) assms(7) by (simp add: awaiting_commit_def Let_def v_def reset_pending_commit_wait_def)
  then have e: "(if au_state (ss_authority v) \<noteq> StateRunning then (SyncFailed, no_inputs, out, v)
      else let (outcome, inputs, more, w) = commit_frame q f v in (outcome, inputs, out @ more, w)) = (r, inputs, sent, t)"
    using assms(4,6,8) assms(5) [symmetric] su
    by (auto simp: synchronize_inputs_def Let_def v_def split: if_splits)
  show ?thesis
  proof (cases "au_state (ss_authority v) = StateRunning")
    case True
    have "guest_ledger first seed cs k (ss_ledger v)"
      "map_of (lg_frame_commits (ss_ledger v)) (lg_next_commit_frame (ss_ledger v)) \<noteq> None"
      using assms(3,5,7) vl(1) by simp_all
    then obtain w where "commit_frame q f v = (SyncCommitted, fc_inputs (cs ! k), [], w)" "k < length cs"
      "guest_ledger first seed cs (Suc k) (ss_ledger w)"
      using commit_frame_guest [OF vl(2,3), of k q] vl(1) assms(5) by auto
    then show ?thesis using e True by simp
  next
    case False
    then show ?thesis using e run by (simp add: running_or_exhausted_def)
  qed
qed

lemma delivery_unblocks:
  assumes "match_inv first seed cs M" "g < length (mt_guests M)" "s = mt_guests M ! g"
    "f = lg_next_commit_frame (ss_ledger s)" "f = fc_frame c" "c \<in> set cs" "carries cs payload"
    "decode_frame_commit_batch payload = Inr batch" "c \<in> set (fb_commits batch)"
    "au_state (ss_authority s) = StateRunning" "\<not> admission_parked f (ss_authority s)"
    "handle_frame_commit payload h (ss_authority s) (ss_ledger s) = (r, sent, l)"
    "synchronize_inputs peers q f i sent_at now (s\<lparr>ss_ledger := l\<rparr>) = (outcome, inputs, sent2, t)"
  shows "r = Inr () \<and> (outcome = SyncCommitted \<and> inputs = fc_inputs c \<or>
    outcome = SyncFailed \<and> ss_failure t = ''The input sample revision limit was exceeded.'')"
proof -
  obtain k where k: "guest_ledger first seed cs k (ss_ledger s)" and g: "\<not> au_is_host (ss_authority s)"
    and m: "same_match (ss_authority (mt_host M)) (ss_authority s)"
    using match_inv_guest_ok [OF assms(1,2)] assms(3) by (auto simp: guest_ok_def)
  have ch: "chain (ss_authority s) first seed cs"
    using match_inv_chain [OF assms(1)] chain_same_match [OF m] by simp
  obtain l2 where l2: "handle_frame_commit payload h (ss_authority s) (ss_ledger s) = (Inr (), [], l2)"
    "guest_ledger first seed cs k l2" "map_of (lg_frame_commits l2) (fc_frame c) = Some c"
    using handle_commit_chain [OF ch k assms(7), of h] assms(8,9) by metis
  then have l: "r = Inr ()" "l = l2" using assms(12) by auto
  have f: "f = lg_next_commit_frame l2" "f = first + of_nat k" using l2(2) k assms(4) by (auto simp: guest_ledger_def)
  have c: "c = cs ! k" using chain_at [OF ch assms(6)] assms(5) f k by (auto simp: guest_ledger_def)
  have "outcome = SyncCommitted \<and> inputs = fc_inputs (cs ! k) \<or>
    outcome = SyncFailed \<and> ss_failure t = ''The input sample revision limit was exceeded.''"
    using poll_commits [of "s\<lparr>ss_ledger := l\<rparr>" first seed cs k f peers q i sent_at now outcome inputs sent2 t]
      g ch l2 l assms(5,10,11,13) f by auto
  then show ?thesis using c l by simp
qed

subsection \<open>A guest that lacks a commit asks for it\<close>

lemma store_local_wait [simp]: "ss_wait (snd (store_local f i p s)) = ss_wait s"
  by (auto simp: store_local_def fail_locked_def split: prod.split sum.split)

lemma hold_last_wait [simp]: "ss_wait (snd (hold_last fs h s)) = ss_wait s"
  by (induction fs arbitrary: s) (auto simp: Let_def split_beta)

lemma submit_local_wait:
  "\<exists>sent_at. ss_wait (snd (submit_local f target i time s)) = (ss_wait s)\<lparr>cw_last_input_history_send := sent_at\<rparr>"
proof -
  have same: "\<exists>t. w = w\<lparr>cw_last_input_history_send := t\<rparr>" for w :: CommitWait
    by (intro exI [of _ "cw_last_input_history_send w"]) simp
  show ?thesis
    unfolding submit_local_def Let_def split_beta using same by (auto split: option.split)
qed

text \<open>
  A poll asks when it is the first one that waits for the frame, or 50 milliseconds after the
  last request. (In the source the request is also bound to a known address of Player 1,
  which a guest in a match has.)
\<close>

definition repair_due :: "u32 \<Rightarrow> int \<Rightarrow> CommitWait \<Rightarrow> bool" where
  "repair_due frame now w \<longleftrightarrow> cw_frame w \<noteq> Some frame \<or> cw_last_commit_repair_request w = 0 \<or>
     now - cw_last_commit_repair_request w \<ge> milliseconds 50"

lemma wait_asks:
  assumes "\<not> au_is_host (ss_authority s)" "repair_due f now (ss_wait s)"
    "wait_for_commit peers f target now s = (r, sent, t)" "au_state (ss_authority t) = StateRunning"
  shows "r = SyncPending \<and> set (request_missing_commit f (ss_authority s)) \<subseteq> set sent \<and> au_state (ss_authority s) = StateRunning"
proof -
  let ?u = "s\<lparr>ss_wait := begin_wait f now (ss_wait s)\<rparr>"
  obtain more w where v: "service_pending_repair peers f target now ?u = (more, w)" by fastforce
  have "cw_last_commit_repair_request (begin_wait f now (ss_wait s)) = 0 \<or>
      now - cw_last_commit_repair_request (begin_wait f now (ss_wait s)) \<ge> milliseconds 50"
    using assms(2) by (auto simp: repair_due_def begin_wait_def)
  then have "set (request_missing_commit f (ss_authority s)) \<subseteq> set more"
    using v assms(1) by (auto simp: service_pending_repair_def Let_def split: if_splits)
  then show ?thesis
    using assms(3,4) v by (auto simp: wait_for_commit_def fail_locked_def Let_def split: if_splits)
qed

lemma poll_asks:
  assumes "synchronize_inputs peers q f i sent_at now s = (r, inputs, sent, t)" "\<not> au_is_host (ss_authority s)"
    "au_state (ss_authority s) = StateRunning" "f = lg_next_commit_frame (ss_ledger s)"
    "\<not> admission_parked f (ss_authority s)" "map_of (lg_frame_commits (ss_ledger s)) f = None"
    "repair_due f now (ss_wait s)" "au_state (ss_authority t) = StateRunning"
  shows "r = SyncPending \<and> set (request_missing_commit f (ss_authority s)) \<subseteq> set sent"
proof -
  let ?target = "authored_target f (ss_authority s) (ss_ledger s)"
  obtain first u where su: "submit_local f ?target i sent_at s = (first, u)" by fastforce
  have q: "quiet s u" using submit_quiet [of s f ?target i sent_at] su by simp
  have w: "repair_due f now (ss_wait u)"
    using submit_local_wait [of f ?target i sent_at s] su assms(7) by (auto simp: repair_due_def)
  have u: "\<not> au_is_host (ss_authority u)" "ss_ledger u = ss_ledger s" using q assms(2) by (auto simp: quiet_def)
  then have "awaiting_commit f u" using assms(6) by (simp add: awaiting_commit_def Let_def)
  then obtain more where m: "wait_for_commit peers f ?target now u = (r, more, t)" "sent = first @ more"
    using assms(1,3,5) assms(4) [symmetric] su
    by (auto simp: synchronize_inputs_def Let_def split: prod.splits)
  have a: "r = SyncPending" "set (request_missing_commit f (ss_authority u)) \<subseteq> set more" "au_state (ss_authority u) = StateRunning"
    using wait_asks [OF u(1) w m(1) assms(8)] by simp_all
  have "ss_authority u = ss_authority s" using q a(3) assms(3) by (auto simp: quiet_def)
  then show ?thesis using a m(2) by auto
qed


lemma synchronize_authority:
  assumes "synchronize_inputs peers q f i sent_at now s = (r, inputs, sent, t)"
  shows "\<exists>state. ss_authority t = (ss_authority s)\<lparr>au_state := state\<rparr>"
proof -
  have same [simp]: "\<exists>state. x = x\<lparr>au_state := state\<rparr>" for x :: Authority
    by (intro exI [of _ "au_state x"]) simp
  have c: "\<exists>state. ss_authority w = (ss_authority u)\<lparr>au_state := state\<rparr>" if "commit_frame q f u = (r, inputs, sent, w)" for u w r inputs sent
    using that by (auto simp: commit_frame_def Let_def fail_locked_def split: prod.splits sum.splits if_splits)
  show ?thesis
    using assms
  proof (cases rule: synchronize_cases)
    case refused
    then have "t = snd (fail_locked (wrong_frame_text f (lg_next_commit_frame (ss_ledger s))) s)" by (metis snd_conv)
    then show ?thesis by (auto simp: fail_locked_def)
  next
    case (commit u more)
    then show ?thesis using c [OF commit(4)] by (auto simp: quiet_def)
  qed (auto simp: quiet_def)
qed

subsection \<open>The repair loop\<close>

text \<open>What every step of a match keeps.\<close>

lemma match_step_keeps:
  assumes "match_step M N"
  shows "same_match (ss_authority (mt_host M)) (ss_authority (mt_host N)) \<and> length (mt_guests N) = length (mt_guests M) \<and>
    mt_sent M \<subseteq> mt_sent N \<and> prefix (mt_host_log M) (mt_host_log N)"
  using assms
proof (cases rule: match_step.cases)
  case (host_frame peers q frame loc sent_at now r inputs sent s)
  then show ?thesis using synchronize_authority [OF host_frame(2)] by (auto simp: log_frame_def)
qed (auto simp: rearranged_def)

lemma match_steps_keep:
  assumes "match_step\<^sup>*\<^sup>* M N"
  shows "(match_reachable first seed M \<longrightarrow> match_reachable first seed N) \<and>
    same_match (ss_authority (mt_host M)) (ss_authority (mt_host N)) \<and> length (mt_guests N) = length (mt_guests M) \<and> mt_sent M \<subseteq> mt_sent N \<and> prefix (mt_host_log M) (mt_host_log N)"
  using assms
proof (induction rule: rtranclp_induct)
  case (step K N)
  then show ?case using match_step_keeps [OF step.hyps(2)]
    by (auto intro: step_match prefix_order.trans simp: same_match_def)
qed simp

text \<open>
  An answer of Player 1, sent at \<open>N\<close>, is taken by a guest that still waits for the frame at any
  later \<open>P\<close>, whatever happened in between.
\<close>

lemma answer_taken:
  assumes "match_reachable first seed P" "unat first + length (mt_host_log P) < 2 ^ 32" "g < length (mt_guests P)"
    "s = mt_guests P ! g" "f = lg_next_commit_frame (ss_ledger s)"
    "au_state (ss_authority s) = StateRunning" "\<not> admission_parked f (ss_authority s)"
    "payload \<in> mt_sent P" "decode_frame_commit_batch payload = Inr batch" "c \<in> set (fb_commits batch)"
    "fc_frame c = f" "unat f = unat first + k"
  shows "\<exists>l. handle_frame_commit payload h (ss_authority s) (ss_ledger s) = (Inr (), [], l) \<and>
    (\<forall>peers q i sent_at now outcome inputs sent t.
      synchronize_inputs peers q f i sent_at now (s\<lparr>ss_ledger := l\<rparr>) = (outcome, inputs, sent, t) \<longrightarrow>
      outcome = SyncCommitted \<and> (f, inputs) = mt_host_log P ! k \<or>
      outcome = SyncFailed \<and> ss_failure t = ''The input sample revision limit was exceeded.'')"
proof -
  obtain cs where inv: "match_inv first seed cs P" using match_reachable_inv [OF assms(1,2)] by blast
  have n: "mt_host_log P = map entry_of cs" and p: "carries cs payload"
    using inv assms(8) by (auto simp: match_inv_def Let_def)
  have c: "c \<in> set cs" using p assms(9,10) by (auto simp: carries_def)
  obtain j where j: "j < length cs" "cs ! j = c" using c by (auto simp: in_set_conv_nth)
  then have "j = k" using chain_frame [OF match_inv_chain [OF inv] j(1)] assms(11,12) by simp
  then have k: "mt_host_log P ! k = (f, fc_inputs c)" using j n assms(11) by (simp add: entry_of_def)
  obtain kk where "guest_ledger first seed cs kk (ss_ledger s)" "same_match (ss_authority (mt_host P)) (ss_authority s)"
    using match_inv_guest_ok [OF inv assms(3)] assms(4) by (auto simp: guest_ok_def)
  then obtain l where l: "handle_frame_commit payload h (ss_authority s) (ss_ledger s) = (Inr (), [], l)"
    using handle_commit_chain [OF _ _ p, of "ss_authority s" first seed kk "ss_ledger s" h]
      chain_same_match match_inv_chain [OF inv] by metis
  show ?thesis
    using delivery_unblocks [OF inv assms(3,4,5) assms(11) [symmetric] c p assms(9,10,6,7) l] l k by auto
qed

definition frame_due :: "u32 \<Rightarrow> Session \<Rightarrow> bool" where
  "frame_due frame s \<longleftrightarrow> au_state (ss_authority s) = StateRunning \<and>
     \<not> admission_parked frame (ss_authority s) \<and> frame = lg_next_commit_frame (ss_ledger s)"

text \<open>
  The repair loop, at three points in time: at \<open>M\<close> a guest that lacks a commit asks for it, at
  \<open>N\<close> Player 1 answers as long as its history reaches back, and at any later \<open>P\<close> the answer lets
  a guest that still waits go on.
\<close>

lemma repair_completes:
  assumes "match_reachable first seed M" "g < length (mt_guests M)" "s = mt_guests M ! g" "frame_due f s"
    "unat (au_local_slot (ss_authority s)) < kMaximumPlayers"
    "map_of (lg_frame_commits (ss_ledger s)) f = None" "repair_due f now (ss_wait s)"
    "synchronize_inputs peers q f i sent_at now s = (r, inputs, sent, t)" "au_state (ss_authority t) = StateRunning"
    "match_step\<^sup>*\<^sup>* (M\<lparr>mt_guests := (mt_guests M)[g := t]\<rparr>) N"
    "unat first + length (mt_host_log N) < 2 ^ 32" "unat f = unat first + k" "k < length (mt_host_log N)"
    "length (mt_host_log N) \<le> k + kCommitHistoryCapacity" "repair_open (ss_authority (mt_host N))"
  shows "\<exists>request answer payload. r = SyncPending \<and> ToHost MsgFrameCommitRequest request f \<in> set sent \<and>
    handle_frame_commit_request (au_local_slot (ss_authority s)) request f (ss_authority (mt_host N))
      (ss_ledger (mt_host N)) = Repaired answer \<and> payload \<in> commit_payloads answer \<and>
    (\<forall>P u h. match_step\<^sup>*\<^sup>* (N\<lparr>mt_sent := mt_sent N \<union> commit_payloads answer\<rparr>) P \<and>
      unat first + length (mt_host_log P) < 2 ^ 32 \<and> u = mt_guests P ! g \<and> frame_due f u \<longrightarrow>
      (\<exists>l. handle_frame_commit payload h (ss_authority u) (ss_ledger u) = (Inr (), [], l) \<and>
        (\<forall>peers q i sent_at now outcome inputs sent t.
          synchronize_inputs peers q f i sent_at now (u\<lparr>ss_ledger := l\<rparr>) = (outcome, inputs, sent, t) \<longrightarrow>
          outcome = SyncCommitted \<and> (f, inputs) = mt_host_log N ! k \<or>
          outcome = SyncFailed \<and> ss_failure t = ''The input sample revision limit was exceeded.'')))"
proof -
  let ?M = "M\<lparr>mt_guests := (mt_guests M)[g := t]\<rparr>"
  let ?b = "ss_authority (mt_host N)"
  have due: "f = lg_next_commit_frame (ss_ledger s)" "au_state (ss_authority s) = StateRunning"
    "\<not> admission_parked f (ss_authority s)" using assms(4) unfolding frame_due_def by blast+
  note MN = match_steps_keep [OF assms(10), of first seed]
  obtain cs where i: "match_inv first seed cs M"
    using match_reachable_inv [OF assms(1)] prefix_length_le [of "mt_host_log M" "mt_host_log N"] MN assms(11) by auto
  have m: "same_match (ss_authority (mt_host M)) (ss_authority s)" "\<not> au_is_host (ss_authority s)"
    using match_inv_guest_ok [OF i assms(2)] assms(3) by (auto simp: guest_ok_def)
  have a: "r = SyncPending" "set (request_missing_commit f (ss_authority s)) \<subseteq> set sent"
    using poll_asks [OF assms(8) m(2) due(2,1,3) assms(6,7,9)] by simp_all
  have "match_step M ?M"
    using guest_frame [OF assms(2), of peers q f i sent_at now r inputs sent t] assms(3,8) a(1) by (simp add: log_frame_def)
  then have N: "match_reachable first seed N" using MN step_match [OF assms(1)] by blast
  obtain ds where inv: "match_inv first seed ds N" using match_reachable_inv [OF N assms(11)] by blast
  have h: "host_ledger ?b first seed ds (ss_ledger (mt_host N))" "au_is_host ?b" "expected_mask ?b \<noteq> 0"
    and n: "mt_host_log N = map entry_of ds" using inv by (auto simp: match_inv_def Let_def)
  have k: "k < length ds" "length ds \<le> k + kCommitHistoryCapacity" using assms(13,14) n by simp_all
  have f: "f = fc_frame (ds ! k)"
    using chain_frame [OF match_inv_chain [OF inv] k(1)] assms(12) by (intro word_unat_eq_iff [THEN iffD2]) simp
  have d: "au_launch_descriptor ?b \<noteq> None" using h(3) by (auto simp: expected_mask_def split: option.splits)
  have bm: "same_match ?b (ss_authority s)" using MN m(1) by (auto simp: same_match_def)
  define request where "request = encode_frame_commit_request \<lparr>fr_epoch = authority_epoch (ss_authority s),
    fr_player_slot = au_local_slot (ss_authority s), fr_first_missing_frame = f\<rparr>"
  obtain answer payload batch where answer: "handle_frame_commit_request (au_local_slot (ss_authority s)) request f ?b
      (ss_ledger (mt_host N)) = Repaired answer" "payload \<in> commit_payloads answer"
      "decode_frame_commit_batch payload = Inr batch" "ds ! k \<in> set (fb_commits batch)"
    using request_answered [OF h(1) _ bm h(2) assms(15) d k assms(5) f request_def] by auto
  have asked: "ToHost MsgFrameCommitRequest request f \<in> set sent"
    using a(2) m(2) assms(5) due(2) authority_epoch_nonzero
    by (auto simp: request_missing_commit_def request_def Let_def encode_frame_commit_request_def)
  have go: "\<exists>l. handle_frame_commit payload h (ss_authority u) (ss_ledger u) = (Inr (), [], l) \<and>
        (\<forall>peers q i sent_at now outcome inputs sent t.
          synchronize_inputs peers q f i sent_at now (u\<lparr>ss_ledger := l\<rparr>) = (outcome, inputs, sent, t) \<longrightarrow>
          outcome = SyncCommitted \<and> (f, inputs) = mt_host_log N ! k \<or>
          outcome = SyncFailed \<and> ss_failure t = ''The input sample revision limit was exceeded.'')"
    if P: "match_step\<^sup>*\<^sup>* (N\<lparr>mt_sent := mt_sent N \<union> commit_payloads answer\<rparr>) P"
      "unat first + length (mt_host_log P) < 2 ^ 32" "u = mt_guests P ! g" "frame_due f u" for P u h
  proof -
    note NP = match_steps_keep [OF P(1), of first seed]
    have r: "match_reachable first seed P"
      using NP step_match [OF N host_repair [OF answer(1)]] by blast
    have gl: "g < length (mt_guests P)" "payload \<in> mt_sent P" "mt_host_log P ! k = mt_host_log N ! k"
      using NP MN assms(2,13) answer(2) nth_append [of "mt_host_log N" _ k] by (auto simp: prefix_def)
    have u: "f = lg_next_commit_frame (ss_ledger u)" "au_state (ss_authority u) = StateRunning"
      "\<not> admission_parked f (ss_authority u)" using P(4) unfolding frame_due_def by blast+
    show ?thesis
      using answer_taken [OF r P(2) gl(1) P(3) u gl(2) answer(3,4) f [symmetric] assms(12), of h] unfolding gl(3) .
  qed
  show ?thesis
    using a(1) asked answer(1,2) go by (intro exI [of _ request] exI [of _ answer] exI [of _ payload] conjI) blast+
qed

subsection \<open>A match of two\<close>

text \<open>A small match for the witnesses: a host and a guest before the first frame.\<close>

definition example_descriptor :: LaunchDescriptor where
  "example_descriptor = \<lparr>ld_match_id = 7, ld_lobby_generation = 1, ld_compatibility_hash = 5, ld_occupied_mask = 3,
     ld_player_count = 2, ld_input_delay_frames = 2, ld_rollback_window = 0, ld_synchronization = Lockstep,
     ld_host_control = HostSharedMenus\<rparr>"

definition example_authority :: "bool \<Rightarrow> Authority" where
  "example_authority host = \<lparr>au_is_host = host, au_state = StateRunning, au_match_id = 7,
     au_launch_descriptor = Some example_descriptor, au_local_slot = (if host then 0 else 1), au_input_delay = 2,
     au_input_epoch = 1, au_authoritative_phase_active = False, au_authority_lifecycle = LifecycleInactive,
     au_scene_epoch = 0, au_finish_seal_frame = None, au_gameplay_handoff = None, au_recovery_frame = None,
     au_recovery_resumed = False\<rparr>"

definition example_ledger :: Ledger where
  "example_ledger = \<lparr>lg_frame_commits = [], lg_commit_history = [], lg_next_commit_frame = 0,
     lg_last_consumed_commit_hash = initial_commit_hash (example_authority True), lg_last_consumed_input_frame = None,
     lg_last_consumed_inputs = no_inputs, lg_authoritative_input_frame = 0, lg_authoritative_inputs = no_inputs,
     lg_authoritative_inputs_valid = False, lg_authoritative_input_revision = 0, lg_authoritative_predicted_mask = 0,
     lg_pending_input_correction = None, lg_frame_correction_generation = 0, lg_applied_generation = 0,
     lg_transmission = None, lg_assembly = None, lg_deferred = []\<rparr>"

definition example_delivery :: Delivery where
  "example_delivery = \<lparr>dl_timeline = new_timeline 32, dl_local_history = [], dl_local_input_metadata = [],
     dl_received_input_revisions = replicate 4 [], dl_local_input_submitted_frame = 0, dl_local_input_submitted = no_input,
     dl_pending_local_submission_frame = None, dl_host_input_accepted_frame = 1, dl_host_input_first_missing_frame = 2,
     dl_peer_input_first_missing_frame = replicate 4 2, dl_simulation_progress_present = replicate 4 False,
     dl_simulation_completed_frame = replicate 4 0, dl_native_completed_frame = None,
     dl_host_backpressure_active = False\<rparr>"

definition example_peer :: "bool \<Rightarrow> Session" where
  "example_peer host = \<lparr>ss_authority = example_authority host, ss_ledger = example_ledger, ss_delivery = example_delivery,
     ss_wait = \<lparr>cw_frame = None, cw_started = 0, cw_last_commit_repair_request = 0, cw_last_input_history_send = 0\<rparr>,
     ss_players = [new_player True 0 ''h'' ''Host'', new_player False 1 ''g'' ''Guest''], ss_failure = []\<rparr>"

definition example_match :: Match where
  "example_match = \<lparr>mt_host = example_peer True, mt_guests = [example_peer False], mt_sent = {}, mt_host_log = [],
     mt_guest_logs = [[]]\<rparr>"

lemma example_opening: "match_opening 0 (initial_commit_hash (example_authority True)) example_match"
  by (simp add: match_opening_def example_match_def example_peer_def example_authority_def example_descriptor_def
      example_ledger_def example_delivery_def opened_def new_timeline_inv same_match_def valid_launch_descriptor_def
      netplay_limits)

lemma example_commits: "fst (synchronize_inputs [] False 0 no_input 1 1 (example_peer True)) = SyncCommitted"
  by code_simp

text \<open>After its first frame, with a guest that has seen none of it.\<close>

lemma example_first_frame:
  obtains M where "match_reachable 0 (initial_commit_hash (example_authority True)) M" "length (mt_host_log M) = 1"
    "mt_guests M = [example_peer False]" "repair_open (ss_authority (mt_host M))"
proof -
  obtain r inputs sent s where t: "synchronize_inputs [] False 0 no_input 1 1 (mt_host example_match) = (r, inputs, sent, s)"
    by (metis prod_cases4)
  then have r: "r = SyncCommitted" using example_commits by (simp add: example_match_def)
  obtain state where a: "ss_authority s = (example_authority True)\<lparr>au_state := state\<rparr>"
    using synchronize_authority [OF t] by (auto simp: example_match_def example_peer_def)
  let ?M = "example_match\<lparr>mt_host := s, mt_sent := mt_sent example_match \<union> commit_payloads sent,
      mt_host_log := log_frame 0 r inputs (mt_host_log example_match)\<rparr>"
  have "match_reachable 0 (initial_commit_hash (example_authority True)) ?M"
    using open_match [OF example_opening] host_frame [OF t] by (rule step_match)
  then show ?thesis
    using that [of ?M] r a by (simp add: log_frame_def example_match_def repair_open_def example_authority_def)
qed

end
