(* ===== verification/Race_Together.thy ===== *)
theory Race_Together
  imports Race_Start Match
begin

section \<open>Everybody starts the same race\<close>

text \<open>
  The machines of a session as they start a race, over a network that loses, repeats and
  reorders: a world of Player 1, its guests and the messages sent, and the calls and packets
  that change it. The invariant says what every machine may assume of the others; from it
  follows that the machines enter the race in the opening state of a match.
\<close>

subsection \<open>What a frame may change\<close>

text \<open>A session whose next frame is parked keeps its ledger.\<close>

definition parked :: "Session \<Rightarrow> bool" where
  "parked s \<longleftrightarrow> admission_parked (lg_next_commit_frame (ss_ledger s)) (ss_authority s)"

definition steady :: "Session \<Rightarrow> Session \<Rightarrow> bool" where
  "steady s t \<longleftrightarrow> ss_players t = ss_players s \<and> (sound_failure s \<longrightarrow> sound_failure t) \<and>
     (\<exists>state. ss_authority t = (ss_authority s)\<lparr>au_state := state\<rparr>) \<and>
     (timeline_inv (dl_timeline (ss_delivery s)) \<longrightarrow> timeline_inv (dl_timeline (ss_delivery t)))"

lemma steady_trans: "steady s t \<Longrightarrow> steady t u \<Longrightarrow> steady s u"
  by (auto simp: steady_def)

lemma quiet_steady: "quiet s t \<Longrightarrow> steady s t"
  by (auto simp: quiet_def steady_def)

lemma steady_refl [simp]: "steady s s"
  by (rule quiet_steady) simp

lemma fail_steady [simp]: "steady s (snd (fail_locked e s))"
  by (auto simp: steady_def fail_locked_def sound_failure_def intro: exI [of _ "au_state (ss_authority s)"])

lemma steady_ledger [simp]: "steady s (s\<lparr>ss_ledger := l\<rparr>)"
  by (auto simp: steady_def intro: exI [of _ "au_state (ss_authority s)"])

lemma steady_delivery:
  "(timeline_inv (dl_timeline (ss_delivery s)) \<Longrightarrow> timeline_inv (dl_timeline d)) \<Longrightarrow> steady s (s\<lparr>ss_delivery := d\<rparr>)"
  by (rule quiet_steady) (rule quiet_delivery)

lemma publish_timeline:
  "publish_commit q f a l t = (sent, l2, t2) \<Longrightarrow> timeline_inv t \<Longrightarrow> timeline_inv t2"
  using inputs_for_holds(2) [of t f] by (auto simp: publish_commit_def make_frame_commit_def build_commit_def Let_def split: prod.splits)

lemma commit_frame_steady:
  assumes "commit_frame q f s = (r, inputs, sent, t)"
  shows "steady s t"
proof -
  obtain p l u where p: "(if au_is_host (ss_authority s)
      then publish_commit q f (ss_authority s) (ss_ledger s) (dl_timeline (ss_delivery s))
      else ([], ss_ledger s, dl_timeline (ss_delivery s))) = (p, l, u)" by (metis prod_cases3)
  define v where "v = s\<lparr>ss_ledger := l, ss_delivery := (ss_delivery s)\<lparr>dl_timeline := u\<rparr>\<rparr>"
  have "timeline_inv (dl_timeline (ss_delivery s)) \<Longrightarrow> timeline_inv u"
    using p publish_timeline by (fastforce split: if_splits)
  then have v: "steady s v"
    using steady_trans [OF steady_ledger [of s l] steady_delivery [of "s\<lparr>ss_ledger := l\<rparr>" "(ss_delivery s)\<lparr>dl_timeline := u\<rparr>"]]
    by (simp add: v_def)
  obtain outcome l2 where c: "consume_commit f (ss_authority s) l = (outcome, l2)" by fastforce
  note w = steady_trans [OF v steady_ledger [of v l2]]
  show ?thesis
  proof (cases outcome)
    case (Inl e)
    then have "t = snd (fail_locked e (v\<lparr>ss_ledger := l2\<rparr>))"
      using assms p c by (simp add: commit_frame_def v_def split_beta)
    then show ?thesis using steady_trans [OF w fail_steady] by simp
  next
    case (Inr i)
    then have "t = v\<lparr>ss_ledger := l2, ss_delivery := (ss_delivery v)\<lparr>dl_pending_local_submission_frame := None\<rparr>\<rparr>"
      using assms p c by (simp add: commit_frame_def v_def)
    then show ?thesis
      using steady_trans [OF w steady_delivery [of "v\<lparr>ss_ledger := l2\<rparr>" "(ss_delivery v)\<lparr>dl_pending_local_submission_frame := None\<rparr>"]]
      by simp
  qed
qed

lemma frame_steady:
  assumes "synchronize_inputs peers q f i sent_at now s = (r, inputs, sent, t)"
  shows "steady s t \<and> (parked s \<longrightarrow> ss_ledger t = ss_ledger s)"
  using assms
proof (cases rule: synchronize_cases)
  case refused
  have "t = snd (fail_locked (wrong_frame_text f (lg_next_commit_frame (ss_ledger s))) s)"
    using refused(2) by (metis snd_conv)
  moreover have "ss_ledger (snd (fail_locked e s)) = ss_ledger s" for e by (simp add: fail_locked_def)
  ultimately show ?thesis by simp
next
  case (waiting u more target)
  then have "quiet s t" by (blast intro: quiet_trans)
  then show ?thesis by (auto simp: quiet_def steady_def)
next
  case (commit u more)
  have "steady s t" using quiet_steady [OF commit(2)] commit_frame_steady [OF commit(4)] by (rule steady_trans)
  moreover have "t = s" if "parked s"
    using assms commit(1,6) that by (simp add: parked_def synchronize_inputs_def)
  ultimately show ?thesis by auto
qed (auto simp: quiet_def steady_def)

subsection \<open>Commits that arrive\<close>

lemma follow_consumed_next [simp]: "lg_next_commit_frame (follow_consumed l) = lg_next_commit_frame l"
  by (simp add: follow_consumed_def split: option.split)

lemma apply_commit_next [simp]: "lg_next_commit_frame (snd (apply_frame_commit c a l)) = lg_next_commit_frame l"
  by (simp add: apply_frame_commit_def store_commit_def note_correction_def split: sum.split option.split)

lemma receive_commit_next [simp]: "lg_next_commit_frame (snd (receive_commit batch c a l)) = lg_next_commit_frame l"
  by (simp add: receive_commit_def assemble_commit_def Let_def split: sum.split option.split)

lemma receive_commits_next [simp]: "lg_next_commit_frame (snd (receive_commits batch cs a l)) = lg_next_commit_frame l"
proof (induction cs arbitrary: l)
  case (Cons c cs)
  obtain r m where c: "receive_commit batch c a l = (r, m)" by fastforce
  then have "lg_next_commit_frame m = lg_next_commit_frame l" using receive_commit_next [of batch c a l] by simp
  then show ?case using Cons.IH [of m] by (simp add: c split: sum.split)
qed simp

lemma apply_deferred_next [simp]: "lg_next_commit_frame (snd (apply_deferred fs a l)) = lg_next_commit_frame l"
proof (induction fs arbitrary: l)
  case (Cons f fs)
  show ?case
  proof (cases "map_of (lg_deferred l) f")
    case (Some entry)
    obtain g c where e: "entry = (g, c)" by fastforce
    obtain r m where c: "apply_frame_commit c a l = (r, m)" by fastforce
    then have "lg_next_commit_frame m = lg_next_commit_frame l" using apply_commit_next [of c a l] by simp
    then show ?thesis using Some e c Cons.IH [of "m\<lparr>lg_deferred := AList.delete f (lg_deferred m)\<rparr>"] by (simp split: sum.split)
  qed (simp add: Cons.IH)
qed simp

lemma apply_correction_next [simp]: "lg_next_commit_frame (snd (snd (apply_frame_correction a l))) = lg_next_commit_frame l"
proof -
  have d: "lg_next_commit_frame m = lg_next_commit_frame (install_correction asm cs l)"
    if "apply_deferred fs a (install_correction asm cs l) = (r, m)" for fs asm cs r m
    using apply_deferred_next [of fs a "install_correction asm cs l"] that by simp
  show ?thesis
    unfolding apply_frame_correction_def Let_def
    by (auto simp: install_correction_simps dest: d split: sum.split option.split prod.split)
qed

lemma handle_commit_next:
  "lg_next_commit_frame (snd (snd (handle_frame_commit payload h a l))) = lg_next_commit_frame l"
proof (cases "decode_frame_commit_batch payload")
  case (Inr batch)
  obtain r m where m: "receive_commits batch (fb_commits batch) a l = (r, m)" by fastforce
  then have n: "lg_next_commit_frame m = lg_next_commit_frame l"
    using receive_commits_next [of batch "fb_commits batch" a l] by simp
  obtain r2 sent m2 where c: "apply_frame_correction a m = (r2, sent, m2)" by (metis prod_cases3)
  then have n2: "lg_next_commit_frame m2 = lg_next_commit_frame m" using apply_correction_next [of a m] by simp
  show ?thesis using n n2 by (simp add: handle_frame_commit_def Inr m c split: sum.split option.split)
qed (simp add: handle_frame_commit_def)

text \<open>Commits of another input epoch, which is what the network still holds of the time before.\<close>

definition foreign_commits :: "bytes \<Rightarrow> Authority \<Rightarrow> bool" where
  "foreign_commits payload a \<longleftrightarrow>
     (case decode_frame_commit_batch payload of Inl _ \<Rightarrow> True
      | Inr batch \<Rightarrow> list_all (\<lambda>c. fc_epoch c \<noteq> authority_epoch a) (fb_commits batch))"

lemma receive_foreign: "list_all (\<lambda>c. fc_epoch c \<noteq> authority_epoch a) cs \<Longrightarrow> receive_commits batch cs a l = (Inr (), l)"
  by (induction cs) (simp_all add: receive_commit_def)

lemma handle_foreign:
  assumes "handle_frame_commit payload h a l = (r, sent, m)" "foreign_commits payload a" "lg_frame_commits l = []" "lg_assembly l = None"
  shows "m = l \<and> r = Inr ()"
proof -
  have "follow_consumed l = l" using assms(3) by (simp add: follow_consumed_def)
  then show ?thesis
    using assms by (auto simp: handle_frame_commit_def foreign_commits_def receive_foreign split: sum.splits if_splits)
qed

subsection \<open>A machine in the start\<close>

definition armed :: "Racer \<Rightarrow> bool" where
  "armed x \<longleftrightarrow> (case au_gameplay_handoff (rc_authority x) of Some h \<Rightarrow> gh_armed h | None \<Rightarrow> False)"

definition released :: "Racer \<Rightarrow> bool" where
  "released x \<longleftrightarrow> (case rc_barrier x of Some b \<Rightarrow> gb_go_released b | None \<Rightarrow> False)"

definition in_scene :: "u32 \<Rightarrow> u32 \<Rightarrow> u32 \<Rightarrow> Racer \<Rightarrow> bool" where
  "in_scene scene_epoch level racer_count x \<longleftrightarrow>
     (case rc_barrier x of None \<Rightarrow> False
      | Some b \<Rightarrow> gb_scene_epoch b = scene_epoch \<and> gb_map b = level \<and> gb_racer_count b = racer_count)"

definition boundary_of :: "Racer \<Rightarrow> u32 option" where
  "boundary_of x = map_option gh_boundary_frame (au_gameplay_handoff (rc_authority x))"

text \<open>The ledger of a machine that has armed the input epoch of the race at frame \<open>b\<close>.\<close>

definition fresh_ledger :: "u32 \<Rightarrow> Authority \<Rightarrow> Ledger \<Rightarrow> bool" where
  "fresh_ledger b a l \<longleftrightarrow> opened b (epoch_chain b a) l \<and> lg_assembly l = None"

definition handoff_ok :: "u32 \<Rightarrow> u32 option \<Rightarrow> Session \<Rightarrow> bool" where
  "handoff_ok e bound s \<longleftrightarrow> (let a = ss_authority s; l = ss_ledger s in
     case au_gameplay_handoff a of None \<Rightarrow> au_input_epoch a = e
     | Some h \<Rightarrow>
         gh_current_input_epoch h = e \<and> gh_suspended h \<and>
         (if gh_resume_input_epoch h = 0
          then gh_local_suspend_frame h \<le> lg_next_commit_frame l \<and> \<not> gh_armed h
          else gh_resume_input_epoch h = resume_epoch e \<and> bound = Some (gh_boundary_frame h) \<and>
               gh_local_suspend_frame h \<le> gh_boundary_frame h) \<and>
         (if gh_armed h
          then au_input_epoch a = resume_epoch e \<and> fresh_ledger (gh_boundary_frame h) a l
          else au_input_epoch a = e))"

definition barrier_ok :: "u32 \<Rightarrow> Racer \<Rightarrow> bool" where
  "barrier_ok e0 x \<longleftrightarrow>
     (case rc_barrier x of None \<Rightarrow> \<not> armed x
      | Some b \<Rightarrow>
          length (gb_ready b) = kMaximumPlayers \<and> length (gb_armed b) = kMaximumPlayers \<and>
          (gb_armed b ! unat (au_local_slot (rc_authority x)) \<longleftrightarrow> armed x) \<and>
          (gb_epoch_synchronized b \<longrightarrow> gb_scene_epoch b = au_scene_epoch (rc_authority x) \<and> e0 < gb_scene_epoch b) \<and>
          (armed x \<longrightarrow> gb_epoch_synchronized b) \<and> (gb_go_released b \<longrightarrow> armed x))"

definition racer_ok :: "u32 \<Rightarrow> u32 \<Rightarrow> u32 option \<Rightarrow> Racer \<Rightarrow> bool" where
  "racer_ok e s0 bound x \<longleftrightarrow> handoff_ok e bound (rc_session x) \<and> barrier_ok s0 x \<and>
     sound_failure (rc_session x) \<and> timeline_inv (dl_timeline (ss_delivery (rc_session x))) \<and>
     unat (au_local_slot (rc_authority x)) < kMaximumPlayers \<and>
     length (ss_players (rc_session x)) = kMaximumPlayers"

text \<open>What no operation of the start takes back.\<close>

definition evolves :: "Racer \<Rightarrow> Racer \<Rightarrow> bool" where
  "evolves x y \<longleftrightarrow> (let a = rc_authority x; c = rc_authority y in
     au_is_host c = au_is_host a \<and> au_local_slot c = au_local_slot a \<and> au_match_id c = au_match_id a \<and>
     au_launch_descriptor c = au_launch_descriptor a \<and>
     ss_players (rc_session y) = ss_players (rc_session x) \<and>
     (armed x \<longrightarrow> armed y \<and> (\<forall>scene_epoch level racer_count.
        in_scene scene_epoch level racer_count x \<longrightarrow> in_scene scene_epoch level racer_count y)) \<and>
     (released x \<longrightarrow> released y))"

lemma evolves_refl [simp]: "evolves x x"
  by (simp add: evolves_def Let_def)

lemma evolvesD:
  assumes "evolves x y"
  shows "armed x \<Longrightarrow> armed y" "armed x \<Longrightarrow> in_scene k l c x \<Longrightarrow> in_scene k l c y" "released x \<Longrightarrow> released y"
    "au_is_host (rc_authority y) = au_is_host (rc_authority x)"
    "au_local_slot (rc_authority y) = au_local_slot (rc_authority x)"
    "au_match_id (rc_authority y) = au_match_id (rc_authority x)"
    "au_launch_descriptor (rc_authority y) = au_launch_descriptor (rc_authority x)"
    "ss_players (rc_session y) = ss_players (rc_session x)"
  using assms by (simp_all add: evolves_def Let_def)

lemma evolves_trans: "evolves x y \<Longrightarrow> evolves y z \<Longrightarrow> evolves x z"
  by (auto simp: evolves_def Let_def)

lemma resume_epoch_new [simp]: "resume_epoch e \<noteq> e" "e \<noteq> resume_epoch e" "resume_epoch e \<noteq> 0"
  by (auto simp: resume_epoch_def split: if_splits)

lemma start_irrelevant [simp]:
  "armed (x\<lparr>rc_start := st\<rparr>) = armed x" "released (x\<lparr>rc_start := st\<rparr>) = released x"
  "in_scene e l c (x\<lparr>rc_start := st\<rparr>) = in_scene e l c x" "boundary_of (x\<lparr>rc_start := st\<rparr>) = boundary_of x"
  "racer_ok f s0 bound (x\<lparr>rc_start := st\<rparr>) = racer_ok f s0 bound x"
  "evolves x (x\<lparr>rc_start := st\<rparr>)" "evolves y (x\<lparr>rc_start := st\<rparr>) = evolves y x"
  by (simp_all add: armed_def released_def in_scene_def boundary_of_def racer_ok_def barrier_ok_def evolves_def Let_def
      split: option.split)

lemma barrier_of_set [simp]: "rc_barrier (set_barrier b x) = Some b" "rc_session (set_barrier b x) = rc_session x"
  "rc_start (set_barrier b x) = rc_start x" "rc_transfer (set_barrier b x) = (rc_transfer x)\<lparr>tf_gameplay_barrier := Some b\<rparr>"
  by (simp_all add: set_barrier_def)

lemma set_barrier_simps [simp]:
  "armed (set_barrier b x) = armed x" "released (set_barrier b x) = gb_go_released b"
  "in_scene e l c (set_barrier b x) \<longleftrightarrow> gb_scene_epoch b = e \<and> gb_map b = l \<and> gb_racer_count b = c"
  "boundary_of (set_barrier b x) = boundary_of x"
  by (simp_all add: armed_def released_def in_scene_def boundary_of_def)

lemma announced_simps [simp]: "rc_session (announced now x) = rc_session x" "rc_transfer (announced now x) = rc_transfer x"
  "armed (announced now x) = armed x" "released (announced now x) = released x"
  "in_scene e l c (announced now x) = in_scene e l c x" "boundary_of (announced now x) = boundary_of x"
  "racer_ok f s0 bound (announced now x) = racer_ok f s0 bound x" "evolves y (announced now x) = evolves y x"
  "st_completed_releases (rc_start (announced now x)) = st_completed_releases (rc_start x)"
  "st_last_host_scene_epoch (rc_start (announced now x)) = st_last_host_scene_epoch (rc_start x)"
  by (simp_all add: announced_def)

lemma set_handoff_simps [simp]:
  "ss_authority (set_handoff h s) = (ss_authority s)\<lparr>au_gameplay_handoff := h\<rparr>" "ss_ledger (set_handoff h s) = ss_ledger s"
  "ss_delivery (set_handoff h s) = ss_delivery s" "ss_players (set_handoff h s) = ss_players s"
  "ss_failure (set_handoff h s) = ss_failure s" "sound_failure (set_handoff h s) = sound_failure s"
  by (simp_all add: set_handoff_def sound_failure_def)

text \<open>A parked machine needs its ledger kept, another one only what it will suspend at.\<close>

lemma handoff_parked:
  assumes "handoff_ok e bound s" "au_gameplay_handoff (ss_authority s) = Some h" "gh_armed h \<or> gh_resume_input_epoch h = 0"
  shows "parked s"
  using assms by (auto simp: handoff_ok_def parked_def admission_parked_def fresh_ledger_def opened_def Let_def split: if_splits)

lemma epoch_chain_same:
  assumes "same_match a c" shows "epoch_chain b a = epoch_chain b c"
  using assms by (simp only: epoch_chain_def initial_commit_hash_def same_match_def)

lemma epoch_chain_state [simp]: "epoch_chain b (a\<lparr>au_state := state\<rparr>) = epoch_chain b a"
  "epoch_chain b (a\<lparr>au_gameplay_handoff := h\<rparr>) = epoch_chain b a" "epoch_chain b (a\<lparr>au_scene_epoch := k\<rparr>) = epoch_chain b a"
  by (rule epoch_chain_same, simp add: same_match_def)+

lemma racer_session:
  assumes "racer_ok e s0 bound x" "steady (rc_session x) s"
    "\<And>h. au_gameplay_handoff (rc_authority x) = Some h \<Longrightarrow> gh_armed h \<Longrightarrow> ss_ledger s = rc_ledger x"
    "\<And>h. au_gameplay_handoff (rc_authority x) = Some h \<Longrightarrow> gh_resume_input_epoch h = 0 \<Longrightarrow>
      lg_next_commit_frame (ss_ledger s) = lg_next_commit_frame (rc_ledger x)"
  shows "racer_ok e s0 bound (x\<lparr>rc_session := s\<rparr>)" "evolves x (x\<lparr>rc_session := s\<rparr>)"
    "boundary_of (x\<lparr>rc_session := s\<rparr>) = boundary_of x" "released (x\<lparr>rc_session := s\<rparr>) = released x"
    "armed (x\<lparr>rc_session := s\<rparr>) = armed x"
proof -
  obtain state where a: "ss_authority s = (rc_authority x)\<lparr>au_state := state\<rparr>" and p: "ss_players s = ss_players (rc_session x)"
    using assms(2) by (auto simp: steady_def)
  have "handoff_ok e bound s"
    using assms(1,3,4) unfolding racer_ok_def handoff_ok_def Let_def a
    by (auto simp: fresh_ledger_def split: option.splits if_splits)
  then show "racer_ok e s0 bound (x\<lparr>rc_session := s\<rparr>)"
    using assms(1,2) by (auto simp: racer_ok_def steady_def barrier_ok_def armed_def split: option.splits)
  show "evolves x (x\<lparr>rc_session := s\<rparr>)" "boundary_of (x\<lparr>rc_session := s\<rparr>) = boundary_of x"
    "released (x\<lparr>rc_session := s\<rparr>) = released x" "armed (x\<lparr>rc_session := s\<rparr>) = armed x"
    by (simp_all add: evolves_def armed_def released_def in_scene_def boundary_of_def a p Let_def)
qed

lemma racer_frame:
  assumes "racer_ok e s0 bound x" "steady (rc_session x) s" "parked (rc_session x) \<longrightarrow> ss_ledger s = rc_ledger x"
  shows "racer_ok e s0 bound (x\<lparr>rc_session := s\<rparr>)" "evolves x (x\<lparr>rc_session := s\<rparr>)"
    "boundary_of (x\<lparr>rc_session := s\<rparr>) = boundary_of x" "released (x\<lparr>rc_session := s\<rparr>) = released x"
    "armed (x\<lparr>rc_session := s\<rparr>) = armed x"
proof -
  have k: "ss_ledger s = rc_ledger x"
    if "au_gameplay_handoff (rc_authority x) = Some h" "gh_armed h \<or> gh_resume_input_epoch h = 0" for h
    using that assms(1,3) handoff_parked [of e bound "rc_session x" h] by (auto simp: racer_ok_def)
  show "racer_ok e s0 bound (x\<lparr>rc_session := s\<rparr>)" "evolves x (x\<lparr>rc_session := s\<rparr>)"
    "boundary_of (x\<lparr>rc_session := s\<rparr>) = boundary_of x" "released (x\<lparr>rc_session := s\<rparr>) = released x"
    "armed (x\<lparr>rc_session := s\<rparr>) = armed x"
    by (rule racer_session [OF assms(1,2)]; use k in force)+
qed

lemma fail_racer_ok:
  assumes "fail_racer m x = (sent, y)"
  shows "\<exists>s. y = x\<lparr>rc_session := s\<rparr> \<and> steady (rc_session x) s \<and> ss_ledger s = rc_ledger x"
    "t \<in> set sent \<Longrightarrow> t = Broadcast MsgDisconnect (map of_char m) 0 \<or> t = ToHost MsgDisconnect (map of_char m) 0"
  using assms fail_steady [of "rc_session x" m]
  by (auto simp: fail_racer_def fail_locked_def split: if_splits intro: exI [of _ "rc_session x"])

lemma bound_mono: "racer_ok e s0 None x \<Longrightarrow> racer_ok e s0 bound x"
  by (auto simp: racer_ok_def handoff_ok_def Let_def split: option.splits if_splits)

subsection \<open>Loading a track\<close>

abbreviation p_current :: "GameplayHandoffPayload \<Rightarrow> u32" where
  "p_current p \<equiv> GameplayHandoffPayload.gh_current_input_epoch p"
abbreviation p_resume :: "GameplayHandoffPayload \<Rightarrow> u32" where
  "p_resume p \<equiv> GameplayHandoffPayload.gh_resume_input_epoch p"
abbreviation p_boundary :: "GameplayHandoffPayload \<Rightarrow> u32" where
  "p_boundary p \<equiv> GameplayHandoffPayload.gh_boundary_frame p"

lemma adopt_shape:
  assumes "adopt_gameplay_handoff p ls now s = (r, t)"
  shows "t = s \<or> (\<exists>h. t = set_handoff (Some h) s)"
  using assms unfolding adopt_gameplay_handoff_def Let_def by (auto split: option.splits if_splits)

lemma adopt_handoff:
  assumes "handoff_ok e bound s" "adopt_gameplay_handoff p ls now s = (r, t)"
    "p_current p = e \<Longrightarrow> p_resume p \<noteq> 0 \<Longrightarrow> p_resume p = resume_epoch e \<and> bound = Some (p_boundary p)"
  shows "handoff_ok e bound t"
proof (cases "au_gameplay_handoff (ss_authority s)")
  case None
  then show ?thesis
    using assms unfolding adopt_gameplay_handoff_def Let_def handoff_ok_def by (auto split: if_splits)
next
  case (Some h)
  show ?thesis
  proof (cases "gh_armed h \<or> p_current p \<noteq> e")
    case True
    then have "t = s" using assms(1,2) Some unfolding adopt_gameplay_handoff_def Let_def handoff_ok_def by (auto split: if_splits)
    then show ?thesis using assms(1) by simp
  next
    case False
    show ?thesis
    proof (cases "p_resume p = 0")
      case True
      then show ?thesis
        using assms(1,2) Some False unfolding adopt_gameplay_handoff_def Let_def handoff_ok_def
        by (auto simp: min_def split: if_splits)
    next
      case r: False
      show ?thesis
        using assms(1,2) assms(3) [OF _ r] Some False r unfolding adopt_gameplay_handoff_def Let_def handoff_ok_def
        by (auto split: if_splits)
    qed
  qed
qed

lemma adopt_racer:
  assumes "racer_ok e s0 bound x" "adopt_gameplay_handoff p ls now (rc_session x) = (r, t)"
    "p_current p = e \<Longrightarrow> p_resume p \<noteq> 0 \<Longrightarrow> p_resume p = resume_epoch e \<and> bound = Some (p_boundary p)"
  shows "racer_ok e s0 bound (x\<lparr>rc_session := t\<rparr>) \<and> evolves x (x\<lparr>rc_session := t\<rparr>) \<and>
    armed (x\<lparr>rc_session := t\<rparr>) = armed x"
proof -
  have h: "handoff_ok e bound t" using adopt_handoff [OF _ assms(2,3)] assms(1) by (simp add: racer_ok_def)
  have a: "armed (x\<lparr>rc_session := t\<rparr>) = armed x"
    using assms(1,2) unfolding adopt_gameplay_handoff_def Let_def racer_ok_def handoff_ok_def armed_def
    by (auto split: option.splits if_splits)
  from adopt_shape [OF assms(2)] show ?thesis
  proof (elim disjE exE)
    fix h' assume "t = set_handoff (Some h') (rc_session x)"
    then show ?thesis
      using assms(1) h a by (auto simp: racer_ok_def barrier_ok_def evolves_def in_scene_def released_def Let_def split: option.splits)
  qed (use assms(1) in simp)
qed

subsection \<open>The new input epoch\<close>

lemma reset_pending_input_simps [simp]:
  "ss_authority (reset_pending_input s) = ss_authority s" "ss_players (reset_pending_input s) = ss_players s"
  "ss_failure (reset_pending_input s) = ss_failure s"
  "dl_timeline (ss_delivery (reset_pending_input s)) = timeline_reset (lg_next_commit_frame (ss_ledger s)) (dl_timeline (ss_delivery s))"
  "ss_ledger (reset_pending_input s) = (clear_inputs (ss_ledger s))\<lparr>lg_frame_commits := [], lg_commit_history := [],
     lg_frame_correction_generation := 0, lg_applied_generation := 0, lg_assembly := None,
     lg_transmission := None, lg_deferred := []\<rparr>"
  by (simp_all add: reset_pending_input_def reset_pending_commit_wait_def clear_input_history_def Let_def)

lemma enter_input_epoch:
  fixes h :: GameplayHandoffState
  assumes "timeline_inv (dl_timeline (ss_delivery s))"
  defines "t \<equiv> enter_input_epoch h s"
  shows "ss_authority t = (ss_authority s)\<lparr>au_input_epoch := gh_resume_input_epoch h\<rparr>"
    "ss_players t = ss_players s" "ss_failure t = ss_failure s" "timeline_inv (dl_timeline (ss_delivery t))"
    "fresh_ledger (gh_boundary_frame h) (ss_authority t) (ss_ledger t)"
  using assms(1) reset_inv neutral_runway_inv
  by (simp_all add: t_def enter_input_epoch_def Let_def reset_progress_def reset_input_delivery_tracking_def
      fresh_ledger_def opened_def clear_inputs_def)

text \<open>What arming does: nothing, or the machine enters the epoch and its flag is set.\<close>

definition armed_message :: "Racer \<Rightarrow> bytes" where
  "armed_message x = (case rc_barrier x of None \<Rightarrow> []
     | Some b \<Rightarrow> barrier_message BarrierArmed (gb_scene_epoch b) (gb_map b) (gb_racer_count b) (rc_authority x))"

lemma arm_cases:
  assumes "arm_gameplay_handoff now x = (r, sent, y)"
  obtains (unchanged) "y = x" "sent = []" "(\<exists>e. r = Inl e) \<or> armed x"
  | (entered) b h st where "rc_barrier x = Some b" "au_gameplay_handoff (rc_authority x) = Some h" "\<not> gh_armed h"
      "gh_resume_input_epoch h \<noteq> 0" "gb_arm_announced b"
      "y = (set_barrier (b\<lparr>gb_armed := (gb_armed b)[unat (au_local_slot (rc_authority x)) := True]\<rparr>)
        (x\<lparr>rc_session := set_handoff (Some (h\<lparr>gh_armed := True\<rparr>)) (enter_input_epoch h (rc_session x))\<rparr>))\<lparr>rc_start := st\<rparr>"
      "st_completed_releases st = st_completed_releases (rc_start x)"
      "st_last_host_scene_epoch st = st_last_host_scene_epoch (rc_start x)"
      "sent = (if au_is_host (rc_authority x) then [] else replicate 5 (ToHost MsgGameplayBarrier (armed_message x) 0))"
proof (cases "\<exists>h b. au_gameplay_handoff (rc_authority x) = Some h \<and> rc_barrier x = Some b \<and>
    au_state (rc_authority x) = StateRunning \<and> gh_local_load_started h \<and> gh_resume_input_epoch h \<noteq> 0 \<and>
    gb_arm_announced b \<and> \<not> gh_armed h")
  case True
  then obtain h b where hb: "au_gameplay_handoff (rc_authority x) = Some h" "rc_barrier x = Some b"
    "au_state (rc_authority x) = StateRunning" "gh_local_load_started h" "gh_resume_input_epoch h \<noteq> 0"
    "gb_arm_announced b" "\<not> gh_armed h" by blast
  define z where "z = set_barrier (b\<lparr>gb_armed := (gb_armed b)[unat (au_local_slot (rc_authority x)) := True]\<rparr>)
        (x\<lparr>rc_session := set_handoff (Some (h\<lparr>gh_armed := True\<rparr>)) (enter_input_epoch h (rc_session x))\<rparr>)"
  have zs: "rc_start z = rc_start x" by (simp add: z_def)
  note d = assms [unfolded arm_gameplay_handoff_def hb(1,2) Let_def, simplified hb option.case prod.case simp_thms if_False if_True,
      folded z_def]
  have id: "z\<lparr>rc_start := rc_start x\<rparr> = z" using zs by (cases z) simp
  show ?thesis
  proof (cases "au_is_host (rc_authority x)")
    case True
    then have "y = z\<lparr>rc_start := rc_start x\<rparr>" "sent = []" using d id by auto
    then show ?thesis using hb True entered [of b h "rc_start x"] unfolding z_def by simp
  next
    case False
    then have "y = z\<lparr>rc_start := (rc_start z)\<lparr>st_last_gameplay_resume_ack := now\<rparr>\<rparr>"
      "sent = replicate 5 (ToHost MsgGameplayBarrier (armed_message x) 0)"
      using d hb(2) by (auto simp: armed_message_def barrier_message_def)
    then show ?thesis
      using hb False entered [of b h "(rc_start x)\<lparr>st_last_gameplay_resume_ack := now\<rparr>"] zs unfolding z_def by simp
  qed
next
  case False
  then have "y = x \<and> sent = [] \<and> ((\<exists>e. r = Inl e) \<or> armed x)"
    using assms unfolding arm_gameplay_handoff_def Let_def armed_def by (auto split: option.splits if_splits)
  then show ?thesis using unchanged by blast
qed

lemma arm_racer:
  assumes "racer_ok e s0 bound x" "arm_gameplay_handoff now x = (r, sent, y)"
    "rc_barrier x = Some b" "gb_epoch_synchronized b"
  shows "racer_ok e s0 bound y" "evolves x y" "boundary_of y = boundary_of x" "(\<exists>m. r = Inl m) \<or> armed y"
    "released y = released x" "st_completed_releases (rc_start y) = st_completed_releases (rc_start x)"
    "st_last_host_scene_epoch (rc_start y) = st_last_host_scene_epoch (rc_start x)"
    "au_scene_epoch (rc_authority y) = au_scene_epoch (rc_authority x)"
    "au_authoritative_phase_active (rc_authority y) = au_authoritative_phase_active (rc_authority x)"
    "\<exists>flags. rc_barrier y = Some (b\<lparr>gb_armed := flags\<rparr>) \<and>
      flags \<in> {gb_armed b, (gb_armed b)[unat (au_local_slot (rc_authority x)) := True]}"
    "sent = [] \<or> \<not> au_is_host (rc_authority x) \<and> armed y \<and> sent = replicate 5 (ToHost MsgGameplayBarrier (armed_message y) 0)"
    "armed x \<longrightarrow> y = x"
    "\<forall>h. au_gameplay_handoff (rc_authority y) = Some h \<longrightarrow> \<not> gh_armed h \<longrightarrow> y = x"
proof -
  have "racer_ok e s0 bound y \<and> evolves x y \<and> boundary_of y = boundary_of x \<and> ((\<exists>m. r = Inl m) \<or> armed y) \<and>
    released y = released x \<and> st_completed_releases (rc_start y) = st_completed_releases (rc_start x) \<and>
    st_last_host_scene_epoch (rc_start y) = st_last_host_scene_epoch (rc_start x) \<and>
    au_scene_epoch (rc_authority y) = au_scene_epoch (rc_authority x) \<and>
    au_authoritative_phase_active (rc_authority y) = au_authoritative_phase_active (rc_authority x) \<and>
    (\<exists>flags. rc_barrier y = Some (b\<lparr>gb_armed := flags\<rparr>) \<and>
      flags \<in> {gb_armed b, (gb_armed b)[unat (au_local_slot (rc_authority x)) := True]}) \<and>
    (sent = [] \<or> \<not> au_is_host (rc_authority x) \<and> armed y \<and>
      sent = replicate 5 (ToHost MsgGameplayBarrier (armed_message y) 0)) \<and> (armed x \<longrightarrow> y = x) \<and>
    (\<forall>h. au_gameplay_handoff (rc_authority y) = Some h \<longrightarrow> \<not> gh_armed h \<longrightarrow> y = x)"
    using assms(2)
  proof (cases rule: arm_cases)
    case unchanged
    have "b\<lparr>gb_armed := gb_armed b\<rparr> = b" by (cases b) simp
    then have "\<exists>flags. rc_barrier x = Some (b\<lparr>gb_armed := flags\<rparr>) \<and>
        flags \<in> {gb_armed b, (gb_armed b)[unat (au_local_slot (rc_authority x)) := True]}"
      using assms(3) by (intro exI [of _ "gb_armed b"]) simp
    then show ?thesis using unchanged assms(1) by simp
  next
    case (entered b' h st)
    have b: "b' = b" using entered(1) assms(3) by simp
    let ?slot = "unat (au_local_slot (rc_authority x))"
    note t = enter_input_epoch [of "rc_session x" h]
    have tl: "timeline_inv (dl_timeline (ss_delivery (rc_session x)))" using assms(1) by (simp add: racer_ok_def)
    have h: "gh_resume_input_epoch h = resume_epoch e" "bound = Some (gh_boundary_frame h)"
      "gh_local_suspend_frame h \<le> gh_boundary_frame h" "gh_current_input_epoch h = e" "gh_suspended h"
      using assms(1) entered(2,4) by (auto simp: racer_ok_def handoff_ok_def Let_def split: if_splits)
    have "armed y" using entered(6) by (simp add: armed_def)
    moreover have "\<not> armed x" using entered(2,3) by (simp add: armed_def)
    moreover have "racer_ok e s0 bound y"
      using assms(1,4) entered(1,2,6) h t [OF tl] \<open>armed y\<close> b
      by (auto simp: racer_ok_def handoff_ok_def barrier_ok_def Let_def sound_failure_def fresh_ledger_def)
    moreover have "armed_message y = armed_message x"
      using entered(1,6) t(1) [OF tl] by (simp add: armed_message_def barrier_message_def)
    ultimately show ?thesis
      using entered t [OF tl] b by (auto simp: evolves_def Let_def in_scene_def released_def boundary_of_def)
  qed
  then show "racer_ok e s0 bound y" "evolves x y" "boundary_of y = boundary_of x" "(\<exists>m. r = Inl m) \<or> armed y"
    "released y = released x" "st_completed_releases (rc_start y) = st_completed_releases (rc_start x)"
    "st_last_host_scene_epoch (rc_start y) = st_last_host_scene_epoch (rc_start x)"
    "au_scene_epoch (rc_authority y) = au_scene_epoch (rc_authority x)"
    "au_authoritative_phase_active (rc_authority y) = au_authoritative_phase_active (rc_authority x)"
    "\<exists>flags. rc_barrier y = Some (b\<lparr>gb_armed := flags\<rparr>) \<and>
      flags \<in> {gb_armed b, (gb_armed b)[unat (au_local_slot (rc_authority x)) := True]}"
    "sent = [] \<or> \<not> au_is_host (rc_authority x) \<and> armed y \<and> sent = replicate 5 (ToHost MsgGameplayBarrier (armed_message y) 0)"
    "armed x \<longrightarrow> y = x"
    "\<forall>h. au_gameplay_handoff (rc_authority y) = Some h \<longrightarrow> \<not> gh_armed h \<longrightarrow> y = x" by blast+
qed

subsection \<open>The two roles and the messages\<close>

text \<open>
  \<open>F slot scene level count\<close> says that the guest of a slot has armed that scene: Player 1 has
  reason to set the flag of the slot.
\<close>

definition host_ok :: "u32 \<Rightarrow> u32 \<Rightarrow> (nat \<Rightarrow> u32 \<Rightarrow> u32 \<Rightarrow> u32 \<Rightarrow> bool) \<Rightarrow> Racer \<Rightarrow> bool" where
  "host_ok e s0 F x \<longleftrightarrow> (let a = rc_authority x; players = ss_players (rc_session x) in
     racer_ok e s0 (boundary_of x) x \<and> au_is_host a \<and> s0 \<le> au_scene_epoch a \<and>
     (au_authoritative_phase_active a \<longrightarrow> s0 < au_scene_epoch a) \<and>
     pl_occupied (players ! unat (au_local_slot a)) \<and>
     (\<forall>h. au_gameplay_handoff a = Some h \<longrightarrow> gh_resume_input_epoch h \<noteq> 0 \<and>
        (\<not> gh_armed h \<longrightarrow> lg_next_commit_frame (rc_ledger x) = gh_boundary_frame h)) \<and>
     (\<forall>b. rc_barrier x = Some b \<longrightarrow> gb_epoch_synchronized b \<and>
        (\<forall>slot < kMaximumPlayers. slot \<noteq> unat (au_local_slot a) \<longrightarrow> gb_armed b ! slot \<longrightarrow>
           F slot (gb_scene_epoch b) (gb_map b) (gb_racer_count b)) \<and>
        (gb_go_released b \<longrightarrow> all_slots players (gb_armed b))) \<and>
     (\<forall>entry \<in> set (st_completed_releases (rc_start x)).
        cr_type entry = MsgGameplayBarrier \<longrightarrow> s0 < cr_epoch entry \<longrightarrow> released x))"

definition follower_ok :: "u32 \<Rightarrow> u32 \<Rightarrow> u32 option \<Rightarrow> bool \<Rightarrow> Racer \<Rightarrow> bool" where
  "follower_ok e s0 bound go x \<longleftrightarrow> racer_ok e s0 bound x \<and> \<not> au_is_host (rc_authority x) \<and>
     s0 \<le> st_last_host_scene_epoch (rc_start x) \<and> (released x \<longrightarrow> go)"

definition host_message_ok :: "u32 \<Rightarrow> u32 \<Rightarrow> u32 option \<Rightarrow> bool \<Rightarrow> MessageType \<times> bytes \<Rightarrow> bool" where
  "host_message_ok e s0 bound go m \<longleftrightarrow>
     (fst m = MsgGameplayHandoff \<longrightarrow> (\<forall>p. decode_gameplay_handoff (snd m) = Inr p \<longrightarrow> p_current p = e \<longrightarrow>
        p_resume p = resume_epoch e \<and> bound = Some (p_boundary p))) \<and>
     (fst m = MsgGameplayBarrier \<longrightarrow> (\<forall>p. decode_gameplay_barrier (snd m) = Inr p \<longrightarrow>
        s0 < GameplayBarrierPayload.gb_scene_epoch p \<longrightarrow> gb_stage p = BarrierGo \<longrightarrow> go))"

definition follower_message_ok :: "u32 \<Rightarrow> Racer \<Rightarrow> MessageType \<times> bytes \<Rightarrow> bool" where
  "follower_message_ok s0 x m \<longleftrightarrow>
     (fst m = MsgGameplayBarrier \<longrightarrow> (\<forall>p. decode_gameplay_barrier (snd m) = Inr p \<longrightarrow>
        s0 < GameplayBarrierPayload.gb_scene_epoch p \<longrightarrow> gb_stage p = BarrierArmed \<longrightarrow>
        armed x \<and> in_scene (GameplayBarrierPayload.gb_scene_epoch p) (GameplayBarrierPayload.gb_map p)
          (GameplayBarrierPayload.gb_racer_count p) x))"

text \<open>What an outgoing message is to its receivers.\<close>

fun host_post :: "Outgoing \<Rightarrow> (MessageType \<times> bytes) list" where
  "host_post (Broadcast message_type payload frame) = [(message_type, payload)]"
| "host_post (ToPeer peer message_type payload frame) = [(message_type, payload)]"
| "host_post (ToHost message_type payload frame) = []"

fun follower_post :: "Outgoing \<Rightarrow> (MessageType \<times> bytes) list" where
  "follower_post (ToHost message_type payload frame) = [(message_type, payload)]"
| "follower_post _ = []"

abbreviation host_posts :: "Outgoing list \<Rightarrow> (MessageType \<times> bytes) list" where
  "host_posts sent \<equiv> concat (map host_post sent)"

abbreviation follower_posts :: "Outgoing list \<Rightarrow> (MessageType \<times> bytes) list" where
  "follower_posts sent \<equiv> concat (map follower_post sent)"

lemma decode_barrier_message:
  "decode_gameplay_barrier (barrier_message stage scene_epoch level racer_count a) = Inr p \<longleftrightarrow>
     barrier_message stage scene_epoch level racer_count a \<noteq> [] \<and>
     p = \<lparr>GameplayBarrierPayload.gb_scene_epoch = scene_epoch, gb_map = level, gb_racer_count = racer_count,
        gb_player_slot = au_local_slot a, gb_stage = stage\<rparr>"
proof -
  let ?p = "\<lparr>GameplayBarrierPayload.gb_scene_epoch = scene_epoch, gb_map = level, gb_racer_count = racer_count,
        gb_player_slot = au_local_slot a, gb_stage = stage\<rparr>"
  have "q = ?p" if "encode_gameplay_barrier q = encode_gameplay_barrier ?p" "encode_gameplay_barrier ?p \<noteq> []" for q
    using that gameplay_barrier.exact [of "encode_gameplay_barrier ?p" q] gameplay_barrier.exact [of "encode_gameplay_barrier ?p" ?p]
    by simp
  then show ?thesis by (auto simp: barrier_message_def gameplay_barrier.exact)
qed

text \<open>A move of Player 1 or of a guest: it keeps its invariant, and what it sends is right.\<close>

definition host_moves :: "u32 \<Rightarrow> u32 \<Rightarrow> (nat \<Rightarrow> u32 \<Rightarrow> u32 \<Rightarrow> u32 \<Rightarrow> bool) \<Rightarrow> Racer \<Rightarrow> Outgoing list \<Rightarrow> Racer \<Rightarrow> bool" where
  "host_moves e s0 F x sent y \<longleftrightarrow> host_ok e s0 F y \<and> evolves x y \<and>
     (\<forall>b. boundary_of x = Some b \<longrightarrow> boundary_of y = Some b) \<and>
     list_all (host_message_ok e s0 (boundary_of y) (released y)) (host_posts sent)"

definition follower_moves :: "u32 \<Rightarrow> u32 \<Rightarrow> u32 option \<Rightarrow> bool \<Rightarrow> Racer \<Rightarrow> Outgoing list \<Rightarrow> Racer \<Rightarrow> bool" where
  "follower_moves e s0 bound go x sent y \<longleftrightarrow> follower_ok e s0 bound go y \<and> evolves x y \<and>
     list_all (follower_message_ok s0 y) (follower_posts sent)"

lemma host_message_mono:
  "host_message_ok e s0 bound go m \<Longrightarrow> (\<And>b. bound = Some b \<Longrightarrow> bound2 = Some b) \<Longrightarrow> (go \<Longrightarrow> go2) \<Longrightarrow>
     host_message_ok e s0 bound2 go2 m"
  by (auto simp: host_message_ok_def)

lemma follower_message_mono: "follower_message_ok s0 x m \<Longrightarrow> evolves x y \<Longrightarrow> follower_message_ok s0 y m"
  unfolding follower_message_ok_def using evolvesD(1,2) by blast

lemma host_moves_trans: "host_moves e s0 F x s1 y \<Longrightarrow> host_moves e s0 F y s2 z \<Longrightarrow> host_moves e s0 F x (s1 @ s2) z"
  using evolves_trans [of x y z] evolvesD(3) [of y z]
    list.pred_mono_strong [of "host_message_ok e s0 (boundary_of y) (released y)" "host_posts s1" "host_message_ok e s0 (boundary_of z) (released z)"]
    host_message_mono [of e s0 "boundary_of y" "released y" _ "boundary_of z" "released z"]
  by (simp add: host_moves_def)

lemma follower_moves_trans:
  "follower_moves e s0 bound go x s1 y \<Longrightarrow> follower_moves e s0 bound go y s2 z \<Longrightarrow> follower_moves e s0 bound go x (s1 @ s2) z"
  using evolves_trans [of x y z] follower_message_mono [of s0 y _ z]
    list.pred_mono_strong [of "follower_message_ok s0 y" "follower_posts s1" "follower_message_ok s0 z"]
  by (simp add: follower_moves_def)

lemma moves_refl: "host_ok e s0 F x \<Longrightarrow> host_moves e s0 F x [] x" "follower_ok e s0 bound go x \<Longrightarrow> follower_moves e s0 bound go x [] x"
  by (simp_all add: host_moves_def follower_moves_def)

text \<open>Times and announcements do not matter.\<close>

lemma host_ok_start:
  "st_completed_releases st = st_completed_releases (rc_start x) \<Longrightarrow> host_ok e s0 F (x\<lparr>rc_start := st\<rparr>) = host_ok e s0 F x"
  by (simp add: host_ok_def)

lemma follower_ok_start:
  "st_last_host_scene_epoch st = st_last_host_scene_epoch (rc_start x) \<Longrightarrow>
     follower_ok e s0 bound go (x\<lparr>rc_start := st\<rparr>) = follower_ok e s0 bound go x"
  by (simp add: follower_ok_def)

lemma host_ok_announced [simp]: "host_ok e s0 F (announced now x) = host_ok e s0 F x"
  by (simp add: announced_def host_ok_start)

lemma other_messages:
  "list_all (\<lambda>m. fst m \<notin> {MsgGameplayHandoff, MsgGameplayBarrier}) ms \<Longrightarrow> list_all (host_message_ok e s0 bound go) ms"
  "list_all (\<lambda>m. fst m \<noteq> MsgGameplayBarrier) ms \<Longrightarrow> list_all (follower_message_ok s0 x) ms"
  by (erule list.pred_mono_strong, simp add: host_message_ok_def follower_message_ok_def)+

subsection \<open>The session goes on\<close>

lemma host_parked:
  assumes "host_ok e s0 F x" "au_gameplay_handoff (rc_authority x) \<noteq> None"
  shows "parked (rc_session x)"
proof -
  obtain h where h: "au_gameplay_handoff (rc_authority x) = Some h" using assms(2) by blast
  have ok: "handoff_ok e (boundary_of x) (rc_session x)" using assms(1) by (simp add: host_ok_def racer_ok_def Let_def)
  show ?thesis
  proof (cases "gh_armed h")
    case False
    then show ?thesis
      using assms(1) ok h by (auto simp: host_ok_def handoff_ok_def parked_def admission_parked_def Let_def split: if_splits)
  qed (use handoff_parked [OF ok h] in simp)
qed

lemma host_session:
  assumes "host_ok e s0 F x" "steady (rc_session x) s" "parked (rc_session x) \<longrightarrow> ss_ledger s = rc_ledger x"
    "list_all (\<lambda>m. fst m \<notin> {MsgGameplayHandoff, MsgGameplayBarrier}) (host_posts sent)"
  shows "host_moves e s0 F x sent (x\<lparr>rc_session := s\<rparr>)"
proof -
  have r: "racer_ok e s0 (boundary_of x) x" using assms(1) by (simp add: host_ok_def Let_def)
  obtain state where a: "ss_authority s = (rc_authority x)\<lparr>au_state := state\<rparr>" and p: "ss_players s = ss_players (rc_session x)"
    using assms(2) by (auto simp: steady_def)
  have l: "ss_ledger s = rc_ledger x" if "au_gameplay_handoff (rc_authority x) \<noteq> None"
    using host_parked [OF assms(1) that] assms(3) by simp
  have "host_ok e s0 F (x\<lparr>rc_session := s\<rparr>)"
    using assms(1) racer_frame(1,3,4) [OF r assms(2,3)] l unfolding host_ok_def Let_def by (simp add: a p)
  then show ?thesis
    using racer_frame [OF r assms(2,3)] other_messages(1) [OF assms(4)] by (simp add: host_moves_def)
qed

lemma follower_session:
  assumes "follower_ok e s0 bound go x" "steady (rc_session x) s"
    "\<And>h. au_gameplay_handoff (rc_authority x) = Some h \<Longrightarrow> gh_armed h \<Longrightarrow> ss_ledger s = rc_ledger x"
    "\<And>h. au_gameplay_handoff (rc_authority x) = Some h \<Longrightarrow> gh_resume_input_epoch h = 0 \<Longrightarrow>
      lg_next_commit_frame (ss_ledger s) = lg_next_commit_frame (rc_ledger x)"
    "list_all (\<lambda>m. fst m \<noteq> MsgGameplayBarrier) (follower_posts sent)"
  shows "follower_moves e s0 bound go x sent (x\<lparr>rc_session := s\<rparr>)"
proof -
  have r: "racer_ok e s0 bound x" using assms(1) by (simp add: follower_ok_def)
  obtain state where a: "ss_authority s = (rc_authority x)\<lparr>au_state := state\<rparr>" using assms(2) by (auto simp: steady_def)
  have "follower_ok e s0 bound go (x\<lparr>rc_session := s\<rparr>)"
    using assms(1) racer_session [OF r assms(2,3,4)] by (simp add: follower_ok_def a)
  then show ?thesis
    using racer_session [OF r assms(2,3,4)] other_messages(2) [OF assms(5)] by (simp add: follower_moves_def)
qed

lemma host_fail:
  assumes "host_ok e s0 F x" "fail_racer m x = (sent, y)"
  shows "host_moves e s0 F x sent y"
proof -
  obtain s where s: "y = x\<lparr>rc_session := s\<rparr>" "steady (rc_session x) s" "ss_ledger s = rc_ledger x"
    using fail_racer_ok(1) [OF assms(2)] by blast
  have "list_all (\<lambda>m. fst m \<notin> {MsgGameplayHandoff, MsgGameplayBarrier}) (host_posts sent)"
    using fail_racer_ok(2) [OF assms(2)] by (force simp: list_all_iff)
  then show ?thesis using host_session [OF assms(1) s(2), of sent] s by simp
qed

lemma follower_fail:
  assumes "follower_ok e s0 bound go x" "fail_racer m x = (sent, y)"
  shows "follower_moves e s0 bound go x sent y"
proof -
  obtain s where s: "y = x\<lparr>rc_session := s\<rparr>" "steady (rc_session x) s" "ss_ledger s = rc_ledger x"
    using fail_racer_ok(1) [OF assms(2)] by blast
  have "list_all (\<lambda>m. fst m \<noteq> MsgGameplayBarrier) (follower_posts sent)"
    using fail_racer_ok(2) [OF assms(2)] by (force simp: list_all_iff)
  then show ?thesis using follower_session [OF assms(1) s(2), of sent] s by simp
qed

subsection \<open>The handoff of the inputs\<close>

lemma send_handoff_start:
  assumes "send_gameplay_handoff stage now x = (sent, y)"
  shows "\<exists>st. y = x\<lparr>rc_start := st\<rparr> \<and> st_completed_releases st = st_completed_releases (rc_start x) \<and>
    st_last_host_scene_epoch st = st_last_host_scene_epoch (rc_start x)"
    "list_all (\<lambda>m. fst m \<noteq> MsgGameplayBarrier) (follower_posts sent)"
proof -
  have id: "x = x\<lparr>rc_start := rc_start x\<rparr>" by simp
  show "\<exists>st. y = x\<lparr>rc_start := st\<rparr> \<and> st_completed_releases st = st_completed_releases (rc_start x) \<and>
    st_last_host_scene_epoch st = st_last_host_scene_epoch (rc_start x)"
    using assms id unfolding send_gameplay_handoff_def Let_def
    by (auto split: option.splits if_splits intro: exI [of _ "rc_start x"])
  show "list_all (\<lambda>m. fst m \<noteq> MsgGameplayBarrier) (follower_posts sent)"
    using assms unfolding send_gameplay_handoff_def Let_def by (auto simp: list_all_iff split: option.splits if_splits)
qed

lemma send_handoff_host:
  assumes "host_ok e s0 F x" "send_gameplay_handoff stage now x = (sent, y)"
  shows "host_moves e s0 F x sent y"
proof -
  obtain st where y: "y = x\<lparr>rc_start := st\<rparr>" "st_completed_releases st = st_completed_releases (rc_start x)"
    using send_handoff_start(1) [OF assms(2)] by blast
  have "host_message_ok e s0 (boundary_of x) (released x) m" if m: "m \<in> set (host_posts sent)" for m
  proof -
    obtain h where h: "au_gameplay_handoff (rc_authority x) = Some h"
      using m assms(2) by (auto simp: send_gameplay_handoff_def Let_def split: option.splits)
    let ?p = "\<lparr>GameplayHandoffPayload.gh_current_input_epoch = gh_current_input_epoch h,
        gh_resume_input_epoch = gh_resume_input_epoch h, gh_boundary_frame = gh_boundary_frame h, gh_map = gh_map h,
        gh_player_slot = au_local_slot (rc_authority x), gh_stage = HandoffSuspend\<rparr>"
    have r: "gh_resume_input_epoch h = resume_epoch e" "boundary_of x = Some (gh_boundary_frame h)"
      using assms(1) h by (auto simp: host_ok_def racer_ok_def handoff_ok_def boundary_of_def Let_def split: if_splits)
    have e: "m = (MsgGameplayHandoff, encode_gameplay_handoff ?p)" "encode_gameplay_handoff ?p \<noteq> []"
      using m assms(1,2) h by (auto simp: send_gameplay_handoff_def host_ok_def Let_def split: if_splits)
    have "p_resume q = resume_epoch e \<and> boundary_of x = Some (p_boundary q)"
      if "decode_gameplay_handoff (encode_gameplay_handoff ?p) = Inr q" for q
    proof -
      have "q = ?p" using that e(2) gameplay_handoff.exact [of "encode_gameplay_handoff ?p" ?p] by simp
      then show ?thesis using r by simp
    qed
    then show ?thesis unfolding host_message_ok_def e(1) by simp
  qed
  then show ?thesis using assms(1) y by (simp add: host_moves_def host_ok_start list_all_iff)
qed

lemma send_handoff_follower:
  assumes "follower_ok e s0 bound go x" "send_gameplay_handoff stage now x = (sent, y)"
  shows "follower_moves e s0 bound go x sent y"
proof -
  obtain st where "y = x\<lparr>rc_start := st\<rparr>" "st_last_host_scene_epoch st = st_last_host_scene_epoch (rc_start x)"
    using send_handoff_start(1) [OF assms(2)] by blast
  then show ?thesis
    using assms(1) other_messages(2) [OF send_handoff_start(2) [OF assms(2)]] by (simp add: follower_moves_def follower_ok_start)
qed

lemma adopt_host:
  assumes "host_ok e s0 F x" "adopt_gameplay_handoff p ls now (rc_session x) = (r, s)"
    "p_current p = au_input_epoch (rc_authority x)" "p_resume p = resume_epoch (au_input_epoch (rc_authority x))"
    "p_boundary p = lg_next_commit_frame (rc_ledger x)"
  shows "host_moves e s0 F x [] (x\<lparr>rc_session := s\<rparr>)"
proof (cases "s = rc_session x")
  case True
  then show ?thesis using moves_refl(1) [OF assms(1)] by simp
next
  case False
  let ?n = "lg_next_commit_frame (rc_ledger x)"
  have ok: "handoff_ok e (boundary_of x) (rc_session x)" and r: "racer_ok e s0 (boundary_of x) x"
    using assms(1) by (simp_all add: host_ok_def racer_ok_def Let_def)
  have u: "\<not> armed x"
    using ok assms(2,3) False
    by (auto simp: armed_def handoff_ok_def adopt_gameplay_handoff_def Let_def split: option.splits if_splits)
  have e: "au_input_epoch (rc_authority x) = e"
    using ok u by (auto simp: armed_def handoff_ok_def Let_def split: option.splits)
  have b: "boundary_of x = Some ?n" if "au_gameplay_handoff (rc_authority x) \<noteq> None"
    using that assms(1) u by (auto simp: host_ok_def armed_def boundary_of_def Let_def)
  have "racer_ok e s0 (Some ?n) x"
    using r b bound_mono [of e s0 x "Some ?n"] by (cases "au_gameplay_handoff (rc_authority x)") (auto simp: boundary_of_def)
  note a = adopt_racer [OF this assms(2)]
  obtain h where h: "s = set_handoff (Some h) (rc_session x)" "gh_boundary_frame h = ?n" "gh_resume_input_epoch h \<noteq> 0"
    using assms(1,2,4,5) False ok b e
    unfolding adopt_gameplay_handoff_def Let_def host_ok_def handoff_ok_def
    by (auto split: option.splits if_splits)
  have n: "boundary_of (x\<lparr>rc_session := s\<rparr>) = Some ?n" using h by (simp add: boundary_of_def)
  have ok2: "racer_ok e s0 (Some ?n) (x\<lparr>rc_session := s\<rparr>)" and ev: "evolves x (x\<lparr>rc_session := s\<rparr>)"
    using a assms(4,5) e by auto
  have rel: "released (x\<lparr>rc_session := s\<rparr>) = released x" by (simp add: released_def)
  have k: "k = ?n" if "boundary_of x = Some k" for k
    using that b by (cases "au_gameplay_handoff (rc_authority x)") (simp_all add: boundary_of_def)
  have "host_ok e s0 F (x\<lparr>rc_session := s\<rparr>)"
    using assms(1) ok2 n rel h(2,3) unfolding host_ok_def Let_def by (simp add: h(1))
  then show ?thesis using n ev k unfolding host_moves_def by simp
qed

lemma begin_handoff_host:
  assumes "host_ok e s0 F x" "begin_gameplay_handoff (lg_next_commit_frame (rc_ledger x)) level now x = (r, sent, y)"
  shows "host_moves e s0 F x sent y"
proof -
  have h: "au_is_host (rc_authority x)" using assms(1) by (simp add: host_ok_def Let_def)
  let ?p = "\<lparr>GameplayHandoffPayload.gh_current_input_epoch = au_input_epoch (rc_authority x),
             gh_resume_input_epoch = resume_epoch (au_input_epoch (rc_authority x)),
             gh_boundary_frame = lg_next_commit_frame (rc_ledger x), gh_map = level,
             gh_player_slot = au_local_slot (rc_authority x), gh_stage = HandoffSuspend\<rparr>"
  obtain r2 s where a: "adopt_gameplay_handoff ?p True now (rc_session x) = (r2, s)" by fastforce
  have m: "host_moves e s0 F x [] (x\<lparr>rc_session := s\<rparr>)" by (rule adopt_host [OF assms(1) a]) simp_all
  show ?thesis
  proof (cases r2)
    case (Inl m')
    then show ?thesis using assms(2) a h m by (simp add: begin_gameplay_handoff_def Let_def)
  next
    case (Inr u)
    have "send_gameplay_handoff HandoffSuspend now (x\<lparr>rc_session := s\<rparr>) = (sent, y)"
      using assms(2) a h Inr by (simp add: begin_gameplay_handoff_def Let_def split: prod.splits)
    then have "host_moves e s0 F (x\<lparr>rc_session := s\<rparr>) sent y"
      using m by (intro send_handoff_host) (auto simp: host_moves_def)
    then show ?thesis using host_moves_trans [OF m] by simp
  qed
qed

lemma adopt_follower:
  assumes "follower_ok e s0 bound go x" "adopt_gameplay_handoff p ls now (rc_session x) = (r, s)"
    "p_current p = e \<Longrightarrow> p_resume p \<noteq> 0 \<Longrightarrow> p_resume p = resume_epoch e \<and> bound = Some (p_boundary p)"
  shows "follower_moves e s0 bound go x [] (x\<lparr>rc_session := s\<rparr>)"
proof -
  have "racer_ok e s0 bound x" using assms(1) by (simp add: follower_ok_def)
  from adopt_racer [OF this assms(2,3)] adopt_shape [OF assms(2)] show ?thesis
    using assms(1) by (auto simp: follower_moves_def follower_ok_def released_def)
qed

lemma begin_handoff_follower:
  assumes "follower_ok e s0 bound go x" "begin_gameplay_handoff frame level now x = (r, sent, y)"
  shows "follower_moves e s0 bound go x sent y"
proof -
  have h: "\<not> au_is_host (rc_authority x)" using assms(1) by (simp add: follower_ok_def)
  let ?p = "\<lparr>GameplayHandoffPayload.gh_current_input_epoch = au_input_epoch (rc_authority x),
             gh_resume_input_epoch = 0, gh_boundary_frame = frame, gh_map = level,
             gh_player_slot = au_local_slot (rc_authority x), gh_stage = HandoffRequest\<rparr>"
  obtain r2 s where a: "adopt_gameplay_handoff ?p True now (rc_session x) = (r2, s)" by fastforce
  have m: "follower_moves e s0 bound go x [] (x\<lparr>rc_session := s\<rparr>)" by (rule adopt_follower [OF assms(1) a]) simp
  show ?thesis
  proof (cases r2)
    case (Inl m')
    then show ?thesis using assms(2) a h m by (simp add: begin_gameplay_handoff_def Let_def)
  next
    case (Inr u)
    have "send_gameplay_handoff HandoffRequest now (x\<lparr>rc_session := s\<rparr>) = (sent, y)"
      using assms(2) a h Inr by (simp add: begin_gameplay_handoff_def Let_def split: prod.splits)
    then have "follower_moves e s0 bound go (x\<lparr>rc_session := s\<rparr>) sent y"
      using m by (intro send_handoff_follower) (auto simp: follower_moves_def)
    then show ?thesis using follower_moves_trans [OF m] by simp
  qed
qed

lemma request_host:
  assumes "host_ok e s0 F x" "handle_handoff_request peer payload now x = (sent, y)"
  shows "host_moves e s0 F x sent y"
proof (cases "y = x \<and> sent = []")
  case True
  then show ?thesis using moves_refl(1) [OF assms(1)] by simp
next
  case False
  obtain q where q: "decode_gameplay_handoff payload = Inr q" "p_current q = au_input_epoch (rc_authority x)"
    using False assms(2) by (auto simp: handle_handoff_request_def Let_def split: sum.splits if_splits)
  let ?p = "q\<lparr>GameplayHandoffPayload.gh_boundary_frame := lg_next_commit_frame (rc_ledger x),
      GameplayHandoffPayload.gh_resume_input_epoch := resume_epoch (au_input_epoch (rc_authority x)),
      gh_player_slot := au_local_slot (rc_authority x), gh_stage := HandoffSuspend\<rparr>"
  obtain r s where a: "adopt_gameplay_handoff ?p False now (rc_session x) = (r, s)" by fastforce
  have m: "host_moves e s0 F x [] (x\<lparr>rc_session := s\<rparr>)" by (rule adopt_host [OF assms(1) a]) (simp_all add: q)
  have ok: "host_ok e s0 F (x\<lparr>rc_session := s\<rparr>)" using m by (simp add: host_moves_def)
  have "(case r of Inl m \<Rightarrow> fail_racer m (x\<lparr>rc_session := s\<rparr>)
      | Inr _ \<Rightarrow> send_gameplay_handoff HandoffSuspend now (x\<lparr>rc_session := s\<rparr>)) = (sent, y)"
    using assms(2) q False a by (auto simp: handle_handoff_request_def Let_def split: if_splits)
  then have "host_moves e s0 F (x\<lparr>rc_session := s\<rparr>) sent y"
    using host_fail [OF ok] send_handoff_host [OF ok] by (auto split: sum.splits)
  then show ?thesis using host_moves_trans [OF m] by simp
qed

lemma suspend_follower:
  assumes "follower_ok e s0 bound go x" "handle_handoff_suspend payload now x = (sent, y)"
    "host_message_ok e s0 bound go (MsgGameplayHandoff, payload)"
  shows "follower_moves e s0 bound go x sent y"
proof (cases "y = x \<and> sent = []")
  case True
  then show ?thesis using moves_refl(2) [OF assms(1)] by simp
next
  case False
  obtain q where q: "decode_gameplay_handoff payload = Inr q"
    using False assms(2) by (auto simp: handle_handoff_suspend_def Let_def split: sum.splits)
  obtain r s where a: "adopt_gameplay_handoff q False now (rc_session x) = (r, s)" by fastforce
  have m: "follower_moves e s0 bound go x [] (x\<lparr>rc_session := s\<rparr>)"
    by (rule adopt_follower [OF assms(1) a]) (use assms(3) q in \<open>simp add: host_message_ok_def\<close>)
  have ok: "follower_ok e s0 bound go (x\<lparr>rc_session := s\<rparr>)" using m by (simp add: follower_moves_def)
  have "(case r of Inl m \<Rightarrow> fail_racer m (x\<lparr>rc_session := s\<rparr>) | Inr _ \<Rightarrow> ([], x\<lparr>rc_session := s\<rparr>)) = (sent, y)"
    using assms(2) q False a by (auto simp: handle_handoff_suspend_def Let_def split: if_splits)
  then have "follower_moves e s0 bound go (x\<lparr>rc_session := s\<rparr>) sent y"
    using follower_fail [OF ok] moves_refl(2) [OF ok] by (auto split: sum.splits)
  then show ?thesis using follower_moves_trans [OF m] by simp
qed

subsection \<open>Entering and leaving a scene\<close>

lemma not_armed:
  assumes "racer_ok e s0 bound x" "\<not> armed x"
  shows "\<not> released x" "au_input_epoch (rc_authority x) = e"
  using assms by (auto simp: racer_ok_def barrier_ok_def handoff_ok_def released_def armed_def Let_def split: option.splits)

lemma clear_simps [simp]:
  "tf_gameplay_barrier (clear_transfer t) = None"
  "st_completed_releases (clear_start st) = st_completed_releases st"
  "st_last_host_scene_epoch (clear_start st) = st_last_host_scene_epoch st"
  "lg_next_commit_frame (clear_inputs l) = lg_next_commit_frame l"
  by (simp_all add: clear_transfer_def clear_start_def clear_inputs_def)

lemma handoff_unarmed:
  assumes "handoff_ok e bound s" "\<And>h. au_gameplay_handoff (ss_authority s) = Some h \<Longrightarrow> \<not> gh_armed h"
    "au_gameplay_handoff (ss_authority t) = au_gameplay_handoff (ss_authority s)"
    "au_input_epoch (ss_authority t) = au_input_epoch (ss_authority s)"
    "lg_next_commit_frame (ss_ledger t) = lg_next_commit_frame (ss_ledger s)"
  shows "handoff_ok e bound t"
  using assms by (auto simp: handoff_ok_def Let_def split: option.splits)

text \<open>A machine that is not armed drops its barrier.\<close>

lemma drop_scene:
  assumes "racer_ok e s0 bound x" "\<not> armed x"
    "rc_authority y = (rc_authority x)\<lparr>au_authoritative_phase_active := active, au_authority_lifecycle := lifecycle,
       au_finish_seal_frame := None, au_recovery_frame := None, au_recovery_resumed := False, au_scene_epoch := k\<rparr>"
    "lg_next_commit_frame (rc_ledger y) = lg_next_commit_frame (rc_ledger x)"
    "ss_failure (rc_session y) = ss_failure (rc_session x)" "ss_players (rc_session y) = ss_players (rc_session x)"
    "dl_timeline (ss_delivery (rc_session y)) = dl_timeline (ss_delivery (rc_session x))" "rc_barrier y = None"
  shows "racer_ok e s0 bound y" "evolves x y" "boundary_of y = boundary_of x" "\<not> released y"
proof -
  have u: "\<not> gh_armed h" if "au_gameplay_handoff (rc_authority x) = Some h" for h
    using that assms(2) by (simp add: armed_def)
  have "handoff_ok e bound (rc_session y)"
    by (rule handoff_unarmed [of e bound "rc_session x"]) (use assms(1) u in \<open>simp_all add: racer_ok_def assms(3,4)\<close>)
  moreover have "\<not> armed y" using assms(2) by (simp add: armed_def assms(3))
  ultimately show "racer_ok e s0 bound y"
    using assms(1,5,6,7,8) by (simp add: racer_ok_def barrier_ok_def sound_failure_def assms(3))
  show "evolves x y" using assms(2,6) not_armed(1) [OF assms(1,2)] by (simp add: evolves_def Let_def assms(3))
  show "boundary_of y = boundary_of x" "\<not> released y"
    using assms(8) by (simp_all add: boundary_of_def released_def assms(3))
qed

lemma enter_scene_shape:
  assumes "y = begin_authoritative_phase x"
  shows "rc_authority y = (rc_authority x)\<lparr>au_authoritative_phase_active := au_state (rc_authority x) = StateRunning,
       au_authority_lifecycle := (if au_state (rc_authority x) = StateRunning then LifecycleRacing else LifecycleInactive),
       au_finish_seal_frame := None, au_recovery_frame := None, au_recovery_resumed := False,
       au_scene_epoch := (if au_state (rc_authority x) \<noteq> StateRunning then au_scene_epoch (rc_authority x)
         else if au_scene_epoch (rc_authority x) + 1 = 0 then 1 else au_scene_epoch (rc_authority x) + 1)\<rparr>"
    "lg_next_commit_frame (rc_ledger y) = lg_next_commit_frame (rc_ledger x)"
    "ss_failure (rc_session y) = ss_failure (rc_session x)" "ss_players (rc_session y) = ss_players (rc_session x)"
    "dl_timeline (ss_delivery (rc_session y)) = dl_timeline (ss_delivery (rc_session x))" "rc_barrier y = None"
    "st_completed_releases (rc_start y) = st_completed_releases (rc_start x)"
    "st_last_host_scene_epoch (rc_start y) = st_last_host_scene_epoch (rc_start x)"
  unfolding assms by (simp_all add: begin_authoritative_phase_def Let_def)

lemma next_epoch:
  fixes k :: u32
  assumes "k \<noteq> 0xFFFFFFFF"
  shows "k < k + 1" "k + 1 \<noteq> 0"
proof -
  have "(- 1 :: u32) = 0xFFFFFFFF" by simp
  then have "k \<noteq> - 1" using assms by metis
  then show "k + 1 \<noteq> 0" by (simp add: add_eq_0_iff2)
  then have "unat (1 + k) = Suc (unat k)" by (intro unatSuc) (simp add: add.commute)
  then show "k < k + 1" by (simp add: word_less_nat_alt add.commute)
qed

lemma enter_scene_host:
  assumes "host_ok e s0 F x" "\<not> armed x" "au_scene_epoch (rc_authority x) \<noteq> 0xFFFFFFFF"
  shows "host_moves e s0 F x [] (begin_authoritative_phase x)"
proof -
  let ?y = "begin_authoritative_phase x"
  note s = enter_scene_shape [OF refl, of x]
  have r: "racer_ok e s0 (boundary_of x) x" using assms(1) by (simp add: host_ok_def Let_def)
  note d = drop_scene [OF r assms(2) s(1-6)]
  note n = next_epoch [OF assms(3)]
  have nr: "\<not> released x" using not_armed(1) [OF r assms(2)] .
  have "host_ok e s0 F ?y"
    using assms(1) d n s nr unfolding host_ok_def Let_def by (auto simp: s(1) intro: order.strict_trans1 order.trans)
  then show ?thesis using d by (simp add: host_moves_def)
qed

lemma enter_scene_follower:
  assumes "follower_ok e s0 bound go x" "\<not> armed x"
  shows "follower_moves e s0 bound go x [] (begin_authoritative_phase x)"
proof -
  note s = enter_scene_shape [OF refl, of x]
  have r: "racer_ok e s0 bound x" using assms(1) by (simp add: follower_ok_def)
  show ?thesis using assms(1) drop_scene [OF r assms(2) s(1-6)] s by (simp add: follower_moves_def follower_ok_def)
qed

lemma leave_scene_cases:
  assumes "end_authoritative_phase x = (sent, y)"
  obtains (failed) m where "fail_racer m x = (sent, y)"
  | (left) "sent = []" "rc_authority y = (rc_authority x)\<lparr>au_authoritative_phase_active := False,
       au_authority_lifecycle := LifecycleInactive, au_finish_seal_frame := None, au_recovery_frame := None,
       au_recovery_resumed := False, au_scene_epoch := au_scene_epoch (rc_authority x)\<rparr>"
    "lg_next_commit_frame (rc_ledger y) = lg_next_commit_frame (rc_ledger x)"
    "ss_failure (rc_session y) = ss_failure (rc_session x)" "ss_players (rc_session y) = ss_players (rc_session x)"
    "dl_timeline (ss_delivery (rc_session y)) = dl_timeline (ss_delivery (rc_session x))" "rc_barrier y = None"
    "rc_ledger y = rc_ledger x" "st_completed_releases (rc_start y) = st_completed_releases (rc_start x)"
    "st_last_host_scene_epoch (rc_start y) = st_last_host_scene_epoch (rc_start x)"
  using assms unfolding end_authoritative_phase_def Let_def by (auto split: if_splits)

lemma leave_scene_host:
  assumes "host_ok e s0 F x" "\<not> armed x" "end_authoritative_phase x = (sent, y)"
  shows "host_moves e s0 F x sent y"
  using assms(3)
proof (cases rule: leave_scene_cases)
  case (failed m)
  then show ?thesis using host_fail [OF assms(1)] by simp
next
  case left
  have r: "racer_ok e s0 (boundary_of x) x" using assms(1) by (simp add: host_ok_def Let_def)
  note d = drop_scene [OF r assms(2) left(2-7)]
  have nr: "\<not> released x" using not_armed(1) [OF r assms(2)] .
  have "host_ok e s0 F y" using assms(1) d left nr unfolding host_ok_def Let_def by (simp add: left(2))
  then show ?thesis using d left(1) by (simp add: host_moves_def)
qed

lemma leave_scene_follower:
  assumes "follower_ok e s0 bound go x" "\<not> armed x" "end_authoritative_phase x = (sent, y)"
  shows "follower_moves e s0 bound go x sent y"
  using assms(3)
proof (cases rule: leave_scene_cases)
  case (failed m)
  then show ?thesis using follower_fail [OF assms(1)] by simp
next
  case left
  have r: "racer_ok e s0 bound x" using assms(1) by (simp add: follower_ok_def)
  show ?thesis using assms(1) drop_scene [OF r assms(2) left(2-7)] left by (simp add: follower_moves_def follower_ok_def)
qed

subsection \<open>The barrier\<close>

lemma barrier_posts:
  "(stage = BarrierGo \<Longrightarrow> s0 < k \<Longrightarrow> go) \<Longrightarrow> host_message_ok e s0 bound go (MsgGameplayBarrier, barrier_message stage k l c a)"
  "(stage = BarrierArmed \<Longrightarrow> s0 < k \<Longrightarrow> armed x \<and> in_scene k l c x) \<Longrightarrow>
     follower_message_ok s0 x (MsgGameplayBarrier, barrier_message stage k l c a)"
  by (auto simp: host_message_ok_def follower_message_ok_def decode_barrier_message)

text \<open>A barrier that fits the machine it is set in.\<close>

definition fits :: "u32 \<Rightarrow> GameplayBarrierState \<Rightarrow> Racer \<Rightarrow> bool" where
  "fits s0 b x \<longleftrightarrow>
     length (gb_ready b) = kMaximumPlayers \<and> length (gb_armed b) = kMaximumPlayers \<and>
     (gb_armed b ! unat (au_local_slot (rc_authority x)) \<longleftrightarrow> armed x) \<and>
     (gb_epoch_synchronized b \<longrightarrow> gb_scene_epoch b = au_scene_epoch (rc_authority x) \<and> s0 < gb_scene_epoch b) \<and>
     (armed x \<longrightarrow> gb_epoch_synchronized b \<and> in_scene (gb_scene_epoch b) (gb_map b) (gb_racer_count b) x) \<and>
     (gb_go_released b \<longrightarrow> armed x) \<and> (released x \<longrightarrow> gb_go_released b)"

lemma fits_current: "racer_ok e s0 bound x \<Longrightarrow> rc_barrier x = Some b \<Longrightarrow> fits s0 b x"
  by (auto simp: racer_ok_def barrier_ok_def fits_def in_scene_def released_def)

lemma fits_evolves: "fits s0 b x \<Longrightarrow> evolves x (set_barrier b x)"
  by (auto simp: fits_def evolves_def in_scene_def Let_def split: option.splits)

lemma fits_racer: "racer_ok e s0 bound x \<Longrightarrow> fits s0 b x \<Longrightarrow> racer_ok e s0 bound (set_barrier b x)"
  by (auto simp: racer_ok_def barrier_ok_def fits_def)

definition justified :: "(nat \<Rightarrow> u32 \<Rightarrow> u32 \<Rightarrow> u32 \<Rightarrow> bool) \<Rightarrow> GameplayBarrierState \<Rightarrow> Racer \<Rightarrow> bool" where
  "justified F b x \<longleftrightarrow> gb_epoch_synchronized b \<and>
     (\<forall>slot < kMaximumPlayers. slot \<noteq> unat (au_local_slot (rc_authority x)) \<longrightarrow> gb_armed b ! slot \<longrightarrow>
        F slot (gb_scene_epoch b) (gb_map b) (gb_racer_count b)) \<and>
     (gb_go_released b \<longrightarrow> all_slots (ss_players (rc_session x)) (gb_armed b))"

lemma host_current:
  assumes "host_ok e s0 F x" "rc_barrier x = Some b"
  shows "fits s0 b x" "justified F b x"
  using assms fits_current [of e s0 "boundary_of x" x b] by (auto simp: host_ok_def justified_def Let_def)

lemma host_barrier:
  assumes "host_ok e s0 F x" "fits s0 b x" "justified F b x"
  shows "host_moves e s0 F x [] (set_barrier b x)"
proof -
  have r: "racer_ok e s0 (boundary_of x) x" using assms(1) by (simp add: host_ok_def Let_def)
  have "released x \<longrightarrow> gb_go_released b" using assms(2) by (simp add: fits_def)
  then have "host_ok e s0 F (set_barrier b x)"
    using assms(1,3) fits_racer [OF r assms(2)] unfolding host_ok_def Let_def justified_def by auto
  then show ?thesis using fits_evolves [OF assms(2)] by (simp add: host_moves_def)
qed

lemma follower_barrier:
  assumes "follower_ok e s0 bound go x" "fits s0 b x" "gb_go_released b \<longrightarrow> go"
  shows "follower_moves e s0 bound go x [] (set_barrier b x)"
proof -
  have r: "racer_ok e s0 bound x" using assms(1) by (simp add: follower_ok_def)
  show ?thesis
    using assms(1,3) fits_racer [OF r assms(2)] fits_evolves [OF assms(2)] by (simp add: follower_moves_def follower_ok_def)
qed

lemma host_says:
  assumes "host_moves e s0 F x [] y" "list_all (host_message_ok e s0 (boundary_of y) (released y)) (host_posts sent)"
  shows "host_moves e s0 F x sent y" "host_moves e s0 F x sent (announced now y)"
  using assms by (simp_all add: host_moves_def)

lemma follower_says:
  "follower_moves e s0 bound go x [] y \<Longrightarrow> list_all (follower_message_ok s0 y) (follower_posts sent) \<Longrightarrow>
     follower_moves e s0 bound go x sent y"
  by (simp add: follower_moves_def)

text \<open>A machine that polls for readiness has not armed.\<close>

lemma entered_unarmed:
  "handoff_ok e bound (rc_session x) \<Longrightarrow> handoff_entered level (rc_authority x) (rc_ledger x) \<Longrightarrow> \<not> armed x"
  by (auto simp: handoff_ok_def handoff_entered_def armed_def Let_def split: option.splits)

lemma new_barrier_fits:
  assumes "racer_ok e s0 bound x" "\<not> armed x" "host \<longrightarrow> s0 < au_scene_epoch (rc_authority x)"
  shows "fits s0 (new_barrier (au_scene_epoch (rc_authority x)) level racers host) x"
  using assms not_armed(1) [OF assms(1,2)] by (simp add: fits_def new_barrier_def racer_ok_def)

lemma ready_flag:
  "fits s0 (b\<lparr>gb_ready := (gb_ready b)[k := v]\<rparr>) x = fits s0 b x"
  "fits s0 (b\<lparr>gb_ready := r, gb_baseline_released := v\<rparr>) x = fits s0 (b\<lparr>gb_ready := r\<rparr>) x"
  "fits s0 (b\<lparr>gb_baseline_released := v\<rparr>) x = fits s0 b x" "fits s0 (b\<lparr>gb_arm_announced := v\<rparr>) x = fits s0 b x"
  "justified F (b\<lparr>gb_ready := r\<rparr>) x = justified F b x" "justified F (b\<lparr>gb_baseline_released := v\<rparr>) x = justified F b x"
  "justified F (b\<lparr>gb_arm_announced := v\<rparr>) x = justified F b x"
  "justified F (b\<lparr>gb_ready := r, gb_baseline_released := v\<rparr>) x = justified F b x"
  by (simp_all add: fits_def justified_def)

lemma set_set_barrier [simp]: "set_barrier c (set_barrier b x) = set_barrier c x"
  by (simp add: set_barrier_def)

lemma service_ready_host:
  assumes "host_ok e s0 F x" "fits s0 b x" "justified F b x" "service_ready now b x = (r, sent, y)"
  shows "host_moves e s0 F x sent y"
proof -
  have h: "au_is_host (rc_authority x)" using assms(1) by (simp add: host_ok_def Let_def)
  let ?b = "b\<lparr>gb_ready := (gb_ready b)[unat (au_local_slot (rc_authority x)) := True]\<rparr>"
  let ?c = "?b\<lparr>gb_baseline_released := True\<rparr>"
  have m: "host_moves e s0 F x [] (set_barrier ?b x)" "host_moves e s0 F x [] (set_barrier ?c x)"
    using host_barrier [OF assms(1), of ?b] host_barrier [OF assms(1), of ?c] assms(2,3) by (simp_all add: ready_flag)
  have p: "list_all (host_message_ok e s0 bound go) (host_posts (replicate n (Broadcast MsgGameplayBarrier
      (barrier_message stage k l c a) 0)))" if "stage \<noteq> BarrierGo" for stage k l c a bound go n
    using that by (auto simp: list_all_iff intro!: barrier_posts(1))
  show ?thesis
    using assms(4) h m host_says(2) [OF m(1) p] host_says(2) [OF m(2) p]
    unfolding service_ready_def Let_def by (auto split: if_splits)
qed

lemma service_ready_follower:
  assumes "follower_ok e s0 bound go x" "fits s0 b x" "gb_go_released b \<longrightarrow> go" "service_ready now b x = (r, sent, y)"
  shows "follower_moves e s0 bound go x sent y"
proof -
  have h: "\<not> au_is_host (rc_authority x)" using assms(1) by (simp add: follower_ok_def)
  let ?b = "b\<lparr>gb_ready := (gb_ready b)[unat (au_local_slot (rc_authority x)) := True]\<rparr>"
  have m: "follower_moves e s0 bound go x [] (set_barrier ?b x)"
    using follower_barrier [OF assms(1), of ?b] assms(2,3) by (simp add: ready_flag)
  have y: "y = (set_barrier ?b x)\<lparr>rc_start := rc_start y\<rparr>"
    "st_last_host_scene_epoch (rc_start y) = st_last_host_scene_epoch (rc_start x)"
    using assms(4) h unfolding service_ready_def Let_def by (auto simp: set_barrier_def split: if_splits)
  have ok: "follower_ok e s0 bound go y" "evolves x y"
    using m y(2) follower_ok_start [of "rc_start y" "set_barrier ?b x" e s0 bound go] start_irrelevant(7) [where y = x and x = "set_barrier ?b x" and st = "rc_start y"]
    unfolding y(1) [symmetric] by (simp_all add: follower_moves_def)
  have "list_all (follower_message_ok s0 y) (follower_posts sent)"
    using assms(4) h unfolding service_ready_def Let_def by (auto intro!: barrier_posts(2) split: if_splits)
  then show ?thesis using ok by (simp add: follower_moves_def)
qed

lemma poll_ready_cases:
  assumes "poll_gameplay_ready requested level racers now x = (r, m, sent, y)"
  obtains (unchanged) "y = x" "sent = []"
  | (conflict) message where "fail_racer message x = (sent, y)"
  | (served) b where "handoff_entered requested (rc_authority x) (rc_ledger x)"
      "au_authoritative_phase_active (rc_authority x)" "service_ready now b x = (r, sent, y)"
      "rc_barrier x = Some b \<or> rc_barrier x = None \<and>
         b = new_barrier (au_scene_epoch (rc_authority x)) level racers (au_is_host (rc_authority x))"
  using assms unfolding poll_gameplay_ready_def Let_def by (auto split: if_splits option.splits prod.splits)

lemma poll_ready_host:
  assumes "host_ok e s0 F x" "poll_gameplay_ready requested level racers now x = (r, m, sent, y)"
  shows "host_moves e s0 F x sent y"
  using assms(2)
proof (cases rule: poll_ready_cases)
  case (served b)
  have r: "racer_ok e s0 (boundary_of x) x" "au_is_host (rc_authority x)" "s0 < au_scene_epoch (rc_authority x)"
    using assms(1) served(2) by (auto simp: host_ok_def Let_def)
  have "\<not> armed x" using r(1) served(1) entered_unarmed by (auto simp: racer_ok_def)
  then have n: "fits s0 (new_barrier (au_scene_epoch (rc_authority x)) level racers True) x"
    "justified F (new_barrier (au_scene_epoch (rc_authority x)) level racers True) x"
    using new_barrier_fits [OF r(1), of True] r(3) by (simp_all add: justified_def new_barrier_def)
  have "fits s0 b x" "justified F b x" using served(4) n r(2) host_current [OF assms(1)] by auto
  then show ?thesis using service_ready_host [OF assms(1) _ _ served(3)] by simp
qed (use moves_refl(1) [OF assms(1)] host_fail [OF assms(1)] in auto)

lemma poll_ready_follower:
  assumes "follower_ok e s0 bound go x" "poll_gameplay_ready requested level racers now x = (r, m, sent, y)"
  shows "follower_moves e s0 bound go x sent y"
  using assms(2)
proof (cases rule: poll_ready_cases)
  case (served b)
  have r: "racer_ok e s0 bound x" "\<not> au_is_host (rc_authority x)" using assms(1) by (simp_all add: follower_ok_def)
  have "\<not> armed x" using r(1) served(1) entered_unarmed by (auto simp: racer_ok_def)
  then have "fits s0 (new_barrier (au_scene_epoch (rc_authority x)) level racers False) x"
    using new_barrier_fits [OF r(1), of False] by simp
  moreover have "fits s0 c x \<and> (gb_go_released c \<longrightarrow> go)" if "rc_barrier x = Some c" for c
    using fits_current [OF r(1) that] assms(1) that by (simp add: follower_ok_def released_def)
  ultimately have "fits s0 b x" "gb_go_released b \<longrightarrow> go"
    using served(4) r(2) by (auto simp: new_barrier_def)
  then show ?thesis using service_ready_follower [OF assms(1) _ _ served(3)] by simp
qed (use moves_refl(2) [OF assms(1)] follower_fail [OF assms(1)] in auto)

text \<open>Remembered releases.\<close>

lemma host_releases:
  assumes "host_ok e s0 F x" "\<forall>entry \<in> set (st_completed_releases st).
      entry \<in> set (st_completed_releases (rc_start x)) \<or> released x"
  shows "host_ok e s0 F (x\<lparr>rc_start := st\<rparr>)"
  using assms by (auto simp: host_ok_def Let_def)

lemma remember_release_start:
  "\<exists>st. remember_release t k l c peers now x = x\<lparr>rc_start := st\<rparr> \<and>
     st_last_host_scene_epoch st = st_last_host_scene_epoch (rc_start x)"
  by (auto simp: remember_release_def completed_release_def Let_def)

lemma remember_host:
  assumes "host_ok e s0 F x" "released x"
  shows "host_moves e s0 F x [] (remember_release t k l c peers now x)"
proof -
  obtain st where s: "remember_release t k l c peers now x = x\<lparr>rc_start := st\<rparr>"
    using remember_release_start [of t k l c peers now x] by blast
  have "host_ok e s0 F (x\<lparr>rc_start := st\<rparr>)" using host_releases [OF assms(1)] assms(2) by blast
  then show ?thesis unfolding s by (simp add: host_moves_def)
qed

lemma arm_host:
  assumes "host_ok e s0 F x" "arm_gameplay_handoff now x = (r, sent, y)" "rc_barrier x = Some b"
  shows "host_moves e s0 F x [] y \<and> sent = []"
proof -
  have r: "racer_ok e s0 (boundary_of x) x" and h: "au_is_host (rc_authority x)" and j: "justified F b x"
    using assms(1) host_current(2) [OF assms(1,3)] by (simp_all add: host_ok_def Let_def)
  have sync: "gb_epoch_synchronized b" using j by (simp add: justified_def)
  note a = arm_racer [OF r assms(2,3) sync]
  let ?slot = "unat (au_local_slot (rc_authority x))"
  obtain flags where f: "rc_barrier y = Some (b\<lparr>gb_armed := flags\<rparr>)"
    "flags \<in> {gb_armed b, (gb_armed b)[?slot := True]}" using a(10) by blast
  have "?slot < length (gb_armed b)"
    using r host_current(1) [OF assms(1,3)] by (simp add: racer_ok_def fits_def)
  then have "gb_armed b ! k \<longrightarrow> flags ! k" "k \<noteq> ?slot \<Longrightarrow> flags ! k = gb_armed b ! k" for k
    using f(2) by (auto simp: nth_list_update)
  then have j2: "justified F (b\<lparr>gb_armed := flags\<rparr>) y"
    using j evolvesD(5,8) [OF a(2)] by (auto simp: justified_def all_slots_def list_all_iff)
  have u: "lg_next_commit_frame (rc_ledger y) = gh_boundary_frame h"
    if "au_gameplay_handoff (rc_authority y) = Some h" "\<not> gh_armed h" for h
    using a(13) that assms(1) by (auto simp: host_ok_def Let_def)
  have w: "gh_resume_input_epoch h \<noteq> 0" if "au_gameplay_handoff (rc_authority y) = Some h" for h
  proof (cases "y = x")
    case False
    then have "armed y" using a(13) that by (auto simp: armed_def)
    then show ?thesis using a(1) that by (auto simp: armed_def racer_ok_def handoff_ok_def Let_def split: if_splits)
  qed (use assms(1) that in \<open>auto simp: host_ok_def Let_def\<close>)
  have "host_ok e s0 F y"
    using assms(1) a(1,3,5,6,8,9) evolvesD(4,5,8) [OF a(2)] u w j2 f(1)
    unfolding host_ok_def Let_def justified_def by simp
  then show ?thesis using a(2,3,11) h by (auto simp: host_moves_def)
qed

lemma resumed_host:
  "host_moves e s0 F x sent (y\<lparr>rc_start := (rc_start y)\<lparr>st_gameplay_resume_until := now\<rparr>\<rparr>) = host_moves e s0 F x sent y"
  by (simp add: host_moves_def host_ok_start)

lemma host_says_replicate:
  assumes "host_moves e s0 F x [] y" "stage = BarrierGo \<Longrightarrow> released y"
  shows "host_moves e s0 F x (replicate n (Broadcast MsgGameplayBarrier (barrier_message stage k l c a) 0)) y"
    "host_moves e s0 F x (replicate n (Broadcast MsgGameplayBarrier (barrier_message stage k l c a) 0)) (announced now y)"
  by (rule host_says [OF assms(1)], use assms(2) in \<open>auto simp: list_all_iff intro!: barrier_posts(1)\<close>)+

lemma go_host:
  assumes "host_ok e s0 F x" "rc_barrier x = Some b" "all_slots (ss_players (rc_session x)) (gb_armed b)"
  shows "host_moves e s0 F x [] (remember_release t k l c peers now (set_barrier (b\<lparr>gb_go_released := True\<rparr>) x))"
    "released (remember_release t k l c peers now (set_barrier (b\<lparr>gb_go_released := True\<rparr>) x))"
proof -
  note cur = host_current [OF assms(1,2)]
  let ?z = "set_barrier (b\<lparr>gb_go_released := True\<rparr>) x"
  let ?slot = "unat (au_local_slot (rc_authority x))"
  have "?slot < length (ss_players (rc_session x))" "pl_occupied (ss_players (rc_session x) ! ?slot)"
    using assms(1) by (simp_all add: host_ok_def racer_ok_def Let_def)
  then have "gb_armed b ! ?slot" using assms(3) by (simp add: all_slots_def list_all_iff)
  then have "fits s0 (b\<lparr>gb_go_released := True\<rparr>) x" "justified F (b\<lparr>gb_go_released := True\<rparr>) x"
    using cur assms(3) unfolding fits_def justified_def by auto
  then have m: "host_moves e s0 F x [] ?z" by (rule host_barrier [OF assms(1)])
  then have "host_moves e s0 F ?z [] (remember_release t k l c peers now ?z)"
    by (intro remember_host) (simp_all add: host_moves_def)
  then show "host_moves e s0 F x [] (remember_release t k l c peers now ?z)"
    using host_moves_trans [OF m] by fastforce
  obtain st where "remember_release t k l c peers now ?z = ?z\<lparr>rc_start := st\<rparr>" using remember_release_start by blast
  then show "released (remember_release t k l c peers now ?z)" by simp
qed

lemma resume_host_moves:
  assumes "host_ok e s0 F x" "rc_barrier x = Some b" "resume_host peers now b x = (r, m, sent, y)"
  shows "host_moves e s0 F x sent y"
proof (cases "0 \<in> set (tf_fully_acknowledged_states (rc_transfer x))")
  case False
  then show ?thesis using assms(3) moves_refl(1) [OF assms(1)] by (simp add: resume_host_def Let_def)
next
  case acked: True
  let ?a = "rc_authority x"
  let ?resumed = "\<lambda>x. x\<lparr>rc_start := (rc_start x)\<lparr>st_gameplay_resume_until := now + seconds 2\<rparr>\<rparr>"
  let ?arm = "replicate 5 (Broadcast MsgGameplayBarrier
    (barrier_message BarrierArm (au_scene_epoch ?a) (gb_map b) (gb_racer_count b) ?a) 0)"
  let ?z = "set_barrier (b\<lparr>gb_arm_announced := True\<rparr>) x"
  obtain armed1 sent1 x1 where one: "(if gb_arm_announced b then (Inr 0, [], x)
      else case arm_gameplay_handoff now ?z of
          (Inl e, sent, x) \<Rightarrow> (Inl e, sent, x)
        | (Inr resume_frame, sent, x) \<Rightarrow> (Inr resume_frame, sent @ ?arm, ?resumed (announced now x)))
      = (armed1 :: u32 result, sent1, x1)" by (rule prod_cases3) (rule that, assumption)
  have m1: "host_moves e s0 F x sent1 x1"
  proof (cases "gb_arm_announced b")
    case True
    then show ?thesis using one moves_refl(1) [OF assms(1)] by simp
  next
    case False
    obtain r2 s2 z2 where arm: "arm_gameplay_handoff now ?z = (r2, s2, z2)" by (metis prod_cases3)
    have mz: "host_moves e s0 F x [] ?z"
      using host_barrier [OF assms(1), of "b\<lparr>gb_arm_announced := True\<rparr>"] host_current [OF assms(1,2)] by (simp add: ready_flag)
    then have z: "host_ok e s0 F ?z" by (simp add: host_moves_def)
    have "host_moves e s0 F ?z [] z2 \<and> s2 = []" by (rule arm_host [OF z arm]) simp
    then have m2: "host_moves e s0 F x [] z2" "s2 = []" using host_moves_trans [OF mz, of "[]" z2] by auto
    show ?thesis
      using one False arm m2 host_says_replicate(2) [OF m2(1), of BarrierArm] resumed_host
      by (auto split: sum.splits)
  qed
  have ok1: "host_ok e s0 F x1" using m1 by (simp add: host_moves_def)
  have "(case (armed1, rc_barrier x1) of
      (Inr _, Some b1) \<Rightarrow>
        if \<not> all_slots (ss_players (rc_session x1)) (gb_armed b1) then (PollPending, [], sent1, x1)
        else if gb_go_released b1 then (PollReady, [], sent1, x1)
        else (PollReady, [], sent1 @ replicate 5 (Broadcast MsgGameplayBarrier
            (barrier_message BarrierGo (au_scene_epoch ?a) (gb_map b) (gb_racer_count b) ?a) 0),
          ?resumed (announced now (remember_release MsgGameplayBarrier (au_scene_epoch ?a)
            (gb_map b1) (gb_racer_count b1) peers now (set_barrier (b1\<lparr>gb_go_released := True\<rparr>) x1))))
    | (Inl e, _) \<Rightarrow> (PollFailed, e, sent1, x1)
    | (Inr _, None) \<Rightarrow> (PollPending, [], sent1, x1)) = (r, m, sent, y)"
    using assms(3) acked one unfolding resume_host_def Let_def by (simp split: if_splits)
  then show ?thesis
    using m1 host_moves_trans [OF m1] host_says_replicate(2) [OF go_host(1) [OF ok1]] go_host(2) [OF ok1] resumed_host
    by (auto split: sum.splits option.splits if_splits)
qed

lemma poll_resume_host:
  assumes "host_ok e s0 F x" "poll_gameplay_resume level racers peers now x = (r, m, sent, y)"
  shows "host_moves e s0 F x sent y"
proof -
  have h: "au_is_host (rc_authority x)" using assms(1) by (simp add: host_ok_def Let_def)
  have "y = x \<and> sent = [] \<or> (\<exists>b. rc_barrier x = Some b \<and> resume_host peers now b x = (r, m, sent, y))"
    using assms(2) h unfolding poll_gameplay_resume_def Let_def by (auto split: option.splits if_splits)
  then show ?thesis using moves_refl(1) [OF assms(1)] resume_host_moves [OF assms(1)] by blast
qed

lemma armed_posts:
  assumes "armed y" "rc_barrier y \<noteq> None"
  shows "follower_message_ok s0 y (MsgGameplayBarrier, armed_message y)"
  using assms by (auto simp: armed_message_def in_scene_def intro!: barrier_posts(2))

lemma resume_follower_moves:
  assumes "follower_ok e s0 bound go x" "rc_barrier x = Some b" "gb_epoch_synchronized b"
    "resume_guest peers now b x = (r, m, sent, y)"
  shows "follower_moves e s0 bound go x sent y"
proof -
  have rk: "racer_ok e s0 bound x" using assms(1) by (simp add: follower_ok_def)
  obtain r1 s1 x1 where arm: "(if gb_arm_announced b \<and> \<not> gb_armed b ! unat (au_local_slot (rc_authority x))
      then arm_gameplay_handoff now x else (Inr 0, [], x)) = (r1, s1, x1)" by (rule prod_cases3) (rule that, assumption)
  have m1: "follower_moves e s0 bound go x s1 x1"
  proof (cases "gb_arm_announced b \<and> \<not> gb_armed b ! unat (au_local_slot (rc_authority x))")
    case True
    then have "arm_gameplay_handoff now x = (r1, s1, x1)" using arm by simp
    note a = arm_racer [OF rk this assms(2,3)]
    have "s1 = [] \<or> armed x1 \<and> s1 = replicate 5 (ToHost MsgGameplayBarrier (armed_message x1) 0)" "rc_barrier x1 \<noteq> None"
      using a(10,11) by auto
    then have "list_all (follower_message_ok s0 x1) (follower_posts s1)"
      using armed_posts [of x1 s0] by (auto simp: list_all_iff)
    then show ?thesis
      using assms(1) a(1,2,5,7) evolvesD(4) [OF a(2)] by (simp add: follower_moves_def follower_ok_def)
  next
    case False
    then have "s1 = []" "x1 = x" using arm by (simp_all split: if_splits)
    then show ?thesis using moves_refl(2) [OF assms(1)] by simp
  qed
  have "y = x1 \<and> sent = s1 \<or> (\<exists>k l c. y = remember_release MsgGameplayBarrier k l c peers now x1 \<and> sent = s1)"
    using assms(4) arm unfolding resume_guest_def by (auto split: sum.splits if_splits)
  then show ?thesis
  proof (elim disjE exE conjE)
    fix k l c assume "y = remember_release MsgGameplayBarrier k l c peers now x1" and s: "sent = s1"
    then obtain st where "y = x1\<lparr>rc_start := st\<rparr>" "st_last_host_scene_epoch st = st_last_host_scene_epoch (rc_start x1)"
      using remember_release_start by metis
    then have "follower_moves e s0 bound go x1 [] y" using m1 by (simp add: follower_moves_def follower_ok_start)
    then show ?thesis using follower_moves_trans [OF m1] s by fastforce
  qed (use m1 in simp)
qed

lemma poll_resume_follower:
  assumes "follower_ok e s0 bound go x" "poll_gameplay_resume level racers peers now x = (r, m, sent, y)"
  shows "follower_moves e s0 bound go x sent y"
proof -
  have h: "\<not> au_is_host (rc_authority x)" using assms(1) by (simp add: follower_ok_def)
  have "y = x \<and> sent = [] \<or>
      (\<exists>b. rc_barrier x = Some b \<and> gb_epoch_synchronized b \<and> resume_guest peers now b x = (r, m, sent, y))"
    using assms(2) h unfolding poll_gameplay_resume_def Let_def by (auto split: option.splits if_splits)
  then show ?thesis using moves_refl(2) [OF assms(1)] resume_follower_moves [OF assms(1)] by blast
qed

subsection \<open>Packets of the barrier\<close>

lemma completed_release_start:
  assumes "completed_release t k l c recipient now x = (known, y)"
  obtains st where "y = x\<lparr>rc_start := st\<rparr>" "set (st_completed_releases st) \<subseteq> set (st_completed_releases (rc_start x))"
    "known \<longrightarrow> (\<exists>entry \<in> set (st_completed_releases (rc_start x)). cr_type entry = t \<and> cr_epoch entry = k)"
proof (rule that [of "(rc_start x)\<lparr>st_completed_releases := live_releases now x\<rparr>"])
  show "known \<longrightarrow> (\<exists>entry \<in> set (st_completed_releases (rc_start x)). cr_type entry = t \<and> cr_epoch entry = k)"
    using assms by (auto simp: completed_release_def live_releases_def list_ex_iff Let_def)
qed (use assms in \<open>auto simp: completed_release_def live_releases_def Let_def\<close>)

lemma set_flag: "flags[n := True] ! k \<Longrightarrow> k = n \<or> flags ! k"
  by (cases "k = n") simp_all

lemma barrier_packet_host:
  assumes "host_ok e s0 F x" "handle_barrier_host peer sender payload now x = (sent, y)"
    "\<And>p. decode_gameplay_barrier payload = Inr p \<Longrightarrow> s0 < GameplayBarrierPayload.gb_scene_epoch p \<Longrightarrow>
      gb_stage p = BarrierArmed \<Longrightarrow> F (unat peer) (GameplayBarrierPayload.gb_scene_epoch p)
        (GameplayBarrierPayload.gb_map p) (GameplayBarrierPayload.gb_racer_count p)"
    "peer \<noteq> au_local_slot (rc_authority x)"
  shows "host_moves e s0 F x sent y"
proof (cases "y = x \<and> sent = []")
  case True
  then show ?thesis using moves_refl(1) [OF assms(1)] by simp
next
  case False
  obtain p where p: "decode_gameplay_barrier payload = Inr p" "gb_player_slot p = peer" "gb_stage p \<in> {BarrierReady, BarrierArmed}"
    using False assms(2) unfolding handle_barrier_host_def Let_def by (auto split: sum.splits if_splits)
  let ?k = "GameplayBarrierPayload.gb_scene_epoch p" let ?l = "GameplayBarrierPayload.gb_map p"
  let ?c = "GameplayBarrierPayload.gb_racer_count p"
  obtain known z where z: "completed_release MsgGameplayBarrier ?k ?l ?c sender now x = (known, z)" by fastforce
  obtain st where st: "z = x\<lparr>rc_start := st\<rparr>" "set (st_completed_releases st) \<subseteq> set (st_completed_releases (rc_start x))"
    "known \<longrightarrow> (\<exists>entry \<in> set (st_completed_releases (rc_start x)). cr_type entry = MsgGameplayBarrier \<and> cr_epoch entry = ?k)"
    by (rule completed_release_start [OF z])
  have zok: "host_ok e s0 F z" unfolding st(1) using st(2) by (intro host_releases [OF assms(1)]) blast
  have mz: "host_moves e s0 F x [] z" using zok st(1) by (simp add: host_moves_def)
  show ?thesis
  proof (cases known)
    case True
    then have "released x" if "s0 < ?k" using st(3) that assms(1) by (auto simp: host_ok_def Let_def)
    then have "host_message_ok e s0 (boundary_of z) (released z)
        (MsgGameplayBarrier, barrier_message BarrierGo ?k ?l ?c (rc_authority x))"
      using st(1) by (intro barrier_posts(1)) simp
    moreover have "sent = [ToPeer peer MsgGameplayBarrier (barrier_message BarrierGo ?k ?l ?c (rc_authority x)) 0]" "y = z"
      using True assms(2) p z unfolding handle_barrier_host_def Let_def by (auto split: if_splits)
    ultimately show ?thesis using mz by (simp add: host_moves_def)
  next
    case kn: False
    have "(y = z \<and> sent = []) \<or> (\<exists>b. rc_barrier x = Some b \<and> sent = [] \<and>
        ?k = gb_scene_epoch b \<and> ?l = gb_map b \<and> ?c = gb_racer_count b \<and>
        (y = set_barrier (b\<lparr>gb_ready := (gb_ready b)[unat peer := True]\<rparr>) z \<or>
         gb_stage p = BarrierArmed \<and> \<not> gb_go_released b \<and>
         y = set_barrier (b\<lparr>gb_armed := (gb_armed b)[unat peer := True]\<rparr>) z))"
      using assms(2) p z kn st(1) unfolding handle_barrier_host_def Let_def by (auto split: option.splits if_splits)
    then consider (same) "y = z" "sent = []"
      | (ready) b where "rc_barrier x = Some b" "sent = []" "y = set_barrier (b\<lparr>gb_ready := (gb_ready b)[unat peer := True]\<rparr>) z"
      | (arms) b where "rc_barrier x = Some b" "sent = []" "?k = gb_scene_epoch b" "?l = gb_map b" "?c = gb_racer_count b"
          "gb_stage p = BarrierArmed" "\<not> gb_go_released b" "y = set_barrier (b\<lparr>gb_armed := (gb_armed b)[unat peer := True]\<rparr>) z"
      by blast
    then show ?thesis
    proof cases
      case same
      then show ?thesis using mz by simp
    next
      case (ready b)
      have cur: "fits s0 b z" "justified F b z" using host_current [OF zok, of b] ready(1) st(1) by auto
      have "host_moves e s0 F z [] y"
        unfolding ready(3) by (rule host_barrier [OF zok]) (use cur in \<open>simp_all add: ready_flag\<close>)
      then show ?thesis using host_moves_trans [OF mz] ready(2) by fastforce
    next
      case (arms b)
      have cur: "fits s0 b z" "justified F b z" using host_current [OF zok, of b] arms(1) st(1) by auto
      have slot: "unat peer \<noteq> unat (au_local_slot (rc_authority z))"
        using assms(4) st(1) by (simp add: word_unat_eq_iff)
      have "s0 < ?k" unfolding arms(3) using cur unfolding fits_def justified_def by blast
      then have F: "F (unat peer) (gb_scene_epoch b) (gb_map b) (gb_racer_count b)" using assms(3) [OF p(1)] arms by simp
      have "fits s0 (b\<lparr>gb_armed := (gb_armed b)[unat peer := True]\<rparr>) z"
        using cur(1) slot unfolding fits_def by auto
      moreover have "justified F (b\<lparr>gb_armed := (gb_armed b)[unat peer := True]\<rparr>) z"
        using cur(2) arms(7) F unfolding justified_def by (auto dest!: set_flag)
      ultimately have "host_moves e s0 F z [] y" unfolding arms(8) by (rule host_barrier [OF zok])
      then show ?thesis using host_moves_trans [OF mz] arms(2) by fastforce
    qed
  qed
qed

lemma adopt_scene_follower:
  assumes "follower_ok e s0 bound go x" "rc_barrier x = Some b"
  shows "follower_moves e s0 bound go x [] (adopt_scene k b x)"
proof (cases "adopt_scene k b x = x")
  case True
  then show ?thesis using moves_refl(2) [OF assms(1)] by simp
next
  case False
  let ?b = "b\<lparr>gb_scene_epoch := k, gb_epoch_synchronized := True\<rparr>"
  let ?a = "(rc_authority x)\<lparr>au_scene_epoch := k\<rparr>"
  let ?y = "set_barrier ?b (x\<lparr>rc_session := (rc_session x)\<lparr>ss_authority := ?a\<rparr>,
     rc_start := (rc_start x)\<lparr>st_last_host_scene_epoch := k, st_last_gameplay_ready_announcement := 0\<rparr>\<rparr>)"
  have y: "adopt_scene k b x = ?y" and k: "k \<noteq> 0" "gb_epoch_synchronized b \<Longrightarrow> k = gb_scene_epoch b"
    "\<not> gb_epoch_synchronized b \<Longrightarrow> st_last_host_scene_epoch (rc_start x) = 0 \<or> st_last_host_scene_epoch (rc_start x) < k"
    using False unfolding adopt_scene_def Let_def by (auto split: if_splits)
  have ok: "racer_ok e s0 bound x" "s0 \<le> st_last_host_scene_epoch (rc_start x)" "\<not> au_is_host (rc_authority x)"
    "released x \<longrightarrow> go" using assms(1) by (simp_all add: follower_ok_def)
  note fit = fits_current [OF ok(1) assms(2)]
  have s0: "s0 < k"
  proof (cases "gb_epoch_synchronized b")
    case True
    then show ?thesis using fit k(2) unfolding fits_def by blast
  next
    case False
    then show ?thesis using k(1,3) ok(2) by (auto simp: word_greater_zero_iff)
  qed
  have ar: "armed ?y = armed x" by (simp add: armed_def)
  have u: "gb_epoch_synchronized b" if "armed x" using fit that unfolding fits_def by blast
  have hk: "handoff_ok e bound ((rc_session x)\<lparr>ss_authority := ?a\<rparr>)"
    using ok(1) unfolding racer_ok_def handoff_ok_def Let_def by (auto simp: fresh_ledger_def split: option.splits)
  have "barrier_ok s0 ?y"
    using fit s0 ar unfolding barrier_ok_def fits_def by simp
  then have "racer_ok e s0 bound ?y" using ok(1) hk by (simp add: racer_ok_def sound_failure_def)
  moreover have "s0 \<le> k" using s0 by simp
  moreover have "released ?y = released x" using assms(2) by (simp add: released_def)
  moreover have "evolves x ?y"
    using u k(2) assms(2) ar by (auto simp: evolves_def Let_def in_scene_def released_def)
  ultimately show ?thesis using ok(3,4) unfolding y follower_moves_def follower_ok_def by simp
qed

lemma barrier_packet_follower:
  assumes "follower_ok e s0 bound go x" "handle_barrier_guest payload x = (sent, y)"
    "host_message_ok e s0 bound go (MsgGameplayBarrier, payload)"
  shows "follower_moves e s0 bound go x sent y"
proof -
  have rk: "racer_ok e s0 bound x" "released x \<longrightarrow> go" using assms(1) by (simp_all add: follower_ok_def)
  show ?thesis
  proof (cases "(\<exists>p. decode_gameplay_barrier payload = Inr p) \<and> rc_barrier x \<noteq> None")
    case False
    then have "handle_barrier_guest payload x = ([], x)"
      by (cases "decode_gameplay_barrier payload"; cases "rc_barrier x") (simp_all add: handle_barrier_guest_def)
    then show ?thesis using moves_refl(2) [OF assms(1)] assms(2) by simp
  next
    case True
    then obtain p b where p: "decode_gameplay_barrier payload = Inr p" and b: "rc_barrier x = Some b" by blast
    have fit: "fits s0 b x" and g: "gb_go_released b \<longrightarrow> go"
      using fits_current [OF rk(1) b] rk(2) b by (simp_all add: released_def)
    have m: "follower_moves e s0 bound go x [] (set_barrier (b\<lparr>gb_baseline_released := True\<rparr>) x)"
      "follower_moves e s0 bound go x [] (set_barrier (b\<lparr>gb_arm_announced := True\<rparr>) x)"
      using follower_barrier [OF assms(1)] fit g by (simp_all add: ready_flag)
    have r: "follower_moves e s0 bound go x [] (set_barrier (b\<lparr>gb_go_released := True\<rparr>) x)"
      if "gb_stage p = BarrierGo" "gb_epoch_synchronized b" "GameplayBarrierPayload.gb_scene_epoch p = gb_scene_epoch b"
        "gb_armed b ! unat (au_local_slot (rc_authority x))"
    proof -
      have "s0 < gb_scene_epoch b" "fits s0 (b\<lparr>gb_go_released := True\<rparr>) x"
        using fit that(2,4) unfolding fits_def by auto
      moreover have go if "s0 < gb_scene_epoch b"
        using assms(3) p \<open>gb_stage p = BarrierGo\<close> \<open>GameplayBarrierPayload.gb_scene_epoch p = gb_scene_epoch b\<close> that
        by (simp add: host_message_ok_def)
      ultimately show ?thesis using follower_barrier [OF assms(1)] by simp
    qed
    have "(y = x \<and> sent = []) \<or> (\<exists>m. fail_racer m x = (sent, y)) \<or>
       sent = [] \<and> y \<in> {adopt_scene (GameplayBarrierPayload.gb_scene_epoch p) b x,
         set_barrier (b\<lparr>gb_baseline_released := True\<rparr>) x, set_barrier (b\<lparr>gb_arm_announced := True\<rparr>) x} \<or>
       sent = [] \<and> y = set_barrier (b\<lparr>gb_go_released := True\<rparr>) x \<and> gb_stage p = BarrierGo \<and> gb_epoch_synchronized b \<and>
         GameplayBarrierPayload.gb_scene_epoch p = gb_scene_epoch b \<and> gb_armed b ! unat (au_local_slot (rc_authority x))"
      using assms(2) unfolding handle_barrier_guest_def Let_def p b option.case sum.case prod.case
      by (auto split: if_splits)
    then show ?thesis
      using moves_refl(2) [OF assms(1)] follower_fail [OF assms(1)] adopt_scene_follower [OF assms(1) b] m r by blast
  qed
qed

subsection \<open>What the network thread repeats\<close>

lemma service_handoff_cases:
  assumes "service_handoff now x = (goes, sent, y)"
  obtains (same) "y = x" "sent = []" | (failed) m where "fail_racer m x = (sent, y)"
  | (again) stage where "send_gameplay_handoff stage now x = (sent, y)"
  using assms unfolding service_handoff_def Let_def by (auto split: option.splits if_splits)

lemma service_barrier_host:
  assumes "host_ok e s0 F x" "service_barrier now x = (sent, y)"
  shows "host_moves e s0 F x sent y"
proof -
  have h: "au_is_host (rc_authority x)" using assms(1) by (simp add: host_ok_def Let_def)
  have "(y = x \<and> sent = []) \<or> (\<exists>stage k l c. y = announced now x \<and> (stage = BarrierGo \<longrightarrow> released x) \<and>
      sent = replicate 1 (Broadcast MsgGameplayBarrier (barrier_message stage k l c (rc_authority x)) 0))"
    using assms(2) h unfolding service_barrier_def Let_def replicate_Suc replicate_0 One_nat_def
    by (auto simp: released_def split: option.splits if_splits)
  then show ?thesis
    using moves_refl(1) [OF assms(1)] host_says_replicate(2) [OF moves_refl(1) [OF assms(1)]] by blast
qed

lemma service_barrier_follower:
  assumes "follower_ok e s0 bound go x" "service_barrier now x = (sent, y)"
  shows "follower_moves e s0 bound go x sent y"
proof -
  have h: "\<not> au_is_host (rc_authority x)" "racer_ok e s0 bound x" using assms(1) by (simp_all add: follower_ok_def)
  have flag: "gb_armed b ! unat (au_local_slot (rc_authority x)) = armed x" if "rc_barrier x = Some b" for b
    using fits_current [OF h(2) that] unfolding fits_def by blast
  have "(y = x \<and> sent = []) \<or> (armed x \<and> rc_barrier x \<noteq> None \<and> sent = [ToHost MsgGameplayBarrier (armed_message x) 0] \<and>
      y = x\<lparr>rc_start := (rc_start x)\<lparr>st_last_gameplay_resume_ack := now\<rparr>\<rparr>)"
    using assms(2) h(1) flag unfolding service_barrier_def Let_def
    by (auto simp: armed_message_def split: option.splits if_splits)
  then show ?thesis
  proof (elim disjE conjE)
    assume a: "armed x" "rc_barrier x \<noteq> None" "sent = [ToHost MsgGameplayBarrier (armed_message x) 0]"
      and y: "y = x\<lparr>rc_start := (rc_start x)\<lparr>st_last_gameplay_resume_ack := now\<rparr>\<rparr>"
    have "follower_message_ok s0 y m = follower_message_ok s0 x m" for m by (simp add: follower_message_ok_def y)
    then show ?thesis using armed_posts [OF a(1,2)] a(3) assms(1) y by (simp add: follower_moves_def follower_ok_start)
  qed (use moves_refl(2) [OF assms(1)] in simp)
qed

lemma service_host:
  assumes "host_ok e s0 F x" "service_start now x = (sent, y)"
  shows "host_moves e s0 F x sent y"
proof -
  obtain goes s1 z where one: "service_handoff now x = (goes, s1, z)" by (rule prod_cases3) (rule that, assumption)
  then have m: "host_moves e s0 F x s1 z"
    by (cases rule: service_handoff_cases)
      (use moves_refl(1) [OF assms(1)] host_fail [OF assms(1)] send_handoff_host [OF assms(1)] in auto)
  then have ok: "host_ok e s0 F z" by (simp add: host_moves_def)
  obtain s2 w where two: "service_barrier now z = (s2, w)" by fastforce
  show ?thesis
    using assms(2) one two m host_moves_trans [OF m service_barrier_host [OF ok two]]
    unfolding service_start_def by (cases goes) simp_all
qed

lemma service_follower:
  assumes "follower_ok e s0 bound go x" "service_start now x = (sent, y)"
  shows "follower_moves e s0 bound go x sent y"
proof -
  obtain goes s1 z where one: "service_handoff now x = (goes, s1, z)" by (rule prod_cases3) (rule that, assumption)
  then have m: "follower_moves e s0 bound go x s1 z"
    by (cases rule: service_handoff_cases)
      (use moves_refl(2) [OF assms(1)] follower_fail [OF assms(1)] send_handoff_follower [OF assms(1)] in auto)
  then have ok: "follower_ok e s0 bound go z" by (simp add: follower_moves_def)
  obtain s2 w where two: "service_barrier now z = (s2, w)" by fastforce
  show ?thesis
    using assms(2) one two m follower_moves_trans [OF m service_barrier_follower [OF ok two]]
    unfolding service_start_def by (cases goes) simp_all
qed

end
