(* ===== verification/Race_Match.thy ===== *)
theory Race_Match
  imports Race_Together
begin

section \<open>The race everybody starts\<close>

text \<open>
  Player 1, its guests and the network between them, from the moment a track is chosen to the
  release of the race. The network keeps every message of the handoff and of the barrier that
  was sent, and delivers any of them to anybody it was meant for, at any time, repeatedly or
  never; messages of other kinds, among them what the machines send of inputs, commits and
  states, arrive as calls with arbitrary content.
\<close>

subsection \<open>Calls and packets\<close>

datatype RacerCall =
    LoadTrack u32 u32 int
  | EnterScene
  | LeaveScene
  | WaitReady u32 u32 u32 int
  | WaitResume u32 u32 "(u8 \<times> u64) list" int
  | ServiceNetwork int
  | PlayFrame "u8 list" bool u32 PackedInput int int
  | MoveState TransferCall
  | InputArrives u8 bytes
  | CommitsArrive bytes u32

fun racer_call :: "RacerCall \<Rightarrow> Racer \<Rightarrow> Outgoing list \<times> Racer" where
  "racer_call (LoadTrack frame level now) x = snd (begin_gameplay_handoff frame level now x)"
| "racer_call EnterScene x = ([], begin_authoritative_phase x)"
| "racer_call LeaveScene x = end_authoritative_phase x"
| "racer_call (WaitReady requested level racers now) x = snd (snd (poll_gameplay_ready requested level racers now x))"
| "racer_call (WaitResume level racers peers now) x = snd (snd (poll_gameplay_resume level racers peers now x))"
| "racer_call (ServiceNetwork now) x = service_start now x"
| "racer_call (PlayFrame peers quick_join frame local_input sent_at now) x =
     (let (_, _, _, s) = synchronize_inputs peers quick_join frame local_input sent_at now (rc_session x)
      in ([], x\<lparr>rc_session := s\<rparr>))"
| "racer_call (MoveState call) x = ([], x\<lparr>rc_transfer := transfer_perform (rc_authority x) call (rc_transfer x)\<rparr>)"
| "racer_call (InputArrives peer payload) x =
     (let s = rc_session x; (_, d) = handle_input peer payload (ss_authority s) (ss_ledger s) (ss_delivery s)
      in ([], x\<lparr>rc_session := s\<lparr>ss_delivery := d\<rparr>\<rparr>))"
| "racer_call (CommitsArrive payload header_frame) x =
     (let s = rc_session x; (outcome, _, l) = handle_frame_commit payload header_frame (ss_authority s) (ss_ledger s);
          x = x\<lparr>rc_session := s\<lparr>ss_ledger := l\<rparr>\<rparr>
      in case outcome of Inl e \<Rightarrow> fail_racer e x | Inr _ \<Rightarrow> ([], x))"

text \<open>
  When the calls are made: Player 1 loads a track at the frame it authors next, as
  \<^verbatim>\<open>runtime_netplay.cpp\<close> does; nobody who has armed leaves the scene before the race; inputs
  are received by Player 1, commits by guests, and those of the new input epoch do not exist
  before the race, since Player 1 is parked (\<open>host_parked\<close>).
\<close>

fun racer_allows :: "RacerCall \<Rightarrow> Racer \<Rightarrow> bool" where
  "racer_allows (LoadTrack frame level now) x \<longleftrightarrow>
     (au_is_host (rc_authority x) \<longrightarrow> frame = lg_next_commit_frame (rc_ledger x))"
| "racer_allows EnterScene x \<longleftrightarrow> \<not> armed x \<and> au_scene_epoch (rc_authority x) \<noteq> 0xFFFFFFFF"
| "racer_allows LeaveScene x \<longleftrightarrow> \<not> armed x"
| "racer_allows (InputArrives peer payload) x \<longleftrightarrow> au_is_host (rc_authority x)"
| "racer_allows (CommitsArrive payload header_frame) x \<longleftrightarrow> \<not> au_is_host (rc_authority x) \<and>
     (armed x \<longrightarrow> foreign_commits payload (rc_authority x))"
| "racer_allows _ x \<longleftrightarrow> True"

definition host_packet :: "u8 \<Rightarrow> u64 \<Rightarrow> MessageType \<Rightarrow> bytes \<Rightarrow> int \<Rightarrow> Racer \<Rightarrow> Outgoing list \<times> Racer" where
  "host_packet peer sender message_type payload now x =
     (if message_type = MsgGameplayHandoff then handle_handoff_request peer payload now x
      else if message_type = MsgGameplayBarrier then handle_barrier_host peer sender payload now x
      else ([], x))"

definition guest_packet :: "MessageType \<Rightarrow> bytes \<Rightarrow> int \<Rightarrow> Racer \<Rightarrow> Outgoing list \<times> Racer" where
  "guest_packet message_type payload now x =
     (if message_type = MsgGameplayHandoff then handle_handoff_suspend payload now x
      else if message_type = MsgGameplayBarrier then handle_barrier_guest payload x
      else ([], x))"

record World =
  wd_host :: Racer
  wd_guests :: "Racer list"
  wd_from_host :: "(MessageType \<times> bytes) list"
  wd_from_guests :: "(nat \<times> MessageType \<times> bytes) list"

datatype StartEvent =
    HostCall RacerCall
  | GuestCall nat RacerCall
  | HostReceives nat u64 int
  | GuestReceives nat nat int

definition host_step :: "World \<Rightarrow> Outgoing list \<times> Racer \<Rightarrow> World" where
  "host_step W outcome = W\<lparr>wd_host := snd outcome, wd_from_host := wd_from_host W @ host_posts (fst outcome)\<rparr>"

definition guest_step :: "nat \<Rightarrow> World \<Rightarrow> Outgoing list \<times> Racer \<Rightarrow> World" where
  "guest_step n W outcome = W\<lparr>wd_guests := (wd_guests W)[n := snd outcome],
     wd_from_guests := wd_from_guests W @ map (Pair n) (follower_posts (fst outcome))\<rparr>"

abbreviation slot_of :: "Racer \<Rightarrow> u8" where
  "slot_of x \<equiv> au_local_slot (rc_authority x)"

fun start_perform :: "StartEvent \<Rightarrow> World \<Rightarrow> World" where
  "start_perform (HostCall call) W =
     (if racer_allows call (wd_host W) then host_step W (racer_call call (wd_host W)) else W)"
| "start_perform (GuestCall n call) W =
     (if n < length (wd_guests W) \<and> racer_allows call (wd_guests W ! n)
      then guest_step n W (racer_call call (wd_guests W ! n)) else W)"
| "start_perform (HostReceives k sender now) W =
     (if k < length (wd_from_guests W)
      then let (n, message_type, payload) = wd_from_guests W ! k
           in host_step W (host_packet (slot_of (wd_guests W ! n)) sender message_type payload now (wd_host W))
      else W)"
| "start_perform (GuestReceives n k now) W =
     (if n < length (wd_guests W) \<and> k < length (wd_from_host W)
      then let (message_type, payload) = wd_from_host W ! k
           in guest_step n W (guest_packet message_type payload now (wd_guests W ! n))
      else W)"

text \<open>Before: a session that plays its menus in input epoch \<open>e\<close>, after scene \<open>s0\<close> of Player 1.\<close>

definition waits :: "u32 \<Rightarrow> Racer \<Rightarrow> bool" where
  "waits e x \<longleftrightarrow> au_input_epoch (rc_authority x) = e \<and> au_gameplay_handoff (rc_authority x) = None \<and>
     rc_barrier x = None \<and> ss_failure (rc_session x) = [] \<and> timeline_inv (dl_timeline (ss_delivery (rc_session x))) \<and>
     unat (slot_of x) < kMaximumPlayers \<and> length (ss_players (rc_session x)) = kMaximumPlayers"

definition start_opening :: "u32 \<Rightarrow> u32 \<Rightarrow> World \<Rightarrow> bool" where
  "start_opening e s0 W \<longleftrightarrow> (let host = wd_host W; a = rc_authority host in
     waits e host \<and> au_is_host a \<and> au_scene_epoch a = s0 \<and> \<not> au_authoritative_phase_active a \<and>
     (case au_launch_descriptor a of Some d \<Rightarrow> valid_launch_descriptor d | None \<Rightarrow> False) \<and>
     pl_occupied (ss_players (rc_session host) ! unat (au_local_slot a)) \<and>
     list_all (\<lambda>entry. cr_epoch entry \<le> s0) (st_completed_releases (rc_start host)) \<and>
     list_all (\<lambda>x. waits e x \<and> \<not> au_is_host (rc_authority x) \<and> same_match a (rc_authority x) \<and>
       slot_of x \<noteq> au_local_slot a \<and> pl_occupied (ss_players (rc_session host) ! unat (slot_of x)) \<and>
       st_last_host_scene_epoch (rc_start x) = s0) (wd_guests W) \<and>
     distinct (map slot_of (wd_guests W)) \<and>
     list_all (host_message_ok e s0 None False) (wd_from_host W) \<and>
     list_all (\<lambda>(n, m). n < length (wd_guests W) \<and> follower_message_ok s0 (wd_guests W ! n) m) (wd_from_guests W))"

subsection \<open>Every call is a move\<close>

text \<open>States travel past the barrier.\<close>

lemma wire_barrier: "tf_gameplay_barrier (snd (wire_state b f s a t)) = tf_gameplay_barrier t"
  by (simp add: wire_state_def Let_def)

lemma send_barrier:
  "tf_gameplay_barrier (snd (snd (send_authoritative_state takes transport peers d f state r m b a t))) = tf_gameplay_barrier t"
  by (simp add: send_authoritative_state_def Let_def split_beta wire_barrier)

lemma chunk_barrier [simp]: "tf_gameplay_barrier (snd (receive_chunk b f c a t)) = tf_gameplay_barrier t"
proof -
  have f: "tf_gameplay_barrier (finish_snapshot live f w s a u) = tf_gameplay_barrier u" for live w s u
    by (simp add: finish_snapshot_def Let_def)
  define entries where "entries = make_room f (assemblies b t)"
  define asm where "asm = (case map_of entries f of
      Some entry \<Rightarrow> if sn_chunk_count entry = 0 then fresh_assembly c else entry | None \<Rightarrow> fresh_assembly c)"
  show ?thesis
    unfolding receive_chunk_def Let_def entries_def [symmetric] asm_def [symmetric]
    by (simp add: f split: option.split)
qed

lemma retire_barrier [simp]: "tf_gameplay_barrier (retire_checkpoints f t) = tf_gameplay_barrier t"
  by (simp add: retire_checkpoints_def Let_def)

lemma replica_request_barrier: "tf_gameplay_barrier (snd (request_live_replica f ps now a t)) = tf_gameplay_barrier t"
  by (simp add: request_live_replica_def Let_def split_beta)

lemma transfer_call_barrier [simp]: "tf_gameplay_barrier (transfer_perform a call t) = tf_gameplay_barrier t"
proof (cases call)
  case (ReceiveSnapshot message_type payload l)
  then show ?thesis by (simp add: handle_snapshot_def Let_def split: sum.split)
next
  case (AnswerRequest takes transport peers peer payload)
  then show ?thesis
    by (simp add: handle_state_request_def Let_def split_beta send_barrier split: sum.split option.split)
next
  case (ReceiveAcknowledge peer payload players)
  then show ?thesis by (simp add: handle_state_acknowledge_def Let_def split: sum.split option.split)
next
  case (PublishState takes transport peers players frame state)
  then show ?thesis
    by (simp add: publish_authoritative_state_def Let_def split_beta send_barrier split: option.split)
next
  case (PublishReplica takes transport peers frame state keyframe)
  then show ?thesis
    by (simp add: publish_live_replica_def Let_def split_beta send_barrier)
next
  case (PollState frame players status now)
  then show ?thesis by (simp add: poll_authoritative_state_def Let_def split: option.split prod.split)
next
  case (PollReplica frame players status now)
  then show ?thesis
    by (simp add: poll_live_replica_def Let_def split_beta replica_request_barrier split: option.split)
next
  case (PollLatest minimum_frame maximum_frame players status now)
  then show ?thesis
    by (simp add: poll_latest_live_replica_def Let_def split_beta replica_request_barrier)
qed

lemma same_barrier:
  assumes "tf_gameplay_barrier t = rc_barrier x"
  shows "host_ok e s0 F (x\<lparr>rc_transfer := t\<rparr>) = host_ok e s0 F x"
    "follower_ok e s0 bound go (x\<lparr>rc_transfer := t\<rparr>) = follower_ok e s0 bound go x"
    "evolves x (x\<lparr>rc_transfer := t\<rparr>)" "boundary_of (x\<lparr>rc_transfer := t\<rparr>) = boundary_of x"
proof -
  let ?y = "x\<lparr>rc_transfer := t\<rparr>"
  have a: "armed ?y = armed x" "released ?y = released x" "\<And>k l c. in_scene k l c ?y = in_scene k l c x"
    "boundary_of ?y = boundary_of x"
    by (simp_all add: armed_def released_def in_scene_def boundary_of_def assms)
  have "barrier_ok s0 ?y = barrier_ok s0 x" unfolding barrier_ok_def a by (cases "rc_barrier x") (simp_all add: assms)
  then have r: "racer_ok e s0 bound ?y = racer_ok e s0 bound x" for bound by (simp add: racer_ok_def)
  show "host_ok e s0 F ?y = host_ok e s0 F x" unfolding host_ok_def Let_def a r by (simp add: assms)
  show "follower_ok e s0 bound go ?y = follower_ok e s0 bound go x" unfolding follower_ok_def a r by simp
  show "evolves x ?y" by (simp add: evolves_def a)
  show "boundary_of ?y = boundary_of x" by (rule a)
qed

lemma host_call:
  assumes "host_ok e s0 F x" "racer_allows call x" "racer_call call x = (sent, y)"
  shows "host_moves e s0 F x sent y"
proof (cases call)
  case (LoadTrack frame level now)
  obtain r s z where b: "begin_gameplay_handoff frame level now x = (r, s, z)" by (rule prod_cases3) (rule that, assumption)
  have "frame = lg_next_commit_frame (rc_ledger x)" using assms(1,2) LoadTrack by (simp add: host_ok_def Let_def)
  then show ?thesis using begin_handoff_host [OF assms(1), of level now r s z] b assms(3) LoadTrack by simp
next
  case EnterScene
  then show ?thesis using enter_scene_host [OF assms(1)] assms(2,3) by simp
next
  case LeaveScene
  then show ?thesis using leave_scene_host [OF assms(1)] assms(2,3) by simp
next
  case (WaitReady requested level racers now)
  obtain r m s z where "poll_gameplay_ready requested level racers now x = (r, m, s, z)" by (rule prod_cases4) (rule that, assumption)
  then show ?thesis using poll_ready_host [OF assms(1)] assms(3) WaitReady by simp
next
  case (WaitResume level racers peers now)
  obtain r m s z where "poll_gameplay_resume level racers peers now x = (r, m, s, z)" by (rule prod_cases4) (rule that, assumption)
  then show ?thesis using poll_resume_host [OF assms(1)] assms(3) WaitResume by simp
next
  case (ServiceNetwork now)
  then show ?thesis using service_host [OF assms(1)] assms(3) by simp
next
  case (PlayFrame peers quick_join frame local_input sent_at now)
  obtain r i s t where f: "synchronize_inputs peers quick_join frame local_input sent_at now (rc_session x) = (r, i, s, t)"
    by (rule prod_cases4) (rule that, assumption)
  show ?thesis using host_session [OF assms(1), of t "[]"] frame_steady [OF f] f assms(3) PlayFrame by auto
next
  case (MoveState call)
  then show ?thesis
    using assms(1,3) same_barrier [of "transfer_perform (rc_authority x) call (rc_transfer x)" x] by (auto simp: host_moves_def)
next
  case (InputArrives peer payload)
  let ?s = "rc_session x"
  obtain s d where d: "handle_input peer payload (ss_authority ?s) (ss_ledger ?s) (ss_delivery ?s) = (s, d)" by fastforce
  have "steady ?s (?s\<lparr>ss_delivery := d\<rparr>)" using steady_delivery handle_input_inv [OF d] by blast
  then show ?thesis using host_session [OF assms(1), of "?s\<lparr>ss_delivery := d\<rparr>" "[]"] d assms(3) InputArrives by auto
next
  case (CommitsArrive payload header_frame)
  then show ?thesis using assms(1,2) by (simp add: host_ok_def Let_def)
qed

lemma follower_call:
  assumes "follower_ok e s0 bound go x" "racer_allows call x" "racer_call call x = (sent, y)"
  shows "follower_moves e s0 bound go x sent y"
proof (cases call)
  case (LoadTrack frame level now)
  obtain r s z where b: "begin_gameplay_handoff frame level now x = (r, s, z)" by (rule prod_cases3) (rule that, assumption)
  then show ?thesis using begin_handoff_follower [OF assms(1) b] assms(3) LoadTrack by simp
next
  case EnterScene
  then show ?thesis using enter_scene_follower [OF assms(1)] assms(2,3) by simp
next
  case LeaveScene
  then show ?thesis using leave_scene_follower [OF assms(1)] assms(2,3) by simp
next
  case (WaitReady requested level racers now)
  obtain r m s z where "poll_gameplay_ready requested level racers now x = (r, m, s, z)" by (rule prod_cases4) (rule that, assumption)
  then show ?thesis using poll_ready_follower [OF assms(1)] assms(3) WaitReady by simp
next
  case (WaitResume level racers peers now)
  obtain r m s z where "poll_gameplay_resume level racers peers now x = (r, m, s, z)" by (rule prod_cases4) (rule that, assumption)
  then show ?thesis using poll_resume_follower [OF assms(1)] assms(3) WaitResume by simp
next
  case (ServiceNetwork now)
  then show ?thesis using service_follower [OF assms(1)] assms(3) by simp
next
  case (PlayFrame peers quick_join frame local_input sent_at now)
  obtain r i s t where f: "synchronize_inputs peers quick_join frame local_input sent_at now (rc_session x) = (r, i, s, t)"
    by (rule prod_cases4) (rule that, assumption)
  have ok: "handoff_ok e bound (rc_session x)" using assms(1) by (simp add: follower_ok_def racer_ok_def)
  have "ss_ledger t = rc_ledger x" if "au_gameplay_handoff (rc_authority x) = Some h" "gh_armed h \<or> gh_resume_input_epoch h = 0" for h
    using frame_steady [OF f] handoff_parked [OF ok that] by simp
  then show ?thesis
    using follower_session [OF assms(1), of t "[]"] frame_steady [OF f] f assms(3) PlayFrame by simp
next
  case (MoveState call)
  then show ?thesis
    using assms(1,3) same_barrier [of "transfer_perform (rc_authority x) call (rc_transfer x)" x] by (auto simp: follower_moves_def)
next
  case (InputArrives peer payload)
  then show ?thesis using assms(1,2) by (simp add: follower_ok_def)
next
  case (CommitsArrive payload header_frame)
  let ?s = "rc_session x"
  obtain r s l where c: "handle_frame_commit payload header_frame (ss_authority ?s) (ss_ledger ?s) = (r, s, l)"
    by (rule prod_cases3) (rule that, assumption)
  let ?z = "x\<lparr>rc_session := ?s\<lparr>ss_ledger := l\<rparr>\<rparr>"
  have "l = rc_ledger x" if "au_gameplay_handoff (rc_authority x) = Some h" "gh_armed h" for h
  proof -
    have "fresh_ledger (gh_boundary_frame h) (rc_authority x) (rc_ledger x)"
      using assms(1) that by (simp add: follower_ok_def racer_ok_def handoff_ok_def Let_def)
    then show ?thesis
      using handle_foreign [OF c] assms(2) CommitsArrive that by (simp add: armed_def fresh_ledger_def opened_def)
  qed
  moreover have "lg_next_commit_frame l = lg_next_commit_frame (rc_ledger x)"
    using handle_commit_next [of payload header_frame "ss_authority ?s" "ss_ledger ?s"] c by simp
  ultimately have m: "follower_moves e s0 bound go x [] ?z"
    using follower_session [OF assms(1), of "?s\<lparr>ss_ledger := l\<rparr>" "[]"] by simp
  have "(case r of Inl e \<Rightarrow> fail_racer e ?z | Inr _ \<Rightarrow> ([], ?z)) = (sent, y)"
    using assms(3) c CommitsArrive by (simp add: Let_def)
  then show ?thesis
    using m follower_fail [of e s0 bound go ?z] follower_moves_trans [OF m, of sent y]
    by (auto simp: follower_moves_def [of e s0 bound go x "[]"] split: sum.splits)
qed

lemma host_packet_moves:
  assumes "host_ok e s0 F x" "host_packet peer sender message_type payload now x = (sent, y)"
    "\<And>p. message_type = MsgGameplayBarrier \<Longrightarrow> decode_gameplay_barrier payload = Inr p \<Longrightarrow>
      s0 < GameplayBarrierPayload.gb_scene_epoch p \<Longrightarrow> gb_stage p = BarrierArmed \<Longrightarrow>
      F (unat peer) (GameplayBarrierPayload.gb_scene_epoch p) (GameplayBarrierPayload.gb_map p) (GameplayBarrierPayload.gb_racer_count p)"
    "peer \<noteq> au_local_slot (rc_authority x)"
  shows "host_moves e s0 F x sent y"
  using assms(2) request_host [OF assms(1)] barrier_packet_host [OF assms(1) _ assms(3) assms(4)] moves_refl(1) [OF assms(1)]
  unfolding host_packet_def by (auto split: if_splits)

lemma guest_packet_moves:
  assumes "follower_ok e s0 bound go x" "guest_packet message_type payload now x = (sent, y)"
    "host_message_ok e s0 bound go (message_type, payload)"
  shows "follower_moves e s0 bound go x sent y"
  using assms(2,3) suspend_follower [OF assms(1)] barrier_packet_follower [OF assms(1)] moves_refl(2) [OF assms(1)]
  unfolding guest_packet_def by (auto split: if_splits)

subsection \<open>The invariant of the start\<close>

text \<open>The guests of a slot have armed a scene.\<close>

definition slot_armed :: "Racer list \<Rightarrow> nat \<Rightarrow> u32 \<Rightarrow> u32 \<Rightarrow> u32 \<Rightarrow> bool" where
  "slot_armed guests slot scene_epoch level racer_count \<longleftrightarrow>
     (\<forall>x \<in> set guests. unat (slot_of x) = slot \<longrightarrow> armed x \<and> in_scene scene_epoch level racer_count x)"

text \<open>What never changes of a guest: it plays the match of Player 1, in a slot of the room.\<close>

definition company :: "Racer \<Rightarrow> Racer \<Rightarrow> bool" where
  "company host x \<longleftrightarrow> au_match_id (rc_authority x) = au_match_id (rc_authority host) \<and>
     au_launch_descriptor (rc_authority x) = au_launch_descriptor (rc_authority host) \<and>
     slot_of x \<noteq> slot_of host \<and> pl_occupied (ss_players (rc_session host) ! unat (slot_of x))"

definition start_inv :: "u32 \<Rightarrow> u32 \<Rightarrow> World \<Rightarrow> bool" where
  "start_inv e s0 W \<longleftrightarrow> (let host = wd_host W; guests = wd_guests W in
     host_ok e s0 (slot_armed guests) host \<and>
     (case au_launch_descriptor (rc_authority host) of Some d \<Rightarrow> valid_launch_descriptor d | None \<Rightarrow> False) \<and>
     (\<forall>x \<in> set guests. follower_ok e s0 (boundary_of host) (released host) x \<and> company host x) \<and>
     distinct (map slot_of guests) \<and>
     list_all (host_message_ok e s0 (boundary_of host) (released host)) (wd_from_host W) \<and>
     list_all (\<lambda>(n, m). n < length guests \<and> follower_message_ok s0 (guests ! n) m) (wd_from_guests W))"

lemma host_ok_mono:
  "host_ok e s0 F x \<Longrightarrow> (\<And>slot k l c. F slot k l c \<Longrightarrow> G slot k l c) \<Longrightarrow> host_ok e s0 G x"
  unfolding host_ok_def Let_def by blast

lemma follower_ok_mono:
  "follower_ok e s0 bound go x \<Longrightarrow> (\<And>b. bound = Some b \<Longrightarrow> bound2 = Some b) \<Longrightarrow> (go \<Longrightarrow> go2) \<Longrightarrow>
     follower_ok e s0 bound2 go2 x"
  using bound_mono [of e s0 x bound2] unfolding follower_ok_def by (cases bound) auto

lemma host_step_inv:
  assumes "start_inv e s0 W" "host_moves e s0 (slot_armed (wd_guests W)) (wd_host W) sent y"
  shows "start_inv e s0 (host_step W (sent, y))"
proof -
  have v: "evolves (wd_host W) y" "\<And>b. boundary_of (wd_host W) = Some b \<Longrightarrow> boundary_of y = Some b"
    using assms(2) by (simp_all add: host_moves_def)
  note same = evolvesD [OF v(1)]
  have f: "follower_ok e s0 (boundary_of y) (released y) x \<and> company y x" if "x \<in> set (wd_guests W)" for x
    using assms(1) that follower_ok_mono [of e s0 "boundary_of (wd_host W)" "released (wd_host W)" x] v(2) same(3,5-8)
    by (auto simp: start_inv_def company_def Let_def)
  have "list_all (host_message_ok e s0 (boundary_of y) (released y)) (wd_from_host W)"
    using assms(1) host_message_mono [of e s0 "boundary_of (wd_host W)" "released (wd_host W)"] v(2) same(3)
    by (auto simp: start_inv_def Let_def elim!: list.pred_mono_strong)
  then show ?thesis
    using assms f same(7) unfolding start_inv_def host_moves_def Let_def host_step_def by simp
qed

lemma guest_step_inv:
  assumes "start_inv e s0 W" "n < length (wd_guests W)"
    "follower_moves e s0 (boundary_of (wd_host W)) (released (wd_host W)) (wd_guests W ! n) sent y"
  shows "start_inv e s0 (guest_step n W (sent, y))"
proof -
  let ?guests = "(wd_guests W)[n := y]"
  have v: "evolves (wd_guests W ! n) y" and ok: "follower_ok e s0 (boundary_of (wd_host W)) (released (wd_host W)) y"
    and posts: "list_all (follower_message_ok s0 y) (follower_posts sent)"
    using assms(3) by (simp_all add: follower_moves_def)
  note same = evolvesD [OF v]
  have old: "wd_guests W ! n \<in> set (wd_guests W)" using assms(2) by simp
  have "slot_armed ?guests slot k l c" if "slot_armed (wd_guests W) slot k l c" for slot k l c
  proof -
    have "armed x \<and> in_scene k l c x" if "x \<in> set ?guests" "unat (slot_of x) = slot" for x
    proof (cases "x = y")
      case True
      then show ?thesis using \<open>slot_armed (wd_guests W) slot k l c\<close> that(2) old same(1,2,5) by (auto simp: slot_armed_def)
    next
      case False
      then show ?thesis
        using \<open>slot_armed (wd_guests W) slot k l c\<close> that set_update_subset_insert [of "wd_guests W" n y]
        by (auto simp: slot_armed_def)
    qed
    then show ?thesis by (simp add: slot_armed_def)
  qed
  then have h: "host_ok e s0 (slot_armed ?guests) (wd_host W)"
    using assms(1) host_ok_mono [of e s0 "slot_armed (wd_guests W)" "wd_host W"] by (auto simp: start_inv_def Let_def)
  have "company (wd_host W) (wd_guests W ! n)" using assms(1) old by (simp add: start_inv_def Let_def)
  then have "company (wd_host W) y" using same(5-8) by (simp add: company_def)
  then have f: "follower_ok e s0 (boundary_of (wd_host W)) (released (wd_host W)) x \<and> company (wd_host W) x"
    if "x \<in> set ?guests" for x
    using that assms(1) ok set_update_subset_insert [of "wd_guests W" n y] by (auto simp: start_inv_def Let_def)
  have slots: "map slot_of ?guests = map slot_of (wd_guests W)"
    using same(5) assms(2) by (auto intro!: nth_equalityI simp: nth_list_update)
  have m: "follower_message_ok s0 (?guests ! k) m" if "follower_message_ok s0 (wd_guests W ! k) m" "k < length (wd_guests W)" for k m
    using that follower_message_mono [OF _ v, of s0 m] by (cases "k = n") simp_all
  have "list_all (\<lambda>(k, m). k < length ?guests \<and> follower_message_ok s0 (?guests ! k) m)
      (wd_from_guests W @ map (Pair n) (follower_posts sent))"
    using assms(1,2) m posts by (auto simp: start_inv_def Let_def list_all_iff)
  then show ?thesis
    using assms(1) h f slots unfolding start_inv_def Let_def guest_step_def by simp
qed

lemma slot_armed_one:
  assumes "distinct (map slot_of guests)" "n < length guests" "armed (guests ! n)" "in_scene k l c (guests ! n)"
  shows "slot_armed guests (unat (slot_of (guests ! n))) k l c"
proof -
  have "x = guests ! n" if "x \<in> set guests" "unat (slot_of x) = unat (slot_of (guests ! n))" for x
  proof -
    have "slot_of x = slot_of (guests ! n)" using that(2) by (simp only: word_unat_eq_iff)
    then show ?thesis using assms(1,2) that(1) by (auto simp: distinct_map dest: inj_onD)
  qed
  then show ?thesis using assms(3,4) unfolding slot_armed_def by blast
qed

interpretation start_run: invariant_run "start_inv e s0" start_perform
proof
  fix event W assume i: "start_inv e s0 W"
  have h: "host_ok e s0 (slot_armed (wd_guests W)) (wd_host W)" using i by (simp add: start_inv_def Let_def)
  have g: "follower_ok e s0 (boundary_of (wd_host W)) (released (wd_host W)) (wd_guests W ! n)"
    "company (wd_host W) (wd_guests W ! n)" if "n < length (wd_guests W)" for n
    using i that by (simp_all add: start_inv_def Let_def)
  show "start_inv e s0 (start_perform event W)"
  proof (cases event)
    case (HostCall call)
    obtain sent y where "racer_call call (wd_host W) = (sent, y)" by fastforce
    then show ?thesis using HostCall i host_step_inv [OF i host_call [OF h]] by simp
  next
    case (GuestCall n call)
    obtain sent y where "racer_call call (wd_guests W ! n) = (sent, y)" by fastforce
    then show ?thesis using GuestCall i guest_step_inv [OF i _ follower_call [OF g(1)]] by auto
  next
    case (HostReceives k sender now)
    show ?thesis
    proof (cases "k < length (wd_from_guests W)")
      case True
      obtain n t payload where m: "wd_from_guests W ! k = (n, t, payload)" by (rule prod_cases3) (rule that, assumption)
      have n: "n < length (wd_guests W)" "follower_message_ok s0 (wd_guests W ! n) (t, payload)"
        using i True m by (auto simp: start_inv_def Let_def list_all_length)
      obtain sent y where p: "host_packet (slot_of (wd_guests W ! n)) sender t payload now (wd_host W) = (sent, y)" by fastforce
      have d: "distinct (map slot_of (wd_guests W))" using i by (simp add: start_inv_def Let_def)
      have "host_moves e s0 (slot_armed (wd_guests W)) (wd_host W) sent y"
        by (rule host_packet_moves [OF h p])
          (use n(2) slot_armed_one [OF d n(1)] g(2) [OF n(1)] in \<open>auto simp: follower_message_ok_def company_def\<close>)
      then show ?thesis using host_step_inv [OF i] True m p HostReceives by simp
    qed (use i HostReceives in simp)
  next
    case (GuestReceives n k now)
    show ?thesis
    proof (cases "n < length (wd_guests W) \<and> k < length (wd_from_host W)")
      case True
      obtain t payload where m: "wd_from_host W ! k = (t, payload)" by fastforce
      have "host_message_ok e s0 (boundary_of (wd_host W)) (released (wd_host W)) (t, payload)"
        using i True m by (auto simp: start_inv_def Let_def list_all_length)
      moreover obtain sent y where "guest_packet t payload now (wd_guests W ! n) = (sent, y)" by fastforce
      ultimately show ?thesis
        using guest_step_inv [OF i] guest_packet_moves [OF g(1)] True m GuestReceives by simp
    qed (use i GuestReceives in auto)
  qed
qed

lemma waits_racer:
  assumes "waits e x"
  shows "racer_ok e s0 bound x" "boundary_of x = None" "\<not> released x"
  using assms by (simp_all add: waits_def racer_ok_def handoff_ok_def barrier_ok_def armed_def sound_failure_def
      boundary_of_def released_def)

lemma start_opening_inv:
  assumes "start_opening e s0 W"
  shows "start_inv e s0 W"
proof -
  let ?h = "wd_host W"
  have w: "waits e ?h" using assms by (simp add: start_opening_def Let_def)
  note r = waits_racer [OF w]
  have b: "rc_barrier ?h = None" "au_gameplay_handoff (rc_authority ?h) = None" using w by (simp_all add: waits_def)
  have "host_ok e s0 F ?h" for F
    using assms r(1,3) b unfolding start_opening_def host_ok_def Let_def by (auto simp: list_all_iff)
  moreover have "follower_ok e s0 None False x \<and> company ?h x" if "x \<in> set (wd_guests W)" for x
  proof -
    have x: "waits e x" "\<not> au_is_host (rc_authority x)" "same_match (rc_authority ?h) (rc_authority x)"
      "slot_of x \<noteq> slot_of ?h" "pl_occupied (ss_players (rc_session ?h) ! unat (slot_of x))"
      "st_last_host_scene_epoch (rc_start x) = s0"
      using assms that by (simp_all add: start_opening_def Let_def list_all_iff)
    then show ?thesis using waits_racer [OF x(1)] by (simp add: follower_ok_def company_def same_match_def)
  qed
  ultimately show ?thesis
    using assms r(2,3) unfolding start_opening_def start_inv_def Let_def by simp
qed

subsection \<open>The release\<close>

lemma racer_boundary:
  assumes "racer_ok e s0 bound x" "armed x"
  obtains b where "bound = Some b" "au_input_epoch (rc_authority x) = resume_epoch e"
    "fresh_ledger b (rc_authority x) (rc_ledger x)"
  using assms by (auto simp: racer_ok_def handoff_ok_def armed_def Let_def split: option.splits if_splits)

lemma host_released:
  assumes "host_ok e s0 F x" "released x"
  obtains b where "rc_barrier x = Some b" "armed x" "all_slots (ss_players (rc_session x)) (gb_armed b)"
    "\<And>slot. slot < kMaximumPlayers \<Longrightarrow> slot \<noteq> unat (slot_of x) \<Longrightarrow> gb_armed b ! slot \<Longrightarrow>
       F slot (gb_scene_epoch b) (gb_map b) (gb_racer_count b)"
proof -
  obtain b where b: "rc_barrier x = Some b" "gb_go_released b" using assms(2) by (auto simp: released_def split: option.splits)
  have "armed x" using host_current(1) [OF assms(1) b(1)] b(2) by (simp add: fits_def)
  then show ?thesis using that [OF b(1)] host_current(2) [OF assms(1) b(1)] b(2) by (simp add: justified_def)
qed

text \<open>A released race is a match that has not begun.\<close>

definition race_of :: "World \<Rightarrow> Match" where
  "race_of W = \<lparr>mt_host = rc_session (wd_host W), mt_guests = map rc_session (wd_guests W), mt_sent = {},
     mt_host_log = [], mt_guest_logs = replicate (length (wd_guests W)) []\<rparr>"

definition racing :: "Racer \<Rightarrow> bool" where
  "racing x \<longleftrightarrow> au_state (rc_authority x) = StateRunning"

lemma release_together:
  assumes "start_inv e s0 W" "released (wd_host W) \<or> (\<exists>x \<in> set (wd_guests W). released x)"
  obtains k l c where "released (wd_host W)" "armed (wd_host W)" "in_scene k l c (wd_host W)"
    "\<forall>x \<in> set (wd_guests W). armed x \<and> in_scene k l c x"
proof -
  let ?h = "wd_host W"
  have h: "host_ok e s0 (slot_armed (wd_guests W)) ?h" using assms(1) by (simp add: start_inv_def Let_def)
  have r: "released ?h" using assms by (auto simp: start_inv_def follower_ok_def Let_def)
  obtain b where b: "rc_barrier ?h = Some b" "armed ?h" "all_slots (ss_players (rc_session ?h)) (gb_armed b)"
    "\<And>slot. slot < kMaximumPlayers \<Longrightarrow> slot \<noteq> unat (slot_of ?h) \<Longrightarrow> gb_armed b ! slot \<Longrightarrow>
       slot_armed (wd_guests W) slot (gb_scene_epoch b) (gb_map b) (gb_racer_count b)"
    by (rule host_released [OF h r]) auto
  have "armed x \<and> in_scene (gb_scene_epoch b) (gb_map b) (gb_racer_count b) x" if x: "x \<in> set (wd_guests W)" for x
  proof -
    have f: "unat (slot_of x) < kMaximumPlayers" "slot_of x \<noteq> slot_of ?h" "pl_occupied (ss_players (rc_session ?h) ! unat (slot_of x))"
      using assms(1) x by (auto simp: start_inv_def follower_ok_def racer_ok_def company_def Let_def)
    have "length (ss_players (rc_session ?h)) = kMaximumPlayers" using h by (simp add: host_ok_def racer_ok_def Let_def)
    then have "gb_armed b ! unat (slot_of x)" using b(3) f by (simp add: all_slots_def list_all_iff)
    moreover have "unat (slot_of x) \<noteq> unat (slot_of ?h)" using f(2) by (simp add: word_unat_eq_iff)
    ultimately have "slot_armed (wd_guests W) (unat (slot_of x)) (gb_scene_epoch b) (gb_map b) (gb_racer_count b)"
      using b(4) f(1) by blast
    then show ?thesis using x unfolding slot_armed_def by blast
  qed
  then show ?thesis using that [OF r b(2)] b(1) by (simp add: in_scene_def)
qed

lemma release_opens:
  assumes "start_inv e s0 W" "armed (wd_host W)" "\<forall>x \<in> set (wd_guests W). armed x"
    "racing (wd_host W)" "\<forall>x \<in> set (wd_guests W). racing x"
  shows "\<exists>b. boundary_of (wd_host W) = Some b \<and> match_opening b (epoch_chain b (rc_authority (wd_host W))) (race_of W)"
proof -
  let ?h = "wd_host W"
  have h: "host_ok e s0 (slot_armed (wd_guests W)) ?h" using assms(1) by (simp add: start_inv_def Let_def)
  then have r: "racer_ok e s0 (boundary_of ?h) ?h" by (simp add: host_ok_def Let_def)
  obtain b where b: "boundary_of ?h = Some b" "au_input_epoch (rc_authority ?h) = resume_epoch e"
    "fresh_ledger b (rc_authority ?h) (rc_ledger ?h)" by (rule racer_boundary [OF r assms(2)])
  have sound: "ss_failure (rc_session x) = []" if "racer_ok e s0 bound x" "racing x" for x bound
    using that by (simp add: racer_ok_def sound_failure_def racing_def)
  have g: "\<not> au_is_host (rc_authority x) \<and> ss_failure (rc_session x) = [] \<and> same_match (rc_authority ?h) (rc_authority x) \<and>
      opened b (epoch_chain b (rc_authority ?h)) (rc_ledger x)" if x: "x \<in> set (wd_guests W)" for x
  proof -
    have f: "racer_ok e s0 (boundary_of ?h) x" "\<not> au_is_host (rc_authority x)" "company ?h x"
      using assms(1) x by (auto simp: start_inv_def follower_ok_def Let_def)
    have "armed x" "racing x" using assms(3,5) x by auto
    then obtain b' where b': "boundary_of ?h = Some b'" "au_input_epoch (rc_authority x) = resume_epoch e"
      "fresh_ledger b' (rc_authority x) (rc_ledger x)" by (blast elim: racer_boundary [OF f(1)])
    have "same_match (rc_authority ?h) (rc_authority x)" using f(3) b(2) b'(2) by (simp add: same_match_def company_def)
    then show ?thesis
      using f(2) sound [OF f(1) \<open>racing x\<close>] b(1) b'(1,3) epoch_chain_same by (auto simp: fresh_ledger_def)
  qed
  have "match_opening b (epoch_chain b (rc_authority ?h)) (race_of W)"
    using assms(1) h r b(3) g sound [OF r assms(4)] unfolding match_opening_def race_of_def
    by (simp add: start_inv_def host_ok_def racer_ok_def fresh_ledger_def Let_def)
  then show ?thesis using b(1) by blast
qed

subsection \<open>A lost Go\<close>

definition recipients_of :: "(u8 \<times> u64) list \<Rightarrow> u64 list" where
  "recipients_of peers = fold (\<lambda>(slot, sender) recipients. recipients[unat slot := sender]) peers (replicate kMaximumPlayers 0)"

lemma recipients_keep:
  "slot \<notin> fst ` set peers \<Longrightarrow>
     fold (\<lambda>(slot, sender) recipients. recipients[unat slot := sender]) peers r ! unat slot = r ! unat (slot :: u8)"
proof (induction peers arbitrary: r)
  case (Cons p peers)
  obtain s v where p: "p = (s, v)" by fastforce
  then have "unat s \<noteq> unat slot" using Cons.prems by (auto simp: word_unat_eq_iff)
  then show ?case using Cons by (simp add: p)
qed simp

lemma recipients_length:
  "length (fold (\<lambda>(slot, sender) recipients. recipients[unat slot := sender]) peers r) = length r"
  by (induction peers arbitrary: r) auto

lemma recipients_set:
  assumes "(slot :: u8, sender) \<in> set peers" "distinct (map fst peers)" "unat slot < length r"
  shows "fold (\<lambda>(slot, sender) recipients. recipients[unat slot := sender]) peers r ! unat slot = sender"
  using assms
proof (induction peers arbitrary: r)
  case (Cons p peers)
  show ?case
  proof (cases "p = (slot, sender)")
    case True
    then have "slot \<notin> fst ` set peers" using Cons.prems(2) by auto
    then show ?thesis using recipients_keep [of slot peers "r[unat slot := sender]"] Cons.prems(3) True by simp
  next
    case False
    then show ?thesis using Cons by (auto split: prod.split)
  qed
qed simp

lemma recipients_of:
  assumes "(slot, sender) \<in> set peers" "distinct (map fst peers)" "unat slot < kMaximumPlayers"
  shows "sender \<in> set (recipients_of peers)"
proof -
  have "recipients_of peers ! unat slot = sender" "length (recipients_of peers) = kMaximumPlayers"
    using recipients_set [OF assms(1,2)] assms(3) by (simp_all add: recipients_of_def recipients_length)
  then show ?thesis using assms(3) by (metis nth_mem)
qed

text \<open>Player 1 remembers that it has said go.\<close>

definition remembers :: "u32 \<Rightarrow> u32 \<Rightarrow> u32 \<Rightarrow> (u8 \<times> u64) list \<Rightarrow> int \<Rightarrow> Racer \<Rightarrow> bool" where
  "remembers k l c peers now x \<longleftrightarrow> (\<exists>entry \<in> set (st_completed_releases (rc_start x)).
     cr_type entry = MsgGameplayBarrier \<and> cr_epoch entry = k \<and> cr_boundary entry = l \<and> cr_detail entry = c \<and>
     cr_recipients entry = recipients_of peers \<and> cr_expires entry = now + seconds 120)"

lemma remember_new:
  assumes "\<forall>entry \<in> set (st_completed_releases (rc_start x)). cr_epoch entry \<noteq> k"
  shows "remembers k l c peers now (remember_release MsgGameplayBarrier k l c peers now x)"
proof -
  have "\<not> fst (completed_release MsgGameplayBarrier k l c 0 now x)"
    using assms by (auto simp: completed_release_def live_releases_def list_ex_iff Let_def)
  then show ?thesis
    unfolding remember_release_def recipients_of_def [symmetric] by (simp add: remembers_def Let_def split_beta)
qed

lemma arm_keeps:
  assumes "arm_gameplay_handoff now x = (r, sent, y)" "rc_barrier x = Some b"
  shows "st_completed_releases (rc_start y) = st_completed_releases (rc_start x)"
    "\<exists>flags. rc_barrier y = Some (b\<lparr>gb_armed := flags\<rparr>)"
    "au_local_slot (rc_authority y) = au_local_slot (rc_authority x)"
proof -
  show "au_local_slot (rc_authority y) = au_local_slot (rc_authority x)"
    using assms(1) by (cases rule: arm_cases) (simp_all add: enter_input_epoch_def Let_def)
  have "b = b\<lparr>gb_armed := gb_armed b\<rparr>" by simp
  then have same: "\<exists>flags. Some b = Some (b\<lparr>gb_armed := flags\<rparr>)" by metis
  show "st_completed_releases (rc_start y) = st_completed_releases (rc_start x)"
    using assms(1) by (cases rule: arm_cases) auto
  show "\<exists>flags. rc_barrier y = Some (b\<lparr>gb_armed := flags\<rparr>)"
    using assms(1)
  proof (cases rule: arm_cases)
    case unchanged
    then show ?thesis using assms(2) same by simp
  next
    case (entered b' h st)
    then show ?thesis using assms(2) by auto
  qed
qed

lemma resume_remembers:
  assumes "resume_host peers now b x = (PollReady, m, sent, y)" "rc_barrier x = Some b" "\<not> gb_go_released b"
    "\<forall>entry \<in> set (st_completed_releases (rc_start x)). cr_epoch entry \<noteq> au_scene_epoch (rc_authority x)"
  shows "remembers (au_scene_epoch (rc_authority x)) (gb_map b) (gb_racer_count b) peers now y"
    "au_local_slot (rc_authority y) = au_local_slot (rc_authority x)"
proof -
  let ?a = "rc_authority x"
  let ?resumed = "\<lambda>x. x\<lparr>rc_start := (rc_start x)\<lparr>st_gameplay_resume_until := now + seconds 2\<rparr>\<rparr>"
  let ?arm = "replicate 5 (Broadcast MsgGameplayBarrier
    (barrier_message BarrierArm (au_scene_epoch ?a) (gb_map b) (gb_racer_count b) ?a) 0)"
  let ?z = "set_barrier (b\<lparr>gb_arm_announced := True\<rparr>) x"
  obtain armed1 sent1 x1 where one: "(if gb_arm_announced b then (Inr 0, [], x)
      else case arm_gameplay_handoff now ?z of
          (Inl e, sent, x) \<Rightarrow> (Inl e, sent, x)
        | (Inr resume_frame, sent, x) \<Rightarrow> (Inr resume_frame, sent @ ?arm, ?resumed (announced now x)))
      = (armed1 :: u32 result, sent1, x1)" by (rule prod_cases3) (rule that, assumption)
  have x1: "st_completed_releases (rc_start x1) = st_completed_releases (rc_start x) \<and>
      au_local_slot (rc_authority x1) = au_local_slot (rc_authority x) \<and>
      (\<exists>b1. rc_barrier x1 = Some b1 \<and> gb_map b1 = gb_map b \<and> gb_racer_count b1 = gb_racer_count b \<and> \<not> gb_go_released b1)"
  proof (cases "gb_arm_announced b")
    case True
    then show ?thesis using one assms(2,3) by simp
  next
    case False
    obtain r2 s2 z2 where arm: "arm_gameplay_handoff now ?z = (r2, s2, z2)" by (metis prod_cases3)
    obtain flags where "st_completed_releases (rc_start z2) = st_completed_releases (rc_start x)"
      "au_local_slot (rc_authority z2) = au_local_slot (rc_authority x)"
      "rc_barrier z2 = Some (b\<lparr>gb_arm_announced := True, gb_armed := flags\<rparr>)"
      using arm_keeps [OF arm] by auto
    then show ?thesis using one False arm assms(3) by (auto split: sum.splits)
  qed
  then obtain b1 where b1: "rc_barrier x1 = Some b1" "gb_map b1 = gb_map b" "gb_racer_count b1 = gb_racer_count b" "\<not> gb_go_released b1"
    by blast
  let ?r = "remember_release MsgGameplayBarrier (au_scene_epoch ?a) (gb_map b) (gb_racer_count b) peers now
    (set_barrier (b1\<lparr>gb_go_released := True\<rparr>) x1)"
  have acked: "0 \<in> set (tf_fully_acknowledged_states (rc_transfer x))" using assms(1) by (auto simp: resume_host_def Let_def split: if_splits)
  have "(case (armed1, rc_barrier x1) of
      (Inr _, Some b1) \<Rightarrow>
        if \<not> all_slots (ss_players (rc_session x1)) (gb_armed b1) then (PollPending, [], sent1, x1)
        else if gb_go_released b1 then (PollReady, [], sent1, x1)
        else (PollReady, [], sent1 @ replicate 5 (Broadcast MsgGameplayBarrier
            (barrier_message BarrierGo (au_scene_epoch ?a) (gb_map b) (gb_racer_count b) ?a) 0),
          ?resumed (announced now (remember_release MsgGameplayBarrier (au_scene_epoch ?a)
            (gb_map b1) (gb_racer_count b1) peers now (set_barrier (b1\<lparr>gb_go_released := True\<rparr>) x1))))
    | (Inl e, _) \<Rightarrow> (PollFailed, e, sent1, x1)
    | (Inr _, None) \<Rightarrow> (PollPending, [], sent1, x1)) = (PollReady, m, sent, y)"
    using assms(1) acked one unfolding resume_host_def Let_def by (simp split: if_splits)
  then have "y = ?resumed (announced now ?r)"
    unfolding b1(1) using b1(2-4) by (auto split: sum.splits if_splits)
  then have y: "st_completed_releases (rc_start y) = st_completed_releases (rc_start ?r)" "rc_session y = rc_session ?r"
    by simp_all
  show "remembers (au_scene_epoch ?a) (gb_map b) (gb_racer_count b) peers now y"
    using remember_new [of "set_barrier (b1\<lparr>gb_go_released := True\<rparr>) x1"] assms(4) x1 y(1) unfolding remembers_def by simp
  obtain st where "?r = (set_barrier (b1\<lparr>gb_go_released := True\<rparr>) x1)\<lparr>rc_start := st\<rparr>" using remember_release_start by blast
  then have "rc_session ?r = rc_session x1" by simp
  then show "au_local_slot (rc_authority y) = au_local_slot (rc_authority x)" using x1 y(2) by simp
qed

lemma remembered_answers:
  assumes "remembers k l c peers now y" "later < now + seconds 120"
    "(slot, sender) \<in> set peers" "distinct (map fst peers)" "unat slot < kMaximumPlayers" "k \<noteq> 0" "c \<le> 10"
    "au_local_slot a = slot" "m = barrier_message BarrierArmed k l c a"
  shows "fst (handle_barrier_host slot sender m later y) =
    [ToPeer slot MsgGameplayBarrier (barrier_message BarrierGo k l c (rc_authority y)) 0]"
proof -
  have d: "decode_gameplay_barrier m = Inr \<lparr>GameplayBarrierPayload.gb_scene_epoch = k, gb_map = l, gb_racer_count = c,
      gb_player_slot = slot, gb_stage = BarrierArmed\<rparr>"
    unfolding assms(9) decode_barrier_message
    using assms(5-8) by (simp add: barrier_message_def encode_gameplay_barrier_def)
  have "fst (completed_release MsgGameplayBarrier k l c sender later y)"
    using assms(1,2) recipients_of [OF assms(3-5)]
    by (auto simp: remembers_def completed_release_def live_releases_def list_ex_iff Let_def)
  then obtain z where "completed_release MsgGameplayBarrier k l c sender later y = (True, z)" by (metis prod.collapse)
  then show ?thesis by (simp add: handle_barrier_host_def d Let_def)
qed

text \<open>A guest that has armed and waits, before its deadline, for the word of Player 1.\<close>

definition awaits_go :: "u32 \<Rightarrow> u32 \<Rightarrow> u32 \<Rightarrow> int \<Rightarrow> Racer \<Rightarrow> bool" where
  "awaits_go k l c now x \<longleftrightarrow> (let a = rc_authority x in
     \<not> au_is_host a \<and> au_authoritative_phase_active a \<and> au_scene_epoch a = k \<and>
     (case rc_barrier x of None \<Rightarrow> False
      | Some b \<Rightarrow> gb_scene_epoch b = k \<and> gb_map b = l \<and> gb_racer_count b = c \<and> gb_epoch_synchronized b \<and>
          gb_baseline_released b \<and> gb_arm_announced b \<and> gb_armed b ! unat (au_local_slot a) \<and> \<not> gb_go_released b) \<and>
     (case au_gameplay_handoff a of None \<Rightarrow> True | Some h \<Rightarrow> now < gh_deadline h))"

lemma awaiting_announces:
  assumes "awaits_go k l c now x" "due now (st_last_gameplay_resume_ack (rc_start x)) 100" "service_start now x = (sent, y)"
  shows "ToHost MsgGameplayBarrier (barrier_message BarrierArmed k l c (rc_authority x)) 0 \<in> set sent"
    "rc_session y = rc_session x" "rc_transfer y = rc_transfer x"
proof -
  obtain goes s1 z where one: "service_handoff now x = (goes, s1, z)" by (rule prod_cases3) (rule that, assumption)
  have g: "goes \<and> rc_session z = rc_session x \<and> rc_transfer z = rc_transfer x \<and>
      st_last_gameplay_resume_ack (rc_start z) = st_last_gameplay_resume_ack (rc_start x)"
    using one assms(1) unfolding service_handoff_def awaits_go_def send_gameplay_handoff_def Let_def
    by (auto split: option.splits if_splits)
  obtain b where b: "rc_barrier x = Some b" "gb_scene_epoch b = k" "gb_map b = l" "gb_racer_count b = c" "gb_arm_announced b"
    "gb_armed b ! unat (au_local_slot (rc_authority x))" "\<not> gb_go_released b" "\<not> au_is_host (rc_authority x)"
    using assms(1) by (auto simp: awaits_go_def Let_def split: option.splits)
  have "service_barrier now z = ([ToHost MsgGameplayBarrier (barrier_message BarrierArmed k l c (rc_authority x)) 0],
      z\<lparr>rc_start := (rc_start z)\<lparr>st_last_gameplay_resume_ack := now\<rparr>\<rparr>)"
    using b g assms(2) by (simp add: service_barrier_def Let_def)
  then have "sent = s1 @ [ToHost MsgGameplayBarrier (barrier_message BarrierArmed k l c (rc_authority x)) 0]"
    "y = z\<lparr>rc_start := (rc_start z)\<lparr>st_last_gameplay_resume_ack := now\<rparr>\<rparr>"
    using assms(3) one g by (auto simp: service_start_def)
  then show "ToHost MsgGameplayBarrier (barrier_message BarrierArmed k l c (rc_authority x)) 0 \<in> set sent"
    "rc_session y = rc_session x" "rc_transfer y = rc_transfer x" using g by auto
qed

lemma go_arrives:
  assumes "awaits_go k l c now x" "rc_session y = rc_session x" "rc_transfer y = rc_transfer x"
    "k \<noteq> 0" "c \<le> 10" "au_local_slot a = 0" "m = barrier_message BarrierGo k l c a"
  shows "released (snd (handle_barrier_guest m y))"
proof -
  obtain b where b: "rc_barrier x = Some b" "gb_scene_epoch b = k" "gb_map b = l" "gb_racer_count b = c" "gb_arm_announced b"
    "gb_epoch_synchronized b" "gb_baseline_released b" "gb_armed b ! unat (au_local_slot (rc_authority x))"
    "au_authoritative_phase_active (rc_authority x)" "au_scene_epoch (rc_authority x) = k"
    using assms(1) by (auto simp: awaits_go_def Let_def split: option.splits)
  have d: "decode_gameplay_barrier m = Inr \<lparr>GameplayBarrierPayload.gb_scene_epoch = k, gb_map = l, gb_racer_count = c,
      gb_player_slot = 0, gb_stage = BarrierGo\<rparr>"
    unfolding assms(7) decode_barrier_message
    using assms(4-6) by (simp add: barrier_message_def encode_gameplay_barrier_def kMaximumPlayers_def)
  show ?thesis using b assms(2,3) by (simp add: handle_barrier_guest_def d Let_def)
qed

lemma resume_says_go:
  assumes "poll_gameplay_resume l c peers now h = (PollReady, m, sent, y)" "au_is_host (rc_authority h)" "\<not> released h"
    "\<forall>entry \<in> set (st_completed_releases (rc_start h)). cr_epoch entry \<noteq> au_scene_epoch (rc_authority h)"
  shows "remembers (au_scene_epoch (rc_authority h)) l c peers now y" "slot_of y = slot_of h"
proof -
  obtain b where b: "rc_barrier h = Some b" "gb_map b = l" "gb_racer_count b = c" "resume_host peers now b h = (PollReady, m, sent, y)"
    using assms(1,2) unfolding poll_gameplay_resume_def Let_def by (auto split: option.splits if_splits)
  have "\<not> gb_go_released b" using assms(3) b(1) by (simp add: released_def)
  note r = resume_remembers [OF b(4,1) this assms(4)]
  show "remembers (au_scene_epoch (rc_authority h)) l c peers now y" "slot_of y = slot_of h" using r b(2,3) by simp_all
qed

subsection \<open>An example\<close>

text \<open>A host and a guest that choose track 5 and start its race of two.\<close>

definition example_racer :: "bool \<Rightarrow> Racer" where
  "example_racer host = \<lparr>rc_session = (example_peer host)\<lparr>ss_players :=
       [new_player True 0 ''h'' ''Host'', new_player False 1 ''g'' ''Guest'', no_player, no_player]\<rparr>,
     rc_transfer = \<lparr>tf_authoritative_states = [], tf_authoritative_acknowledgements = [], tf_fully_acknowledged_states = [],
       tf_snapshot_assemblies = [], tf_live_replica_states = [], tf_live_replica_assemblies = [],
       tf_live_replica_keyframe_frame = None, tf_live_replica_keyframe_state = [], tf_checkpoint_encoding = None,
       tf_last_authoritative_request_frame = 0, tf_last_authoritative_request = 0, tf_last_live_replica_request_frame = 0,
       tf_last_live_replica_request = 0, tf_recovery_stage = StageIdle, tf_gameplay_barrier = None\<rparr>,
     rc_start = \<lparr>st_last_host_scene_epoch = 0, st_last_gameplay_barrier_broadcast = 0, st_gameplay_resume_until = 0,
       st_last_gameplay_ready_announcement = 0, st_last_gameplay_resume_ack = 0, st_last_gameplay_handoff_send = 0,
       st_completed_releases = []\<rparr>\<rparr>"

definition example_world :: World where
  "example_world = \<lparr>wd_host = example_racer True, wd_guests = [example_racer False], wd_from_host = [], wd_from_guests = []\<rparr>"

definition example_baseline :: bytes where
  "example_baseline = [0x44, 0x4B, 0x52, 0x41, 1, 2, 3, 4]"

definition example_start :: "StartEvent list" where
  "example_start =
     [HostCall (LoadTrack 0 5 1), GuestReceives 0 0 2, GuestCall 0 (LoadTrack 0 5 3),
      HostCall LeaveScene, HostCall EnterScene, GuestCall 0 LeaveScene, GuestCall 0 EnterScene,
      HostCall (WaitReady 5 5 2 10), GuestCall 0 (WaitReady 5 5 2 10), GuestReceives 0 3 11,
      GuestCall 0 (WaitReady 5 5 2 12), HostReceives 1 77 13, HostCall (WaitReady 5 5 2 14), GuestReceives 0 6 15,
      HostCall (MoveState (PublishState (\<lambda>_. True) \<lparr>tp_quick_join = False, tp_maximum_plaintext_datagram_bytes = 100\<rparr> [1]
        (ss_players (rc_session (example_racer True))) 0 example_baseline)),
      HostCall (MoveState (ReceiveAcknowledge 1 (encode_state_acknowledge \<lparr>sa_scene_epoch = 1, sa_frame = 0, sa_checksum = authoritative_state_checksum example_baseline,
        StateAcknowledgePayload.sa_player_slot = 1\<rparr>)
        (ss_players (rc_session (example_racer True))))),
      HostCall (WaitResume 5 2 [(1, 77)] 16), GuestReceives 0 9 17, GuestCall 0 (WaitResume 5 2 [] 18),
      HostReceives 2 77 19, HostCall (WaitResume 5 2 [(1, 77)] 20), GuestReceives 0 14 21]"

text \<open>Equations the evaluation can use: no quantifier over payloads, no large natural number.\<close>

lemma host_message_code [code]:
  "host_message_ok e s0 bound go m \<longleftrightarrow>
     (fst m = MsgGameplayHandoff \<longrightarrow> (case decode_gameplay_handoff (snd m) of Inl _ \<Rightarrow> True
        | Inr p \<Rightarrow> p_current p = e \<longrightarrow> p_resume p = resume_epoch e \<and> bound = Some (p_boundary p))) \<and>
     (fst m = MsgGameplayBarrier \<longrightarrow> (case decode_gameplay_barrier (snd m) of Inl _ \<Rightarrow> True
        | Inr p \<Rightarrow> s0 < GameplayBarrierPayload.gb_scene_epoch p \<longrightarrow> gb_stage p = BarrierGo \<longrightarrow> go))"
  by (auto simp: host_message_ok_def split: sum.split)

lemma follower_message_code [code]:
  "follower_message_ok s0 x m \<longleftrightarrow>
     (fst m = MsgGameplayBarrier \<longrightarrow> (case decode_gameplay_barrier (snd m) of Inl _ \<Rightarrow> True
        | Inr p \<Rightarrow> s0 < GameplayBarrierPayload.gb_scene_epoch p \<longrightarrow> gb_stage p = BarrierArmed \<longrightarrow>
            armed x \<and> in_scene (GameplayBarrierPayload.gb_scene_epoch p) (GameplayBarrierPayload.gb_map p)
              (GameplayBarrierPayload.gb_racer_count p) x))"
  by (auto simp: follower_message_ok_def split: sum.split)

lemma encode_state_wire_code [code]:
  "encode_authoritative_state_wire state =
     (if state = [] \<or> int (length state) > 0xFFFFFFFF then state
      else let encoded = encode_rle state kMagic None in if length encoded \<ge> length state then state else encoded)"
  by (auto simp: encode_authoritative_state_wire_def Let_def)

lemma state_size_code [code_unfold]: "kMaximumAuthoritativeStateBytes < n \<longleftrightarrow> 14336 < int n"
  by (simp add: kMaximumAuthoritativeStateBytes_def)

lemma datagram_size_code [code_unfold]: "kMaximumQuickJoinDatagramBytes < n \<longleftrightarrow> 14400 < int n"
  by (simp add: kMaximumQuickJoinDatagramBytes_def)

lemma example_world_opening: "start_opening 1 0 example_world"
  by (simp add: start_opening_def waits_def example_world_def example_racer_def example_peer_def example_authority_def
      example_descriptor_def example_delivery_def new_timeline_inv same_match_def valid_launch_descriptor_def
      netplay_limits new_player_def no_player_def kMaximumPlayers_def)

definition all_racing :: "World \<Rightarrow> bool" where
  "all_racing V \<longleftrightarrow> list_all racing (wd_host V # wd_guests V)"

definition some_released :: "World \<Rightarrow> bool" where
  "some_released V \<longleftrightarrow> list_ex released (wd_host V # wd_guests V)"

definition racing_released :: "World \<Rightarrow> bool" where
  "racing_released V \<longleftrightarrow> all_racing V \<and> some_released V"

lemma example_released: "racing_released (fold start_perform example_start example_world)"
  by code_simp

text \<open>The two when only Go is missing.\<close>

definition example_waiting :: "bool \<Rightarrow> Racer" where
  "example_waiting host = (let x = example_racer host in x\<lparr>
     rc_session := (rc_session x)\<lparr>ss_authority := (rc_authority x)\<lparr>au_authoritative_phase_active := True,
       au_authority_lifecycle := LifecycleRacing, au_scene_epoch := 1, au_input_epoch := 2,
       au_gameplay_handoff := Some \<lparr>gh_current_input_epoch = 1, gh_resume_input_epoch = 2, gh_boundary_frame = 0,
         gh_local_suspend_frame = 0, gh_map = 5, gh_local_load_started = True, gh_suspended = True, gh_armed = True,
         gh_deadline = seconds 90\<rparr>\<rparr>\<rparr>,
     rc_transfer := (rc_transfer x)\<lparr>tf_fully_acknowledged_states := [0],
       tf_gameplay_barrier := Some ((new_barrier 1 5 2 True)\<lparr>gb_armed := [True, True, False, False],
         gb_baseline_released := True, gb_arm_announced := True\<rparr>)\<rparr>\<rparr>)"

lemma example_awaits: "awaits_go 1 5 2 17 (example_waiting False)"
  by code_simp

lemma example_says_go: "fst (poll_gameplay_resume 5 2 [(1, 77)] 16 (example_waiting True)) = PollReady"
  by code_simp

end
