(* ===== verification/Spec2Isabelle.thy ===== *)
theory Spec2Isabelle
  imports Protocol_Input Protocol_State Protocol_Lobby Protocol_Launch State_Codec Sequence_Window
    Rollback_Ring Rollback_Store Input_Timeline Lobby Launch Pacing Adventure_Policy
    Save_Repair State_Arrival Race_Match
begin

text \<open>
  The online core of a native port of a racing game for a console: up to four racers
  play one simulation over datagrams. All paths below are relative to
  \<^verbatim>\<open>src/runtime-recomp/src/game/netplay/\<close>.

  The parts and how they interact. A host keeps a room (\<^verbatim>\<open>netplay_lobby.cpp\<close>), admits racers
  whose build agrees with its own (\<^verbatim>\<open>netplay_types.cpp\<close>), publishes the room and, when all
  are ready, a launch descriptor (\<^verbatim>\<open>direct_session.cpp\<close>). Every message is a payload in a
  datagram (\<^verbatim>\<open>netplay_protocol.cpp\<close>); each authenticated datagram passes a replay window
  (\<^verbatim>\<open>sequence_window.hpp\<close>). In the race each machine simulates a frame with the inputs it has
  and predicts the others (\<^verbatim>\<open>netplay_timeline.cpp\<close>); a late input that differs from the
  prediction restores an earlier state from the rollback stores (\<^verbatim>\<open>rollback_ring.cpp\<close>,
  \<^verbatim>\<open>rollback_state_store.cpp\<close>). The host sends whole states, compressed
  (\<^verbatim>\<open>authoritative_state_codec.cpp\<close>), and policies pace guests and host
  (\<^verbatim>\<open>netplay_pacing_policy.hpp\<close>, \<^verbatim>\<open>progress_budget.hpp\<close>, \<^verbatim>\<open>online_lobby_policy.hpp\<close>,
  \<^verbatim>\<open>two_player_adventure_policy.hpp\<close>).

  Theories, in the order of their imports.
  \<^item> \<open>Prelude\<close>: machine words, characters and bytes, the collections of rules of the decoders,
    facts on words and lists.
  \<^item> \<open>Wire\<close>: \<open>Put\<close> and \<open>Take\<close> of \<^verbatim>\<open>netplay_protocol.cpp\<close>, the monad of the decoders
    with its three outcomes (value, error text, read out of range), and the contracts of a
    message codec as locales: \<open>wire_codec\<close> (what decodes is an encoding of a well-formed
    value, and encodings of well-formed values decode to them), \<open>exact_codec\<close> (the same with
    every non-empty encoding well formed) and \<open>wire_item\<close> (an element of a repeated field).
    \<open>Float32\<close>: the bit patterns of single-precision numbers as far as the packet loss of
    \<^verbatim>\<open>LobbyState\<close> needs them.
  \<^item> \<open>Netplay_Types\<close>: \<^verbatim>\<open>netplay_types.hpp\<close> and \<^verbatim>\<open>netplay_types.cpp\<close>.
  \<^item> \<open>Protocol_Input\<close>, \<open>Protocol_State\<close>, \<open>Protocol_Lobby\<close>, \<open>Protocol_Launch\<close>: the payloads of
    \<^verbatim>\<open>netplay_protocol.hpp\<close> as records with the encoder and decoder of each, field by field
    and guard by guard. Every codec is an interpretation of one of the locales.
  \<^item> \<open>State_Codec\<close>: run-length coding of snapshots and deltas. The decoder is a loop over the
    packet with its own bounds; it terminates because each turn consumes a command byte.
  \<^item> \<open>Sequence_Window\<close>: \<open>accept\<close>, and its specification, a set of accepted numbers.
  \<^item> \<open>Rollback_Ring\<close>, \<open>Rollback_Store\<close>: the two stores, both interpretations of the locale
    \<open>frame_store\<close>, whose lemmas say that a load returns the latest save.
  \<^item> \<open>Input_Timeline\<close>: the ring of frames with arrived, predicted and used inputs; two
    specifications, kept from the calls alone, say what it must answer: what was last heard for
    a slot of a frame, and the prediction of it that is open.
  \<^item> \<open>Lobby\<close>: one definition per method, an error text or the new room as result; the calls a
    session can make are a datatype, and reachability is an inductive predicate.
  \<^item> \<open>Launch\<close>: the parts of \<^verbatim>\<open>DirectSession\<close> that publish and follow the room, decide on
    admission, and make and check the launch descriptor. The record \<open>DirectSession\<close> has the
    fields those methods use. The clock is an argument.
  \<^item> \<open>Pacing\<close>, \<open>Adventure_Policy\<close>: the policy headers and the catch-up controller.
  \<^item> \<open>Save_Codec\<close>, \<open>Save_Image\<close>, \<open>Save_Repair\<close>: \<^verbatim>\<open>dkr_save_codec.cpp\<close> (one directory up), the
    save of the game bit by bit, its checksums, its canonical form and the ranges of its fields.
  \<^item> \<open>Frame_Ledger\<close>, \<open>Input_Delivery\<close>, \<open>Input_Admission\<close>: the session in a race, from
    \<^verbatim>\<open>direct_session.cpp\<close>. \<open>Authority\<close> has the members the operations only read, \<open>Ledger\<close> the
    hash chain of commits with its corrections, \<open>Delivery\<close> the histories and watermarks of the
    inputs; \<open>Session\<close> puts them together for \<open>synchronize_inputs\<close>, the call of the simulation
    thread. Messages to be sent are part of the result.
  \<^item> \<open>Lockstep\<close>, \<open>Match\<close>: the ledgers of Player 1 and of a guest of the same match, and the
    match as a whole: an inductive step relation over Player 1, the guests and a network that
    keeps every commit ever sent and delivers any of them at any time or never. \<open>match_inv\<close> is
    its invariant, kept by every step, and the lemmas on repair say that a hole is filled.
  \<^item> \<open>State_Transfer\<close>, \<open>State_Arrival\<close>: whole states of the simulation, cut into chunks by
    Player 1 (\<^verbatim>\<open>send_authoritative_state\<close>), assembled and decoded by a guest, acknowledged,
    asked for again; the record \<open>Transfer\<close> has the members these operations change. The second
    theory follows one state from its sender to the poll that returns it.
  \<^item> \<open>Race_Start\<close>, \<open>Race_Together\<close>, \<open>Race_Match\<close>: how a race begins. \<open>Racer\<close> is one machine with
    the members of the handoff and of the start barrier; its operations are the calls of the
    simulation thread (\<^verbatim>\<open>begin_gameplay_handoff\<close>, \<^verbatim>\<open>begin_authoritative_phase\<close>,
    \<^verbatim>\<open>poll_gameplay_ready\<close>, \<^verbatim>\<open>poll_gameplay_resume\<close>), the packets and the retries of the network
    thread. \<open>host_ok\<close> and \<open>follower_ok\<close> are the invariants of the two roles, each with a lemma
    per operation that says it keeps them and sends only what the receivers may rely on. The
    third theory puts Player 1, the guests and a network of everything ever sent together in a
    \<open>World\<close> whose events are executable; \<open>start_inv\<close> is kept by every event.

  Contracts that several theories share are locales of \<open>Prelude\<close> and \<open>Wire\<close>. \<open>invariant_run\<close>
  (what every operation keeps, every run keeps) has the interpretations \<open>timeline_run\<close>,
  \<open>catch_up\<close>, \<open>ledger_run\<close>, \<open>delivery_run\<close>, \<open>transfer_run\<close> and \<open>start_run\<close>.

  Conventions. Fixed-width integers are words, so arithmetic wraps as in the source; sizes and
  indices of containers are natural numbers. Text and packets are lists of bytes or characters.
  A method that changes its object returns the new record; an error text is an \<open>Inl\<close>. The
  output parameters of a decoder are the value of its result: what a failed decoder leaves in
  them is not part of the model, as no caller reads it. Every function is total by structural
  recursion or a termination proof. Three loops count a fuel down: \<open>contiguous_from\<close> (the
  maximum the caller passes, as in the source), \<open>rebuild_commits\<close> (the number of frames to
  rebuild) and \<open>first_missing_from\<close> (the entries of the ring; \<open>missing_search_ends\<close> shows that
  more changes nothing).

  The properties. C1 is the headline: a match is one simulation. Whatever the network does to
  the commits, every guest plays a part of what Player 1 plays; C2 adds that a hole does not
  stay: the poll of a guest that lacks a commit asks for it, and again every 50 milliseconds,
  Player 1 answers, and the answer is taken whenever it arrives. C3 and C4 say how the opening of such a match comes about: nobody is released into a
  race before everybody has armed it, at the same frame and with the same chain, and a release
  that is lost is repeated. What they rest on follows: exactness of datagrams and safety of the decoders, the
  rollback contract of the timeline, the arrival of inputs and of whole states, corrections that
  apply wholly or not at all, the receive window, the stores, the lobby and the synchronized start. The rest
  states, part by part, exactness of the codecs, refinement of the stores, the timeline and the
  replay window by their specifications, the invariants of the ledger, the histories and the
  lobby, the round trip and the canonical form of saves, and the bounds and hysteresis of the
  pacing policies.

  Not modelled. The rest of \<^verbatim>\<open>direct_session.cpp\<close>: sockets, timers and retransmission of the
  transport, the blocking waits around the polls, the transition barrier, the finish seal and
  recoveries, the pre-flight test, the stream of racer orientations, and the launch countdown
  with its transaction (Player 1 never prepares one: nothing assigns
  \<^verbatim>\<open>pending_launch_prepare_\<close>); the friend service, encryption (calls into a library), state capture
  (addresses of a ROM that is not in the repository), rendering, audio, input devices, user
  interface, mods and generated code; \<^verbatim>\<open>host_authoritative_input_delay_frames\<close>, which computes
  with doubles. Of single-precision arithmetic only what the lobby codec does to a percentage is
  modelled. In a match no correction is sent: \<^verbatim>\<open>rebuild_frame_commits_locked\<close>, which would
  start one, has no caller in the source; corrections are covered by properties of their own.
\<close>
section \<open>Wire protocol\<close>

text \<open>
  C5 (roundtrip). A datagram decodes to a header and a payload exactly when it is the
  non-empty encoding of them under the same size limit: the encoder and the decoder accept
  the same datagrams and are inverse to each other.
\<close>

theorem datagram_exact:
  "protocol_decode bs maximum = Inr d \<longleftrightarrow> bs \<noteq> [] \<and> protocol_encode d maximum = bs"
  by (rule datagram.exact)

text \<open>
  C6 (safety). No decoder of the protocol reads outside the bytes it was given, whatever
  they are: every input is decoded or rejected with a message.
\<close>

theorem decoders_never_out_of_range:
  "protocol_decode bs maximum \<noteq> Inl OutOfRange \<and>
   decode_input_batch bs \<noteq> Inl OutOfRange \<and>
   decode_input_acknowledge bs \<noteq> Inl OutOfRange \<and>
   decode_input_repair_request bs \<noteq> Inl OutOfRange \<and>
   decode_frame_commit_request bs \<noteq> Inl OutOfRange \<and>
   decode_gameplay_handoff bs \<noteq> Inl OutOfRange \<and>
   decode_rollback_payload bs \<noteq> Inl OutOfRange \<and>
   decode_gameplay_barrier bs \<noteq> Inl OutOfRange \<and>
   decode_frame_commit_batch bs \<noteq> Inl OutOfRange \<and>
   decode_frame_correction_acknowledge bs \<noteq> Inl OutOfRange \<and>
   decode_state_snapshot_chunk bs \<noteq> Inl OutOfRange \<and>
   decode_state_request bs \<noteq> Inl OutOfRange \<and>
   decode_state_acknowledge bs \<noteq> Inl OutOfRange \<and>
   decode_recovery bs \<noteq> Inl OutOfRange \<and>
   decode_transition_barrier bs \<noteq> Inl OutOfRange \<and>
   decode_simulation_progress bs \<noteq> Inl OutOfRange \<and>
   decode_racer_orientation bs \<noteq> Inl OutOfRange \<and>
   decode_state_hash bs \<noteq> Inl OutOfRange \<and>
   decode_hello bs \<noteq> Inl OutOfRange \<and>
   decode_hello_ack bs \<noteq> Inl OutOfRange \<and>
   decode_online_save_ready bs \<noteq> Inl OutOfRange \<and>
   decode_online_save_status bs \<noteq> Inl OutOfRange \<and>
   decode_lobby_state bs \<noteq> Inl OutOfRange \<and>
   decode_loaded bs \<noteq> Inl OutOfRange \<and>
   decode_start bs \<noteq> Inl OutOfRange \<and>
   decode_ready_request bs \<noteq> Inl OutOfRange \<and>
   decode_ready_ack bs \<noteq> Inl OutOfRange \<and>
   decode_countdown_ack bs \<noteq> Inl OutOfRange \<and>
   decode_launch_prepare error bs \<noteq> Inl OutOfRange \<and>
   decode_launch_prepare_ack bs \<noteq> Inl OutOfRange \<and>
   decode_launch_commit bs \<noteq> Inl OutOfRange \<and>
   decode_launch_commit_ack bs \<noteq> Inl OutOfRange \<and>
   decode_launch_release bs \<noteq> Inl OutOfRange \<and>
   decode_launch_release_ack bs \<noteq> Inl OutOfRange \<and>
   decode_launch_cancel bs \<noteq> Inl OutOfRange \<and>
   decode_preflight_begin bs \<noteq> Inl OutOfRange \<and>
   decode_preflight_probe bs \<noteq> Inl OutOfRange \<and>
   decode_preflight_result bs \<noteq> Inl OutOfRange"
  by (intro conjI; rule datagram.exact_safe input_batch.dec_safe input_acknowledge.exact_safe
      input_repair_request.exact_safe frame_commit_request.exact_safe gameplay_handoff.exact_safe
      rollback_payload.exact_safe gameplay_barrier.exact_safe frame_commit_batch.dec_safe
      frame_correction_acknowledge.exact_safe decode_state_snapshot_chunk_safe state_request.exact_safe
      state_acknowledge.exact_safe recovery.exact_safe transition_barrier.exact_safe
      simulation_progress.exact_safe racer_orientation.exact_safe state_hash.dec_safe
      hello.dec_safe hello_ack.dec_safe online_save_ready.exact_safe online_save_status.exact_safe
      lobby_state.dec_safe loaded.exact_safe start.exact_safe ready_request.exact_safe
      ready_ack.exact_safe countdown_ack.exact_safe launch_prepare.dec_safe
      launch_prepare_ack.exact_safe launch_commit.exact_safe launch_commit_ack.exact_safe
      launch_release.exact_safe launch_release_ack.exact_safe launch_cancel.exact_safe
      preflight_begin.exact_safe preflight_probe.exact_safe preflight_result.exact_safe)

text \<open>
  C27 (roundtrip). The control messages of a running match are exact codecs: a decoder
  returns a payload exactly for the one non-empty encoding of it, so that no two byte strings
  mean the same message and nothing the encoder sends is refused.
\<close>

theorem match_messages_exact:
  "(decode_input_acknowledge bs = Inr p1 \<longleftrightarrow> bs \<noteq> [] \<and> encode_input_acknowledge p1 = bs) \<and>
   (decode_input_repair_request bs = Inr p2 \<longleftrightarrow> bs \<noteq> [] \<and> encode_input_repair_request p2 = bs) \<and>
   (decode_frame_commit_request bs = Inr p3 \<longleftrightarrow> bs \<noteq> [] \<and> encode_frame_commit_request p3 = bs) \<and>
   (decode_gameplay_handoff bs = Inr p4 \<longleftrightarrow> bs \<noteq> [] \<and> encode_gameplay_handoff p4 = bs) \<and>
   (decode_rollback_payload bs = Inr p5 \<longleftrightarrow> bs \<noteq> [] \<and> encode_rollback_payload p5 = bs) \<and>
   (decode_gameplay_barrier bs = Inr p6 \<longleftrightarrow> bs \<noteq> [] \<and> encode_gameplay_barrier p6 = bs) \<and>
   (decode_frame_correction_acknowledge bs = Inr p7 \<longleftrightarrow>
     bs \<noteq> [] \<and> encode_frame_correction_acknowledge p7 = bs) \<and>
   (decode_state_request bs = Inr p8 \<longleftrightarrow> bs \<noteq> [] \<and> encode_state_request p8 = bs) \<and>
   (decode_state_acknowledge bs = Inr p9 \<longleftrightarrow> bs \<noteq> [] \<and> encode_state_acknowledge p9 = bs) \<and>
   (decode_recovery bs = Inr p10 \<longleftrightarrow> bs \<noteq> [] \<and> encode_recovery p10 = bs) \<and>
   (decode_transition_barrier bs = Inr p11 \<longleftrightarrow> bs \<noteq> [] \<and> encode_transition_barrier p11 = bs) \<and>
   (decode_simulation_progress bs = Inr p12 \<longleftrightarrow> bs \<noteq> [] \<and> encode_simulation_progress p12 = bs) \<and>
   (decode_racer_orientation bs = Inr p13 \<longleftrightarrow> bs \<noteq> [] \<and> encode_racer_orientation p13 = bs)"
  by (intro conjI; rule input_acknowledge.exact input_repair_request.exact frame_commit_request.exact
      gameplay_handoff.exact rollback_payload.exact gameplay_barrier.exact
      frame_correction_acknowledge.exact state_request.exact state_acknowledge.exact recovery.exact
      transition_barrier.exact simulation_progress.exact racer_orientation.exact)

text \<open>
  C28 (roundtrip). The messages of the launch handshake, of save readiness and of the
  connection pre-flight are exact codecs in the same sense; a launch preparation further only
  decodes when it carries a start of stage 0.
\<close>

theorem launch_messages_exact:
  "(decode_loaded bs = Inr p1 \<longleftrightarrow> bs \<noteq> [] \<and> encode_loaded p1 = bs) \<and>
   (decode_start bs = Inr p2 \<longleftrightarrow> bs \<noteq> [] \<and> encode_start p2 = bs) \<and>
   (decode_ready_request bs = Inr p3 \<longleftrightarrow> bs \<noteq> [] \<and> encode_ready_request p3 = bs) \<and>
   (decode_ready_ack bs = Inr p4 \<longleftrightarrow> bs \<noteq> [] \<and> encode_ready_ack p4 = bs) \<and>
   (decode_countdown_ack bs = Inr p5 \<longleftrightarrow> bs \<noteq> [] \<and> encode_countdown_ack p5 = bs) \<and>
   (decode_launch_prepare_ack bs = Inr p6 \<longleftrightarrow> bs \<noteq> [] \<and> encode_launch_prepare_ack p6 = bs) \<and>
   (decode_launch_commit bs = Inr p7 \<longleftrightarrow> bs \<noteq> [] \<and> encode_launch_commit p7 = bs) \<and>
   (decode_launch_commit_ack bs = Inr p8 \<longleftrightarrow> bs \<noteq> [] \<and> encode_launch_commit_ack p8 = bs) \<and>
   (decode_launch_release bs = Inr p9 \<longleftrightarrow> bs \<noteq> [] \<and> encode_launch_release p9 = bs) \<and>
   (decode_launch_release_ack bs = Inr p10 \<longleftrightarrow> bs \<noteq> [] \<and> encode_launch_release_ack p10 = bs) \<and>
   (decode_launch_cancel bs = Inr p11 \<longleftrightarrow> bs \<noteq> [] \<and> encode_launch_cancel p11 = bs) \<and>
   (decode_preflight_begin bs = Inr p12 \<longleftrightarrow> bs \<noteq> [] \<and> encode_preflight_begin p12 = bs) \<and>
   (decode_preflight_probe bs = Inr p13 \<longleftrightarrow> bs \<noteq> [] \<and> encode_preflight_probe p13 = bs) \<and>
   (decode_preflight_result bs = Inr p14 \<longleftrightarrow> bs \<noteq> [] \<and> encode_preflight_result p14 = bs) \<and>
   (decode_online_save_ready bs = Inr p15 \<longleftrightarrow> bs \<noteq> [] \<and> encode_online_save_ready p15 = bs) \<and>
   (decode_online_save_status bs = Inr p16 \<longleftrightarrow> bs \<noteq> [] \<and> encode_online_save_status p16 = bs) \<and>
   (decode_launch_prepare error bs = Inr p17 \<longleftrightarrow>
     bs \<noteq> [] \<and> encode_launch_prepare p17 = bs \<and> st_stage (pr_start p17) = 0)"
  by (intro conjI; (rule loaded.exact start.exact ready_request.exact ready_ack.exact countdown_ack.exact
      launch_prepare_ack.exact launch_commit.exact launch_commit_ack.exact launch_release.exact
      launch_release_ack.exact launch_cancel.exact preflight_begin.exact preflight_probe.exact
      preflight_result.exact online_save_ready.exact online_save_status.exact
      | auto simp: launch_prepare.dec_iff prepare_ok_def))

text \<open>
  C29 (roundtrip). Inputs and commits. An input batch the encoder accepts arrives as its
  canonical form: the same inputs, with the revisions the sender left implicit written out and
  no simulation progress where none was present; a decoded batch is canonical and encodes to
  the very bytes received. A batch of frame commits decodes exactly when it is an encoding of
  commits with a non-zero epoch, occupied mask and hash, a predicted mask inside the occupied
  one and an input for each of the four slots.
\<close>

theorem input_batch_exact:
  "(decode_input_batch bs = Inr b \<longleftrightarrow>
     bs \<noteq> [] \<and> encode_input_batch b = bs \<and> canonical_batch b = b) \<and>
   decode_input_batch (encode_input_batch b) \<in>
     (if encode_input_batch b = [] then UNIV else {Inr (canonical_batch b)}) \<and>
   (decode_frame_commit_batch bs = Inr c \<longleftrightarrow>
     bs \<noteq> [] \<and> encode_frame_commit_batch c = bs \<and> list_all commit_ok (fb_commits c))"
  using decode_encode_input_batch [of b]
  by (auto simp: input_batch.dec_iff frame_commit_batch.dec_iff list_all_iff)

text \<open>
  C30 (roundtrip). The admission messages: a hello decodes exactly when its name and its
  manifest are valid, and the host's answer, with the synchronized save and the offered
  manifest, decodes exactly when it was encoded and the offer is a valid manifest. The lobby
  state, whose packet loss travels as hundredths of a percent in sixteen bits, decodes exactly
  as the host encoded it, for every loss that is a whole number of hundredths. (The value that
  the conversion of a NaN leaves in the word does not matter.)
\<close>

theorem admission_messages_exact:
  "(decode_hello bs = Inr h \<longleftrightarrow>
     bs \<noteq> [] \<and> encode_hello h = bs \<and> valid_display_name (he_display_name h) \<and>
     manifest_ok (he_manifest h) \<and> length (he_friend_admission h) = 32) \<and>
   (decode_hello_ack bs = Inr a \<longleftrightarrow>
     bs \<noteq> [] \<and> encode_hello_ack a = bs \<and> pred_option manifest_ok (hk_compatibility_offer a)) \<and>
   (decode_lobby_state bs = Inr p \<longleftrightarrow> lobby_state_ok p \<and> encode_lobby_state nan p = bs)"
  by (auto simp: hello.dec_iff hello_ok_def hello_ack.dec_iff hello_ack_ok_def option.pred_set lobby_state.dec_iff)

section \<open>State transfer and the replay window\<close>

text \<open>
  C20 (roundtrip). A state that is sent as a snapshot arrives unchanged: compressed when
  that is shorter and raw otherwise. The one exception is a raw state that itself begins with
  the magic of a compressed one. Whenever a delta against a keyframe is produced, the receiver
  recognises it as one and recovers the state with the same keyframe and keyframe frame.
\<close>

theorem state_wire_roundtrip:
  assumes "length s \<le> maximum"
  shows "(s \<noteq> [] \<and> take 4 s \<noteq> State_Codec.kMagic \<longrightarrow>
      decode_authoritative_state_wire (encode_authoritative_state_wire s) maximum = Inr s) \<and>
    (encode_authoritative_state_delta_wire s k f \<noteq> [] \<longrightarrow>
      authoritative_state_wire_is_delta (encode_authoritative_state_delta_wire s k f) \<and>
      decode_authoritative_state_delta_wire (encode_authoritative_state_delta_wire s k f) k f maximum = Inr s)"
  using assms decode_delta_roundtrip [of s k f maximum] by (auto intro!: decode_state_wire_roundtrip)

theorem state_wire_roundtrip_witness:
  "decode_authoritative_state_wire
     (encode_authoritative_state_wire [7, 7, 7, 7, 7, 7, 7, 7, 7, 7, 7, 7, 1, 2, 3]) 64 =
   Inr [7, 7, 7, 7, 7, 7, 7, 7, 7, 7, 7, 7, 1, 2, 3] \<and>
   decode_authoritative_state_delta_wire
     (encode_authoritative_state_delta_wire (replicate 16 7) (replicate 16 9) 3) (replicate 16 9) 3 64 =
   Inr (replicate 16 7)"
proof -
  have x: "xor_bytes (replicate 16 7) (replicate 16 9) = replicate 16 14"
    by (simp add: xor_bytes_def zip_replicate)
  have "length (rle_body (replicate 16 14)) = 2" by code_simp
  then have "encode_authoritative_state_delta_wire (replicate 16 7) (replicate 16 9) 3 \<noteq> []"
    by (simp add: encode_authoritative_state_delta_wire_def x encode_rle_def kDeltaMagic_def)
  then show ?thesis
    using state_wire_roundtrip [of "replicate 16 7" 64 "replicate 16 9" 3]
      state_wire_roundtrip [of "[7, 7, 7, 7, 7, 7, 7, 7, 7, 7, 7, 7, 1, 2, 3]" 64 "[]" 0]
    by (simp add: State_Codec.kMagic_def)
qed

text \<open>
  C25 (bounds). Decoding a snapshot or a delta never reads outside the packet and never
  produces a state above the receiver's limit, whatever the packet claims; a delta yields a
  state of the keyframe's length. The encoder never makes a snapshot longer.
\<close>

theorem state_wire_bounds:
  "decode_authoritative_state_wire w maximum \<noteq> Inl OutOfRange \<and>
   decode_authoritative_state_delta_wire w k f maximum \<noteq> Inl OutOfRange \<and>
   pred_sum (\<lambda>_. True) (\<lambda>s. s \<noteq> [] \<and> length s \<le> maximum) (decode_authoritative_state_wire w maximum) \<and>
   pred_sum (\<lambda>_. True) (\<lambda>s. length s = length k \<and> length s \<le> maximum)
     (decode_authoritative_state_delta_wire w k f maximum) \<and>
   length (encode_authoritative_state_wire s) \<le> length s"
  using decode_state_wire_bound [of w maximum] decode_delta_length [of w k f maximum]
    encode_state_wire_length [of s]
  by (auto simp: decode_state_wire_safe decode_delta_safe pred_sum.simps
      split: sum.splits intro: sumE)

text \<open>
  C12 (refinement). The receive window accepts no sequence number twice and never 0, whatever
  datagrams arrive in whatever order. It implements the abstract receiver that remembers every
  accepted number and the highest one: the next number is accepted exactly when it is not 0,
  has not been accepted before and is less than 65536 below the highest number offered.
\<close>

theorem replay_at_most_once:
  "distinct (accepted_from empty_window ss) \<and> 0 \<notin> set (accepted_from empty_window ss) \<and>
   (fst (accept s (window_after empty_window ss)) \<longleftrightarrow>
      admits (set (accepted_from empty_window ss)) (foldl max 0 ss) s)"
  using accepted_from_fresh [OF window_represents_empty, of ss]
    window_after_represents [OF window_represents_empty, of ss]
    accept_refines(1) [OF window_after_represents [OF window_represents_empty], of s ss]
    window_after_highest [OF window_represents_empty, of ss]
  by (auto simp: window_represents_def empty_window_def)

section \<open>Rollback stores\<close>

text \<open>
  C33 (safety). What the ring returns for a frame after any sequence of saves is the state
  and the checksum of the latest accepted save of that very frame.
\<close>

theorem ring_never_stale:
  assumes "ring_load g n (run_saves ring_save ops (new_ring cap n)) = Some v"
  shows "latest_save (\<lambda>st. length st = n) ops g = Some v"
proof -
  let ?r = "new_ring cap n"
  have size: "state_size (run_saves ring_save ops r) = state_size r" for r
    by (induction ops arbitrary: r) (simp_all add: ring_save_slots)
  have "state_size ?r = n" "ring_load g n ?r = None"
    using slot_index_less [OF new_ring_inv, of g cap n]
    by (simp_all add: new_ring_def ring_load_def Let_def)
  then show ?thesis
    using ring.load_run_saves [OF new_ring_inv, of g ops cap n v] assms by (simp add: size)
qed

theorem ring_never_stale_witness:
  "latest_save (\<lambda>st. length st = 1) [SaveOp 5 [1] 9, SaveOp 6 [2] 8, SaveOp 5 [3] 7] 5 = Some ([3], 7)"
  by (rule ring_never_stale [where cap = 4])
    (simp add: new_ring_def ring_save_def ring_load_def slot_index_def)

text \<open>
  After consecutive frames have been saved, each of the last as many frames
  as the ring has slots (its capacity, at least two) can be loaded, with the state saved for
  it, across the whole range of frame numbers.
\<close>

theorem ring_retains:
  assumes "\<forall>(st, c) \<in> set xs. length st = n" "first + length xs \<le> 2 ^ 32"
    "i < length xs" "length xs \<le> i + max cap 2"
  shows "ring_load (of_nat (first + i)) n (save_frames ring_save first xs (new_ring cap n)) =
    Some (xs ! i)"
  using load_save_frames [OF new_ring_inv, of xs cap n first i] assms by (simp add: new_ring_def)

theorem ring_retains_witness:
  "ring_load 6 1 (save_frames ring_save 5 [([1], 9), ([2], 8), ([3], 7)] (new_ring 2 1)) = Some ([2], 8)"
  using ring_retains [of "[([1], 9), ([2], 8), ([3], 7)]" 1 5 1 2] by simp

text \<open>
  C13 (refinement). The page store, which keeps checkpoints and changed pages and evicts
  whole checkpoint groups, returns for a frame only the complete state and the checksum of
  the latest accepted save of that frame, after any sequence of saves in any order.
\<close>

theorem store_never_stale:
  assumes "store_load g n (run_saves store_save ops (new_store n cap interval)) = Some v"
    and "page_count n \<le> 2 ^ 32"
  shows "latest_save (store_accepts (new_store n cap interval)) ops g = Some v"
proof -
  let ?s = "new_store n cap interval"
  have inv: "store_inv ?s" using represents_new [OF assms(2)] by (auto simp: store_inv_def)
  have size: "state_bytes (run_saves store_save ops s) = state_bytes s" for s
    by (induction ops arbitrary: s) (simp_all add: store_save_params)
  have "store_load g n ?s = None" "state_bytes ?s = n"
    by (simp_all add: new_store_def store_load_def)
  then show ?thesis
    using store.load_run_saves [OF inv, of g ops v] assms(1) by (simp add: size)
qed

theorem store_never_stale_witness:
  "latest_save (store_accepts (new_store 1 4 2)) [SaveOp 5 [1] 9, SaveOp 6 [2] 8] 6 = Some ([2], 8)"
  by (rule store_never_stale [where g = 6 and n = 1])
    (simp_all add: new_store_def store_save_def store_load_def Let_def before_save_def new_entry_def
      page_count_def kPageBytes_def ensure_front_is_checkpoint_def reconstruct_def page_of_def)

text \<open>
  C34 (liveness). After consecutive frames have been saved, each of the last
  capacity + 1 - interval frames can be loaded with the state saved for it, whatever the
  number of saves: eviction never removes a frame of that window.
\<close>

theorem store_retains_window:
  assumes "0 < n" "page_count n \<le> 2 ^ 32" "0 < interval" "interval \<le> cap"
    and "\<forall>(st, c) \<in> set xs. length st = n" "first + length xs \<le> 2 ^ 32"
    and "i < length xs" "length xs \<le> i + (cap + 1 - interval)"
  shows "store_load (of_nat (first + i)) n
      (save_frames store_save first xs (new_store n cap interval)) = Some (xs ! i)"
  using assms by (rule store_retains)

theorem store_retains_window_witness:
  "store_load 6 1 (save_frames store_save 5 [([1], 9), ([2], 8), ([3], 7)] (new_store 1 3 2)) =
   Some ([2], 8)"
  using store_retains_window [of 1 2 3 "[([1], 9), ([2], 8), ([3], 7)]" 5 1]
  by (simp add: page_count_def kPageBytes_def)

section \<open>The input timeline\<close>

text \<open>
  C7 (refinement). The central contract of rollback, after any calls. The prediction that is open
  for a slot of a frame is kept from the calls alone: the input the latest simulation of the
  frame used for the slot without having it, until the slot's input arrives, the timeline is
  reset or another frame takes the place of the frame in the ring. An input that arrives asks
  for a rollback to its frame exactly when it contradicts an open prediction; it is confirmed
  from then on; simulating the frame afterwards uses it, and for the other slots what would
  have been used without it; and simulating a frame again uses the same inputs.
\<close>

theorem timeline_rollback_contract:
  assumes "cap < 2 ^ 32" "unat slot < kMaximumPlayers"
    "fold (open_prediction slot f) calls (new_timeline cap, None) = (t, w)" "set_remote slot f i t = (rollback, t2)"
  shows "t = fold timeline_perform calls (new_timeline cap) \<and>
    rollback = (case w of Some v \<Rightarrow> if v \<noteq> i then Some f else None | None \<Rightarrow> None) \<and>
    slot_confirmed slot f t2 \<and> fst (inputs_for f t2) = (fst (inputs_for f t))[unat slot := i] \<and>
    fst (inputs_for f (snd (inputs_for f t))) = fst (inputs_for f t)"
proof -
  note c = rollback_contract [OF assms]
  show ?thesis
    using c(1) inputs_after_arrival [OF c(2) assms(2), of t2 f i] inputs_for_again [OF c(2)] assms(3,4)
      open_prediction_timeline [of slot f calls "new_timeline cap" None] by simp
qed

theorem timeline_rollback_contract_witness:
  "let i = \<lparr>buttons = 4, stick_x = 1, stick_y = 0\<rparr>; used = [InputsFor 7, SetRemote 1 7 i, InputsFor 8];
       run = (\<lambda>calls. fold timeline_perform calls (new_timeline 32))
   in fst (set_remote 2 7 i (run used)) = Some 7 \<and> fst (set_remote 2 7 no_input (run used)) = None \<and>
      fst (set_remote 2 7 i (run (used @ [InputsFor 39]))) = None"
proof -
  let ?i = "\<lparr>buttons = 4, stick_x = 1, stick_y = 0\<rparr> :: PackedInput"
  let ?used = "[InputsFor 7, SetRemote 1 7 ?i, InputsFor 8]"
  have w: "snd (fold (open_prediction 2 7) ?used (new_timeline 32, None)) = Some no_input"
    "snd (fold (open_prediction 2 7) (?used @ [InputsFor 39]) (new_timeline 32, None)) = None" by code_simp+
  have "fst (set_remote 2 7 j (fold timeline_perform calls (new_timeline 32))) =
      (case snd (fold (open_prediction 2 7) calls (new_timeline 32, None)) of
         Some v \<Rightarrow> if v \<noteq> j then Some 7 else None | None \<Rightarrow> None)" for j calls
  proof -
    obtain t v where f: "fold (open_prediction 2 7) calls (new_timeline 32, None) = (t, v)" by fastforce
    obtain rollback t2 where "set_remote 2 7 j t = (rollback, t2)" by fastforce
    from timeline_rollback_contract [OF _ _ f this] this show ?thesis by (simp add: f kMaximumPlayers_def)
  qed
  then show ?thesis by (simp only: Let_def w) (simp add: no_input_def)
qed

text \<open>
  C31 (refinement). An input the timeline holds as arrived is the one last set for that
  slot and frame since the last reset: the ring may forget a frame, but it never mixes up two
  frames that share an entry.
\<close>

theorem timeline_never_stale:
  assumes "cap < 2 ^ 32" "slot < kMaximumPlayers"
    and "arrived slot f (fold timeline_perform calls (new_timeline cap)) = Some i"
  shows "fold hear calls Map.empty (slot, f) = Some i"
  by (rule timeline_run_heard [OF new_timeline_inv [OF assms(1)] assms(2) _ assms(3)])
    (simp add: new_timeline_arrived [OF assms(1)])

theorem timeline_never_stale_witness:
  "fold hear [SetLocal 0 7 (no_input\<lparr>buttons := 4\<rparr>)] Map.empty (0, 7) = Some (no_input\<lparr>buttons := 4\<rparr>)"
proof (rule timeline_never_stale [of 32])
  have inv: "timeline_inv (new_timeline 32)" by (simp add: new_timeline_inv)
  show "arrived 0 7 (fold timeline_perform [SetLocal 0 7 (no_input\<lparr>buttons := 4\<rparr>)] (new_timeline 32)) =
      Some (no_input\<lparr>buttons := 4\<rparr>)"
    using set_local_find [OF inv, of 0 7 7] arrived_arrive [OF entry_or_new_ok [OF inv, of 7], of 0]
    by (simp add: arrived_def kMaximumPlayers_def)
qed (simp_all add: kMaximumPlayers_def)

text \<open>
  C32 (functional). The inputs a frame is simulated with: for every player the arrived
  input, and otherwise the arrived input of the nearest earlier frame the timeline still
  holds, or no input at all.
\<close>

theorem inputs_for_prediction:
  assumes "timeline_inv t" "slot < kMaximumPlayers"
  shows "fst (inputs_for f t) ! slot =
    (case arrived slot f t of
       Some i \<Rightarrow> i
     | None \<Rightarrow>
         (case find (\<lambda>k. arrived slot (f - of_nat k) (claim_entry f t) \<noteq> None)
              [1..<Suc (min (unat f) (length (tl_entries t)))] of
            Some k \<Rightarrow> the (arrived slot (f - of_nat k) (claim_entry f t))
          | None \<Rightarrow> no_input))"
  using inputs_for_nth(1) [OF assms, of f] by (simp add: previous_spec split: option.splits)

theorem inputs_for_prediction_witness:
  "fst (inputs_for 0 (new_timeline 32)) ! 3 = no_input"
  using inputs_for_prediction [of "new_timeline 32" 3 0]
  by (simp add: kMaximumPlayers_def new_timeline_inv new_timeline_arrived)

text \<open>
  The masks the session sends describe the arrivals exactly: after a
  frame was simulated its predicted mask has the bits of the occupied slots whose input had
  not arrived, and a frame is confirmed exactly when the mask names a slot and every slot it
  names has arrived.
\<close>

theorem timeline_masks_exact:
  assumes "timeline_inv t"
  shows "(bit (predicted_mask f m (snd (inputs_for f t))) s \<longleftrightarrow>
      s < 4 \<and> bit m s \<and> arrived s f t = None) \<and>
    (confirmed_mask f m t \<longleftrightarrow> m AND 0x0F \<noteq> 0 \<and>
      list_all (\<lambda>s. \<not> bit m s \<or> arrived s f t \<noteq> None) [0..<4])"
  using predicted_mask_after_use [OF assms] confirmed_mask_spec [OF assms] low_mask_nonzero [of m]
  by (auto simp: list_all_iff)

theorem timeline_masks_exact_witness:
  "bit (predicted_mask 3 5 (snd (inputs_for 3 (new_timeline 32)))) 2"
  using timeline_masks_exact [of "new_timeline 32" 3 5 2]
  by (simp add: new_timeline_inv new_timeline_arrived)

text \<open>
  The unconfirmed runway counts exactly the frames back from a frame that are
  not confirmed, stopping at the first confirmed one, at frame 0 and at the size of the ring.
\<close>

theorem unconfirmed_runway_exact:
  assumes "timeline_inv t" "n = unat (unconfirmed_runway f m t)"
  shows "n \<le> min (length (tl_entries t)) (unat f + 1) \<and>
    list_all (\<lambda>k. \<not> confirmed_mask (f - of_nat k) m t) [0..<n] \<and>
    (n < min (length (tl_entries t)) (unat f + 1) \<longrightarrow> confirmed_mask (f - of_nat n) m t)"
  using unconfirmed_runway_spec [OF assms(1), of f m] assms(2) by (simp add: list_all_iff)

theorem unconfirmed_runway_exact_witness:
  "unat (unconfirmed_runway 5 1 (new_timeline 32)) \<le> 6"
  using unconfirmed_runway_exact [of "new_timeline 32" _ 5 1] by (simp add: new_timeline_inv)

section \<open>The lobby\<close>

text \<open>
  C14 (invariant). In every room that a creation and any sequence of calls can produce, the
  roster is well-formed: four entries, the host and nobody else in slot 0, every player's slot
  is its position, no two players share a peer identity, nobody absent is ready or loaded, and
  the rules are valid.
\<close>

theorem lobby_invariant:
  assumes "lobby_reachable r"
  shows "room_inv r"
  using assms by (rule reachable_room_inv)

theorem lobby_invariant_witness:
  "room_inv (perform (SetReady ''h'' True) (perform (Join ''g'' ''Guest'' example_manifest) (example_room 4)))"
  by (rule lobby_invariant) (intro lobby_reachable.called lobby_reachable.created [OF example_created]; simp)

text \<open>
  C35 (invariant). Whatever the call, either the generation of the room is incremented or
  everything but the network statistics stays as it was: a peer that compares generations
  misses no change it must know.
\<close>

theorem lobby_generation_stamps_changes:
  "ro_generation (perform call r) = ro_generation r + 1 \<or>
   (ro_generation (perform call r) = ro_generation r \<and>
    visible_room (perform call r) = visible_room r)"
  by (rule perform_generation)

text \<open>
  C18 (safety). The phases of a room change only along the launch: to loading from waiting,
  by the host and when the start check passes; to running from loading, by the host and when
  every present racer has loaded; to finished when the host leaves; and back to waiting.
\<close>

theorem lobby_phase_steps:
  "ro_phase (perform call r) = ro_phase r \<or>
   (ro_phase (perform call r) = Loading \<and> ro_phase r = Waiting \<and> lobby_can_start r = Inr () \<and>
      (\<exists>error host. call = BeginLoading error host \<and> is_host host r)) \<or>
   (ro_phase (perform call r) = Running \<and> ro_phase r = Loading \<and>
      filter (\<lambda>p. pl_occupied p \<and> \<not> pl_loaded p) (ro_players r) = [] \<and>
      (\<exists>host. call = BeginRunning host \<and> is_host host r)) \<or>
   (ro_phase (perform call r) = Waiting \<and> call = ReturnToWaiting) \<or>
   (ro_phase (perform call r) = Finished \<and> (\<exists>host. call = Leave host \<and> is_host host r))"
  using perform_phase [of call r] by (simp add: filter_empty_conv)

text \<open>
  A reachable room passes the start check exactly when it is waiting, has
  at least two racers, no more than two of them when the two-player adventure code is set, and
  every racer present is ready.
\<close>

theorem lobby_start_check:
  assumes "lobby_reachable r"
  shows "lobby_can_start r = Inr () \<longleftrightarrow>
    ro_phase r = Waiting \<and> 2 \<le> player_count r \<and>
    (player_count r \<le> 2 \<or> magic_codes_hash (ro_manifest r) AND push_bit 24 1 = 0) \<and>
    filter (\<lambda>p. pl_occupied p \<and> \<not> pl_ready p) (ro_players r) = []"
  using can_start_iff [OF reachable_room_inv [OF assms]] by (auto simp: filter_empty_conv not_le)

theorem lobby_start_check_witness:
  "lobby_can_start (example_room 4) \<noteq> Inr ()"
  using lobby_start_check [OF lobby_reachable.created [OF example_created, of 4]]
  by (simp add: example_room_def player_count_def no_player_def new_player_def)

text \<open>
  C36 (invariant). As long as nobody is moved to another slot, the racers of a room fill its
  slots from 0 without a gap, and there are never more of them than the rules allow.
\<close>

theorem lobby_contiguous:
  assumes "lobby_create room_id join_code room_name visibility host host_name manifest rules r0 = (Inr (), r)"
    and "list_all (\<lambda>call. \<not> is_move call) calls"
  shows "contiguous (ro_players (fold perform calls r)) \<and>
    player_count (fold perform calls r) \<le> unat (maximum_players (ro_rules (fold perform calls r)))"
  using run_full_ok [OF create_full_ok [OF assms(1)], of calls] assms(2)
  by (simp add: list_all_iff room_full_ok_def)

theorem lobby_contiguous_witness:
  "contiguous (ro_players (fold perform
     [Join ''g'' ''Guest'' example_manifest, Leave ''g'', SetRules ''h'' (example_rules 2)] (example_room 4)))"
  using lobby_contiguous [OF example_created, of 4
      "[Join ''g'' ''Guest'' example_manifest, Leave ''g'', SetRules ''h'' (example_rules 2)]"]
  by simp

text \<open>
  Why moves are excluded: after a client is moved past an empty slot, lowering the maximum and
  another join leave three racers in a room for two. (Nothing in the source calls \<^verbatim>\<open>move_client\<close>.)
\<close>

lemma move_client_overfills:
  "let r = fold perform
     [Join ''b'' ''Guest'' example_manifest, MoveClient ''h'' ''b'' 3, SetRules ''h'' (example_rules 2),
      Join ''c'' ''Guest'' example_manifest] (example_room 4)
   in player_count r = 3 \<and> maximum_players (ro_rules r) = 2 \<and> \<not> contiguous (ro_players r)"
  by (simp add: example_run contiguous_4)

section \<open>Compatibility and fingerprints\<close>

text \<open>
  The fingerprint of the save and of the descriptors always detects a
  change of a single byte.
\<close>

theorem fingerprint_detects_one_byte:
  "stable_hash (xs @ b # ys) = stable_hash (xs @ b' # ys) \<longleftrightarrow> b = b'"
  by (rule stable_hash_detects_one_byte)

section \<open>The synchronized start, end to end\<close>

text \<open>
  C19 (refinement). The host's lobby, the wire and a client's check agree. Take a room as the
  calls of the lobby build it, without a move to another slot, that the host has just put into
  loading; and a client of the same match and build, with an older view of the room and a
  racer in it. Then the start message for the descriptor the host makes can be encoded, it
  decodes to itself, and the client, once it has applied the host's lobby state, accepts it.
\<close>

theorem start_accepted_by_clients:
  assumes "lobby_create room_id join_code room_name visibility host host_name manifest rules r0 = (Inr (), r)"
    and "list_all (\<lambda>call. \<not> is_move call) calls"
    and "lobby_begin_loading error host' (fold perform calls r) = (Inr (), ds_lobby h)"
    and "ds_match_id h \<noteq> 0" "manifest_hash (ds_manifest h) \<noteq> 0"
    and "ds_input_delay h \<le> kMaximumInputDelayFrames"
    and "ds_match_id c = ds_match_id h" "ds_manifest c = ds_manifest h" "ds_launch_descriptor c = None"
    and "ro_generation (ds_room_view c) < ro_generation (ds_lobby h)"
    and "unat (ds_local_slot c) < kMaximumPlayers"
      "pl_occupied (ro_players (ds_lobby h) ! unat (ds_local_slot c))"
    and "p = \<lparr>st_stage = 0, st_descriptor = make_launch_descriptor h,
      st_descriptor_hash = launch_descriptor_hash (make_launch_descriptor h)\<rparr>"
  shows "encode_start p \<noteq> [] \<and> decode_start (encode_start p) = Inr p \<and>
    validate_start_descriptor p (apply_lobby_payload now (lobby_payload sent h) c) = Inr ()"
proof -
  note room = loading_room [OF assms(1-3)]
  have accepted: "validate_start_descriptor p (apply_lobby_payload now (lobby_payload sent h) c) = Inr ()"
    unfolding assms(13) by (rule start_accepted [OF room assms(4-12)])
  then have "valid_launch_descriptor (st_descriptor p)"
    by (auto simp: validate_start_descriptor_def Let_def split: if_splits)
  then have "encode_start p \<noteq> []" by (simp add: encode_start_def Let_def assms(13))
  then show ?thesis using accepted start.codec.dec_enc by blast
qed

theorem start_accepted_by_clients_witness:
  "\<exists>h c p. ro_phase (ds_lobby h) = Loading \<and> decode_start (encode_start p) = Inr p \<and>
     validate_start_descriptor p (apply_lobby_payload 0 (lobby_payload 0 h) c) = Inr ()"
proof -
  let ?calls = "[Join ''g'' ''Guest'' example_manifest, SetReady ''h'' True, SetReady ''g'' True]"
  let ?r = "fold perform ?calls (example_room 4)"
  let ?l = "snd (lobby_begin_loading [] ''h'' ?r)"
  let ?h = "example_session True 0 ?l ?l" and ?c = "example_session False 1 ?l (example_room 4)"
  let ?p = "\<lparr>st_stage = 0, st_descriptor = make_launch_descriptor ?h,
    st_descriptor_hash = launch_descriptor_hash (make_launch_descriptor ?h)\<rparr>"
  have b: "lobby_begin_loading [] ''h'' ?r = (Inr (), ?l)" and l: "ro_phase ?l = Loading"
    "ro_generation ?l = 5" "pl_occupied (ro_players ?l ! 1)"
    by (simp_all add: example_run lobby_begin_loading_def lobby_can_start_def example_manifest_def)
  have "decode_start (encode_start ?p) = Inr ?p \<and>
      validate_start_descriptor ?p (apply_lobby_payload 0 (lobby_payload 0 ?h) ?c) = Inr ()"
    using start_accepted_by_clients [OF example_created, of 4 ?calls "[]" "''h''" ?h ?c ?p 0 0] b l
      example_manifest_hash
    by (simp add: example_session_def example_room_def netplay_limits)
  then show ?thesis using l(1) by (intro exI [of _ ?h] exI [of _ ?c] exI [of _ ?p]) (simp add: example_session_def)
qed

text \<open>
  C38 (functional). Admission. Two manifests are compatible exactly when they are equal, and the
  reason given otherwise is classified as the first group of fields that differs. The host
  admits a manifest exactly when it agrees with its own on everything but the save, and on the
  save too unless the host has a validated one to send.
\<close>

theorem admission_exact:
  "(incompatibility_reason expected candidate = [] \<longleftrightarrow> candidate = expected) \<and>
   code (classify_online_failure (incompatibility_reason expected candidate)) = mismatch_code expected candidate \<and>
   (admission_incompatibility m s = [] \<longleftrightarrow>
     m\<lparr>session_save_hash := session_save_hash (ds_manifest s)\<rparr> = ds_manifest s \<and>
     (m = ds_manifest s \<or>
      (length (ds_session_save s) = 512 \<and> ds_session_save_generation s \<noteq> 0 \<and>
       session_save_hash (ds_manifest s) = stable_hash (ds_session_save s))))"
  using incompatibility_reason_empty incompatibility_classified
  by (auto simp: admission_iff save_sync_available_def)

section \<open>Pacing\<close>

text \<open>
  C39 (invariant). Whatever samples a guest's catch-up controller sees, its pace stays between
  1000 and 1333 thousandths of the retail pace, which is 30 to 40 Hz, is exactly the retail
  pace in the normal state, and rises by at most 67 thousandths per sample.
\<close>

theorem catch_up_bounded:
  assumes "c = catch_up_run ss catch_up_reset" "catch_up_update s c = (decision, c')"
  shows "cd_pacing_scale_milli decision \<in> {1000..1333} \<and> cd_target_simulation_hz decision \<in> {30..40} \<and>
    (cd_state decision = Normal \<longrightarrow> cd_pacing_scale_milli decision = 1000) \<and>
    unat (cd_pacing_scale_milli decision) \<le> unat (cc_scale_milli c) + 67"
proof -
  have inv: "catch_up_inv c" unfolding assms(1) by (rule catch_up_run_inv [OF reset_catch_up_inv])
  have c': "c' = snd (catch_up_update s c)" "decision = catch_up_decision (cc_state c \<noteq> cc_state c') c'"
    using assms(2) update_cases(2) [of s c] by simp_all
  have inv': "catch_up_inv c'" unfolding c'(1) by (rule catch_up_update_inv [OF inv])
  show ?thesis
    using inv' decision_hz [OF inv', of "cc_state c \<noteq> cc_state c'"] catch_up_step_limit [OF inv, of s]
    unfolding c'(1) [symmetric]
    by (auto simp: c'(2) catch_up_decision_def catch_up_inv_def word_le_nat_alt word_unat_eq_iff)
qed

theorem catch_up_bounded_witness:
  "cd_pacing_scale_milli (fst (catch_up_update \<lparr>cs_eligible = True, cs_frame_debt = 9, cs_target_debt = 2,
     cs_contiguous_commits = 1\<rparr> catch_up_reset)) \<in> {1000..1333}"
  using catch_up_bounded [of catch_up_reset "[]"] by (simp add: catch_up_run_def prod_eq_iff)

text \<open>
  C40 (liveness). The hysteresis works in both directions. From any state, seventeen samples
  in a row within one frame of the target bring the controller back to the normal state and
  the retail pace; and from the normal state at most three samples in a row at two frames
  above the target, with commits to consume, start catching up.
\<close>

theorem catch_up_hysteresis:
  assumes "c = catch_up_run history catch_up_reset"
  shows "(list_all settled ss \<and> 17 \<le> length ss \<longrightarrow>
      cc_state (catch_up_run ss c) = Normal \<and> cc_scale_milli (catch_up_run ss c) = 1000) \<and>
    (cc_state c = Normal \<and> behind s1 \<and> behind s2 \<and> behind s3 \<longrightarrow>
      (\<exists>k \<le> 3. cc_state (catch_up_run (take k [s1, s2, s3]) c) = CatchUp))"
proof -
  have inv: "catch_up_inv c" unfolding assms by (rule catch_up_run_inv [OF reset_catch_up_inv])
  show ?thesis using catch_up_settles [OF inv] behind_starts [OF inv] by blast
qed

theorem catch_up_hysteresis_witness:
  "let s = \<lparr>cs_eligible = True, cs_frame_debt = 9, cs_target_debt = 2, cs_contiguous_commits = 1\<rparr>;
       t = \<lparr>cs_eligible = True, cs_frame_debt = 2, cs_target_debt = 2, cs_contiguous_commits = 1\<rparr>
   in cc_state (catch_up_run (replicate 17 t) (catch_up_run [s, s, s, s] catch_up_reset)) = Normal \<and>
      (\<exists>k \<le> 3. cc_state (catch_up_run (take k [s, s, s]) catch_up_reset) = CatchUp)"
proof -
  let ?s = "\<lparr>cs_eligible = True, cs_frame_debt = 9, cs_target_debt = 2, cs_contiguous_commits = 1\<rparr>"
  let ?t = "\<lparr>cs_eligible = True, cs_frame_debt = 2, cs_target_debt = 2, cs_contiguous_commits = 1\<rparr>"
  have b: "behind ?s" "settled ?t" "cc_state catch_up_reset = Normal"
    by (simp_all add: behind_def settled_def settled_limit_def catch_up_reset_def)
  show ?thesis
    using catch_up_hysteresis [of catch_up_reset "[]" "[]" ?s ?s ?s] b
      catch_up_hysteresis [OF refl, of "replicate 17 ?t" "[?s, ?s, ?s, ?s]"]
    unfolding Let_def by (simp add: catch_up_run_def list_all_iff)
qed

text \<open>
  C37 (safety). While the host is not held back, the frame its guest has completed lies in
  the history of live replicas: the oldest replica the host retains is not newer than what
  the guest has completed, and the host's newest one is inside the guest's recovery window.
\<close>

theorem recovery_always_resident:
  assumes "\<not> host_backpressure_required n completed (host_authority_lead_limit rtt jitter delay)"
    and "completed \<le> n"
  shows "live_replica_oldest_retained_frame n \<le> completed \<and> live_replica_within_recovery_window completed n"
  using recovery_in_window [OF assms] by blast

theorem recovery_always_resident_witness:
  "live_replica_oldest_retained_frame 60 \<le> 55 \<and> live_replica_within_recovery_window 55 60"
proof (rule recovery_always_resident [of 60 55 0 0 2])
  show "\<not> host_backpressure_required 60 55 (host_authority_lead_limit 0 0 2)"
    unfolding backpressure unat_lead by simp
qed simp

text \<open>
  A fast-forward window, for a target debt that is not zero, begins at the
  first replica the host publishes after the current frame, at least two frames ahead, and
  ends exactly at the target debt behind the host; and the target debts the code computes are
  at least one frame and strictly inside the host's lead.
\<close>

theorem fast_forward_window_exact:
  assumes "replica_fast_forward_window current authoritative target = Some (first, newest)" "0 < target"
  shows "live_replica_correction_due first \<and> unat current + 2 \<le> unat first \<and> first \<le> newest \<and>
    unat newest + unat target = unat authoritative \<and>
    (\<forall>f. live_replica_correction_due f \<and> current < f \<longrightarrow> first \<le> f) \<and>
    rollback_replica_target_debt rtt jitter delay \<in> {1..<host_authority_lead_limit rtt jitter delay} \<and>
    authored_timeline_target_debt rtt jitter delay \<in> {1..<host_authority_lead_limit rtt jitter delay}"
  using fast_forward_window [OF assms] targets_below_lead [of rtt jitter delay] by auto

theorem fast_forward_window_exact_witness:
  "live_replica_correction_due 12 \<and> (12 :: u32) \<le> 17"
  using fast_forward_window_exact [of 7 20 3 12 17 0 0 2]
  by (simp add: replica_fast_forward_window_def next_live_replica_frame_def replica_constants)

text \<open>
  The exceptions for two-player adventures do not overlap: a scene matches at
  most one of the topologies that release the input lanes, none of them outside a running
  online session of two players, and assigned input is accepted exactly on a released session
  that has an advancing timeline, in a race or in the adventure.
\<close>

theorem adventure_topologies_exclusive:
  "length (matching_topologies running start_released adventure requested resolved active racers expected verified) \<le> 1 \<and>
   (running \<and> start_released \<and> adventure \<and> expected = 2 \<and> active = 1 \<or>
    matching_topologies running start_released adventure requested resolved active racers expected verified = []) \<and>
   (two_player_adventure_accepts_assigned_input
      (two_player_adventure_phase running start_released adventure second phase) \<longleftrightarrow>
    running \<and> start_released \<and> frame_debt_phase_has_timeline phase \<and> (phase = Gameplay \<or> adventure))"
  by (intro conjI matching_topologies_one assigned_input_accepted)
    (use matching_topologies_session in metis)


section \<open>Saves\<close>

text \<open>
  C21 (roundtrip). Encoding an image of the right shape and decoding it again gives the image with every
  field cut to its width on the EEPROM and every name in the alphabet; an image that was
  decoded is in that form already, so it survives unchanged.
\<close>

theorem save_image_roundtrip:
  assumes "wf_image img"
  shows "save_decode (save_encode img) = Inr (canonical_image img) \<and>
    (save_decode bs = Inr saved \<longrightarrow>
      wf_image saved \<and> canonical_image saved = saved \<and> save_decode (save_encode saved) = Inr saved)"
  using save_decode_encode [OF assms] save_decode_canonical [of bs saved] save_decode_encode_decoded [of bs saved]
  by auto

theorem save_image_roundtrip_witness:
  "let img = blank_image\<lparr>si_settings := (si_settings blank_image)\<lparr>language := 6\<rparr>\<rparr> in
     wf_image img \<and> save_decode (save_encode img) = Inr (canonical_image img) \<and>
     save_decode (save_encode blank_image) = Inr blank_image"
proof -
  let ?img = "blank_image\<lparr>si_settings := (si_settings blank_image)\<lparr>language := 6\<rparr>\<rparr>"
  have w: "wf_image ?img" using blank_image_ok by (simp add: wf_image_def wf_settings_def)
  have b: "wf_image blank_image" "canonical_image blank_image = blank_image" using blank_image_ok by auto
  show ?thesis
    using w save_image_roundtrip [OF w] save_image_roundtrip [OF b(1)] b(2) by (simp add: Let_def)
qed

text \<open>
  C22 (equivalence). The canonical bytes that two machines compare agree exactly when the two saves decode to
  the same image or fail with the same error; they are their own canonical form and decode to
  the same image, and a save without them is one that does not decode.
\<close>

theorem canonical_bytes_identify_saves:
  "(canonical_bytes bs = canonical_bytes cs \<longleftrightarrow> save_decode bs = save_decode cs) \<and>
   (case canonical_bytes bs of
      Inl e \<Rightarrow> save_decode bs = Inl e
    | Inr canonical \<Rightarrow> save_decode canonical = save_decode bs \<and> canonical_bytes canonical = Inr canonical)"
proof -
  note again = save_decode_encode_decoded
  show ?thesis
  proof (cases "save_decode bs")
    case (Inl e)
    then show ?thesis by (cases "save_decode cs") (auto simp: canonical_bytes_decode)
  next
    case (Inr img)
    then have i: "save_decode (save_encode img) = Inr img" by (rule again)
    have "save_encode img = save_encode other \<longleftrightarrow> img = other" if "save_decode cs = Inr other" for other
      using i again [OF that] by (metis sum.inject(2))
    then show ?thesis using Inr i by (cases "save_decode cs") (simp_all add: canonical_bytes_decode)
  qed
qed

text \<open>
  C23 (error). Repairing the checksums succeeds for every image of the right size, gives an image that
  validates, changes no byte outside the checksum fields, and leaves a valid image alone.
\<close>

theorem repair_only_checksums:
  "case repair_checksums bs of
     Inl _ \<Rightarrow> length bs \<noteq> kImageSize
   | Inr repaired \<Rightarrow> length bs = kImageSize \<and> save_validate repaired = Inr () \<and>
       (\<forall>k. k \<notin> set checksum_bytes \<longrightarrow> repaired ! k = bs ! k) \<and>
       (save_validate bs = Inr () \<longrightarrow> repaired = bs)"
  using repaired_image_spec [of bs] by (auto simp: repair_checksums_image split: sum.splits)

theorem repair_only_checksums_witness:
  "\<exists>repaired. repair_checksums (replicate 512 7) = Inr repaired \<and> save_validate repaired = Inr () \<and>
     repaired ! 511 = 7"
  using repair_only_checksums [of "replicate 512 7"]
  by (auto simp: kImageSize_def checksum_bytes_def split: sum.splits)

text \<open>
  C24 (functional). Normalising the fields an editor may set always gives an image that passes the range
  check, and changes nothing of an image that passes it but the spelling of its names.
\<close>

theorem editable_ranges_normalised:
  assumes "wf_image img"
  shows "validate_editable_ranges (normalise_editable_fields img) = Inr () \<and>
    (validate_editable_ranges img = Inr () \<longrightarrow> normalise_editable_fields img =
      img\<lparr>si_slots := map (\<lambda>slot. slot\<lparr>slot_name := sanitise_name (slot_name slot)\<rparr>) (si_slots img)\<rparr>)"
  using normalised_valid [OF assms] valid_normalised [OF assms] by auto

theorem editable_ranges_normalised_witness:
  "let img = blank_image\<lparr>si_slots := (si_slots blank_image)[0 := empty_slot\<lparr>tt_amulet := 9\<rparr>]\<rparr> in
     wf_image img \<and> validate_editable_ranges (normalise_editable_fields img) = Inr ()"
proof -
  let ?img = "blank_image\<lparr>si_slots := (si_slots blank_image)[0 := empty_slot\<lparr>tt_amulet := 9\<rparr>]\<rparr>"
  have w: "wf_image ?img"
    using blank_image_ok by (simp add: wf_image_def wf_slot_def empty_slot_def blank_image_def kAdventureSlotCount_def numeral_3_eq_3)
  show ?thesis using w editable_ranges_normalised [OF w] by (simp add: Let_def)
qed

section \<open>The session in a race\<close>



text \<open>
  C2 (liveness). A missing commit is repaired, over three states M, N and P of a match. At M a
  guest polls for a frame whose commit it lacks: the poll is pending and, when it is the first of
  this wait or 50 milliseconds after the last request, it asks Player 1 for the frame. At any
  later N, when Player 1 has played the frame, no more than 2048 frames ago, it answers the
  request, in a race and in the menus. And at any later P, if the guest still waits for the frame,
  it takes the answer without failure and its next poll plays the frame, with the inputs Player 1
  played (or the revision counter is exhausted).
\<close>

theorem missing_commit_repaired:
  assumes "match_reachable first seed M" "g < length (mt_guests M)" "s = mt_guests M ! g" "frame_due f s"
    "unat (au_local_slot (ss_authority s)) < kMaximumPlayers"
    "map_of (lg_frame_commits (ss_ledger s)) f = None" "repair_due f now (ss_wait s)"
    "synchronize_inputs peers q f i sent_at now s = (r, inputs, sent, t)" "au_state (ss_authority t) = StateRunning"
    "match_step\<^sup>*\<^sup>* (M\<lparr>mt_guests := (mt_guests M)[g := t]\<rparr>) N"
    "unat first + length (mt_host_log N) < 2 ^ 32" "unat f = unat first + k" "k < length (mt_host_log N)"
    "length (mt_host_log N) \<le> k + kCommitHistoryCapacity" "repair_open (ss_authority (mt_host N))"
  shows "\<exists>request answer payload. r = SyncPending \<and> ToHost MsgFrameCommitRequest request f \<in> set sent \<and>
    handle_frame_commit_request (au_local_slot (ss_authority s)) request f (ss_authority (mt_host N))
      (ss_ledger (mt_host N)) = Repaired answer \<and> payload \<in> commit_payloads answer \<and>
    (\<forall>P u h. match_step\<^sup>*\<^sup>* (N\<lparr>mt_sent := mt_sent N \<union> commit_payloads answer\<rparr>) P \<and>
      unat first + length (mt_host_log P) < 2 ^ 32 \<and> u = mt_guests P ! g \<and> frame_due f u \<longrightarrow>
      (\<exists>l. handle_frame_commit payload h (ss_authority u) (ss_ledger u) = (Inr (), [], l) \<and>
        (\<forall>peers q i sent_at now outcome inputs sent t.
          synchronize_inputs peers q f i sent_at now (u\<lparr>ss_ledger := l\<rparr>) = (outcome, inputs, sent, t) \<longrightarrow>
          outcome = SyncCommitted \<and> (f, inputs) = mt_host_log N ! k \<or>
          outcome = SyncFailed \<and> ss_failure t = ''The input sample revision limit was exceeded.'')))"
  by (rule repair_completes [OF assms])

theorem missing_commit_repaired_witness:
  "\<exists>request b host answer payload l. let (r, inputs, sent, t) = synchronize_inputs [] False 0 no_input 1 1 (example_peer False) in
     r = SyncPending \<and> ToHost MsgFrameCommitRequest request 0 \<in> set sent \<and>
     handle_frame_commit_request 1 request 0 b host = Repaired answer \<and> payload \<in> commit_payloads answer \<and>
     handle_frame_commit payload 0 (ss_authority t) (ss_ledger t) = (Inr (), [], l)"
proof -
  obtain M where M: "match_reachable 0 (initial_commit_hash (example_authority True)) M" "length (mt_host_log M) = 1"
    "mt_guests M = [example_peer False]" "repair_open (ss_authority (mt_host M))" by (rule example_first_frame)
  obtain r inputs sent t where t: "synchronize_inputs [] False 0 no_input 1 1 (example_peer False) = (r, inputs, sent, t)"
    by (metis prod_cases4)
  have "frame_due 0 (snd (snd (snd (synchronize_inputs [] False 0 no_input 1 1 (example_peer False)))))" by code_simp
  then have d: "frame_due 0 t" "au_state (ss_authority t) = StateRunning" using t by (simp_all add: frame_due_def)
  let ?N = "M\<lparr>mt_guests := (mt_guests M)[0 := t]\<rparr>"
  have p: "frame_due 0 (example_peer False)" "repair_due 0 1 (ss_wait (example_peer False))"
    "map_of (lg_frame_commits (ss_ledger (example_peer False))) 0 = None"
    "unat (au_local_slot (ss_authority (example_peer False))) < kMaximumPlayers"
    "au_local_slot (ss_authority (example_peer False)) = 1"
    by (simp_all add: frame_due_def repair_due_def example_peer_def example_ledger_def example_authority_def
        admission_parked_def kMaximumPlayers_def)
  have n: "0 < length (mt_guests M)" "example_peer False = mt_guests M ! 0" "unat (0 :: u32) + length (mt_host_log ?N) < 2 ^ 32"
    "unat (0 :: u32) = unat (0 :: u32) + 0" "0 < length (mt_host_log ?N)" "length (mt_host_log ?N) \<le> 0 + kCommitHistoryCapacity"
    "repair_open (ss_authority (mt_host ?N))" using M(2-4) by (simp_all add: kCommitHistoryCapacity_def)
  obtain request answer payload where a: "r = SyncPending" "ToHost MsgFrameCommitRequest request 0 \<in> set sent"
    "handle_frame_commit_request 1 request 0 (ss_authority (mt_host ?N)) (ss_ledger (mt_host ?N)) = Repaired answer"
    "payload \<in> commit_payloads answer"
    "\<And>P u h. match_step\<^sup>*\<^sup>* (?N\<lparr>mt_sent := mt_sent ?N \<union> commit_payloads answer\<rparr>) P \<Longrightarrow>
       unat (0 :: u32) + length (mt_host_log P) < 2 ^ 32 \<Longrightarrow> u = mt_guests P ! 0 \<Longrightarrow> frame_due 0 u \<Longrightarrow>
       \<exists>l. handle_frame_commit payload h (ss_authority u) (ss_ledger u) = (Inr (), [], l)"
    using missing_commit_repaired [OF M(1) n(1,2) p(1,4,3,2) t d(2) rtranclp.rtrancl_refl n(3-7)] unfolding p(5) by metis
  have "\<exists>l. handle_frame_commit payload 0 (ss_authority t) (ss_ledger t) = (Inr (), [], l)"
    by (rule a(5) [OF rtranclp.rtrancl_refl _ _ d(1)]) (use M(2,3) in simp_all)
  then show ?thesis using a(1-4) unfolding t Let_def prod.case by blast
qed

text \<open>
  C15 (type). Whatever bytes a guest receives as commits, and whatever frames it consumes in
  between, its ledger holds only commits that validate for the match, each under its own frame.
\<close>

theorem ledger_holds_valid_commits:
  assumes "opened first seed l" "lg_deferred l = []" "lg_assembly l = None"
    "map_of (lg_frame_commits (fold (ledger_perform a) calls l)) f = Some c"
  shows "validate_commit c a = Inr () \<and> fc_frame c = f"
proof -
  have "ledger_inv a l" using assms(1-3) by (simp add: ledger_inv_def opened_def valid_store_def)
  then have "ledger_inv a (fold (ledger_perform a) calls l)" by (rule ledger_run.run_keeps)
  then show ?thesis using assms(4) by (simp add: ledger_inv_def valid_store_def)
qed

theorem ledger_holds_valid_commits_witness:
  "\<exists>l c. map_of (lg_frame_commits (fold (ledger_perform (example_authority False)) [ReceiveCommits l 0] example_ledger)) 0 = Some c \<and>
     validate_commit c (example_authority False) = Inr () \<and> fc_frame c = 0"
proof -
  let ?a = "example_authority False" and ?seed = "initial_commit_hash (example_authority True)"
  obtain c u where b: "build_commit ?a 0 0 ?seed (new_timeline 32) = (c, u)" by fastforce
  have m: "expected_mask ?a \<noteq> 0" by (simp add: expected_mask_def example_authority_def example_descriptor_def)
  note ok = build_commit_ok [OF new_timeline_inv m b]
  have o: "opened 0 ?seed example_ledger" by (simp add: opened_def example_ledger_def)
  have ch: "chain ?a 0 ?seed [c]" using ok by (simp add: chain_def hash_at_def)
  let ?b = "\<lparr>fb_generation = 0, fb_correction_first = 0, fb_correction_last = 0, fb_correction = False, fb_commits = [c]\<rparr>"
  have e: "encode_frame_commit_batch ?b \<noteq> []" using ok(2) by (simp add: encode_frame_commit_batch_def commit_ok_def)
  have d: "decode_frame_commit_batch (encode_frame_commit_batch ?b) = Inr ?b"
    using frame_commit_batch.dec_enc [of ?b] e ok(2) by simp
  have k: "carries [c] (encode_frame_commit_batch ?b)" using d by (simp add: carries_def)
  have g: "guest_ledger 0 ?seed [c] 0 example_ledger"
    using o by (simp add: guest_ledger_def opened_def hash_at_def)
  obtain l2 where "handle_frame_commit (encode_frame_commit_batch ?b) 0 ?a example_ledger = (Inr (), [], l2)"
    "\<And>batch c. decode_frame_commit_batch (encode_frame_commit_batch ?b) = Inr batch \<Longrightarrow>
      c \<in> set (fb_commits batch) \<Longrightarrow> map_of (lg_frame_commits l2) (fc_frame c) = Some c"
    by (rule handle_commit_chain [OF ch g k, of 0]) blast
  from this(1) this(2) [OF d, of c]
  have l2: "handle_frame_commit (encode_frame_commit_batch ?b) 0 ?a example_ledger = (Inr (), [], l2)"
    "map_of (lg_frame_commits l2) 0 = Some c" using ok(4) by simp_all
  have p: "map_of (lg_frame_commits (fold (ledger_perform ?a) [ReceiveCommits (encode_frame_commit_batch ?b) 0] example_ledger)) 0 = Some c"
    by (simp only: fold_simps ledger_perform.simps l2 snd_conv)
  have n: "lg_deferred example_ledger = []" "lg_assembly example_ledger = None" by (simp_all add: example_ledger_def)
  show ?thesis using ledger_holds_valid_commits [OF o n p] p by blast
qed

text \<open>
  C11 (error). A correction of Player 1 is taken whole or not at all. When it is refused (the
  assembly is still there) nothing changes and nothing is sent. When it is taken, every frame of
  its range has a commit of the correction, valid, newer than what it replaces and linked to the
  one before; and the frames hold these commits, the other frames what they held, but for the
  frames whose commits had been deferred for this generation: those commits are applied after
  it like arriving ones, so that such a frame holds what it held, the deferred commit or a newer
  one. Only a conflict of a deferred commit (other data of the same revision) can then fail; the
  correction stays installed, without an acknowledgement, and otherwise it is acknowledged twice.
\<close>

theorem correction_all_or_nothing:
  assumes "ledger_inv a l" "lg_assembly l = Some asm" "as_first_frame asm \<le> as_last_frame asm"
    "apply_frame_correction a l = (r, sent, l2)"
  shows "let due = set (due_deferred asm l); now = map_of (lg_frame_commits l2) in
    if lg_assembly l2 \<noteq> None then l2 = l \<and> sent = [] \<and> isl r
    else lg_applied_generation l2 = as_generation asm \<and> lg_next_commit_frame l2 = lg_next_commit_frame l \<and>
      (\<forall>f. if as_first_frame asm \<le> f \<and> f \<le> as_last_frame asm
         then \<exists>c. map_of (as_commits asm) f = Some c \<and> validate_commit c a = Inr () \<and> advances l f c \<and>
           (as_first_frame asm < f \<longrightarrow> map_option fc_commit_hash (map_of (as_commits asm) (f - 1)) = Some (fc_previous_hash c)) \<and>
           at_least c (now f) \<and> (f \<notin> due \<longrightarrow> now f = Some c)
         else (f \<notin> due \<longrightarrow> now f = map_of (lg_frame_commits l) f) \<and>
           (\<forall>d. map_of (lg_frame_commits l) f = Some d \<longrightarrow> at_least d (now f))) \<and>
      (case r of
         Inr _ \<Rightarrow> sent = replicate 2 (correction_acknowledgement (as_generation asm) (lg_next_commit_frame l2) a) \<and>
           (\<forall>f \<in> due. case map_of (lg_deferred l) f of Some (g, c) \<Rightarrow> at_least c (now f) | None \<Rightarrow> True)
       | Inl e \<Rightarrow> sent = [] \<and> (\<exists>f \<in> due. \<exists>g c. map_of (lg_deferred l) f = Some (g, c) \<and> conflicting l2 c e))"
  unfolding Let_def by (rule correction_outcome [OF assms])

theorem correction_all_or_nothing_witness:
  "\<exists>c d l2 sent. apply_frame_correction (example_authority False) (example_ledger\<lparr>lg_deferred := [(1, 1, d)],
       lg_assembly := Some \<lparr>as_epoch = 1, as_generation = 1, as_first_frame = 0, as_last_frame = 0,
         as_commits = [(0, c)]\<rparr>\<rparr>) = (Inr (), sent, l2) \<and> fc_frame d = 1 \<and> length sent = 2 \<and>
     map_of (lg_frame_commits l2) 0 = Some c \<and> at_least d (map_of (lg_frame_commits l2) 1)"
proof -
  let ?a = "example_authority False"
  have m: "expected_mask ?a \<noteq> 0" by (simp add: expected_mask_def example_authority_def example_descriptor_def)
  obtain c u where b: "build_commit ?a 0 1 5 (new_timeline 32) = (c, u)" by fastforce
  obtain d v where b': "build_commit ?a 1 0 5 (new_timeline 32) = (d, v)" by fastforce
  note ok = build_commit_ok [OF new_timeline_inv m b] and ok' = build_commit_ok [OF new_timeline_inv m b']
  let ?asm = "\<lparr>as_epoch = 1, as_generation = 1, as_first_frame = 0, as_last_frame = 0, as_commits = [(0, c)]\<rparr>"
  let ?l = "example_ledger\<lparr>lg_deferred := [(1, 1, d)], lg_assembly := Some ?asm\<rparr>"
  obtain r sent l2 where r: "apply_frame_correction ?a ?l = (r, sent, l2)" by (metis prod_cases3)
  have s: "r = Inr () \<and> lg_assembly l2 = None"
    using r ok ok' by (auto simp: apply_frame_correction_def correction_size_def check_incoming_def example_ledger_def
        apply_frame_commit_def store_commit_def map_of_install Let_def install_correction_simps split: prod.splits sum.splits)
  have i: "ledger_inv ?a ?l" using ok ok' by (simp add: ledger_inv_def valid_store_def example_ledger_def)
  have due: "due_deferred ?asm ?l = [1]" by (simp add: due_deferred_def)
  have "map_of (lg_frame_commits l2) 0 = Some c" "at_least d (map_of (lg_frame_commits l2) 1)" "length sent = 2"
    using correction_all_or_nothing [OF i _ _ r, of ?asm] s due
    by (auto simp: Let_def dest: spec [of _ 0])
  moreover have "fc_frame d = 1" using ok'(4) by simp
  ultimately show ?thesis using r s by blast
qed

text \<open>
  C16 (invariant). The history of a guest and its batches. After any sequence of samples, repair
  requests and acknowledgements (arbitrary bytes), the history is strictly sorted by frame, and
  every batch made from it, for the rolling window or for a repair, is a contiguous slice of
  it: at most 64 samples, the one at each position the sample stored for that frame, with the
  revision recorded for it.
\<close>

theorem batches_are_slices:
  assumes "dl_local_history d0 = []" "d = fold (delivery_perform a) calls d0"
    "b = make_local_history_batch newest repair requested a d"
  shows "sorted_wrt (<) (map fst (dl_local_history d)) \<and>
    length (ib_inputs b) \<le> 64 \<and> length (ib_revisions b) = length (ib_inputs b) \<and>
    list_all (\<lambda>j. map_of (dl_local_history d) (ib_first_frame b + of_nat j) = Some (ib_inputs b ! j) \<and>
        ib_revisions b ! j = sample_rev (dl_local_input_metadata d) (ib_first_frame b + of_nat j))
      [0..<length (ib_inputs b)]"
proof -
  have h: "history_inv d"
    unfolding assms(2) by (rule delivery_run.run_keeps) (simp add: history_inv_def assms(1))
  note s = make_batch_slice [OF h, where n = newest and r = repair and q = requested and a = a,
      folded assms(3)]
  have "f = ib_first_frame b + of_nat j" if "unat f = unat (ib_first_frame b) + j" for f j
    using that frame_offset [of "ib_first_frame b" j] unat_small(3) [of f]
    by (intro word_unat_eq_iff [THEN iffD2]) simp
  then show ?thesis using h s by (fastforce simp: history_inv_def list_all_iff)
qed

theorem batches_are_slices_witness:
  "let d = fold (delivery_perform (example_authority False))
       [Sample 7 no_input True example_ledger, Sample 5 no_input True example_ledger] example_delivery
   in sorted_wrt (<) (map fst (dl_local_history d))"
proof -
  have "dl_local_history example_delivery = []" by (simp add: example_delivery_def)
  from batches_are_slices [OF this refl refl] show ?thesis unfolding Let_def by blast
qed

text \<open>
  C8 (refinement). From the hands of a guest into the timeline of Player 1. Every sample of a
  batch a guest makes from its history, encoded, received by Player 1 and within its reach,
  is in the timeline afterwards as the arrived input of that racer and frame, unless Player 1
  had accepted the same or a later revision of it before.
\<close>

theorem guest_inputs_arrive:
  assumes "history_inv d" "b = make_local_history_batch n r q ga d" "encode_input_batch b \<noteq> []"
    "host_delivery hv" "64 \<le> length (tl_entries (dl_timeline hv))" "same_match ga ha"
    "\<not> out_of_reach (lg_next_commit_frame l) (newest_frame b)"
    "handle_input (au_local_slot ga) (encode_input_batch b) ha l hv = (sent, hw)"
    "unat (ib_first_frame b) \<le> unat f" "unat f < unat (ib_first_frame b) + length (ib_inputs b)"
    "\<not> out_of_reach (lg_next_commit_frame l) f"
    "accepted_rev (au_local_slot ga) f hv < sample_rev (dl_local_input_metadata d) f"
  shows "map_of (dl_local_history d) f \<noteq> None \<and>
    arrived (unat (au_local_slot ga)) f (dl_timeline hw) = map_of (dl_local_history d) f"
  by (rule batch_delivered [OF assms])

theorem guest_inputs_arrive_witness:
  "let d = example_delivery\<lparr>dl_local_history := [(5, \<lparr>buttons = 1, stick_x = 2, stick_y = 3\<rparr>)], dl_local_input_metadata := [(5, 1)]\<rparr>;
     b = make_local_history_batch 5 False None (example_authority False) d;
     hv = example_delivery\<lparr>dl_timeline := new_timeline 64\<rparr>;
     hw = snd (handle_input 1 (encode_input_batch b) (example_authority True) example_ledger hv)
   in arrived 1 5 (dl_timeline hw) = Some \<lparr>buttons = 1, stick_x = 2, stick_y = 3\<rparr>"
proof -
  let ?i = "\<lparr>buttons = 1, stick_x = 2, stick_y = 3\<rparr> :: PackedInput"
  let ?d = "example_delivery\<lparr>dl_local_history := [(5, ?i)], dl_local_input_metadata := [(5, 1)]\<rparr>"
  let ?g = "example_authority False"
  let ?hv = "example_delivery\<lparr>dl_timeline := new_timeline 64\<rparr>"
  have b: "make_local_history_batch 5 False None ?g ?d = \<lparr>ib_epoch = authority_epoch ?g, ib_player_slot = 1, ib_first_frame = 5,
      ib_inputs = [?i], ib_simulation_progress_present = False, ib_simulation_scene_epoch = 0,
      ib_simulation_completed_frame = 0, ib_revisions = [1]\<rparr>"
    by (simp add: make_local_history_batch_def example_authority_def example_delivery_def empty_batch_def Let_def kMaximumPlayers_def)
  have t: "host_delivery ?hv"
    by (simp add: host_delivery_def new_timeline_inv example_delivery_def kMaximumPlayers_def)
  have e: "encode_input_batch (make_local_history_batch 5 False None ?g ?d) \<noteq> []"
    unfolding b by (simp add: encode_input_batch_def u32_max_def authority_epoch_nonzero batch_revisions_def kMaximumPlayers_def)
  have m: "same_match ?g (example_authority True)" by (simp add: same_match_def example_authority_def)
  obtain sent hw where h: "handle_input (au_local_slot ?g) (encode_input_batch (make_local_history_batch 5 False None ?g ?d))
      (example_authority True) example_ledger ?hv = (sent, hw)" by fastforce
  have "arrived (unat (au_local_slot ?g)) 5 (dl_timeline hw) = map_of (dl_local_history ?d) 5"
    using guest_inputs_arrive [OF _ refl e t _ m _ h, of 5, unfolded b]
    by (simp add: u32_max_def example_authority_def history_inv_def newest_frame_def out_of_reach_def example_ledger_def new_timeline_def accepted_rev_def
        sample_rev_def example_delivery_def)
  then show ?thesis using h by (simp add: Let_def example_authority_def)
qed

text \<open>
  C17 (termination). The search for the first missing input of a racer ends within one turn of
  the ring, so that more fuel changes nothing; and the acknowledgement Player 1 sends names
  the first frame from the old one on whose input is missing.
\<close>

theorem missing_search_ends:
  assumes "host_delivery d" "decode_input_batch payload = Inr b" "ib_player_slot b = peer" "ib_epoch b = authority_epoch a"
    "unat peer < kMaximumPlayers" "\<not> out_of_reach (lg_next_commit_frame l) (newest_frame b)"
    "handle_input peer payload a l d = (sent, e)" "length (tl_entries (dl_timeline d)) \<le> n"
  shows "first_missing_from n peer f (dl_timeline d) =
      first_missing_from (length (tl_entries (dl_timeline d))) peer f (dl_timeline d) \<and>
    (\<exists>missing. sent = [ToPeer peer MsgInputAck (encode_input_acknowledge \<lparr>ia_epoch = authority_epoch a, ia_player_slot = peer,
         ia_newest_frame = newest_frame b, ia_first_missing_frame = missing\<rparr>) (newest_frame b)] \<and>
      dl_peer_input_first_missing_frame d ! unat peer \<le> missing \<and>
      (\<forall>f. dl_peer_input_first_missing_frame d ! unat peer \<le> f \<and> f < missing \<longrightarrow> arrived (unat peer) f (dl_timeline e) \<noteq> None) \<and>
      (arrived (unat peer) missing (dl_timeline e) = None \<or> missing = 0xFFFFFFFF))"
  using acknowledged_first_missing [OF assms(1-7)] first_missing_fuel [of "dl_timeline d" n peer f] assms(1,8)
  by (simp add: host_delivery_def)

theorem missing_search_ends_witness:
  "first_missing_from 100 1 2 (new_timeline 32) = first_missing_from 32 1 2 (new_timeline 32)"
proof -
  let ?a = "example_authority True"
  let ?b = "\<lparr>ib_epoch = authority_epoch ?a, ib_player_slot = 1, ib_first_frame = 5,
      ib_inputs = [no_input], ib_simulation_progress_present = False, ib_simulation_scene_epoch = 0,
      ib_simulation_completed_frame = 0, ib_revisions = [1]\<rparr>"
  have t: "host_delivery example_delivery"
    by (simp add: host_delivery_def new_timeline_inv example_delivery_def kMaximumPlayers_def)
  have "encode_input_batch ?b \<noteq> []"
    by (simp add: encode_input_batch_def u32_max_def authority_epoch_nonzero batch_revisions_def kMaximumPlayers_def)
  then have d: "decode_input_batch (encode_input_batch ?b) = Inr ?b"
    using decode_encode_input_batch [of ?b] by (simp add: canonical_batch_def batch_revisions_def)
  obtain sent e where "handle_input 1 (encode_input_batch ?b) ?a example_ledger example_delivery = (sent, e)" by fastforce
  from missing_search_ends [OF t d _ _ _ _ this, of 100 2] show ?thesis
    by (simp add: u32_max_def newest_frame_def out_of_reach_def example_ledger_def new_timeline_def example_delivery_def kMaximumPlayers_def)
qed

section \<open>Whole states\<close>

text \<open>
  C9 (roundtrip). A state Player 1 sends arrives. Take all chunks that one successful send of a
  state, a checkpoint or a live replica, puts out for a guest. Whatever selection of them the
  guest receives, in whatever order and as often as the network likes, it never fails, and the
  state it holds for that frame is the one sent or what it held before; and with all chunks
  received it is the one sent. (The guest is in the same scene, takes the frame, has nothing of
  it yet and, for a delta, has the keyframe. No state the game captures begins with the marks
  of the compressed forms.)
\<close>

theorem state_transfer_arrives:
  assumes "send_authoritative_state takes transport peers destination f state 0xFFFF mt live ha ht = (True, sent, ht2)"
    "cache_ok ht" "own_magic state" "payloads_to peer sent \<noteq> []"
    "au_authoritative_phase_active ga" "au_scene_epoch ga = au_scene_epoch ha" "\<not> is_live_replica_frame f"
    "mt = MsgLiveReplicaSnapshot \<longrightarrow> live" "snapshot_admitted live f ga l t" "live \<longrightarrow> same_keyframe f ht t"
    "map_of (assemblies live t) f = None" "set ps \<subseteq> set (payloads_to peer sent)"
  shows "\<exists>t2. receive_snapshots mt ps ga l t = (Inr (), t2) \<and>
    (map_of (completed_states live t2) f = Some state \<or>
     map_of (completed_states live t2) f = map_of (completed_states live t) f \<and>
     set ps \<noteq> set (payloads_to peer sent))"
proof -
  obtain t2 where "receive_snapshots mt ps ga l t = (Inr (), t2)"
    "map_of (completed_states live t2) f = Some state \<or>
     map_of (completed_states live t2) f = map_of (completed_states live t) f \<and> \<not> set (payloads_to peer sent) \<subseteq> set ps"
    by (rule transfer_arrives [OF assms]) blast
  then show ?thesis by blast
qed

theorem state_transfer_arrives_witness:
  "let ha = (example_authority True)\<lparr>au_scene_epoch := 7, au_authoritative_phase_active := True\<rparr>;
       ga = (example_authority False)\<lparr>au_scene_epoch := 7, au_authoritative_phase_active := True\<rparr>;
       payloads = payloads_to 1 (fst (snd (send_authoritative_state (\<lambda>_. True) example_transport [1] None 3
         example_state 0xFFFF MsgStateSnapshot False ha example_transfer)))
   in \<exists>t2. receive_snapshots MsgStateSnapshot (rev payloads @ payloads) ga example_ledger example_transfer = (Inr (), t2) \<and>
        map_of (tf_authoritative_states t2) 3 = Some example_state"
proof -
  let ?ha = "(example_authority True)\<lparr>au_scene_epoch := 7, au_authoritative_phase_active := True\<rparr>"
  let ?ga = "(example_authority False)\<lparr>au_scene_epoch := 7, au_authoritative_phase_active := True\<rparr>"
  obtain sent ht2 where s: "send_authoritative_state (\<lambda>_. True) example_transport [1] None 3 example_state 0xFFFF
      MsgStateSnapshot False ?ha example_transfer = (True, sent, ht2)" "payloads_to 1 sent \<noteq> []"
    by (rule example_sent [of ?ha]) (simp_all add: example_authority_def)
  have c: "cache_ok example_transfer" by (simp add: cache_ok_def example_transfer_def)
  have m: "own_magic example_state"
    by (simp add: own_magic_def example_state_def State_Codec.kMagic_def kDeltaMagic_def)
  have a: "snapshot_admitted False 3 ?ga example_ledger example_transfer"
    by (simp add: snapshot_admitted_def example_authority_def example_ledger_def Let_def)
  have "\<exists>t2. receive_snapshots MsgStateSnapshot (rev (payloads_to 1 sent) @ payloads_to 1 sent) ?ga example_ledger example_transfer =
      (Inr (), t2) \<and> map_of (completed_states False t2) 3 = Some example_state"
    using state_transfer_arrives [OF s(1) c m s(2) _ _ _ _ a, of "rev (payloads_to 1 sent) @ payloads_to 1 sent"]
    by (simp add: is_live_replica_frame_def kLiveReplicaFrameTag_def assemblies_def example_transfer_def)
  then show ?thesis by (simp add: Let_def s(1) completed_states_def)
qed

text \<open>
  C10 (liveness). A checkpoint that arrived in part is repaired. A guest polls for a checkpoint,
  receives any part of it, and polls again when the time of the route is over: while the state
  is incomplete this poll asks Player 1 for what is missing. Player 1, who still has the state,
  answers; and once the answer has arrived, in any order and among late chunks of the first
  sending, the next poll returns the state.
\<close>

theorem checkpoint_repaired:
  assumes "send_authoritative_state takes transport peers destination f state 0xFFFF MsgStateSnapshot False ha ht =
      (True, sent, ht2)"
    "cache_ok ht" "own_magic state" "payloads_to peer sent \<noteq> []"
    "au_scene_epoch ga = au_scene_epoch ha" "\<not> is_live_replica_frame f" "\<not> au_is_host ga"
    "poll_authoritative_state f players0 status0 now0 ga t0 = (PollPending, s0, e0, asked0, t)"
    "tf_last_authoritative_request t0 \<le> now0"
    "snapshot_admitted False f ga l t" "map_of (tf_snapshot_assemblies t) f = None"
    "set ps \<subseteq> set (payloads_to peer sent)"
    "receive_snapshots MsgStateSnapshot ps ga l t = (r, t1)" "map_of (tf_authoritative_states t1) f = None"
    "measured_route players ga = (rtt, jitter)"
    "now - now0 \<ge> milliseconds (uint (checkpoint_retry_milliseconds rtt jitter))"
    "au_authoritative_phase_active ha" "cache_ok hu" "map_of (tf_authoritative_states hu) f = Some state"
  shows "\<exists>request t2. poll_authoritative_state f players status now ga t1 =
      (PollPending, [], [], [ToHost MsgStateRequest request f], t2) \<and>
    (\<forall>answer hv qs. handle_state_request (\<lambda>_. True) transport peers peer request ha hu = (answer, hv) \<and>
      set (payloads_to peer answer) \<subseteq> set qs \<and> set qs \<subseteq> set (payloads_to peer answer) \<union> set (payloads_to peer sent) \<longrightarrow>
      (\<exists>t3. receive_snapshots MsgStateSnapshot qs ga l t2 = (Inr (), t3) \<and>
        poll_authoritative_state f later_players later_status later_now ga t3 =
          (PollReady, state, [], [], retire_checkpoints f t3)))"
proof -
  have a: "au_authoritative_phase_active ga" "au_state ga = StateRunning"
    using assms(8) by (auto simp: poll_authoritative_state_def split: if_splits)
  obtain request where rq: "state_request f (map_of (tf_snapshot_assemblies t1) f) ga = ToHost MsgStateRequest request f"
    by (simp add: state_request_def split_beta)
  let ?t2 = "t1\<lparr>tf_last_authoritative_request := now\<rparr>"
  have "\<exists>t3. receive_snapshots MsgStateSnapshot qs ga l ?t2 = (Inr (), t3) \<and>
      poll_authoritative_state f later_players later_status later_now ga t3 = (PollReady, state, [], [], retire_checkpoints f t3)"
    if "handle_state_request (\<lambda>_. True) transport peers peer request ha hu = (answer, hv)"
      "set (payloads_to peer answer) \<subseteq> set qs" "set qs \<subseteq> set (payloads_to peer answer) \<union> set (payloads_to peer sent)"
    for answer hv qs
    by (rule repair_arrives [OF assms(1-6,10-13) a assms(14,7) rq [symmetric] assms(17-19) that refl]) blast
  moreover have "poll_authoritative_state f players status now ga t1 = (PollPending, [], [], [ToHost MsgStateRequest request f], ?t2)"
    using poll_asks_again [OF assms(8,7,9,13-16)] unfolding rq .
  ultimately show ?thesis by blast
qed

theorem checkpoint_repaired_witness:
  "let ha = (example_authority True)\<lparr>au_scene_epoch := 7, au_authoritative_phase_active := True\<rparr>;
       ga = (example_authority False)\<lparr>au_scene_epoch := 7, au_authoritative_phase_active := True\<rparr>;
       hu = example_transfer\<lparr>tf_authoritative_states := [(3, example_state)]\<rparr>;
       sent = fst (snd (send_authoritative_state (\<lambda>_. True) example_transport [1] None 3 example_state 0xFFFF
         MsgStateSnapshot False ha example_transfer));
       waiting = snd (snd (snd (snd (poll_authoritative_state 3 [] [] 1 ga example_transfer))))
   in \<exists>payload \<in> set (payloads_to 1 sent). \<exists>part request t2 t3.
        receive_snapshots MsgStateSnapshot [payload] ga example_ledger waiting = (Inr (), part) \<and>
        map_of (tf_snapshot_assemblies part) 3 \<noteq> None \<and>
        poll_authoritative_state 3 [] [] 2000000001 ga part = (PollPending, [], [], [ToHost MsgStateRequest request 3], t2) \<and>
        receive_snapshots MsgStateSnapshot (payloads_to 1 (fst (handle_state_request (\<lambda>_. True) example_transport [1] 1
          request ha hu))) ga example_ledger t2 = (Inr (), t3) \<and>
        poll_authoritative_state 3 [] [] 0 ga t3 = (PollReady, example_state, [], [], retire_checkpoints 3 t3)"
proof -
  let ?ha = "(example_authority True)\<lparr>au_scene_epoch := 7, au_authoritative_phase_active := True\<rparr>"
  let ?ga = "(example_authority False)\<lparr>au_scene_epoch := 7, au_authoritative_phase_active := True\<rparr>"
  let ?hu = "example_transfer\<lparr>tf_authoritative_states := [(3, example_state)]\<rparr>"
  let ?t = "example_transfer\<lparr>tf_last_authoritative_request_frame := 3, tf_last_authoritative_request := 1\<rparr>"
  let ?p = "snapshot_for example_transport example_state ?ha"
  obtain sent ht2 where s: "send_authoritative_state (\<lambda>_. True) example_transport [1] None 3 example_state 0xFFFF
      MsgStateSnapshot False ?ha example_transfer = (True, sent, ht2)" "payloads_to 1 sent \<noteq> []"
    and p: "proper ?p" "sp_count ?p = 3" "payload_of ?p False 3 60 1 \<in> set (payloads_to 1 sent)" "payload_of ?p False 3 60 1 \<noteq> []"
    by (rule example_sent [of ?ha]) (simp_all add: example_authority_def)
  have c: "cache_ok example_transfer" "cache_ok ?hu" by (simp_all add: cache_ok_def example_transfer_def)
  have m: "own_magic example_state"
    by (simp add: own_magic_def example_state_def State_Codec.kMagic_def kDeltaMagic_def)
  have a: "snapshot_admitted False 3 ?ga example_ledger ?t"
    by (simp add: snapshot_admitted_def example_authority_def example_ledger_def Let_def)
  have w: "poll_authoritative_state 3 [] [] 1 ?ga example_transfer = (PollPending, [], [], [], ?t)"
    by (simp add: poll_authoritative_state_def example_transfer_def example_authority_def
        measured_route_def checkpoint_retry_milliseconds_def clamp_def milliseconds_def)
  have f: "\<not> is_live_replica_frame (3 :: u32)" by (simp add: is_live_replica_frame_def kLiveReplicaFrameTag_def)
  have "takes_frame ?p MsgStateSnapshot False 3 ?ga example_ledger ?t"
    using a f by (simp add: takes_frame_def snapshot_for_def example_authority_def)
  then obtain assembly where r: "receive_snapshots MsgStateSnapshot [payload_of ?p False 3 60 1] ?ga example_ledger ?t =
      (Inr (), ?t\<lparr>tf_snapshot_assemblies := [(3, assembly)]\<rparr>)"
    using example_part [OF p(1,2) _ p(4), of ?ga example_ledger ?t] by (auto simp: example_transfer_def)
  have route: "measured_route [] ?ga = (0, 0)" by (simp add: measured_route_def)
  have guards: "au_scene_epoch ?ga = au_scene_epoch ?ha" "\<not> au_is_host ?ga" "tf_last_authoritative_request example_transfer \<le> 1"
    "map_of (tf_snapshot_assemblies ?t) 3 = None" "set [payload_of ?p False 3 60 1] \<subseteq> set (payloads_to 1 sent)"
    "map_of (tf_authoritative_states (?t\<lparr>tf_snapshot_assemblies := [(3, assembly)]\<rparr>)) 3 = None"
    "(2000000001 :: int) - 1 \<ge> milliseconds (uint (checkpoint_retry_milliseconds 0 0))"
    "au_authoritative_phase_active ?ha" "map_of (tf_authoritative_states ?hu) 3 = Some example_state"
    using p(3) by (simp_all add: example_authority_def example_transfer_def checkpoint_retry_milliseconds_def clamp_def milliseconds_def)
  obtain request t2 where q: "poll_authoritative_state 3 [] [] 2000000001 ?ga (?t\<lparr>tf_snapshot_assemblies := [(3, assembly)]\<rparr>) =
      (PollPending, [], [], [ToHost MsgStateRequest request 3], t2)"
    "\<And>answer hv qs. handle_state_request (\<lambda>_. True) example_transport [1] 1 request ?ha ?hu = (answer, hv) \<and>
      set (payloads_to 1 answer) \<subseteq> set qs \<and> set qs \<subseteq> set (payloads_to 1 answer) \<union> set (payloads_to 1 sent) \<Longrightarrow>
      \<exists>t3. receive_snapshots MsgStateSnapshot qs ?ga example_ledger t2 = (Inr (), t3) \<and>
        poll_authoritative_state 3 [] [] 0 ?ga t3 = (PollReady, example_state, [], [], retire_checkpoints 3 t3)"
    using checkpoint_repaired [OF s(1) c(1) m s(2) guards(1) f guards(2) w guards(3) a guards(4,5) r guards(6) route
      guards(7,8) c(2) guards(9)] by metis
  obtain answer hv where h: "handle_state_request (\<lambda>_. True) example_transport [1] 1 request ?ha ?hu = (answer, hv)" by fastforce
  obtain t3 where "receive_snapshots MsgStateSnapshot (payloads_to 1 answer) ?ga example_ledger t2 = (Inr (), t3)"
    "poll_authoritative_state 3 [] [] 0 ?ga t3 = (PollReady, example_state, [], [], retire_checkpoints 3 t3)"
    using q(2) [of answer hv "payloads_to 1 answer"] h by auto
  moreover have "map_of (tf_snapshot_assemblies (?t\<lparr>tf_snapshot_assemblies := [(3, assembly)]\<rparr>)) 3 \<noteq> None" by simp
  ultimately show ?thesis using r q(1) p(3) unfolding Let_def s(1) w fst_conv snd_conv by (metis h fst_conv)
qed

text \<open>
  C26 (bounds). Whatever packets arrive and whatever is published and polled, a machine holds at
  most 16 assemblies of either kind, each with exactly as many chunk places as its count, which
  is 1 to 16, so that no chunk is written out of range; every stored state is non-empty and at
  most 14336 bytes; and the encoding Player 1 keeps is that of its source, so that a checkpoint
  sent again is sent the same.
\<close>

theorem transfer_bounded:
  assumes "tf_authoritative_states t0 = []" "tf_live_replica_states t0 = []" "tf_snapshot_assemblies t0 = []"
    "tf_live_replica_assemblies t0 = []" "tf_live_replica_keyframe_frame t0 = None" "tf_checkpoint_encoding t0 = None"
    "t = fold (transfer_perform a) calls t0"
  shows "(\<forall>live. length (assemblies live t) \<le> 16 \<and> distinct (map fst (assemblies live t)) \<and>
      list_all (\<lambda>(_, assembly). unat (sn_chunk_count assembly) \<in> {1..16} \<and>
          length (sn_chunks assembly) = unat (sn_chunk_count assembly) \<and>
          length (sn_present assembly) = unat (sn_chunk_count assembly)) (assemblies live t) \<and>
      list_all (\<lambda>(_, state). state \<noteq> [] \<and> length state \<le> 14336) (completed_states live t)) \<and>
    pred_option (\<lambda>e. ce_wire e = encode_authoritative_state_wire (ce_source e)) (tf_checkpoint_encoding t)"
proof -
  have "transfer_inv t0" using assms(1-6) by (simp add: transfer_inv_def cache_ok_def assemblies_ok_def)
  then have i: "transfer_inv t" unfolding assms(7) by (rule transfer_run.run_keeps)
  have a: "assemblies_ok (assemblies live t)" "\<forall>entry \<in> set (completed_states live t). state_size_ok (snd entry)" for live
    using i by (simp_all add: transfer_inv_maps)
  have "pred_option (\<lambda>e. ce_wire e = encode_authoritative_state_wire (ce_source e)) (tf_checkpoint_encoding t)"
    using i by (auto simp: transfer_inv_def cache_ok_def option.pred_set)
  moreover have "unat (sn_chunk_count asm) \<in> {1..16} \<and> length (sn_chunks asm) = unat (sn_chunk_count asm) \<and>
      length (sn_present asm) = unat (sn_chunk_count asm)" if "assembly_ok asm" for asm
    using that by (auto simp: assembly_ok_def word_less_nat_alt word_le_nat_alt)
  ultimately show ?thesis
    using a by (fastforce simp: assemblies_ok_def state_size_ok_def kMaximumAuthoritativeStateBytes_def list_all_iff)
qed

theorem transfer_bounded_witness:
  "list_all (\<lambda>(_, state). state \<noteq> [] \<and> length state \<le> 14336)
     (completed_states True (fold (transfer_perform (example_authority False)) [ReceiveSnapshot MsgStateSnapshot [1, 2, 3] example_ledger]
        example_transfer))"
proof -
  have z: "tf_authoritative_states example_transfer = []" "tf_live_replica_states example_transfer = []"
    "tf_snapshot_assemblies example_transfer = []" "tf_live_replica_assemblies example_transfer = []"
    "tf_live_replica_keyframe_frame example_transfer = None" "tf_checkpoint_encoding example_transfer = None"
    by (simp_all add: example_transfer_def)
  show ?thesis using transfer_bounded [OF z refl] by blast
qed

section \<open>The start of a race\<close>

text \<open>
  C3 (safety). Everybody starts the same race. From a session in its menus, after any sequence of
  calls and of packets lost, repeated and reordered: as soon as Player 1 or any guest is
  released into the race, while nobody has failed, Player 1 has released it, every machine has
  armed the new input epoch in the same scene, on the same track and with as many racers, and
  the sessions are the opening of a match at one boundary with one chain, to which C1 and C2
  apply.
\<close>

theorem start_opens_match:
  assumes "start_opening e s0 W" "V = fold start_perform events W" "racing_released V"
  shows "released (wd_host V) \<and>
    (\<exists>k l c. \<forall>x \<in> set (wd_host V # wd_guests V). armed x \<and> in_scene k l c x) \<and>
    (\<exists>b. boundary_of (wd_host V) = Some b \<and> match_opening b (epoch_chain b (rc_authority (wd_host V))) (race_of V))"
proof -
  have i: "start_inv e s0 V" unfolding assms(2) by (rule start_run.run_keeps [OF start_opening_inv [OF assms(1)]])
  have r: "racing (wd_host V)" "\<forall>x \<in> set (wd_guests V). racing x"
    "released (wd_host V) \<or> (\<exists>x \<in> set (wd_guests V). released x)"
    using assms(3) by (auto simp: racing_released_def all_racing_def some_released_def list_all_iff list_ex_iff)
  obtain k l c where t: "released (wd_host V)" "armed (wd_host V)" "in_scene k l c (wd_host V)"
    "\<forall>x \<in> set (wd_guests V). armed x \<and> in_scene k l c x" by (rule release_together [OF i r(3)])
  then show ?thesis using release_opens [OF i t(2) _ r(1,2)] by auto
qed

theorem start_opens_match_witness:
  "\<exists>b. match_opening b (epoch_chain b (rc_authority (wd_host (fold start_perform example_start example_world))))
     (race_of (fold start_perform example_start example_world))"
  using start_opens_match [OF example_world_opening refl example_released] by blast

text \<open>
  C4 (liveness). A lost release is repaired. If every Go to a guest is lost, the guest, which has armed and
  waits, repeats its Armed when 100 milliseconds are over; for two minutes after its release
  Player 1 answers it with a Go for that guest, and this Go releases it.
\<close>

theorem lost_go_repaired:
  assumes "au_is_host (rc_authority h)" "slot_of h = 0" "au_scene_epoch (rc_authority h) = k" "k \<noteq> 0" "c \<le> 10"
    "\<not> released h" "\<forall>entry \<in> set (st_completed_releases (rc_start h)). cr_epoch entry \<noteq> k"
    "poll_gameplay_resume l c peers t0 h = (PollReady, e, s, y)"
    "(slot_of x, sender) \<in> set peers" "distinct (map fst peers)" "unat (slot_of x) < kMaximumPlayers"
    "awaits_go k l c t1 x" "due t1 (st_last_gameplay_resume_ack (rc_start x)) 100" "service_start t1 x = (sent, x1)"
    "t2 < t0 + seconds 120"
  shows "\<exists>m answer. ToHost MsgGameplayBarrier m 0 \<in> set sent \<and>
    fst (handle_barrier_host (slot_of x) sender m t2 y) = [ToPeer (slot_of x) MsgGameplayBarrier answer 0] \<and>
    released (snd (handle_barrier_guest answer x1))"
proof -
  have y: "remembers k l c peers t0 y" "slot_of y = 0"
    using resume_says_go [OF assms(8,1,6)] assms(2,3,7) by auto
  note a = awaiting_announces [OF assms(12,13,14)]
  let ?m = "barrier_message BarrierArmed k l c (rc_authority x)"
  have "fst (handle_barrier_host (slot_of x) sender ?m t2 y) =
      [ToPeer (slot_of x) MsgGameplayBarrier (barrier_message BarrierGo k l c (rc_authority y)) 0]"
    by (rule remembered_answers [OF y(1) assms(15,9,10,11,4,5) refl refl])
  moreover have "released (snd (handle_barrier_guest (barrier_message BarrierGo k l c (rc_authority y)) x1))"
    by (rule go_arrives [OF assms(12) a(2,3) assms(4,5) y(2) refl])
  ultimately show ?thesis using a(1) by blast
qed

theorem lost_go_repaired_witness:
  "let y = snd (snd (snd (poll_gameplay_resume 5 2 [(1, 77)] 16 (example_waiting True)))) ;
       (sent, x) = service_start 17 (example_waiting False)
   in \<exists>m answer. ToHost MsgGameplayBarrier m 0 \<in> set sent \<and>
     fst (handle_barrier_host 1 77 m (seconds 100) y) = [ToPeer 1 MsgGameplayBarrier answer 0] \<and>
     released (snd (handle_barrier_guest answer x))"
proof -
  let ?h = "example_waiting True" and ?x = "example_waiting False"
  obtain e s y where p: "poll_gameplay_resume 5 2 [(1, 77)] 16 ?h = (PollReady, e, s, y)"
    using example_says_go by (metis prod.collapse)
  obtain sent x1 where v: "service_start 17 ?x = (sent, x1)" by fastforce
  have h: "au_is_host (rc_authority ?h)" "slot_of ?h = 0" "au_scene_epoch (rc_authority ?h) = 1" "\<not> released ?h"
    "st_completed_releases (rc_start ?h) = []" "slot_of ?x = 1" "st_last_gameplay_resume_ack (rc_start ?x) = 0"
    by (simp_all add: example_waiting_def example_racer_def example_peer_def example_authority_def new_barrier_def
        released_def Let_def)
  have "\<exists>m answer. ToHost MsgGameplayBarrier m 0 \<in> set sent \<and>
      fst (handle_barrier_host (slot_of ?x) 77 m (seconds 100) y) = [ToPeer (slot_of ?x) MsgGameplayBarrier answer 0] \<and>
      released (snd (handle_barrier_guest answer x1))"
    by (rule lost_go_repaired [OF h(1-3) _ _ h(4) _ p _ _ _ example_awaits _ v])
      (simp_all add: h due_def seconds_def kMaximumPlayers_def)
  then show ?thesis by (simp add: p v h(6))
qed
end
